(* ===== verification/Kratos_Prelude.thy ===== *)
theory Kratos_Prelude
  imports Main
begin

text \<open>
  Shared vocabulary of the development: the JavaScript values the runtime computes
  with, the lexical tests its contracts use, and the generic facts on lists, results
  and comparators the component theories rest on.

  A JavaScript string is a sequence of UTF-16 code units. The model restricts code
  units to the Latin-1 range and writes one \<^typ>\<open>char\<close> per code unit, so that
  \<^const>\<open>length\<close> is the \<open>length\<close> of the source, an index is a code-unit index and a
  regular expression under the \<open>u\<close> flag reads one character per unit. Numbers that
  the source keeps integral (revisions, attempts, tokens, milliseconds) are \<^typ>\<open>int\<close>,
  with \<open>Number.isSafeInteger\<close> written out. An exception is the \<^const>\<open>Inl\<close> side of a sum.
\<close>

section \<open>Collections of simplification rules\<close>

named_theorems js_defs \<open>definitions of small JavaScript helpers\<close>
named_theorems guard_simps \<open>unfolding of the guards of a component\<close>

section \<open>Results\<close>

type_synonym ('e, 'a) result = "'e + 'a"

fun bind_result :: "('e, 'a) result \<Rightarrow> ('a \<Rightarrow> ('e, 'b) result) \<Rightarrow> ('e, 'b) result" where
  "bind_result (Inl e) f = Inl e"
| "bind_result (Inr x) f = f x"

lemma bind_result_Inr_iff [simp]:
  "bind_result r f = Inr y \<longleftrightarrow> (\<exists>x. r = Inr x \<and> f x = Inr y)"
  by (cases r) auto

lemma bind_result_Inl_iff:
  "bind_result r f = Inl e \<longleftrightarrow> r = Inl e \<or> (\<exists>x. r = Inr x \<and> f x = Inl e)"
  by (cases r) auto

definition is_ok :: "('e, 'a) result \<Rightarrow> bool" where
  "is_ok r = (case r of Inl _ \<Rightarrow> False | Inr _ \<Rightarrow> True)"

lemma is_ok_simps [simp]: "is_ok (Inr x)" "\<not> is_ok (Inl e)"
  by (simp_all add: is_ok_def)

lemma is_ok_iff: "is_ok r \<longleftrightarrow> (\<exists>x. r = Inr x)"
  by (cases r) auto

section \<open>Numbers\<close>

definition MAX_SAFE_INTEGER :: int where
  "MAX_SAFE_INTEGER = 9007199254740991"

definition isSafeInteger :: "int \<Rightarrow> bool" where
  "isSafeInteger n \<longleftrightarrow> - MAX_SAFE_INTEGER \<le> n \<and> n \<le> MAX_SAFE_INTEGER"

lemmas safe_integer_defs = MAX_SAFE_INTEGER_def isSafeInteger_def

text \<open>Decimal text of a number, as \<open>String(n)\<close> and \<open>JSON.stringify(n)\<close> print an integer.\<close>

definition digit_char :: "nat \<Rightarrow> char" where
  "digit_char d = char_of (48 + d)"

fun nat_text :: "nat \<Rightarrow> string" where
  "nat_text n = (if n < 10 then [digit_char n] else nat_text (n div 10) @ [digit_char (n mod 10)])"

declare nat_text.simps [simp del]

definition int_text :: "int \<Rightarrow> string" where
  "int_text n = (if n < 0 then CHR ''-'' # nat_text (nat (- n)) else nat_text (nat n))"

text \<open>\<open>s.padStart(n, "0")\<close>.\<close>

definition pad_start :: "nat \<Rightarrow> string \<Rightarrow> string" where
  "pad_start n s = replicate (n - length s) (CHR ''0'') @ s"

section \<open>Characters and lexical tests\<close>

definition code_unit :: "char \<Rightarrow> nat" where
  "code_unit c = of_char c"

definition is_digit :: "char \<Rightarrow> bool" where
  "is_digit c \<longleftrightarrow> 48 \<le> code_unit c \<and> code_unit c \<le> 57"

definition is_upper :: "char \<Rightarrow> bool" where
  "is_upper c \<longleftrightarrow> 65 \<le> code_unit c \<and> code_unit c \<le> 90"

definition is_lower :: "char \<Rightarrow> bool" where
  "is_lower c \<longleftrightarrow> 97 \<le> code_unit c \<and> code_unit c \<le> 122"

definition is_alnum :: "char \<Rightarrow> bool" where
  "is_alnum c \<longleftrightarrow> is_digit c \<or> is_upper c \<or> is_lower c"

definition is_hex_lower :: "char \<Rightarrow> bool" where
  "is_hex_lower c \<longleftrightarrow> is_digit c \<or> (97 \<le> code_unit c \<and> code_unit c \<le> 102)"

definition is_control :: "char \<Rightarrow> bool" where
  "is_control c \<longleftrightarrow> code_unit c \<le> 31 \<or> code_unit c = 127"

lemmas char_class_defs =
  code_unit_def is_digit_def is_upper_def is_lower_def is_alnum_def is_hex_lower_def
  is_control_def

text \<open>White space of \<open>String.prototype.trim\<close> within Latin-1.\<close>

definition is_js_space :: "char \<Rightarrow> bool" where
  "is_js_space c \<longleftrightarrow> (9 \<le> code_unit c \<and> code_unit c \<le> 13) \<or> code_unit c = 32 \<or> code_unit c = 160"

definition js_trim :: "string \<Rightarrow> string" where
  "js_trim s = rev (dropWhile is_js_space (rev (dropWhile is_js_space s)))"

text \<open>\<open>String.prototype.toLowerCase\<close> within Latin-1.\<close>

definition lower_char :: "char \<Rightarrow> char" where
  "lower_char c =
     (if is_upper c \<or> (192 \<le> code_unit c \<and> code_unit c \<le> 222 \<and> code_unit c \<noteq> 215)
      then char_of (code_unit c + 32) else c)"

definition to_lower_case :: "string \<Rightarrow> string" where
  "to_lower_case s = map lower_char s"

fun starts_with :: "string \<Rightarrow> string \<Rightarrow> bool" where
  "starts_with [] s = True"
| "starts_with (p # ps) [] = False"
| "starts_with (p # ps) (c # cs) = (p = c \<and> starts_with ps cs)"

lemma starts_with_iff: "starts_with p s \<longleftrightarrow> (\<exists>r. s = p @ r)"
  by (induction p s rule: starts_with.induct) auto

lemma starts_with_append [simp]: "starts_with p (p @ r)"
  by (auto simp: starts_with_iff)

definition ends_with :: "string \<Rightarrow> string \<Rightarrow> bool" where
  "ends_with p s = starts_with (rev p) (rev s)"

text \<open>\<open>s.split(c)\<close> for a one-character separator, and \<open>xs.join(c)\<close>.\<close>

fun split_on :: "char \<Rightarrow> string \<Rightarrow> string list" where
  "split_on c [] = [[]]"
| "split_on c (x # xs) =
     (if x = c then [] # split_on c xs
      else (case split_on c xs of [] \<Rightarrow> [[x]] | s # ss \<Rightarrow> (x # s) # ss))"

fun join_with :: "char \<Rightarrow> string list \<Rightarrow> string" where
  "join_with c [] = []"
| "join_with c [s] = s"
| "join_with c (s # t # ss) = s @ [c] @ join_with c (t # ss)"

lemma split_on_nonempty [simp]: "split_on c s \<noteq> []"
  by (induction s) (auto split: list.splits)

lemma join_split_on: "join_with c (split_on c s) = s"
proof (induction s)
  case Nil
  then show ?case by simp
next
  case (Cons x xs)
  obtain t ts where ts: "split_on c xs = t # ts"
    by (cases "split_on c xs") auto
  with Cons show ?case by (cases ts) auto
qed

lemma split_on_no_sep: "t \<in> set (split_on c s) \<Longrightarrow> c \<notin> set t"
  by (induction s arbitrary: t) (auto split: list.splits if_splits)

lemma split_on_free: "c \<notin> set s \<Longrightarrow> split_on c s = [s]"
  by (induction s) auto

lemma split_on_append_sep: "c \<notin> set s \<Longrightarrow> split_on c (s @ c # r) = s # split_on c r"
  by (induction s) auto

lemma split_join:
  "ss \<noteq> [] \<Longrightarrow> (\<forall>s \<in> set ss. c \<notin> set s) \<Longrightarrow> split_on c (join_with c ss) = ss"
  by (induction c ss rule: join_with.induct) (auto simp: split_on_free split_on_append_sep)

text \<open>
  The regular expressions of \<open>domain/workflow/decision.ts\<close> and of the contract
  schemas, as predicates on the whole string.
\<close>

definition is_id_char :: "char \<Rightarrow> bool" where
  "is_id_char c \<longleftrightarrow> is_alnum c \<or> c \<in> {CHR ''.'', CHR ''_'', CHR '':'', CHR ''-''}"

fun id_test :: "string \<Rightarrow> bool" where
  "id_test [] = False"
| "id_test (c # cs) = (is_alnum c \<and> list_all is_id_char cs \<and> length cs \<le> 127)"

fun feature_test :: "string \<Rightarrow> bool" where
  "feature_test [] = False"
| "feature_test (c # cs) =
     ((is_lower c \<or> is_digit c) \<and>
      list_all (\<lambda>d. is_lower d \<or> is_digit d \<or> d = CHR ''-'') cs \<and> length cs \<le> 63)"

definition sha256_test :: "string \<Rightarrow> bool" where
  "sha256_test s \<longleftrightarrow> length s = 64 \<and> list_all is_hex_lower s"

text \<open>A URL scheme followed by \<open>://\<close> at the start of the string.\<close>

definition scheme_prefix :: "string \<Rightarrow> bool" where
  "scheme_prefix s =
     (case s of [] \<Rightarrow> False
      | c # cs \<Rightarrow> is_lower c \<and>
          starts_with ''://''
            (dropWhile (\<lambda>d. is_lower d \<or> is_digit d \<or> d \<in> {CHR ''+'', CHR ''.'', CHR ''-''}) cs))"

definition drive_prefix :: "string \<Rightarrow> bool" where
  "drive_prefix s =
     (case s of c # d # e # _ \<Rightarrow> (is_upper c \<or> is_lower c) \<and> d = CHR '':'' \<and>
        (e = CHR ''/'' \<or> code_unit e = 92) | _ \<Rightarrow> False)"

definition reference_test :: "string \<Rightarrow> bool" where
  "reference_test s \<longleftrightarrow>
     \<not> starts_with ''/'' s \<and> \<not> drive_prefix s \<and> list_all (\<lambda>c. code_unit c \<noteq> 92) s \<and>
     ''..'' \<notin> set (split_on (CHR ''/'') s) \<and> \<not> scheme_prefix s \<and>
     list_all (\<lambda>c. \<not> is_control c) s \<and> 1 \<le> length s \<and> length s \<le> 1024"

text \<open>
  The acceptance-criterion grammar \<open>^AC-\d+\.\d+\.E?\d+$\<close> with at most 128 code units
  (\<open>contracts/src/acceptance-criteria.ts\<close>).
\<close>

definition all_digits1 :: "string \<Rightarrow> bool" where
  "all_digits1 s \<longleftrightarrow> s \<noteq> [] \<and> list_all is_digit s"

definition isAcceptanceCriterionId :: "string \<Rightarrow> bool" where
  "isAcceptanceCriterionId s \<longleftrightarrow> length s \<le> 128 \<and> starts_with ''AC-'' s \<and>
     (case split_on (CHR ''.'') (drop 3 s) of
        [a, b, c] \<Rightarrow> all_digits1 a \<and> all_digits1 b \<and>
          all_digits1 (if starts_with ''E'' c then tl c else c)
      | _ \<Rightarrow> False)"

section \<open>Lists\<close>

text \<open>\<open>[...new Set(xs)]\<close> keeps the first occurrence of each element.\<close>

definition js_set_list :: "'a list \<Rightarrow> 'a list" where
  "js_set_list xs = rev (remdups (rev xs))"

lemma set_js_set_list [simp]: "set (js_set_list xs) = set xs"
  by (simp add: js_set_list_def)

lemma distinct_js_set_list [simp]: "distinct (js_set_list xs)"
  by (simp add: js_set_list_def)

lemma map_of_find_key:
  "List.find (\<lambda>p. f p = k) xs = Some x \<Longrightarrow> x \<in> set xs \<and> f x = k"
  by (auto simp: find_Some_iff)

section \<open>Sorting with a comparator\<close>

text \<open>
  \<open>Array.prototype.sort\<close> is stable; with a consistent comparator its result is the one
  stable insertion computes.
\<close>

fun js_insert :: "('a \<Rightarrow> 'a \<Rightarrow> int) \<Rightarrow> 'a \<Rightarrow> 'a list \<Rightarrow> 'a list" where
  "js_insert cmp x [] = [x]"
| "js_insert cmp x (y # ys) = (if cmp x y \<le> 0 then x # y # ys else y # js_insert cmp x ys)"

definition js_sort :: "('a \<Rightarrow> 'a \<Rightarrow> int) \<Rightarrow> 'a list \<Rightarrow> 'a list" where
  "js_sort cmp xs = foldr (js_insert cmp) xs []"

text \<open>The contract a comparator has to meet for \<open>sort\<close> to be meaningful.\<close>

locale js_comparator =
  fixes cmp :: "'a \<Rightarrow> 'a \<Rightarrow> int"
  assumes cmp_total: "cmp x y \<le> 0 \<or> cmp y x \<le> 0"
    and cmp_trans: "cmp x y \<le> 0 \<Longrightarrow> cmp y z \<le> 0 \<Longrightarrow> cmp x z \<le> 0"
begin

lemma set_insert [simp]: "set (js_insert cmp x ys) = insert x (set ys)"
  by (induction ys) auto

lemma length_insert [simp]: "length (js_insert cmp x ys) = Suc (length ys)"
  by (induction ys) auto

lemma set_sort [simp]: "set (js_sort cmp xs) = set xs"
  by (induction xs) (auto simp: js_sort_def)

lemma length_sort [simp]: "length (js_sort cmp xs) = length xs"
  by (induction xs) (auto simp: js_sort_def)

lemma count_insert: "count_list (js_insert cmp x ys) a = count_list (x # ys) a"
  by (induction ys) auto

lemma count_sort: "count_list (js_sort cmp xs) a = count_list xs a"
  by (induction xs) (auto simp: js_sort_def count_insert)

lemma sorted_insert:
  "sorted_wrt (\<lambda>a b. cmp a b \<le> 0) ys \<Longrightarrow> sorted_wrt (\<lambda>a b. cmp a b \<le> 0) (js_insert cmp x ys)"
proof (induction ys)
  case Nil
  then show ?case by simp
next
  case (Cons y ys)
  then show ?case using cmp_total cmp_trans by (auto intro: cmp_trans)
qed

lemma sorted_sort: "sorted_wrt (\<lambda>a b. cmp a b \<le> 0) (js_sort cmp xs)"
  by (induction xs) (auto simp: js_sort_def intro: sorted_insert)

lemma insert_min:
  "(\<And>y. y \<in> set ys \<Longrightarrow> cmp x y \<le> 0) \<Longrightarrow> js_insert cmp x ys = x # ys"
  by (cases ys) auto

lemma sort_sorted_id: "sorted_wrt (\<lambda>a b. cmp a b \<le> 0) xs \<Longrightarrow> js_sort cmp xs = xs"
  by (induction xs) (auto simp: js_sort_def insert_min)

lemma sort_Nil_iff [simp]: "js_sort cmp xs = [] \<longleftrightarrow> xs = []"
  by (metis length_0_conv length_sort)

lemma sort_head_least:
  assumes "js_sort cmp xs = y # ys" and "x \<in> set xs"
  shows "cmp y x \<le> 0"
proof -
  have "x \<in> set (y # ys)" using assms set_sort by metis
  moreover have "sorted_wrt (\<lambda>a b. cmp a b \<le> 0) (y # ys)" using sorted_sort assms(1) by metis
  ultimately show ?thesis using cmp_total [of y y] by auto
qed

end

section \<open>Replaying a sequence of events\<close>

text \<open>A fallible step folded over a list of events stops at the first failure.\<close>

fun replay_from :: "('s \<Rightarrow> 'e \<Rightarrow> ('x, 's) result) \<Rightarrow> 's \<Rightarrow> 'e list \<Rightarrow> ('x, 's) result" where
  "replay_from step s [] = Inr s"
| "replay_from step s (e # es) = bind_result (step s e) (\<lambda>t. replay_from step t es)"

lemma replay_from_append:
  "replay_from step s (xs @ ys) = bind_result (replay_from step s xs) (\<lambda>t. replay_from step t ys)"
proof (induction xs arbitrary: s)
  case (Cons x xs)
  then show ?case by (cases "step s x") auto
qed simp

text \<open>
  The contract of a reducer: on every event that meets the sequencing rule \<open>ok\<close> of the
  state it is applied to, a successful step keeps the invariant.
\<close>

locale event_reducer =
  fixes step :: "'s \<Rightarrow> 'e \<Rightarrow> ('x, 's) result"
    and ok :: "'s \<Rightarrow> 'e \<Rightarrow> bool"
    and inv :: "'s \<Rightarrow> bool"
  assumes step_inv: "inv s \<Longrightarrow> ok s e \<Longrightarrow> step s e = Inr t \<Longrightarrow> inv t"
begin

inductive reachable :: "'s \<Rightarrow> 's \<Rightarrow> bool" for seed where
  seed: "reachable seed seed"
| event: "reachable seed s \<Longrightarrow> ok s e \<Longrightarrow> step s e = Inr t \<Longrightarrow> reachable seed t"

lemma reachable_inv: "reachable seed s \<Longrightarrow> inv seed \<Longrightarrow> inv s"
  by (induction rule: reachable.induct) (auto intro: step_inv)

fun ok_run :: "'s \<Rightarrow> 'e list \<Rightarrow> bool" where
  "ok_run s [] = True"
| "ok_run s (e # es) = (ok s e \<and> (case step s e of Inl _ \<Rightarrow> True | Inr t \<Rightarrow> ok_run t es))"

lemma replay_reachable:
  "reachable seed s \<Longrightarrow> ok_run s es \<Longrightarrow> replay_from step s es = Inr t \<Longrightarrow> reachable seed t"
proof (induction es arbitrary: s)
  case (Cons e es)
  then obtain u where u: "step s e = Inr u" "replay_from step u es = Inr t" by auto
  with Cons.prems have "reachable seed u" by (auto intro: event)
  with Cons u show ?case by auto
qed simp

lemma replay_inv:
  "inv s \<Longrightarrow> ok_run s es \<Longrightarrow> replay_from step s es = Inr t \<Longrightarrow> inv t"
  using replay_reachable [OF seed] reachable_inv by blast

end

end
