(* ===== verification/Gates.thy ===== *)
theory Gates
  imports Kratos_Prelude
begin

text \<open>
  The policy gates of \<open>domain/gates\<close>: the closed set of gate identifiers with their
  priorities and reason codes, the mode-dependent ordering and aggregation of
  failures, and the ordered evaluation \<open>evaluateGates\<close> that turns one observed
  context into the gate decision the workflow and the final acceptance read.
\<close>

section \<open>Gate model\<close>

datatype gate_mode = Shadow | Warn | Enforce

datatype gate_id =
    Context_readable | Stop_loss | Prd_present | Spec_approved
  | Gaps_closed | Partition_approved | Acceptance_criteria | Final_acceptance

definition GATE_IDS :: "gate_id list" where
  "GATE_IDS = [Context_readable, Stop_loss, Prd_present, Spec_approved,
     Gaps_closed, Partition_approved, Acceptance_criteria, Final_acceptance]"

fun gate_id_text :: "gate_id \<Rightarrow> string" where
  "gate_id_text Context_readable = ''context-readable''"
| "gate_id_text Stop_loss = ''stop-loss''"
| "gate_id_text Prd_present = ''prd-present''"
| "gate_id_text Spec_approved = ''spec-approved''"
| "gate_id_text Gaps_closed = ''gaps-closed''"
| "gate_id_text Partition_approved = ''partition-approved''"
| "gate_id_text Acceptance_criteria = ''acceptance-criteria''"
| "gate_id_text Final_acceptance = ''final-acceptance''"

datatype policy_mode = Standard | Strict

datatype gate_outcome = Pass_outcome | Warn_outcome | Block_outcome

type_synonym gate_modes = "gate_id \<Rightarrow> gate_mode"

fun GATE_PRIORITIES :: "gate_id \<Rightarrow> int" where
  "GATE_PRIORITIES Context_readable = 10"
| "GATE_PRIORITIES Stop_loss = 20"
| "GATE_PRIORITIES Prd_present = 30"
| "GATE_PRIORITIES Spec_approved = 40"
| "GATE_PRIORITIES Gaps_closed = 50"
| "GATE_PRIORITIES Partition_approved = 60"
| "GATE_PRIORITIES Acceptance_criteria = 70"
| "GATE_PRIORITIES Final_acceptance = 80"

datatype gate_failure_reason =
    Blocked_context_unreadable | Blocked_stop_loss_budget | Blocked_stop_loss_flag
  | Blocked_stop_loss_rejections | Gate_aceitacao_final | Gate_ac_incomplete
  | Gate_aprovacao_spec | Gate_gaps_abertos | Gate_particionamento | Gate_prd_ausente
  | Gate_prd_section_missing | Gate_prd_untouched

fun gate_reason_text :: "gate_failure_reason \<Rightarrow> string" where
  "gate_reason_text Blocked_context_unreadable = ''blocked.context_unreadable''"
| "gate_reason_text Blocked_stop_loss_budget = ''blocked.stop_loss_budget''"
| "gate_reason_text Blocked_stop_loss_flag = ''blocked.stop_loss_flag''"
| "gate_reason_text Blocked_stop_loss_rejections = ''blocked.stop_loss_rejections''"
| "gate_reason_text Gate_aceitacao_final = ''gate.aceitacao_final''"
| "gate_reason_text Gate_ac_incomplete = ''gate.ac_incomplete''"
| "gate_reason_text Gate_aprovacao_spec = ''gate.aprovacao_spec''"
| "gate_reason_text Gate_gaps_abertos = ''gate.gaps_abertos''"
| "gate_reason_text Gate_particionamento = ''gate.particionamento''"
| "gate_reason_text Gate_prd_ausente = ''gate.prd_ausente''"
| "gate_reason_text Gate_prd_section_missing = ''gate.prd_section_missing''"
| "gate_reason_text Gate_prd_untouched = ''gate.prd_untouched''"

fun GATE_REASON_CODES :: "gate_id \<Rightarrow> gate_failure_reason list" where
  "GATE_REASON_CODES Context_readable = [Blocked_context_unreadable]"
| "GATE_REASON_CODES Stop_loss =
     [Blocked_stop_loss_budget, Blocked_stop_loss_flag, Blocked_stop_loss_rejections]"
| "GATE_REASON_CODES Prd_present =
     [Gate_prd_ausente, Gate_prd_section_missing, Gate_prd_untouched]"
| "GATE_REASON_CODES Spec_approved = [Gate_aprovacao_spec]"
| "GATE_REASON_CODES Gaps_closed = [Gate_gaps_abertos]"
| "GATE_REASON_CODES Partition_approved = [Gate_particionamento]"
| "GATE_REASON_CODES Acceptance_criteria = [Gate_ac_incomplete]"
| "GATE_REASON_CODES Final_acceptance = [Gate_aceitacao_final]"

record gate_failure =
  gf_gateId :: gate_id
  gf_reasonCode :: gate_failure_reason
  gf_priority :: int
  gf_mode :: gate_mode
  gf_evidenceRefs :: "string list"
  gf_detail :: "string option"

record gate_aggregation =
  ga_outcome :: gate_outcome
  ga_primary :: "gate_failure option"
  ga_failures :: "gate_failure list"

text \<open>An advisory carries the identity of a gate only where one is given.\<close>

record gate_advisory =
  adv_gateId :: "gate_id option"
  adv_reasonCode :: string
  adv_evidenceRefs :: "string list"
  adv_detail :: "string option"

datatype approval_decision = Approved | Rejected

record approval =
  ap_approvalId :: string
  ap_runId :: string
  ap_gate :: string
  ap_decision :: approval_decision
  ap_prdDigest :: string
  ap_specDigest :: string
  ap_policyVersion :: string
  ap_approver :: string
  ap_observation :: string
  ap_challenge :: string
  ap_decidedAt :: string
  ap_expiresAt :: string

datatype run_phase = Prd | Spec | Plan | Code | Review | Acceptance

datatype prd_document = Prd_missing | Prd_untouched | Prd_incomplete string | Prd_complete

datatype fault_class = Code_fault | Specification_fault

record repeated_rejection =
  rr_criterionId :: string
  rr_attempt :: int
  rr_classification :: fault_class
  rr_artifactRef :: string

datatype criterion_state = Crit_passed | Crit_failed | Crit_not_run | Crit_unreported

record criterion_gate_state =
  cg_criterionId :: string
  cg_state :: criterion_state
  cg_checked :: bool
  cg_evidenceValid :: bool

datatype artifact_type =
    Art_conversation | Art_documentation | Art_comments | Art_identifiers | Art_commits

datatype enforcement = Advisory_enforcement | Off_enforcement

record language_policy =
  lp_conversation :: string
  lp_documentation :: string
  lp_comments :: string
  lp_identifiers :: string
  lp_commits :: string
  lp_preserveConventions :: bool
  lp_enforcement :: enforcement

record language_observation =
  lo_artifactRef :: "string option"
  lo_artifactType :: "artifact_type option"
  lo_observedLanguage :: "string option"
  lo_expectedLanguage :: "string option"
  lo_mismatch :: "bool option"
  lo_detail :: "string option"

record gate_context =
  gc_gateModes :: gate_modes
  gc_phase :: run_phase
  gc_contextReadable :: bool
  gc_stopLoss_tripped :: bool
  gc_stopLoss_exhausted :: bool
  gc_stopLoss_repeatedRejections :: "repeated_rejection list option"
  gc_prdDigest :: "string option"
  gc_prdDocument :: prd_document
  gc_specDigest :: "string option"
  gc_approvals :: "approval list"
  gc_openGaps :: int
  gc_partitionRequired :: bool
  gc_partitionApproved :: bool
  gc_finalAcceptance :: bool
  gc_acceptanceCriteria :: "criterion_gate_state list option"
  gc_languagePolicy :: "language_policy option"
  gc_languageObservations :: "language_observation list option"
  gc_languageMismatch :: "bool option"

record gate_decision =
  gd_outcome :: gate_outcome
  gd_primary :: "gate_failure option"
  gd_failures :: "gate_failure list"
  gd_gateModes :: gate_modes
  gd_advisories :: "gate_advisory list option"
  gd_criteria :: "criterion_gate_state list"

section \<open>Policy: modes, ordering and aggregation\<close>

fun SEVERITY :: "gate_outcome \<Rightarrow> int" where
  "SEVERITY Block_outcome = 0"
| "SEVERITY Warn_outcome = 1"
| "SEVERITY Pass_outcome = 2"

definition outcomeForMode :: "gate_mode \<Rightarrow> gate_outcome" where
  "outcomeForMode m =
     (if m = Enforce then Block_outcome else if m = Warn then Warn_outcome else Pass_outcome)"

definition resolveGateModes :: "policy_mode \<Rightarrow> (gate_id \<rightharpoonup> gate_mode) \<Rightarrow> gate_modes" where
  "resolveGateModes policyMode overrides =
     (let inherited = (if policyMode = Strict then Enforce else Warn)
      in (\<lambda>i. case overrides i of Some m \<Rightarrow> m | None \<Rightarrow> inherited))"

definition gate_id_of_text :: "string \<Rightarrow> gate_id option" where
  "gate_id_of_text s = List.find (\<lambda>i. gate_id_text i = s) GATE_IDS"

definition approvalModeFor :: "string \<Rightarrow> gate_mode \<Rightarrow> gate_modes \<Rightarrow> gate_mode" where
  "approvalModeFor target defaultMode gateModes =
     (if target = ''spec'' then gateModes Spec_approved
      else if target = ''final-acceptance'' then gateModes Final_acceptance
      else (case gate_id_of_text target of Some i \<Rightarrow> gateModes i | None \<Rightarrow> defaultMode))"

text \<open>
  \<open>localeCompare(\<dots>, "en-US")\<close> on gate identifiers. They consist of lower-case
  ASCII letters and hyphens, on which the collation orders the hyphen before the
  letters and the letters alphabetically: the order of their code units.
\<close>

fun text_compare :: "string \<Rightarrow> string \<Rightarrow> int" where
  "text_compare [] [] = 0"
| "text_compare [] (b # bs) = -1"
| "text_compare (a # as) [] = 1"
| "text_compare (a # as) (b # bs) =
     (if code_unit a < code_unit b then -1
      else if code_unit b < code_unit a then 1 else text_compare as bs)"

definition compareGateFailures :: "gate_failure \<Rightarrow> gate_failure \<Rightarrow> int" where
  "compareGateFailures left right =
     (let severity = SEVERITY (outcomeForMode (gf_mode left)) - SEVERITY (outcomeForMode (gf_mode right));
          priority = gf_priority left - gf_priority right
      in if severity \<noteq> 0 then severity
         else if priority \<noteq> 0 then priority
         else text_compare (gate_id_text (gf_gateId left)) (gate_id_text (gf_gateId right)))"

definition aggregateGateFailures :: "gate_failure list \<Rightarrow> gate_aggregation" where
  "aggregateGateFailures input =
     (let failures = js_sort compareGateFailures input
      in \<lparr> ga_outcome = (case failures of [] \<Rightarrow> Pass_outcome | f # _ \<Rightarrow> outcomeForMode (gf_mode f)),
           ga_primary = (case failures of [] \<Rightarrow> None | f # _ \<Rightarrow> Some f),
           ga_failures = failures \<rparr>)"

section \<open>Evaluation\<close>

definition failure ::
  "gate_id \<Rightarrow> gate_failure_reason \<Rightarrow> gate_context \<Rightarrow> string list \<Rightarrow> string option \<Rightarrow> gate_failure" where
  "failure gateId reasonCode context evidenceRefs detail =
     \<lparr> gf_gateId = gateId, gf_reasonCode = reasonCode, gf_priority = GATE_PRIORITIES gateId,
       gf_mode = gc_gateModes context gateId, gf_evidenceRefs = evidenceRefs, gf_detail = detail \<rparr>"

definition advisory :: "string \<Rightarrow> string list \<Rightarrow> string option \<Rightarrow> gate_id option \<Rightarrow> gate_advisory" where
  "advisory reasonCode evidenceRefs detail gateId =
     \<lparr> adv_gateId = gateId, adv_reasonCode = reasonCode,
       adv_evidenceRefs = evidenceRefs, adv_detail = detail \<rparr>"

definition approved :: "approval list \<Rightarrow> string \<Rightarrow> gate_context \<Rightarrow> bool" where
  "approved approvals gate context =
     list_ex (\<lambda>a. ap_gate a = gate \<and> ap_decision a = Approved \<and>
       Some (ap_prdDigest a) = gc_prdDigest context \<and>
       Some (ap_specDigest a) = gc_specDigest context) approvals"

fun expectedLanguageForArtifactType :: "language_policy option \<Rightarrow> artifact_type option \<Rightarrow> string option" where
  "expectedLanguageForArtifactType (Some p) (Some Art_conversation) = Some (lp_conversation p)"
| "expectedLanguageForArtifactType (Some p) (Some Art_documentation) = Some (lp_documentation p)"
| "expectedLanguageForArtifactType (Some p) (Some Art_comments) = Some (lp_comments p)"
| "expectedLanguageForArtifactType (Some p) (Some Art_identifiers) = Some (lp_identifiers p)"
| "expectedLanguageForArtifactType (Some p) (Some Art_commits) = Some (lp_commits p)"
| "expectedLanguageForArtifactType _ _ = None"

fun fault_class_text :: "fault_class \<Rightarrow> string" where
  "fault_class_text Code_fault = ''code''"
| "fault_class_text Specification_fault = ''specification''"

definition repeated_rejection_failures :: "gate_context \<Rightarrow> gate_failure list" where
  "repeated_rejection_failures context =
     map (\<lambda>stop. failure Stop_loss Blocked_stop_loss_rejections context [rr_artifactRef stop]
       (Some (''Acceptance criterion '' @ rr_criterionId stop @ '' stopped at attempt '' @
          int_text (rr_attempt stop) @ '' with classification '' @
          fault_class_text (rr_classification stop) @ ''.'')))
       (case gc_stopLoss_repeatedRejections context of None \<Rightarrow> [] | Some xs \<Rightarrow> xs)"

definition prd_failures :: "gate_context \<Rightarrow> gate_failure list" where
  "prd_failures context =
     (case gc_prdDocument context of
        Prd_missing \<Rightarrow> [failure Prd_present Gate_prd_ausente context [''.brain/02-features/active''] None]
      | Prd_untouched \<Rightarrow> [failure Prd_present Gate_prd_untouched context [''.brain/02-features/active''] None]
      | Prd_incomplete s \<Rightarrow> [failure Prd_present Gate_prd_section_missing context
          [''.brain/02-features/active''] (Some (''Missing required section: '' @ s))]
      | Prd_complete \<Rightarrow> [])"

definition criterion_incomplete :: "criterion_gate_state \<Rightarrow> bool" where
  "criterion_incomplete c \<longleftrightarrow> cg_state c \<noteq> Crit_passed \<or> \<not> cg_checked c \<or> \<not> cg_evidenceValid c"

definition context_criteria :: "gate_context \<Rightarrow> criterion_gate_state list" where
  "context_criteria context =
     (case gc_acceptanceCriteria context of None \<Rightarrow> [] | Some cs \<Rightarrow> cs)"

definition gate_failures :: "gate_context \<Rightarrow> gate_failure list" where
  "gate_failures context =
     (if \<not> gc_contextReadable context
      then [failure Context_readable Blocked_context_unreadable context [''.brain/config.json''] None] else []) @
     repeated_rejection_failures context @
     (if gc_stopLoss_exhausted context
      then [failure Stop_loss Blocked_stop_loss_budget context [''.brain/03-memory/task_metrics.md''] None] else []) @
     (if gc_stopLoss_tripped context
      then [failure Stop_loss Blocked_stop_loss_flag context [''.brain/03-memory/task_metrics.md''] None] else []) @
     prd_failures context @
     (if gc_phase context \<in> {Plan, Code, Review, Acceptance} \<and> \<not> approved (gc_approvals context) ''spec'' context
      then [failure Spec_approved Gate_aprovacao_spec context [''.brain/approvals''] None] else []) @
     (if gc_openGaps context > 0
      then [failure Gaps_closed Gate_gaps_abertos context [''.brain/02-features/active''] None] else []) @
     (if gc_partitionRequired context \<and> \<not> gc_partitionApproved context
      then [failure Partition_approved Gate_particionamento context [''.brain/approvals''] None] else []) @
     (case List.find criterion_incomplete (context_criteria context) of
        None \<Rightarrow> []
      | Some incomplete \<Rightarrow>
          if gc_phase context = Acceptance
          then [failure Acceptance_criteria Gate_ac_incomplete context [''.brain/02-features/active'']
            (Some (''Acceptance criterion '' @ cg_criterionId incomplete @ '' is incomplete.''))] else []) @
     (if gc_phase context = Acceptance \<and> \<not> gc_finalAcceptance context
      then [failure Final_acceptance Gate_aceitacao_final context [''.brain/approvals''] None] else [])"

text \<open>
  The truthiness test \<open>obs.observedLanguage && expectedLanguage\<close> is false for the
  empty string as well as for an absent value.
\<close>

definition truthy :: "string option \<Rightarrow> bool" where
  "truthy s \<longleftrightarrow> s \<noteq> None \<and> s \<noteq> Some []"

definition language_advisory :: "gate_context \<Rightarrow> language_observation \<Rightarrow> gate_advisory list" where
  "language_advisory context obs =
     (let expectedFromPolicy = expectedLanguageForArtifactType (gc_languagePolicy context) (lo_artifactType obs);
          expectedLanguage = (case lo_expectedLanguage obs of Some l \<Rightarrow> Some l | None \<Rightarrow> expectedFromPolicy);
          isMismatch = (lo_mismatch obs = Some True \<or>
            (lo_observedLanguage obs \<noteq> None \<and> expectedLanguage \<noteq> None \<and>
             lo_observedLanguage obs \<noteq> expectedLanguage));
          artifactName = (case lo_artifactRef obs of Some r \<Rightarrow> r | None \<Rightarrow> ''artifact'');
          evidenceRef = (case lo_artifactRef obs of Some r \<Rightarrow> r | None \<Rightarrow> ''.brain/02-features/active'');
          detail = (case lo_detail obs of
             Some d \<Rightarrow> d
           | None \<Rightarrow>
               if truthy (lo_observedLanguage obs) \<and> truthy expectedLanguage
               then ''Language divergence detected: expected '' @ [CHR 0x27] @ the expectedLanguage @ [CHR 0x27] @
                 '', observed '' @ [CHR 0x27] @ the (lo_observedLanguage obs) @ [CHR 0x27] @ '' in '' @ artifactName @ ''.''
               else ''Language divergence detected in '' @ artifactName @ ''.'')
      in if isMismatch
         then [advisory ''policy.language_convention_mismatch_advisory'' [evidenceRef] (Some detail) None]
         else [])"

definition gate_advisories :: "gate_context \<Rightarrow> gate_advisory list" where
  "gate_advisories context =
     (let enforcement = (case gc_languagePolicy context of
            None \<Rightarrow> Advisory_enforcement | Some p \<Rightarrow> lp_enforcement p)
      in if enforcement = Off_enforcement then []
         else (if gc_languageMismatch context = Some True
               then [advisory ''policy.language_convention_mismatch_advisory''
                 [''.brain/02-features/active'']
                 (Some ''Artifact language differs from declared language policy.'') None] else []) @
              (case gc_languageObservations context of
                 None \<Rightarrow> [] | Some obs \<Rightarrow> concat (map (language_advisory context) obs)))"

definition evaluateGates :: "gate_context \<Rightarrow> gate_decision" where
  "evaluateGates context =
     (let aggregate = aggregateGateFailures (gate_failures context)
      in \<lparr> gd_outcome = ga_outcome aggregate, gd_primary = ga_primary aggregate,
           gd_failures = ga_failures aggregate, gd_gateModes = gc_gateModes context,
           gd_advisories = Some (gate_advisories context), gd_criteria = context_criteria context \<rparr>)"


section \<open>The comparator is a total preorder\<close>

lemma text_compare_refl [simp]: "text_compare a a = 0"
  by (induction a) auto

lemma text_compare_total: "text_compare a b \<le> 0 \<or> text_compare b a \<le> 0"
  by (induction a b rule: text_compare.induct) auto

lemma text_compare_zero: "text_compare a b = 0 \<Longrightarrow> a = b"
  by (induction a b rule: text_compare.induct)
    (auto simp: code_unit_def of_char_eq_iff split: if_splits)

lemma text_compare_Cons_le:
  "text_compare (a # as) (b # bs) \<le> 0 \<longleftrightarrow>
     code_unit a < code_unit b \<or> code_unit a = code_unit b \<and> text_compare as bs \<le> 0"
  by (cases "code_unit a" "code_unit b" rule: linorder_cases) simp_all

lemma text_compare_trans:
  "text_compare a b \<le> 0 \<Longrightarrow> text_compare b c \<le> 0 \<Longrightarrow> text_compare a c \<le> 0"
proof (induction a b arbitrary: c rule: text_compare.induct)
  case 1
  then show ?case by simp
next
  case (2 b bs)
  then show ?case by (cases c) auto
next
  case (3 a as)
  then show ?case by simp
next
  case (4 a as b bs)
  show ?case
  proof (cases c)
    case Nil
    with "4.prems" show ?thesis by simp
  next
    case (Cons d ds)
    have IH: "text_compare bs ds \<le> 0 \<Longrightarrow> text_compare as ds \<le> 0"
      if "code_unit a = code_unit b" "text_compare as bs \<le> 0"
      using "4.IH" that by simp
    from "4.prems" IH show ?thesis
      unfolding Cons text_compare_Cons_le by (metis order_less_trans)
  qed
qed

abbreviation failure_severity :: "gate_failure \<Rightarrow> int" where
  "failure_severity f \<equiv> SEVERITY (outcomeForMode (gf_mode f))"

lemma compareGateFailures_le:
  "compareGateFailures f g \<le> 0 \<longleftrightarrow>
     failure_severity f < failure_severity g \<or>
     failure_severity f = failure_severity g \<and>
       (gf_priority f < gf_priority g \<or>
        gf_priority f = gf_priority g \<and>
          text_compare (gate_id_text (gf_gateId f)) (gate_id_text (gf_gateId g)) \<le> 0)"
proof -
  have "compareGateFailures f g \<le> 0 \<longleftrightarrow>
      (if s \<noteq> 0 then s else if p \<noteq> 0 then p
       else text_compare (gate_id_text (gf_gateId f)) (gate_id_text (gf_gateId g))) \<le> 0"
    if "s = failure_severity f - failure_severity g" and "p = gf_priority f - gf_priority g" for s p
    unfolding compareGateFailures_def Let_def that ..
  from this [OF refl refl] show ?thesis
    by (cases "failure_severity f = failure_severity g"; cases "gf_priority f = gf_priority g")
      (simp_all add: order_le_less)
qed

interpretation gf: js_comparator compareGateFailures
proof
  fix x y z :: gate_failure
  show "compareGateFailures x y \<le> 0 \<or> compareGateFailures y x \<le> 0"
    unfolding compareGateFailures_le
    using text_compare_total [of "gate_id_text (gf_gateId x)" "gate_id_text (gf_gateId y)"] by linarith
  assume "compareGateFailures x y \<le> 0" and "compareGateFailures y z \<le> 0"
  then show "compareGateFailures x z \<le> 0"
    unfolding compareGateFailures_le
    using text_compare_trans [of "gate_id_text (gf_gateId x)" "gate_id_text (gf_gateId y)"
        "gate_id_text (gf_gateId z)"] by linarith
qed

lemma compareGateFailures_severity:
  "compareGateFailures f g \<le> 0 \<Longrightarrow>
     SEVERITY (outcomeForMode (gf_mode f)) \<le> SEVERITY (outcomeForMode (gf_mode g))"
  unfolding compareGateFailures_le by linarith

lemma ga_failures_aggregate [simp]:
  "ga_failures (aggregateGateFailures fs) = js_sort compareGateFailures fs"
  by (simp add: aggregateGateFailures_def Let_def)

lemma aggregate_Nil [simp]: "aggregateGateFailures [] = \<lparr> ga_outcome = Pass_outcome, ga_primary = None, ga_failures = [] \<rparr>"
  by (simp add: aggregateGateFailures_def js_sort_def)

lemma SEVERITY_inj [simp]: "SEVERITY a = SEVERITY b \<longleftrightarrow> a = b"
  by (cases a; cases b) auto

lemma SEVERITY_least [simp]: "SEVERITY o1 \<le> 0 \<longleftrightarrow> o1 = Block_outcome"
  by (cases o1) auto

text \<open>The outcome of an aggregation is the most severe outcome among its failures.\<close>

lemma aggregate_outcome_least:
  assumes "fs \<noteq> []"
  shows "\<exists>f \<in> set fs. ga_outcome (aggregateGateFailures fs) = outcomeForMode (gf_mode f) \<and>
    (\<forall>g \<in> set fs. SEVERITY (outcomeForMode (gf_mode f)) \<le> SEVERITY (outcomeForMode (gf_mode g)))"
proof -
  from assms obtain f rest where s: "js_sort compareGateFailures fs = f # rest"
    by (cases "js_sort compareGateFailures fs") auto
  then have "f \<in> set fs" by (metis gf.set_sort list.set_intros(1))
  with s show ?thesis
    by (auto simp: aggregateGateFailures_def Let_def
        dest: gf.sort_head_least intro!: bexI [of _ f] compareGateFailures_severity)
qed

lemma aggregate_block_iff:
  "ga_outcome (aggregateGateFailures fs) = Block_outcome \<longleftrightarrow> (\<exists>f \<in> set fs. gf_mode f = Enforce)"
proof (cases "fs = []")
  case True
  then show ?thesis by simp
next
  case False
  have b: "outcomeForMode m = Block_outcome \<longleftrightarrow> m = Enforce" for m
    by (simp add: outcomeForMode_def)
  from aggregate_outcome_least [OF False] obtain f where
    f: "f \<in> set fs" "ga_outcome (aggregateGateFailures fs) = outcomeForMode (gf_mode f)"
    and least: "\<And>g. g \<in> set fs \<Longrightarrow> SEVERITY (outcomeForMode (gf_mode f)) \<le> SEVERITY (outcomeForMode (gf_mode g))"
    by blast
  show ?thesis
  proof
    assume "ga_outcome (aggregateGateFailures fs) = Block_outcome"
    with f b show "\<exists>f \<in> set fs. gf_mode f = Enforce" by metis
  next
    assume "\<exists>f \<in> set fs. gf_mode f = Enforce"
    then obtain g where "g \<in> set fs" "outcomeForMode (gf_mode g) = Block_outcome"
      using b by blast
    with least have "SEVERITY (outcomeForMode (gf_mode f)) \<le> 0" by fastforce
    with f(2) show "ga_outcome (aggregateGateFailures fs) = Block_outcome" by simp
  qed
qed

lemma aggregate_pass_iff:
  "ga_outcome (aggregateGateFailures fs) = Pass_outcome \<longleftrightarrow> (\<forall>f \<in> set fs. gf_mode f = Shadow)"
proof (cases "fs = []")
  case True
  then show ?thesis by simp
next
  case False
  have b: "outcomeForMode m = Pass_outcome \<longleftrightarrow> m = Shadow" for m
    by (cases m) (simp_all add: outcomeForMode_def)
  have two: "2 \<le> SEVERITY p \<longleftrightarrow> p = Pass_outcome" for p by (cases p) auto
  from aggregate_outcome_least [OF False] obtain f where
    f: "f \<in> set fs" "ga_outcome (aggregateGateFailures fs) = outcomeForMode (gf_mode f)"
    and least: "\<And>g. g \<in> set fs \<Longrightarrow> SEVERITY (outcomeForMode (gf_mode f)) \<le> SEVERITY (outcomeForMode (gf_mode g))"
    by blast
  from f(2) least show ?thesis using two b f(1) by (metis SEVERITY.simps(3))
qed

section \<open>The meaning of the gates\<close>

text \<open>
  The abstract specification: what each gate demands of a context, independently of
  the mode it runs in and of how failures are reported.
\<close>

fun gate_satisfied :: "gate_context \<Rightarrow> gate_id \<Rightarrow> bool" where
  "gate_satisfied c Context_readable \<longleftrightarrow> gc_contextReadable c"
| "gate_satisfied c Stop_loss \<longleftrightarrow>
     gc_stopLoss_repeatedRejections c \<in> {None, Some []} \<and>
     \<not> gc_stopLoss_exhausted c \<and> \<not> gc_stopLoss_tripped c"
| "gate_satisfied c Prd_present \<longleftrightarrow> gc_prdDocument c = Prd_complete"
| "gate_satisfied c Spec_approved \<longleftrightarrow>
     gc_phase c \<in> {Prd, Spec} \<or>
     (\<exists>a \<in> set (gc_approvals c). ap_gate a = ''spec'' \<and> ap_decision a = Approved \<and>
        gc_prdDigest c = Some (ap_prdDigest a) \<and> gc_specDigest c = Some (ap_specDigest a))"
| "gate_satisfied c Gaps_closed \<longleftrightarrow> gc_openGaps c \<le> 0"
| "gate_satisfied c Partition_approved \<longleftrightarrow> \<not> gc_partitionRequired c \<or> gc_partitionApproved c"
| "gate_satisfied c Acceptance_criteria \<longleftrightarrow>
     gc_phase c \<noteq> Acceptance \<or>
     (\<forall>k \<in> set (context_criteria c). cg_state k = Crit_passed \<and> cg_checked k \<and> cg_evidenceValid k)"
| "gate_satisfied c Final_acceptance \<longleftrightarrow> gc_phase c \<noteq> Acceptance \<or> gc_finalAcceptance c"

lemma failure_sel [simp]:
  "gf_gateId (failure g r c es d) = g" "gf_reasonCode (failure g r c es d) = r"
  "gf_priority (failure g r c es d) = GATE_PRIORITIES g"
  "gf_mode (failure g r c es d) = gc_gateModes c g"
  by (simp_all add: failure_def)

lemma phase_late: "gc_phase c \<notin> {Plan, Code, Review, Acceptance} \<longleftrightarrow> gc_phase c \<in> {Prd, Spec}"
  by (cases "gc_phase c") auto

lemma mem_image_if_single:
  "g \<in> f ` set (if b then [x] else []) \<longleftrightarrow> b \<and> g = f x"
  by (cases b) simp_all

lemma rejection_ids:
  "g \<in> gf_gateId ` set (repeated_rejection_failures c) \<longleftrightarrow>
     g = Stop_loss \<and> gc_stopLoss_repeatedRejections c \<notin> {None, Some []}"
proof (cases "gc_stopLoss_repeatedRejections c")
  case (Some stops)
  then show ?thesis
    by (cases stops) (auto simp: repeated_rejection_failures_def image_image)
qed (simp add: repeated_rejection_failures_def)

lemma prd_ids:
  "g \<in> gf_gateId ` set (prd_failures c) \<longleftrightarrow> g = Prd_present \<and> gc_prdDocument c \<noteq> Prd_complete"
  by (cases "gc_prdDocument c") (auto simp: prd_failures_def)

lemma criteria_ids:
  "g \<in> gf_gateId ` set (case List.find criterion_incomplete cs of None \<Rightarrow> []
      | Some k \<Rightarrow> if b then [failure Acceptance_criteria r c es (d k)] else []) \<longleftrightarrow>
     g = Acceptance_criteria \<and> b \<and> (\<exists>k \<in> set cs. criterion_incomplete k)"
proof (cases "List.find criterion_incomplete cs")
  case None
  then have "\<not> (\<exists>k \<in> set cs. criterion_incomplete k)" by (auto simp: find_None_iff)
  with None show ?thesis by simp
next
  case (Some k)
  then have "k \<in> set cs" "criterion_incomplete k" by (auto simp: find_Some_iff)
  with Some show ?thesis by (cases b) auto
qed

lemmas failure_ids = mem_image_if_single rejection_ids prd_ids criteria_ids failure_sel

lemma gate_failures_ids:
  "g \<in> gf_gateId ` set (gate_failures c) \<longleftrightarrow> \<not> gate_satisfied c g"
  unfolding gate_failures_def set_append image_Un Un_iff failure_ids
  using phase_late [of c]
  by (cases g) (auto simp: approved_def list_ex_iff criterion_incomplete_def)

definition well_formed_failure :: "gate_modes \<Rightarrow> gate_failure \<Rightarrow> bool" where
  "well_formed_failure modes f \<longleftrightarrow>
     gf_priority f = GATE_PRIORITIES (gf_gateId f) \<and> gf_mode f = modes (gf_gateId f) \<and>
     gf_reasonCode f \<in> set (GATE_REASON_CODES (gf_gateId f))"

lemma gate_failures_well_formed:
  "f \<in> set (gate_failures c) \<Longrightarrow> well_formed_failure (gc_gateModes c) f"
  by (auto simp: gate_failures_def repeated_rejection_failures_def prd_failures_def
      well_formed_failure_def split: option.splits prd_document.splits if_splits)

lemma gate_failures_mode: "f \<in> set (gate_failures c) \<Longrightarrow> gf_mode f = gc_gateModes c (gf_gateId f)"
  by (drule gate_failures_well_formed) (simp add: well_formed_failure_def)

lemma evaluateGates_sel [simp]:
  "gd_failures (evaluateGates c) = js_sort compareGateFailures (gate_failures c)"
  "gd_outcome (evaluateGates c) = ga_outcome (aggregateGateFailures (gate_failures c))"
  "gd_primary (evaluateGates c) = ga_primary (aggregateGateFailures (gate_failures c))"
  "gd_criteria (evaluateGates c) = context_criteria c"
  by (simp_all add: evaluateGates_def Let_def)

lemma failing_mode_iff: "(\<exists>f \<in> set (gate_failures c). gf_mode f = m) \<longleftrightarrow> (\<exists>g. gc_gateModes c g = m \<and> \<not> gate_satisfied c g)"
  unfolding gate_failures_ids [symmetric] by (auto simp: gate_failures_mode)

lemma gate_block_iff:
  "gd_outcome (evaluateGates c) = Block_outcome \<longleftrightarrow> (\<exists>g. gc_gateModes c g = Enforce \<and> \<not> gate_satisfied c g)"
  unfolding evaluateGates_sel aggregate_block_iff failing_mode_iff ..

section \<open>Properties\<close>

text \<open>
  C30: The outcome of an evaluation blocks exactly when an enforced gate is unsatisfied,
  warns exactly when no enforced gate but a warned gate is unsatisfied, and passes
  otherwise, whatever the number and order of the failures.
\<close>

theorem evaluateGates_outcome:
  "gd_outcome (evaluateGates c) =
     (if \<exists>g. gc_gateModes c g = Enforce \<and> \<not> gate_satisfied c g then Block_outcome
      else if \<exists>g. gc_gateModes c g = Warn \<and> \<not> gate_satisfied c g then Warn_outcome
      else Pass_outcome)"
proof -
  have shadow: "gf_mode f = Shadow \<longleftrightarrow> gf_mode f \<noteq> Enforce \<and> gf_mode f \<noteq> Warn" for f
    by (cases "gf_mode f") simp_all
  have all: "(\<forall>f \<in> set (gate_failures c). gf_mode f = Shadow) \<longleftrightarrow>
      \<not> (\<exists>f \<in> set (gate_failures c). gf_mode f = Enforce) \<and> \<not> (\<exists>f \<in> set (gate_failures c). gf_mode f = Warn)"
    unfolding shadow by blast
  have pass: "gd_outcome (evaluateGates c) = Pass_outcome \<longleftrightarrow>
      \<not> (\<exists>g. gc_gateModes c g = Enforce \<and> \<not> gate_satisfied c g) \<and> \<not> (\<exists>g. gc_gateModes c g = Warn \<and> \<not> gate_satisfied c g)"
    unfolding evaluateGates_sel aggregate_pass_iff all failing_mode_iff ..
  show ?thesis
  proof (cases "gd_outcome (evaluateGates c)")
    case Pass_outcome
    then show ?thesis using pass by (simp only: if_False simp_thms)
  next
    case Warn_outcome
    then have "gd_outcome (evaluateGates c) \<noteq> Block_outcome" "gd_outcome (evaluateGates c) \<noteq> Pass_outcome"
      by simp_all
    then show ?thesis using Warn_outcome gate_block_iff [of c] pass by (simp only: if_False if_True not_not simp_thms)
  next
    case Block_outcome
    then show ?thesis using gate_block_iff [of c] by (simp only: if_True)
  qed
qed

text \<open>
  The reported failures name exactly the unsatisfied gates, each with its priority,
  its configured mode and one of its reason codes, ordered by severity, then priority,
  then identifier; the primary failure is the first of them.
\<close>

theorem evaluateGates_failures:
  "gf_gateId ` set (gd_failures (evaluateGates c)) = {g. \<not> gate_satisfied c g} \<and>
   list_all (well_formed_failure (gc_gateModes c)) (gd_failures (evaluateGates c)) \<and>
   sorted_wrt (\<lambda>f g. compareGateFailures f g \<le> 0) (gd_failures (evaluateGates c)) \<and>
   gd_primary (evaluateGates c) =
     (case gd_failures (evaluateGates c) of [] \<Rightarrow> None | f # _ \<Rightarrow> Some f)"
  using gf.sorted_sort [of "gate_failures c"] gate_failures_ids [of _ c]
  by (auto simp: list_all_iff gate_failures_well_formed aggregateGateFailures_def Let_def image_def)

end
