(* ===== verification/Event_Model.thy ===== *)
theory Event_Model
  imports Gates
begin

text \<open>
  The event record of \<open>domain/events/model.ts\<close> (a draft, and the sealed event that
  extends it with its two hashes), the fact tables and the semantic policy of
  \<open>domain/events/semantics.ts\<close>: which combinations of operation, reason code, event
  type, effect and metadata an event may carry.
\<close>

section \<open>Events\<close>

datatype contract_version = V1_0 | V1_1 | V1_2 | V1_3 | V1_4

datatype event_type = Operation_event | Decision_event | Transition_event | Recovery_event

datatype event_effect = No_effect | State_effect | Artifact_effect | State_and_artifact

datatype model_role = Planner | Implementer | Judge

fun PHASE_MODEL_ROLE :: "run_phase \<Rightarrow> model_role" where
  "PHASE_MODEL_ROLE Prd = Planner"
| "PHASE_MODEL_ROLE Spec = Planner"
| "PHASE_MODEL_ROLE Plan = Planner"
| "PHASE_MODEL_ROLE Code = Implementer"
| "PHASE_MODEL_ROLE Review = Judge"
| "PHASE_MODEL_ROLE Acceptance = Judge"

record assignment =
  as_phase :: run_phase
  as_role :: model_role
  as_model :: string
  as_effort :: string

record event_identity =
  id_host :: string
  id_model :: "string option"
  id_effort :: "string option"

record run_limits =
  rl_acceptanceAttemptCeiling :: int
  rl_tokenCeiling :: "int option"

record attempt =
  at_criterionId :: string
  at_attempt :: int

record repair_stop = attempt +
  rs_classification :: fault_class
  rs_artifactRef :: string
  rs_artifactDigest :: string

datatype acceptance_outcome = Acc_passed | Acc_repair | Acc_stopped

record acceptance_decision =
  ad_outcome :: acceptance_outcome
  ad_attempts :: "attempt list"
  ad_repairStops :: "repair_stop list"

record repair_resolution =
  re_criterionId :: string
  re_classification :: fault_class
  re_resolutionRef :: string
  re_resolutionDigest :: string
  re_nextRunId :: "string option"
  re_restartTicketRef :: "string option"
  re_restartTicketDigest :: "string option"

record started_from_spec =
  sf_sourceRunId :: string
  sf_restartTicketRef :: string
  sf_restartTicketDigest :: string
  sf_retiredCriterionIds :: "string list"

text \<open>
  An optional property of the contract is an \<^typ>\<open>'a option\<close>: \<^const>\<open>None\<close> when the
  event does not have it. \<open>gateFailures\<close> exists from contract 1.2.0 on.
\<close>

record event_draft =
  ev_contractVersion :: contract_version
  ev_stateContract :: contract_version
  ev_eventId :: string
  ev_eventType :: event_type
  ev_occurredAt :: string
  ev_operation :: string
  ev_policyVersion :: string
  ev_priorRevision :: int
  ev_resultingRevision :: int
  ev_reasonCode :: string
  ev_effect :: event_effect
  ev_artifactRefs :: "string list"
  ev_evidenceRefs :: "string list"
  ev_observedIdentity :: event_identity
  ev_gateFailures :: "gate_failure list option"
  ev_resolvedAssignment :: "assignment option"
  ev_runLimits :: "run_limits option"
  ev_acceptanceDecision :: "acceptance_decision option"
  ev_repairResolution :: "repair_resolution option"
  ev_startedFromSpec :: "started_from_spec option"

record event = event_draft +
  ev_previousHash :: "string option"
  ev_eventHash :: string

record event_cursor =
  cu_revision :: int
  cu_hash :: "string option"

datatype event_integrity =
  Invalid_event | Invalid_sequence | Non_canonical | Resource_limit | Unsupported_policy

section \<open>Fact policies\<close>

datatype assignment_policy = Forbidden | Required

record fact_policy =
  fp_reasonCode :: string
  fp_eventType :: event_type
  fp_effect :: event_effect
  fp_assignment :: assignment_policy

datatype moving_transition = Started | Resumed | Accepted | Rejected_transition | Completed

fun WORKFLOW_TRANSITION_FACTS :: "moving_transition \<Rightarrow> fact_policy" where
  "WORKFLOW_TRANSITION_FACTS Started =
     \<lparr> fp_reasonCode = ''run.started'', fp_eventType = Transition_event, fp_effect = State_effect, fp_assignment = Forbidden \<rparr>"
| "WORKFLOW_TRANSITION_FACTS Resumed =
     \<lparr> fp_reasonCode = ''run.resumed'', fp_eventType = Transition_event, fp_effect = State_effect, fp_assignment = Forbidden \<rparr>"
| "WORKFLOW_TRANSITION_FACTS Accepted =
     \<lparr> fp_reasonCode = ''run.transition.accepted'', fp_eventType = Transition_event, fp_effect = State_effect, fp_assignment = Required \<rparr>"
| "WORKFLOW_TRANSITION_FACTS Rejected_transition =
     \<lparr> fp_reasonCode = ''run.transition.rejected'', fp_eventType = Decision_event, fp_effect = State_effect, fp_assignment = Forbidden \<rparr>"
| "WORKFLOW_TRANSITION_FACTS Completed =
     \<lparr> fp_reasonCode = ''run.completed'', fp_eventType = Transition_event, fp_effect = State_effect, fp_assignment = Required \<rparr>"

definition WORKFLOW_POLICY_UPGRADE_FACT :: fact_policy where
  "WORKFLOW_POLICY_UPGRADE_FACT =
     \<lparr> fp_reasonCode = ''run.policy_upgraded'', fp_eventType = Recovery_event, fp_effect = State_effect, fp_assignment = Forbidden \<rparr>"

datatype fact_operation = Agent_record | Gaps_record | Gaps_resolve | Gaps_waive | Gates_record

fun fact_operation_text :: "fact_operation \<Rightarrow> string" where
  "fact_operation_text Agent_record = ''agent.record''"
| "fact_operation_text Gaps_record = ''gaps.record''"
| "fact_operation_text Gaps_resolve = ''gaps.resolve''"
| "fact_operation_text Gaps_waive = ''gaps.waive''"
| "fact_operation_text Gates_record = ''gates.record''"

fun FACT_EVENT_REASONS :: "fact_operation \<Rightarrow> string" where
  "FACT_EVENT_REASONS Agent_record = ''run.agent.recorded''"
| "FACT_EVENT_REASONS Gaps_record = ''run.gap.recorded''"
| "FACT_EVENT_REASONS Gaps_resolve = ''run.gap.resolved''"
| "FACT_EVENT_REASONS Gaps_waive = ''run.gap.waived''"
| "FACT_EVENT_REASONS Gates_record = ''run.gates.recorded''"

definition WORKFLOW_OPERATION_FACTS :: "fact_operation \<Rightarrow> fact_policy" where
  "WORKFLOW_OPERATION_FACTS f =
     \<lparr> fp_reasonCode = FACT_EVENT_REASONS f, fp_eventType = Decision_event, fp_effect = State_and_artifact,
       fp_assignment = (if f = Agent_record then Required else Forbidden) \<rparr>"

datatype lock_action = Acquire | Renew | Release | Takeover

fun lock_action_text :: "lock_action \<Rightarrow> string" where
  "lock_action_text Acquire = ''acquire''"
| "lock_action_text Renew = ''renew''"
| "lock_action_text Release = ''release''"
| "lock_action_text Takeover = ''takeover''"

definition LOCK_EVENT_FACTS :: "lock_action \<Rightarrow> fact_policy" where
  "LOCK_EVENT_FACTS a =
     \<lparr> fp_reasonCode = ''trail.ok'',
       fp_eventType = (if a = Takeover then Recovery_event else Operation_event),
       fp_effect = State_effect, fp_assignment = Forbidden \<rparr>"

text \<open>
  The lock operation pattern
  \<open>^lock\.(acquire|renew|release|takeover)\.t(0|[1-9][0-9]*)\.d([a-f0-9]{64})$\<close>:
  the action, the decimal text of the token and the digest of a matching operation.
\<close>

definition token_text_test :: "string \<Rightarrow> bool" where
  "token_text_test s \<longleftrightarrow> all_digits1 s \<and> (s = ''0'' \<or> hd s \<noteq> CHR ''0'')"

definition lock_action_of_text :: "string \<Rightarrow> lock_action option" where
  "lock_action_of_text s =
     List.find (\<lambda>a. lock_action_text a = s) [Acquire, Renew, Release, Takeover]"

definition lock_operation_match :: "string \<Rightarrow> (lock_action \<times> string \<times> string) option" where
  "lock_operation_match s =
     (case split_on (CHR ''.'') s of
        [k, a, t, d] \<Rightarrow>
          (case lock_action_of_text a of
             None \<Rightarrow> None
           | Some action \<Rightarrow>
               if k = ''lock'' \<and> starts_with ''t'' t \<and> token_text_test (tl t) \<and>
                  starts_with ''d'' d \<and> sha256_test (tl d)
               then Some (action, tl t, tl d) else None)
      | _ \<Rightarrow> None)"

datatype operation_family = Start_family | Continue_family | Fact_family fact_operation

fun family_text :: "operation_family \<Rightarrow> string" where
  "family_text Start_family = ''start''"
| "family_text Continue_family = ''continue''"
| "family_text (Fact_family f) = fact_operation_text f"

definition operation_families :: "operation_family list" where
  "operation_families = [Start_family, Continue_family, Fact_family Agent_record,
     Fact_family Gaps_record, Fact_family Gaps_resolve, Fact_family Gaps_waive, Fact_family Gates_record]"

text \<open>An operation named \<open>sdd.<name>:<id>\<close>.\<close>

definition operation_named :: "string \<Rightarrow> string \<Rightarrow> bool" where
  "operation_named name s \<longleftrightarrow>
     starts_with (''sdd.'' @ name @ '':'') s \<and> id_test (drop (length name + 5) s)"

definition workflowOperation :: "string \<Rightarrow> operation_family option" where
  "workflowOperation s = List.find (\<lambda>f. operation_named (family_text f) s) operation_families"

fun policiesByOperation :: "operation_family \<Rightarrow> fact_policy list" where
  "policiesByOperation Start_family =
     [WORKFLOW_TRANSITION_FACTS Started, WORKFLOW_TRANSITION_FACTS Resumed, WORKFLOW_POLICY_UPGRADE_FACT]"
| "policiesByOperation Continue_family =
     [WORKFLOW_TRANSITION_FACTS Resumed, WORKFLOW_TRANSITION_FACTS Accepted,
      WORKFLOW_TRANSITION_FACTS Rejected_transition, WORKFLOW_TRANSITION_FACTS Completed]"
| "policiesByOperation (Fact_family f) = [WORKFLOW_OPERATION_FACTS f]"

definition reservedReasons :: "string list" where
  "reservedReasons =
     [''run.started'', ''run.resumed'', ''run.transition.accepted'', ''run.transition.rejected'', ''run.completed'',
      ''run.agent.recorded'', ''run.gap.recorded'', ''run.gap.resolved'', ''run.gap.waived'', ''run.gates.recorded'',
      ''run.policy_upgraded'', ''trail.accepted'', ''trail.ok'']"

section \<open>The semantic policy\<close>

definition matchesPolicy :: "'a event_draft_scheme \<Rightarrow> fact_policy \<Rightarrow> bool \<Rightarrow> bool" where
  "matchesPolicy event policy hasAssignment \<longleftrightarrow>
     ev_reasonCode event = fp_reasonCode policy \<and> ev_eventType event = fp_eventType policy \<and>
     ev_effect event = fp_effect policy \<and> hasAssignment = (fp_assignment policy = Required)"

fun index_where :: "('a \<Rightarrow> bool) \<Rightarrow> 'a list \<Rightarrow> int" where
  "index_where P [] = -1"
| "index_where P (x # xs) = (if P x then 0 else (let i = index_where P xs in if i < 0 then -1 else i + 1))"

text \<open>
  The loop over the repair stops: \<open>seen\<close> are the criteria stopped so far and \<open>prior\<close>
  the index of the last stop's attempt.
\<close>

fun stops_consistent ::
  "attempt list \<Rightarrow> string list \<Rightarrow> string list \<Rightarrow> int \<Rightarrow> repair_stop list \<Rightarrow> bool" where
  "stops_consistent attempts refs seen prior [] = True"
| "stops_consistent attempts refs seen prior (stop # stops) =
     (if at_criterionId stop \<in> set seen \<or>
         map_of (map (\<lambda>a. (at_criterionId a, at_attempt a)) attempts) (at_criterionId stop) \<noteq> Some (at_attempt stop) \<or>
         rs_artifactRef stop \<notin> set refs
      then False
      else let attemptIndex = index_where (\<lambda>a. at_criterionId a = at_criterionId stop) attempts
           in if attemptIndex \<le> prior then False
              else stops_consistent attempts refs (at_criterionId stop # seen) attemptIndex stops)"

definition hasConsistentAcceptanceMetadata :: "'a event_draft_scheme \<Rightarrow> bool" where
  "hasConsistentAcceptanceMetadata event =
     (case ev_acceptanceDecision event of
        None \<Rightarrow> False
      | Some decision \<Rightarrow>
          if \<not> distinct (map at_criterionId (ad_attempts decision)) then False
          else if (ad_outcome decision = Acc_passed \<and>
                     (ad_attempts decision \<noteq> [] \<or> ad_repairStops decision \<noteq> [])) \<or>
                  (ad_outcome decision = Acc_repair \<and>
                     (ad_attempts decision = [] \<or> ad_repairStops decision \<noteq> [])) \<or>
                  (ad_outcome decision = Acc_stopped \<and> ad_repairStops decision = [])
          then False
          else stops_consistent (ad_attempts decision) (ev_artifactRefs event) [] (-1) (ad_repairStops decision))"

text \<open>The checks on \<open>gateFailures\<close>: distinct gates, table entries, order, carrier operation.\<close>

definition gate_failures_consistent :: "string \<Rightarrow> gate_failure list \<Rightarrow> bool" where
  "gate_failures_consistent operation failures \<longleftrightarrow>
     distinct (map gf_gateId failures) \<and>
     list_all (\<lambda>f. gf_priority f = GATE_PRIORITIES (gf_gateId f) \<and>
        gf_reasonCode f \<in> set (GATE_REASON_CODES (gf_gateId f))) failures \<and>
     successively (\<lambda>previous f. \<not> compareGateFailures previous f > 0) failures \<and>
     (starts_with ''sdd.continue:'' operation \<or> failures = [])"

fun acceptance_reason :: "acceptance_outcome \<Rightarrow> string" where
  "acceptance_reason Acc_passed = ''run.acceptance.passed''"
| "acceptance_reason Acc_repair = ''run.acceptance.repair_required''"
| "acceptance_reason Acc_stopped = ''run.stop_loss.repeated_rejection''"

text \<open>
  The four optional blocks count only for the contract versions that declare them:
  \<open>workflowEvent\<close> is the event from 1.2.0 on, \<open>current\<close> from 1.3.0 on.
\<close>

definition workflow_contract :: "'a event_draft_scheme \<Rightarrow> bool" where
  "workflow_contract event \<longleftrightarrow> ev_stateContract event \<in> {V1_2, V1_3, V1_4}"

definition current_contract :: "'a event_draft_scheme \<Rightarrow> bool" where
  "current_contract event \<longleftrightarrow> ev_stateContract event \<in> {V1_3, V1_4}"

definition hasRunLimits :: "'a event_draft_scheme \<Rightarrow> bool" where
  "hasRunLimits event \<longleftrightarrow> workflow_contract event \<and> ev_runLimits event \<noteq> None"

definition hasAcceptanceDecision :: "'a event_draft_scheme \<Rightarrow> bool" where
  "hasAcceptanceDecision event \<longleftrightarrow> workflow_contract event \<and> ev_acceptanceDecision event \<noteq> None"

definition hasRepairResolution :: "'a event_draft_scheme \<Rightarrow> bool" where
  "hasRepairResolution event \<longleftrightarrow> current_contract event \<and> ev_repairResolution event \<noteq> None"

definition hasStartedFromSpec :: "'a event_draft_scheme \<Rightarrow> bool" where
  "hasStartedFromSpec event \<longleftrightarrow> current_contract event \<and> ev_startedFromSpec event \<noteq> None"

text \<open>
  \<open>assertEventSemanticPolicy\<close> as the test whether it returns normally. The branches
  are taken on the operation name in the order of the source.
\<close>

definition lock_branch_ok :: "'a event_draft_scheme \<Rightarrow> bool" where
  "lock_branch_ok event \<longleftrightarrow>
     \<not> hasRunLimits event \<and> \<not> hasAcceptanceDecision event \<and>
     \<not> hasRepairResolution event \<and> \<not> hasStartedFromSpec event \<and>
     (case lock_operation_match (ev_operation event) of
        None \<Rightarrow> False
      | Some (action, _, _) \<Rightarrow>
          matchesPolicy event (LOCK_EVENT_FACTS action) (ev_resolvedAssignment event \<noteq> None))"

definition acceptance_branch_ok :: "'a event_draft_scheme \<Rightarrow> bool" where
  "acceptance_branch_ok event \<longleftrightarrow>
     workflow_contract event \<and> ev_policyVersion event = ''workflow-v2'' \<and>
     ev_resolvedAssignment event = None \<and> \<not> hasRunLimits event \<and>
     \<not> hasRepairResolution event \<and> \<not> hasStartedFromSpec event \<and>
     (case ev_acceptanceDecision event of
        None \<Rightarrow> False
      | Some decision \<Rightarrow> hasConsistentAcceptanceMetadata event \<and>
          ev_eventType event = Decision_event \<and> ev_effect event = State_and_artifact \<and>
          ev_reasonCode event = acceptance_reason (ad_outcome decision))"

definition resolution_branch_ok :: "'a event_draft_scheme \<Rightarrow> bool" where
  "resolution_branch_ok event \<longleftrightarrow>
     current_contract event \<and> ev_policyVersion event = ''workflow-v2'' \<and>
     ev_resolvedAssignment event = None \<and> \<not> hasRunLimits event \<and>
     \<not> hasAcceptanceDecision event \<and> \<not> hasStartedFromSpec event \<and>
     (case ev_repairResolution event of
        None \<Rightarrow> False
      | Some resolution \<Rightarrow>
          ev_eventType event = Recovery_event \<and> ev_effect event = State_and_artifact \<and>
          ev_reasonCode event = ''run.repair_stop.resolved'' \<and>
          re_resolutionRef resolution \<in> set (ev_artifactRefs event) \<and>
          (let specification = (re_classification resolution = Specification_fault) in
             specification = (re_nextRunId resolution \<noteq> None) \<and>
             specification = (re_restartTicketRef resolution \<noteq> None) \<and>
             specification = (re_restartTicketDigest resolution \<noteq> None) \<and>
             (case re_restartTicketRef resolution of None \<Rightarrow> True
              | Some ref \<Rightarrow> ref \<in> set (ev_artifactRefs event))))"

definition restart_branch_ok :: "'a event_draft_scheme \<Rightarrow> bool" where
  "restart_branch_ok event \<longleftrightarrow>
     current_contract event \<and> ev_policyVersion event = ''workflow-v2'' \<and>
     ev_resolvedAssignment event = None \<and> hasRunLimits event \<and>
     \<not> hasAcceptanceDecision event \<and> \<not> hasRepairResolution event \<and>
     (case ev_startedFromSpec event of
        None \<Rightarrow> False
      | Some restart \<Rightarrow>
          ev_eventType event = Recovery_event \<and> ev_effect event = State_and_artifact \<and>
          ev_reasonCode event = ''run.started_from_spec'' \<and>
          sf_restartTicketRef restart \<in> set (ev_artifactRefs event))"

definition workflow_branch_ok :: "'a event_draft_scheme \<Rightarrow> bool" where
  "workflow_branch_ok event =
     (case workflowOperation (ev_operation event) of
        None \<Rightarrow> False
      | Some operation \<Rightarrow>
          (let boundary = (workflow_contract event \<and>
                 ev_policyVersion event = ''workflow-v2'' \<and>
                 (ev_reasonCode event = ''run.started'' \<or>
                  (ev_stateContract event = V1_4 \<and> ev_reasonCode event = ''run.policy_upgraded'')))
           in \<not> hasAcceptanceDecision event \<and> \<not> hasRepairResolution event \<and>
              \<not> hasStartedFromSpec event \<and>
              hasRunLimits event = boundary \<and>
              \<not> (ev_reasonCode event = ''run.policy_upgraded'' \<and> ev_stateContract event \<noteq> V1_4) \<and>
              length (filter (\<lambda>policy. matchesPolicy event policy (ev_resolvedAssignment event \<noteq> None))
                (policiesByOperation operation)) = 1))"

definition other_branch_ok :: "'a event_draft_scheme \<Rightarrow> bool" where
  "other_branch_ok event \<longleftrightarrow>
     ev_eventType event = Operation_event \<and> ev_effect event = State_effect \<and>
     ev_resolvedAssignment event = None \<and> ev_reasonCode event \<notin> set reservedReasons \<and>
     \<not> hasRunLimits event \<and> \<not> hasAcceptanceDecision event \<and>
     \<not> hasRepairResolution event \<and> \<not> hasStartedFromSpec event"

definition assertEventSemanticPolicy :: "'a event_draft_scheme \<Rightarrow> bool" where
  "assertEventSemanticPolicy event =
     (if ev_stateContract event = V1_0 then True
      else if (case ev_resolvedAssignment event of None \<Rightarrow> False
               | Some a \<Rightarrow> as_role a \<noteq> PHASE_MODEL_ROLE (as_phase a)) then False
      else if (case ev_gateFailures event of None \<Rightarrow> False
               | Some failures \<Rightarrow> \<not> gate_failures_consistent (ev_operation event) failures) then False
      else if starts_with ''lock.'' (ev_operation event) then lock_branch_ok event
      else if operation_named ''acceptance.record'' (ev_operation event) then acceptance_branch_ok event
      else if operation_named ''repair.resolve'' (ev_operation event) then resolution_branch_ok event
      else if operation_named ''repair.restart'' (ev_operation event) then restart_branch_ok event
      else if starts_with ''sdd.'' (ev_operation event) then workflow_branch_ok event
      else other_branch_ok event)"

end
