(* ===== verification/Managed_Paths.thy ===== *)
theory Managed_Paths
  imports Gates
begin

text \<open>
  Lexical paths: the canonicalization of \<open>domain/paths/canonicalize.ts\<close> and the managed
  surface of \<open>domain/transactions/surface.ts\<close>, which decides where a plan may write.
\<close>

section \<open>Canonical project paths\<close>

datatype path_reason = Path_escape | Target_uninspectable

datatype canonical_path = Canonical string | Refused_path path_reason string

definition hasControlCharacter :: "string \<Rightarrow> bool" where
  "hasControlCharacter value = list_ex is_control value"

definition is_letter :: "char \<Rightarrow> bool" where
  "is_letter c \<longleftrightarrow> is_upper c \<or> is_lower c"

definition driveLetterPattern :: "string \<Rightarrow> bool" where
  "driveLetterPattern s = (case s of c # d # _ \<Rightarrow> is_letter c \<and> d = CHR '':'' | _ \<Rightarrow> False)"

definition is_scheme_char :: "char \<Rightarrow> bool" where
  "is_scheme_char c \<longleftrightarrow> is_alnum c \<or> c \<in> {CHR ''+'', CHR ''.'', CHR ''-''}"

definition urlSchemePattern :: "string \<Rightarrow> bool" where
  "urlSchemePattern s =
     (case s of [] \<Rightarrow> False | c # cs \<Rightarrow> is_letter c \<and> starts_with '':'' (dropWhile is_scheme_char cs))"

definition segments_of :: "string \<Rightarrow> string list" where
  "segments_of path = split_on (CHR ''/'') path"

definition join_segments :: "string list \<Rightarrow> string" where
  "join_segments segments = join_with (CHR ''/'') segments"

fun absolute_stack :: "string list \<Rightarrow> string list \<Rightarrow> string list" where
  "absolute_stack stack [] = stack"
| "absolute_stack stack (segment # segments) =
     (if segment = '''' \<or> segment = ''.'' then absolute_stack stack segments
      else if segment = ''..'' then absolute_stack (butlast stack) segments
      else absolute_stack (stack @ [segment]) segments)"

definition normalizeAbsoluteSegments :: "string \<Rightarrow> string" where
  "normalizeAbsoluteSegments path = CHR ''/'' # join_segments (absolute_stack [] (segments_of path))"

text \<open>The loop over the segments: the stack and the parents that left the project.\<close>

fun relative_stack :: "string list \<Rightarrow> nat \<Rightarrow> string list \<Rightarrow> string list \<times> nat" where
  "relative_stack stack escapedParents [] = (stack, escapedParents)"
| "relative_stack stack escapedParents (segment # segments) =
     (if segment = '''' \<or> segment = ''.'' then relative_stack stack escapedParents segments
      else if segment = ''..'' then
        (if stack = [] then relative_stack stack (escapedParents + 1) segments
         else relative_stack (butlast stack) escapedParents segments)
      else relative_stack (stack @ [segment]) escapedParents segments)"

definition canonical_absolute :: "string \<Rightarrow> string option \<Rightarrow> canonical_path" where
  "canonical_absolute target root =
     (case root of
        None \<Rightarrow> Refused_path Path_escape target
      | Some r \<Rightarrow>
          (let normalizedRoot = normalizeAbsoluteSegments r;
               normalizedTarget = normalizeAbsoluteSegments target
           in if normalizedTarget = normalizedRoot then Canonical ''''
              else let rootPrefix = (if normalizedRoot = ''/'' then ''/'' else normalizedRoot @ ''/'')
                   in if \<not> starts_with rootPrefix normalizedTarget
                      then Refused_path Path_escape normalizedTarget
                      else Canonical (drop (length rootPrefix) normalizedTarget)))"

definition canonical_relative :: "string \<Rightarrow> canonical_path" where
  "canonical_relative target =
     (case relative_stack [] 0 (segments_of target) of
        (stack, escapedParents) \<Rightarrow>
          if escapedParents > 0 then
            (let parentPrefix = join_segments (replicate escapedParents ''..'')
             in Refused_path Path_escape
                  (if stack \<noteq> [] then parentPrefix @ ''/'' @ join_segments stack else parentPrefix))
          else Canonical (join_segments stack))"

definition canonicalizeProjectPath :: "string \<Rightarrow> string option \<Rightarrow> canonical_path" where
  "canonicalizeProjectPath target root =
     (if target = '''' then Refused_path Target_uninspectable ''''
      else if CHR 0x5C \<in> set target \<or> hasControlCharacter target
      then Refused_path Target_uninspectable target
      else if driveLetterPattern target \<or> urlSchemePattern target then Refused_path Path_escape target
      else if starts_with ''/'' target then canonical_absolute target root
      else canonical_relative target)"

section \<open>The managed surface\<close>

definition MANAGED_DIRECTORY_ROOTS :: "string list" where
  "MANAGED_DIRECTORY_ROOTS = [''.brain'', ''.claude'', ''.codex'', ''.gemini'']"

definition MANAGED_ROOT_FILES :: "string list" where
  "MANAGED_ROOT_FILES = [''AGENTS.md'', ''CLAUDE.md'', ''GEMINI.md'']"

definition isManagedRoot :: "string \<Rightarrow> bool" where
  "isManagedRoot segment \<longleftrightarrow> segment \<in> set MANAGED_DIRECTORY_ROOTS"

text \<open>The text before the first separator and, when there is one, the text after it.\<close>

definition first_segment :: "string \<Rightarrow> string" where
  "first_segment path = takeWhile (\<lambda>c. c \<noteq> CHR ''/'') path"

definition after_separator :: "string \<Rightarrow> string option" where
  "after_separator path =
     (case dropWhile (\<lambda>c. c \<noteq> CHR ''/'') path of [] \<Rightarrow> None | _ # rest \<Rightarrow> Some rest)"

definition isManagedPathShape :: "string \<Rightarrow> bool" where
  "isManagedPathShape path =
     (case canonicalizeProjectPath path None of
        Refused_path _ _ \<Rightarrow> False
      | Canonical canonical \<Rightarrow>
          if canonical \<noteq> path \<or> canonical = '''' then False
          else (case after_separator path of
              None \<Rightarrow> path \<in> set MANAGED_ROOT_FILES \<or> isManagedRoot path
            | Some _ \<Rightarrow> isManagedRoot (first_segment path)))"

definition reservedNamespace :: "string \<Rightarrow> bool" where
  "reservedNamespace rest \<longleftrightarrow> to_lower_case (first_segment rest) = ''transactions''"

definition isManagedDestination :: "string \<Rightarrow> bool" where
  "isManagedDestination path =
     (if \<not> isManagedPathShape path then False
      else (case after_separator path of
          None \<Rightarrow> path \<in> set MANAGED_ROOT_FILES
        | Some rest \<Rightarrow> \<not> (first_segment path = ''.brain'' \<and> reservedNamespace rest)))"

definition isManagedDirectoryDestination :: "string \<Rightarrow> bool" where
  "isManagedDirectoryDestination path =
     (if isManagedDestination path then True else isManagedRoot path \<and> path \<noteq> ''.brain'')"

section \<open>Canonical paths stay inside the project\<close>

definition plain_segment :: "string \<Rightarrow> bool" where
  "plain_segment s \<longleftrightarrow> s \<noteq> '''' \<and> s \<noteq> ''.'' \<and> s \<noteq> ''..'' \<and> CHR ''/'' \<notin> set s"

lemma segments_no_separator: "s \<in> set (segments_of p) \<Longrightarrow> CHR ''/'' \<notin> set s"
  unfolding segments_of_def by (rule split_on_no_sep)

lemma list_all_butlast: "list_all P xs \<Longrightarrow> list_all P (butlast xs)"
  by (auto simp: list_all_iff dest: in_set_butlastD)

lemma relative_stack_plain:
  assumes "list_all plain_segment stack" "\<forall>s \<in> set segments. CHR ''/'' \<notin> set s"
  shows "list_all plain_segment (fst (relative_stack stack e segments))"
  using assms
  by (induction stack e segments rule: relative_stack.induct) (auto simp: plain_segment_def list_all_butlast)

lemma absolute_stack_plain:
  assumes "list_all plain_segment stack" "\<forall>s \<in> set segments. CHR ''/'' \<notin> set s"
  shows "list_all plain_segment (absolute_stack stack segments)"
  using assms
  by (induction stack segments rule: absolute_stack.induct) (auto simp: plain_segment_def list_all_butlast)

lemma segments_of_join:
  assumes "list_all plain_segment ss" "ss \<noteq> []"
  shows "segments_of (join_segments ss) = ss"
  using assms unfolding segments_of_def join_segments_def
  by (intro split_join) (auto simp: list_all_iff plain_segment_def)

lemma join_segments_Nil_iff: "list_all plain_segment ss \<Longrightarrow> join_segments ss = '''' \<longleftrightarrow> ss = []"
  unfolding join_segments_def by (induction "CHR ''/''" ss rule: join_with.induct) (auto simp: plain_segment_def)

lemma split_on_append:
  "split_on c (s @ c # r) = split_on c s @ split_on c r"
  by (induction s) (auto split: list.splits)

lemma segments_of_prefix: "segments_of (s @ CHR ''/'' # r) = segments_of s @ segments_of r"
  by (simp add: segments_of_def split_on_append)

definition inside_project :: "string \<Rightarrow> bool" where
  "inside_project p \<longleftrightarrow> p = '''' \<or> list_all plain_segment (segments_of p)"

lemma inside_join: "list_all plain_segment ss \<Longrightarrow> inside_project (join_segments ss)"
  using segments_of_join join_segments_Nil_iff by (cases "ss = []") (auto simp: inside_project_def)

lemma canonical_absolute_inside:
  assumes "canonical_absolute target root = Canonical p"
  shows "inside_project p"
proof -
  define T where "T = absolute_stack [] (segments_of target)"
  have T: "list_all plain_segment T"
    unfolding T_def by (rule absolute_stack_plain) (auto simp: segments_no_separator)
  from assms obtain r where r: "root = Some r" by (auto simp: canonical_absolute_def split: option.splits)
  define R where "R = absolute_stack [] (segments_of r)"
  have R: "list_all plain_segment R"
    unfolding R_def by (rule absolute_stack_plain) (auto simp: segments_no_separator)
  have norm: "normalizeAbsoluteSegments target = CHR ''/'' # join_segments T"
    "normalizeAbsoluteSegments r = CHR ''/'' # join_segments R"
    by (simp_all add: normalizeAbsoluteSegments_def T_def R_def)
  show ?thesis
  proof (cases "R = []")
    case True
    then have "p = '''' \<or> p = join_segments T"
      using assms by (auto simp: canonical_absolute_def r norm Let_def join_segments_def split: if_splits)
    then show ?thesis using inside_join [OF T] by (auto simp: inside_project_def)
  next
    case False
    then have "join_segments R \<noteq> ''''" using join_segments_Nil_iff [OF R] by simp
    then have "p = '''' \<or> join_segments T = join_segments R @ CHR ''/'' # p"
      using assms by (auto simp: canonical_absolute_def r norm Let_def starts_with_iff split: if_splits)
    moreover have "list_all plain_segment (segments_of p)" if eq: "join_segments T = join_segments R @ CHR ''/'' # p"
    proof -
      from eq have "T \<noteq> []" by (auto simp: join_segments_def)
      with eq have "T = R @ segments_of p"
        using segments_of_join [OF T] segments_of_join [OF R False] by (simp add: segments_of_prefix)
      with T show ?thesis by simp
    qed
    ultimately show ?thesis by (auto simp: inside_project_def)
  qed
qed

lemma canonical_inside:
  assumes "canonicalizeProjectPath target root = Canonical p"
  shows "inside_project p"
proof (cases "starts_with ''/'' target")
  case True
  with assms show ?thesis
    by (intro canonical_absolute_inside [of target root]) (auto simp: canonicalizeProjectPath_def split: if_splits)
next
  case False
  with assms have rel: "canonical_relative target = Canonical p"
    by (auto simp: canonicalizeProjectPath_def split: if_splits)
  obtain stack n where st: "relative_stack [] 0 (segments_of target) = (stack, n)" by fastforce
  from rel have "p = join_segments stack"
    by (auto simp: canonical_relative_def st Let_def split: if_splits)
  moreover have "list_all plain_segment stack"
    using relative_stack_plain [of "[]" "segments_of target" 0] segments_no_separator by (simp add: st)
  ultimately show ?thesis by (simp add: inside_join)
qed

section \<open>When a relative path escapes\<close>

text \<open>Names entered and parents taken among the first segments of a path.\<close>

definition names_in :: "string list \<Rightarrow> nat" where
  "names_in segments = length (filter (\<lambda>s. s \<noteq> '''' \<and> s \<noteq> ''.'' \<and> s \<noteq> ''..'') segments)"

definition parents_in :: "string list \<Rightarrow> nat" where
  "parents_in segments = length (filter (\<lambda>s. s = ''..'') segments)"

definition climbs_out :: "nat \<Rightarrow> string list \<Rightarrow> bool" where
  "climbs_out depth segments \<longleftrightarrow>
     (\<exists>k \<le> length segments. depth + names_in (take k segments) < parents_in (take k segments))"

lemma climbs_out_Nil [simp]: "\<not> climbs_out d []"
  by (simp add: climbs_out_def parents_in_def)

lemma climbs_out_Cons:
  "climbs_out d (s # ss) \<longleftrightarrow>
     (if s = '''' \<or> s = ''.'' then climbs_out d ss
      else if s = ''..'' then d = 0 \<or> climbs_out (d - 1) ss else climbs_out (d + 1) ss)"
proof -
  have split: "climbs_out d (s # ss) \<longleftrightarrow>
      (\<exists>k \<le> length ss. d + names_in (s # take k ss) < parents_in (s # take k ss))"
  proof
    assume "climbs_out d (s # ss)"
    then obtain k where k: "k \<le> Suc (length ss)"
      "d + names_in (take k (s # ss)) < parents_in (take k (s # ss))" by (auto simp: climbs_out_def)
    then show "\<exists>k \<le> length ss. d + names_in (s # take k ss) < parents_in (s # take k ss)"
      by (cases k) (auto simp: parents_in_def)
  next
    assume "\<exists>k \<le> length ss. d + names_in (s # take k ss) < parents_in (s # take k ss)"
    then obtain k where "k \<le> length ss" "d + names_in (s # take k ss) < parents_in (s # take k ss)" by blast
    then show "climbs_out d (s # ss)"
      unfolding climbs_out_def by (intro exI [of _ "Suc k"]) simp
  qed
  show ?thesis
  proof (cases "s = ''..''")
    case True
    show ?thesis
    proof (cases d)
      case 0
      then show ?thesis unfolding split
        using True by (auto intro!: exI [of _ 0] simp: names_in_def parents_in_def)
    next
      case (Suc e)
      then show ?thesis unfolding split using True
        by (auto simp: climbs_out_def names_in_def parents_in_def)
    qed
  next
    case False
    then show ?thesis unfolding split
      by (auto simp: climbs_out_def names_in_def parents_in_def)
  qed
qed

lemma relative_stack_escapes:
  "snd (relative_stack stack e segments) > 0 \<longleftrightarrow> e > 0 \<or> climbs_out (length stack) segments"
  by (induction stack e segments rule: relative_stack.induct) (auto simp: climbs_out_Cons)

text \<open>A target the lexical rules read as a relative path.\<close>

definition relative_target :: "string \<Rightarrow> bool" where
  "relative_target target \<longleftrightarrow> target \<noteq> '''' \<and> CHR 0x5C \<notin> set target \<and> \<not> hasControlCharacter target \<and>
     \<not> driveLetterPattern target \<and> \<not> urlSchemePattern target \<and> \<not> starts_with ''/'' target"

lemma relative_canonical:
  "relative_target target \<Longrightarrow> canonicalizeProjectPath target root = canonical_relative target"
  by (simp add: canonicalizeProjectPath_def relative_target_def)

lemma canonical_relative_escapes:
  "(\<exists>r. canonical_relative target = Refused_path Path_escape r) \<longleftrightarrow> climbs_out 0 (segments_of target)"
  using relative_stack_escapes [of "[]" 0 "segments_of target"]
  by (auto simp: canonical_relative_def Let_def split: prod.splits)

section \<open>The managed surface is closed\<close>

lemma managed_shape:
  assumes "isManagedPathShape p"
  shows "canonicalizeProjectPath p None = Canonical p" "p \<noteq> ''''" "list_all plain_segment (segments_of p)"
proof -
  from assms show can: "canonicalizeProjectPath p None = Canonical p" "p \<noteq> ''''"
    by (auto simp: isManagedPathShape_def split: canonical_path.splits if_splits)
  from canonical_inside [OF can(1)] can(2) show "list_all plain_segment (segments_of p)"
    by (simp add: inside_project_def)
qed

lemma segments_of_first: "\<exists>ss. segments_of p = first_segment p # ss"
  unfolding segments_of_def first_segment_def by (induction p) (auto split: list.splits)

lemma segments_of_after:
  "segments_of p = first_segment p # (case after_separator p of None \<Rightarrow> [] | Some r \<Rightarrow> segments_of r)"
  unfolding segments_of_def first_segment_def after_separator_def
  by (induction p) (auto split: list.splits)

lemma after_separator_None:
  assumes "after_separator p = None"
  shows "first_segment p = p"
proof -
  have "dropWhile (\<lambda>c. c \<noteq> CHR ''/'') p = []"
    using assms by (simp add: after_separator_def split: list.splits)
  then show ?thesis using takeWhile_dropWhile_id [of "\<lambda>c. c \<noteq> CHR ''/''" p]
    unfolding first_segment_def by (metis append_Nil2)
qed

lemma managed_first:
  assumes "isManagedPathShape p"
  shows "(after_separator p = None \<and> p \<in> set MANAGED_ROOT_FILES) \<or> isManagedRoot (first_segment p)"
proof -
  have "case after_separator p of None \<Rightarrow> p \<in> set MANAGED_ROOT_FILES \<or> isManagedRoot p
      | Some _ \<Rightarrow> isManagedRoot (first_segment p)"
    using assms unfolding isManagedPathShape_def by (simp split: canonical_path.splits if_splits)
  then show ?thesis using after_separator_None [of p] by (cases "after_separator p") auto
qed

lemma managed_destination:
  assumes "isManagedDestination p"
  shows "list_all plain_segment (segments_of p)"
    "p \<in> set MANAGED_ROOT_FILES \<or>
     (\<exists>root rest. segments_of p = root # rest \<and> rest \<noteq> [] \<and> isManagedRoot root \<and>
        (root = ''.brain'' \<longrightarrow> to_lower_case (hd rest) \<noteq> ''transactions''))"
proof -
  from assms have shape: "isManagedPathShape p" by (auto simp: isManagedDestination_def split: if_splits)
  then show "list_all plain_segment (segments_of p)" by (rule managed_shape)
  show "p \<in> set MANAGED_ROOT_FILES \<or>
     (\<exists>root rest. segments_of p = root # rest \<and> rest \<noteq> [] \<and> isManagedRoot root \<and>
        (root = ''.brain'' \<longrightarrow> to_lower_case (hd rest) \<noteq> ''transactions''))"
  proof (cases "after_separator p")
    case None
    with assms show ?thesis by (simp add: isManagedDestination_def split: if_splits)
  next
    case (Some r)
    obtain ss where r: "segments_of r = first_segment r # ss" using segments_of_first by blast
    have "isManagedRoot (first_segment p)" using managed_first [OF shape] Some by simp
    then show ?thesis
      using assms Some r segments_of_after [of p]
      by (auto simp: isManagedDestination_def reservedNamespace_def split: if_splits)
  qed
qed

section \<open>Properties\<close>

text \<open>
  A relative path the lexical rules can read is refused as an escape exactly when
  some leading part of it takes more parents than it has entered names.
\<close>

theorem path_escapes_iff_climbs:
  assumes "relative_target target"
  shows "(\<exists>r. canonicalizeProjectPath target root = Refused_path Path_escape r) \<longleftrightarrow> climbs_out 0 (segments_of target)"
  using relative_canonical [OF assms] canonical_relative_escapes by simp

theorem path_escapes_iff_climbs_witness:
  "(\<exists>r. canonicalizeProjectPath ''a/../../b'' None = Refused_path Path_escape r) \<and> relative_target ''a/../../b''"
proof -
  have target: "relative_target ''a/../../b''" by code_simp
  have "climbs_out 0 (segments_of ''a/../../b'')"
    unfolding climbs_out_def by (intro exI [of _ 3]) code_simp
  with path_escapes_iff_climbs [OF target] target show ?thesis by simp
qed

text \<open>
  C39: A plan can only write inside the project's managed surface: the path it names is
  made of plain segments (no empty segment, no dot, no parent), it is one of the root
  files or lies strictly below a managed root, and it is never in the transaction
  manager's own namespace, whatever the case of its letters.
\<close>

theorem managed_destination_confined:
  assumes "isManagedDestination path"
  shows "list_all plain_segment (segments_of path) \<and> canonicalizeProjectPath path None = Canonical path \<and>
    (path \<in> set MANAGED_ROOT_FILES \<or>
     (\<exists>root rest. segments_of path = root # rest \<and> rest \<noteq> [] \<and> isManagedRoot root \<and>
        (root = ''.brain'' \<longrightarrow> to_lower_case (hd rest) \<noteq> ''transactions'')))"
proof -
  from assms have "isManagedPathShape path" by (auto simp: isManagedDestination_def split: if_splits)
  from managed_destination [OF assms] managed_shape(1) [OF this] show ?thesis by blast
qed

theorem managed_destination_confined_witness:
  "\<exists>rest. segments_of ''.brain/state/run.json'' = ''.brain'' # rest \<and> to_lower_case (hd rest) \<noteq> ''transactions''"
proof -
  have "isManagedDestination ''.brain/state/run.json''" by code_simp
  from managed_destination_confined [OF this] show ?thesis
    by (auto simp: MANAGED_ROOT_FILES_def segments_of_def)
qed

end
