(* ===== verification/Transaction_Plan.thy ===== *)
theory Transaction_Plan
  imports Managed_Paths Event_Model
begin

text \<open>
  Managed mutation plans: effects (\<open>domain/effects.ts\<close>), fingerprints and operations
  (\<open>domain/transactions/model.ts\<close>), the normalization of a list of effects against the
  observed files (\<open>domain/transactions/normalize.ts\<close>), and the checks the executor
  repeats on every plan (\<open>composition/transactions.ts\<close>).
\<close>

section \<open>Effects, fingerprints and operations\<close>

datatype path_fingerprint = Missing | Directory | File_print int string

datatype emit_channel = Structured | Human

datatype effect =
    Assert_file string path_fingerprint
  | Write_file string string "path_fingerprint option"
  | Delete_file string "path_fingerprint option"
  | Create_directory string
  | Append_event string string event_draft
  | Emit emit_channel string

datatype operation_kind = Create_op | Write_op string | Delete_op

record draft_operation =
  dr_kind :: operation_kind
  dr_path :: string
  dr_expected :: path_fingerprint
  dr_result :: path_fingerprint

record managed_operation = draft_operation +
  mo_operationId :: string
  mo_stagedPath :: "string option"

datatype policy_error = Outside_allow | State_corrupt

type_synonym observed_state = "string \<Rightarrow> path_fingerprint option"

text \<open>\<open>new TextEncoder().encode(text).byteLength\<close>: two bytes above the ASCII range.\<close>

definition utf8_length :: "string \<Rightarrow> int" where
  "utf8_length text = sum_list (map (\<lambda>c. if code_unit c < 128 then 1 else 2) text)"

definition sameFingerprint :: "path_fingerprint \<Rightarrow> path_fingerprint \<Rightarrow> bool" where
  "sameFingerprint left right =
     (case (left, right) of
        (Missing, Missing) \<Rightarrow> True
      | (Directory, Directory) \<Rightarrow> True
      | (File_print m a, File_print n b) \<Rightarrow> m = n \<and> a = b
      | _ \<Rightarrow> False)"

lemma sameFingerprint_iff [simp]: "sameFingerprint a b \<longleftrightarrow> a = b"
  by (cases a; cases b) (auto simp: sameFingerprint_def)

section \<open>Selecting the managed effects\<close>

fun managed_path :: "effect \<Rightarrow> string" where
  "managed_path (Write_file p _ _) = p"
| "managed_path (Delete_file p _) = p"
| "managed_path (Create_directory p) = p"
| "managed_path (Assert_file p _) = p"
| "managed_path (Append_event _ _ _) = ''''"
| "managed_path (Emit _ _) = ''''"

fun selectManagedEffects :: "effect list \<Rightarrow> (policy_error, effect list) result" where
  "selectManagedEffects [] = Inr []"
| "selectManagedEffects (Assert_file p _ # es) =
     (if \<not> isManagedDestination p then Inl Outside_allow else selectManagedEffects es)"
| "selectManagedEffects (Emit _ _ # es) = selectManagedEffects es"
| "selectManagedEffects (Append_event _ _ _ # es) = Inl State_corrupt"
| "selectManagedEffects (Create_directory p # es) =
     (if \<not> isManagedDirectoryDestination p then Inl Outside_allow
      else bind_result (selectManagedEffects es) (\<lambda>rest. Inr (Create_directory p # rest)))"
| "selectManagedEffects (Delete_file p x # es) =
     (if \<not> isManagedDestination p then Inl Outside_allow
      else bind_result (selectManagedEffects es) (\<lambda>rest. Inr (Delete_file p x # rest)))"
| "selectManagedEffects (Write_file p c x # es) =
     (if \<not> isManagedDestination p then Inl Outside_allow
      else bind_result (selectManagedEffects es) (\<lambda>rest. Inr (Write_file p c x # rest)))"

section \<open>Relations between the paths of a plan\<close>

definition collisionKey :: "string \<Rightarrow> string" where
  "collisionKey path = to_lower_case path"

definition managedPathPrefixes :: "string \<Rightarrow> string list" where
  "managedPathPrefixes path =
     (let segments = segments_of path
      in map (\<lambda>n. join_segments (take n segments)) [1 ..< length segments + 1])"

definition isParent :: "string \<Rightarrow> string \<Rightarrow> bool" where
  "isParent parent child = starts_with (parent @ ''/'') child"

text \<open>One spelling per case-insensitive key among all prefixes of all paths.\<close>

fun spellings_ok :: "(string \<rightharpoonup> string) \<Rightarrow> string list \<Rightarrow> bool" where
  "spellings_ok spellings [] = True"
| "spellings_ok spellings (path # paths) =
     (case spellings (collisionKey path) of
        Some prior \<Rightarrow>
          if prior \<noteq> path then False else spellings_ok (spellings(collisionKey path \<mapsto> path)) paths
      | None \<Rightarrow> spellings_ok (spellings(collisionKey path \<mapsto> path)) paths)"

definition is_create_directory :: "effect \<Rightarrow> bool" where
  "is_create_directory e = (case e of Create_directory _ \<Rightarrow> True | _ \<Rightarrow> False)"

definition effect_pair_ok :: "effect \<Rightarrow> effect \<Rightarrow> bool" where
  "effect_pair_ok left right =
     (let leftPath = collisionKey (managed_path left); rightPath = collisionKey (managed_path right)
      in if leftPath = rightPath then False
         else if isParent leftPath rightPath then is_create_directory left
         else \<not> isParent rightPath leftPath)"

fun all_pairs :: "('a \<Rightarrow> 'a \<Rightarrow> bool) \<Rightarrow> 'a list \<Rightarrow> bool" where
  "all_pairs P [] = True"
| "all_pairs P (x # xs) = (list_all (P x) xs \<and> all_pairs P xs)"

definition validateRelationships :: "effect list \<Rightarrow> bool" where
  "validateRelationships effects \<longleftrightarrow>
     spellings_ok Map.empty (concat (map (\<lambda>e. managedPathPrefixes (managed_path e)) effects)) \<and>
     all_pairs effect_pair_ok effects"

section \<open>Normalization\<close>

definition observed_at :: "observed_state \<Rightarrow> string \<Rightarrow> path_fingerprint" where
  "observed_at observedState path = (case observedState path of None \<Rightarrow> Missing | Some f \<Rightarrow> f)"

definition firstOwnedDepth :: "string \<Rightarrow> nat" where
  "firstOwnedDepth path = (if starts_with ''.brain/'' path then 2 else 1)"

definition draft_directory :: "string \<Rightarrow> path_fingerprint \<Rightarrow> draft_operation" where
  "draft_directory path expected =
     \<lparr> dr_kind = Create_op, dr_path = path, dr_expected = expected, dr_result = Directory \<rparr>"

type_synonym planning = "observed_state \<times> draft_operation list"

text \<open>The parents of a path from the first depth the plan owns, shortest first.\<close>

definition owned_parents :: "string \<Rightarrow> string list" where
  "owned_parents path =
     (let segments = segments_of path
      in map (\<lambda>n. join_segments (take n segments)) [firstOwnedDepth path ..< length segments])"

fun synthesize_parents :: "string list \<Rightarrow> planning \<Rightarrow> (policy_error, planning) result" where
  "synthesize_parents [] s = Inr s"
| "synthesize_parents (parent # parents) (observedState, drafts) =
     (case observed_at observedState parent of
        File_print _ _ \<Rightarrow> Inl State_corrupt
      | Directory \<Rightarrow> synthesize_parents parents (observedState, drafts)
      | Missing \<Rightarrow>
          synthesize_parents parents
            (observedState(parent \<mapsto> Directory), drafts @ [draft_directory parent Missing]))"

definition synthesizeMissingParents :: "string \<Rightarrow> planning \<Rightarrow> (policy_error, planning) result" where
  "synthesizeMissingParents path s = synthesize_parents (owned_parents path) s"

definition normalizeCreateDirectory ::
  "string \<Rightarrow> path_fingerprint \<Rightarrow> planning \<Rightarrow> (policy_error, planning) result" where
  "normalizeCreateDirectory path expected s =
     (case s of (observedState, drafts) \<Rightarrow>
        (case expected of
           File_print _ _ \<Rightarrow> Inl State_corrupt
         | Missing \<Rightarrow> Inr (observedState(path \<mapsto> Directory), drafts @ [draft_directory path expected])
         | Directory \<Rightarrow> Inr (observedState(path \<mapsto> Directory), drafts)))"

definition normalizeWriteFile ::
  "(string \<Rightarrow> string) \<Rightarrow> string \<Rightarrow> string \<Rightarrow> path_fingerprint \<Rightarrow> planning \<Rightarrow> (policy_error, planning) result"
where
  "normalizeWriteFile sha256 path content expected s =
     (case s of (observedState, drafts) \<Rightarrow>
        if expected = Directory then Inl State_corrupt
        else let result = File_print (utf8_length content) (sha256 content);
                 written = (if \<not> sameFingerprint expected result
                   then [\<lparr> dr_kind = Write_op content, dr_path = path, dr_expected = expected, dr_result = result \<rparr>]
                   else [])
             in Inr (observedState(path \<mapsto> result), drafts @ written))"

definition normalizeDeleteFile ::
  "string \<Rightarrow> path_fingerprint \<Rightarrow> planning \<Rightarrow> (policy_error, planning) result" where
  "normalizeDeleteFile path expected s =
     (case s of (observedState, drafts) \<Rightarrow>
        (case expected of
           Directory \<Rightarrow> Inl State_corrupt
         | File_print _ _ \<Rightarrow>
             Inr (observedState(path \<mapsto> Missing),
               drafts @ [\<lparr> dr_kind = Delete_op, dr_path = path, dr_expected = expected, dr_result = Missing \<rparr>])
         | Missing \<Rightarrow> Inr (observedState(path \<mapsto> Missing), drafts)))"

fun normalize_effect ::
  "(string \<Rightarrow> string) \<Rightarrow> effect \<Rightarrow> planning \<Rightarrow> (policy_error, planning) result" where
  "normalize_effect sha256 (Create_directory path) s =
     bind_result (synthesizeMissingParents path s)
       (\<lambda>s. normalizeCreateDirectory path (observed_at (fst s) path) s)"
| "normalize_effect sha256 (Write_file path content _) s =
     bind_result (synthesizeMissingParents path s)
       (\<lambda>s. normalizeWriteFile sha256 path content (observed_at (fst s) path) s)"
| "normalize_effect sha256 (Delete_file path _) s =
     normalizeDeleteFile path (observed_at (fst s) path) s"
| "normalize_effect sha256 _ s = Inr s"

fun normalize_effects ::
  "(string \<Rightarrow> string) \<Rightarrow> effect list \<Rightarrow> planning \<Rightarrow> (policy_error, planning) result" where
  "normalize_effects sha256 [] s = Inr s"
| "normalize_effects sha256 (e # es) s = bind_result (normalize_effect sha256 e s) (normalize_effects sha256 es)"

definition operationIdAt :: "nat \<Rightarrow> string" where
  "operationIdAt index = ''operation-'' @ pad_start 4 (nat_text (index + 1))"

definition staged_name :: "string \<Rightarrow> string" where
  "staged_name operationId = ''staging/'' @ operationId @ ''.payload''"

definition finalizeOperation :: "draft_operation \<Rightarrow> nat \<Rightarrow> managed_operation" where
  "finalizeOperation draft index =
     (let operationId = operationIdAt index
      in draft_operation.extend draft
           (managed_operation.fields operationId
              (case dr_kind draft of Write_op _ \<Rightarrow> Some (staged_name operationId) | _ \<Rightarrow> None)))"

datatype normalized = Noop | Ready "managed_operation list"

definition normalizeManagedMutationPlan ::
  "effect list \<Rightarrow> observed_state \<Rightarrow> (string \<Rightarrow> string) \<Rightarrow> (policy_error, normalized) result" where
  "normalizeManagedMutationPlan effects observations sha256 =
     bind_result (selectManagedEffects effects) (\<lambda>managedEffects.
       if \<not> validateRelationships managedEffects then Inl State_corrupt
       else bind_result (normalize_effects sha256 managedEffects (observations, [])) (\<lambda>(_, drafts).
         if drafts = [] then Inr Noop
         else Inr (Ready (map (\<lambda>(i, d). finalizeOperation d i) (enumerate 0 drafts)))))"

section \<open>The checks of the executor\<close>

definition valid_fingerprint :: "path_fingerprint \<Rightarrow> bool" where
  "valid_fingerprint f =
     (case f of File_print bytes digest \<Rightarrow> isSafeInteger bytes \<and> bytes \<ge> 0 \<and> sha256_test digest | _ \<Rightarrow> True)"

text \<open>\<open>freezeManagedOperation\<close> as the failure it throws, if any.\<close>

definition freezeManagedOperation ::
  "(string \<Rightarrow> string) \<Rightarrow> managed_operation \<Rightarrow> nat \<Rightarrow> policy_error option" where
  "freezeManagedOperation sha256 operation index =
     (let operationId = operationIdAt index; expected = dr_expected operation; result = dr_result operation
      in if mo_operationId operation \<noteq> operationId then Some State_corrupt
         else if \<not> (case dr_kind operation of Create_op \<Rightarrow> isManagedDirectoryDestination (dr_path operation)
                     | _ \<Rightarrow> isManagedDestination (dr_path operation)) then Some Outside_allow
         else if \<not> valid_fingerprint expected \<or> \<not> valid_fingerprint result then Some State_corrupt
         else if sameFingerprint expected result then Some State_corrupt
         else (case dr_kind operation of
             Create_op \<Rightarrow>
               if mo_stagedPath operation \<noteq> None \<or> expected \<noteq> Missing \<or> result \<noteq> Directory
               then Some State_corrupt else None
           | Write_op content \<Rightarrow>
               if mo_stagedPath operation \<noteq> Some (staged_name operationId) \<or> expected = Directory
               then Some State_corrupt
               else (case result of
                   File_print bytes digest \<Rightarrow>
                     if bytes \<noteq> utf8_length content \<or> digest \<noteq> sha256 content then Some State_corrupt else None
                 | _ \<Rightarrow> Some State_corrupt)
           | Delete_op \<Rightarrow>
               if mo_stagedPath operation \<noteq> None \<or> result \<noteq> Missing then Some State_corrupt
               else (case expected of File_print _ _ \<Rightarrow> None | _ \<Rightarrow> Some State_corrupt)))"

definition is_create_op :: "operation_kind \<Rightarrow> bool" where
  "is_create_op k = (case k of Create_op \<Rightarrow> True | _ \<Rightarrow> False)"

definition operation_pair_ok :: "'a draft_operation_scheme \<Rightarrow> 'a draft_operation_scheme \<Rightarrow> bool" where
  "operation_pair_ok left right =
     (let leftPath = to_lower_case (dr_path left); rightPath = to_lower_case (dr_path right)
      in if leftPath = rightPath then False
         else if starts_with (leftPath @ ''/'') rightPath
         then is_create_op (dr_kind left) \<and> dr_expected right = Missing
         else \<not> starts_with (rightPath @ ''/'') leftPath)"

text \<open>
  Once a proper prefix of a path was created by the plan, so were the longer ones.
\<close>

fun beneath_ok :: "string list \<Rightarrow> bool \<Rightarrow> string list \<Rightarrow> bool" where
  "beneath_ok created beneath [] = True"
| "beneath_ok created beneath (prefix # prefixes) =
     (if to_lower_case prefix \<in> set created then beneath_ok created True prefixes
      else \<not> beneath \<and> beneath_ok created beneath prefixes)"

fun created_chain_ok :: "string list \<Rightarrow> 'a draft_operation_scheme list \<Rightarrow> bool" where
  "created_chain_ok created [] = True"
| "created_chain_ok created (operation # operations) =
     (beneath_ok created False (butlast (managedPathPrefixes (dr_path operation))) \<and>
      created_chain_ok
        (if is_create_op (dr_kind operation) then to_lower_case (dr_path operation) # created else created)
        operations)"

definition validateManagedRelationships :: "'a draft_operation_scheme list \<Rightarrow> bool" where
  "validateManagedRelationships operations \<longleftrightarrow>
     spellings_ok Map.empty (concat (map (\<lambda>operation. managedPathPrefixes (dr_path operation)) operations)) \<and>
     all_pairs operation_pair_ok operations \<and> created_chain_ok [] operations"

fun first_failure :: "('a \<Rightarrow> nat \<Rightarrow> 'e option) \<Rightarrow> nat \<Rightarrow> 'a list \<Rightarrow> 'e option" where
  "first_failure check i [] = None"
| "first_failure check i (x # xs) = (case check x i of None \<Rightarrow> first_failure check (Suc i) xs | Some e \<Rightarrow> Some e)"

definition freezeManagedPlan ::
  "(string \<Rightarrow> string) \<Rightarrow> managed_operation list \<Rightarrow> (policy_error, managed_operation list) result" where
  "freezeManagedPlan sha256 operations =
     (if operations = [] then Inl State_corrupt
      else (case first_failure (freezeManagedOperation sha256) 0 operations of
          Some e \<Rightarrow> Inl e
        | None \<Rightarrow> if validateManagedRelationships operations then Inr operations else Inl State_corrupt))"

section \<open>Parents and prefixes by segments\<close>

lemma join_with_append:
  "ss \<noteq> [] \<Longrightarrow> ts \<noteq> [] \<Longrightarrow> join_with c (ss @ ts) = join_with c ss @ c # join_with c ts"
proof (induction c ss rule: join_with.induct)
  case (2 c s)
  then show ?case by (cases ts) auto
qed auto

lemma join_segments_of [simp]: "join_segments (segments_of p) = p"
  by (simp add: join_segments_def segments_of_def join_split_on)

lemma segments_of_nonempty [simp]: "segments_of p \<noteq> []"
  by (simp add: segments_of_def)

lemma segments_of_inj: "segments_of p = segments_of q \<longleftrightarrow> p = q"
  by (metis join_segments_of)

lemma segments_of_join_take:
  assumes "0 < n" "n \<le> length (segments_of p)"
  shows "segments_of (join_segments (take n (segments_of p))) = take n (segments_of p)"
proof -
  have "segments_of p \<noteq> []" by simp
  with assms(1) have "take n (segments_of p) \<noteq> []" by (cases "segments_of p") auto
  moreover have "\<forall>s \<in> set (take n (segments_of p)). CHR ''/'' \<notin> set s"
    by (auto dest: in_set_takeD simp: segments_no_separator)
  ultimately show ?thesis unfolding segments_of_def join_segments_def by (intro split_join)
qed

lemma parent_segments:
  "starts_with (p @ ''/'') q \<longleftrightarrow> (\<exists>r. r \<noteq> [] \<and> segments_of q = segments_of p @ r)"
proof
  assume "starts_with (p @ ''/'') q"
  then obtain x where "q = p @ CHR ''/'' # x" by (auto simp: starts_with_iff)
  then show "\<exists>r. r \<noteq> [] \<and> segments_of q = segments_of p @ r"
    by (auto simp: segments_of_prefix intro!: exI [of _ "segments_of x"])
next
  assume "\<exists>r. r \<noteq> [] \<and> segments_of q = segments_of p @ r"
  then obtain r where r: "r \<noteq> []" "segments_of q = segments_of p @ r" by blast
  have "q = join_segments (segments_of p @ r)" using r(2) join_segments_of by metis
  also have "\<dots> = p @ CHR ''/'' # join_segments r"
    using r(1) join_with_append [of "segments_of p" r] join_segments_of [of p]
    by (simp add: join_segments_def)
  finally show "starts_with (p @ ''/'') q" by (simp add: starts_with_iff)
qed

lemma isParent_segments: "isParent p q \<longleftrightarrow> (\<exists>r. r \<noteq> [] \<and> segments_of q = segments_of p @ r)"
  by (simp add: isParent_def parent_segments)

lemma prefix_mem:
  "p \<in> set (managedPathPrefixes q) \<longleftrightarrow> p = q \<or> isParent p q"
proof
  assume "p \<in> set (managedPathPrefixes q)"
  then obtain n where "n \<in> set [1 ..< length (segments_of q) + 1]"
    and p: "p = join_segments (take n (segments_of q))"
    unfolding managedPathPrefixes_def Let_def set_map by blast
  then have n: "0 < n" "n \<le> length (segments_of q)" by auto
  show "p = q \<or> isParent p q"
  proof (cases "n = length (segments_of q)")
    case True
    with p show ?thesis by simp
  next
    case False
    with n have "drop n (segments_of q) \<noteq> []" by simp
    moreover have "segments_of q = segments_of p @ drop n (segments_of q)"
      using n p segments_of_join_take [of n q] by simp
    ultimately show ?thesis unfolding isParent_segments by blast
  qed
next
  assume "p = q \<or> isParent p q"
  then obtain r where r: "segments_of q = segments_of p @ r" by (auto simp: isParent_segments)
  have "segments_of p \<noteq> []" by simp
  then have "Suc 0 \<le> length (segments_of p)" by (cases "segments_of p") auto
  moreover have "p = join_segments (take (length (segments_of p)) (segments_of q))" using r by simp
  ultimately show "p \<in> set (managedPathPrefixes q)"
    using r unfolding managedPathPrefixes_def Let_def set_map
    by (intro image_eqI [of _ _ "length (segments_of p)"]) simp_all
qed

lemma isParent_trans: "isParent p q \<Longrightarrow> isParent q r \<Longrightarrow> isParent p r"
  by (auto simp: isParent_segments)

lemma isParent_irrefl [simp]: "\<not> isParent p p"
  by (auto simp: isParent_segments)

lemma isParent_linear:
  assumes "isParent p r" "isParent q r"
  shows "p = q \<or> isParent p q \<or> isParent q p"
proof -
  from assms obtain x y where "segments_of p @ x = segments_of q @ y" by (metis isParent_segments)
  then obtain u where "segments_of p = segments_of q @ u \<or> segments_of q = segments_of p @ u"
    by (metis append_eq_append_conv2)
  then show ?thesis by (cases "u = []") (auto simp: isParent_segments segments_of_inj)
qed

text \<open>The lower-case spelling has the lower-case segments.\<close>

lemma lower_char_separator [simp]: "lower_char c = CHR ''/'' \<longleftrightarrow> c = CHR ''/''"
proof
  assume eq: "lower_char c = CHR ''/''"
  show "c = CHR ''/''"
  proof (rule ccontr)
    assume "c \<noteq> CHR ''/''"
    with eq have up: "is_upper c \<or> (192 \<le> code_unit c \<and> code_unit c \<le> 222 \<and> code_unit c \<noteq> 215)"
      and "char_of (code_unit c + 32) = CHR ''/''"
      by (auto simp: lower_char_def split: if_splits)
    then have "(of_char (char_of (code_unit c + 32) :: char) :: nat) = 47" by simp
    then have "(code_unit c + 32) mod 256 = 47" by simp
    with up show False by (auto simp: is_upper_def)
  qed
qed (simp add: lower_char_def is_upper_def code_unit_def)

lemma segments_of_lower: "segments_of (to_lower_case p) = map to_lower_case (segments_of p)"
  unfolding segments_of_def to_lower_case_def by (induction p) (auto split: list.splits)

lemma lower_isParent: "isParent p q \<Longrightarrow> isParent (to_lower_case p) (to_lower_case q)"
  by (auto simp: isParent_segments segments_of_lower)

lemma lower_isParentD:
  assumes "isParent (to_lower_case p) (to_lower_case q)"
  shows "\<exists>p'. isParent p' q \<and> to_lower_case p' = to_lower_case p"
proof -
  from assms obtain r where r: "r \<noteq> []" "map to_lower_case (segments_of q) = map to_lower_case (segments_of p) @ r"
    by (auto simp: isParent_segments segments_of_lower)
  define n where "n = length (segments_of p)"
  have "segments_of p \<noteq> []" by simp
  then have n: "0 < n" "n < length (segments_of q)"
    using arg_cong [OF r(2), of length] r(1) by (simp_all add: n_def)
  let ?p = "join_segments (take n (segments_of q))"
  have seg: "segments_of ?p = take n (segments_of q)" using n by (intro segments_of_join_take) auto
  have "segments_of q = segments_of ?p @ drop n (segments_of q)"
    unfolding seg by (rule append_take_drop_id [symmetric])
  moreover have "drop n (segments_of q) \<noteq> []" using n by simp
  ultimately have "isParent ?p q" unfolding isParent_segments by blast
  moreover have "map to_lower_case (take n (segments_of q)) = map to_lower_case (segments_of p)"
    using arg_cong [OF r(2), of "take n"] by (simp add: take_map n_def)
  then have "segments_of (to_lower_case ?p) = segments_of (to_lower_case p)"
    by (simp add: segments_of_lower seg)
  ultimately show ?thesis by (auto simp: segments_of_inj)
qed

text \<open>The collision check makes the lower-case key injective on all prefixes.\<close>

lemma spellings_ok_iff:
  "spellings_ok m ps \<longleftrightarrow>
     (\<forall>p \<in> set ps. \<forall>q. m (collisionKey p) = Some q \<longrightarrow> q = p) \<and> inj_on collisionKey (set ps)"
proof (induction ps arbitrary: m)
  case (Cons p ps)
  let ?m = "m(collisionKey p \<mapsto> p)"
  have step: "spellings_ok m (p # ps) \<longleftrightarrow> (\<forall>q. m (collisionKey p) = Some q \<longrightarrow> q = p) \<and> spellings_ok ?m ps"
    by (cases "m (collisionKey p)") auto
  have later: "(\<forall>r \<in> set ps. \<forall>q. ?m (collisionKey r) = Some q \<longrightarrow> q = r) \<longleftrightarrow>
      (\<forall>r \<in> set ps. collisionKey p = collisionKey r \<longrightarrow> p = r) \<and>
      (\<forall>r \<in> set ps. \<forall>q. m (collisionKey r) = Some q \<longrightarrow> q = r)"
    if "\<forall>q. m (collisionKey p) = Some q \<longrightarrow> q = p"
    using that by (auto simp: eq_commute split: if_splits)
  have inj: "inj_on collisionKey (set (p # ps)) \<longleftrightarrow>
      (\<forall>r \<in> set ps. collisionKey p = collisionKey r \<longrightarrow> p = r) \<and> inj_on collisionKey (set ps)"
    by (auto simp: inj_on_def)
  show ?case using later unfolding step Cons.IH [of ?m] inj by auto
qed simp

lemma key_parent:
  assumes "inj_on to_lower_case S" "p \<in> S" "\<And>x. isParent x q \<Longrightarrow> x \<in> S"
  shows "isParent (to_lower_case p) (to_lower_case q) \<longleftrightarrow> isParent p q"
  using lower_isParentD [of p q] lower_isParent [of p q] assms by (metis inj_onD)

section \<open>What a plan does to the observed files\<close>

type_synonym file_view = "string \<Rightarrow> path_fingerprint"

definition apply_draft :: "file_view \<Rightarrow> 'a draft_operation_scheme \<Rightarrow> file_view" where
  "apply_draft f d = f(dr_path d := dr_result d)"

definition apply_drafts :: "file_view \<Rightarrow> 'a draft_operation_scheme list \<Rightarrow> file_view" where
  "apply_drafts f ds = foldl apply_draft f ds"

lemma apply_drafts_simps [simp]:
  "apply_drafts f [] = f"
  "apply_drafts f (ds @ [d]) = (apply_drafts f ds)(dr_path d := dr_result d)"
  by (simp_all add: apply_drafts_def apply_draft_def)

lemma apply_drafts_other: "p \<notin> dr_path ` set ds \<Longrightarrow> apply_drafts f ds p = f p"
  by (induction ds rule: rev_induct) auto

lemma apply_drafts_at:
  assumes "distinct (map dr_path ds)" "d \<in> set ds"
  shows "apply_drafts f ds (dr_path d) = dr_result d"
  using assms by (induction ds rule: rev_induct) (auto simp: image_iff)

text \<open>
  Below anything but a directory nothing exists. The root \<open>.brain\<close> is exempt: the
  transaction manager creates it, no plan does.
\<close>

definition tree_consistent :: "file_view \<Rightarrow> bool" where
  "tree_consistent f \<longleftrightarrow> (\<forall>p q. isParent p q \<longrightarrow> p \<noteq> ''.brain'' \<longrightarrow> f q \<noteq> Missing \<longrightarrow> f p = Directory)"

definition parents_ready :: "file_view \<Rightarrow> string \<Rightarrow> bool" where
  "parents_ready f q \<longleftrightarrow> (\<forall>p. isParent p q \<longrightarrow> p \<noteq> ''.brain'' \<longrightarrow> f p = Directory)"

text \<open>Each operation finds its parents in place when the ones before it were applied.\<close>

definition plan_ready :: "file_view \<Rightarrow> 'a draft_operation_scheme list \<Rightarrow> bool" where
  "plan_ready f ds \<longleftrightarrow> (\<forall>i < length ds. parents_ready (apply_drafts f (take i ds)) (dr_path (ds ! i)))"

lemma plan_ready_Nil [simp]: "plan_ready f []"
  by (simp add: plan_ready_def)

lemma plan_ready_snoc:
  "plan_ready f (ds @ [d]) \<longleftrightarrow> plan_ready f ds \<and> parents_ready (apply_drafts f ds) (dr_path d)"
  by (auto simp: plan_ready_def nth_append less_Suc_eq)

definition kind_ok :: "(string \<Rightarrow> string) \<Rightarrow> 'a draft_operation_scheme \<Rightarrow> bool" where
  "kind_ok sha256 d =
     (case dr_kind d of
        Create_op \<Rightarrow> dr_expected d = Missing \<and> dr_result d = Directory
      | Write_op c \<Rightarrow> dr_expected d \<noteq> Directory \<and> dr_result d = File_print (utf8_length c) (sha256 c) \<and>
          dr_expected d \<noteq> dr_result d
      | Delete_op \<Rightarrow> (\<exists>b h. dr_expected d = File_print b h) \<and> dr_result d = Missing)"

lemma kind_okD:
  assumes "kind_ok sha256 d"
  shows "dr_expected d \<noteq> dr_result d" "dr_expected d \<noteq> Directory"
    "dr_result d = Directory \<longleftrightarrow> is_create_op (dr_kind d)"
  using assms by (auto simp: kind_ok_def is_create_op_def split: operation_kind.splits)

definition destination_ok :: "'a draft_operation_scheme \<Rightarrow> bool" where
  "destination_ok d \<longleftrightarrow>
     (if is_create_op (dr_kind d) then isManagedDirectoryDestination (dr_path d)
      else isManagedDestination (dr_path d))"

fun mutating :: "effect \<Rightarrow> bool" where
  "mutating (Write_file p _ _) = isManagedDestination p"
| "mutating (Delete_file p _) = isManagedDestination p"
| "mutating (Create_directory p) = isManagedDirectoryDestination p"
| "mutating _ = False"

fun desired :: "(string \<Rightarrow> string) \<Rightarrow> effect \<Rightarrow> path_fingerprint" where
  "desired sha256 (Write_file _ c _) = File_print (utf8_length c) (sha256 c)"
| "desired sha256 (Create_directory _) = Directory"
| "desired sha256 _ = Missing"

lemma selectManagedEffects_mutating:
  "selectManagedEffects es = Inr ms \<Longrightarrow> list_all mutating ms \<and> set ms = set es \<inter> {e. mutating e}"
  by (induction es arbitrary: ms rule: selectManagedEffects.induct) (auto split: if_splits)

definition covered :: "effect list \<Rightarrow> effect list \<Rightarrow> 'a draft_operation_scheme \<Rightarrow> bool" where
  "covered all_effects es d \<longleftrightarrow>
     (if is_create_op (dr_kind d)
      then \<exists>e \<in> set all_effects. dr_path d \<in> set (managedPathPrefixes (managed_path e))
      else \<exists>e \<in> set es. dr_path d = managed_path e \<and> \<not> is_create_directory e)"

lemma covered_mono: "covered all_effects es d \<Longrightarrow> covered all_effects (es @ es') d"
  by (auto simp: covered_def split: if_splits)

definition planned ::
  "(string \<Rightarrow> string) \<Rightarrow> file_view \<Rightarrow> effect list \<Rightarrow> effect list \<Rightarrow> observed_state \<Rightarrow> draft_operation list \<Rightarrow> bool"
where
  "planned sha256 f all_effects es st ds \<longleftrightarrow>
     observed_at st = apply_drafts f ds \<and> tree_consistent (observed_at st) \<and> distinct (map dr_path ds) \<and>
     (\<forall>d \<in> set ds. dr_expected d = f (dr_path d) \<and> kind_ok sha256 d \<and> destination_ok d \<and>
        covered all_effects es d) \<and>
     plan_ready f ds \<and> (\<forall>e \<in> set es. observed_at st (managed_path e) = desired sha256 e)"

lemma observed_at_upd [simp]: "observed_at (st(p \<mapsto> r)) = (observed_at st)(p := r)"
  by (auto simp: observed_at_def)

lemma tree_consistent_upd:
  assumes "tree_consistent f" "parents_ready f p" "f p \<noteq> Directory"
  shows "tree_consistent (f(p := r))"
  using assms unfolding tree_consistent_def parents_ready_def by (metis fun_upd_apply isParent_irrefl)

lemma add_draft:
  assumes J: "planned sha256 f all_effects es st ds" and fresh: "dr_path d \<notin> dr_path ` set ds"
    and d: "dr_expected d = observed_at st (dr_path d)" "kind_ok sha256 d" "destination_ok d"
    and cov: "covered all_effects (es @ es') d" and par: "parents_ready (observed_at st) (dr_path d)"
    and old: "\<forall>e \<in> set es. managed_path e \<noteq> dr_path d"
    and new: "\<forall>e \<in> set es'. managed_path e = dr_path d \<and> desired sha256 e = dr_result d"
  shows "planned sha256 f all_effects (es @ es') (st(dr_path d \<mapsto> dr_result d)) (ds @ [d])"
proof -
  have exp: "dr_expected d = f (dr_path d)"
    using J d(1) apply_drafts_other [OF fresh] by (simp add: planned_def)
  have "tree_consistent (observed_at (st(dr_path d \<mapsto> dr_result d)))"
    using J par d kind_okD(2) [OF d(2)] unfolding observed_at_upd
    by (intro tree_consistent_upd) (auto simp: planned_def)
  moreover have "\<forall>x \<in> set (ds @ [d]). dr_expected x = f (dr_path x) \<and> kind_ok sha256 x \<and> destination_ok x \<and>
      covered all_effects (es @ es') x"
    using J d cov exp by (auto simp: planned_def intro: covered_mono)
  moreover have "\<forall>e \<in> set (es @ es'). observed_at (st(dr_path d \<mapsto> dr_result d)) (managed_path e) = desired sha256 e"
    using J old new by (auto simp: planned_def)
  ultimately show ?thesis
    using J fresh par unfolding planned_def by (simp add: plan_ready_snoc)
qed

text \<open>A parent that is missing when an effect needs it was no earlier effect's path.\<close>

lemma earlier_effect:
  assumes J: "planned sha256 f all_effects es st ds" and pairs: "\<forall>x \<in> set es. effect_pair_ok x e"
    and p: "p \<in> set (managedPathPrefixes (managed_path e))" "observed_at st p \<noteq> Directory"
    and x: "x \<in> set es"
  shows "managed_path x \<noteq> p"
proof
  assume eq: "managed_path x = p"
  from pairs x have ok: "effect_pair_ok x e" by blast
  with eq p(1) have "isParent p (managed_path e)" by (auto simp: prefix_mem effect_pair_ok_def Let_def)
  with ok eq have "is_create_directory x"
    using lower_isParent [of p "managed_path e"]
    by (auto simp: effect_pair_ok_def Let_def collisionKey_def split: if_splits)
  with J x eq p(2) show False by (auto simp: planned_def is_create_directory_def split: effect.splits)
qed

lemma fresh_path:
  assumes J: "planned sha256 f all_effects es st ds" and "\<forall>x \<in> set es. managed_path x \<noteq> p"
    and "observed_at st p \<noteq> Directory"
  shows "p \<notin> dr_path ` set ds"
proof
  assume "p \<in> dr_path ` set ds"
  then obtain d where d: "d \<in> set ds" "p = dr_path d" by blast
  with J have "observed_at st p = dr_result d" by (simp add: planned_def apply_drafts_at)
  with assms(3) have "\<not> is_create_op (dr_kind d)"
    using kind_okD(3) [of sha256 d] J d(1) by (auto simp: planned_def)
  moreover have "covered all_effects es d" using J d(1) by (simp add: planned_def)
  ultimately show False using assms(2) d(2) by (auto simp: covered_def)
qed

lemma brain_segments: "segments_of ''.brain'' = [''.brain'']"
  by (simp add: segments_of_def)

lemma owned_parents_iff: "p \<in> set (owned_parents q) \<longleftrightarrow> isParent p q \<and> p \<noteq> ''.brain''"
proof -
  let ?n = "firstOwnedDepth q"
  have brain: "starts_with ''.brain/'' q \<longleftrightarrow> isParent ''.brain'' q" by (simp add: isParent_def)
  have "p \<in> set (owned_parents q) \<longleftrightarrow> isParent p q \<and> ?n \<le> length (segments_of p)"
  proof
    assume "p \<in> set (owned_parents q)"
    then obtain n where n: "?n \<le> n" "n < length (segments_of q)" "p = join_segments (take n (segments_of q))"
      unfolding owned_parents_def Let_def set_map by auto
    moreover have "0 < ?n" by (simp add: firstOwnedDepth_def)
    ultimately have seg: "segments_of p = take n (segments_of q)" by (simp add: segments_of_join_take)
    then have "segments_of q = segments_of p @ drop n (segments_of q)" by simp
    moreover have "drop n (segments_of q) \<noteq> []" using n(2) by simp
    ultimately have "isParent p q" unfolding isParent_segments by blast
    with seg n show "isParent p q \<and> ?n \<le> length (segments_of p)" by simp
  next
    assume a: "isParent p q \<and> ?n \<le> length (segments_of p)"
    then obtain r where r: "r \<noteq> []" "segments_of q = segments_of p @ r" by (auto simp: isParent_segments)
    then have "p = join_segments (take (length (segments_of p)) (segments_of q))" by simp
    then show "p \<in> set (owned_parents q)" using a r
      unfolding owned_parents_def Let_def set_map by (intro image_eqI [of _ _ "length (segments_of p)"]) auto
  qed
  moreover have "?n \<le> length (segments_of p) \<longleftrightarrow> p \<noteq> ''.brain''" if par: "isParent p q"
  proof (cases "isParent ''.brain'' q")
    case True
    from isParent_linear [OF par True] have "p = ''.brain'' \<or> isParent ''.brain'' p"
      by (auto simp: isParent_segments brain_segments Cons_eq_append_conv)
    then show ?thesis
    proof
      assume "isParent ''.brain'' p"
      then have "p \<noteq> ''.brain''" "2 \<le> length (segments_of p)"
        by (auto simp: isParent_segments brain_segments Suc_le_eq)
      with True brain show ?thesis by (simp add: firstOwnedDepth_def)
    qed (use True brain in \<open>simp add: firstOwnedDepth_def brain_segments\<close>)
  next
    case False
    then have "?n = 1" "p \<noteq> ''.brain''" using brain par by (auto simp: firstOwnedDepth_def)
    then show ?thesis using segments_of_nonempty [of p] by (cases "segments_of p") auto
  qed
  ultimately show ?thesis by blast
qed

lemma upt_split:
  assumes "[a ..< b] = ns @ n # ms"
  shows "ns = [a ..< n] \<and> a \<le> n \<and> n < b"
proof -
  have len: "length ns < b - a" using arg_cong [OF assms, of length] by simp
  then have "n = a + length ns" using arg_cong [OF assms, of "\<lambda>xs. xs ! length ns"] by simp
  moreover have "ns = [a ..< a + length ns]"
    using arg_cong [OF assms, of "take (length ns)"] len by simp
  ultimately show ?thesis using len by auto
qed

lemma owned_parents_split:
  assumes "owned_parents q = xs @ p # ys" "isParent x p" "x \<noteq> ''.brain''"
  shows "x \<in> set xs"
proof -
  let ?P = "\<lambda>n. join_segments (take n (segments_of q))"
  from assms(1) obtain ns n ms where split: "[firstOwnedDepth q ..< length (segments_of q)] = ns @ n # ms"
    and xs: "xs = map ?P ns" and p: "p = ?P n"
    unfolding owned_parents_def Let_def by (auto simp: map_eq_append_conv Cons_eq_map_conv)
  have ns: "ns = [firstOwnedDepth q ..< n]" and n: "firstOwnedDepth q \<le> n" "n < length (segments_of q)"
    using upt_split [OF split] by auto
  moreover have "0 < firstOwnedDepth q" by (simp add: firstOwnedDepth_def)
  ultimately have seg: "segments_of p = take n (segments_of q)" unfolding p by (intro segments_of_join_take) auto
  have "p \<in> set (owned_parents q)" using assms(1) by simp
  then have "isParent x q" using assms(2) isParent_trans owned_parents_iff by blast
  with assms(3) have "x \<in> set (owned_parents q)" by (simp add: owned_parents_iff)
  then obtain m where m: "firstOwnedDepth q \<le> m" "m < length (segments_of q)" "x = ?P m"
    unfolding owned_parents_def Let_def set_map by auto
  then have "segments_of x = take m (segments_of q)"
    using \<open>0 < firstOwnedDepth q\<close> by (simp add: segments_of_join_take)
  with assms(2) seg have "m < n" using m n by (auto simp: isParent_segments dest!: arg_cong [of _ _ length])
  with m ns show ?thesis unfolding xs by auto
qed

text \<open>A managed destination lies below directories a plan may create.\<close>

lemma shape_of_segments:
  assumes "list_all plain_segment ss" "ss \<noteq> []" "hd ss = CHR ''.'' # s"
    "CHR 0x5C \<notin> set (join_segments ss)" "\<not> hasControlCharacter (join_segments ss)"
  shows "canonicalizeProjectPath (join_segments ss) None = Canonical (join_segments ss)"
proof -
  obtain r where r: "join_segments ss = CHR ''.'' # r"
    using assms(2,3) by (cases ss; cases "tl ss") (auto simp: join_segments_def)
  have "relative_stack st 0 ss = (st @ ss, 0)" for st
    using assms(1) by (induction ss arbitrary: st) (auto simp: plain_segment_def)
  then have "canonical_relative (join_segments ss) = Canonical (join_segments ss)"
    using segments_of_join [OF assms(1,2)] by (simp add: canonical_relative_def)
  with r assms(4,5) show ?thesis
    by (simp add: canonicalizeProjectPath_def driveLetterPattern_def urlSchemePattern_def is_letter_def
        is_upper_def is_lower_def code_unit_def split: list.splits)
qed

lemma parent_characters: "isParent p q \<Longrightarrow> set p \<subseteq> set q"
  by (auto simp: isParent_def starts_with_iff)

lemma destination_segments:
  assumes "canonicalizeProjectPath p None = Canonical p" "segments_of p = root # s # rest" "isManagedRoot root"
    "root = ''.brain'' \<longrightarrow> to_lower_case s \<noteq> ''transactions''"
  shows "isManagedDestination p"
proof -
  from assms(2) segments_of_after [of p] obtain r where
    r: "first_segment p = root" "after_separator p = Some r" "segments_of r = s # rest"
    by (cases "after_separator p") auto
  then have "first_segment r = s" using segments_of_after [of r] by simp
  moreover have "p \<noteq> ''''" using assms(2) by (auto simp: segments_of_def)
  ultimately show ?thesis
    using assms r by (simp add: isManagedDestination_def isManagedPathShape_def reservedNamespace_def)
qed

lemma managed_root_dot: "isManagedRoot root \<Longrightarrow> \<exists>s. root = CHR ''.'' # s"
  by (auto simp: isManagedRoot_def MANAGED_DIRECTORY_ROOTS_def)

lemma managed_parent:
  assumes q: "isManagedDestination q" and par: "isParent p q" "p \<noteq> ''.brain''"
  shows "isManagedDirectoryDestination p"
proof -
  from q have shape: "isManagedPathShape q" by (auto simp: isManagedDestination_def split: if_splits)
  from par obtain t where t: "t \<noteq> []" "segments_of q = segments_of p @ t" by (auto simp: isParent_segments)
  obtain root ss where p: "segments_of p = root # ss" by (cases "segments_of p") auto
  have "q \<notin> set MANAGED_ROOT_FILES"
    using t p by (auto simp: MANAGED_ROOT_FILES_def segments_of_def)
  with managed_destination(2) [OF q] obtain rest where q2: "segments_of q = root # rest" "isManagedRoot root"
    "root = ''.brain'' \<longrightarrow> to_lower_case (hd rest) \<noteq> ''transactions''"
    using t p by auto
  show ?thesis
  proof (cases ss)
    case Nil
    then have "p = root" using p join_segments_of [of p] by (simp add: join_segments_def)
    with q2(2) par(2) show ?thesis by (simp add: isManagedDirectoryDestination_def)
  next
    case (Cons s rest')
    have plain: "list_all plain_segment (segments_of p)" using managed_shape(3) [OF shape] t by simp
    have "CHR 0x5C \<notin> set q" "\<not> hasControlCharacter q"
      using managed_shape(1) [OF shape] by (auto simp: canonicalizeProjectPath_def split: if_splits)
    then have "CHR 0x5C \<notin> set p" "\<not> hasControlCharacter p"
      using parent_characters [OF par(1)] by (auto simp: hasControlCharacter_def list_ex_iff)
    moreover obtain c where "root = CHR ''.'' # c" using managed_root_dot [OF q2(2)] by blast
    ultimately have "canonicalizeProjectPath p None = Canonical p"
      using shape_of_segments [OF plain, of c, unfolded join_segments_of] p by simp
    moreover have "hd rest = s" using q2(1) t p Cons by auto
    ultimately have "isManagedDestination p" using p Cons q2 by (intro destination_segments) auto
    then show ?thesis by (simp add: isManagedDirectoryDestination_def)
  qed
qed

lemma root_parentless: "isManagedRoot q \<Longrightarrow> \<not> isParent p q"
  by (auto simp: isManagedRoot_def MANAGED_DIRECTORY_ROOTS_def isParent_segments segments_of_def Cons_eq_append_conv)

lemma mutating_parent: "mutating e \<Longrightarrow> isParent p (managed_path e) \<Longrightarrow> p \<noteq> ''.brain'' \<Longrightarrow>
    isManagedDirectoryDestination p"
  by (cases e) (auto simp: isManagedDirectoryDestination_def dest: managed_parent root_parentless split: if_splits)

section \<open>Normalization keeps the plan consistent\<close>

lemma synthesize_planned:
  assumes "planned sha256 f all_effects es st ds" "\<forall>x \<in> set es. mutating x \<and> effect_pair_ok x e"
    "mutating e" "e \<in> set all_effects" "owned_parents (managed_path e) = xs @ ps"
    "\<forall>x \<in> set xs. observed_at st x = Directory" "synthesize_parents ps (st, ds) = Inr (st', ds')"
  shows "planned sha256 f all_effects es st' ds' \<and> parents_ready (observed_at st') (managed_path e)"
  using assms
proof (induction ps arbitrary: xs st ds)
  case Nil
  then show ?case using owned_parents_iff [of _ "managed_path e"] by (auto simp: parents_ready_def)
next
  case (Cons p ps)
  note J = Cons.prems(1)
  have p: "isParent p (managed_path e)" "p \<noteq> ''.brain''"
    using Cons.prems(5) owned_parents_iff [of p "managed_path e"] by auto
  show ?case
  proof (cases "observed_at st p")
    case Directory
    with Cons.prems Cons.IH [of st ds "xs @ [p]"] show ?thesis by auto
  next
    case Missing
    have old: "\<forall>x \<in> set es. managed_path x \<noteq> p"
      using earlier_effect [OF J, of e p] Cons.prems(2) p Missing by (auto simp: prefix_mem)
    have "parents_ready (observed_at st) p"
      using owned_parents_split [OF Cons.prems(5)] Cons.prems(6) by (auto simp: parents_ready_def)
    moreover have "destination_ok (draft_directory p Missing)" "kind_ok sha256 (draft_directory p Missing)"
      using mutating_parent [OF Cons.prems(3) p]
      by (simp_all add: destination_ok_def kind_ok_def draft_directory_def is_create_op_def)
    moreover have "covered all_effects es (draft_directory p Missing)"
      using Cons.prems(4) p(1) by (auto simp: covered_def draft_directory_def is_create_op_def prefix_mem)
    moreover define st1 where "st1 = st(p \<mapsto> Directory)"
    ultimately have J2: "planned sha256 f all_effects es st1 (ds @ [draft_directory p Missing])"
      using add_draft [OF J, of "draft_directory p Missing" "[]"] fresh_path [OF J old] old Missing
      by (simp add: draft_directory_def)
    have "observed_at st1 = (observed_at st)(p := Directory)" by (simp add: st1_def)
    moreover have "synthesize_parents ps (st1, ds @ [draft_directory p Missing]) = Inr (st', ds')"
      using Cons.prems(7) Missing by (simp add: st1_def)
    ultimately show ?thesis
      using Cons.prems(5,6) by (intro Cons.IH [OF J2 Cons.prems(2-4), of "xs @ [p]"]) auto
  next
    case (File_print b h)
    with Cons.prems(7) show ?thesis by simp
  qed
qed

lemma finish_unchanged:
  assumes J: "planned sha256 f all_effects es st ds" and "observed_at st (managed_path e) = desired sha256 e"
  shows "planned sha256 f all_effects (es @ [e]) (st(managed_path e \<mapsto> desired sha256 e)) ds"
proof -
  have "observed_at (st(managed_path e \<mapsto> desired sha256 e)) = observed_at st" using assms(2) by auto
  with assms show ?thesis by (auto simp: planned_def intro: covered_mono)
qed

lemma finish_draft:
  assumes J: "planned sha256 f all_effects es st ds" and pairs: "\<forall>x \<in> set es. effect_pair_ok x e"
    and d: "dr_path d = managed_path e" "dr_result d = desired sha256 e" "dr_expected d = observed_at st (managed_path e)"
      "kind_ok sha256 d" "destination_ok d"
    and cov: "covered all_effects [e] d" and par: "parents_ready (observed_at st) (managed_path e)"
  shows "planned sha256 f all_effects (es @ [e]) (st(managed_path e \<mapsto> desired sha256 e)) (ds @ [d])"
proof -
  have "observed_at st (managed_path e) \<noteq> Directory" using kind_okD(2) [OF d(4)] d(3) by simp
  then have old: "\<forall>x \<in> set es. managed_path x \<noteq> managed_path e"
    using earlier_effect [OF J pairs, of "managed_path e"] by (auto simp: prefix_mem)
  have "covered all_effects (es @ [e]) d" using cov by (auto simp: covered_def split: if_splits)
  moreover have "managed_path e \<notin> dr_path ` set ds"
    using fresh_path [OF J old] \<open>observed_at st (managed_path e) \<noteq> Directory\<close> by blast
  ultimately have "planned sha256 f all_effects (es @ [e]) (st(dr_path d \<mapsto> dr_result d)) (ds @ [d])"
    using d(3-5) par old by (intro add_draft [OF J]) (simp_all only: d(1,2), simp_all)
  then show ?thesis by (simp only: d(1,2))
qed

lemma normalize_effect_planned:
  assumes J: "planned sha256 f all_effects es st ds" and pairs: "\<forall>x \<in> set es. mutating x \<and> effect_pair_ok x e"
    and e: "mutating e" "e \<in> set all_effects" and step: "normalize_effect sha256 e (st, ds) = Inr (st', ds')"
  shows "planned sha256 f all_effects (es @ [e]) st' ds'"
proof -
  have synth: "planned sha256 f all_effects es st1 ds1 \<and> parents_ready (observed_at st1) (managed_path e)"
    if "synthesizeMissingParents (managed_path e) (st, ds) = Inr (st1, ds1)" for st1 ds1
    using synthesize_planned [OF J pairs e, of "[]"] that by (simp add: synthesizeMissingParents_def)
  have only: "\<forall>x \<in> set es. effect_pair_ok x e" using pairs by blast
  show ?thesis
  proof (cases e)
    case (Create_directory p)
    with step obtain st1 ds1 where s: "synthesizeMissingParents p (st, ds) = Inr (st1, ds1)"
      and n: "normalizeCreateDirectory p (observed_at st1 p) (st1, ds1) = Inr (st', ds')" by auto
    note J1 = synth [unfolded Create_directory, simplified, OF s]
    show ?thesis
    proof (cases "observed_at st1 p")
      case Missing
      with n have "st' = st1(p \<mapsto> Directory)" "ds' = ds1 @ [draft_directory p Missing]"
        by (auto simp: normalizeCreateDirectory_def)
      with finish_draft [OF conjunct1 [OF J1] only, of "draft_directory p Missing"] J1 Missing Create_directory e
      show ?thesis
        by (simp add: draft_directory_def kind_ok_def destination_ok_def is_create_op_def covered_def)
           (metis managed_path.simps(3) prefix_mem)
    next
      case Directory
      with n have "st' = st1(p \<mapsto> Directory)" "ds' = ds1" by (auto simp: normalizeCreateDirectory_def)
      with finish_unchanged [OF conjunct1 [OF J1], of e] Directory Create_directory show ?thesis by simp
    qed (use n in \<open>auto simp: normalizeCreateDirectory_def\<close>)
  next
    case (Write_file p c x)
    let ?r = "File_print (utf8_length c) (sha256 c)"
    from Write_file step obtain st1 ds1 where s: "synthesizeMissingParents p (st, ds) = Inr (st1, ds1)"
      and n: "normalizeWriteFile sha256 p c (observed_at st1 p) (st1, ds1) = Inr (st', ds')" by auto
    note J1 = synth [unfolded Write_file, simplified, OF s]
    from n have nd: "observed_at st1 p \<noteq> Directory" and st': "st' = st1(p \<mapsto> ?r)"
      by (auto simp: normalizeWriteFile_def Let_def split: if_splits)
    show ?thesis
    proof (cases "observed_at st1 p = ?r")
      case True
      with n have "ds' = ds1" by (auto simp: normalizeWriteFile_def Let_def split: if_splits)
      with finish_unchanged [OF conjunct1 [OF J1], of e] True Write_file st' show ?thesis by simp
    next
      case False
      let ?d = "\<lparr> dr_kind = Write_op c, dr_path = p, dr_expected = observed_at st1 p, dr_result = ?r \<rparr>"
      from False n have "ds' = ds1 @ [?d]" by (auto simp: normalizeWriteFile_def Let_def split: if_splits)
      with finish_draft [OF conjunct1 [OF J1] only, of ?d] J1 False nd Write_file e st' show ?thesis
        by (simp add: kind_ok_def destination_ok_def is_create_op_def covered_def is_create_directory_def)
    qed
  next
    case (Delete_file p x)
    from Delete_file step have n: "normalizeDeleteFile p (observed_at st p) (st, ds) = Inr (st', ds')" by simp
    show ?thesis
    proof (cases "observed_at st p")
      case Missing
      with n have "st' = st(p \<mapsto> Missing)" "ds' = ds" by (auto simp: normalizeDeleteFile_def)
      with finish_unchanged [OF J, of e] Missing Delete_file show ?thesis by simp
    next
      case (File_print b h)
      let ?d = "\<lparr> dr_kind = Delete_op, dr_path = p, dr_expected = File_print b h, dr_result = Missing \<rparr>"
      from File_print n have ds': "st' = st(p \<mapsto> Missing)" "ds' = ds @ [?d]"
        by (auto simp: normalizeDeleteFile_def)
      have "parents_ready (observed_at st) p"
        using J File_print by (auto simp: planned_def tree_consistent_def parents_ready_def)
      with finish_draft [OF J only, of ?d] File_print Delete_file e ds' show ?thesis
        by (simp add: kind_ok_def destination_ok_def is_create_op_def covered_def is_create_directory_def)
    qed (use n in \<open>auto simp: normalizeDeleteFile_def\<close>)
  qed (use e in auto)
qed

lemma all_pairs_append: "all_pairs P (xs @ ys) \<longleftrightarrow> all_pairs P xs \<and> all_pairs P ys \<and> (\<forall>x \<in> set xs. \<forall>y \<in> set ys. P x y)"
  by (induction xs) (auto simp: list_all_iff)

lemma normalize_effects_planned:
  assumes "planned sha256 f all_effects es st ds" "all_effects = es @ rest" "list_all mutating all_effects"
    "all_pairs effect_pair_ok all_effects" "normalize_effects sha256 rest (st, ds) = Inr (st', ds')"
  shows "planned sha256 f all_effects all_effects st' ds'"
  using assms
proof (induction rest arbitrary: es st ds)
  case (Cons e rest)
  from Cons.prems(5) obtain st1 ds1 where s: "normalize_effect sha256 e (st, ds) = Inr (st1, ds1)"
    "normalize_effects sha256 rest (st1, ds1) = Inr (st', ds')" by auto
  have "planned sha256 f all_effects (es @ [e]) st1 ds1"
    using Cons.prems(2-4) by (intro normalize_effect_planned [OF Cons.prems(1) _ _ _ s(1)])
      (auto simp: all_pairs_append list_all_iff)
  from Cons.IH [OF this _ Cons.prems(3,4) s(2)] Cons.prems(2) show ?case by simp
qed simp

section \<open>Planned operations pass the checks of the executor\<close>

lemma all_pairs_nth: "all_pairs P xs \<longleftrightarrow> (\<forall>j < length xs. \<forall>i < j. P (xs ! i) (xs ! j))"
proof (induction xs rule: rev_induct)
  case (snoc x xs)
  then show ?case by (auto simp: all_pairs_append nth_append less_Suc_eq set_conv_nth)
qed simp

lemma beneath_okI:
  assumes "\<forall>j < length ps. \<forall>i < j. to_lower_case (ps ! i) \<in> set C \<longrightarrow> to_lower_case (ps ! j) \<in> set C"
    "beneath \<longrightarrow> (\<forall>p \<in> set ps. to_lower_case p \<in> set C)"
  shows "beneath_ok C beneath ps"
  using assms
proof (induction ps arbitrary: beneath)
  case (Cons p ps)
  have later: "\<forall>j < length ps. \<forall>i < j. to_lower_case (ps ! i) \<in> set C \<longrightarrow> to_lower_case (ps ! j) \<in> set C"
    using Cons.prems(1) by (metis Suc_less_eq length_Cons nth_Cons_Suc)
  have "to_lower_case p \<in> set C \<longrightarrow> (\<forall>q \<in> set ps. to_lower_case q \<in> set C)"
    using Cons.prems(1) by (metis Suc_less_eq in_set_conv_nth length_Cons nth_Cons_0 nth_Cons_Suc zero_less_Suc)
  with Cons.IH [OF later] Cons.prems(2) show ?case by auto
qed simp

definition created_keys :: "'a draft_operation_scheme list \<Rightarrow> string set" where
  "created_keys ds = (\<lambda>d. to_lower_case (dr_path d)) ` {d \<in> set ds. is_create_op (dr_kind d)}"

lemma created_chain_okI:
  assumes "\<forall>j < length ds. \<forall>C. set C = set created \<union> created_keys (take j ds) \<longrightarrow>
      beneath_ok C False (butlast (managedPathPrefixes (dr_path (ds ! j))))"
  shows "created_chain_ok created ds"
  using assms
proof (induction ds arbitrary: created)
  case (Cons d ds)
  let ?C = "if is_create_op (dr_kind d) then to_lower_case (dr_path d) # created else created"
  have "beneath_ok created False (butlast (managedPathPrefixes (dr_path d)))"
    using Cons.prems [rule_format, of 0 created] by (simp add: created_keys_def)
  moreover have "created_chain_ok ?C ds"
  proof (rule Cons.IH, intro allI impI)
    fix j C
    assume j: "j < length ds" and C: "set C = set ?C \<union> created_keys (take j ds)"
    have "set C = set created \<union> created_keys (take (Suc j) (d # ds))"
      unfolding C created_keys_def by auto
    with j Cons.prems [rule_format, of "Suc j" C]
    show "beneath_ok C False (butlast (managedPathPrefixes (dr_path (ds ! j))))" by simp
  qed
  ultimately show ?case by simp
qed simp

lemma butlast_prefixes:
  "butlast (managedPathPrefixes q) = map (\<lambda>n. join_segments (take n (segments_of q))) [1 ..< length (segments_of q)]"
proof -
  have "0 < length (segments_of q)" by simp
  then show ?thesis by (simp add: managedPathPrefixes_def Let_def map_butlast [symmetric])
qed

lemma prefixes_chain:
  assumes "j < length (butlast (managedPathPrefixes q))" "i < j"
  shows "isParent (butlast (managedPathPrefixes q) ! i) (butlast (managedPathPrefixes q) ! j)"
    "isParent (butlast (managedPathPrefixes q) ! j) q"
proof -
  let ?ss = "segments_of q"
  have n: "Suc j < length ?ss" using assms(1) by (simp add: butlast_prefixes)
  have P: "segments_of (butlast (managedPathPrefixes q) ! k) = take (Suc k) ?ss" if "k \<le> j" for k
  proof -
    have "Suc k < length ?ss" using n that by simp
    then have "[1 ..< length ?ss] ! k = Suc k" by (simp add: nth_upt)
    with \<open>Suc k < length ?ss\<close> show ?thesis by (simp add: butlast_prefixes segments_of_join_take)
  qed
  have "take (Suc j) ?ss = take (Suc i) ?ss @ take (j - i) (drop (Suc i) ?ss)"
    using assms(2) by (metis Suc_diff_Suc add_diff_inverse_nat less_imp_not_less plus_nat.simps(2) take_add add_Suc_right diff_Suc_Suc)
  moreover have "take (j - i) (drop (Suc i) ?ss) \<noteq> []" using n assms(2) by simp
  ultimately show "isParent (butlast (managedPathPrefixes q) ! i) (butlast (managedPathPrefixes q) ! j)"
    using P [of i] P [of j] assms(2) unfolding isParent_segments by (metis less_imp_le order_refl)
  have "?ss = take (Suc j) ?ss @ drop (Suc j) ?ss" "drop (Suc j) ?ss \<noteq> []" using n by simp_all
  then show "isParent (butlast (managedPathPrefixes q) ! j) q"
    using P [of j] unfolding isParent_segments by (metis order_refl)
qed

text \<open>A list of operations consistent with the files it was planned on.\<close>

definition consistent_plan :: "(string \<Rightarrow> string) \<Rightarrow> file_view \<Rightarrow> 'a draft_operation_scheme list \<Rightarrow> bool" where
  "consistent_plan sha256 f ds \<longleftrightarrow>
     distinct (map dr_path ds) \<and> tree_consistent f \<and> plan_ready f ds \<and>
     (\<forall>d \<in> set ds. dr_expected d = f (dr_path d) \<and> kind_ok sha256 d \<and> destination_ok d)"

lemma created_before:
  assumes plan: "consistent_plan sha256 f ds" and j: "j < length ds"
    and p: "isParent p (dr_path (ds ! j))" "p \<noteq> ''.brain''" "f p \<noteq> Directory"
  shows "\<exists>i < j. dr_path (ds ! i) = p \<and> is_create_op (dr_kind (ds ! i))"
proof -
  have "apply_drafts f (take j ds) p = Directory"
    using plan j p by (auto simp: consistent_plan_def plan_ready_def parents_ready_def)
  with p(3) have "p \<in> dr_path ` set (take j ds)" using apply_drafts_other by metis
  then obtain d where d: "d \<in> set (take j ds)" "dr_path d = p" by blast
  have "distinct (map dr_path (take j ds))" using plan by (simp add: consistent_plan_def take_map [symmetric])
  from apply_drafts_at [OF this d(1)] d(2) \<open>apply_drafts f (take j ds) p = Directory\<close>
  have "dr_result d = Directory" by metis
  moreover have "kind_ok sha256 d" using plan d(1) by (auto simp: consistent_plan_def dest: in_set_takeD)
  ultimately have "is_create_op (dr_kind d)" by (simp add: kind_okD)
  with d j show ?thesis by (auto simp: in_set_conv_nth)
qed

lemma not_brain: "destination_ok d \<Longrightarrow> dr_path d \<noteq> ''.brain''"
  by (auto simp: destination_ok_def isManagedDirectoryDestination_def isManagedDestination_def after_separator_def
      MANAGED_ROOT_FILES_def split: if_splits)

lemma consistent_pair:
  assumes plan: "consistent_plan sha256 f ds" and ij: "i < j" "j < length ds"
    and keys: "to_lower_case (dr_path (ds ! i)) \<noteq> to_lower_case (dr_path (ds ! j))"
      "isParent (to_lower_case (dr_path (ds ! i))) (to_lower_case (dr_path (ds ! j))) \<longleftrightarrow>
         isParent (dr_path (ds ! i)) (dr_path (ds ! j))"
      "isParent (to_lower_case (dr_path (ds ! j))) (to_lower_case (dr_path (ds ! i))) \<longleftrightarrow>
         isParent (dr_path (ds ! j)) (dr_path (ds ! i))"
  shows "operation_pair_ok (ds ! i) (ds ! j)"
proof -
  let ?d = "ds ! i" and ?e = "ds ! j"
  have mem: "?d \<in> set ds" "?e \<in> set ds" using ij by auto
  with plan have d: "kind_ok sha256 ?d" "dr_expected ?d = f (dr_path ?d)" "dr_path ?d \<noteq> ''.brain''"
    and e: "kind_ok sha256 ?e" "dr_expected ?e = f (dr_path ?e)" "dr_path ?e \<noteq> ''.brain''"
    by (auto simp: consistent_plan_def not_brain)
  have unique: "k = l" if "k < length ds" "l < length ds" "dr_path (ds ! k) = dr_path (ds ! l)" for k l
    using plan that by (auto simp: consistent_plan_def distinct_conv_nth)
  have nd: "f (dr_path ?d) \<noteq> Directory" "f (dr_path ?e) \<noteq> Directory"
    using kind_okD(2) [OF d(1)] kind_okD(2) [OF e(1)] d(2) e(2) by auto
  have down: "is_create_op (dr_kind ?d) \<and> dr_expected ?e = Missing" if p: "isParent (dr_path ?d) (dr_path ?e)"
  proof
    from created_before [OF plan ij(2) p d(3) nd(1)] unique ij show "is_create_op (dr_kind ?d)"
      by (metis dual_order.strict_trans)
    show "dr_expected ?e = Missing"
      using plan p d(3) nd(1) e(2) unfolding consistent_plan_def tree_consistent_def by metis
  qed
  have up: "\<not> isParent (dr_path ?e) (dr_path ?d)"
  proof
    assume p: "isParent (dr_path ?e) (dr_path ?d)"
    from created_before [OF plan _ p e(3) nd(2)] ij unique show False
      by (metis dual_order.strict_trans less_irrefl)
  qed
  show ?thesis using down up keys by (simp add: operation_pair_ok_def Let_def isParent_def)
qed

lemma consistent_chain:
  assumes plan: "consistent_plan sha256 f ds" and j: "j < length ds" and C: "set C = created_keys (take j ds)"
    and keys: "\<And>p d. isParent p (dr_path (ds ! j)) \<Longrightarrow> d \<in> set ds \<Longrightarrow>
      to_lower_case p = to_lower_case (dr_path d) \<Longrightarrow> p = dr_path d"
  shows "beneath_ok C False (butlast (managedPathPrefixes (dr_path (ds ! j))))"
proof (rule beneath_okI)
  let ?ps = "butlast (managedPathPrefixes (dr_path (ds ! j)))"
  show "\<forall>b < length ?ps. \<forall>a < b. to_lower_case (?ps ! a) \<in> set C \<longrightarrow> to_lower_case (?ps ! b) \<in> set C"
  proof (intro allI impI)
    fix a b
    assume b: "b < length ?ps" and a: "a < b" and c: "to_lower_case (?ps ! a) \<in> set C"
    note par = prefixes_chain [OF b a]
    have pa: "isParent (?ps ! a) (dr_path (ds ! j))" using par isParent_trans by blast
    from c C obtain d where d: "d \<in> set (take j ds)" "is_create_op (dr_kind d)"
      "to_lower_case (?ps ! a) = to_lower_case (dr_path d)"
      by (auto simp: created_keys_def)
    with pa keys have eq: "?ps ! a = dr_path d" by (meson in_set_takeD)
    have dd: "d \<in> set ds" using d(1) by (rule in_set_takeD)
    with plan have k: "kind_ok sha256 d" "dr_expected d = f (dr_path d)" "dr_path d \<noteq> ''.brain''"
      by (auto simp: consistent_plan_def not_brain)
    have "f (?ps ! a) \<noteq> Directory" using kind_okD(2) [OF k(1)] k(2) eq by simp
    with plan par(1) k(3) eq have "f (?ps ! b) = Missing"
      unfolding consistent_plan_def tree_consistent_def by metis
    moreover have "?ps ! b \<noteq> ''.brain''"
      using par(1) by (auto simp: isParent_segments brain_segments Cons_eq_append_conv)
    ultimately obtain i where i: "i < j" "dr_path (ds ! i) = ?ps ! b" "is_create_op (dr_kind (ds ! i))"
      using created_before [OF plan j par(2)] by auto
    then have "ds ! i \<in> set (take j ds)" using j by (auto simp: in_set_conv_nth intro!: exI [of _ i])
    with i show "to_lower_case (?ps ! b) \<in> set C" unfolding C created_keys_def by force
  qed
qed simp

lemma consistent_relationships:
  assumes plan: "consistent_plan sha256 f ds" and inj: "inj_on collisionKey S"
    and S: "\<And>d p. d \<in> set ds \<Longrightarrow> p = dr_path d \<or> isParent p (dr_path d) \<Longrightarrow> p \<in> S"
  shows "validateManagedRelationships ds"
  unfolding validateManagedRelationships_def
proof (intro conjI)
  have inj': "inj_on to_lower_case S" using inj by (simp add: inj_on_def collisionKey_def)
  have "set (concat (map (\<lambda>operation. managedPathPrefixes (dr_path operation)) ds)) \<subseteq> S"
    using S by (auto simp: prefix_mem)
  then show "spellings_ok Map.empty (concat (map (\<lambda>operation. managedPathPrefixes (dr_path operation)) ds))"
    using inj by (simp add: spellings_ok_iff) (meson inj_on_subset)
  have key: "isParent (to_lower_case (dr_path d)) (to_lower_case (dr_path e)) \<longleftrightarrow> isParent (dr_path d) (dr_path e)"
    if "d \<in> set ds" "e \<in> set ds" for d e
    using that S by (intro key_parent [OF inj']) auto
  have uniq: "p = dr_path d" if "to_lower_case p = to_lower_case (dr_path d)" "p \<in> S" "d \<in> set ds" for p d
    using inj_onD [OF inj' that(1)] S that(2,3) by blast
  show "all_pairs operation_pair_ok ds"
    unfolding all_pairs_nth
  proof (intro allI impI)
    fix i j
    assume ij: "j < length ds" "i < j"
    then have mem: "ds ! i \<in> set ds" "ds ! j \<in> set ds" by auto
    have "dr_path (ds ! i) \<noteq> dr_path (ds ! j)"
      using plan ij by (auto simp: consistent_plan_def distinct_conv_nth)
    then have "to_lower_case (dr_path (ds ! i)) \<noteq> to_lower_case (dr_path (ds ! j))"
      using uniq mem S by blast
    then show "operation_pair_ok (ds ! i) (ds ! j)"
      using consistent_pair [OF plan ij(2,1)] key mem by blast
  qed
  show "created_chain_ok [] ds"
  proof (intro created_chain_okI allI impI)
    fix j C
    assume j: "j < length ds" and C: "set C = set [] \<union> created_keys (take j ds)"
    have "p = dr_path d" if "isParent p (dr_path (ds ! j))" "d \<in> set ds" "to_lower_case p = to_lower_case (dr_path d)"
      for p d
      using uniq [OF that(3) _ that(2)] S [of "ds ! j" p] j that(1) by auto
    with consistent_chain [OF plan j, of C] C
    show "beneath_ok C False (butlast (managedPathPrefixes (dr_path (ds ! j))))" by simp
  qed
qed

section \<open>From the drafts to the numbered operations\<close>

lemma finalize_sel [simp]:
  "dr_kind (finalizeOperation d i) = dr_kind d" "dr_path (finalizeOperation d i) = dr_path d"
  "dr_expected (finalizeOperation d i) = dr_expected d" "dr_result (finalizeOperation d i) = dr_result d"
  "mo_operationId (finalizeOperation d i) = operationIdAt i"
  "mo_stagedPath (finalizeOperation d i) =
     (case dr_kind d of Write_op _ \<Rightarrow> Some (staged_name (operationIdAt i)) | _ \<Rightarrow> None)"
  by (simp_all add: finalizeOperation_def Let_def draft_operation.defs managed_operation.defs)

definition finalize_all :: "nat \<Rightarrow> draft_operation list \<Rightarrow> managed_operation list" where
  "finalize_all n ds = map (\<lambda>(i, d). finalizeOperation d i) (enumerate n ds)"

lemma finalize_all_simps [simp]:
  "finalize_all n [] = []" "finalize_all n (d # ds) = finalizeOperation d n # finalize_all (Suc n) ds"
  by (simp_all add: finalize_all_def)

lemma length_finalize_all [simp]: "length (finalize_all n ds) = length ds"
  by (simp add: finalize_all_def)

lemma nth_finalize_all: "i < length ds \<Longrightarrow> finalize_all n ds ! i = finalizeOperation (ds ! i) (n + i)"
  by (simp add: finalize_all_def nth_enumerate_eq)

lemma map_finalize_all:
  "map dr_path (finalize_all n ds) = map dr_path ds" "map dr_result (finalize_all n ds) = map dr_result ds"
  by (induction ds arbitrary: n) auto

lemma apply_drafts_cong:
  assumes "map dr_path (xs :: 'a draft_operation_scheme list) = map dr_path (ys :: 'b draft_operation_scheme list)"
    "map dr_result xs = map dr_result ys"
  shows "apply_drafts f xs = apply_drafts f ys"
proof -
  have "length xs = length ys" using assms(1) by (metis length_map)
  then show ?thesis using assms
  proof (induction xs ys arbitrary: f rule: list_induct2)
    case (Cons x xs y ys)
    then show ?case by (simp add: apply_drafts_def apply_draft_def)
  qed (simp add: apply_drafts_def)
qed

lemma apply_finalize_all: "apply_drafts f (finalize_all n ds) = apply_drafts f ds"
  by (intro apply_drafts_cong map_finalize_all)

lemma take_finalize_all: "take i (finalize_all n ds) = finalize_all n (take i ds)"
  by (induction ds arbitrary: n i) (auto simp: take_Cons split: nat.splits)

lemma planned_consistent:
  assumes "planned sha256 f all_effects es st ds" "tree_consistent f"
  shows "consistent_plan sha256 f (finalize_all 0 ds)"
proof -
  have "plan_ready f (finalize_all 0 ds)"
    using assms(1) by (simp add: planned_def plan_ready_def take_finalize_all apply_finalize_all nth_finalize_all)
  moreover have "dr_expected d = f (dr_path d) \<and> kind_ok sha256 d \<and> destination_ok d"
    if "d \<in> set (finalize_all 0 ds)" for d
  proof -
    from that obtain i where i: "i < length ds" "d = finalizeOperation (ds ! i) i"
      by (auto simp: finalize_all_def in_set_enumerate_eq)
    then have "ds ! i \<in> set ds" by simp
    with assms(1) have "dr_expected (ds ! i) = f (dr_path (ds ! i)) \<and> kind_ok sha256 (ds ! i) \<and> destination_ok (ds ! i)"
      by (simp add: planned_def)
    moreover have "kind_ok sha256 (finalizeOperation x k) = kind_ok sha256 x"
      "destination_ok (finalizeOperation x k) = destination_ok x" for x k
      by (simp_all add: kind_ok_def destination_ok_def cong: operation_kind.case_cong)
    ultimately show ?thesis by (simp add: i(2))
  qed
  moreover have "distinct (map dr_path ds)" using assms(1) by (simp add: planned_def)
  ultimately show ?thesis using assms(2) by (simp add: consistent_plan_def map_finalize_all)
qed

lemma covered_prefix:
  assumes "covered all_effects all_effects d" "p = dr_path d \<or> isParent p (dr_path d)"
  shows "\<exists>e \<in> set all_effects. p \<in> set (managedPathPrefixes (managed_path e))"
  using assms by (auto simp: covered_def prefix_mem split: if_splits dest: isParent_trans)

text \<open>What the normalizer produces, and the checks on its numbered operations.\<close>

lemma normalized_planned:
  assumes "normalizeManagedMutationPlan effects observations sha256 = Inr (Ready ops)"
    and "tree_consistent (observed_at observations)"
  obtains ms st ds where "selectManagedEffects effects = Inr ms" "validateRelationships ms"
    "list_all mutating ms" "ds \<noteq> []" "ops = finalize_all 0 ds"
    "planned sha256 (observed_at observations) ms ms st ds"
proof -
  from assms(1) obtain ms st ds where ms: "selectManagedEffects effects = Inr ms" "validateRelationships ms"
    and n: "normalize_effects sha256 ms (observations, []) = Inr (st, ds)" "ds \<noteq> []" "ops = finalize_all 0 ds"
    by (auto simp: normalizeManagedMutationPlan_def finalize_all_def split: if_splits)
  have "list_all mutating ms" using selectManagedEffects_mutating [OF ms(1)] by blast
  moreover have "planned sha256 (observed_at observations) ms [] observations []"
    using assms(2) by (simp add: planned_def)
  ultimately have "planned sha256 (observed_at observations) ms ms st ds"
    using normalize_effects_planned [of sha256 _ ms "[]" _ "[]" ms] ms(2) n(1)
    by (simp add: validateRelationships_def)
  with that ms \<open>list_all mutating ms\<close> n show thesis by blast
qed

lemma first_failure_None: "(\<forall>j < length xs. check (xs ! j) (i + j) = None) \<Longrightarrow> first_failure check i xs = None"
proof (induction xs arbitrary: i)
  case (Cons x xs)
  then show ?case by (fastforce dest: spec [of _ 0] spec [of _ "Suc _"])
qed simp

lemma finalized_accepted:
  assumes "kind_ok sha256 d" "destination_ok d" "valid_fingerprint (dr_expected d)" "valid_fingerprint (dr_result d)"
  shows "freezeManagedOperation sha256 (finalizeOperation d i) i = None"
  using assms
  by (cases "dr_kind d")
     (auto simp: freezeManagedOperation_def Let_def kind_ok_def destination_ok_def is_create_op_def)

lemma utf8_length_nonneg: "0 \<le> utf8_length s"
  unfolding utf8_length_def by (intro sum_list_nonneg) auto

lemma normalized_frozen:
  assumes plan: "normalizeManagedMutationPlan effects observations sha256 = Inr (Ready ops)"
    and tree: "tree_consistent (observed_at observations)" and valid: "\<forall>p. valid_fingerprint (observed_at observations p)"
    and digests: "\<forall>s. sha256_test (sha256 s)"
    and sizes: "\<forall>p c x. Write_file p c x \<in> set effects \<longrightarrow> isSafeInteger (utf8_length c)"
  shows "freezeManagedPlan sha256 ops = Inr ops"
proof -
  obtain ms st ds where ms: "selectManagedEffects effects = Inr ms" "validateRelationships ms" "ds \<noteq> []"
    and ops: "ops = finalize_all 0 ds" and J: "planned sha256 (observed_at observations) ms ms st ds"
    using normalized_planned [OF plan tree] by metis
  let ?S = "set (concat (map (\<lambda>e. managedPathPrefixes (managed_path e)) ms))"
  have "inj_on collisionKey ?S"
    using ms(2) unfolding validateRelationships_def spellings_ok_iff by blast
  moreover have "p \<in> ?S" if d: "d \<in> set ops" "p = dr_path d \<or> isParent p (dr_path d)" for d p
  proof -
    from d(1) obtain i where "i < length ds" "d = finalizeOperation (ds ! i) i"
      by (auto simp: ops finalize_all_def in_set_enumerate_eq)
    then obtain x where "x \<in> set ds" "d = finalizeOperation x i" using nth_mem by blast
    with d(2) J covered_prefix [of ms x p] show ?thesis by (auto simp: planned_def)
  qed
  ultimately have "validateManagedRelationships ops"
    using planned_consistent [OF J tree] ops by (intro consistent_relationships) auto
  moreover have "first_failure (freezeManagedOperation sha256) 0 ops = None"
  proof (intro first_failure_None allI impI)
    fix j assume "j < length ops"
    then have j: "j < length ds" "ds ! j \<in> set ds" by (auto simp: ops)
    with J have d: "kind_ok sha256 (ds ! j)" "destination_ok (ds ! j)" "covered ms ms (ds ! j)"
      "dr_expected (ds ! j) = observed_at observations (dr_path (ds ! j))"
      and final: "\<forall>e \<in> set ms. observed_at st (managed_path e) = desired sha256 e"
      and st: "observed_at st (dr_path (ds ! j)) = dr_result (ds ! j)"
      by (auto simp: planned_def apply_drafts_at)
    have "valid_fingerprint (dr_result (ds ! j))"
    proof (cases "dr_kind (ds ! j)")
      case (Write_op c)
      with d(3) obtain e where e: "e \<in> set ms" "dr_path (ds ! j) = managed_path e"
        by (auto simp: covered_def is_create_op_def)
      with final st have "desired sha256 e = dr_result (ds ! j)" by simp
      moreover have r: "dr_result (ds ! j) = File_print (utf8_length c) (sha256 c)"
        using d(1) Write_op by (simp add: kind_ok_def)
      ultimately obtain p c' x where "e = Write_file p c' x" "utf8_length c' = utf8_length c" by (cases e) auto
      with e(1) selectManagedEffects_mutating [OF ms(1)] sizes have "isSafeInteger (utf8_length c)" by fastforce
      with r digests utf8_length_nonneg show ?thesis by (simp add: valid_fingerprint_def)
    qed (use d(1) in \<open>auto simp: kind_ok_def valid_fingerprint_def\<close>)
    with finalized_accepted [OF d(1,2)] d(4) valid j
    show "freezeManagedOperation sha256 (ops ! j) (0 + j) = None" by (simp add: ops nth_finalize_all)
  qed
  ultimately show ?thesis using ms(3) by (simp add: freezeManagedPlan_def ops) (metis length_0_conv length_finalize_all)
qed

section \<open>Properties\<close>

text \<open>
  Every plan the normalizer produces passes, unchanged, the checks the executor
  repeats before it writes anything: numbering, destinations, fingerprints, one spelling
  per path, no path touched twice, directories created before what they hold.
\<close>

theorem normalized_plan_accepted:
  assumes "normalizeManagedMutationPlan effects observations sha256 = Inr (Ready ops)"
    "tree_consistent (observed_at observations)" "\<forall>p. valid_fingerprint (observed_at observations p)"
    "\<forall>s. sha256_test (sha256 s)"
    "\<forall>p c x. Write_file p c x \<in> set effects \<longrightarrow> isSafeInteger (utf8_length c)"
  shows "freezeManagedPlan sha256 ops = Inr ops"
  using assms by (rule normalized_frozen)

definition sample_sha :: "string \<Rightarrow> string" where
  "sample_sha s = replicate 64 (CHR ''a'')"

definition sample_effects :: "effect list" where
  "sample_effects = [Write_file ''.claude/rules/a.md'' ''text'' None, Delete_file ''.brain/old.json'' None]"

definition sample_observed :: observed_state where
  "sample_observed = (\<lambda>p. if p = ''.brain/old.json'' then Some (File_print 3 (sample_sha '''')) else None)"

lemma sample_observed_consistent: "tree_consistent (observed_at sample_observed)"
  unfolding tree_consistent_def
proof (intro allI impI)
  fix p q
  assume a: "isParent p q" "p \<noteq> ''.brain''" "observed_at sample_observed q \<noteq> Missing"
  then have "segments_of q = [''.brain'', ''old.json'']"
    by (auto simp: observed_at_def sample_observed_def segments_of_def split: if_splits)
  with a(1,2) have False by (auto simp: isParent_segments Cons_eq_append_conv brain_segments [symmetric] segments_of_inj)
  then show "observed_at sample_observed p = Directory" ..
qed

lemma sample_valid: "\<forall>p. valid_fingerprint (observed_at sample_observed p)" "\<forall>s. sha256_test (sample_sha s)"
  by (auto simp: observed_at_def sample_observed_def valid_fingerprint_def sample_sha_def sha256_test_def
      safe_integer_defs is_hex_lower_def is_digit_def code_unit_def list_all_iff split: option.splits)

lemma sample_plan:
  "\<exists>ops. normalizeManagedMutationPlan sample_effects sample_observed sample_sha = Inr (Ready ops) \<and>
     map dr_path ops = [''.claude'', ''.claude/rules'', ''.claude/rules/a.md'', ''.brain/old.json'']"
proof -
  have "case normalizeManagedMutationPlan sample_effects sample_observed sample_sha of
      Inr (Ready ops) \<Rightarrow> map dr_path ops = [''.claude'', ''.claude/rules'', ''.claude/rules/a.md'', ''.brain/old.json'']
    | _ \<Rightarrow> False"
    by code_simp
  then show ?thesis by (auto split: sum.splits normalized.splits)
qed

theorem normalized_plan_accepted_witness:
  "\<exists>ops. normalizeManagedMutationPlan sample_effects sample_observed sample_sha = Inr (Ready ops) \<and>
     freezeManagedPlan sample_sha ops = Inr ops \<and> length ops = 4"
proof -
  obtain ops where ops: "normalizeManagedMutationPlan sample_effects sample_observed sample_sha = Inr (Ready ops)"
    "map dr_path ops = [''.claude'', ''.claude/rules'', ''.claude/rules/a.md'', ''.brain/old.json'']"
    using sample_plan by (elim exE conjE)
  have "isSafeInteger (utf8_length ''text'')" by code_simp
  then have "\<forall>p c x. Write_file p c x \<in> set sample_effects \<longrightarrow> isSafeInteger (utf8_length c)"
    by (simp add: sample_effects_def)
  from normalized_plan_accepted [OF ops(1) sample_observed_consistent sample_valid this] ops
    arg_cong [OF ops(2), of length]
  show ?thesis by auto
qed

text \<open>
  C40: Applied one after the other to the observed files, the operations of a plan find
  every parent directory in place and leave each written file with the requested
  content, each deleted file missing and each requested directory present; paths that no
  effect names or lies below keep what was observed.
\<close>

theorem normalized_plan_achieves:
  assumes "normalizeManagedMutationPlan effects observations sha256 = Inr (Ready ops)"
    "tree_consistent (observed_at observations)"
  shows "plan_ready (observed_at observations) ops \<and>
    (\<forall>e \<in> set effects. mutating e \<longrightarrow> apply_drafts (observed_at observations) ops (managed_path e) = desired sha256 e) \<and>
    (\<forall>p. (\<forall>e \<in> set effects. mutating e \<longrightarrow> p \<notin> set (managedPathPrefixes (managed_path e))) \<longrightarrow>
       apply_drafts (observed_at observations) ops p = observed_at observations p)"
proof -
  obtain ms st ds where ms: "selectManagedEffects effects = Inr ms"
    and ops: "ops = finalize_all 0 ds" and J: "planned sha256 (observed_at observations) ms ms st ds"
    using normalized_planned [OF assms] by metis
  have set_ms: "set ms = set effects \<inter> {e. mutating e}" using selectManagedEffects_mutating [OF ms] by blast
  have ready: "plan_ready (observed_at observations) ops"
    using planned_consistent [OF J assms(2)] by (simp add: consistent_plan_def ops)
  have reached: "\<forall>e \<in> set effects. mutating e \<longrightarrow> apply_drafts (observed_at observations) ops (managed_path e) = desired sha256 e"
    using J set_ms by (auto simp: planned_def ops apply_finalize_all)
  have "\<forall>p. (\<forall>e \<in> set effects. mutating e \<longrightarrow> p \<notin> set (managedPathPrefixes (managed_path e))) \<longrightarrow>
       apply_drafts (observed_at observations) ops p = observed_at observations p"
  proof (intro allI impI)
    fix p
    assume p: "\<forall>e \<in> set effects. mutating e \<longrightarrow> p \<notin> set (managedPathPrefixes (managed_path e))"
    have "p \<notin> dr_path ` set ds"
      using J covered_prefix [of ms _ p] p set_ms by (fastforce simp: planned_def)
    then show "apply_drafts (observed_at observations) ops p = observed_at observations p"
      by (simp add: ops apply_finalize_all apply_drafts_other)
  qed
  with ready reached show ?thesis by blast
qed

theorem normalized_plan_achieves_witness:
  "\<exists>ops. normalizeManagedMutationPlan sample_effects sample_observed sample_sha = Inr (Ready ops) \<and>
     apply_drafts (observed_at sample_observed) ops ''.brain/old.json'' = Missing"
proof -
  obtain ops where ops: "normalizeManagedMutationPlan sample_effects sample_observed sample_sha = Inr (Ready ops)"
    using sample_plan by (elim exE conjE)
  let ?e = "Delete_file ''.brain/old.json'' None"
  have "?e \<in> set sample_effects" "mutating ?e" by (simp add: sample_effects_def, code_simp)
  with normalized_plan_achieves [OF ops sample_observed_consistent] ops show ?thesis by fastforce
qed

end
