(* ===== verification/Transaction_Recovery.thy ===== *)
theory Transaction_Recovery
  imports Transaction_Plan
begin

text \<open>
  The recovery decision of \<open>domain/transactions/recovery.ts\<close> over the persisted manifest
  and progress of a transaction and the observed files, and the phase transitions of
  \<open>domain/transactions/transition.ts\<close>.
\<close>

section \<open>Persisted documents\<close>

datatype persisted_kind = Persisted_create | Persisted_write | Persisted_delete

record persisted_operation =
  po_operationId :: string
  po_kind :: persisted_kind
  po_path :: string
  po_expected :: path_fingerprint
  po_result :: path_fingerprint
  po_stagedPath :: "string option"

record transaction_manifest =
  mf_transactionId :: string
  mf_planDigest :: string
  mf_createdAt :: string
  mf_operations :: "persisted_operation list"

datatype transaction_phase = Begun | Prepared | Publishing | Committed | Aborted

datatype directory_sync = Not_attempted | Supported | Unsupported

record transaction_progress =
  pg_transactionId :: string
  pg_manifestDigest :: "string option"
  pg_recoveryToken :: string
  pg_phase :: transaction_phase
  pg_published :: "string list"
  pg_directorySync :: directory_sync
  pg_createdAt :: string
  pg_updatedAt :: string

record transaction_observation =
  ob_destinations :: "(string \<times> path_fingerprint) list"
  ob_stagedPayloads :: "(string \<times> path_fingerprint) list"

datatype terminal = Terminal_committed | Terminal_aborted

datatype recovery_decision =
    Abort
  | Record_published string
  | Publish string
  | Commit
  | Cleanup terminal
  | Complete terminal
  | Recovery_blocked "string option"

definition toPersistedManagedOperation :: "managed_operation \<Rightarrow> persisted_operation" where
  "toPersistedManagedOperation operation =
     \<lparr> po_operationId = mo_operationId operation,
       po_kind = (case dr_kind operation of
          Create_op \<Rightarrow> Persisted_create | Write_op _ \<Rightarrow> Persisted_write | Delete_op \<Rightarrow> Persisted_delete),
       po_path = dr_path operation, po_expected = dr_expected operation, po_result = dr_result operation,
       po_stagedPath = mo_stagedPath operation \<rparr>"

definition legalTransitions :: "(transaction_phase \<times> transaction_phase) list" where
  "legalTransitions = [(Begun, Prepared), (Begun, Aborted), (Prepared, Publishing), (Prepared, Aborted),
     (Publishing, Committed)]"

definition assertPhaseTransition :: "transaction_phase \<Rightarrow> transaction_phase \<Rightarrow> bool" where
  "assertPhaseTransition from to \<longleftrightarrow> (from, to) \<in> set legalTransitions"

section \<open>The decision\<close>

definition payload_at :: "transaction_observation \<Rightarrow> string \<Rightarrow> path_fingerprint" where
  "payload_at observation staged =
     (case map_of (ob_stagedPayloads observation) staged of None \<Rightarrow> Missing | Some f \<Rightarrow> f)"

definition hasValidIdentity :: "transaction_manifest \<Rightarrow> transaction_progress \<Rightarrow> bool" where
  "hasValidIdentity manifest progress =
     (if mf_transactionId manifest \<noteq> pg_transactionId progress \<or> mf_createdAt manifest \<noteq> pg_createdAt progress
      then False
      else (case pg_phase progress of
          Begun \<Rightarrow> True
        | Aborted \<Rightarrow> pg_manifestDigest progress = None \<or> Some (pg_recoveryToken progress) = pg_manifestDigest progress
        | _ \<Rightarrow> Some (pg_recoveryToken progress) = pg_manifestDigest progress))"

text \<open>The first operation that repeats an id or a path (\<open>Some None\<close>) or changes nothing.\<close>

fun manifest_failure ::
  "string list \<Rightarrow> string list \<Rightarrow> string list \<Rightarrow> persisted_operation list \<Rightarrow> string option option" where
  "manifest_failure ids paths staged [] = None"
| "manifest_failure ids paths staged (operation # operations) =
     (if po_operationId operation \<in> set ids \<or> po_path operation \<in> set paths \<or>
         (case po_stagedPath operation of None \<Rightarrow> False | Some s \<Rightarrow> s \<in> set staged)
      then Some None
      else if sameFingerprint (po_expected operation) (po_result operation)
      then Some (Some (po_operationId operation))
      else manifest_failure (po_operationId operation # ids) (po_path operation # paths)
        (case po_stagedPath operation of None \<Rightarrow> staged | Some s \<Rightarrow> s # staged) operations)"

definition findManifestFailure :: "transaction_manifest \<Rightarrow> string option option" where
  "findManifestFailure manifest = manifest_failure [] [] [] (mf_operations manifest)"

definition staged_paths :: "persisted_operation list \<Rightarrow> string list" where
  "staged_paths operations =
     concat (map (\<lambda>operation. case po_stagedPath operation of None \<Rightarrow> [] | Some s \<Rightarrow> [s]) operations)"

definition hasUnexpectedStagedContent :: "transaction_manifest \<Rightarrow> transaction_observation \<Rightarrow> bool" where
  "hasUnexpectedStagedContent manifest observation =
     list_ex (\<lambda>(path, fingerprint). path \<notin> set (staged_paths (mf_operations manifest)) \<and> fingerprint \<noteq> Missing)
       (ob_stagedPayloads observation)"

definition hasValidPublishedPrefix :: "transaction_progress \<Rightarrow> string list \<Rightarrow> bool" where
  "hasValidPublishedPrefix progress operationIds =
     (let published = pg_published progress
      in if \<not> distinct published then False
         else if published \<noteq> take (length published) operationIds then False
         else (case pg_phase progress of
             Publishing \<Rightarrow> length published \<le> length operationIds
           | Committed \<Rightarrow> length published = length operationIds
           | _ \<Rightarrow> published = []))"

text \<open>The first operation whose observed destination is not the one demanded.\<close>

definition find_destination ::
  "(persisted_operation \<Rightarrow> path_fingerprint) \<Rightarrow> transaction_manifest \<Rightarrow> transaction_observation \<Rightarrow> string option" where
  "find_destination demanded manifest observation =
     map_option po_operationId
       (List.find (\<lambda>operation.
           case map_of (ob_destinations observation) (po_path operation) of
             None \<Rightarrow> True
           | Some destination \<Rightarrow> \<not> sameFingerprint destination (demanded operation))
         (mf_operations manifest))"

definition findUnexpectedPrepublicationDestination ::
  "transaction_manifest \<Rightarrow> transaction_observation \<Rightarrow> string option" where
  "findUnexpectedPrepublicationDestination = find_destination po_expected"

definition findNonResultDestination :: "transaction_manifest \<Rightarrow> transaction_observation \<Rightarrow> string option" where
  "findNonResultDestination = find_destination po_result"

definition findUnpublishablePayload :: "transaction_manifest \<Rightarrow> transaction_observation \<Rightarrow> string option" where
  "findUnpublishablePayload manifest observation =
     map_option po_operationId
       (List.find (\<lambda>operation.
           case po_stagedPath operation of
             None \<Rightarrow> False
           | Some s \<Rightarrow> (case map_of (ob_stagedPayloads observation) s of
               None \<Rightarrow> True | Some payload \<Rightarrow> \<not> sameFingerprint payload (po_result operation)))
         (mf_operations manifest))"

definition findPublishingPayloadFailure ::
  "transaction_manifest \<Rightarrow> transaction_observation \<Rightarrow> nat \<Rightarrow> string option" where
  "findPublishingPayloadFailure manifest observation observedResultCount =
     map_option (\<lambda>(index, operation). po_operationId operation)
       (List.find (\<lambda>(index, operation).
           case po_stagedPath operation of
             None \<Rightarrow> False
           | Some s \<Rightarrow>
               (if index < observedResultCount then payload_at observation s \<noteq> Missing
                else \<not> sameFingerprint (payload_at observation s) (po_result operation)))
         (enumerate 0 (mf_operations manifest)))"

text \<open>The blocked operation, or whether some payload is present.\<close>

fun inspect_payloads ::
  "transaction_observation \<Rightarrow> bool \<Rightarrow> persisted_operation list \<Rightarrow> string option \<times> bool" where
  "inspect_payloads observation hasPayload [] = (None, hasPayload)"
| "inspect_payloads observation hasPayload (operation # operations) =
     (case po_stagedPath operation of
        None \<Rightarrow> inspect_payloads observation hasPayload operations
      | Some s \<Rightarrow>
          if payload_at observation s = Missing then inspect_payloads observation hasPayload operations
          else if \<not> sameFingerprint (payload_at observation s) (po_result operation)
          then (Some (po_operationId operation), False)
          else inspect_payloads observation True operations)"

definition inspectPayloads :: "transaction_manifest \<Rightarrow> transaction_observation \<Rightarrow> string option \<times> bool" where
  "inspectPayloads manifest observation = inspect_payloads observation False (mf_operations manifest)"

text \<open>The scan over the destinations: blocked at an operation, or the number of results.\<close>

fun scan_destinations ::
  "transaction_observation \<Rightarrow> nat \<Rightarrow> bool \<Rightarrow> persisted_operation list \<Rightarrow> (string, nat) result" where
  "scan_destinations observation count foundPrecondition [] = Inr count"
| "scan_destinations observation count foundPrecondition (operation # operations) =
     (case map_of (ob_destinations observation) (po_path operation) of
        None \<Rightarrow> Inl (po_operationId operation)
      | Some destination \<Rightarrow>
          if sameFingerprint destination (po_result operation) then
            (if foundPrecondition then Inl (po_operationId operation)
             else scan_destinations observation (count + 1) foundPrecondition operations)
          else if sameFingerprint destination (po_expected operation)
          then scan_destinations observation count True operations
          else Inl (po_operationId operation))"

definition decidePublishing ::
  "transaction_manifest \<Rightarrow> transaction_progress \<Rightarrow> transaction_observation \<Rightarrow> recovery_decision" where
  "decidePublishing manifest progress observation =
     (case scan_destinations observation 0 False (mf_operations manifest) of
        Inl operationId \<Rightarrow> Recovery_blocked (Some operationId)
      | Inr observedResultCount \<Rightarrow>
          (case drop observedResultCount (pg_published progress) of
             operationId # _ \<Rightarrow> Recovery_blocked (Some operationId)
           | [] \<Rightarrow>
               (case findPublishingPayloadFailure manifest observation observedResultCount of
                  Some operationId \<Rightarrow> Recovery_blocked (Some operationId)
                | None \<Rightarrow>
                    (case drop (length (pg_published progress)) (take observedResultCount (mf_operations manifest)) of
                       operation # _ \<Rightarrow> Record_published (po_operationId operation)
                     | [] \<Rightarrow>
                         if observedResultCount < length (mf_operations manifest)
                         then Publish (po_operationId (mf_operations manifest ! observedResultCount))
                         else Commit))))"

definition decide_terminal ::
  "terminal \<Rightarrow> transaction_manifest \<Rightarrow> transaction_observation \<Rightarrow> recovery_decision" where
  "decide_terminal t manifest observation =
     (case inspectPayloads manifest observation of
        (Some operationId, _) \<Rightarrow> Recovery_blocked (Some operationId)
      | (None, hasPayload) \<Rightarrow> if hasPayload then Cleanup t else Complete t)"

definition decide_unpublished ::
  "transaction_manifest \<Rightarrow> transaction_progress \<Rightarrow> transaction_observation \<Rightarrow> recovery_decision" where
  "decide_unpublished manifest progress observation =
     (case findUnexpectedPrepublicationDestination manifest observation of
        Some operationId \<Rightarrow> Recovery_blocked (Some operationId)
      | None \<Rightarrow>
          (case (if pg_phase progress = Begun then fst (inspectPayloads manifest observation)
                 else findUnpublishablePayload manifest observation) of
             Some operationId \<Rightarrow> Recovery_blocked (Some operationId)
           | None \<Rightarrow> Abort))"

definition decideRecovery ::
  "transaction_manifest \<Rightarrow> transaction_progress \<Rightarrow> transaction_observation \<Rightarrow> recovery_decision" where
  "decideRecovery manifest progress observation =
     (if \<not> hasValidIdentity manifest progress then Recovery_blocked None
      else (case findManifestFailure manifest of
          Some blocked \<Rightarrow> Recovery_blocked blocked
        | None \<Rightarrow>
            if \<not> hasValidPublishedPrefix progress (map po_operationId (mf_operations manifest))
            then Recovery_blocked None
            else if hasUnexpectedStagedContent manifest observation then Recovery_blocked None
            else (case pg_phase progress of
                Aborted \<Rightarrow> decide_terminal Terminal_aborted manifest observation
              | Begun \<Rightarrow> decide_unpublished manifest progress observation
              | Prepared \<Rightarrow> decide_unpublished manifest progress observation
              | Committed \<Rightarrow>
                  (case findNonResultDestination manifest observation of
                     Some operationId \<Rightarrow> Recovery_blocked (Some operationId)
                   | None \<Rightarrow> decide_terminal Terminal_committed manifest observation)
              | Publishing \<Rightarrow> decidePublishing manifest progress observation)))"

section \<open>What a decision has established\<close>

definition dest_is :: "transaction_observation \<Rightarrow> persisted_operation \<Rightarrow> path_fingerprint \<Rightarrow> bool" where
  "dest_is observation operation f \<longleftrightarrow> map_of (ob_destinations observation) (po_path operation) = Some f"

lemma find_destination_None:
  "find_destination demanded manifest observation = None \<longleftrightarrow>
     (\<forall>operation \<in> set (mf_operations manifest). dest_is observation operation (demanded operation))"
  by (auto simp: find_destination_def find_None_iff dest_is_def split: option.splits)

lemma find_destination_Some:
  "find_destination demanded manifest observation = Some i \<Longrightarrow>
     \<exists>operation \<in> set (mf_operations manifest). po_operationId operation = i \<and>
       \<not> dest_is observation operation (demanded operation)"
  by (fastforce simp: find_destination_def find_Some_iff dest_is_def split: option.splits)

text \<open>The destinations split into results already in place and expectations still standing.\<close>

definition split_at :: "transaction_observation \<Rightarrow> nat \<Rightarrow> persisted_operation list \<Rightarrow> bool" where
  "split_at observation k operations \<longleftrightarrow> k \<le> length operations \<and>
     (\<forall>i < k. dest_is observation (operations ! i) (po_result (operations ! i))) \<and>
     (\<forall>i < length operations. k \<le> i \<longrightarrow> dest_is observation (operations ! i) (po_expected (operations ! i)))"

lemma split_at_0: "split_at observation 0 operations \<longleftrightarrow>
    (\<forall>operation \<in> set operations. dest_is observation operation (po_expected operation))"
  by (auto simp: split_at_def all_set_conv_all_nth)

lemma split_at_Suc: "split_at observation (Suc k) (operation # operations) \<longleftrightarrow>
    dest_is observation operation (po_result operation) \<and> split_at observation k operations"
  unfolding split_at_def by (auto simp: nth_Cons less_Suc_eq_0_disj split: nat.splits)

lemma scan_found:
  "scan_destinations observation c True operations = Inr n \<longleftrightarrow>
     n = c \<and> (\<forall>operation \<in> set operations. dest_is observation operation (po_expected operation) \<and>
       po_expected operation \<noteq> po_result operation)"
  by (induction operations) (auto simp: dest_is_def split: option.splits)

lemma scan_destinations_Inr:
  assumes "\<forall>operation \<in> set operations. po_expected operation \<noteq> po_result operation"
  shows "scan_destinations observation c False operations = Inr n \<longleftrightarrow>
     (\<exists>k. n = c + k \<and> split_at observation k operations)"
  using assms
proof (induction operations arbitrary: c)
  case Nil
  then show ?case by (auto simp: split_at_def)
next
  case (Cons operation operations)
  let ?scan = "scan_destinations observation c False (operation # operations)"
  show ?case
  proof (cases "dest_is observation operation (po_result operation)")
    case True
    then have "?scan = scan_destinations observation (c + 1) False operations"
      by (simp add: dest_is_def)
    moreover have "\<not> split_at observation 0 (operation # operations)"
      using True Cons.prems by (auto simp: split_at_0 dest_is_def)
    moreover have "(\<exists>k. n = c + k \<and> split_at observation k (operation # operations)) \<longleftrightarrow>
        (\<exists>k. n = c + 1 + k \<and> split_at observation k operations)"
      using True calculation(2) by (auto simp: split_at_Suc gr0_conv_Suc intro: exI [of _ "Suc _"])
         (metis add_Suc_right not0_implies_Suc split_at_Suc)
    ultimately show ?thesis using Cons by simp
  next
    case False
    have "?scan = Inr n \<longleftrightarrow> n = c \<and> split_at observation 0 (operation # operations)"
      using False Cons.prems
      by (auto simp: dest_is_def split_at_0 scan_found split: option.splits)
    moreover have "split_at observation k (operation # operations) \<Longrightarrow> k = 0" for k
      using False by (cases k) (auto simp: split_at_Suc)
    ultimately show ?thesis by auto
  qed
qed

lemma manifest_failure_None:
  "manifest_failure ids paths staged operations = None \<longleftrightarrow>
     distinct (map po_operationId operations) \<and> set (map po_operationId operations) \<inter> set ids = {} \<and>
     distinct (map po_path operations) \<and> set (map po_path operations) \<inter> set paths = {} \<and>
     distinct (staged_paths operations) \<and> set (staged_paths operations) \<inter> set staged = {} \<and>
     (\<forall>operation \<in> set operations. po_expected operation \<noteq> po_result operation)"
  by (induction ids paths staged operations rule: manifest_failure.induct)
     (auto simp: staged_paths_def split: option.splits)

lemma findManifestFailure_None:
  "findManifestFailure m = None \<longleftrightarrow>
     distinct (map po_operationId (mf_operations m)) \<and> distinct (map po_path (mf_operations m)) \<and>
     distinct (staged_paths (mf_operations m)) \<and>
     (\<forall>operation \<in> set (mf_operations m). po_expected operation \<noteq> po_result operation)"
  by (simp add: findManifestFailure_def manifest_failure_None)

text \<open>The payloads not yet published are in place, those of published operations are gone.\<close>

definition payloads_at :: "transaction_observation \<Rightarrow> nat \<Rightarrow> persisted_operation list \<Rightarrow> bool" where
  "payloads_at observation k operations \<longleftrightarrow>
     (\<forall>i < length operations. \<forall>s. po_stagedPath (operations ! i) = Some s \<longrightarrow>
        payload_at observation s = (if i < k then Missing else po_result (operations ! i)))"

lemma findPublishingPayloadFailure_None:
  "findPublishingPayloadFailure manifest observation k = None \<longleftrightarrow> payloads_at observation k (mf_operations manifest)"
  unfolding findPublishingPayloadFailure_def payloads_at_def
  by (auto simp: find_None_iff in_set_enumerate_eq split: option.splits if_splits)

lemma inspect_payloads_cases:
  "inspect_payloads observation b operations = (r, h) \<Longrightarrow>
     (r = None \<longleftrightarrow> (\<forall>operation \<in> set operations. \<forall>s. po_stagedPath operation = Some s \<longrightarrow>
        payload_at observation s \<in> {Missing, po_result operation})) \<and>
     (r = None \<longrightarrow> h = (b \<or> (\<exists>operation \<in> set operations. \<exists>s. po_stagedPath operation = Some s \<and>
        payload_at observation s \<noteq> Missing)))"
  by (induction observation b operations rule: inspect_payloads.induct) (auto split: option.splits if_splits)

definition valid_transaction :: "transaction_manifest \<Rightarrow> transaction_progress \<Rightarrow> bool" where
  "valid_transaction manifest progress \<longleftrightarrow>
     hasValidIdentity manifest progress \<and> findManifestFailure manifest = None \<and>
     hasValidPublishedPrefix progress (map po_operationId (mf_operations manifest))"

lemma decideRecovery_valid:
  assumes "valid_transaction manifest progress" "\<not> hasUnexpectedStagedContent manifest observation"
  shows "decideRecovery manifest progress observation =
     (case pg_phase progress of
        Aborted \<Rightarrow> decide_terminal Terminal_aborted manifest observation
      | Begun \<Rightarrow> decide_unpublished manifest progress observation
      | Prepared \<Rightarrow> decide_unpublished manifest progress observation
      | Committed \<Rightarrow>
          (case findNonResultDestination manifest observation of
             Some operationId \<Rightarrow> Recovery_blocked (Some operationId)
           | None \<Rightarrow> decide_terminal Terminal_committed manifest observation)
      | Publishing \<Rightarrow> decidePublishing manifest progress observation)"
  using assms by (simp add: decideRecovery_def valid_transaction_def)

lemma decideRecovery_not_blocked:
  assumes "decideRecovery manifest progress observation = d" "\<forall>i. d \<noteq> Recovery_blocked i"
  shows "valid_transaction manifest progress \<and> \<not> hasUnexpectedStagedContent manifest observation"
  using assms by (auto simp: decideRecovery_def valid_transaction_def split: if_splits option.splits)

lemma published_prefix:
  assumes "valid_transaction manifest progress"
  shows "pg_published progress = map po_operationId (take (length (pg_published progress)) (mf_operations manifest))"
    "length (pg_published progress) \<le> length (mf_operations manifest)"
proof -
  from assms have p: "pg_published progress =
      take (length (pg_published progress)) (map po_operationId (mf_operations manifest))"
    by (auto simp: valid_transaction_def hasValidPublishedPrefix_def Let_def split: if_splits)
  then show "pg_published progress = map po_operationId (take (length (pg_published progress)) (mf_operations manifest))"
    by (simp add: take_map)
  from arg_cong [OF p, of length] show "length (pg_published progress) \<le> length (mf_operations manifest)" by simp
qed

text \<open>What holds of the files when a decision is taken.\<close>

fun justified ::
  "transaction_manifest \<Rightarrow> transaction_progress \<Rightarrow> transaction_observation \<Rightarrow> recovery_decision \<Rightarrow> bool" where
  "justified m p obs Abort \<longleftrightarrow>
     assertPhaseTransition (pg_phase p) Aborted \<and> split_at obs 0 (mf_operations m)"
| "justified m p obs (Record_published i) \<longleftrightarrow> pg_phase p = Publishing \<and>
     (\<exists>k. length (pg_published p) < k \<and> split_at obs k (mf_operations m) \<and> payloads_at obs k (mf_operations m) \<and>
        po_operationId (mf_operations m ! length (pg_published p)) = i)"
| "justified m p obs (Publish i) \<longleftrightarrow> pg_phase p = Publishing \<and>
     (let k = length (pg_published p) in k < length (mf_operations m) \<and> split_at obs k (mf_operations m) \<and>
        payloads_at obs k (mf_operations m) \<and> po_operationId (mf_operations m ! k) = i)"
| "justified m p obs Commit \<longleftrightarrow>
     assertPhaseTransition (pg_phase p) Committed \<and> split_at obs (length (mf_operations m)) (mf_operations m) \<and>
     pg_published p = map po_operationId (mf_operations m)"
| "justified m p obs (Cleanup Terminal_committed) \<longleftrightarrow>
     pg_phase p = Committed \<and> split_at obs (length (mf_operations m)) (mf_operations m)"
| "justified m p obs (Cleanup Terminal_aborted) \<longleftrightarrow> pg_phase p = Aborted"
| "justified m p obs (Complete Terminal_committed) \<longleftrightarrow>
     pg_phase p = Committed \<and> split_at obs (length (mf_operations m)) (mf_operations m)"
| "justified m p obs (Complete Terminal_aborted) \<longleftrightarrow> pg_phase p = Aborted"
| "justified m p obs (Recovery_blocked i) \<longleftrightarrow> True"

lemma split_at_all: "split_at observation (length operations) operations \<longleftrightarrow>
    (\<forall>operation \<in> set operations. dest_is observation operation (po_result operation))"
  by (auto simp: split_at_def all_set_conv_all_nth)

lemma decidePublishing_split:
  assumes v: "valid_transaction m p"
    and k: "split_at obs k (mf_operations m)" "payloads_at obs k (mf_operations m)" "length (pg_published p) \<le> k"
  shows "decidePublishing m p obs =
     (if length (pg_published p) < k then Record_published (po_operationId (mf_operations m ! length (pg_published p)))
      else if k < length (mf_operations m) then Publish (po_operationId (mf_operations m ! k)) else Commit)"
proof -
  have ne: "\<forall>operation \<in> set (mf_operations m). po_expected operation \<noteq> po_result operation"
    using v by (simp add: valid_transaction_def findManifestFailure_None)
  have "scan_destinations obs 0 False (mf_operations m) = Inr k"
    using scan_destinations_Inr [OF ne] k(1) by simp
  moreover have "k \<le> length (mf_operations m)" using k(1) by (simp add: split_at_def)
  moreover have "drop (length (pg_published p)) (take k (mf_operations m)) =
      mf_operations m ! length (pg_published p) # drop (Suc (length (pg_published p))) (take k (mf_operations m))"
    if "length (pg_published p) < k"
    using that \<open>k \<le> length (mf_operations m)\<close> by (subst Cons_nth_drop_Suc [symmetric]) simp_all
  ultimately show ?thesis
    using k findPublishingPayloadFailure_None [of m obs k] by (auto simp: decidePublishing_def)
qed

lemma decidePublishing_cases:
  assumes v: "valid_transaction m p" and d: "decidePublishing m p obs = d" "\<forall>i. d \<noteq> Recovery_blocked i"
  obtains k where "split_at obs k (mf_operations m)" "payloads_at obs k (mf_operations m)" "length (pg_published p) \<le> k"
proof -
  have ne: "\<forall>operation \<in> set (mf_operations m). po_expected operation \<noteq> po_result operation"
    using v by (simp add: valid_transaction_def findManifestFailure_None)
  from d obtain k where "scan_destinations obs 0 False (mf_operations m) = Inr k" "drop k (pg_published p) = []"
    "findPublishingPayloadFailure m obs k = None"
    by (auto simp: decidePublishing_def split: sum.splits list.splits option.splits)
  with that scan_destinations_Inr [OF ne] show thesis
    by (auto simp: findPublishingPayloadFailure_None)
qed

lemma decideRecovery_justified:
  assumes d: "decideRecovery m p obs = d"
  shows "justified m p obs d"
proof (cases "\<exists>i. d = Recovery_blocked i")
  case False
  then have free: "\<forall>i. d \<noteq> Recovery_blocked i" by blast
  from decideRecovery_not_blocked [OF d free] have v: "valid_transaction m p"
    and eq: "decideRecovery m p obs =
     (case pg_phase p of
        Aborted \<Rightarrow> decide_terminal Terminal_aborted m obs
      | Begun \<Rightarrow> decide_unpublished m p obs
      | Prepared \<Rightarrow> decide_unpublished m p obs
      | Committed \<Rightarrow>
          (case findNonResultDestination m obs of
             Some operationId \<Rightarrow> Recovery_blocked (Some operationId)
           | None \<Rightarrow> decide_terminal Terminal_committed m obs)
      | Publishing \<Rightarrow> decidePublishing m p obs)"
    using decideRecovery_valid by auto
  have unpublished: "justified m p obs d" if "decide_unpublished m p obs = d" "pg_phase p = Begun \<or> pg_phase p = Prepared"
    using that free find_destination_None [of po_expected m obs]
    by (auto simp: decide_unpublished_def findUnexpectedPrepublicationDestination_def split_at_0
        assertPhaseTransition_def legalTransitions_def split: option.splits)
  show ?thesis
  proof (cases "pg_phase p")
    case Publishing
    with eq d have dp: "decidePublishing m p obs = d" by simp
    from decidePublishing_cases [OF v dp free] obtain k where
      k: "split_at obs k (mf_operations m)" "payloads_at obs k (mf_operations m)" "length (pg_published p) \<le> k"
      by blast
    from decidePublishing_split [OF v k] dp k Publishing published_prefix(1) [OF v] show ?thesis
      by (auto simp: Let_def split_at_def assertPhaseTransition_def legalTransitions_def split: if_splits)
  next
    case Committed
    with eq d free show ?thesis
      using find_destination_None [of po_result m obs]
      by (auto simp: findNonResultDestination_def decide_terminal_def split_at_all split: option.splits prod.splits if_splits)
  next
    case Aborted
    with eq d free show ?thesis
      by (auto simp: decide_terminal_def split: option.splits prod.splits if_splits)
  qed (use eq d unpublished in auto)
qed auto

text \<open>
  A recovery decision is taken only on files that justify it. Aborting means no
  destination was touched and the phase allows it; publishing an operation means that
  exactly the ones before it are in place and recorded and every later payload is
  intact; committing means every destination has its result and every id is recorded;
  cleaning up or completing a commit means the results still stand.
\<close>

theorem recovery_decision_justified:
  "justified manifest progress observation (decideRecovery manifest progress observation)"
  by (rule decideRecovery_justified) (rule refl)

end
