(* ===== verification/Canonical_Json.thy ===== *)
theory Canonical_Json
  imports Gates
begin

text \<open>
  Canonical JSON (\<open>domain/schema/canonical-json.ts\<close>) together with the parts of the
  JavaScript JSON functions it relies on: the text of strings and numbers that
  \<open>JSON.stringify\<close> gives, and \<open>JSON.parse\<close>. Numbers are the integers of the contracts;
  a literal with a fraction or an exponent is outside the model and does not parse. An
  object is the list of its own properties.
\<close>

section \<open>Values and their canonical text\<close>

datatype json =
    JNull
  | JBool bool
  | JNum int
  | JStr string
  | JArr "json list"
  | JObj "(string \<times> json) list"

definition hex_digit :: "nat \<Rightarrow> char" where
  "hex_digit n = char_of (if n < 10 then 48 + n else 87 + n)"

fun hex_text :: "nat \<Rightarrow> string" where
  "hex_text n = (if n < 16 then [hex_digit n] else hex_text (n div 16) @ [hex_digit (n mod 16)])"

declare hex_text.simps [simp del]

definition QUOTE :: char where "QUOTE = CHR 0x22"

definition BACKSLASH :: char where "BACKSLASH = CHR 0x5C"

text \<open>The short escapes of \<open>JSON.stringify\<close> with the letter that follows the backslash.\<close>

definition short_escapes :: "(char \<times> char) list" where
  "short_escapes = [(CHR 0x22, CHR 0x22), (CHR 0x5C, CHR 0x5C), (CHR 0x08, CHR ''b''),
     (CHR 0x0C, CHR ''f''), (CHR 0x0A, CHR ''n''), (CHR 0x0D, CHR ''r''), (CHR 0x09, CHR ''t'')]"

definition escape_char :: "char \<Rightarrow> string" where
  "escape_char c =
     (case map_of short_escapes c of
        Some e \<Rightarrow> [BACKSLASH, e]
      | None \<Rightarrow>
          if code_unit c < 32 then BACKSLASH # CHR ''u'' # pad_start 4 (hex_text (code_unit c)) else [c])"

definition quote :: "string \<Rightarrow> string" where
  "quote s = QUOTE # concat (map escape_char s) @ [QUOTE]"

definition codePointSortKey :: "string \<Rightarrow> string" where
  "codePointSortKey value = concat (map (\<lambda>c. pad_start 6 (hex_text (code_unit c))) value)"

definition after_nul :: "string \<Rightarrow> string" where
  "after_nul s = drop 1 (dropWhile (\<lambda>c. c \<noteq> CHR 0x00) s)"

definition unicodeCodePointKeys :: "string list \<Rightarrow> string list" where
  "unicodeCodePointKeys keys =
     map after_nul (js_sort text_compare (map (\<lambda>key. codePointSortKey key @ CHR 0x00 # key) keys))"

text \<open>An object of already encoded properties.\<close>

definition encode_members :: "(string \<times> string) list \<Rightarrow> string" where
  "encode_members members =
     CHR ''{'' # join_with (CHR '','')
       (map (\<lambda>key. quote key @ CHR '':'' # the (map_of members key)) (unicodeCodePointKeys (map fst members))) @
     [CHR ''}'']"

fun canonicalizeJson :: "json \<Rightarrow> string" where
  "canonicalizeJson JNull = ''null''"
| "canonicalizeJson (JBool b) = (if b then ''true'' else ''false'')"
| "canonicalizeJson (JNum n) = int_text n"
| "canonicalizeJson (JStr s) = quote s"
| "canonicalizeJson (JArr vs) = CHR ''['' # join_with (CHR '','') (map canonicalizeJson vs) @ [CHR '']'']"
| "canonicalizeJson (JObj ps) = encode_members (map (\<lambda>(k, v). (k, canonicalizeJson v)) ps)"

section \<open>Parsing\<close>

definition is_json_space :: "char \<Rightarrow> bool" where
  "is_json_space c \<longleftrightarrow> code_unit c \<in> {9, 10, 13, 32}"

definition skip_space :: "string \<Rightarrow> string" where
  "skip_space s = dropWhile is_json_space s"

definition hex_value :: "char \<Rightarrow> nat option" where
  "hex_value c =
     (if is_digit c then Some (code_unit c - 48)
      else if 97 \<le> code_unit c \<and> code_unit c \<le> 102 then Some (code_unit c - 87)
      else if 65 \<le> code_unit c \<and> code_unit c \<le> 70 then Some (code_unit c - 55) else None)"

text \<open>The code unit of four hexadecimal digits, when it is within the model's range.\<close>

definition hex4 :: "char \<Rightarrow> char \<Rightarrow> char \<Rightarrow> char \<Rightarrow> char option" where
  "hex4 a b c d =
     (case (hex_value a, hex_value b, hex_value c, hex_value d) of
        (Some w, Some x, Some y, Some z) \<Rightarrow>
          let n = ((w * 16 + x) * 16 + y) * 16 + z in if n < 256 then Some (char_of n) else None
      | _ \<Rightarrow> None)"

definition unescape :: "char \<Rightarrow> char option" where
  "unescape e =
     (if e = CHR ''/'' then Some e else map_of (map (\<lambda>(c, l). (l, c)) short_escapes) e)"

text \<open>The rest of a string literal after its opening quote: its value and what follows.\<close>

function unquote :: "string \<Rightarrow> (string \<times> string) option" where
  "unquote s =
     (case s of
        [] \<Rightarrow> None
      | c # cs \<Rightarrow>
          if c = QUOTE then Some ([], cs)
          else if c = BACKSLASH then
            (case cs of
               [] \<Rightarrow> None
             | e # rest \<Rightarrow>
                 if e = CHR ''u'' then
                   (case rest of
                      a # b # x # y # later \<Rightarrow>
                        (case hex4 a b x y of
                           None \<Rightarrow> None
                         | Some u \<Rightarrow> map_option (\<lambda>(v, r). (u # v, r)) (unquote later))
                    | _ \<Rightarrow> None)
                 else (case unescape e of
                     None \<Rightarrow> None
                   | Some u \<Rightarrow> map_option (\<lambda>(v, r). (u # v, r)) (unquote rest)))
          else if code_unit c < 32 then None
          else map_option (\<lambda>(v, r). (c # v, r)) (unquote cs))"
  by pat_completeness auto
termination by (relation "measure length") auto

declare unquote.simps [simp del]

fun digits_value :: "nat \<Rightarrow> string \<Rightarrow> nat" where
  "digits_value n [] = n"
| "digits_value n (c # cs) = digits_value (n * 10 + (code_unit c - 48)) cs"

definition parse_number :: "string \<Rightarrow> (json \<times> string) option" where
  "parse_number s =
     (let negative = starts_with ''-'' s;
          body = (if negative then tl s else s);
          digits = takeWhile is_digit body;
          rest = dropWhile is_digit body
      in if digits = [] \<or> (hd digits = CHR ''0'' \<and> length digits > 1) \<or>
            (rest \<noteq> [] \<and> hd rest \<in> {CHR ''.'', CHR ''e'', CHR ''E''})
         then None
         else Some (JNum (if negative then - int (digits_value 0 digits) else int (digits_value 0 digits)), rest))"

fun obj_set :: "string \<Rightarrow> json \<Rightarrow> (string \<times> json) list \<Rightarrow> (string \<times> json) list" where
  "obj_set k v [] = [(k, v)]"
| "obj_set k v ((j, w) # ps) = (if j = k then (k, v) # ps else (j, w) # obj_set k v ps)"

definition strip_prefix :: "string \<Rightarrow> string \<Rightarrow> string option" where
  "strip_prefix p s = (if starts_with p s then Some (drop (length p) s) else None)"

text \<open>
  Recursive descent with fuel: a value, the elements of an array after a value, and the
  members of an object collected so far. \<open>json_parse\<close> supplies the length of the text,
  which suffices because every call but the last consumes a character.
\<close>

fun parse_value :: "nat \<Rightarrow> string \<Rightarrow> (json \<times> string) option"
  and parse_elements :: "nat \<Rightarrow> json list \<Rightarrow> string \<Rightarrow> (json \<times> string) option"
  and parse_members :: "nat \<Rightarrow> (string \<times> json) list \<Rightarrow> string \<Rightarrow> (json \<times> string) option" where
  "parse_value 0 s = None"
| "parse_value (Suc n) s =
     (case skip_space s of
        [] \<Rightarrow> None
      | c # cs \<Rightarrow>
          if c = QUOTE then map_option (\<lambda>(v, r). (JStr v, r)) (unquote cs)
          else if c = CHR ''['' then
            (case strip_prefix '']'' (skip_space cs) of
               Some r \<Rightarrow> Some (JArr [], r)
             | None \<Rightarrow> parse_elements n [] cs)
          else if c = CHR ''{'' then
            (case strip_prefix ''}'' (skip_space cs) of
               Some r \<Rightarrow> Some (JObj [], r)
             | None \<Rightarrow> parse_members n [] cs)
          else (case strip_prefix ''null'' (c # cs) of
              Some r \<Rightarrow> Some (JNull, r)
            | None \<Rightarrow> (case strip_prefix ''true'' (c # cs) of
                Some r \<Rightarrow> Some (JBool True, r)
              | None \<Rightarrow> (case strip_prefix ''false'' (c # cs) of
                  Some r \<Rightarrow> Some (JBool False, r)
                | None \<Rightarrow> parse_number (c # cs)))))"
| "parse_elements 0 vs s = None"
| "parse_elements (Suc n) vs s =
     (case parse_value n s of
        None \<Rightarrow> None
      | Some (v, r) \<Rightarrow>
          (case strip_prefix '','' (skip_space r) of
             Some r2 \<Rightarrow> parse_elements n (vs @ [v]) r2
           | None \<Rightarrow>
               map_option (\<lambda>r2. (JArr (vs @ [v]), r2)) (strip_prefix '']'' (skip_space r))))"
| "parse_members 0 ps s = None"
| "parse_members (Suc n) ps s =
     (case skip_space s of
        [] \<Rightarrow> None
      | q # ks \<Rightarrow>
          if q \<noteq> QUOTE then None
          else (case unquote ks of
             None \<Rightarrow> None
           | Some (k, r) \<Rightarrow>
               (case strip_prefix '':'' (skip_space r) of
                  None \<Rightarrow> None
                | Some r1 \<Rightarrow>
                    (case parse_value n r1 of
                       None \<Rightarrow> None
                     | Some (v, r2) \<Rightarrow>
                         (case strip_prefix '','' (skip_space r2) of
                            Some r3 \<Rightarrow> parse_members n (obj_set k v ps) r3
                          | None \<Rightarrow>
                              map_option (\<lambda>r3. (JObj (obj_set k v ps), r3)) (strip_prefix ''}'' (skip_space r2)))))))"

definition json_parse :: "string \<Rightarrow> json option" where
  "json_parse s =
     (case parse_value (Suc (length s)) s of
        None \<Rightarrow> None
      | Some (v, r) \<Rightarrow> if skip_space r = [] then Some v else None)"

section \<open>Characters by their code unit\<close>

lemma code_unit_less [simp]: "code_unit c < 256"
  by (simp add: code_unit_def)

lemma char_of_code_unit [simp]: "char_of (code_unit c) = c"
  by (simp add: code_unit_def)

lemma code_unit_char_of [simp]: "n < 256 \<Longrightarrow> code_unit (char_of n) = n"
  by (simp add: code_unit_def)

lemma code_unit_eq_iff: "code_unit c = code_unit d \<longleftrightarrow> c = d"
  by (metis char_of_code_unit)

lemma char_eq_iff_code: "n < 256 \<Longrightarrow> c = char_of n \<longleftrightarrow> code_unit c = n"
  by (metis char_of_code_unit code_unit_char_of)

section \<open>Hexadecimal text\<close>

lemma hex_digit_code: "n < 16 \<Longrightarrow> code_unit (hex_digit n) = (if n < 10 then 48 + n else 87 + n)"
  by (simp add: hex_digit_def)

lemma hex_value_digit [simp]: "n < 16 \<Longrightarrow> hex_value (hex_digit n) = Some n"
  by (auto simp: hex_value_def hex_digit_code is_digit_def)

lemma hex_digit_less_iff: "m < 16 \<Longrightarrow> n < 16 \<Longrightarrow> code_unit (hex_digit m) < code_unit (hex_digit n) \<longleftrightarrow> m < n"
  by (auto simp: hex_digit_code)

lemma hex_text_two:
  assumes "n < 256"
  shows "replicate k (CHR ''0'') @ pad_start 2 (hex_text n) =
    replicate k (CHR ''0'') @ [hex_digit (n div 16), hex_digit (n mod 16)]"
proof (cases "n < 16")
  case True
  then have "hex_text n = [hex_digit n]" by (simp add: hex_text.simps)
  moreover have "hex_digit 0 = CHR ''0''" by code_simp
  ultimately show ?thesis using True by (simp add: pad_start_def)
next
  case False
  with assms have "n div 16 < 16" by auto
  with False have "hex_text n = [hex_digit (n div 16), hex_digit (n mod 16)]" by (simp add: hex_text.simps)
  then show ?thesis by (simp add: pad_start_def)
qed

lemma pad_hex:
  assumes "n < 256" "2 \<le> w"
  shows "pad_start w (hex_text n) = replicate (w - 2) (CHR ''0'') @ [hex_digit (n div 16), hex_digit (n mod 16)]"
proof -
  have len: "length (hex_text n) \<le> 2" "hex_text n \<noteq> []"
    using assms(1) by (auto simp: hex_text.simps)
  have "pad_start w (hex_text n) = replicate (w - 2) (CHR ''0'') @ pad_start 2 (hex_text n)"
    using len assms(2) by (simp add: pad_start_def replicate_add [symmetric])
  with hex_text_two [OF assms(1), of "w - 2"] show ?thesis by simp
qed

section \<open>The order of the keys\<close>

lemma text_compare_append: "text_compare (p @ a) (p @ b) = text_compare a b"
  by (induction p) auto

lemma hex_less_iff: "(m :: nat) < n \<longleftrightarrow> m div 16 < n div 16 \<or> m div 16 = n div 16 \<and> m mod 16 < n mod 16"
proof -
  have "m = 16 * (m div 16) + m mod 16" "n = 16 * (n div 16) + n mod 16" "m mod 16 < 16" "n mod 16 < 16" by simp_all
  then show ?thesis by linarith
qed

lemma pad_six: "pad_start 6 (hex_text (code_unit c)) =
    ''0000'' @ [hex_digit (code_unit c div 16), hex_digit (code_unit c mod 16)]"
proof -
  have "replicate (6 - 2) (CHR ''0'') = ''0000''" by (simp add: numeral_eq_Suc)
  with pad_hex [OF code_unit_less, of 6 c] show ?thesis by simp
qed

lemma key_char_compare:
  "text_compare (pad_start 6 (hex_text (code_unit c)) @ r) (pad_start 6 (hex_text (code_unit d)) @ s) =
     (if code_unit c < code_unit d then -1 else if code_unit d < code_unit c then 1 else text_compare r s)"
proof -
  have lt: "code_unit c div 16 < 16" "code_unit d div 16 < 16"
    using code_unit_less [of c] code_unit_less [of d] by (simp_all add: less_mult_imp_div_less)
  have split: "code_unit c < code_unit d \<longleftrightarrow> code_unit c div 16 < code_unit d div 16 \<or>
      code_unit c div 16 = code_unit d div 16 \<and> code_unit c mod 16 < code_unit d mod 16"
    "code_unit d < code_unit c \<longleftrightarrow> code_unit d div 16 < code_unit c div 16 \<or>
      code_unit d div 16 = code_unit c div 16 \<and> code_unit d mod 16 < code_unit c mod 16"
    using hex_less_iff by blast+
  show ?thesis
    unfolding pad_six append_assoc text_compare_append split
    using lt by (auto simp: hex_digit_less_iff)
qed

lemma sort_key_compare:
  "text_compare (codePointSortKey a @ CHR 0x00 # x) (codePointSortKey b @ CHR 0x00 # y) =
     (if a = b then text_compare x y else text_compare a b)"
proof (induction a arbitrary: b)
  case Nil
  have zero: "code_unit CHR 0x00 < code_unit CHR ''0''" by (simp add: code_unit_def)
  show ?case
  proof (cases b)
    case (Cons d ds)
    with zero show ?thesis
      unfolding Cons codePointSortKey_def by (simp add: pad_six)
  qed (simp add: codePointSortKey_def)
next
  case (Cons c cs)
  have zero: "code_unit CHR 0x00 < code_unit CHR ''0''" by (simp add: code_unit_def)
  show ?case
  proof (cases b)
    case Nil
    with zero show ?thesis
      unfolding Nil codePointSortKey_def by (simp add: pad_six)
  next
    case (Cons d ds)
    show ?thesis
    proof (cases "c = d")
      case True
      then show ?thesis unfolding Cons True
        using Cons.IH [of ds] by (simp add: codePointSortKey_def text_compare_append)
    next
      case False
      then have "code_unit c \<noteq> code_unit d" by (simp add: code_unit_eq_iff)
      with False show ?thesis unfolding Cons by (simp add: codePointSortKey_def key_char_compare)
    qed
  qed
qed

lemma sort_key_le:
  "text_compare (codePointSortKey a @ CHR 0x00 # a) (codePointSortKey b @ CHR 0x00 # b) \<le> 0 \<longleftrightarrow>
     text_compare a b \<le> 0"
  by (simp add: sort_key_compare)

lemma js_sort_map:
  assumes "\<And>a b. cmp (f a) (f b) \<le> 0 \<longleftrightarrow> cmp' a b \<le> 0"
  shows "js_sort cmp (map f xs) = map f (js_sort cmp' xs)"
proof -
  have ins: "js_insert cmp (f x) (map f ys) = map f (js_insert cmp' x ys)" for x ys
    by (induction ys) (simp_all add: assms)
  show ?thesis by (induction xs) (simp_all add: js_sort_def ins)
qed

lemma sort_key_no_nul: "CHR 0x00 \<notin> set (codePointSortKey s)"
proof -
  have "code_unit (hex_digit n) \<noteq> 0" if "n < 16" for n using that by (simp add: hex_digit_code)
  moreover have "code_unit (CHR 0x00) = 0" by (simp add: code_unit_def)
  ultimately have digit: "CHR 0x00 \<noteq> hex_digit n" if "n < 16" for n using that by metis
  show ?thesis
    by (auto simp: codePointSortKey_def pad_six digit less_mult_imp_div_less)
qed

lemma after_nul_key: "after_nul (codePointSortKey s @ CHR 0x00 # t) = t"
proof -
  have "dropWhile (\<lambda>c. c \<noteq> CHR 0x00) (codePointSortKey s @ CHR 0x00 # t) = CHR 0x00 # t"
    using sort_key_no_nul [of s] by (subst dropWhile_append2) auto
  then show ?thesis by (simp add: after_nul_def)
qed

lemma sorted_keys: "unicodeCodePointKeys keys = js_sort text_compare keys"
proof -
  have "js_sort text_compare (map (\<lambda>key. codePointSortKey key @ CHR 0x00 # key) keys) =
      map (\<lambda>key. codePointSortKey key @ CHR 0x00 # key) (js_sort text_compare keys)"
    by (rule js_sort_map) (rule sort_key_le)
  then show ?thesis by (simp add: unicodeCodePointKeys_def after_nul_key comp_def)
qed

interpretation text_order: js_comparator text_compare
  by unfold_locales (use text_compare_total text_compare_trans in auto)

section \<open>String literals\<close>

lemma special_codes:
  "code_unit QUOTE = 34" "code_unit BACKSLASH = 92" "code_unit (CHR ''u'') = 117"
  "code_unit (CHR ''/'') = 47"
  by (simp_all add: QUOTE_def BACKSLASH_def code_unit_def)

lemma unescape_short:
  "map_of short_escapes c = Some e \<Longrightarrow> unescape e = Some c \<and> e \<noteq> CHR ''u''"
  by (auto simp: short_escapes_def unescape_def split: if_splits)

lemma escape_cases:
  obtains e where "escape_char c = [BACKSLASH, e]" "unescape e = Some c" "e \<noteq> CHR ''u''"
  | "escape_char c = BACKSLASH # CHR ''u'' # ''00'' @ [hex_digit (code_unit c div 16), hex_digit (code_unit c mod 16)]"
  | "escape_char c = [c]" "c \<noteq> QUOTE" "c \<noteq> BACKSLASH" "\<not> code_unit c < 32"
proof (cases "map_of short_escapes c")
  case (Some e)
  with that(1) unescape_short [OF Some] show thesis by (simp add: escape_char_def)
next
  case None
  then have "c \<noteq> QUOTE" "c \<noteq> BACKSLASH"
    by (auto simp: short_escapes_def QUOTE_def BACKSLASH_def split: if_splits)
  moreover have "replicate (4 - 2) (CHR ''0'') = ''00''" by (simp add: numeral_eq_Suc)
  moreover from this have "pad_start 4 (hex_text (code_unit c)) =
      ''00'' @ [hex_digit (code_unit c div 16), hex_digit (code_unit c mod 16)]"
    using pad_hex [OF code_unit_less, of 4 c] by simp
  ultimately show thesis
    using that(2,3) None by (cases "code_unit c < 32") (simp_all add: escape_char_def)
qed

lemma hex4_low:
  "hex4 (CHR ''0'') (CHR ''0'') (hex_digit (code_unit c div 16)) (hex_digit (code_unit c mod 16)) = Some c"
proof -
  have "code_unit c div 16 < 16" using code_unit_less [of c] by (simp add: less_mult_imp_div_less)
  moreover have "hex_value (CHR ''0'') = Some 0" by (simp add: hex_value_def is_digit_def code_unit_def)
  ultimately show ?thesis using code_unit_less [of c] by (simp add: hex4_def Let_def)
qed

lemma unquote_escape:
  "unquote (escape_char c @ r) = map_option (\<lambda>(v, x). (c # v, x)) (unquote r)"
proof (rule escape_cases [of c])
  fix e assume e: "escape_char c = [BACKSLASH, e]" "unescape e = Some c" "e \<noteq> CHR ''u''"
  have "BACKSLASH \<noteq> QUOTE" by (simp add: BACKSLASH_def QUOTE_def)
  with e show ?thesis
    by (subst unquote.simps) (auto split: list.splits)
next
  assume e: "escape_char c = BACKSLASH # CHR ''u'' # ''00'' @ [hex_digit (code_unit c div 16), hex_digit (code_unit c mod 16)]"
  have "BACKSLASH \<noteq> QUOTE" by (simp add: BACKSLASH_def QUOTE_def)
  with e hex4_low [of c] show ?thesis by (subst unquote.simps) simp
qed (subst unquote.simps, simp)

lemma unquote_quote: "unquote (concat (map escape_char s) @ QUOTE # r) = Some (s, r)"
proof (induction s)
  case Nil
  then show ?case by (subst unquote.simps) simp
next
  case (Cons c s)
  then show ?case by (simp add: unquote_escape)
qed

section \<open>Numbers\<close>

lemma digit_code: "d < 10 \<Longrightarrow> code_unit (digit_char d) = 48 + d"
  by (simp add: digit_char_def)

lemma is_digit_digit_char: "d < 10 \<Longrightarrow> is_digit (digit_char d)"
  by (simp add: is_digit_def digit_code)

lemma nat_text_digits: "\<forall>c \<in> set (nat_text n). is_digit c"
  by (induction n rule: nat_text.induct) (subst nat_text.simps, auto simp: is_digit_digit_char)

lemma nat_text_nonempty [simp]: "nat_text n \<noteq> []"
  by (subst nat_text.simps) simp

lemma nat_text_head: "hd (nat_text n) = CHR ''0'' \<longleftrightarrow> n = 0"
proof (induction n rule: nat_text.induct)
  case (1 n)
  have "code_unit (CHR ''0'') = 48" by (simp add: code_unit_def)
  then have zero: "digit_char d = CHR ''0'' \<longleftrightarrow> d = 0" if "d < 10" for d
    using digit_code [OF that] code_unit_eq_iff [of "digit_char d" "CHR ''0''"] by simp
  show ?case
    by (subst nat_text.simps) (use 1 zero in auto)
qed

lemma nat_text_length: "length (nat_text n) > 1 \<Longrightarrow> n \<ge> 10"
  by (subst (asm) nat_text.simps) (auto split: if_splits)

lemma digits_value_append: "digits_value a (s @ t) = digits_value (digits_value a s) t"
  by (induction a s rule: digits_value.induct) auto

lemma digits_value_zeros: "digits_value 0 (replicate k (CHR ''0'') @ s) = digits_value 0 s"
  by (induction k) (simp_all add: code_unit_def)

lemma digits_value_nat_text: "digits_value 0 (nat_text n) = n"
proof (induction n rule: nat_text.induct)
  case (1 n)
  then show ?case by (subst nat_text.simps) (auto simp: digits_value_append digit_code)
qed

section \<open>Normal forms\<close>

text \<open>An object has each of its properties once; its normal form lists them in key order.\<close>

fun wf_json :: "json \<Rightarrow> bool" where
  "wf_json (JArr vs) = list_all wf_json vs"
| "wf_json (JObj ps) = (distinct (map fst ps) \<and> list_all (\<lambda>(k, v). wf_json v) ps)"
| "wf_json _ = True"

definition in_key_order :: "(string \<times> 'a) list \<Rightarrow> (string \<times> 'a) list" where
  "in_key_order ps = map (\<lambda>k. (k, the (map_of ps k))) (js_sort text_compare (map fst ps))"

fun normal :: "json \<Rightarrow> json" where
  "normal (JArr vs) = JArr (map normal vs)"
| "normal (JObj ps) = JObj (in_key_order (map (\<lambda>(k, v). (k, normal v)) ps))"
| "normal v = v"

lemma json_induct [case_names Null Bool Num Str Arr Obj]:
  assumes "P JNull" "\<And>b. P (JBool b)" "\<And>n. P (JNum n)" "\<And>s. P (JStr s)"
    "\<And>vs. (\<And>v. v \<in> set vs \<Longrightarrow> P v) \<Longrightarrow> P (JArr vs)"
    "\<And>ps. (\<And>k v. (k, v) \<in> set ps \<Longrightarrow> P v) \<Longrightarrow> P (JObj ps)"
  shows "P v"
proof (induction v)
  case (JObj ps)
  then show ?case by (intro assms(6)) (auto simp: snds.simps)
qed (auto intro: assms)

lemma map_of_map_snd: "map_of (map (\<lambda>(k, v). (k, f v)) ps) k = map_option f (map_of ps k)"
  by (induction ps) auto

lemma in_key_order_map:
  "in_key_order (map (\<lambda>(k, v). (k, f v)) ps) = map (\<lambda>(k, v). (k, f v)) (in_key_order ps)"
proof -
  have "map fst (map (\<lambda>(k, v). (k, f v)) ps) = map fst ps" by (induction ps) auto
  moreover have "the (map_option f (map_of ps k)) = f (the (map_of ps k))" if "k \<in> fst ` set ps" for k
    using that by (cases "map_of ps k") (auto simp: map_of_eq_None_iff)
  ultimately show ?thesis
    unfolding in_key_order_def by (simp only: map_of_map_snd map_map) (simp add: comp_def)
qed

lemma keys_in_key_order [simp]: "map fst (in_key_order ps) = js_sort text_compare (map fst ps)"
  by (simp add: in_key_order_def comp_def)

lemma text_order_distinct: "distinct (js_sort text_compare xs) \<longleftrightarrow> distinct xs"
  by (metis card_distinct distinct_card text_order.length_sort text_order.set_sort)

lemma set_in_key_order: "distinct (map fst ps) \<Longrightarrow> set (in_key_order ps) = set ps"
  by (force simp: in_key_order_def)

lemma encode_members_eq:
  "encode_members ms = CHR ''{'' #
     join_with (CHR '','') (map (\<lambda>(k, t). quote k @ CHR '':'' # t) (in_key_order ms)) @ [CHR ''}'']"
  by (simp add: encode_members_def sorted_keys in_key_order_def comp_def)

lemma canonicalize_object:
  "canonicalizeJson (JObj ps) = CHR ''{'' #
     join_with (CHR '','') (map (\<lambda>(k, v). quote k @ CHR '':'' # canonicalizeJson v) (in_key_order ps)) @ [CHR ''}'']"
proof -
  have "(\<lambda>(k, t). quote k @ CHR '':'' # t) \<circ> (\<lambda>(k, v). (k, canonicalizeJson v)) =
      (\<lambda>(k, v). quote k @ CHR '':'' # canonicalizeJson v)" by auto
  then show ?thesis by (simp add: encode_members_eq in_key_order_map)
qed

section \<open>Parsing canonical text\<close>

definition follows :: "string \<Rightarrow> bool" where
  "follows r \<longleftrightarrow> r = [] \<or> hd r \<in> {CHR '','', CHR '']'', CHR ''}'', CHR 0x0A}"

lemma skip_space_Cons [simp]: "\<not> is_json_space c \<Longrightarrow> skip_space (c # cs) = c # cs"
  by (simp add: skip_space_def)

lemma skip_space_Nil [simp]: "skip_space [] = []"
  by (simp add: skip_space_def)

lemma strip_prefix_char [simp]: "strip_prefix [c] (d # cs) = (if c = d then Some cs else None)"
  by (simp add: strip_prefix_def)

lemma int_text_split:
  "int_text n = (if n < 0 then [CHR ''-''] else []) @ nat_text (nat (abs n))"
  by (simp add: int_text_def)

lemma takeWhile_digits: "follows r \<Longrightarrow> takeWhile is_digit (nat_text n @ r) = nat_text n"
  "follows r \<Longrightarrow> dropWhile is_digit (nat_text n @ r) = r"
  using nat_text_digits [of n]
  by (cases r; auto simp: follows_def is_digit_def code_unit_def takeWhile_append2 dropWhile_append2)+

lemma nat_text_no_minus: "\<not> starts_with ''-'' (nat_text n @ r)"
proof -
  have "is_digit (hd (nat_text n))" using nat_text_digits [of n] by simp
  then have "hd (nat_text n) \<noteq> CHR ''-''" by (auto simp: is_digit_def code_unit_def)
  then show ?thesis by (cases "nat_text n") auto
qed

lemma parse_number_text:
  assumes "follows r"
  shows "parse_number (int_text n @ r) = Some (JNum n, r)"
proof -
  let ?k = "nat (abs n)"
  have neg: "starts_with ''-'' (int_text n @ r) \<longleftrightarrow> n < 0"
    using nat_text_no_minus by (simp add: int_text_split)
  have body: "(if n < 0 then tl (int_text n @ r) else int_text n @ r) = nat_text ?k @ r"
    by (simp add: int_text_split)
  have zero: "\<not> (hd (nat_text ?k) = CHR ''0'' \<and> length (nat_text ?k) > 1)"
    using nat_text_head [of ?k] nat_text_length [of ?k] by auto
  have rest: "\<not> (r \<noteq> [] \<and> hd r \<in> {CHR ''.'', CHR ''e'', CHR ''E''})"
    using assms by (auto simp: follows_def)
  show ?thesis
    unfolding parse_number_def Let_def neg body takeWhile_digits [OF assms] digits_value_nat_text
    using zero rest by auto
qed

fun need :: "json \<Rightarrow> nat" where
  "need (JArr vs) = Suc (sum_list (map (\<lambda>v. Suc (need v)) vs))"
| "need (JObj ps) = Suc (sum_list (map (\<lambda>(k, v). Suc (need v)) ps))"
| "need v = 1"

lemma sum_list_js_sort: "sum_list (map f (js_sort cmp xs)) = sum_list (map (f :: 'a \<Rightarrow> nat) xs)"
proof -
  have "sum_list (map f (js_insert cmp x ys)) = f x + sum_list (map f ys)" for x ys
    by (induction ys) auto
  then show ?thesis by (induction xs) (auto simp: js_sort_def)
qed

lemma sum_in_key_order:
  assumes "distinct (map fst ps)"
  shows "sum_list (map (\<lambda>(k, v). (f v :: nat)) (in_key_order ps)) = sum_list (map (\<lambda>(k, v). f v) ps)"
proof -
  have "sum_list (map (\<lambda>(k, v). f v) (in_key_order ps)) = sum_list (map (\<lambda>k. f (the (map_of ps k))) (map fst ps))"
    by (simp add: in_key_order_def comp_def sum_list_js_sort)
  moreover have "map (\<lambda>k. f (the (map_of ps k))) (map fst ps) = map (\<lambda>(k, v). f v) ps"
    using assms by auto
  ultimately show ?thesis by (simp only:)
qed

lemma obj_set_fresh: "k \<notin> fst ` set ps \<Longrightarrow> obj_set k v ps = ps @ [(k, v)]"
  by (induction k v ps rule: obj_set.induct) auto

text \<open>What the parser is to do on the canonical text of a value.\<close>

definition reads :: "json \<Rightarrow> bool" where
  "reads v \<longleftrightarrow> (\<forall>n r. follows r \<longrightarrow> need v \<le> n \<longrightarrow>
     parse_value n (canonicalizeJson v @ r) = Some (normal v, r))"

lemma readsD: "reads v \<Longrightarrow> follows r \<Longrightarrow> need v \<le> n \<Longrightarrow> parse_value n (canonicalizeJson v @ r) = Some (normal v, r)"
  by (simp add: reads_def)

lemma follows_simps [simp]: "follows (CHR '','' # r)" "follows (CHR '']'' # r)" "follows (CHR ''}'' # r)"
  by (simp_all add: follows_def)

lemma no_space_simps [simp]:
  "\<not> is_json_space (CHR '','')" "\<not> is_json_space (CHR '']'')" "\<not> is_json_space (CHR ''}'')"
  "\<not> is_json_space (CHR '':'')" "\<not> is_json_space (CHR ''['')" "\<not> is_json_space (CHR ''{'')" "\<not> is_json_space QUOTE"
  by (simp_all add: is_json_space_def code_unit_def QUOTE_def)

lemma parse_elements_text:
  assumes "vs \<noteq> []" "\<forall>v \<in> set vs. reads v" "sum_list (map (\<lambda>v. Suc (need v)) vs) \<le> n"
  shows "parse_elements n acc (join_with (CHR '','') (map canonicalizeJson vs) @ CHR '']'' # r) =
    Some (JArr (acc @ map normal vs), r)"
  using assms
proof (induction vs arbitrary: n acc)
  case (Cons v vs)
  then obtain m where n: "n = Suc m" and m: "need v \<le> m" by (cases n) auto
  show ?case
  proof (cases vs)
    case Nil
    with Cons.prems n m readsD [of v "CHR '']'' # r" m] show ?thesis by simp
  next
    case (Cons w ws)
    let ?rest = "join_with (CHR '','') (map canonicalizeJson vs) @ CHR '']'' # r"
    have "parse_value m (canonicalizeJson v @ CHR '','' # ?rest) = Some (normal v, CHR '','' # ?rest)"
      using Cons.prems(2) m by (intro readsD) auto
    moreover have "parse_elements m (acc @ [normal v]) ?rest = Some (JArr ((acc @ [normal v]) @ map normal vs), r)"
      using Cons Cons.prems n by (intro Cons.IH) auto
    ultimately show ?thesis using Cons n by simp
  qed
qed simp

lemma parse_members_text:
  assumes "ps \<noteq> []" "\<forall>(k, v) \<in> set ps. reads v" "sum_list (map (\<lambda>(k, v). Suc (need v)) ps) \<le> n"
    "distinct (map fst acc @ map fst ps)"
  shows "parse_members n acc
      (join_with (CHR '','') (map (\<lambda>(k, v). quote k @ CHR '':'' # canonicalizeJson v) ps) @ CHR ''}'' # r) =
    Some (JObj (acc @ map (\<lambda>(k, v). (k, normal v)) ps), r)"
  using assms
proof (induction ps arbitrary: n acc)
  case (Cons p ps)
  obtain k v where p: "p = (k, v)" by (cases p)
  from Cons.prems obtain m where n: "n = Suc m" and m: "need v \<le> m" by (cases n) (auto simp: p)
  have v: "reads v" using Cons.prems(2) p by auto
  have set: "obj_set k (normal v) acc = acc @ [(k, normal v)]"
    using Cons.prems(4) p by (intro obj_set_fresh) auto
  have head: "unquote (concat (map escape_char k) @ QUOTE # x) = Some (k, x)" for x by (rule unquote_quote)
  show ?case
  proof (cases ps)
    case Nil
    with n p set head readsD [OF v, of "CHR ''}'' # r" m] m show ?thesis by (simp add: quote_def)
  next
    case (Cons q qs)
    let ?rest = "join_with (CHR '','') (map (\<lambda>(k, v). quote k @ CHR '':'' # canonicalizeJson v) ps) @ CHR ''}'' # r"
    have "parse_value m (canonicalizeJson v @ CHR '','' # ?rest) = Some (normal v, CHR '','' # ?rest)"
      using v m by (intro readsD) auto
    moreover have "parse_members m (acc @ [(k, normal v)]) ?rest =
        Some (JObj ((acc @ [(k, normal v)]) @ map (\<lambda>(k, v). (k, normal v)) ps), r)"
      using Cons Cons.prems n p by (intro Cons.IH) auto
    ultimately show ?thesis using Cons n p set head by (simp add: quote_def)
  qed
qed simp

lemma join_with_Cons_head: "ss \<noteq> [] \<Longrightarrow> hd ss = c # s \<Longrightarrow> \<exists>r. join_with d ss = c # r"
  by (cases ss; cases "tl ss") auto

lemma first_character:
  "\<exists>c cs. canonicalizeJson v = c # cs \<and> \<not> is_json_space c \<and> c \<noteq> CHR '']'' \<and> c \<noteq> CHR ''}''"
proof (cases v)
  case (JNum n)
  have "is_digit (hd (nat_text k))" for k using nat_text_digits [of k] by simp
  then have "\<exists>c cs. nat_text k = c # cs \<and> is_digit c" for k by (metis list.exhaust_sel nat_text_nonempty)
  moreover have "is_digit c \<Longrightarrow> \<not> is_json_space c \<and> c \<noteq> CHR '']'' \<and> c \<noteq> CHR ''}''" for c
    by (auto simp: is_digit_def is_json_space_def code_unit_def)
  moreover have "\<not> is_json_space (CHR ''-'')" by (simp add: is_json_space_def code_unit_def)
  ultimately show ?thesis using JNum by (auto simp: int_text_split) (metis append_Cons)
qed (auto simp: quote_def encode_members_eq is_json_space_def code_unit_def QUOTE_def)

lemma skip_canonical [simp]: "skip_space (canonicalizeJson v @ r) = canonicalizeJson v @ r"
  using first_character [of v] by auto

lemma number_first:
  "\<exists>c cs. int_text n = c # cs \<and> c \<notin> {CHR ''['', CHR ''{'', CHR ''n'', CHR ''t'', CHR ''f'', QUOTE} \<and> \<not> is_json_space c"
proof -
  have "is_digit (hd (nat_text k))" for k using nat_text_digits [of k] by simp
  then have "\<exists>c cs. nat_text k = c # cs \<and> is_digit c" for k by (metis list.exhaust_sel nat_text_nonempty)
  moreover have "is_digit c \<or> c = CHR ''-'' \<Longrightarrow>
      c \<notin> {CHR ''['', CHR ''{'', CHR ''n'', CHR ''t'', CHR ''f'', QUOTE} \<and> \<not> is_json_space c" for c
    by (auto simp: is_digit_def is_json_space_def code_unit_def QUOTE_def)
  ultimately show ?thesis by (auto simp: int_text_split) (metis append_Cons)
qed

lemma parse_literal:
  "parse_value (Suc n) (''null'' @ r) = Some (JNull, r)"
  "parse_value (Suc n) (''true'' @ r) = Some (JBool True, r)"
  "parse_value (Suc n) (''false'' @ r) = Some (JBool False, r)"
  by (simp_all add: strip_prefix_def is_json_space_def code_unit_def QUOTE_def)

lemma object_sorted_nonempty: "in_key_order ps = [] \<longleftrightarrow> ps = []"
  by (simp add: in_key_order_def)

lemma parse_canonical: "wf_json v \<Longrightarrow> reads v"
proof (induction v rule: json_induct)
  case Null
  show ?case unfolding reads_def by (auto dest!: Suc_le_D simp: strip_prefix_def is_json_space_def code_unit_def QUOTE_def)
next
  case (Bool b)
  show ?case unfolding reads_def
  proof (intro allI impI)
    fix n r assume "need (JBool b) \<le> n"
    then obtain m where "n = Suc m" by (cases n) auto
    then show "parse_value n (canonicalizeJson (JBool b) @ r) = Some (normal (JBool b), r)"
      using parse_literal by simp
  qed
next
  case (Num k)
  show ?case unfolding reads_def
  proof (intro allI impI)
    fix n r assume r: "follows r" and "need (JNum k) \<le> n"
    then obtain m where "n = Suc m" by (cases n) auto
    moreover obtain c cs where "int_text k = c # cs"
      "c \<notin> {CHR ''['', CHR ''{'', CHR ''n'', CHR ''t'', CHR ''f'', QUOTE}" "\<not> is_json_space c"
      using number_first by blast
    ultimately show "parse_value n (canonicalizeJson (JNum k) @ r) = Some (normal (JNum k), r)"
      using parse_number_text [OF r, of k] by (auto simp: strip_prefix_def)
  qed
next
  case (Str s)
  show ?case unfolding reads_def
  proof (intro allI impI)
    fix n r assume "need (JStr s) \<le> n"
    then obtain m where "n = Suc m" by (cases n) auto
    then show "parse_value n (canonicalizeJson (JStr s) @ r) = Some (normal (JStr s), r)"
      by (simp add: quote_def unquote_quote)
  qed
next
  case (Arr vs)
  show ?case unfolding reads_def
  proof (intro allI impI)
    fix n r assume "need (JArr vs) \<le> n"
    then obtain m where n: "n = Suc m" and m: "sum_list (map (\<lambda>v. Suc (need v)) vs) \<le> m" by (cases n) auto
    have "QUOTE \<noteq> CHR ''[''" by (simp add: QUOTE_def)
    moreover have "strip_prefix '']'' (skip_space (join_with (CHR '','') (map canonicalizeJson vs) @ CHR '']'' # r)) = None"
      if "vs \<noteq> []"
    proof -
      obtain v ws where vs: "vs = v # ws" using \<open>vs \<noteq> []\<close> by (cases vs) auto
      obtain c cs where c: "canonicalizeJson v = c # cs" "\<not> is_json_space c" "c \<noteq> CHR '']''"
        using first_character by blast
      obtain s where "join_with (CHR '','') (map canonicalizeJson vs) = c # s"
        using join_with_Cons_head [of "map canonicalizeJson vs" c cs] vs c by auto
      with c show ?thesis by (simp add: strip_prefix_def)
    qed
    moreover have "\<forall>v \<in> set vs. reads v" using Arr by (auto simp: list_all_iff)
    ultimately show "parse_value n (canonicalizeJson (JArr vs) @ r) = Some (normal (JArr vs), r)"
      using parse_elements_text [of vs m "[]" r] m n by (cases "vs = []") auto
  qed
next
  case (Obj ps)
  show ?case unfolding reads_def
  proof (intro allI impI)
    fix n r assume "need (JObj ps) \<le> n"
    then obtain m where n: "n = Suc m" and m: "sum_list (map (\<lambda>(k, v). Suc (need v)) ps) \<le> m" by (cases n) auto
    from Obj.prems have d: "distinct (map fst ps)" by simp
    let ?os = "in_key_order ps"
    let ?text = "join_with (CHR '','') (map (\<lambda>(k, v). quote k @ CHR '':'' # canonicalizeJson v) ?os)"
    have ne: "QUOTE \<noteq> CHR ''{''" "QUOTE \<noteq> CHR ''}''" "CHR ''{'' \<noteq> CHR ''[''" by (simp_all add: QUOTE_def)
    have first: "strip_prefix ''}'' (skip_space (?text @ CHR ''}'' # r)) = None" if "ps \<noteq> []"
    proof -
      have "?os \<noteq> []" using that object_sorted_nonempty by blast
      then have "hd (map (\<lambda>(k, v). quote k @ CHR '':'' # canonicalizeJson v) ?os) =
          QUOTE # (concat (map escape_char (fst (hd ?os))) @ [QUOTE] @ CHR '':'' # canonicalizeJson (snd (hd ?os)))"
        by (cases ?os) (auto simp: quote_def)
      then obtain s where "?text = QUOTE # s" using join_with_Cons_head \<open>?os \<noteq> []\<close> by (metis map_is_Nil_conv)
      with ne show ?thesis by (simp add: strip_prefix_def)
    qed
    have "\<forall>(k, v) \<in> set ?os. reads v"
      using Obj set_in_key_order [OF d] by (auto simp: list_all_iff)
    moreover have "distinct (map fst ?os)" using d by (simp add: text_order_distinct)
    moreover have "sum_list (map (\<lambda>(k, v). Suc (need v)) ?os) \<le> m" using m sum_in_key_order [OF d] by simp
    ultimately have "parse_members m [] (?text @ CHR ''}'' # r) =
        Some (JObj (map (\<lambda>(k, v). (k, normal v)) ?os), r)" if "ps \<noteq> []"
      using parse_members_text [of ?os m "[]" r] that object_sorted_nonempty by auto
    then show "parse_value n (canonicalizeJson (JObj ps) @ r) = Some (normal (JObj ps), r)"
      unfolding canonicalize_object
      using n first ne object_sorted_nonempty [of "[] :: (string \<times> json) list"]
      by (cases "ps = []") (simp_all add: in_key_order_map)
  qed
qed

section \<open>Canonical text identifies the value\<close>

lemma length_join: "ss \<noteq> [] \<Longrightarrow> Suc (length (join_with c ss)) = sum_list (map (\<lambda>s. Suc (length s)) ss)"
  by (induction c ss rule: join_with.induct) auto

lemma length_quote: "2 \<le> length (quote s)"
  by (simp add: quote_def)

lemma need_length: "wf_json v \<Longrightarrow> need v \<le> length (canonicalizeJson v)"
proof (induction v rule: json_induct)
  case (Num n)
  then show ?case by (simp add: int_text_split Suc_le_eq)
next
  case (Str s)
  then show ?case using length_quote [of s] by simp
next
  case (Arr vs)
  then have "\<forall>v \<in> set vs. need v \<le> length (canonicalizeJson v)" by (simp add: list_all_iff)
  then have "sum_list (map (\<lambda>v. Suc (need v)) vs) \<le> sum_list (map (\<lambda>v. Suc (length (canonicalizeJson v))) vs)"
    by (intro sum_list_mono) auto
  then show ?case
    using length_join [of "map canonicalizeJson vs" "CHR '',''"] by (cases "vs = []") (auto simp: comp_def)
next
  case (Obj ps)
  let ?os = "in_key_order ps"
  from Obj.prems have d: "distinct (map fst ps)" by simp
  have "\<forall>(k, v) \<in> set ?os. need v \<le> length (canonicalizeJson v)"
    using Obj set_in_key_order [OF d] by (auto simp: list_all_iff)
  then have "sum_list (map (\<lambda>(k, v). Suc (need v)) ?os) \<le>
      sum_list (map (\<lambda>(k, v). Suc (length (quote k @ CHR '':'' # canonicalizeJson v))) ?os)"
    by (intro sum_list_mono) auto
  then have "sum_list (map (\<lambda>(k, v). Suc (need v)) ps) \<le>
      sum_list (map (\<lambda>(k, v). Suc (length (quote k @ CHR '':'' # canonicalizeJson v))) ?os)"
    using sum_in_key_order [OF d, of "\<lambda>v. Suc (need v)"] by simp
  then show ?case
    using length_join [of "map (\<lambda>(k, v). quote k @ CHR '':'' # canonicalizeJson v) ?os" "CHR '',''"]
      object_sorted_nonempty [of ps]
    unfolding canonicalize_object by (cases "ps = []") (auto simp: comp_def case_prod_unfold)
qed auto

lemma json_parse_canonical:
  assumes "wf_json v"
  shows "json_parse (canonicalizeJson v) = Some (normal v)"
proof -
  have "need v \<le> Suc (length (canonicalizeJson v))" using need_length [OF assms] by simp
  moreover have "follows []" by (simp add: follows_def)
  ultimately have "parse_value (Suc (length (canonicalizeJson v))) (canonicalizeJson v @ []) = Some (normal v, [])"
    using parse_canonical [OF assms] by (intro readsD)
  then show ?thesis by (simp add: json_parse_def)
qed

lemma canonical_normal: "wf_json v \<Longrightarrow> canonicalizeJson (normal v) = canonicalizeJson v"
proof (induction v rule: json_induct)
  case (Arr vs)
  then show ?case by (auto simp: list_all_iff comp_def cong: map_cong)
next
  case (Obj ps)
  from Obj.prems have d: "distinct (map fst ps)" by simp
  have same: "in_key_order (in_key_order (qs :: (string \<times> 'a) list)) = in_key_order qs"
    if "distinct (map fst qs)" for qs
  proof -
    have sorted: "js_sort text_compare (js_sort text_compare (map fst qs)) = js_sort text_compare (map fst qs)"
      by (intro text_order.sort_sorted_id text_order.sorted_sort)
    have "map_of (in_key_order qs) k = map_of qs k" if "k \<in> fst ` set qs" for k
    proof -
      have "map_of (in_key_order qs) k = Some (the (map_of qs k))"
        using that by (simp add: in_key_order_def map_of_map_restrict restrict_map_def)
      with that show ?thesis by (cases "map_of qs k") (auto simp: map_of_eq_None_iff)
    qed
    then show ?thesis using sorted
      by (simp add: in_key_order_def [of "in_key_order qs"]) (simp add: in_key_order_def)
  qed
  have "map (\<lambda>(k, v). quote k @ CHR '':'' # canonicalizeJson v) (in_key_order (map (\<lambda>(k, v). (k, normal v)) ps)) =
      map (\<lambda>(k, v). quote k @ CHR '':'' # canonicalizeJson v) (in_key_order ps)"
    unfolding in_key_order_map map_map
    using Obj set_in_key_order [OF d] by (auto simp: list_all_iff)
  moreover have "distinct (map fst (map (\<lambda>(k, v). (k, normal v)) ps))"
    using d by (simp add: comp_def case_prod_unfold)
  ultimately show ?case by (simp only: normal.simps canonicalize_object same)
qed auto

text \<open>
  C38: The canonical text of a JSON value is parsed back to the same value with every
  object's properties in key order, and that value has the same canonical text: a
  document the runtime writes passes its own check that what it reads is canonical.
\<close>

theorem canonical_json_roundtrip:
  assumes "wf_json v"
  shows "json_parse (canonicalizeJson v) = Some (normal v) \<and> canonicalizeJson (normal v) = canonicalizeJson v"
  using json_parse_canonical [OF assms] canonical_normal [OF assms] by blast

definition sample_json :: json where
  "sample_json = JObj [(''b'', JArr [JNum (-7), JBool True, JNull]), (''a'', JStr [CHR 0x22, CHR 0x0A, CHR 0x01])]"

theorem canonical_json_roundtrip_witness:
  "json_parse (canonicalizeJson sample_json) =
     Some (JObj [(''a'', JStr [CHR 0x22, CHR 0x0A, CHR 0x01]), (''b'', JArr [JNum (-7), JBool True, JNull])])"
proof -
  have "wf_json sample_json" by code_simp
  moreover have "normal sample_json =
      JObj [(''a'', JStr [CHR 0x22, CHR 0x0A, CHR 0x01]), (''b'', JArr [JNum (-7), JBool True, JNull])]"
    by code_simp
  ultimately show ?thesis using canonical_json_roundtrip [of sample_json] by simp
qed

text \<open>
  Two values have the same canonical text, and so the same digest input, exactly
  when they are equal up to the order of the properties of their objects.
\<close>

theorem canonical_text_identifies:
  assumes "wf_json v" "wf_json w"
  shows "canonicalizeJson v = canonicalizeJson w \<longleftrightarrow> normal v = normal w"
  using assms json_parse_canonical canonical_normal by (metis option.inject)

theorem canonical_text_identifies_witness:
  "canonicalizeJson (JObj [(''b'', JNum 1), (''a'', JNum 2)]) = canonicalizeJson (JObj [(''a'', JNum 2), (''b'', JNum 1)])"
proof -
  have "wf_json (JObj [(''b'', JNum 1), (''a'', JNum 2)])" "wf_json (JObj [(''a'', JNum 2), (''b'', JNum 1)])"
    by code_simp+
  moreover have "normal (JObj [(''b'', JNum 1), (''a'', JNum 2)]) = normal (JObj [(''a'', JNum 2), (''b'', JNum 1)])"
    by code_simp
  ultimately show ?thesis using canonical_text_identifies by blast
qed

end
