(* ===== verification/Transaction_Documents.thy ===== *)
theory Transaction_Documents
  imports Transaction_Recovery Canonical_Json
begin

text \<open>
  The two documents a transaction keeps on disk, \<open>progress.json\<close> and \<open>manifest.json\<close>:
  their JSON form, what the schemas \<open>schemas/state/transaction-progress.v1\<close> and
  \<open>transaction-manifest.v1\<close> demand, and reading them back. A document is the canonical
  text of its JSON form followed by a line feed; anything else is refused when read.
\<close>

section \<open>Fields of a parsed object\<close>

definition json_field :: "string \<Rightarrow> json \<Rightarrow> json option" where
  "json_field k j = (case j of JObj ps \<Rightarrow> map_of ps k | _ \<Rightarrow> None)"

definition has_keys :: "string list \<Rightarrow> json \<Rightarrow> bool" where
  "has_keys ks j = (case j of JObj ps \<Rightarrow> set (map fst ps) = set ks | _ \<Rightarrow> False)"

definition json_string :: "json \<Rightarrow> string option" where
  "json_string j = (case j of JStr s \<Rightarrow> Some s | _ \<Rightarrow> None)"

definition json_number :: "json \<Rightarrow> int option" where
  "json_number j = (case j of JNum n \<Rightarrow> Some n | _ \<Rightarrow> None)"

definition json_array :: "json \<Rightarrow> json list option" where
  "json_array j = (case j of JArr vs \<Rightarrow> Some vs | _ \<Rightarrow> None)"

definition nullable_string :: "json \<Rightarrow> string option option" where
  "nullable_string j = (case j of JNull \<Rightarrow> Some None | JStr s \<Rightarrow> Some (Some s) | _ \<Rightarrow> None)"

definition read_field :: "(json \<Rightarrow> 'a option) \<Rightarrow> string \<Rightarrow> json \<Rightarrow> 'a option" where
  "read_field f k j = Option.bind (json_field k j) f"

definition nullable :: "string option \<Rightarrow> json" where
  "nullable s = (case s of None \<Rightarrow> JNull | Some t \<Rightarrow> JStr t)"

lemma map_of_in_key_order: "distinct (map fst qs) \<Longrightarrow> map_of (in_key_order qs) = map_of qs"
  by (subst map_of_inject_set) (simp_all add: text_order_distinct set_in_key_order)

lemma json_field_normal [simp]:
  "distinct (map fst ps) \<Longrightarrow> json_field k (normal (JObj ps)) = map_option normal (map_of ps k)"
proof -
  assume d: "distinct (map fst ps)"
  let ?qs = "map (\<lambda>(k, v). (k, normal v)) ps"
  have "distinct (map fst ?qs)" using d by (simp add: comp_def case_prod_unfold)
  then have "map_of (in_key_order ?qs) = map_of ?qs" by (rule map_of_in_key_order)
  then show ?thesis by (simp add: json_field_def map_of_map)
qed

lemma has_keys_normal [simp]: "has_keys ks (normal (JObj ps)) \<longleftrightarrow> set (map fst ps) = set ks"
  by (simp add: has_keys_def comp_def case_prod_unfold image_image)

lemma json_readers [simp]:
  "json_string (JStr s) = Some s" "json_number (JNum n) = Some n" "json_array (JArr vs) = Some vs"
  "nullable_string (nullable t) = Some t" "normal (nullable t) = nullable t"
  "wf_json (nullable t)"
  by (simp_all add: json_string_def json_number_def json_array_def nullable_string_def nullable_def split: option.splits)

section \<open>Texts of the enumerations\<close>

definition phase_texts :: "(transaction_phase \<times> string) list" where
  "phase_texts = [(Begun, ''begun''), (Prepared, ''prepared''), (Publishing, ''publishing''),
     (Committed, ''committed''), (Aborted, ''aborted'')]"

definition sync_texts :: "(directory_sync \<times> string) list" where
  "sync_texts = [(Not_attempted, ''not_attempted''), (Supported, ''supported''), (Unsupported, ''unsupported'')]"

definition kind_texts :: "(persisted_kind \<times> string) list" where
  "kind_texts = [(Persisted_create, ''create_directory''), (Persisted_write, ''write_file''),
     (Persisted_delete, ''delete_file'')]"

definition enum_text :: "('a \<times> string) list \<Rightarrow> 'a \<Rightarrow> json" where
  "enum_text table x = JStr (the (map_of table x))"

definition enum_of :: "('a \<times> string) list \<Rightarrow> json \<Rightarrow> 'a option" where
  "enum_of table j =
     Option.bind (json_string j) (\<lambda>s. map_of (map (\<lambda>(x, t). (t, x)) table) s)"

lemma enum_roundtrip [simp]:
  shows phase_roundtrip: "enum_of phase_texts (enum_text phase_texts p) = Some p"
    and sync_roundtrip: "enum_of sync_texts (enum_text sync_texts s) = Some s"
    and kind_roundtrip: "enum_of kind_texts (enum_text kind_texts k) = Some k"
proof -
  show "enum_of phase_texts (enum_text phase_texts p) = Some p"
    by (cases p) (simp_all add: enum_of_def enum_text_def phase_texts_def)
  show "enum_of sync_texts (enum_text sync_texts s) = Some s"
    by (cases s) (simp_all add: enum_of_def enum_text_def sync_texts_def)
  show "enum_of kind_texts (enum_text kind_texts k) = Some k"
    by (cases k) (simp_all add: enum_of_def enum_text_def kind_texts_def)
qed

lemma enum_normal [simp]: "normal (enum_text table x) = enum_text table x" "wf_json (enum_text table x)"
  by (simp_all add: enum_text_def)

section \<open>Schema conditions\<close>

definition two_digits :: "char \<Rightarrow> char \<Rightarrow> nat \<Rightarrow> nat \<Rightarrow> bool" where
  "two_digits c d low high \<longleftrightarrow> is_digit c \<and> is_digit d \<and>
     (let n = 10 * (code_unit c - 48) + (code_unit d - 48) in low \<le> n \<and> n \<le> high)"

text \<open>The seconds fraction and the final \<open>Z\<close>.\<close>

definition fraction_test :: "string \<Rightarrow> bool" where
  "fraction_test s \<longleftrightarrow>
     s = ''Z'' \<or>
     (case s of
        [] \<Rightarrow> False
      | c # r \<Rightarrow> c = CHR ''.'' \<and> (let ds = takeWhile is_digit r
          in 1 \<le> length ds \<and> length ds \<le> 9 \<and> dropWhile is_digit r = ''Z''))"

definition timestamp_test :: "string \<Rightarrow> bool" where
  "timestamp_test s \<longleftrightarrow> length s \<ge> 20 \<and>
     list_all is_digit (take 4 s) \<and> s ! 4 = CHR ''-'' \<and> two_digits (s ! 5) (s ! 6) 1 12 \<and>
     s ! 7 = CHR ''-'' \<and> two_digits (s ! 8) (s ! 9) 1 31 \<and> s ! 10 = CHR ''T'' \<and>
     two_digits (s ! 11) (s ! 12) 0 23 \<and> s ! 13 = CHR '':'' \<and> two_digits (s ! 14) (s ! 15) 0 59 \<and>
     s ! 16 = CHR '':'' \<and> two_digits (s ! 17) (s ! 18) 0 59 \<and> fraction_test (drop 19 s)"

definition valid_progress :: "transaction_progress \<Rightarrow> bool" where
  "valid_progress p \<longleftrightarrow>
     id_test (pg_transactionId p) \<and>
     (case pg_manifestDigest p of None \<Rightarrow> True | Some d \<Rightarrow> sha256_test d) \<and>
     sha256_test (pg_recoveryToken p) \<and>
     list_all id_test (pg_published p) \<and> distinct (pg_published p) \<and>
     timestamp_test (pg_createdAt p) \<and> timestamp_test (pg_updatedAt p) \<and>
     (pg_phase p \<in> {Prepared, Publishing, Committed} \<longrightarrow> pg_manifestDigest p \<noteq> None) \<and>
     (pg_phase p = Begun \<longrightarrow> pg_manifestDigest p = None)"

definition valid_persisted :: "persisted_operation \<Rightarrow> bool" where
  "valid_persisted operation \<longleftrightarrow>
     id_test (po_operationId operation) \<and> reference_test (po_path operation) \<and>
     valid_fingerprint (po_expected operation) \<and> valid_fingerprint (po_result operation) \<and>
     (case po_stagedPath operation of
        None \<Rightarrow> po_kind operation \<noteq> Persisted_write
      | Some s \<Rightarrow> po_kind operation = Persisted_write \<and> reference_test s)"

definition valid_manifest :: "transaction_manifest \<Rightarrow> bool" where
  "valid_manifest m \<longleftrightarrow>
     id_test (mf_transactionId m) \<and> sha256_test (mf_planDigest m) \<and> timestamp_test (mf_createdAt m) \<and>
     mf_operations m \<noteq> [] \<and> list_all valid_persisted (mf_operations m)"

section \<open>Documents\<close>

definition contract_fields :: "(string \<times> json) list" where
  "contract_fields = [(''contractVersion'', JStr ''1.0.0''), (''stateContract'', JStr ''1.0.0'')]"

definition contract_ok :: "json \<Rightarrow> bool" where
  "contract_ok j \<longleftrightarrow> json_field ''contractVersion'' j = Some (JStr ''1.0.0'') \<and>
     json_field ''stateContract'' j = Some (JStr ''1.0.0'')"

definition progress_json :: "transaction_progress \<Rightarrow> json" where
  "progress_json p = JObj (contract_fields @
     [(''transactionId'', JStr (pg_transactionId p)),
      (''manifestDigest'', nullable (pg_manifestDigest p)),
      (''recoveryToken'', JStr (pg_recoveryToken p)),
      (''phase'', enum_text phase_texts (pg_phase p)),
      (''publishedOperationIds'', JArr (map JStr (pg_published p))),
      (''fileSync'', JStr ''required''),
      (''directorySync'', enum_text sync_texts (pg_directorySync p)),
      (''createdAt'', JStr (pg_createdAt p)),
      (''updatedAt'', JStr (pg_updatedAt p))])"

definition progress_keys :: "string list" where
  "progress_keys = [''contractVersion'', ''stateContract'', ''transactionId'', ''manifestDigest'',
     ''recoveryToken'', ''phase'', ''publishedOperationIds'', ''fileSync'', ''directorySync'', ''createdAt'', ''updatedAt'']"

definition json_progress :: "json \<Rightarrow> transaction_progress option" where
  "json_progress j =
     (if \<not> has_keys progress_keys j \<or> \<not> contract_ok j \<or> json_field ''fileSync'' j \<noteq> Some (JStr ''required'') then None
      else Option.bind (read_field json_string ''transactionId'' j) (\<lambda>i.
        Option.bind (read_field nullable_string ''manifestDigest'' j) (\<lambda>d.
        Option.bind (read_field json_string ''recoveryToken'' j) (\<lambda>t.
        Option.bind (read_field (enum_of phase_texts) ''phase'' j) (\<lambda>ph.
        Option.bind (read_field json_array ''publishedOperationIds'' j) (\<lambda>vs.
        Option.bind (those (map json_string vs)) (\<lambda>ids.
        Option.bind (read_field (enum_of sync_texts) ''directorySync'' j) (\<lambda>ds.
        Option.bind (read_field json_string ''createdAt'' j) (\<lambda>c.
        map_option (\<lambda>u. \<lparr> pg_transactionId = i, pg_manifestDigest = d, pg_recoveryToken = t, pg_phase = ph,
             pg_published = ids, pg_directorySync = ds, pg_createdAt = c, pg_updatedAt = u \<rparr>)
          (read_field json_string ''updatedAt'' j))))))))))"

definition fingerprint_json :: "path_fingerprint \<Rightarrow> json" where
  "fingerprint_json f =
     (case f of
        Missing \<Rightarrow> JObj [(''kind'', JStr ''missing'')]
      | Directory \<Rightarrow> JObj [(''kind'', JStr ''directory'')]
      | File_print bytes digest \<Rightarrow>
          JObj [(''kind'', JStr ''file''), (''size'', JNum bytes), (''sha256'', JStr digest)])"

definition json_fingerprint :: "json \<Rightarrow> path_fingerprint option" where
  "json_fingerprint j =
     Option.bind (read_field json_string ''kind'' j) (\<lambda>kind.
       if kind = ''file'' then
         (if has_keys [''kind'', ''size'', ''sha256''] j then
            Option.bind (read_field json_number ''size'' j) (\<lambda>n.
              map_option (File_print n) (read_field json_string ''sha256'' j))
          else None)
       else if \<not> has_keys [''kind''] j then None
       else if kind = ''missing'' then Some Missing else if kind = ''directory'' then Some Directory else None)"

definition persisted_json :: "persisted_operation \<Rightarrow> json" where
  "persisted_json operation = JObj
     [(''operationId'', JStr (po_operationId operation)), (''kind'', enum_text kind_texts (po_kind operation)),
      (''path'', JStr (po_path operation)), (''expected'', fingerprint_json (po_expected operation)),
      (''result'', fingerprint_json (po_result operation)), (''stagedPath'', nullable (po_stagedPath operation))]"

definition json_persisted :: "json \<Rightarrow> persisted_operation option" where
  "json_persisted j =
     (if \<not> has_keys [''operationId'', ''kind'', ''path'', ''expected'', ''result'', ''stagedPath''] j then None
      else Option.bind (read_field json_string ''operationId'' j) (\<lambda>i.
        Option.bind (read_field (enum_of kind_texts) ''kind'' j) (\<lambda>k.
        Option.bind (read_field json_string ''path'' j) (\<lambda>p.
        Option.bind (read_field json_fingerprint ''expected'' j) (\<lambda>e.
        Option.bind (read_field json_fingerprint ''result'' j) (\<lambda>r.
        map_option (\<lambda>s. \<lparr> po_operationId = i, po_kind = k, po_path = p, po_expected = e, po_result = r,
            po_stagedPath = s \<rparr>)
          (read_field nullable_string ''stagedPath'' j)))))))"

definition operations_json :: "persisted_operation list \<Rightarrow> json" where
  "operations_json operations = JArr (map persisted_json operations)"

definition manifest_json :: "transaction_manifest \<Rightarrow> json" where
  "manifest_json m = JObj (contract_fields @
     [(''transactionId'', JStr (mf_transactionId m)), (''planDigest'', JStr (mf_planDigest m)),
      (''createdAt'', JStr (mf_createdAt m)), (''operations'', operations_json (mf_operations m))])"

definition json_manifest :: "json \<Rightarrow> transaction_manifest option" where
  "json_manifest j =
     (if \<not> has_keys [''contractVersion'', ''stateContract'', ''transactionId'', ''planDigest'', ''createdAt'', ''operations''] j
         \<or> \<not> contract_ok j then None
      else Option.bind (read_field json_string ''transactionId'' j) (\<lambda>i.
        Option.bind (read_field json_string ''planDigest'' j) (\<lambda>d.
        Option.bind (read_field json_string ''createdAt'' j) (\<lambda>c.
        Option.bind (read_field json_array ''operations'' j) (\<lambda>vs.
        map_option (\<lambda>os. \<lparr> mf_transactionId = i, mf_planDigest = d, mf_createdAt = c, mf_operations = os \<rparr>)
          (those (map json_persisted vs)))))))"

section \<open>Reading back\<close>

definition document_text :: "json \<Rightarrow> string" where
  "document_text j = canonicalizeJson j @ [CHR 0x0A]"

definition parseCanonicalJson :: "string \<Rightarrow> json option" where
  "parseCanonicalJson text =
     Option.bind (json_parse text) (\<lambda>parsed. if text \<noteq> document_text parsed then None else Some parsed)"

lemma parse_document:
  assumes "wf_json j"
  shows "parseCanonicalJson (document_text j) = Some (normal j)"
proof -
  have "need j \<le> Suc (length (document_text j))"
    using need_length [OF assms] by (simp add: document_text_def)
  moreover have "follows [CHR 0x0A]" by (simp add: follows_def)
  ultimately have "parse_value (Suc (length (document_text j))) (canonicalizeJson j @ [CHR 0x0A]) = Some (normal j, [CHR 0x0A])"
    using parse_canonical [OF assms] by (intro readsD)
  then have "json_parse (document_text j) = Some (normal j)"
    by (simp add: json_parse_def document_text_def skip_space_def is_json_space_def code_unit_def)
  then show ?thesis by (simp add: parseCanonicalJson_def document_text_def canonical_normal [OF assms])
qed

text \<open>A kind of document: how it is written as JSON and what reading accepts.\<close>

locale document_codec =
  fixes encode :: "'a \<Rightarrow> json" and decode :: "json \<Rightarrow> 'a option"
  assumes encode_wf: "wf_json (encode a)"
    and decode_encode: "decode (normal (encode a)) = Some a"
begin

lemma read_back: "Option.bind (parseCanonicalJson (document_text (encode a))) decode = Some a"
  by (simp add: parse_document [OF encode_wf] decode_encode)

lemma text_identifies: "document_text (encode a) = document_text (encode b) \<longleftrightarrow> a = b"
  using read_back by (metis option.inject)

lemma canonical_identifies: "canonicalizeJson (encode a) = canonicalizeJson (encode b) \<longleftrightarrow> a = b"
  using text_identifies [of a b] by (auto simp: document_text_def)

end

lemma those_map: "(\<And>x. x \<in> set xs \<Longrightarrow> f x = Some (g x)) \<Longrightarrow> those (map f xs) = Some (map g xs)"
  by (induction xs) auto

lemmas reading = read_field_def contract_ok_def

interpretation fingerprint_codec: document_codec fingerprint_json json_fingerprint
  by unfold_locales (auto simp: fingerprint_json_def json_fingerprint_def reading simp del: normal.simps(2) split: path_fingerprint.splits)

interpretation operation_codec: document_codec persisted_json json_persisted
  by unfold_locales
     (auto simp: persisted_json_def json_persisted_def reading fingerprint_codec.encode_wf fingerprint_codec.decode_encode
        simp del: normal.simps(2))

interpretation progress_codec: document_codec progress_json json_progress
  by unfold_locales
     (auto simp: progress_json_def json_progress_def progress_keys_def contract_fields_def reading list_all_iff comp_def
        those_map [where g = id] simp del: normal.simps(2))

interpretation manifest_codec: document_codec manifest_json json_manifest
  by unfold_locales
     (auto simp: manifest_json_def json_manifest_def operations_json_def contract_fields_def reading list_all_iff comp_def
        operation_codec.encode_wf operation_codec.decode_encode those_map [where g = id] simp del: normal.simps(2))

end
