(* ===== verification/Event_Codec.thy ===== *)
theory Event_Codec
  imports Event_Model Transaction_Documents "HOL-Library.Monad_Syntax"
begin

text \<open>
  The JSON form of the events of \<open>schemas/state/event.v1\<close> to \<open>v1.4\<close>, as the event log
  stores them (\<open>ReadableEvent\<close> of \<open>domain/events/model.ts\<close>): writing an event as JSON and
  reading it back with exactly the properties of the contract.
\<close>

section \<open>Objects with optional properties\<close>

definition present :: "(string \<times> 'a option) list \<Rightarrow> (string \<times> 'a) list" where
  "present ms = concat (map (\<lambda>(k, v). case v of None \<Rightarrow> [] | Some x \<Rightarrow> [(k, x)]) ms)"

lemma present_simps [simp]:
  "present [] = []" "present ((k, None) # ms) = present ms" "present ((k, Some x) # ms) = (k, x) # present ms"
  by (simp_all add: present_def)

lemma present_keys: "k \<in> fst ` set (present ms) \<Longrightarrow> k \<in> fst ` set ms"
  by (force simp: present_def split: option.splits)

lemma distinct_present: "distinct (map fst ms) \<Longrightarrow> distinct (map fst (present ms))"
proof (induction ms)
  case (Cons m ms)
  then show ?case using present_keys [of "fst m" ms] by (cases m; cases "snd m") auto
qed simp

lemma map_of_present:
  "distinct (map fst ms) \<Longrightarrow> map_of (present ms) k = Option.bind (map_of ms k) id"
proof (induction ms)
  case (Cons m ms)
  obtain a b where m: "m = (a, b)" by fastforce
  have "map_of (present ms) a = None" if "a \<notin> fst ` set ms"
    using that present_keys [of a ms] by (auto simp: map_of_eq_None_iff)
  with Cons show ?case by (cases b) (auto simp: m)
qed simp

lemma present_map: "map (\<lambda>(k, v). (k, f v)) (present ms) = present (map (\<lambda>(k, v). (k, map_option f v)) ms)"
  by (induction ms) (auto split: option.splits simp: present_def)

definition json_object :: "(string \<times> json option) list \<Rightarrow> json" where
  "json_object ms = JObj (present ms)"

lemma field_of_object:
  assumes "distinct (map fst ms)"
  shows "json_field k (normal (json_object ms)) = map_option normal (Option.bind (map_of ms k) id)"
  using json_field_normal [OF distinct_present [OF assms]]
  by (simp add: json_object_def map_of_present [OF assms] del: normal.simps)

lemma object_wf:
  assumes "distinct (map fst ms)" "\<forall>(k, v) \<in> set ms. \<forall>x. v = Some x \<longrightarrow> wf_json x"
  shows "wf_json (json_object ms)"
proof -
  have "wf_json v" if "(k, v) \<in> set (present ms)" for k v
    using that assms(2) by (auto simp: present_def split: option.splits)
  then have "list_all (\<lambda>(k, v). wf_json v) (present ms)" by (auto simp: list_all_iff)
  then show ?thesis using distinct_present [OF assms(1)] by (simp add: json_object_def)
qed

definition only_keys :: "string list \<Rightarrow> json \<Rightarrow> bool" where
  "only_keys ks j = (case j of JObj ps \<Rightarrow> list_all (\<lambda>k. k \<in> set ks) (map fst ps) | _ \<Rightarrow> False)"

lemma only_keys_object:
  assumes "set (map fst ms) \<subseteq> set ks"
  shows "only_keys ks (normal (json_object ms))"
proof -
  have "a \<in> set ks" if "(a, b) \<in> set (present ms)" for a b
  proof -
    have "a \<in> fst ` set (present ms)" using that by force
    with assms present_keys show ?thesis by (metis list.set_map subsetD)
  qed
  then show ?thesis
    by (auto simp: only_keys_def json_object_def list_all_iff comp_def case_prod_unfold image_image)
qed

definition read_optional :: "(json \<Rightarrow> 'a option) \<Rightarrow> string \<Rightarrow> json \<Rightarrow> 'a option option" where
  "read_optional f k j = (case json_field k j of None \<Rightarrow> Some None | Some v \<Rightarrow> map_option Some (f v))"

section \<open>Texts of the enumerations\<close>

definition contract_texts :: "(contract_version \<times> string) list" where
  "contract_texts = [(V1_0, ''1.0.0''), (V1_1, ''1.1.0''), (V1_2, ''1.2.0''), (V1_3, ''1.3.0''), (V1_4, ''1.4.0'')]"

definition type_texts :: "(event_type \<times> string) list" where
  "type_texts = [(Operation_event, ''operation''), (Decision_event, ''decision''),
     (Transition_event, ''transition''), (Recovery_event, ''recovery'')]"

definition effect_texts :: "(event_effect \<times> string) list" where
  "effect_texts = [(No_effect, ''none''), (State_effect, ''state''), (Artifact_effect, ''artifact''),
     (State_and_artifact, ''state-and-artifact'')]"

definition role_texts :: "(model_role \<times> string) list" where
  "role_texts = [(Planner, ''planner''), (Implementer, ''implementer''), (Judge, ''judge'')]"

definition step_texts :: "(run_phase \<times> string) list" where
  "step_texts = [(Prd, ''prd''), (Spec, ''spec''), (Plan, ''plan''), (Code, ''code''), (Review, ''review''),
     (Acceptance, ''acceptance'')]"

definition fault_texts :: "(fault_class \<times> string) list" where
  "fault_texts = [(Code_fault, ''code''), (Specification_fault, ''specification'')]"

definition outcome_texts :: "(acceptance_outcome \<times> string) list" where
  "outcome_texts = [(Acc_passed, ''passed''), (Acc_repair, ''repair''), (Acc_stopped, ''stopped'')]"

definition mode_texts :: "(gate_mode \<times> string) list" where
  "mode_texts = [(Shadow, ''shadow''), (Warn, ''warn''), (Enforce, ''enforce'')]"

definition gate_texts :: "(gate_id \<times> string) list" where
  "gate_texts = map (\<lambda>g. (g, gate_id_text g)) GATE_IDS"

definition reason_texts :: "(gate_failure_reason \<times> string) list" where
  "reason_texts = map (\<lambda>r. (r, gate_reason_text r)) (concat (map GATE_REASON_CODES GATE_IDS))"

lemma enum_table:
  assumes "x \<in> fst ` set table" "distinct (map snd table)"
  shows "enum_of table (enum_text table x) = Some x"
proof -
  from assms(1) obtain t where t: "map_of table x = Some t" by (metis map_of_eq_None_iff not_Some_eq)
  then have "(x, t) \<in> set table" by (rule map_of_SomeD)
  then have "(t, x) \<in> set (map (\<lambda>(x, t). (t, x)) table)" by force
  moreover have "distinct (map fst (map (\<lambda>(x, t). (t, x)) table))"
    using assms(2) by (simp add: comp_def case_prod_unfold)
  ultimately have "map_of (map (\<lambda>(x, t). (t, x)) table) t = Some x" by (intro map_of_is_SomeI)
  with t show ?thesis by (simp add: enum_of_def enum_text_def json_string_def)
qed

lemma event_enums [simp]:
  shows "enum_of contract_texts (enum_text contract_texts v) = Some v"
    and "enum_of type_texts (enum_text type_texts ty) = Some ty"
    and "enum_of effect_texts (enum_text effect_texts ef) = Some ef"
    and "enum_of role_texts (enum_text role_texts ro) = Some ro"
    and "enum_of step_texts (enum_text step_texts ph) = Some ph"
    and "enum_of fault_texts (enum_text fault_texts fa) = Some fa"
    and "enum_of outcome_texts (enum_text outcome_texts oc) = Some oc"
    and "enum_of mode_texts (enum_text mode_texts mo) = Some mo"
    and "enum_of gate_texts (enum_text gate_texts ga) = Some ga"
    and "enum_of reason_texts (enum_text reason_texts re) = Some re"
proof -
  show "enum_of contract_texts (enum_text contract_texts v) = Some v"
    by (rule enum_table; cases v; simp add: contract_texts_def)
  show "enum_of type_texts (enum_text type_texts ty) = Some ty"
    by (rule enum_table; cases ty; simp add: type_texts_def)
  show "enum_of effect_texts (enum_text effect_texts ef) = Some ef"
    by (rule enum_table; cases ef; simp add: effect_texts_def)
  show "enum_of role_texts (enum_text role_texts ro) = Some ro"
    by (rule enum_table; cases ro; simp add: role_texts_def)
  show "enum_of step_texts (enum_text step_texts ph) = Some ph"
    by (rule enum_table; cases ph; simp add: step_texts_def)
  show "enum_of fault_texts (enum_text fault_texts fa) = Some fa"
    by (rule enum_table; cases fa; simp add: fault_texts_def)
  show "enum_of outcome_texts (enum_text outcome_texts oc) = Some oc"
    by (rule enum_table; cases oc; simp add: outcome_texts_def)
  show "enum_of mode_texts (enum_text mode_texts mo) = Some mo"
    by (rule enum_table; cases mo; simp add: mode_texts_def)
  show "enum_of gate_texts (enum_text gate_texts ga) = Some ga"
    by (rule enum_table; cases ga; simp add: gate_texts_def GATE_IDS_def)
  show "enum_of reason_texts (enum_text reason_texts re) = Some re"
    by (rule enum_table; cases re; simp add: reason_texts_def GATE_IDS_def)
qed

section \<open>The nested records\<close>

definition optional :: "('a \<Rightarrow> json) \<Rightarrow> 'a option \<Rightarrow> json" where
  "optional enc v = (case v of None \<Rightarrow> JNull | Some x \<Rightarrow> enc x)"

definition or_null :: "(json \<Rightarrow> 'a option) \<Rightarrow> json \<Rightarrow> 'a option option" where
  "or_null f j = (if j = JNull then Some None else map_option Some (f j))"

definition strings_json :: "string list \<Rightarrow> json" where
  "strings_json ss = JArr (map JStr ss)"

definition list_of :: "(json \<Rightarrow> 'a option) \<Rightarrow> json \<Rightarrow> 'a list option" where
  "list_of f j = do { vs \<leftarrow> json_array j; those (map f vs) }"

definition identity_json :: "event_identity \<Rightarrow> json" where
  "identity_json i = JObj
     [(''host'', JStr (id_host i)), (''model'', nullable (id_model i)), (''effort'', nullable (id_effort i))]"

definition json_identity :: "json \<Rightarrow> event_identity option" where
  "json_identity j =
     (if \<not> has_keys [''host'', ''model'', ''effort''] j then None
      else do {
        h \<leftarrow> read_field json_string ''host'' j;
        m \<leftarrow> read_field nullable_string ''model'' j;
        e \<leftarrow> read_field nullable_string ''effort'' j;
        Some \<lparr> id_host = h, id_model = m, id_effort = e \<rparr> })"

definition assignment_json :: "assignment \<Rightarrow> json" where
  "assignment_json a = JObj
     [(''phase'', enum_text step_texts (as_phase a)), (''role'', enum_text role_texts (as_role a)),
      (''model'', JStr (as_model a)), (''effort'', JStr (as_effort a))]"

definition json_assignment :: "json \<Rightarrow> assignment option" where
  "json_assignment j =
     (if \<not> has_keys [''phase'', ''role'', ''model'', ''effort''] j then None
      else do {
        p \<leftarrow> read_field (enum_of step_texts) ''phase'' j;
        r \<leftarrow> read_field (enum_of role_texts) ''role'' j;
        m \<leftarrow> read_field json_string ''model'' j;
        e \<leftarrow> read_field json_string ''effort'' j;
        Some \<lparr> as_phase = p, as_role = r, as_model = m, as_effort = e \<rparr> })"

definition limits_json :: "run_limits \<Rightarrow> json" where
  "limits_json l = JObj
     [(''acceptanceAttemptCeiling'', JNum (rl_acceptanceAttemptCeiling l)),
      (''tokenCeiling'', optional JNum (rl_tokenCeiling l))]"

definition json_limits :: "json \<Rightarrow> run_limits option" where
  "json_limits j =
     (if \<not> has_keys [''acceptanceAttemptCeiling'', ''tokenCeiling''] j then None
      else do {
        a \<leftarrow> read_field json_number ''acceptanceAttemptCeiling'' j;
        t \<leftarrow> read_field (or_null json_number) ''tokenCeiling'' j;
        Some \<lparr> rl_acceptanceAttemptCeiling = a, rl_tokenCeiling = t \<rparr> })"

definition attempt_json :: "attempt \<Rightarrow> json" where
  "attempt_json a = JObj [(''criterionId'', JStr (at_criterionId a)), (''attempt'', JNum (at_attempt a))]"

definition json_attempt :: "json \<Rightarrow> attempt option" where
  "json_attempt j =
     (if \<not> has_keys [''criterionId'', ''attempt''] j then None
      else do {
        c \<leftarrow> read_field json_string ''criterionId'' j;
        n \<leftarrow> read_field json_number ''attempt'' j;
        Some \<lparr> at_criterionId = c, at_attempt = n \<rparr> })"

definition stop_json :: "repair_stop \<Rightarrow> json" where
  "stop_json s = JObj
     [(''criterionId'', JStr (at_criterionId s)), (''attempt'', JNum (at_attempt s)),
      (''classification'', enum_text fault_texts (rs_classification s)),
      (''artifactRef'', JStr (rs_artifactRef s)), (''artifactDigest'', JStr (rs_artifactDigest s))]"

definition json_stop :: "json \<Rightarrow> repair_stop option" where
  "json_stop j =
     (if \<not> has_keys [''criterionId'', ''attempt'', ''classification'', ''artifactRef'', ''artifactDigest''] j then None
      else do {
        c \<leftarrow> read_field json_string ''criterionId'' j;
        n \<leftarrow> read_field json_number ''attempt'' j;
        f \<leftarrow> read_field (enum_of fault_texts) ''classification'' j;
        r \<leftarrow> read_field json_string ''artifactRef'' j;
        d \<leftarrow> read_field json_string ''artifactDigest'' j;
        Some \<lparr> at_criterionId = c, at_attempt = n, rs_classification = f, rs_artifactRef = r, rs_artifactDigest = d \<rparr> })"

definition decision_json :: "acceptance_decision \<Rightarrow> json" where
  "decision_json d = JObj
     [(''outcome'', enum_text outcome_texts (ad_outcome d)),
      (''attempts'', JArr (map attempt_json (ad_attempts d))),
      (''repairStops'', JArr (map stop_json (ad_repairStops d)))]"

definition json_decision :: "json \<Rightarrow> acceptance_decision option" where
  "json_decision j =
     (if \<not> has_keys [''outcome'', ''attempts'', ''repairStops''] j then None
      else do {
        v \<leftarrow> read_field (enum_of outcome_texts) ''outcome'' j;
        a \<leftarrow> read_field (list_of json_attempt) ''attempts'' j;
        s \<leftarrow> read_field (list_of json_stop) ''repairStops'' j;
        Some \<lparr> ad_outcome = v, ad_attempts = a, ad_repairStops = s \<rparr> })"

definition resolution_json :: "repair_resolution \<Rightarrow> json" where
  "resolution_json r = JObj
     [(''criterionId'', JStr (re_criterionId r)), (''classification'', enum_text fault_texts (re_classification r)),
      (''resolutionRef'', JStr (re_resolutionRef r)), (''resolutionDigest'', JStr (re_resolutionDigest r)),
      (''nextRunId'', nullable (re_nextRunId r)), (''restartTicketRef'', nullable (re_restartTicketRef r)),
      (''restartTicketDigest'', nullable (re_restartTicketDigest r))]"

definition json_resolution :: "json \<Rightarrow> repair_resolution option" where
  "json_resolution j =
     (if \<not> has_keys [''criterionId'', ''classification'', ''resolutionRef'', ''resolutionDigest'', ''nextRunId'',
           ''restartTicketRef'', ''restartTicketDigest''] j then None
      else do {
        c \<leftarrow> read_field json_string ''criterionId'' j;
        f \<leftarrow> read_field (enum_of fault_texts) ''classification'' j;
        r \<leftarrow> read_field json_string ''resolutionRef'' j;
        d \<leftarrow> read_field json_string ''resolutionDigest'' j;
        n \<leftarrow> read_field nullable_string ''nextRunId'' j;
        t \<leftarrow> read_field nullable_string ''restartTicketRef'' j;
        u \<leftarrow> read_field nullable_string ''restartTicketDigest'' j;
        Some \<lparr> re_criterionId = c, re_classification = f, re_resolutionRef = r, re_resolutionDigest = d,
          re_nextRunId = n, re_restartTicketRef = t, re_restartTicketDigest = u \<rparr> })"

definition restart_json :: "started_from_spec \<Rightarrow> json" where
  "restart_json r = JObj
     [(''sourceRunId'', JStr (sf_sourceRunId r)), (''restartTicketRef'', JStr (sf_restartTicketRef r)),
      (''restartTicketDigest'', JStr (sf_restartTicketDigest r)),
      (''retiredCriterionIds'', strings_json (sf_retiredCriterionIds r))]"

definition json_restart :: "json \<Rightarrow> started_from_spec option" where
  "json_restart j =
     (if \<not> has_keys [''sourceRunId'', ''restartTicketRef'', ''restartTicketDigest'', ''retiredCriterionIds''] j then None
      else do {
        s \<leftarrow> read_field json_string ''sourceRunId'' j;
        t \<leftarrow> read_field json_string ''restartTicketRef'' j;
        d \<leftarrow> read_field json_string ''restartTicketDigest'' j;
        c \<leftarrow> read_field (list_of json_string) ''retiredCriterionIds'' j;
        Some \<lparr> sf_sourceRunId = s, sf_restartTicketRef = t, sf_restartTicketDigest = d, sf_retiredCriterionIds = c \<rparr> })"

definition failure_json :: "gate_failure \<Rightarrow> json" where
  "failure_json f = JObj
     [(''gateId'', enum_text gate_texts (gf_gateId f)), (''reasonCode'', enum_text reason_texts (gf_reasonCode f)),
      (''mode'', enum_text mode_texts (gf_mode f)), (''priority'', JNum (gf_priority f)),
      (''evidenceRefs'', strings_json (gf_evidenceRefs f)), (''detail'', nullable (gf_detail f))]"

definition json_failure :: "json \<Rightarrow> gate_failure option" where
  "json_failure j =
     (if \<not> has_keys [''gateId'', ''reasonCode'', ''mode'', ''priority'', ''evidenceRefs'', ''detail''] j then None
      else do {
        g \<leftarrow> read_field (enum_of gate_texts) ''gateId'' j;
        r \<leftarrow> read_field (enum_of reason_texts) ''reasonCode'' j;
        m \<leftarrow> read_field (enum_of mode_texts) ''mode'' j;
        p \<leftarrow> read_field json_number ''priority'' j;
        e \<leftarrow> read_field (list_of json_string) ''evidenceRefs'' j;
        d \<leftarrow> read_field nullable_string ''detail'' j;
        Some \<lparr> gf_gateId = g, gf_reasonCode = r, gf_priority = p, gf_mode = m, gf_evidenceRefs = e, gf_detail = d \<rparr> })"

lemma nested_values [simp]:
  "normal (strings_json ss) = strings_json ss" "wf_json (strings_json ss)"
  "list_of json_string (strings_json ss) = Some ss"
  "normal (optional JNum n) = optional JNum n" "wf_json (optional JNum n)"
  "or_null json_number (optional JNum n) = Some n"
  by (auto simp: strings_json_def list_of_def optional_def or_null_def list_all_iff comp_def those_map [where g = id]
      split: option.splits)

lemma list_of_encoded:
  assumes "\<And>x. decode (normal (encode x)) = Some x"
  shows "list_of decode (normal (JArr (map encode xs))) = Some xs"
  using assms by (simp add: list_of_def those_map [where g = id] comp_def)

lemma encoded_list_wf: "(\<And>x. wf_json (encode x)) \<Longrightarrow> wf_json (JArr (map encode xs))"
  by (simp add: list_all_iff)

interpretation identity_codec: document_codec identity_json json_identity
  by unfold_locales (auto simp: identity_json_def json_identity_def reading simp del: normal.simps(2))

interpretation assignment_codec: document_codec assignment_json json_assignment
  by unfold_locales (auto simp: assignment_json_def json_assignment_def reading simp del: normal.simps(2))

interpretation limits_codec: document_codec limits_json json_limits
  by unfold_locales (auto simp: limits_json_def json_limits_def reading simp del: normal.simps(2))

interpretation attempt_codec: document_codec attempt_json json_attempt
  by unfold_locales (auto simp: attempt_json_def json_attempt_def reading simp del: normal.simps(2))

interpretation stop_codec: document_codec stop_json json_stop
  by unfold_locales (auto simp: stop_json_def json_stop_def reading simp del: normal.simps(2))

lemmas decision_members =
  list_of_encoded [where encode = attempt_json and decode = json_attempt, OF attempt_codec.decode_encode]
  list_of_encoded [where encode = stop_json and decode = json_stop, OF stop_codec.decode_encode]

interpretation decision_codec: document_codec decision_json json_decision
  by unfold_locales
     (auto simp: decision_json_def json_decision_def reading decision_members list_all_iff attempt_codec.encode_wf
        stop_codec.encode_wf simp del: normal.simps)

interpretation resolution_codec: document_codec resolution_json json_resolution
  by unfold_locales (auto simp: resolution_json_def json_resolution_def reading simp del: normal.simps(2))

interpretation restart_codec: document_codec restart_json json_restart
  by unfold_locales (auto simp: restart_json_def json_restart_def reading simp del: normal.simps(2))

interpretation failure_codec: document_codec failure_json json_failure
  by unfold_locales (auto simp: failure_json_def json_failure_def reading simp del: normal.simps(2))

section \<open>Events\<close>

definition draft_members :: "'a event_draft_scheme \<Rightarrow> (string \<times> json option) list" where
  "draft_members e =
     [(''contractVersion'', Some (enum_text contract_texts (ev_contractVersion e))),
      (''stateContract'', Some (enum_text contract_texts (ev_stateContract e))),
      (''eventId'', Some (JStr (ev_eventId e))),
      (''eventType'', Some (enum_text type_texts (ev_eventType e))),
      (''occurredAt'', Some (JStr (ev_occurredAt e))),
      (''operation'', Some (JStr (ev_operation e))),
      (''policyVersion'', Some (JStr (ev_policyVersion e))),
      (''priorRevision'', Some (JNum (ev_priorRevision e))),
      (''resultingRevision'', Some (JNum (ev_resultingRevision e))),
      (''reasonCode'', Some (JStr (ev_reasonCode e))),
      (''effect'', Some (enum_text effect_texts (ev_effect e))),
      (''artifactRefs'', Some (strings_json (ev_artifactRefs e))),
      (''evidenceRefs'', Some (strings_json (ev_evidenceRefs e))),
      (''observedIdentity'', Some (identity_json (ev_observedIdentity e))),
      (''gateFailures'', map_option (\<lambda>fs. JArr (map failure_json fs)) (ev_gateFailures e)),
      (''resolvedAssignment'', map_option assignment_json (ev_resolvedAssignment e)),
      (''runLimits'', map_option limits_json (ev_runLimits e)),
      (''acceptanceDecision'', map_option decision_json (ev_acceptanceDecision e)),
      (''repairResolution'', map_option resolution_json (ev_repairResolution e)),
      (''startedFromSpec'', map_option restart_json (ev_startedFromSpec e))]"

definition unsigned_members :: "event \<Rightarrow> (string \<times> json option) list" where
  "unsigned_members e = (''previousHash'', Some (nullable (ev_previousHash e))) # draft_members e"

text \<open>\<open>unsignedEvent\<close> of \<open>seal.ts\<close>: the event without its own hash.\<close>

definition unsignedEvent :: "event \<Rightarrow> json" where
  "unsignedEvent e = json_object (unsigned_members e)"

definition event_json :: "event \<Rightarrow> json" where
  "event_json e = json_object ((''eventHash'', Some (JStr (ev_eventHash e))) # unsigned_members e)"

definition EVENT_KEYS :: "string list" where
  "EVENT_KEYS =
     [''contractVersion'', ''stateContract'', ''eventId'', ''eventType'', ''occurredAt'', ''operation'',
      ''policyVersion'', ''priorRevision'', ''resultingRevision'', ''reasonCode'', ''effect'', ''artifactRefs'',
      ''evidenceRefs'', ''observedIdentity'', ''gateFailures'', ''resolvedAssignment'', ''runLimits'',
      ''acceptanceDecision'', ''repairResolution'', ''startedFromSpec'']"

definition json_draft :: "json \<Rightarrow> event_draft option" where
  "json_draft j = do {
     cv \<leftarrow> read_field (enum_of contract_texts) ''contractVersion'' j;
     sc \<leftarrow> read_field (enum_of contract_texts) ''stateContract'' j;
     i \<leftarrow> read_field json_string ''eventId'' j;
     ty \<leftarrow> read_field (enum_of type_texts) ''eventType'' j;
     at \<leftarrow> read_field json_string ''occurredAt'' j;
     operation \<leftarrow> read_field json_string ''operation'' j;
     policy \<leftarrow> read_field json_string ''policyVersion'' j;
     prior \<leftarrow> read_field json_number ''priorRevision'' j;
     resulting \<leftarrow> read_field json_number ''resultingRevision'' j;
     reason \<leftarrow> read_field json_string ''reasonCode'' j;
     effect \<leftarrow> read_field (enum_of effect_texts) ''effect'' j;
     artifacts \<leftarrow> read_field (list_of json_string) ''artifactRefs'' j;
     evidence \<leftarrow> read_field (list_of json_string) ''evidenceRefs'' j;
     identity \<leftarrow> read_field json_identity ''observedIdentity'' j;
     failures \<leftarrow> read_optional (list_of json_failure) ''gateFailures'' j;
     assigned \<leftarrow> read_optional json_assignment ''resolvedAssignment'' j;
     limits \<leftarrow> read_optional json_limits ''runLimits'' j;
     decision \<leftarrow> read_optional json_decision ''acceptanceDecision'' j;
     resolution \<leftarrow> read_optional json_resolution ''repairResolution'' j;
     restart \<leftarrow> read_optional json_restart ''startedFromSpec'' j;
     Some \<lparr> ev_contractVersion = cv, ev_stateContract = sc, ev_eventId = i, ev_eventType = ty, ev_occurredAt = at,
       ev_operation = operation, ev_policyVersion = policy, ev_priorRevision = prior, ev_resultingRevision = resulting,
       ev_reasonCode = reason, ev_effect = effect, ev_artifactRefs = artifacts, ev_evidenceRefs = evidence,
       ev_observedIdentity = identity, ev_gateFailures = failures, ev_resolvedAssignment = assigned,
       ev_runLimits = limits, ev_acceptanceDecision = decision, ev_repairResolution = resolution,
       ev_startedFromSpec = restart \<rparr> }"

definition json_event :: "json \<Rightarrow> event option" where
  "json_event j =
     (if \<not> only_keys (''eventHash'' # ''previousHash'' # EVENT_KEYS) j then None
      else do {
        d \<leftarrow> json_draft j;
        p \<leftarrow> read_field nullable_string ''previousHash'' j;
        h \<leftarrow> read_field json_string ''eventHash'' j;
        Some (event_draft.extend d (event.fields p h)) })"

lemma draft_member_keys: "map fst (draft_members e) = EVENT_KEYS"
  by (simp add: draft_members_def EVENT_KEYS_def)

lemma event_keys_distinct: "distinct (''eventHash'' # ''previousHash'' # EVENT_KEYS)"
  unfolding EVENT_KEYS_def by code_simp

lemma members_distinct:
  "distinct (map fst ((''eventHash'', x) # unsigned_members e))" "distinct (map fst (unsigned_members e))"
  using event_keys_distinct by (auto simp: unsigned_members_def draft_member_keys)

lemma draft_members_wf: "\<forall>(k, v) \<in> set (draft_members e). \<forall>x. v = Some x \<longrightarrow> wf_json x"
  by (auto simp: draft_members_def identity_codec.encode_wf assignment_codec.encode_wf limits_codec.encode_wf
      decision_codec.encode_wf resolution_codec.encode_wf restart_codec.encode_wf failure_codec.encode_wf list_all_iff)

lemma unsigned_wf [simp]: "wf_json (unsignedEvent e)"
  unfolding unsignedEvent_def
  by (rule object_wf [OF members_distinct(2)]) (use draft_members_wf [of e] in \<open>auto simp: unsigned_members_def\<close>)

lemma event_wf [simp]: "wf_json (event_json e)"
  unfolding event_json_def
  by (rule object_wf [OF members_distinct(1)]) (use draft_members_wf [of e] in \<open>auto simp: unsigned_members_def\<close>)

lemmas nested_decode =
  identity_codec.decode_encode assignment_codec.decode_encode limits_codec.decode_encode decision_codec.decode_encode
  resolution_codec.decode_encode restart_codec.decode_encode
  list_of_encoded [where encode = failure_json and decode = json_failure, OF failure_codec.decode_encode]

lemma map_of_right:
  assumes "distinct (map fst (hs @ ms))" "map_of ms k = Some v"
  shows "map_of (hs @ ms) k = Some v"
  using map_of_SomeD [OF assms(2)] by (intro map_of_is_SomeI [OF assms(1)]) simp

lemma read_member:
  assumes "distinct (map fst (hs @ ms))" "map_of ms k = Some (Some v)"
  shows "read_field f k (normal (json_object (hs @ ms))) = f (normal v)"
  by (simp only: read_field_def field_of_object [OF assms(1)] map_of_right [OF assms]) simp

lemma read_optional_member:
  assumes "distinct (map fst (hs @ ms))" "map_of ms k = Some (map_option enc v)" "\<And>x. f (normal (enc x)) = Some x"
  shows "read_optional f k (normal (json_object (hs @ ms))) = Some v"
  by (simp only: read_optional_def field_of_object [OF assms(1)] map_of_right [OF assms(1,2)])
    (cases v; simp add: assms(3))

lemma draft_member:
  "map_of (draft_members e) ''contractVersion'' = Some (Some (enum_text contract_texts (ev_contractVersion e)))"
  "map_of (draft_members e) ''stateContract'' = Some (Some (enum_text contract_texts (ev_stateContract e)))"
  "map_of (draft_members e) ''eventId'' = Some (Some (JStr (ev_eventId e)))"
  "map_of (draft_members e) ''eventType'' = Some (Some (enum_text type_texts (ev_eventType e)))"
  "map_of (draft_members e) ''occurredAt'' = Some (Some (JStr (ev_occurredAt e)))"
  "map_of (draft_members e) ''operation'' = Some (Some (JStr (ev_operation e)))"
  "map_of (draft_members e) ''policyVersion'' = Some (Some (JStr (ev_policyVersion e)))"
  "map_of (draft_members e) ''priorRevision'' = Some (Some (JNum (ev_priorRevision e)))"
  "map_of (draft_members e) ''resultingRevision'' = Some (Some (JNum (ev_resultingRevision e)))"
  "map_of (draft_members e) ''reasonCode'' = Some (Some (JStr (ev_reasonCode e)))"
  "map_of (draft_members e) ''effect'' = Some (Some (enum_text effect_texts (ev_effect e)))"
  "map_of (draft_members e) ''artifactRefs'' = Some (Some (strings_json (ev_artifactRefs e)))"
  "map_of (draft_members e) ''evidenceRefs'' = Some (Some (strings_json (ev_evidenceRefs e)))"
  "map_of (draft_members e) ''observedIdentity'' = Some (Some (identity_json (ev_observedIdentity e)))"
  "map_of (draft_members e) ''gateFailures'' = Some (map_option (\<lambda>fs. JArr (map failure_json fs)) (ev_gateFailures e))"
  "map_of (draft_members e) ''resolvedAssignment'' = Some (map_option assignment_json (ev_resolvedAssignment e))"
  "map_of (draft_members e) ''runLimits'' = Some (map_option limits_json (ev_runLimits e))"
  "map_of (draft_members e) ''acceptanceDecision'' = Some (map_option decision_json (ev_acceptanceDecision e))"
  "map_of (draft_members e) ''repairResolution'' = Some (map_option resolution_json (ev_repairResolution e))"
  "map_of (draft_members e) ''startedFromSpec'' = Some (map_option restart_json (ev_startedFromSpec e))"
  by (simp_all add: draft_members_def)

lemma draft_read:
  fixes e :: "'a event_draft_scheme"
  assumes "distinct (map fst (hs @ draft_members e))"
  shows "json_draft (normal (json_object (hs @ draft_members e))) = Some (event_draft.truncate e)"
proof -
  let ?j = "normal (json_object (hs @ draft_members e))"
  have "read_optional (list_of json_failure) ''gateFailures'' ?j = Some (ev_gateFailures e)"
    "read_optional json_assignment ''resolvedAssignment'' ?j = Some (ev_resolvedAssignment e)"
    "read_optional json_limits ''runLimits'' ?j = Some (ev_runLimits e)"
    "read_optional json_decision ''acceptanceDecision'' ?j = Some (ev_acceptanceDecision e)"
    "read_optional json_resolution ''repairResolution'' ?j = Some (ev_repairResolution e)"
    "read_optional json_restart ''startedFromSpec'' ?j = Some (ev_startedFromSpec e)"
    by (rule read_optional_member [OF assms], rule draft_member, rule nested_decode)+
  then show ?thesis
    by (simp add: json_draft_def read_member [OF assms] draft_member nested_decode
        event_draft.truncate_def del: normal.simps(2))
qed

lemma event_members: "event_json e =
    json_object ([(''eventHash'', Some (JStr (ev_eventHash e))), (''previousHash'', Some (nullable (ev_previousHash e)))]
      @ draft_members e)"
  by (simp add: event_json_def unsigned_members_def)

lemma unsigned_members_eq: "unsignedEvent e =
    json_object ([(''previousHash'', Some (nullable (ev_previousHash e)))] @ draft_members e)"
  by (simp add: unsignedEvent_def unsigned_members_def)

lemma head_distinct:
  "distinct (map fst ([(''eventHash'', x), (''previousHash'', y)] @ draft_members e))"
  "distinct (map fst ([(''previousHash'', y)] @ draft_members e))"
  using event_keys_distinct by (auto simp: draft_member_keys)

lemma read_head:
  "read_field f ''previousHash'' (normal (event_json e)) = f (nullable (ev_previousHash e))"
  "read_field f ''eventHash'' (normal (event_json e)) = f (JStr (ev_eventHash e))"
  "read_field f ''previousHash'' (normal (unsignedEvent e)) = f (nullable (ev_previousHash e))"
  by (simp_all add: read_field_def event_members unsigned_members_eq field_of_object [OF head_distinct(1)]
      field_of_object [OF head_distinct(2)] del: append_Cons append_Nil)

lemma event_read: "json_event (normal (event_json e)) = Some e"
proof -
  have "only_keys (''eventHash'' # ''previousHash'' # EVENT_KEYS) (normal (event_json e))"
    unfolding event_members by (rule only_keys_object) (auto simp: draft_member_keys)
  moreover have "json_draft (normal (event_json e)) = Some (event_draft.truncate e)"
    unfolding event_members by (rule draft_read [OF head_distinct(1)])
  ultimately show ?thesis by (simp add: json_event_def read_head event.defs event_draft.defs)
qed

text \<open>The text that is hashed determines everything the hash stands for.\<close>

lemma unsigned_identifies:
  assumes "canonicalizeJson (unsignedEvent e) = canonicalizeJson (unsignedEvent f)"
  shows "event_draft.truncate e = event_draft.truncate f" "ev_previousHash e = ev_previousHash f"
proof -
  have n: "normal (unsignedEvent e) = normal (unsignedEvent f)"
    using assms json_parse_canonical [OF unsigned_wf [of e]] json_parse_canonical [OF unsigned_wf [of f]] by simp
  have "json_draft (normal (unsignedEvent g)) = Some (event_draft.truncate g)" for g :: event
    unfolding unsigned_members_eq by (rule draft_read [OF head_distinct(2)])
  with n show "event_draft.truncate e = event_draft.truncate f" by (metis option.inject)
  have "nullable_string (nullable (ev_previousHash e)) = nullable_string (nullable (ev_previousHash f))"
    using read_head(3) [of nullable_string e] read_head(3) [of nullable_string f] n by simp
  then show "ev_previousHash e = ev_previousHash f" by simp
qed

interpretation event_codec: document_codec event_json json_event
  by unfold_locales (rule event_wf, rule event_read)

end
