(* ===== verification/Event_Chain.thy ===== *)
theory Event_Chain
  imports Event_Codec
begin

text \<open>
  The hash chain of the event log: sealing a draft (\<open>domain/events/seal.ts\<close> and
  \<open>snapshotEventDraft\<close> of \<open>redaction.ts\<close>), reading lines back with their limits
  (\<open>parse.ts\<close>) and verifying a whole stream (\<open>verify.ts\<close>). SHA-256 and the schema
  validator are parameters: \<open>es_validate\<close> takes the contract, the version asked for and a
  value, and gives the diagnostics, \<^const>\<open>None\<close> when the value is valid.
\<close>

section \<open>Services and errors\<close>

datatype contract_failure = State_version_invalid | State_version_unsupported

text \<open>\<open>EventIntegrityError\<close>: its kind and its reason code.\<close>

type_synonym integrity_error = "event_integrity \<times> contract_failure option"

text \<open>A diagnostic, as far as the event log looks at it.\<close>

record diagnostic =
  dg_keyword :: string
  dg_reasonCode :: string

record event_services =
  es_sha256 :: "string \<Rightarrow> string"
  es_validate :: "string \<Rightarrow> json option \<Rightarrow> json \<Rightarrow> diagnostic list option"

definition contractFailure :: "string \<Rightarrow> contract_failure option" where
  "contractFailure reasonCode =
     (if reasonCode = ''contract.state_version_invalid'' then Some State_version_invalid
      else if reasonCode = ''contract.state_version_unsupported'' then Some State_version_unsupported else None)"

section \<open>Sealing\<close>

definition MAX_REFERENCE_COUNT :: nat where "MAX_REFERENCE_COUNT = 256"

definition copyReferences :: "nat \<Rightarrow> 'a list \<Rightarrow> bool" where
  "copyReferences maxCount refs \<longleftrightarrow> length refs \<le> maxCount"

definition copyGateFailure :: "gate_failure \<Rightarrow> bool" where
  "copyGateFailure f \<longleftrightarrow> isSafeInteger (gf_priority f) \<and> copyReferences 16 (gf_evidenceRefs f)"

definition copyGateFailures :: "gate_failure list option \<Rightarrow> bool" where
  "copyGateFailures v \<longleftrightarrow>
     (case v of None \<Rightarrow> False | Some fs \<Rightarrow> length fs \<le> length GATE_IDS \<and> list_all copyGateFailure fs)"

definition copyRunLimits :: "run_limits \<Rightarrow> bool" where
  "copyRunLimits l \<longleftrightarrow> isSafeInteger (rl_acceptanceAttemptCeiling l)"

definition copyAcceptanceDecision :: "acceptance_decision \<Rightarrow> bool" where
  "copyAcceptanceDecision d \<longleftrightarrow>
     copyReferences MAX_REFERENCE_COUNT (ad_attempts d) \<and> list_all (\<lambda>a. isSafeInteger (at_attempt a)) (ad_attempts d) \<and>
     copyReferences MAX_REFERENCE_COUNT (ad_repairStops d) \<and>
     list_all (\<lambda>s. isSafeInteger (at_attempt s)) (ad_repairStops d)"

definition copyStartedFromSpec :: "started_from_spec \<Rightarrow> bool" where
  "copyStartedFromSpec r \<longleftrightarrow>
     copyReferences MAX_REFERENCE_COUNT (sf_retiredCriterionIds r) \<and> sf_retiredCriterionIds r \<noteq> []"

definition where_present :: "('a \<Rightarrow> bool) \<Rightarrow> 'a option \<Rightarrow> bool" where
  "where_present p v = (case v of None \<Rightarrow> True | Some x \<Rightarrow> p x)"

text \<open>
  A draft of the contract's type already has plain records and exactly their properties;
  the copies refuse unsafe integers, too many entries and a draft without gate failures.
\<close>

definition snapshotEventDraft :: "event_draft \<Rightarrow> (integrity_error, event_draft) result" where
  "snapshotEventDraft draft =
     (if where_present copyRunLimits (ev_runLimits draft) \<and>
         where_present copyAcceptanceDecision (ev_acceptanceDecision draft) \<and>
         where_present copyStartedFromSpec (ev_startedFromSpec draft) \<and>
         isSafeInteger (ev_priorRevision draft) \<and> isSafeInteger (ev_resultingRevision draft) \<and>
         copyReferences MAX_REFERENCE_COUNT (ev_artifactRefs draft) \<and>
         copyReferences MAX_REFERENCE_COUNT (ev_evidenceRefs draft) \<and>
         copyGateFailures (ev_gateFailures draft) \<and>
         assertEventSemanticPolicy draft
      then Inr draft else Inl (Invalid_event, None))"

definition contract_value :: "contract_version \<Rightarrow> json option" where
  "contract_value v = Some (enum_text contract_texts v)"

definition with_hashes :: "event_draft \<Rightarrow> string option \<Rightarrow> string \<Rightarrow> event" where
  "with_hashes draft previous hash = event_draft.extend draft (event.fields previous hash)"

definition seal_hash :: "(string \<Rightarrow> string) \<Rightarrow> event \<Rightarrow> string" where
  "seal_hash sha256 e = sha256 (canonicalizeJson (unsignedEvent e))"

definition sealEvent ::
  "event_services \<Rightarrow> event_draft \<Rightarrow> event_cursor \<Rightarrow> (integrity_error, event) result" where
  "sealEvent sv draft cursor = bind_result (snapshotEventDraft draft) (\<lambda>draft.
     if ev_priorRevision draft \<noteq> cu_revision cursor \<or> ev_resultingRevision draft \<noteq> cu_revision cursor + 1 \<or>
        (cu_revision cursor = 0) \<noteq> (cu_hash cursor = None)
     then Inl (Invalid_sequence, None)
     else let unsigned = with_hashes draft (cu_hash cursor) [];
              event = with_hashes draft (cu_hash cursor) (seal_hash (es_sha256 sv) unsigned)
          in case es_validate sv ''state.event'' (contract_value (ev_stateContract event)) (event_json event) of
               Some diagnostics \<Rightarrow> Inl (Invalid_event, None)
             | None \<Rightarrow> Inr event)"

section \<open>Parsing\<close>

definition EVENT_RECORD_BYTES :: int where "EVENT_RECORD_BYTES = 64 * 1024"

definition EVENT_STREAM_BYTES :: int where "EVENT_STREAM_BYTES = 64 * 1024 * 1024"

definition EVENT_STREAM_COUNT :: nat where "EVENT_STREAM_COUNT = 100000"

definition contractVersion :: "json \<Rightarrow> json option" where
  "contractVersion v = json_field ''stateContract'' v"

definition version_reason :: "diagnostic list \<Rightarrow> contract_failure option" where
  "version_reason diagnostics =
     Option.bind (find (\<lambda>r. r \<noteq> None)
       (map (\<lambda>d. contractFailure (dg_reasonCode d)) (filter (\<lambda>d. dg_keyword d = ''version'') diagnostics))) id"

text \<open>A value the validator calls valid is an event of the contract's type.\<close>

definition validateEvent :: "event_services \<Rightarrow> json \<Rightarrow> (integrity_error, event) result" where
  "validateEvent sv v =
     (case es_validate sv ''state.event'' (contractVersion v) v of
        Some diagnostics \<Rightarrow> Inl (Invalid_event, version_reason diagnostics)
      | None \<Rightarrow>
          (case json_event v of
             None \<Rightarrow> Inl (Invalid_event, None)
           | Some e \<Rightarrow> if assertEventSemanticPolicy e then Inr e else Inl (Invalid_event, None)))"

definition parseEventLine :: "event_services \<Rightarrow> string \<Rightarrow> (integrity_error, event) result" where
  "parseEventLine sv line =
     (if utf8_length line > EVENT_RECORD_BYTES then Inl (Resource_limit, None)
      else case json_parse line of
        None \<Rightarrow> Inl (Invalid_event, None)
      | Some parsed \<Rightarrow> bind_result (validateEvent sv parsed) (\<lambda>e.
          if canonicalizeJson (event_json e) \<noteq> line then Inl (Non_canonical, None) else Inr e))"

fun parse_each :: "event_services \<Rightarrow> string list \<Rightarrow> (integrity_error, event list) result" where
  "parse_each sv [] = Inr []"
| "parse_each sv (line # lines) = bind_result (parseEventLine sv line) (\<lambda>e.
     bind_result (parse_each sv lines) (\<lambda>es. Inr (e # es)))"

definition LF :: char where "LF = CHR 0x0A"

definition CR :: char where "CR = CHR 0x0D"

definition parseEventLines :: "event_services \<Rightarrow> string \<Rightarrow> (integrity_error, event list) result" where
  "parseEventLines sv text =
     (if utf8_length text > EVENT_STREAM_BYTES then Inl (Resource_limit, None)
      else if text = [] then Inr []
      else if CR \<in> set text \<or> last text \<noteq> LF then Inl (Non_canonical, None)
      else let lines = butlast (split_on LF text)
           in if length lines > EVENT_STREAM_COUNT then Inl (Resource_limit, None)
              else if [] \<in> set lines then Inl (Non_canonical, None)
              else parse_each sv lines)"

section \<open>Verification\<close>

record verified_stream =
  vs_events :: "event list"
  vs_cursor :: event_cursor
  vs_canonical :: string

definition first_cursor :: event_cursor where
  "first_cursor = \<lparr> cu_revision = 0, cu_hash = None \<rparr>"

definition cursor_after :: "event \<Rightarrow> event_cursor" where
  "cursor_after e = \<lparr> cu_revision = ev_resultingRevision e, cu_hash = Some (ev_eventHash e) \<rparr>"

definition check_link :: "event_services \<Rightarrow> event_cursor \<Rightarrow> event \<Rightarrow> (integrity_error, event_cursor) result" where
  "check_link sv cursor e =
     (if ev_priorRevision e \<noteq> cu_revision cursor \<or> ev_resultingRevision e \<noteq> cu_revision cursor + 1 \<or>
         ev_previousHash e \<noteq> cu_hash cursor
      then Inl (Invalid_sequence, None)
      else if ev_eventHash e \<noteq> seal_hash (es_sha256 sv) e then Inl (Invalid_event, None)
      else Inr (cursor_after e))"

definition verifyEventStream :: "event_services \<Rightarrow> string \<Rightarrow> (integrity_error, verified_stream) result" where
  "verifyEventStream sv text = bind_result (parseEventLines sv text) (\<lambda>events.
     bind_result (replay_from (check_link sv) first_cursor events) (\<lambda>cursor.
       Inr \<lparr> vs_events = events, vs_cursor = cursor, vs_canonical = text \<rparr>))"

section \<open>Canonical text has no control characters\<close>

definition printable :: "string \<Rightarrow> bool" where
  "printable s \<longleftrightarrow> (\<forall>c \<in> set s. 32 \<le> code_unit c)"

lemma printable_simps [simp]:
  "printable []" "printable (c # s) \<longleftrightarrow> 32 \<le> code_unit c \<and> printable s"
  "printable (s @ t) \<longleftrightarrow> printable s \<and> printable t"
  by (auto simp: printable_def)

lemma printable_join: "32 \<le> code_unit d \<Longrightarrow> \<forall>s \<in> set ss. printable s \<Longrightarrow> printable (join_with d ss)"
  by (induction d ss rule: join_with.induct) auto

lemma printable_hex: "n < 256 \<Longrightarrow> printable (pad_start 4 (hex_text n))"
  using pad_hex [of n 4] hex_digit_code [of "n div 16"] hex_digit_code [of "n mod 16"]
  by (auto simp: printable_def code_unit_def split: if_splits)

lemma printable_escape: "printable (escape_char c)"
proof (cases "map_of short_escapes c")
  case None
  have "printable (CHR ''u'' # pad_start 4 (hex_text (code_unit c)))" using printable_hex [OF code_unit_less] by (simp add: code_unit_def)
  with None show ?thesis by (simp add: escape_char_def BACKSLASH_def code_unit_def)
next
  case (Some e)
  then have "(c, e) \<in> set short_escapes" by (rule map_of_SomeD)
  then have "32 \<le> code_unit e" by (auto simp: short_escapes_def code_unit_def)
  with Some show ?thesis by (simp add: escape_char_def BACKSLASH_def code_unit_def)
qed

lemma printable_quote [simp]: "printable (quote s)"
  using printable_escape by (auto simp: quote_def printable_def QUOTE_def code_unit_def)

lemma printable_int [simp]: "printable (int_text n)"
proof -
  have "printable (nat_text m)" for m
    using nat_text_digits [of m] by (auto simp: printable_def is_digit_def)
  then show ?thesis by (simp add: int_text_def code_unit_def)
qed

lemma canonical_printable: "printable (canonicalizeJson v)"
proof (induction v rule: json_induct)
  case (Arr vs)
  then have "printable (join_with (CHR '','') (map canonicalizeJson vs))"
    by (intro printable_join) (auto simp: code_unit_def)
  then show ?case by (simp add: code_unit_def)
next
  case (Obj ps)
  have "printable (quote k @ CHR '':'' # canonicalizeJson (the (map_of ps k)))" if "k \<in> fst ` set ps" for k
  proof -
    from that obtain v where v: "map_of ps k = Some v" by (cases "map_of ps k") (auto simp: map_of_eq_None_iff)
    with Obj map_of_SomeD [OF v] show ?thesis by (simp add: code_unit_def)
  qed
  then have "printable (join_with (CHR '','') (map (\<lambda>(k, v). quote k @ CHR '':'' # canonicalizeJson v) (in_key_order ps)))"
    by (intro printable_join) (auto simp: code_unit_def in_key_order_def)
  then show ?case by (simp add: canonicalize_object code_unit_def del: canonicalizeJson.simps)
qed (simp_all add: code_unit_def)

lemma canonical_no_break: "LF \<notin> set (canonicalizeJson v)" "CR \<notin> set (canonicalizeJson v)"
  using canonical_printable [of v] by (auto simp: printable_def LF_def CR_def code_unit_def)

section \<open>What the parser accepts\<close>

definition line_text :: "event \<Rightarrow> string" where
  "line_text e = canonicalizeJson (event_json e)"

definition log_text :: "event list \<Rightarrow> string" where
  "log_text es = concat (map (\<lambda>e. line_text e @ [LF]) es)"

text \<open>An event a line of the log may hold.\<close>

definition storable :: "event_services \<Rightarrow> event \<Rightarrow> bool" where
  "storable sv e \<longleftrightarrow>
     utf8_length (line_text e) \<le> EVENT_RECORD_BYTES \<and>
     es_validate sv ''state.event'' (contract_value (ev_stateContract e)) (normal (event_json e)) = None \<and>
     assertEventSemanticPolicy e"

lemma log_text_simps [simp]:
  "log_text [] = []" "log_text (e # es) = line_text e @ LF # log_text es" "log_text (es @ fs) = log_text es @ log_text fs"
  by (simp_all add: log_text_def)

lemma line_text_free: "LF \<notin> set (line_text e)" "CR \<notin> set (line_text e)"
  by (simp_all add: line_text_def canonical_no_break)

lemma line_text_nonempty: "line_text e \<noteq> []"
  by (simp add: line_text_def event_json_def json_object_def canonicalize_object del: canonicalizeJson.simps)

lemma line_text_inject: "line_text e = line_text f \<longleftrightarrow> e = f"
  by (simp add: line_text_def event_codec.canonical_identifies)

lemma contractVersion_event: "contractVersion (normal (event_json e)) = contract_value (ev_stateContract e)"
proof -
  have "read_field Some ''stateContract'' (normal (event_json e)) = Some (normal (enum_text contract_texts (ev_stateContract e)))"
    unfolding event_members by (rule read_member [OF head_distinct(1) draft_member(2)])
  then show ?thesis by (simp add: read_field_def contractVersion_def contract_value_def)
qed

lemma parseEventLine_Inr: "parseEventLine sv line = Inr e \<longleftrightarrow> line = line_text e \<and> storable sv e"
proof
  assume a: "parseEventLine sv line = Inr e"
  have u: "utf8_length line \<le> EVENT_RECORD_BYTES"
    using a by (simp add: parseEventLine_def not_less split: if_splits)
  obtain v where v: "json_parse line = Some v" using a u by (cases "json_parse line") (simp_all add: parseEventLine_def)
  obtain f where f: "validateEvent sv v = Inr f" using a u v by (cases "validateEvent sv v") (simp_all add: parseEventLine_def)
  have l: "line_text f = line" "f = e"
    using a u v f by (simp_all add: parseEventLine_def line_text_def split: if_splits)
  have v: "v = normal (event_json e)"
    using v json_parse_canonical [OF event_wf [of e]] l by (simp add: line_text_def)
  have "es_validate sv ''state.event'' (contract_value (ev_stateContract e)) v = None \<and> assertEventSemanticPolicy e"
    using f l(2) v
    by (auto simp: validateEvent_def contractVersion_event event_codec.decode_encode split: option.splits if_splits)
  with u l v show "line = line_text e \<and> storable sv e" by (simp add: storable_def)
next
  assume a: "line = line_text e \<and> storable sv e"
  then have "validateEvent sv (normal (event_json e)) = Inr e"
    by (simp add: validateEvent_def storable_def contractVersion_event event_codec.decode_encode)
  with a show "parseEventLine sv line = Inr e"
    using json_parse_canonical [OF event_wf [of e]] by (simp add: parseEventLine_def storable_def line_text_def)
qed

lemma parse_each_Inr: "parse_each sv ls = Inr es \<longleftrightarrow> ls = map line_text es \<and> list_all (storable sv) es"
proof (induction ls arbitrary: es)
  case (Cons l ls)
  show ?case by (cases es) (auto simp: parseEventLine_Inr Cons)
qed (auto simp: list_all_iff)

lemma split_log: "split_on LF (log_text es) = map line_text es @ [[]]"
  by (induction es) (simp_all add: split_on_append_sep line_text_free)

lemma log_text_Nil [simp]: "log_text es = [] \<longleftrightarrow> es = []"
  by (cases es) auto

lemma log_text_last: "es \<noteq> [] \<Longrightarrow> last (log_text es) = LF"
  by (induction es) auto

lemma log_text_lines: "log_text es = join_with LF (map line_text es @ [[]])"
  using join_split_on [of LF "log_text es"] by (simp add: split_log)

lemma split_on_empty: "split_on c s = [[]] \<longleftrightarrow> s = []"
  using join_split_on [of c s] by auto

lemma split_terminated: "last s = c \<Longrightarrow> s \<noteq> [] \<Longrightarrow> last (split_on c s) = []"
proof (induction s)
  case (Cons x s)
  then show ?case using split_on_empty [of c s] by (cases "s = []") (auto split: list.splits)
qed simp

lemma CR_LF [simp]: "CR \<noteq> LF"
  by (simp add: LF_def CR_def)

lemma log_no_CR: "CR \<notin> set (log_text es)"
  by (induction es) (auto simp: line_text_free)

definition log_fits :: "event list \<Rightarrow> bool" where
  "log_fits es \<longleftrightarrow> utf8_length (log_text es) \<le> EVENT_STREAM_BYTES \<and> length es \<le> EVENT_STREAM_COUNT"

lemma parseEventLines_Inr:
  "parseEventLines sv t = Inr es \<longleftrightarrow> t = log_text es \<and> log_fits es \<and> list_all (storable sv) es"
proof
  assume a: "parseEventLines sv t = Inr es"
  show "t = log_text es \<and> log_fits es \<and> list_all (storable sv) es"
  proof (cases "t = []")
    case True
    with a show ?thesis by (auto simp: parseEventLines_def log_fits_def EVENT_STREAM_BYTES_def utf8_length_def)
  next
    case False
    with a have e: "parse_each sv (butlast (split_on LF t)) = Inr es" and l: "last t = LF"
      and c: "length (butlast (split_on LF t)) \<le> EVENT_STREAM_COUNT" and u: "utf8_length t \<le> EVENT_STREAM_BYTES"
      by (auto simp: parseEventLines_def Let_def split: if_splits)
    from e have b: "butlast (split_on LF t) = map line_text es" and s: "list_all (storable sv) es"
      by (simp_all add: parse_each_Inr)
    have "split_on LF t = map line_text es @ [[]]"
      using split_terminated [OF l False] b append_butlast_last_id [OF split_on_nonempty, of LF t] by simp
    then have "t = log_text es" using join_split_on [of LF t] by (simp add: log_text_lines)
    moreover have "length es \<le> EVENT_STREAM_COUNT" using c b by (metis length_map)
    ultimately show ?thesis using s u by (simp add: log_fits_def)
  qed
next
  assume a: "t = log_text es \<and> log_fits es \<and> list_all (storable sv) es"
  then have "parse_each sv (map line_text es) = Inr es" by (simp add: parse_each_Inr)
  with a show "parseEventLines sv t = Inr es"
    using log_text_last [of es] log_no_CR [of es] line_text_nonempty [symmetric]
    by (cases "es = []") (auto simp: parseEventLines_def log_fits_def split_log EVENT_STREAM_BYTES_def utf8_length_def)
qed

section \<open>What verification accepts\<close>

lemma check_link_Inr [simp]:
  "check_link sv c e = Inr d \<longleftrightarrow> ev_priorRevision e = cu_revision c \<and> ev_resultingRevision e = cu_revision c + 1 \<and>
     ev_previousHash e = cu_hash c \<and> ev_eventHash e = seal_hash (es_sha256 sv) e \<and> d = cursor_after e"
  by (auto simp: check_link_def)

lemma verify_Inr:
  "verifyEventStream sv t = Inr v \<longleftrightarrow>
     t = log_text (vs_events v) \<and> vs_canonical v = t \<and> log_fits (vs_events v) \<and> list_all (storable sv) (vs_events v) \<and>
     replay_from (check_link sv) first_cursor (vs_events v) = Inr (vs_cursor v)"
  by (cases v) (auto simp: verifyEventStream_def parseEventLines_Inr)

lemma linked_Nil: "replay_from (check_link sv) c [] = Inr d \<longleftrightarrow> d = c"
  by auto

lemma linked_snoc:
  "replay_from (check_link sv) c (es @ [e]) = Inr d \<longleftrightarrow>
     (\<exists>b. replay_from (check_link sv) c es = Inr b \<and> check_link sv b e = Inr d)"
  by (auto simp: replay_from_append)

lemma linked_revision:
  "replay_from (check_link sv) c es = Inr d \<Longrightarrow> cu_revision d = cu_revision c + int (length es)"
  by (induction es arbitrary: c) (auto simp: cursor_after_def)

lemma linked_hash:
  assumes "replay_from (check_link sv) first_cursor es = Inr d"
  shows "cu_hash d = None \<longleftrightarrow> es = []" "es \<noteq> [] \<Longrightarrow> cu_hash d = Some (ev_eventHash (last es))"
  using assms by (cases es rule: rev_cases; auto simp: first_cursor_def cursor_after_def replay_from_append)+

text \<open>The validator does not look at the order in which an object's members stand.\<close>

definition order_free :: "event_services \<Rightarrow> bool" where
  "order_free sv \<longleftrightarrow> (\<forall>i v j. es_validate sv i v (normal j) = es_validate sv i v j)"

lemma unsigned_hash_free: "unsignedEvent (with_hashes d p h) = unsignedEvent (with_hashes d p g)"
  by (simp add: unsignedEvent_def unsigned_members_def draft_members_def with_hashes_def event.defs event_draft.defs)

lemma with_hashes_simps [simp]:
  "event_draft.truncate (with_hashes d p h) = d" "ev_previousHash (with_hashes d p h) = p"
  "ev_eventHash (with_hashes d p h) = h" "ev_priorRevision (with_hashes d p h) = ev_priorRevision d"
  "ev_resultingRevision (with_hashes d p h) = ev_resultingRevision d"
  "ev_stateContract (with_hashes d p h) = ev_stateContract d"
  by (simp_all add: with_hashes_def event.defs event_draft.defs)

lemma snapshot_Inr: "snapshotEventDraft d = Inr e \<Longrightarrow> e = d \<and> assertEventSemanticPolicy d"
  by (auto simp: snapshotEventDraft_def split: if_splits)

lemma sealEventE:
  assumes "sealEvent sv d c = Inr e"
  obtains "snapshotEventDraft d = Inr d" "e = with_hashes d (cu_hash c) (seal_hash (es_sha256 sv) e)"
    "ev_priorRevision d = cu_revision c" "ev_resultingRevision d = cu_revision c + 1"
    "cu_revision c = 0 \<longleftrightarrow> cu_hash c = None"
    "es_validate sv ''state.event'' (contract_value (ev_stateContract d)) (event_json e) = None"
proof -
  from assms have s: "snapshotEventDraft d = Inr d"
    using snapshot_Inr by (cases "snapshotEventDraft d") (auto simp: sealEvent_def)
  let ?u = "with_hashes d (cu_hash c) []"
  have e: "e = with_hashes d (cu_hash c) (seal_hash (es_sha256 sv) ?u)"
    using assms by (auto simp: sealEvent_def s Let_def split: if_splits option.splits)
  then have "seal_hash (es_sha256 sv) ?u = seal_hash (es_sha256 sv) e"
    by (metis seal_hash_def unsigned_hash_free)
  with e have "e = with_hashes d (cu_hash c) (seal_hash (es_sha256 sv) e)" by simp
  with assms s e show thesis
    by (intro that) (auto simp: sealEvent_def Let_def split: if_splits option.splits)
qed

lemma policy_truncate: "assertEventSemanticPolicy e = assertEventSemanticPolicy (event_draft.truncate e)"
  by (simp add: assertEventSemanticPolicy_def lock_branch_ok_def acceptance_branch_ok_def resolution_branch_ok_def
      restart_branch_ok_def workflow_branch_ok_def other_branch_ok_def matchesPolicy_def workflow_contract_def
      current_contract_def hasRunLimits_def hasAcceptanceDecision_def hasRepairResolution_def hasStartedFromSpec_def
      hasConsistentAcceptanceMetadata_def event_draft.truncate_def cong: option.case_cong)

lemma seal_extends:
  assumes free: "order_free sv" and v: "verifyEventStream sv t = Inr v" and e: "sealEvent sv d (vs_cursor v) = Inr e"
    and line: "utf8_length (line_text e) \<le> EVENT_RECORD_BYTES" and room: "log_fits (vs_events v @ [e])"
  shows "verifyEventStream sv (t @ line_text e @ [LF]) =
    Inr \<lparr> vs_events = vs_events v @ [e], vs_cursor = cursor_after e, vs_canonical = t @ line_text e @ [LF] \<rparr>"
proof -
  from e show ?thesis
  proof (cases rule: sealEventE)
    case 1
    have d: "event_draft.truncate e = d" "ev_previousHash e = cu_hash (vs_cursor v)" "ev_stateContract e = ev_stateContract d"
      "ev_priorRevision e = ev_priorRevision d" "ev_resultingRevision e = ev_resultingRevision d"
      by (subst 1(2); simp)+
    have "ev_eventHash e = seal_hash (es_sha256 sv) e" by (subst 1(2)) simp
    moreover have "storable sv e"
      using 1(1,6) snapshot_Inr [OF 1(1)] free line d(3) policy_truncate [of e] d(1) by (simp add: storable_def order_free_def)
    ultimately show ?thesis
      using v room 1(3,4) d by (simp add: verify_Inr linked_snoc replay_from_append)
  qed
qed

text \<open>The text hashed for each event of a stream.\<close>

definition hashed_texts :: "verified_stream \<Rightarrow> string set" where
  "hashed_texts v = (\<lambda>e. canonicalizeJson (unsignedEvent e)) ` set (vs_events v)"

lemma event_eqI:
  assumes "event_draft.truncate e = event_draft.truncate f" "ev_previousHash e = ev_previousHash f"
    "ev_eventHash e = ev_eventHash f"
  shows "e = (f :: event)"
  using assms by (cases e; cases f) (simp add: event_draft.truncate_def)

text \<open>Where the digest does not collide, the last hash of a chain determines the chain.\<close>

lemma linked_determined:
  assumes "replay_from (check_link sv) first_cursor es = Inr c" "replay_from (check_link sv) first_cursor fs = Inr d"
    and "cu_hash c = cu_hash d"
    and "inj_on (es_sha256 sv) ((\<lambda>e. canonicalizeJson (unsignedEvent e)) ` (set es \<union> set fs))"
  shows "es = fs"
  using assms
proof (induction es arbitrary: fs c d rule: rev_induct)
  case Nil
  then show ?case using linked_hash(1) [OF Nil(2)] by (auto simp: first_cursor_def)
next
  case (snoc e es)
  from snoc.prems(1,3) have "cu_hash d = Some (ev_eventHash e)" by (auto simp: linked_snoc cursor_after_def)
  with snoc.prems(2) obtain f gs where fs: "fs = gs @ [f]" and h: "ev_eventHash f = ev_eventHash e"
    using linked_hash [OF snoc.prems(2)] by (cases fs rule: rev_cases) auto
  from snoc.prems(1) obtain b where b: "replay_from (check_link sv) first_cursor es = Inr b" "ev_previousHash e = cu_hash b"
      "ev_eventHash e = seal_hash (es_sha256 sv) e" by (auto simp: linked_snoc)
  from snoc.prems(2) obtain b' where b': "replay_from (check_link sv) first_cursor gs = Inr b'" "ev_previousHash f = cu_hash b'"
      "ev_eventHash f = seal_hash (es_sha256 sv) f" by (auto simp: linked_snoc fs)
  have u: "canonicalizeJson (unsignedEvent e) = canonicalizeJson (unsignedEvent f)"
    by (rule inj_onD [OF snoc.prems(4)]) (use h b(3) b'(3) in \<open>auto simp: seal_hash_def fs\<close>)
  have "e = f" by (rule event_eqI [OF unsigned_identifies [OF u] h [symmetric]])
  moreover have "es = gs"
    by (rule snoc.IH [OF b(1) b'(1)])
      (use unsigned_identifies(2) [OF u] b(2) b'(2) snoc.prems(4) in \<open>auto simp: fs intro: inj_on_subset\<close>)
  ultimately show ?case by (simp add: fs)
qed

lemma linked_nth:
  assumes "replay_from (check_link sv) first_cursor es = Inr c" "i < length es"
  shows "ev_priorRevision (es ! i) = int i \<and> ev_resultingRevision (es ! i) = int i + 1 \<and>
    ev_previousHash (es ! i) = (if i = 0 then None else Some (ev_eventHash (es ! (i - 1)))) \<and>
    ev_eventHash (es ! i) = seal_hash (es_sha256 sv) (es ! i)"
proof -
  have s: "es = take i es @ [es ! i] @ drop (Suc i) es" using assms(2) by (simp add: id_take_nth_drop)
  from assms(1) obtain b where b: "replay_from (check_link sv) first_cursor (take i es) = Inr b"
      "is_ok (check_link sv b (es ! i))"
    by (subst (asm) s) (auto simp: replay_from_append is_ok_iff)
  have "cu_hash b = (if i = 0 then None else Some (ev_eventHash (es ! (i - 1))))"
    using linked_hash [OF b(1)] assms(2) by (auto simp: last_conv_nth)
  moreover have "cu_revision b = int i" using linked_revision [OF b(1)] assms(2) by (simp add: first_cursor_def)
  ultimately show ?thesis using b(2) by (auto simp: is_ok_iff)
qed

lemma log_text_length: "utf8_length (log_text es) = (\<Sum>e \<leftarrow> es. utf8_length (line_text e) + 1)"
  by (induction es) (simp_all add: utf8_length_def LF_def code_unit_def)

section \<open>Properties of the event log\<close>

text \<open>
  C10: Sealing a draft on the cursor of a verified log and appending its canonical line,
  within the limits, gives a log that verifies: the old events followed by the sealed one,
  which carries exactly the draft, and the cursor behind it.
\<close>

theorem sealed_event_verifies:
  assumes "order_free sv" "verifyEventStream sv text = Inr v" "sealEvent sv draft (vs_cursor v) = Inr e"
    and "utf8_length (canonicalizeJson (event_json e)) \<le> EVENT_RECORD_BYTES"
    and "utf8_length (text @ canonicalizeJson (event_json e) @ [LF]) \<le> EVENT_STREAM_BYTES"
    and "length (vs_events v) < EVENT_STREAM_COUNT"
  shows "verifyEventStream sv (text @ canonicalizeJson (event_json e) @ [LF]) =
      Inr \<lparr> vs_events = vs_events v @ [e], vs_cursor = \<lparr> cu_revision = cu_revision (vs_cursor v) + 1,
        cu_hash = Some (ev_eventHash e) \<rparr>, vs_canonical = text @ canonicalizeJson (event_json e) @ [LF] \<rparr> \<and>
    event_draft.truncate e = draft"
proof -
  have t: "text = log_text (vs_events v)" using assms(2) by (simp add: verify_Inr)
  then have "log_fits (vs_events v @ [e])" using assms(5,6) by (simp add: log_fits_def line_text_def)
  then have "verifyEventStream sv (text @ line_text e @ [LF]) = Inr \<lparr> vs_events = vs_events v @ [e],
      vs_cursor = cursor_after e, vs_canonical = text @ line_text e @ [LF] \<rparr>"
    using seal_extends assms(1-4) by (simp add: line_text_def)
  moreover have "ev_resultingRevision e = cu_revision (vs_cursor v) + 1" "event_draft.truncate e = draft"
    using assms(3) by (rule sealEventE, metis with_hashes_simps(1,5))+
  ultimately show ?thesis by (simp_all add: line_text_def cursor_after_def)
qed

definition sample_validate :: "string \<Rightarrow> json option \<Rightarrow> json \<Rightarrow> diagnostic list option" where
  "sample_validate contract version v =
     (case v of JObj members \<Rightarrow> None | _ \<Rightarrow> Some [\<lparr> dg_keyword = ''type'', dg_reasonCode = ''runtime.state_corrupt'' \<rparr>])"

definition sample_event_services :: event_services where
  "sample_event_services = \<lparr> es_sha256 = (\<lambda>text. replicate 64 (CHR ''a'')), es_validate = sample_validate \<rparr>"

definition sample_draft :: event_draft where
  "sample_draft = \<lparr> ev_contractVersion = V1_2, ev_stateContract = V1_2, ev_eventId = ''e1'', ev_eventType = Operation_event,
     ev_occurredAt = ''2026-01-01T00:00:00.000Z'', ev_operation = ''index.refresh'', ev_policyVersion = ''workflow-v2'',
     ev_priorRevision = 0, ev_resultingRevision = 1, ev_reasonCode = ''index.refreshed'', ev_effect = State_effect,
     ev_artifactRefs = [], ev_evidenceRefs = [], ev_observedIdentity = \<lparr> id_host = ''h'', id_model = None, id_effort = None \<rparr>,
     ev_gateFailures = Some [], ev_resolvedAssignment = None, ev_runLimits = None, ev_acceptanceDecision = None,
     ev_repairResolution = None, ev_startedFromSpec = None \<rparr>"

definition sample_event :: event where
  "sample_event = with_hashes sample_draft None (replicate 64 (CHR ''a''))"

lemma sample_order_free: "order_free sample_event_services"
proof -
  have "sample_validate i v (normal j) = sample_validate i v j" for i v j
    by (cases j) (simp_all add: sample_validate_def)
  then show ?thesis by (simp add: order_free_def sample_event_services_def)
qed

lemma sample_sealed: "sealEvent sample_event_services sample_draft first_cursor = Inr sample_event"
  by code_simp

text \<open>A bound on the size of canonical text that needs no sorting.\<close>

fun text_bound :: "json \<Rightarrow> int" where
  "text_bound (JStr s) = 12 * int (length s) + 2"
| "text_bound (JArr vs) = 2 + (\<Sum>v \<leftarrow> vs. text_bound v + 1)"
| "text_bound (JObj ps) = 2 + (\<Sum>(k, v) \<leftarrow> ps. 12 * int (length k) + text_bound v + 4)"
| "text_bound (JNum n) = utf8_length (int_text n)"
| "text_bound (JBool b) = 5"
| "text_bound JNull = 4"

lemma utf8_simps [simp]:
  "utf8_length [] = 0" "utf8_length (c # s) = (if code_unit c < 128 then 1 else 2) + utf8_length s"
  "utf8_length (s @ t) = utf8_length s + utf8_length t"
  by (simp_all add: utf8_length_def)

lemma utf8_concat: "utf8_length (concat ss) = (\<Sum>s \<leftarrow> ss. utf8_length s)"
  by (induction ss) simp_all

lemma utf8_le: "utf8_length s \<le> 2 * int (length s)"
  by (induction s) auto

lemma utf8_join: "code_unit d < 128 \<Longrightarrow> utf8_length (join_with d ss) \<le> (\<Sum>s \<leftarrow> ss. utf8_length s + 1)"
  by (induction d ss rule: join_with.induct) auto

lemma utf8_escape: "utf8_length (escape_char c) \<le> 12"
proof -
  have "length (escape_char c) \<le> 6" by (cases rule: escape_cases [of c]) auto
  then show ?thesis using utf8_le [of "escape_char c"] by simp
qed

lemma utf8_quote: "utf8_length (quote s) \<le> 12 * int (length s) + 2"
proof -
  have "utf8_length (concat (map escape_char s)) \<le> 12 * int (length s)"
  proof (induction s)
    case (Cons c s)
    then show ?case using utf8_escape [of c] by simp
  qed simp
  then show ?thesis by (simp add: quote_def QUOTE_def code_unit_def)
qed

lemma sum_over_keys:
  assumes "distinct (map fst ps)"
  shows "(\<Sum>p \<leftarrow> in_key_order ps. f p) = (\<Sum>p \<leftarrow> ps. (f p :: int))"
proof -
  have "distinct (map fst (in_key_order ps))" by (simp add: text_order_distinct assms)
  then have "distinct (in_key_order ps)" "distinct ps" using assms unfolding distinct_map by blast+
  then show ?thesis by (simp add: sum_list_distinct_conv_sum_set set_in_key_order [OF assms])
qed

lemma canonical_bound: "wf_json v \<Longrightarrow> utf8_length (canonicalizeJson v) \<le> text_bound v"
proof (induction v rule: json_induct)
  case (Str s)
  then show ?case by (simp add: utf8_quote)
next
  case (Arr vs)
  have "(\<Sum>v \<leftarrow> vs. utf8_length (canonicalizeJson v) + 1) \<le> (\<Sum>v \<leftarrow> vs. text_bound v + 1)"
    by (rule sum_list_mono) (use Arr in \<open>auto simp: list_all_iff\<close>)
  then show ?case using utf8_join [of "CHR '',''" "map canonicalizeJson vs"] by (simp add: comp_def code_unit_def)
next
  case (Obj ps)
  let ?m = "\<lambda>(k, v). quote k @ CHR '':'' # canonicalizeJson v"
  have "(\<Sum>p \<leftarrow> in_key_order ps. utf8_length (?m p) + 1) = (\<Sum>p \<leftarrow> ps. utf8_length (?m p) + 1)"
    by (rule sum_over_keys) (use Obj in simp)
  moreover have "(\<Sum>p \<leftarrow> ps. utf8_length (?m p) + 1) \<le> (\<Sum>(k, v) \<leftarrow> ps. 12 * int (length k) + text_bound v + 4)"
  proof (rule sum_list_mono)
    fix p assume p: "p \<in> set ps"
    then have "(fst p, snd p) \<in> set ps" "wf_json (snd p)" using Obj(2) by (auto simp: list_all_iff)
    then have "utf8_length (canonicalizeJson (snd p)) \<le> text_bound (snd p)" by (rule Obj(1))
    then show "utf8_length (?m p) + 1 \<le> (case p of (k, v) \<Rightarrow> 12 * int (length k) + text_bound v + 4)"
      using utf8_quote [of "fst p"] by (cases p) (simp add: code_unit_def)
  qed
  ultimately show ?case
    using utf8_join [of "CHR '',''" "map ?m (in_key_order ps)"]
    by (simp add: canonicalize_object comp_def code_unit_def del: canonicalizeJson.simps)
qed (auto simp: code_unit_def)

lemma sample_bound: "text_bound (event_json sample_event) < 16000"
  by code_simp

lemma sample_fits: "utf8_length (canonicalizeJson (event_json sample_event)) < 16000"
  using canonical_bound [OF event_wf, of sample_event] sample_bound by linarith

definition sample_log :: string where
  "sample_log = canonicalizeJson (event_json sample_event) @ [LF]"

lemma empty_stream: "verifyEventStream sv [] = Inr \<lparr> vs_events = [], vs_cursor = first_cursor, vs_canonical = [] \<rparr>"
  by (simp add: verify_Inr log_fits_def EVENT_STREAM_BYTES_def)

theorem sealed_event_verifies_witness:
  "verifyEventStream sample_event_services sample_log =
     Inr \<lparr> vs_events = [sample_event], vs_cursor = \<lparr> cu_revision = 1, cu_hash = Some (ev_eventHash sample_event) \<rparr>,
       vs_canonical = sample_log \<rparr>"
proof -
  have "utf8_length ([] @ canonicalizeJson (event_json sample_event) @ [LF]) \<le> EVENT_STREAM_BYTES"
    using sample_fits by (simp add: EVENT_STREAM_BYTES_def LF_def code_unit_def)
  moreover have "utf8_length (canonicalizeJson (event_json sample_event)) \<le> EVENT_RECORD_BYTES"
    using sample_fits by (simp add: EVENT_RECORD_BYTES_def)
  ultimately show ?thesis
    using sealed_event_verifies [OF sample_order_free empty_stream, of sample_draft sample_event] sample_sealed
    by (simp add: sample_log_def first_cursor_def EVENT_STREAM_COUNT_def)
qed

lemma sample_stream:
  "verifyEventStream sample_event_services sample_log =
     Inr \<lparr> vs_events = [sample_event], vs_cursor = cursor_after sample_event, vs_canonical = sample_log \<rparr>"
proof -
  have "log_fits [sample_event]" "utf8_length (line_text sample_event) \<le> EVENT_RECORD_BYTES"
    using sample_fits
    by (simp_all add: log_fits_def line_text_def EVENT_STREAM_BYTES_def EVENT_RECORD_BYTES_def EVENT_STREAM_COUNT_def LF_def code_unit_def)
  then show ?thesis
    using seal_extends [OF sample_order_free empty_stream, of sample_draft sample_event] sample_sealed
    by (simp add: sample_log_def line_text_def)
qed

text \<open>
  C32: In a log that verifies, the events carry the revisions 1, 2, 3 and so on, each names
  the hash of its predecessor, its own hash is the digest of the rest of it, and it meets
  the semantic policy; the cursor stands behind the last one.
\<close>

theorem verified_stream_chained:
  assumes "verifyEventStream sv text = Inr v"
  shows "(\<forall>i < length (vs_events v). let e = vs_events v ! i in
      ev_priorRevision e = int i \<and> ev_resultingRevision e = int i + 1 \<and>
      ev_previousHash e = (if i = 0 then None else Some (ev_eventHash (vs_events v ! (i - 1)))) \<and>
      ev_eventHash e = es_sha256 sv (canonicalizeJson (unsignedEvent e)) \<and> assertEventSemanticPolicy e) \<and>
    vs_cursor v = \<lparr> cu_revision = int (length (vs_events v)),
      cu_hash = (if vs_events v = [] then None else Some (ev_eventHash (last (vs_events v)))) \<rparr>"
proof -
  from assms have c: "replay_from (check_link sv) first_cursor (vs_events v) = Inr (vs_cursor v)"
    and s: "list_all (storable sv) (vs_events v)" by (simp_all add: verify_Inr)
  have "\<forall>i < length (vs_events v). let e = vs_events v ! i in
      ev_priorRevision e = int i \<and> ev_resultingRevision e = int i + 1 \<and>
      ev_previousHash e = (if i = 0 then None else Some (ev_eventHash (vs_events v ! (i - 1)))) \<and>
      ev_eventHash e = es_sha256 sv (canonicalizeJson (unsignedEvent e)) \<and> assertEventSemanticPolicy e"
    using linked_nth [OF c] s by (auto simp: Let_def list_all_length storable_def seal_hash_def)
  moreover have "vs_cursor v = \<lparr> cu_revision = int (length (vs_events v)),
      cu_hash = (if vs_events v = [] then None else Some (ev_eventHash (last (vs_events v)))) \<rparr>"
    using linked_revision [OF c] linked_hash [OF c] by (cases "vs_cursor v") (auto simp: first_cursor_def)
  ultimately show ?thesis ..
qed

theorem verified_stream_chained_witness:
  "ev_eventHash sample_event = es_sha256 sample_event_services (canonicalizeJson (unsignedEvent sample_event))"
  using verified_stream_chained [OF sample_stream] by (simp add: Let_def)

text \<open>
  C9: The last hash commits to the whole log: two logs that verify with the same last hash
  are the same text, if the digest does not collide on what was hashed for their events.
\<close>

theorem head_hash_commits:
  assumes "verifyEventStream sv text1 = Inr v1" "verifyEventStream sv text2 = Inr v2"
    and "cu_hash (vs_cursor v1) = cu_hash (vs_cursor v2)"
    and "inj_on (es_sha256 sv) (hashed_texts v1 \<union> hashed_texts v2)"
  shows "text1 = text2"
proof -
  have "vs_events v1 = vs_events v2"
    by (rule linked_determined [of sv _ "vs_cursor v1" _ "vs_cursor v2"])
      (use assms in \<open>simp_all add: verify_Inr hashed_texts_def image_Un\<close>)
  with assms(1,2) show ?thesis by (simp add: verify_Inr)
qed

text \<open>
  Two logs of one event each, under a digest that tells the two texts hashed for them apart:
  its hypothesis on collisions holds, and the last hashes of the logs differ.
\<close>

definition other_draft :: event_draft where
  "other_draft = sample_draft\<lparr>ev_eventId := ''e2''\<rparr>"

definition hashed_text :: "event_draft \<Rightarrow> string" where
  "hashed_text d = canonicalizeJson (unsignedEvent (with_hashes d None []))"

definition separating_services :: event_services where
  "separating_services =
     \<lparr> es_sha256 = (\<lambda>text. replicate 64 (if text = hashed_text sample_draft then CHR ''a'' else CHR ''b'')),
       es_validate = sample_validate \<rparr>"

definition other_event :: event where
  "other_event = with_hashes other_draft None (replicate 64 (CHR ''b''))"

definition one_event_stream :: "event \<Rightarrow> verified_stream" where
  "one_event_stream e = \<lparr> vs_events = [e], vs_cursor = cursor_after e, vs_canonical = line_text e @ [LF] \<rparr>"

lemma hashed_text_any: "canonicalizeJson (unsignedEvent (with_hashes d None h)) = hashed_text d"
  unfolding hashed_text_def by (metis unsigned_hash_free)

lemma hashed_texts_apart: "hashed_text other_draft \<noteq> hashed_text sample_draft"
proof
  assume "hashed_text other_draft = hashed_text sample_draft"
  from unsigned_identifies(1) [OF this [unfolded hashed_text_def]] have "other_draft = sample_draft" by simp
  then have "ev_eventId other_draft = ev_eventId sample_draft" by simp
  then show False by (simp add: other_draft_def sample_draft_def)
qed

lemma separating_order_free: "order_free separating_services"
  using sample_order_free by (simp add: order_free_def separating_services_def sample_event_services_def)

lemma separated_hash:
  "seal_hash (es_sha256 separating_services) (with_hashes sample_draft None h) = replicate 64 (CHR ''a'')"
  "seal_hash (es_sha256 separating_services) (with_hashes other_draft None h) = replicate 64 (CHR ''b'')"
  using hashed_texts_apart by (simp_all add: seal_hash_def separating_services_def hashed_text_any)

lemma one_event_verifies:
  assumes "snapshotEventDraft d = Inr d" "ev_priorRevision d = 0" "ev_resultingRevision d = 1"
    and "e = with_hashes d None (seal_hash (es_sha256 separating_services) (with_hashes d None []))"
    and "text_bound (event_json e) < 16000"
  shows "verifyEventStream separating_services (line_text e @ [LF]) = Inr (one_event_stream e)"
proof -
  have "sealEvent separating_services d first_cursor = Inr e"
    using assms(1-4) by (simp add: sealEvent_def first_cursor_def Let_def separating_services_def event_json_def
        json_object_def sample_validate_def)
  moreover have "utf8_length (line_text e) < 16000"
    using canonical_bound [OF event_wf, of e] assms(5) by (simp add: line_text_def)
  ultimately show ?thesis
    using seal_extends [OF separating_order_free empty_stream, of d e]
    by (simp add: one_event_stream_def log_fits_def EVENT_STREAM_BYTES_def EVENT_RECORD_BYTES_def EVENT_STREAM_COUNT_def
        LF_def code_unit_def)
qed

lemma separated_streams:
  "verifyEventStream separating_services (line_text sample_event @ [LF]) = Inr (one_event_stream sample_event)"
  "verifyEventStream separating_services (line_text other_event @ [LF]) = Inr (one_event_stream other_event)"
proof -
  have revisions: "ev_priorRevision sample_draft = 0" "ev_resultingRevision sample_draft = 1"
    "ev_priorRevision other_draft = 0" "ev_resultingRevision other_draft = 1"
    by (simp_all add: other_draft_def sample_draft_def)
  have drafts: "snapshotEventDraft sample_draft = Inr sample_draft" "snapshotEventDraft other_draft = Inr other_draft"
    and small: "text_bound (event_json other_event) < 16000" by code_simp+
  show "verifyEventStream separating_services (line_text sample_event @ [LF]) = Inr (one_event_stream sample_event)"
    by (rule one_event_verifies [OF drafts(1) revisions(1,2) _ sample_bound]) (simp add: separated_hash sample_event_def)
  show "verifyEventStream separating_services (line_text other_event @ [LF]) = Inr (one_event_stream other_event)"
    by (rule one_event_verifies [OF drafts(2) revisions(3,4) _ small]) (simp add: separated_hash other_event_def)
qed

theorem head_hash_commits_witness:
  "verifyEventStream separating_services (line_text sample_event @ [LF]) = Inr (one_event_stream sample_event) \<and>
   verifyEventStream separating_services (line_text other_event @ [LF]) = Inr (one_event_stream other_event) \<and>
   inj_on (es_sha256 separating_services) (hashed_texts (one_event_stream sample_event) \<union> hashed_texts (one_event_stream other_event)) \<and>
   line_text sample_event @ [LF] \<noteq> line_text other_event @ [LF] \<and>
   cu_hash (vs_cursor (one_event_stream sample_event)) \<noteq> cu_hash (vs_cursor (one_event_stream other_event))"
proof (intro conjI separated_streams)
  have texts: "hashed_texts (one_event_stream sample_event) \<union> hashed_texts (one_event_stream other_event) =
      {hashed_text sample_draft, hashed_text other_draft}"
    by (auto simp: hashed_texts_def one_event_stream_def sample_event_def other_event_def hashed_text_any)
  then show free: "inj_on (es_sha256 separating_services)
      (hashed_texts (one_event_stream sample_event) \<union> hashed_texts (one_event_stream other_event))"
    using hashed_texts_apart by (auto simp: inj_on_def separating_services_def)
  have "ev_eventHash sample_event \<noteq> ev_eventHash other_event" by (simp add: sample_event_def other_event_def)
  then have "vs_events (one_event_stream sample_event) \<noteq> vs_events (one_event_stream other_event)"
    by (auto simp: one_event_stream_def)
  then show logs: "line_text sample_event @ [LF] \<noteq> line_text other_event @ [LF]"
    using separated_streams by (metis sum.inject(2))
  show "cu_hash (vs_cursor (one_event_stream sample_event)) \<noteq> cu_hash (vs_cursor (one_event_stream other_event))"
    using head_hash_commits [OF separated_streams _ free] logs by blast
qed

text \<open>
  C33: A log that verifies keeps the limits: at most 64 MiB, at most 100000 events, each in a
  line of its own of at most 64 KiB, and the revision counts the events.
\<close>

theorem verified_stream_bounded:
  assumes "verifyEventStream sv text = Inr v"
  shows "utf8_length text \<le> 64 * 1024 * 1024 \<and>
    cu_revision (vs_cursor v) = int (length (vs_events v)) \<and> cu_revision (vs_cursor v) \<le> 100000 \<and>
    (\<forall>line \<in> set (butlast (split_on LF text)). line \<noteq> [] \<and> utf8_length line \<le> 64 * 1024) \<and>
    length (butlast (split_on LF text)) = length (vs_events v)"
proof (intro conjI)
  from assms have t: "text = log_text (vs_events v)" and f: "log_fits (vs_events v)"
    and s: "list_all (storable sv) (vs_events v)"
    and c: "replay_from (check_link sv) first_cursor (vs_events v) = Inr (vs_cursor v)" by (simp_all add: verify_Inr)
  show "utf8_length text \<le> 64 * 1024 * 1024" using f t by (simp add: log_fits_def EVENT_STREAM_BYTES_def)
  show r: "cu_revision (vs_cursor v) = int (length (vs_events v))"
    using linked_revision [OF c] by (simp add: first_cursor_def)
  with f show "cu_revision (vs_cursor v) \<le> 100000" by (simp add: log_fits_def EVENT_STREAM_COUNT_def)
  show "\<forall>line \<in> set (butlast (split_on LF text)). line \<noteq> [] \<and> utf8_length line \<le> 64 * 1024"
    using s by (auto simp: t split_log list_all_iff storable_def EVENT_RECORD_BYTES_def line_text_nonempty)
  show "length (butlast (split_on LF text)) = length (vs_events v)" by (simp add: t split_log)
qed

theorem verified_stream_bounded_witness: "utf8_length sample_log \<le> 64 * 1024 * 1024"
  using verified_stream_bounded [OF sample_stream] by blast

end
