(* ===== verification/Workflow_Reducer.thy ===== *)
theory Workflow_Reducer
  imports Event_Model
begin

text \<open>
  The replay state of one run (\<open>domain/workflow/model.ts\<close>) and its reducers
  (\<open>domain/workflow/reducer.ts\<close>): the legacy reducer, the current reducer with the
  acceptance repair loop, specification restarts and policy upgrades, and the
  materialisation of the snapshot. A thrown \<open>Error\<close> is the \<^const>\<open>Inl\<close> side with the
  message of the source.
\<close>

section \<open>State\<close>

datatype run_status = Idle | Active | Blocked | Done_completed

definition RUN_PHASES :: "run_phase list" where
  "RUN_PHASES = [Prd, Spec, Plan, Code, Review, Acceptance]"

definition LEGACY_WORKFLOW_POLICY_VERSION :: string where
  "LEGACY_WORKFLOW_POLICY_VERSION = ''workflow-v1''"

definition WORKFLOW_POLICY_VERSION :: string where
  "WORKFLOW_POLICY_VERSION = ''workflow-v2''"

record lineage =
  ln_prdDigest :: string
  ln_specDigest :: string

record specification_restart =
  sr_criterionId :: string
  sr_nextRunId :: string
  sr_restartTicketRef :: string
  sr_restartTicketDigest :: string

record recorded_resolution = repair_resolution +
  rc_operation :: string

record started_from =
  sd_sourceRunId :: string
  sd_restartTicketRef :: string
  sd_restartTicketDigest :: string

record workflow_state =
  st_projectId :: string
  st_feature :: string
  st_runId :: string
  st_status :: run_status
  st_currentStep :: "run_phase option"
  st_revision :: int
  st_lineage :: lineage
  st_createdAt :: "string option"
  st_updatedAt :: "string option"
  st_operations :: "string list"
  st_policyVersion :: "string option"
  st_acceptanceAttemptCeiling :: "int option"
  st_tokenCeiling :: "int option"
  st_attempts :: "attempt list"
  st_activeRepairStops :: "repair_stop list"
  st_repairStopHistory :: "repair_stop list"
  st_repairResolutions :: "recorded_resolution list"
  st_specificationRestart :: "specification_restart option"
  st_retiredCriterionIds :: "string list"
  st_startedFromSpec :: "started_from option"

record reducer_configuration =
  co_projectId :: string
  co_feature :: string
  co_runId :: string
  co_lineage :: lineage

datatype reducer_error =
    Unsupported_workflow_event
  | Blocked_by_repair_stop
  | Run_already_started
  | Run_completed
  | Run_cannot_advance
  | Final_phase_needs_completion
  | Run_cannot_reject
  | Run_cannot_record_facts
  | Run_not_at_final_acceptance
  | Unsupported_workflow_reason
  | Policy_upgrade_inconsistent
  | Workflow_limits_missing
  | Specification_restart_inconsistent
  | Acceptance_decision_inconsistent
  | Repair_resolution_inconsistent
  | Cannot_be_materialized

type_synonym reduction = "(reducer_error, workflow_state) result"

section \<open>Reducers\<close>

fun nextPhase :: "run_phase option \<Rightarrow> run_phase option" where
  "nextPhase None = Some Prd"
| "nextPhase (Some Prd) = Some Spec"
| "nextPhase (Some Spec) = Some Plan"
| "nextPhase (Some Plan) = Some Code"
| "nextPhase (Some Code) = Some Review"
| "nextPhase (Some Review) = Some Acceptance"
| "nextPhase (Some Acceptance) = None"

definition workflowSeed :: "reducer_configuration \<Rightarrow> workflow_state" where
  "workflowSeed c =
     \<lparr> st_projectId = co_projectId c, st_feature = co_feature c, st_runId = co_runId c,
       st_status = Idle, st_currentStep = None, st_revision = 0, st_lineage = co_lineage c,
       st_createdAt = None, st_updatedAt = None, st_operations = [], st_policyVersion = None,
       st_acceptanceAttemptCeiling = None, st_tokenCeiling = None, st_attempts = [],
       st_activeRepairStops = [], st_repairStopHistory = [], st_repairResolutions = [],
       st_specificationRestart = None, st_retiredCriterionIds = [], st_startedFromSpec = None \<rparr>"

definition mergeAttempts :: "workflow_state \<Rightarrow> attempt list \<Rightarrow> attempt list" where
  "mergeAttempts state updates =
     updates @ filter (\<lambda>a. at_criterionId a \<notin> at_criterionId ` set updates) (st_attempts state)"

definition mergeRepairStopHistory :: "workflow_state \<Rightarrow> repair_stop list \<Rightarrow> repair_stop list" where
  "mergeRepairStopHistory state stops =
     st_repairStopHistory state @
     filter (\<lambda>s. at_criterionId s \<notin> at_criterionId ` set (st_repairStopHistory state)) stops"

text \<open>The attempt of a criterion recorded last wins in \<open>new Map(entries)\<close>.\<close>

definition attempt_map :: "attempt list \<Rightarrow> string \<rightharpoonup> int" where
  "attempt_map attempts = map_of (rev (map (\<lambda>a. (at_criterionId a, at_attempt a)) attempts))"

fun attempts_canonical ::
  "(string \<rightharpoonup> int) \<Rightarrow> int \<Rightarrow> string list \<Rightarrow> attempt list \<Rightarrow> bool" where
  "attempts_canonical previous ceiling seen [] = True"
| "attempts_canonical previous ceiling seen (a # as) =
     (if \<not> isAcceptanceCriterionId (at_criterionId a) \<or> at_criterionId a \<in> set seen \<or>
         at_attempt a \<noteq> (case previous (at_criterionId a) of None \<Rightarrow> 0 | Some n \<Rightarrow> n) + 1 \<or>
         at_attempt a > ceiling
      then False
      else attempts_canonical previous ceiling (at_criterionId a # seen) as)"

definition stops_match :: "attempt list \<Rightarrow> repair_stop list \<Rightarrow> string list \<Rightarrow> bool" where
  "stops_match tripping stops refs =
     list_all2 (\<lambda>a stop. at_criterionId a = at_criterionId stop \<and> at_attempt a = at_attempt stop \<and>
        rs_artifactRef stop \<in> set refs) tripping stops"

definition hasCanonicalAcceptanceDecision ::
  "workflow_state \<Rightarrow> 'a event_draft_scheme \<Rightarrow> acceptance_decision \<Rightarrow> acceptance_outcome \<Rightarrow> bool" where
  "hasCanonicalAcceptanceDecision state event decision expected =
     (case st_acceptanceAttemptCeiling state of
        None \<Rightarrow> False
      | Some ceiling \<Rightarrow>
          if st_currentStep state \<noteq> Some Acceptance \<or> st_activeRepairStops state \<noteq> [] \<or>
             ad_outcome decision \<noteq> expected
          then False
          else if \<not> attempts_canonical (attempt_map (st_attempts state)) ceiling [] (ad_attempts decision)
          then False
          else if expected = Acc_passed
          then ad_attempts decision = [] \<and> ad_repairStops decision = []
          else if ad_attempts decision = [] then False
          else let tripping = filter (\<lambda>a. at_attempt a = ceiling) (ad_attempts decision)
               in if expected = Acc_repair then tripping = [] \<and> ad_repairStops decision = []
                  else if tripping = [] \<or> length (ad_repairStops decision) \<noteq> length tripping then False
                  else stops_match tripping (ad_repairStops decision) (ev_artifactRefs event))"

text \<open>The common tail of every reduction: revision, time stamps, operation and policy.\<close>

definition stamp :: "'a event_draft_scheme \<Rightarrow> workflow_state \<Rightarrow> workflow_state" where
  "stamp event state = state
     \<lparr> st_revision := ev_resultingRevision event,
       st_updatedAt := Some (ev_occurredAt event),
       st_operations := st_operations state @ [ev_operation event],
       st_policyVersion := Some (ev_policyVersion event) \<rparr>"

definition known_reason ::
  "workflow_state \<Rightarrow> string \<Rightarrow> (reducer_error, run_status \<times> run_phase option) result" where
  "known_reason state reason =
     (if reason = ''run.started'' then
        (if st_revision state \<noteq> 0 then Inl Run_already_started else Inr (Active, Some Prd))
      else if reason = ''run.resumed'' then
        (if st_status state = Done_completed then Inl Run_completed
         else Inr (if st_activeRepairStops state = [] then Active else Blocked, st_currentStep state))
      else if reason = ''run.transition.accepted'' then
        (if st_status state = Done_completed \<or> st_currentStep state = None then Inl Run_cannot_advance
         else (case nextPhase (st_currentStep state) of
                 None \<Rightarrow> Inl Final_phase_needs_completion
               | Some following \<Rightarrow> Inr (Active, Some following)))
      else if reason = ''run.transition.rejected'' then
        (if st_status state = Done_completed \<or> st_currentStep state = None then Inl Run_cannot_reject
         else Inr (Blocked, st_currentStep state))
      else if reason \<in> {''run.agent.recorded'', ''run.gap.recorded'', ''run.gap.resolved'',
                        ''run.gap.waived'', ''run.gates.recorded''} then
        (if st_status state = Done_completed \<or> st_currentStep state = None then Inl Run_cannot_record_facts
         else Inr (st_status state, st_currentStep state))
      else if reason = ''run.completed'' then
        (if st_currentStep state \<noteq> Some Acceptance then Inl Run_not_at_final_acceptance
         else Inr (Done_completed, None))
      else Inl Unsupported_workflow_reason)"

definition reduceKnownWorkflowReason :: "workflow_state \<Rightarrow> 'a event_draft_scheme \<Rightarrow> reduction" where
  "reduceKnownWorkflowReason state event =
     (if ev_priorRevision event \<noteq> st_revision state then Inl Unsupported_workflow_event
      else if (st_activeRepairStops state \<noteq> [] \<or> st_specificationRestart state \<noteq> None) \<and>
              ev_reasonCode event \<in> {''run.resumed'', ''run.transition.accepted'', ''run.completed''}
      then Inl Blocked_by_repair_stop
      else bind_result (known_reason state (ev_reasonCode event)) (\<lambda>(status, currentStep).
        Inr ((stamp event state)
          \<lparr> st_status := status, st_currentStep := currentStep,
            st_createdAt := (case st_createdAt state of None \<Rightarrow> Some (ev_occurredAt event) | Some t \<Rightarrow> Some t) \<rparr>)))"

definition reduceWorkflowV1 :: "workflow_state \<Rightarrow> 'a event_draft_scheme \<Rightarrow> reduction" where
  "reduceWorkflowV1 state event =
     (if ev_policyVersion event \<noteq> LEGACY_WORKFLOW_POLICY_VERSION then Inl Unsupported_workflow_event
      else reduceKnownWorkflowReason state event)"

definition upgradable :: "workflow_state \<Rightarrow> bool" where
  "upgradable state \<longleftrightarrow>
     st_policyVersion state = Some LEGACY_WORKFLOW_POLICY_VERSION \<and>
     st_acceptanceAttemptCeiling state = None \<and> st_tokenCeiling state = None \<and>
     st_attempts state = [] \<and> st_activeRepairStops state = [] \<and> st_repairStopHistory state = [] \<and>
     st_repairResolutions state = [] \<and> st_specificationRestart state = None \<and>
     st_retiredCriterionIds state = [] \<and> st_startedFromSpec state = None"

definition with_limits :: "run_limits \<Rightarrow> workflow_state \<Rightarrow> workflow_state" where
  "with_limits limits state = state
     \<lparr> st_acceptanceAttemptCeiling := Some (rl_acceptanceAttemptCeiling limits),
       st_tokenCeiling := rl_tokenCeiling limits \<rparr>"

definition reduce_upgrade :: "workflow_state \<Rightarrow> 'a event_draft_scheme \<Rightarrow> reduction" where
  "reduce_upgrade state event =
     (case ev_runLimits event of
        None \<Rightarrow> Inl Policy_upgrade_inconsistent
      | Some limits \<Rightarrow>
          if ev_stateContract event \<noteq> V1_4 \<or> ev_eventType event \<noteq> Recovery_event \<or>
             ev_effect event \<noteq> State_effect \<or> \<not> starts_with ''sdd.start:'' (ev_operation event) \<or>
             st_revision state = 0 \<or> \<not> upgradable state
          then Inl Policy_upgrade_inconsistent
          else Inr (with_limits limits (stamp event state)))"

definition reduce_started_from_spec :: "workflow_state \<Rightarrow> 'a event_draft_scheme \<Rightarrow> reduction" where
  "reduce_started_from_spec state event =
     (case (ev_runLimits event, ev_startedFromSpec event) of
        (Some limits, Some started) \<Rightarrow>
          if st_revision state \<noteq> 0 \<or> sf_retiredCriterionIds started = []
          then Inl Specification_restart_inconsistent
          else Inr (with_limits limits (stamp event state)
            \<lparr> st_status := Active, st_currentStep := Some Spec,
              st_createdAt := Some (ev_occurredAt event),
              st_operations := [ev_operation event],
              st_retiredCriterionIds := sf_retiredCriterionIds started,
              st_startedFromSpec := Some \<lparr> sd_sourceRunId = sf_sourceRunId started,
                sd_restartTicketRef = sf_restartTicketRef started,
                sd_restartTicketDigest = sf_restartTicketDigest started \<rparr> \<rparr>)
      | _ \<Rightarrow> Inl Specification_restart_inconsistent)"

definition reduce_acceptance ::
  "acceptance_outcome \<Rightarrow> workflow_state \<Rightarrow> 'a event_draft_scheme \<Rightarrow> reduction" where
  "reduce_acceptance expected state event =
     (case ev_acceptanceDecision event of
        None \<Rightarrow> Inl Acceptance_decision_inconsistent
      | Some decision \<Rightarrow>
          if \<not> hasCanonicalAcceptanceDecision state event decision expected
          then Inl Acceptance_decision_inconsistent
          else Inr (case expected of
              Acc_passed \<Rightarrow> stamp event state
            | Acc_repair \<Rightarrow> (stamp event state)
                \<lparr> st_status := Active, st_currentStep := Some Code,
                  st_attempts := mergeAttempts state (ad_attempts decision) \<rparr>
            | Acc_stopped \<Rightarrow> (stamp event state)
                \<lparr> st_status := Blocked,
                  st_attempts := mergeAttempts state (ad_attempts decision),
                  st_activeRepairStops := ad_repairStops decision,
                  st_repairStopHistory := mergeRepairStopHistory state (ad_repairStops decision) \<rparr>))"

definition reduce_resolution :: "workflow_state \<Rightarrow> 'a event_draft_scheme \<Rightarrow> reduction" where
  "reduce_resolution state event =
     (case ev_repairResolution event of
        None \<Rightarrow> Inl Repair_resolution_inconsistent
      | Some resolution \<Rightarrow>
          if st_status state \<noteq> Blocked \<or> st_specificationRestart state \<noteq> None
          then Inl Repair_resolution_inconsistent
          else (case List.find (\<lambda>s. at_criterionId s = re_criterionId resolution) (st_activeRepairStops state) of
              None \<Rightarrow> Inl Repair_resolution_inconsistent
            | Some stop \<Rightarrow>
                if rs_classification stop \<noteq> re_classification resolution
                then Inl Repair_resolution_inconsistent
                else
                  (let remaining = filter (\<lambda>s. at_criterionId s \<noteq> re_criterionId resolution) (st_activeRepairStops state);
                       common = (stamp event state)
                         \<lparr> st_activeRepairStops := remaining,
                           st_repairResolutions := st_repairResolutions state @
                             [repair_resolution.extend (repair_resolution.truncate resolution)
                                \<lparr> rc_operation = ev_operation event \<rparr>] \<rparr>
                   in if re_classification resolution = Specification_fault then
                        (case (re_nextRunId resolution, re_restartTicketRef resolution, re_restartTicketDigest resolution) of
                           (Some next, Some ref, Some digest) \<Rightarrow>
                             if list_ex (\<lambda>s. rs_classification s = Code_fault) remaining
                             then Inl Repair_resolution_inconsistent
                             else Inr (common
                               \<lparr> st_status := Blocked,
                                 st_specificationRestart := Some \<lparr> sr_criterionId = re_criterionId resolution,
                                   sr_nextRunId = next, sr_restartTicketRef = ref, sr_restartTicketDigest = digest \<rparr> \<rparr>)
                         | _ \<Rightarrow> Inl Repair_resolution_inconsistent)
                      else if re_nextRunId resolution \<noteq> None \<or> re_restartTicketRef resolution \<noteq> None \<or>
                              re_restartTicketDigest resolution \<noteq> None
                      then Inl Repair_resolution_inconsistent
                      else Inr (common
                        \<lparr> st_status := (if remaining = [] then Active else Blocked),
                          st_currentStep := (if remaining = [] then Some Code else st_currentStep state),
                          st_attempts := filter (\<lambda>a. at_criterionId a \<noteq> re_criterionId resolution) (st_attempts state) \<rparr>))))"

definition reduceWorkflow :: "workflow_state \<Rightarrow> 'a event_draft_scheme \<Rightarrow> reduction" where
  "reduceWorkflow state event =
     (if ev_policyVersion event \<noteq> WORKFLOW_POLICY_VERSION \<or> ev_priorRevision event \<noteq> st_revision state
      then Inl Unsupported_workflow_event
      else if ev_reasonCode event = ''run.policy_upgraded'' then reduce_upgrade state event
      else if ev_reasonCode event = ''run.started'' then
        (case ev_runLimits event of
           None \<Rightarrow> Inl Workflow_limits_missing
         | Some limits \<Rightarrow> bind_result (reduceKnownWorkflowReason state event) (\<lambda>s. Inr (with_limits limits s)))
      else if ev_reasonCode event = ''run.started_from_spec'' then reduce_started_from_spec state event
      else if st_acceptanceAttemptCeiling state = None then Inl Workflow_limits_missing
      else if ev_reasonCode event = ''run.acceptance.passed'' then reduce_acceptance Acc_passed state event
      else if ev_reasonCode event = ''run.acceptance.repair_required'' then reduce_acceptance Acc_repair state event
      else if ev_reasonCode event = ''run.stop_loss.repeated_rejection'' then reduce_acceptance Acc_stopped state event
      else if ev_reasonCode event = ''run.repair_stop.resolved'' then reduce_resolution state event
      else reduceKnownWorkflowReason state event)"

record snapshot =
  sn_projectId :: string
  sn_runId :: string
  sn_status :: run_status
  sn_currentStep :: "run_phase option"
  sn_eventCursor :: int
  sn_eventHash :: string
  sn_policyVersion :: string
  sn_lineage :: lineage
  sn_createdAt :: string
  sn_updatedAt :: string

definition materialize :: "workflow_state \<Rightarrow> event_cursor \<Rightarrow> (reducer_error, snapshot) result" where
  "materialize state cursor =
     (case (st_createdAt state, st_updatedAt state, cu_hash cursor) of
        (Some created, Some updated, Some h) \<Rightarrow>
          if st_revision state \<noteq> cu_revision cursor then Inl Cannot_be_materialized
          else Inr \<lparr> sn_projectId = st_projectId state, sn_runId = st_runId state,
            sn_status = st_status state, sn_currentStep = st_currentStep state,
            sn_eventCursor = cu_revision cursor, sn_eventHash = h,
            sn_policyVersion = (case st_policyVersion state of None \<Rightarrow> WORKFLOW_POLICY_VERSION | Some p \<Rightarrow> p),
            sn_lineage = st_lineage state, sn_createdAt = created, sn_updatedAt = updated \<rparr>
      | _ \<Rightarrow> Inl Cannot_be_materialized)"

text \<open>The registry \<open>workflowReducerRegistry\<close>: the reducer of each policy version.\<close>

definition workflow_reducer :: "string \<Rightarrow> (workflow_state \<Rightarrow> 'a event_draft_scheme \<Rightarrow> reduction) option" where
  "workflow_reducer policy =
     (if policy = LEGACY_WORKFLOW_POLICY_VERSION then Some reduceWorkflowV1
      else if policy = WORKFLOW_POLICY_VERSION then Some reduceWorkflow else None)"

section \<open>Steps of a run\<close>

lemma stamp_sel [simp]:
  "st_projectId (stamp e s) = st_projectId s" "st_feature (stamp e s) = st_feature s"
  "st_runId (stamp e s) = st_runId s" "st_status (stamp e s) = st_status s"
  "st_currentStep (stamp e s) = st_currentStep s" "st_revision (stamp e s) = ev_resultingRevision e"
  "st_lineage (stamp e s) = st_lineage s" "st_createdAt (stamp e s) = st_createdAt s"
  "st_updatedAt (stamp e s) = Some (ev_occurredAt e)"
  "st_operations (stamp e s) = st_operations s @ [ev_operation e]"
  "st_policyVersion (stamp e s) = Some (ev_policyVersion e)"
  "st_acceptanceAttemptCeiling (stamp e s) = st_acceptanceAttemptCeiling s"
  "st_tokenCeiling (stamp e s) = st_tokenCeiling s" "st_attempts (stamp e s) = st_attempts s"
  "st_activeRepairStops (stamp e s) = st_activeRepairStops s"
  "st_repairStopHistory (stamp e s) = st_repairStopHistory s"
  "st_repairResolutions (stamp e s) = st_repairResolutions s"
  "st_specificationRestart (stamp e s) = st_specificationRestart s"
  "st_retiredCriterionIds (stamp e s) = st_retiredCriterionIds s"
  "st_startedFromSpec (stamp e s) = st_startedFromSpec s"
  by (simp_all add: stamp_def)

lemma with_limits_sel [simp]:
  "st_feature (with_limits l s) = st_feature s" "st_runId (with_limits l s) = st_runId s"
  "st_status (with_limits l s) = st_status s" "st_currentStep (with_limits l s) = st_currentStep s"
  "st_revision (with_limits l s) = st_revision s" "st_operations (with_limits l s) = st_operations s"
  "st_policyVersion (with_limits l s) = st_policyVersion s"
  "st_acceptanceAttemptCeiling (with_limits l s) = Some (rl_acceptanceAttemptCeiling l)"
  "st_tokenCeiling (with_limits l s) = rl_tokenCeiling l" "st_attempts (with_limits l s) = st_attempts s"
  "st_activeRepairStops (with_limits l s) = st_activeRepairStops s"
  "st_repairStopHistory (with_limits l s) = st_repairStopHistory s"
  "st_repairResolutions (with_limits l s) = st_repairResolutions s"
  "st_specificationRestart (with_limits l s) = st_specificationRestart s"
  "st_createdAt (with_limits l s) = st_createdAt s" "st_updatedAt (with_limits l s) = st_updatedAt s"
  "st_lineage (with_limits l s) = st_lineage s" "st_projectId (with_limits l s) = st_projectId s"
  "st_retiredCriterionIds (with_limits l s) = st_retiredCriterionIds s"
  "st_startedFromSpec (with_limits l s) = st_startedFromSpec s"
  by (simp_all add: with_limits_def)

definition fact_reasons :: "string set" where
  "fact_reasons = {''run.agent.recorded'', ''run.gap.recorded'', ''run.gap.resolved'',
     ''run.gap.waived'', ''run.gates.recorded''}"

lemma known_reasonE:
  assumes "known_reason s r = Inr (st, cs)"
  obtains (started) "r = ''run.started''" "st_revision s = 0" "st = Active" "cs = Some Prd"
  | (resumed) "r = ''run.resumed''" "st_status s \<noteq> Done_completed"
      "st = (if st_activeRepairStops s = [] then Active else Blocked)" "cs = st_currentStep s"
  | (accepted) p q where "r = ''run.transition.accepted''" "st_status s \<noteq> Done_completed"
      "st_currentStep s = Some p" "nextPhase (Some p) = Some q" "st = Active" "cs = Some q"
  | (rejected) "r = ''run.transition.rejected''" "st_status s \<noteq> Done_completed"
      "st_currentStep s \<noteq> None" "st = Blocked" "cs = st_currentStep s"
  | (fact) "r \<in> fact_reasons" "st_status s \<noteq> Done_completed"
      "st_currentStep s \<noteq> None" "st = st_status s" "cs = st_currentStep s"
  | (completed) "r = ''run.completed''" "st_currentStep s = Some Acceptance"
      "st = Done_completed" "cs = None"
proof (cases "r = ''run.transition.accepted''")
  case True
  with assms have "st_status s \<noteq> Done_completed" "st_currentStep s \<noteq> None"
    by (auto simp: known_reason_def split: if_splits)
  then obtain p where p: "st_currentStep s = Some p" by auto
  with assms True \<open>st_status s \<noteq> Done_completed\<close> obtain q where "nextPhase (Some p) = Some q"
    by (cases "nextPhase (Some p)") (auto simp: known_reason_def)
  with assms True \<open>st_status s \<noteq> Done_completed\<close> p show thesis
    by (intro accepted [of p q]) (auto simp: known_reason_def)
next
  case False
  with assms show thesis
    unfolding known_reason_def fact_reasons_def [symmetric]
    by (auto split: if_splits intro: started resumed rejected fact completed)
qed

lemma reduceKnownE:
  assumes "reduceKnownWorkflowReason s e = Inr t"
  obtains st cs where "ev_priorRevision e = st_revision s"
    "known_reason s (ev_reasonCode e) = Inr (st, cs)"
    "st_activeRepairStops s = [] \<and> st_specificationRestart s = None \<or>
       ev_reasonCode e \<notin> {''run.resumed'', ''run.transition.accepted'', ''run.completed''}"
    "t = (stamp e s)\<lparr> st_status := st, st_currentStep := cs,
       st_createdAt := (case st_createdAt s of None \<Rightarrow> Some (ev_occurredAt e) | Some u \<Rightarrow> Some u) \<rparr>"
  using assms unfolding reduceKnownWorkflowReason_def by (auto split: if_splits)

text \<open>One replay step: the registry selects the reducer of the event's policy version.\<close>

definition workflow_step :: "workflow_state \<Rightarrow> 'a event_draft_scheme \<Rightarrow> reduction" where
  "workflow_step s e = (case workflow_reducer (ev_policyVersion e) of
     None \<Rightarrow> Inl Unsupported_workflow_event | Some reducer \<Rightarrow> reducer s e)"

text \<open>
  The sequencing rule of a verified stream (every event advances the revision by one)
  together with the rule that a run does not begin with a resumption.
\<close>

definition sequenced :: "workflow_state \<Rightarrow> 'a event_draft_scheme \<Rightarrow> bool" where
  "sequenced s e \<longleftrightarrow> ev_resultingRevision e = ev_priorRevision e + 1 \<and>
     (st_revision s = 0 \<longrightarrow> ev_reasonCode e \<noteq> ''run.resumed'')"

lemma workflow_stepE:
  assumes "workflow_step s e = Inr t"
  obtains (known) "reduceKnownWorkflowReason s e = Inr t"
  | (started) limits u where "ev_reasonCode e = ''run.started''" "ev_runLimits e = Some limits"
      "reduceKnownWorkflowReason s e = Inr u" "t = with_limits limits u"
  | (upgraded) "ev_priorRevision e = st_revision s" "reduce_upgrade s e = Inr t"
  | (restarted) "ev_priorRevision e = st_revision s" "reduce_started_from_spec s e = Inr t"
  | (acceptance) outcome where "ev_priorRevision e = st_revision s" "reduce_acceptance outcome s e = Inr t"
  | (resolved) "ev_priorRevision e = st_revision s" "reduce_resolution s e = Inr t"
proof (cases "ev_policyVersion e = LEGACY_WORKFLOW_POLICY_VERSION")
  case True
  with assms known show thesis
    by (simp add: workflow_step_def workflow_reducer_def reduceWorkflowV1_def)
next
  case False
  with assms have r: "reduceWorkflow s e = Inr t"
    by (auto simp: workflow_step_def workflow_reducer_def split: if_splits)
  then have prior: "ev_priorRevision e = st_revision s"
    by (auto simp: reduceWorkflow_def split: if_splits)
  show thesis
  proof (cases "ev_reasonCode e = ''run.started''")
    case True
    with r started show thesis
      by (auto simp: reduceWorkflow_def split: if_splits option.splits)
  next
    case False
    with r show thesis
      unfolding reduceWorkflow_def
      by (auto split: if_splits intro: known upgraded [OF prior] restarted [OF prior]
          acceptance [OF prior] resolved [OF prior])
  qed
qed


section \<open>Invariant of a run\<close>

text \<open>
  What the fields of a run agree on. The status determines whether there is a current
  phase and every resolution belongs to a replayed operation; attempts are counted per criterion between one and the ceiling; active repair
  stops block the run at acceptance, belong to counted attempts and are part of the
  history; a criterion whose attempts reached the ceiling is stopped or retired, and a
  run retired for a specification restart keeps an attempt at the ceiling.
\<close>

definition status_inv :: "workflow_state \<Rightarrow> bool" where
  "status_inv s \<longleftrightarrow>
     0 \<le> st_revision s \<and> int (length (st_operations s)) = st_revision s \<and>
     (st_revision s = 0 \<longleftrightarrow> st_status s = Idle) \<and>
     (st_currentStep s = None \<longleftrightarrow> st_status s \<in> {Idle, Done_completed}) \<and>
     (st_createdAt s = None \<longleftrightarrow> st_status s = Idle) \<and>
     (st_updatedAt s = None \<longleftrightarrow> st_status s = Idle) \<and>
     rc_operation ` set (st_repairResolutions s) \<subseteq> set (st_operations s)"

definition seed_inv :: "workflow_state \<Rightarrow> bool" where
  "seed_inv s \<longleftrightarrow> (st_status s = Idle \<longrightarrow>
     st_attempts s = [] \<and> st_activeRepairStops s = [] \<and> st_repairStopHistory s = [] \<and>
     st_repairResolutions s = [] \<and> st_specificationRestart s = None \<and>
     st_acceptanceAttemptCeiling s = None \<and> st_policyVersion s = None)"

definition attempts_inv :: "workflow_state \<Rightarrow> bool" where
  "attempts_inv s \<longleftrightarrow>
     distinct (map at_criterionId (st_attempts s)) \<and>
     (\<forall>a \<in> set (st_attempts s). \<exists>c. st_acceptanceAttemptCeiling s = Some c \<and>
        1 \<le> at_attempt a \<and> at_attempt a \<le> c \<and>
        (at_attempt a = c \<longrightarrow> st_specificationRestart s \<noteq> None \<or>
           at_criterionId a \<in> at_criterionId ` set (st_activeRepairStops s)))"

definition stops_inv :: "workflow_state \<Rightarrow> bool" where
  "stops_inv s \<longleftrightarrow>
     (st_activeRepairStops s \<noteq> [] \<longrightarrow> st_status s = Blocked \<and> st_currentStep s = Some Acceptance) \<and>
     distinct (map at_criterionId (st_activeRepairStops s)) \<and>
     (\<forall>stop \<in> set (st_activeRepairStops s).
        attempt.truncate stop \<in> set (st_attempts s) \<and>
        st_acceptanceAttemptCeiling s = Some (at_attempt stop) \<and>
        at_criterionId stop \<in> at_criterionId ` set (st_repairStopHistory s))"

definition restart_inv :: "workflow_state \<Rightarrow> bool" where
  "restart_inv s \<longleftrightarrow> (st_specificationRestart s \<noteq> None \<longrightarrow>
     (\<exists>a \<in> set (st_attempts s). st_acceptanceAttemptCeiling s = Some (at_attempt a)))"

definition workflow_inv :: "workflow_state \<Rightarrow> bool" where
  "workflow_inv s \<longleftrightarrow> status_inv s \<and> seed_inv s \<and> attempts_inv s \<and> stops_inv s \<and> restart_inv s"

lemmas workflow_inv_defs =
  workflow_inv_def status_inv_def seed_inv_def attempts_inv_def stops_inv_def restart_inv_def

lemma workflow_inv_seed: "workflow_inv (workflowSeed c)"
  by (simp add: workflow_inv_defs workflowSeed_def)

lemma truncate_attempt_sel [simp]:
  "at_criterionId (attempt.truncate a) = at_criterionId a" "at_attempt (attempt.truncate a) = at_attempt a"
  by (simp_all add: attempt.truncate_def)

lemma recorded_resolution_sel [simp]:
  "rc_operation (repair_resolution.extend (repair_resolution.truncate r) \<lparr> rc_operation = op \<rparr>) = op"
  "re_criterionId (repair_resolution.extend (repair_resolution.truncate r) \<lparr> rc_operation = op \<rparr>) = re_criterionId r"
  "re_classification (repair_resolution.extend (repair_resolution.truncate r) \<lparr> rc_operation = op \<rparr>) = re_classification r"
  "re_resolutionRef (repair_resolution.extend (repair_resolution.truncate r) \<lparr> rc_operation = op \<rparr>) = re_resolutionRef r"
  "re_resolutionDigest (repair_resolution.extend (repair_resolution.truncate r) \<lparr> rc_operation = op \<rparr>) = re_resolutionDigest r"
  "re_nextRunId (repair_resolution.extend (repair_resolution.truncate r) \<lparr> rc_operation = op \<rparr>) = re_nextRunId r"
  "re_restartTicketRef (repair_resolution.extend (repair_resolution.truncate r) \<lparr> rc_operation = op \<rparr>) = re_restartTicketRef r"
  "re_restartTicketDigest (repair_resolution.extend (repair_resolution.truncate r) \<lparr> rc_operation = op \<rparr>) = re_restartTicketDigest r"
  by (simp_all add: repair_resolution.defs)

lemma reduceKnown_inv:
  assumes inv: "workflow_inv s" and seq: "sequenced s e"
    and red: "reduceKnownWorkflowReason s e = Inr t"
  shows "workflow_inv t"
proof -
  from red obtain st cs where prior: "ev_priorRevision e = st_revision s"
    and kr: "known_reason s (ev_reasonCode e) = Inr (st, cs)"
    and guard: "st_activeRepairStops s = [] \<and> st_specificationRestart s = None \<or>
       ev_reasonCode e \<notin> {''run.resumed'', ''run.transition.accepted'', ''run.completed''}"
    and t: "t = (stamp e s)\<lparr> st_status := st, st_currentStep := cs,
       st_createdAt := (case st_createdAt s of None \<Rightarrow> Some (ev_occurredAt e) | Some u \<Rightarrow> Some u) \<rparr>"
    by (rule reduceKnownE)
  have rev: "ev_resultingRevision e = st_revision s + 1"
    using seq prior by (simp add: sequenced_def)
  have created: "st_createdAt t \<noteq> None" unfolding t by (simp split: option.split)
  have "st \<noteq> Idle \<and> (cs = None \<longleftrightarrow> st = Done_completed) \<and>
      (st_activeRepairStops s \<noteq> [] \<longrightarrow> st = Blocked \<and> cs = st_currentStep s)"
    using kr
  proof (cases rule: known_reasonE)
    case started
    with inv show ?thesis by (auto simp: workflow_inv_defs)
  next
    case resumed
    with inv guard seq show ?thesis by (auto simp: workflow_inv_defs sequenced_def)
  next
    case accepted
    with inv guard show ?thesis by (auto simp: workflow_inv_defs)
  next
    case rejected
    with inv show ?thesis by (auto simp: workflow_inv_defs)
  next
    case fact
    with inv show ?thesis by (auto simp: workflow_inv_defs)
  next
    case completed
    with inv guard show ?thesis by (auto simp: workflow_inv_defs)
  qed
  with inv rev created show ?thesis
    unfolding workflow_inv_defs by (auto simp: t)
qed


lemma started_inv:
  assumes inv: "workflow_inv s" and seq: "sequenced s e" and reason: "ev_reasonCode e = ''run.started''"
    and red: "reduceKnownWorkflowReason s e = Inr u"
  shows "workflow_inv (with_limits limits u)"
proof -
  have u: "workflow_inv u" by (rule reduceKnown_inv [OF inv seq red])
  from red obtain st cs where kr: "known_reason s ''run.started'' = Inr (st, cs)"
    and t: "u = (stamp e s)\<lparr> st_status := st, st_currentStep := cs,
       st_createdAt := (case st_createdAt s of None \<Rightarrow> Some (ev_occurredAt e) | Some u \<Rightarrow> Some u) \<rparr>"
    unfolding reason [symmetric] by (rule reduceKnownE)
  from kr have "st_revision s = 0" by (auto simp: known_reason_def split: if_splits)
  with inv have "st_attempts s = []" "st_activeRepairStops s = []" "st_repairStopHistory s = []"
    by (auto simp: workflow_inv_defs)
  moreover from inv \<open>st_revision s = 0\<close> have "st_specificationRestart s = None" by (simp add: workflow_inv_defs)
  ultimately have "st_attempts u = []" "st_activeRepairStops u = []" "st_repairStopHistory u = []"
      "st_specificationRestart u = None"
    by (simp_all add: t)
  moreover from kr have "st_status u = Active" by (auto simp: t known_reason_def split: if_splits)
  ultimately show ?thesis using u by (auto simp: workflow_inv_defs)
qed

lemma reduce_upgrade_inv:
  assumes "workflow_inv s" "sequenced s e" "ev_priorRevision e = st_revision s" "reduce_upgrade s e = Inr t"
  shows "workflow_inv t"
proof -
  from assms(4) obtain limits where t: "t = with_limits limits (stamp e s)"
    and up: "st_revision s \<noteq> 0" "upgradable s"
    by (auto simp: reduce_upgrade_def split: option.splits if_splits)
  from assms(2,3) have "ev_resultingRevision e = st_revision s + 1" by (simp add: sequenced_def)
  with assms(1) up show ?thesis by (auto simp: workflow_inv_defs t upgradable_def)
qed

lemma reduce_started_from_spec_inv:
  assumes "workflow_inv s" "sequenced s e" "ev_priorRevision e = st_revision s"
    "reduce_started_from_spec s e = Inr t"
  shows "workflow_inv t"
proof -
  from assms(4) have zero: "st_revision s = 0"
    by (auto simp: reduce_started_from_spec_def split: option.splits if_splits)
  with assms(1) have idle: "st_status s = Idle" by (simp add: workflow_inv_defs)
  with assms(1) have "st_attempts s = []" "st_activeRepairStops s = []" "st_repairStopHistory s = []"
      "st_repairResolutions s = []" "st_specificationRestart s = None"
    by (simp_all add: workflow_inv_defs)
  moreover from assms(2,3) zero have "ev_resultingRevision e = 1" by (simp add: sequenced_def)
  ultimately show ?thesis
    using assms(4) by (auto simp: reduce_started_from_spec_def workflow_inv_defs split: option.splits if_splits)
qed

text \<open>A canonical list of attempts counts each of its criteria exactly one further.\<close>

lemma attempts_canonical_iff:
  "attempts_canonical previous ceiling seen as \<longleftrightarrow>
     distinct (map at_criterionId as) \<and> set seen \<inter> at_criterionId ` set as = {} \<and>
     (\<forall>a \<in> set as. isAcceptanceCriterionId (at_criterionId a) \<and>
        at_attempt a = (case previous (at_criterionId a) of None \<Rightarrow> 0 | Some n \<Rightarrow> n) + 1 \<and>
        at_attempt a \<le> ceiling)"
  by (induction as arbitrary: seen) auto

lemma attempt_map_Some:
  "attempt_map as k = Some n \<Longrightarrow> \<exists>a \<in> set as. at_criterionId a = k \<and> at_attempt a = n"
  unfolding attempt_map_def by (auto dest!: map_of_SomeD)

lemma attempt_map_distinct:
  "distinct (map at_criterionId as) \<Longrightarrow> a \<in> set as \<Longrightarrow> attempt_map as (at_criterionId a) = Some (at_attempt a)"
  unfolding attempt_map_def rev_map [symmetric]
  by (rule map_of_is_SomeI) (auto simp: comp_def rev_map [symmetric])

lemma attempt_map_None: "attempt_map as k = None \<longleftrightarrow> k \<notin> at_criterionId ` set as"
  unfolding attempt_map_def by (simp add: map_of_eq_None_iff image_image)

lemma canonical_attempt_pos:
  assumes "attempts_inv s" "attempts_canonical (attempt_map (st_attempts s)) ceiling [] as" "a \<in> set as"
  shows "1 \<le> at_attempt a"
proof (cases "attempt_map (st_attempts s) (at_criterionId a)")
  case None
  with assms(2,3) show ?thesis by (auto simp: attempts_canonical_iff)
next
  case (Some n)
  then have "1 \<le> n" using assms(1) by (fastforce simp: attempts_inv_def dest: attempt_map_Some)
  with Some assms(2,3) show ?thesis by (auto simp: attempts_canonical_iff)
qed

lemma mergeAttempts_distinct:
  assumes "distinct (map at_criterionId (st_attempts s))" "distinct (map at_criterionId us)"
  shows "distinct (map at_criterionId (mergeAttempts s us))"
proof -
  have "set (map at_criterionId us) \<inter>
      set (map at_criterionId (filter (\<lambda>a. at_criterionId a \<notin> at_criterionId ` set us) (st_attempts s))) = {}"
    by auto (metis image_eqI)
  with assms show ?thesis by (simp add: mergeAttempts_def distinct_map_filter)
qed

lemma mergeAttempts_mem:
  "a \<in> set (mergeAttempts s us) \<longleftrightarrow>
     a \<in> set us \<or> a \<in> set (st_attempts s) \<and> at_criterionId a \<notin> at_criterionId ` set us"
  by (auto simp: mergeAttempts_def)

lemma canonical_decisionE:
  assumes "hasCanonicalAcceptanceDecision s e d outcome"
  obtains c where "st_acceptanceAttemptCeiling s = Some c" "st_currentStep s = Some Acceptance"
    "st_activeRepairStops s = []" "ad_outcome d = outcome"
    "attempts_canonical (attempt_map (st_attempts s)) c [] (ad_attempts d)"
    "outcome = Acc_repair \<longrightarrow> (\<forall>a \<in> set (ad_attempts d). at_attempt a < c)"
    "outcome = Acc_passed \<longrightarrow> ad_attempts d = []"
    "outcome \<noteq> Acc_passed \<longrightarrow> ad_attempts d \<noteq> []"
    "outcome = Acc_stopped \<longrightarrow>
       stops_match (filter (\<lambda>a. at_attempt a = c) (ad_attempts d)) (ad_repairStops d) (ev_artifactRefs e) \<and>
       ad_repairStops d \<noteq> []"
proof -
  from assms obtain c where c: "st_acceptanceAttemptCeiling s = Some c"
    by (auto simp: hasCanonicalAcceptanceDecision_def split: option.splits)
  from assms c have can: "attempts_canonical (attempt_map (st_attempts s)) c [] (ad_attempts d)"
    by (auto simp: hasCanonicalAcceptanceDecision_def split: if_splits)
  have strict: "\<forall>a \<in> set (ad_attempts d). at_attempt a < c"
    if "filter (\<lambda>a. at_attempt a = c) (ad_attempts d) = []"
  proof
    fix a assume "a \<in> set (ad_attempts d)"
    with can that have "at_attempt a \<le> c" "at_attempt a \<noteq> c"
      by (auto simp: attempts_canonical_iff filter_empty_conv)
    then show "at_attempt a < c" by simp
  qed
  show thesis
    using assms c can strict
    by (intro that [of c])
      (auto simp: hasCanonicalAcceptanceDecision_def Let_def split: if_splits)
qed

lemma stops_matchD:
  assumes "stops_match as stops refs"
  shows "map at_criterionId stops = map at_criterionId as"
    and "stop \<in> set stops \<Longrightarrow> attempt.truncate stop \<in> set as"
    and "stop \<in> set stops \<Longrightarrow> rs_artifactRef stop \<in> set refs"
proof -
  have all: "list_all2 (\<lambda>a stop. at_criterionId a = at_criterionId stop \<and> at_attempt a = at_attempt stop \<and>
        rs_artifactRef stop \<in> set refs) as stops"
    using assms by (simp add: stops_match_def)
  then show "map at_criterionId stops = map at_criterionId as"
    by (induction rule: list_all2_induct) auto
  have eq: "a = attempt.truncate stop" if "at_criterionId a = at_criterionId stop" "at_attempt a = at_attempt stop"
    for a :: attempt and stop :: repair_stop
    using that by (intro attempt.equality) auto
  from all show "stop \<in> set stops \<Longrightarrow> attempt.truncate stop \<in> set as"
    by (induction rule: list_all2_induct) (auto dest: eq)
  from all show "stop \<in> set stops \<Longrightarrow> rs_artifactRef stop \<in> set refs"
    by (induction rule: list_all2_induct) auto
qed


lemma status_inv_stamp:
  assumes "status_inv s" "ev_resultingRevision e = st_revision s + 1" "st_currentStep s \<noteq> None"
    "st_status t \<in> {Active, Blocked}" "st_currentStep t \<noteq> None"
    "st_revision t = st_revision (stamp e s)" "st_operations t = st_operations (stamp e s)"
    "st_createdAt t = st_createdAt s" "st_updatedAt t = st_updatedAt (stamp e s)"
    "rc_operation ` set (st_repairResolutions t) \<subseteq> insert (ev_operation e) (rc_operation ` set (st_repairResolutions s))"
  shows "status_inv t"
  using assms by (auto simp: status_inv_def)

lemma seed_inv_trivial: "st_status s \<noteq> Idle \<Longrightarrow> seed_inv s"
  by (simp add: seed_inv_def)

lemma reduce_acceptanceE:
  assumes "reduce_acceptance outcome s e = Inr t"
  obtains d where "ev_acceptanceDecision e = Some d" "hasCanonicalAcceptanceDecision s e d outcome"
    "t = (case outcome of
              Acc_passed \<Rightarrow> stamp e s
            | Acc_repair \<Rightarrow> (stamp e s)
                \<lparr> st_status := Active, st_currentStep := Some Code,
                  st_attempts := mergeAttempts s (ad_attempts d) \<rparr>
            | Acc_stopped \<Rightarrow> (stamp e s)
                \<lparr> st_status := Blocked,
                  st_attempts := mergeAttempts s (ad_attempts d),
                  st_activeRepairStops := ad_repairStops d,
                  st_repairStopHistory := mergeRepairStopHistory s (ad_repairStops d) \<rparr>)"
  using assms by (auto simp: reduce_acceptance_def split: option.splits if_splits)

lemma mergeRepairStopHistory_ids:
  "at_criterionId ` set (mergeRepairStopHistory s stops) =
     at_criterionId ` set (st_repairStopHistory s) \<union> at_criterionId ` set stops"
  by (auto simp: mergeRepairStopHistory_def)

lemma merged_attempts_inv:
  assumes inv: "attempts_inv s" and ceil: "st_acceptanceAttemptCeiling s = Some c"
    and none: "st_activeRepairStops s = []"
    and can: "attempts_canonical (attempt_map (st_attempts s)) c [] us"
    and t: "st_attempts t = mergeAttempts s us" "st_acceptanceAttemptCeiling t = Some c"
      "st_specificationRestart t = st_specificationRestart s"
    and trip: "\<And>a. a \<in> set us \<Longrightarrow> at_attempt a = c \<Longrightarrow> at_criterionId a \<in> at_criterionId ` set (st_activeRepairStops t)"
  shows "attempts_inv t"
proof -
  have "distinct (map at_criterionId (mergeAttempts s us))"
    using inv can by (intro mergeAttempts_distinct) (auto simp: attempts_inv_def attempts_canonical_iff)
  moreover have "1 \<le> at_attempt a \<and> at_attempt a \<le> c \<and>
      (at_attempt a = c \<longrightarrow> st_specificationRestart t \<noteq> None \<or>
         at_criterionId a \<in> at_criterionId ` set (st_activeRepairStops t))"
    if "a \<in> set (mergeAttempts s us)" for a
  proof (cases "a \<in> set us")
    case True
    with can canonical_attempt_pos [OF inv can True] trip show ?thesis
      by (auto simp: attempts_canonical_iff)
  next
    case False
    with that have "a \<in> set (st_attempts s)" by (simp add: mergeAttempts_mem)
    with inv ceil none t(3) show ?thesis by (auto simp: attempts_inv_def)
  qed
  ultimately show ?thesis by (auto simp: attempts_inv_def t)
qed

text \<open>A canonical decision does not touch an attempt that is at the ceiling.\<close>

lemma merged_restart_inv:
  assumes inv: "attempts_inv s" and rinv: "restart_inv s" and ceil: "st_acceptanceAttemptCeiling s = Some c"
    and can: "attempts_canonical (attempt_map (st_attempts s)) c [] us"
    and t: "st_attempts t = mergeAttempts s us" "st_acceptanceAttemptCeiling t = Some c"
      "st_specificationRestart t = st_specificationRestart s"
  shows "restart_inv t"
proof (cases "st_specificationRestart s = None")
  case False
  with rinv ceil obtain a where a: "a \<in> set (st_attempts s)" "at_attempt a = c"
    by (auto simp: restart_inv_def)
  have "attempt_map (st_attempts s) (at_criterionId a) = Some c"
    using attempt_map_distinct [of "st_attempts s" a] inv a by (simp add: attempts_inv_def)
  then have "at_criterionId a \<notin> at_criterionId ` set us"
    using can by (fastforce simp: attempts_canonical_iff)
  with a have "a \<in> set (mergeAttempts s us)" by (simp add: mergeAttempts_mem)
  with a t show ?thesis by (auto simp: restart_inv_def)
qed (simp add: restart_inv_def t)

lemma reduce_acceptance_inv:
  assumes inv: "workflow_inv s" and seq: "sequenced s e" and prior: "ev_priorRevision e = st_revision s"
    and red: "reduce_acceptance outcome s e = Inr t"
  shows "workflow_inv t"
proof -
  from red obtain d where d: "hasCanonicalAcceptanceDecision s e d outcome"
    and t: "t = (case outcome of
              Acc_passed \<Rightarrow> stamp e s
            | Acc_repair \<Rightarrow> (stamp e s)
                \<lparr> st_status := Active, st_currentStep := Some Code,
                  st_attempts := mergeAttempts s (ad_attempts d) \<rparr>
            | Acc_stopped \<Rightarrow> (stamp e s)
                \<lparr> st_status := Blocked,
                  st_attempts := mergeAttempts s (ad_attempts d),
                  st_activeRepairStops := ad_repairStops d,
                  st_repairStopHistory := mergeRepairStopHistory s (ad_repairStops d) \<rparr>)"
    by (rule reduce_acceptanceE)
  from d obtain c where c: "st_acceptanceAttemptCeiling s = Some c" "st_currentStep s = Some Acceptance"
      "st_activeRepairStops s = []"
    and can: "attempts_canonical (attempt_map (st_attempts s)) c [] (ad_attempts d)"
    and repair: "outcome = Acc_repair \<longrightarrow> (\<forall>a \<in> set (ad_attempts d). at_attempt a < c)"
    and stopped: "outcome = Acc_stopped \<longrightarrow>
       stops_match (filter (\<lambda>a. at_attempt a = c) (ad_attempts d)) (ad_repairStops d) (ev_artifactRefs e) \<and>
       ad_repairStops d \<noteq> []"
    by (rule canonical_decisionE) blast
  have rev: "ev_resultingRevision e = st_revision s + 1"
    using seq prior by (simp add: sequenced_def)
  have rinv: "restart_inv s" using inv by (simp add: workflow_inv_def)
  have att: "attempts_inv s" and status: "st_status s \<in> {Active, Blocked}" and sinv: "status_inv s"
    using inv c by (cases "st_status s"; auto simp: workflow_inv_defs)+
  have status_t: "status_inv t"
    using status c rev by (intro status_inv_stamp [OF sinv rev]) (auto simp: t split: acceptance_outcome.split)
  have seed_t: "seed_inv t"
    using status by (intro seed_inv_trivial) (auto simp: t split: acceptance_outcome.split)
  show ?thesis
  proof (cases outcome)
    case Acc_passed
    then show ?thesis using inv status_t seed_t c by (auto simp: t workflow_inv_def attempts_inv_def stops_inv_def restart_inv_def)
  next
    case Acc_repair
    then have "attempts_inv t"
      using repair by (intro merged_attempts_inv [OF att c(1,3) can]) (auto simp: t c)
    moreover from Acc_repair have "restart_inv t"
      by (intro merged_restart_inv [OF att rinv c(1) can]) (auto simp: t c)
    ultimately show ?thesis using Acc_repair status_t seed_t by (simp add: workflow_inv_def stops_inv_def t c)
  next
    case Acc_stopped
    note match = conjunct1 [OF mp [OF stopped Acc_stopped]]
    have ids: "at_criterionId ` set (ad_repairStops d) = at_criterionId ` {a \<in> set (ad_attempts d). at_attempt a = c}"
      using arg_cong [OF stops_matchD(1) [OF match], of set] by simp
    have "attempts_inv t"
      using Acc_stopped by (intro merged_attempts_inv [OF att c(1,3) can]) (auto simp: t c ids)
    moreover have "distinct (map at_criterionId (ad_repairStops d))"
      unfolding stops_matchD(1) [OF match]
      using can by (auto simp: attempts_canonical_iff distinct_map_filter)
    then have "stops_inv t"
      using Acc_stopped stops_matchD(2) [OF match]
      by (auto simp: stops_inv_def t c mergeAttempts_mem mergeRepairStopHistory_ids)
    moreover from Acc_stopped have "restart_inv t"
      by (intro merged_restart_inv [OF att rinv c(1) can]) (auto simp: t c)
    ultimately show ?thesis using status_t seed_t by (simp add: workflow_inv_def)
  qed
qed


lemma resolution_stop:
  assumes "stops_inv s" "List.find (\<lambda>x. at_criterionId x = k) (st_activeRepairStops s) = Some stop"
  shows "stop \<in> set (st_activeRepairStops s)" "at_criterionId stop = k"
    "st_status s = Blocked" "st_currentStep s = Some Acceptance"
proof -
  from assms(2) show stop: "stop \<in> set (st_activeRepairStops s)" and "at_criterionId stop = k"
    by (auto simp: find_Some_iff)
  then have "st_activeRepairStops s \<noteq> []" by auto
  with assms(1) show "st_status s = Blocked" "st_currentStep s = Some Acceptance"
    by (simp_all add: stops_inv_def)
qed

lemma reduce_resolutionE:
  assumes "reduce_resolution s e = Inr t"
  obtains (code) r stop where "ev_repairResolution e = Some r" "re_classification r = Code_fault"
      "st_status s = Blocked" "st_specificationRestart s = None"
      "List.find (\<lambda>x. at_criterionId x = re_criterionId r) (st_activeRepairStops s) = Some stop"
      "rs_classification stop = Code_fault"
      "re_nextRunId r = None" "re_restartTicketRef r = None" "re_restartTicketDigest r = None"
      "t = (stamp e s)\<lparr>
         st_activeRepairStops := filter (\<lambda>x. at_criterionId x \<noteq> re_criterionId r) (st_activeRepairStops s),
         st_repairResolutions := st_repairResolutions s @
           [repair_resolution.extend (repair_resolution.truncate r) \<lparr> rc_operation = ev_operation e \<rparr>],
         st_status := (if filter (\<lambda>x. at_criterionId x \<noteq> re_criterionId r) (st_activeRepairStops s) = [] then Active else Blocked),
         st_currentStep := (if filter (\<lambda>x. at_criterionId x \<noteq> re_criterionId r) (st_activeRepairStops s) = []
            then Some Code else st_currentStep s),
         st_attempts := filter (\<lambda>a. at_criterionId a \<noteq> re_criterionId r) (st_attempts s) \<rparr>"
  | (respec) r stop nrun ref digest where "ev_repairResolution e = Some r"
      "re_classification r = Specification_fault" "st_status s = Blocked" "st_specificationRestart s = None"
      "List.find (\<lambda>x. at_criterionId x = re_criterionId r) (st_activeRepairStops s) = Some stop"
      "rs_classification stop = Specification_fault"
      "re_nextRunId r = Some nrun" "re_restartTicketRef r = Some ref" "re_restartTicketDigest r = Some digest"
      "\<forall>x \<in> set (st_activeRepairStops s). at_criterionId x \<noteq> re_criterionId r \<longrightarrow> rs_classification x \<noteq> Code_fault"
      "t = (stamp e s)\<lparr>
         st_activeRepairStops := filter (\<lambda>x. at_criterionId x \<noteq> re_criterionId r) (st_activeRepairStops s),
         st_repairResolutions := st_repairResolutions s @
           [repair_resolution.extend (repair_resolution.truncate r) \<lparr> rc_operation = ev_operation e \<rparr>],
         st_status := Blocked,
         st_specificationRestart := Some \<lparr> sr_criterionId = re_criterionId r, sr_nextRunId = nrun,
            sr_restartTicketRef = ref, sr_restartTicketDigest = digest \<rparr> \<rparr>"
proof -
  from assms obtain r where r: "ev_repairResolution e = Some r"
    by (auto simp: reduce_resolution_def split: option.splits)
  from assms r have st: "st_status s = Blocked" "st_specificationRestart s = None"
    by (auto simp: reduce_resolution_def split: if_splits)
  from assms r st obtain stop
    where stop: "List.find (\<lambda>x. at_criterionId x = re_criterionId r) (st_activeRepairStops s) = Some stop"
    by (cases "List.find (\<lambda>x. at_criterionId x = re_criterionId r) (st_activeRepairStops s)")
      (auto simp: reduce_resolution_def)
  from assms r st stop have cls: "rs_classification stop = re_classification r"
    by (auto simp: reduce_resolution_def split: if_splits)
  show thesis
  proof (cases "re_classification r")
    case Code_fault
    with assms r st stop cls show thesis
      by (intro code [of r stop]) (auto simp: reduce_resolution_def Let_def split: if_splits)
  next
    case Specification_fault
    with assms r st stop cls obtain nrun ref digest where
      refs: "re_nextRunId r = Some nrun" "re_restartTicketRef r = Some ref" "re_restartTicketDigest r = Some digest"
      by (auto simp: reduce_resolution_def Let_def split: if_splits option.splits)
    with assms r st stop cls Specification_fault show thesis
      by (intro respec [of r stop nrun ref digest])
        (auto simp: reduce_resolution_def Let_def list_ex_iff split: if_splits)
  qed
qed

lemma reduce_resolution_inv:
  assumes inv: "workflow_inv s" and seq: "sequenced s e" and prior: "ev_priorRevision e = st_revision s"
    and red: "reduce_resolution s e = Inr t"
  shows "workflow_inv t"
proof -
  have rev: "ev_resultingRevision e = st_revision s + 1"
    using seq prior by (simp add: sequenced_def)
  have sinv: "status_inv s" and ainv: "attempts_inv s" and stinv: "stops_inv s"
    using inv by (simp_all add: workflow_inv_def)
  from red show ?thesis
  proof (cases rule: reduce_resolutionE)
    case (code r stop)
    note step = resolution_stop [OF stinv code(5)]
    have "status_inv t"
      using step code by (intro status_inv_stamp [OF sinv rev]) auto
    moreover have "attempts_inv t"
      using ainv code by (auto simp: attempts_inv_def distinct_map_filter)
    moreover have "stops_inv t"
      using stinv step(3,4) by (auto simp: code(10) stops_inv_def distinct_map_filter)
    ultimately show ?thesis
      using code by (simp add: workflow_inv_def seed_inv_def restart_inv_def)
  next
    case (respec r stop nrun ref digest)
    note step = resolution_stop [OF stinv respec(5)]
    have "status_inv t"
      using step respec by (intro status_inv_stamp [OF sinv rev]) auto
    moreover have "attempts_inv t"
      using ainv respec by (auto simp: attempts_inv_def)
    moreover have "stops_inv t"
      using stinv step(3,4) by (auto simp: respec(11) stops_inv_def distinct_map_filter)
    moreover have "restart_inv t"
      using stinv step(1) respec(11) by (force simp: stops_inv_def restart_inv_def)
    ultimately show ?thesis
      using respec by (simp add: workflow_inv_def seed_inv_def)
  qed
qed

interpretation run: event_reducer
  "workflow_step :: workflow_state \<Rightarrow> 'a event_draft_scheme \<Rightarrow> reduction" sequenced workflow_inv
proof
  fix s t :: workflow_state and e :: "'a event_draft_scheme"
  assume inv: "workflow_inv s" and seq: "sequenced s e" and "workflow_step s e = Inr t"
  from this(3) show "workflow_inv t"
  proof (cases rule: workflow_stepE)
    case known
    then show ?thesis by (rule reduceKnown_inv [OF inv seq])
  next
    case (started limits u)
    then show ?thesis using started_inv [OF inv seq] by simp
  next
    case upgraded
    then show ?thesis by (rule reduce_upgrade_inv [OF inv seq])
  next
    case restarted
    then show ?thesis by (rule reduce_started_from_spec_inv [OF inv seq])
  next
    case (acceptance outcome)
    then show ?thesis by (rule reduce_acceptance_inv [OF inv seq])
  next
    case resolved
    then show ?thesis by (rule reduce_resolution_inv [OF inv seq])
  qed
qed

end
