(* ===== verification/Event_Replay.thy ===== *)
theory Event_Replay
  imports Event_Chain Workflow_Reducer
begin

text \<open>
  Replaying a verified stream (\<open>domain/events/reduce.ts\<close>): the reducer of each event's
  policy version folds the state, the state is materialised as a snapshot, and the
  snapshot must be bound to the last event. Reducers are functions here, so the second
  run that the source compares with the first always agrees; a throw of a reducer is
  the \<^const>\<open>Inl\<close> side and becomes \<^const>\<open>Invalid_event\<close>.
\<close>

section \<open>Snapshots as JSON\<close>

definition status_texts :: "(run_status \<times> string) list" where
  "status_texts = [(Idle, ''idle''), (Active, ''active''), (Blocked, ''blocked''), (Done_completed, ''completed'')]"

definition lineage_json :: "lineage \<Rightarrow> json" where
  "lineage_json l = JObj [(''prdDigest'', JStr (ln_prdDigest l)), (''specDigest'', JStr (ln_specDigest l))]"

definition json_lineage :: "json \<Rightarrow> lineage option" where
  "json_lineage j =
     (if \<not> has_keys [''prdDigest'', ''specDigest''] j then None
      else do {
        p \<leftarrow> read_field json_string ''prdDigest'' j;
        s \<leftarrow> read_field json_string ''specDigest'' j;
        Some \<lparr> ln_prdDigest = p, ln_specDigest = s \<rparr> })"

definition snapshot_json :: "snapshot \<Rightarrow> json" where
  "snapshot_json s = JObj (contract_fields @
     [(''projectId'', JStr (sn_projectId s)), (''runId'', JStr (sn_runId s)),
      (''status'', enum_text status_texts (sn_status s)),
      (''currentStep'', optional (enum_text step_texts) (sn_currentStep s)),
      (''eventCursor'', JNum (sn_eventCursor s)), (''eventHash'', JStr (sn_eventHash s)),
      (''policyVersion'', JStr (sn_policyVersion s)), (''lineage'', lineage_json (sn_lineage s)),
      (''createdAt'', JStr (sn_createdAt s)), (''updatedAt'', JStr (sn_updatedAt s))])"

definition json_snapshot :: "json \<Rightarrow> snapshot option" where
  "json_snapshot j =
     (if \<not> has_keys [''contractVersion'', ''stateContract'', ''projectId'', ''runId'', ''status'', ''currentStep'',
           ''eventCursor'', ''eventHash'', ''policyVersion'', ''lineage'', ''createdAt'', ''updatedAt''] j
         \<or> \<not> contract_ok j then None
      else do {
        p \<leftarrow> read_field json_string ''projectId'' j;
        r \<leftarrow> read_field json_string ''runId'' j;
        st \<leftarrow> read_field (enum_of status_texts) ''status'' j;
        cs \<leftarrow> read_field (or_null (enum_of step_texts)) ''currentStep'' j;
        c \<leftarrow> read_field json_number ''eventCursor'' j;
        h \<leftarrow> read_field json_string ''eventHash'' j;
        pv \<leftarrow> read_field json_string ''policyVersion'' j;
        l \<leftarrow> read_field json_lineage ''lineage'' j;
        ca \<leftarrow> read_field json_string ''createdAt'' j;
        ua \<leftarrow> read_field json_string ''updatedAt'' j;
        Some \<lparr> sn_projectId = p, sn_runId = r, sn_status = st, sn_currentStep = cs, sn_eventCursor = c,
          sn_eventHash = h, sn_policyVersion = pv, sn_lineage = l, sn_createdAt = ca, sn_updatedAt = ua \<rparr> })"

lemma status_roundtrip [simp]: "enum_of status_texts (enum_text status_texts s) = Some s"
  by (rule enum_table; cases s; simp add: status_texts_def)

lemma step_optional [simp]:
  "normal (optional (enum_text step_texts) p) = optional (enum_text step_texts) p"
  "wf_json (optional (enum_text step_texts) p)"
  "or_null (enum_of step_texts) (optional (enum_text step_texts) p) = Some p"
  by (auto simp: optional_def or_null_def enum_text_def [of _ "the p"] split: option.splits)
    (simp_all add: enum_text_def)

interpretation lineage_codec: document_codec lineage_json json_lineage
  by unfold_locales (auto simp: lineage_json_def json_lineage_def reading simp del: normal.simps(2))

interpretation snapshot_codec: document_codec snapshot_json json_snapshot
  by unfold_locales
    (auto simp: snapshot_json_def json_snapshot_def contract_fields_def reading lineage_codec.encode_wf
      lineage_codec.decode_encode simp del: normal.simps(2))

section \<open>Replay\<close>

record 's event_registry =
  er_seed :: 's
  er_reducer :: "string \<Rightarrow> ('s \<Rightarrow> event \<Rightarrow> (reducer_error, 's) result) option"
  er_materialize :: "'s \<Rightarrow> event_cursor \<Rightarrow> (reducer_error, snapshot) result"

record 's replay_result =
  rp_state :: 's
  rp_snapshot :: snapshot
  rp_canonical :: string

definition thrown :: "('x, 'a) result \<Rightarrow> (integrity_error, 'a) result" where
  "thrown r = (case r of Inl _ \<Rightarrow> Inl (Invalid_event, None) | Inr x \<Rightarrow> Inr x)"

definition reduceOnce :: "'s event_registry \<Rightarrow> 's \<Rightarrow> event \<Rightarrow> (integrity_error, 's) result" where
  "reduceOnce registry state event =
     (case er_reducer registry (ev_policyVersion event) of
        None \<Rightarrow> Inl (Unsupported_policy, None)
      | Some reducer \<Rightarrow> thrown (reducer state event))"

definition hasFinalBindings :: "snapshot \<Rightarrow> verified_stream \<Rightarrow> bool" where
  "hasFinalBindings s stream \<longleftrightarrow>
     vs_events stream \<noteq> [] \<and>
     (let event = last (vs_events stream) in
       sn_eventCursor s = cu_revision (vs_cursor stream) \<and>
       Some (sn_eventHash s) = cu_hash (vs_cursor stream) \<and>
       sn_policyVersion s = ev_policyVersion event \<and> sn_updatedAt s = ev_occurredAt event)"

definition snapshot_version :: json where
  "snapshot_version = JStr ''1.0.0''"

definition replayEventStream ::
  "event_services \<Rightarrow> 's event_registry \<Rightarrow> verified_stream \<Rightarrow> (integrity_error, 's replay_result) result" where
  "replayEventStream sv registry stream =
     (if vs_events stream = [] then Inl (Invalid_event, None)
      else bind_result (replay_from (reduceOnce registry) (er_seed registry) (vs_events stream)) (\<lambda>state.
        bind_result (thrown (er_materialize registry state (vs_cursor stream))) (\<lambda>s.
          if \<not> hasFinalBindings s stream then Inl (Invalid_event, None)
          else case es_validate sv ''state.snapshot'' (Some snapshot_version) (snapshot_json s) of
            Some diagnostics \<Rightarrow> Inl (Invalid_event, None)
          | None \<Rightarrow> Inr \<lparr> rp_state = state, rp_snapshot = s, rp_canonical = canonicalizeJson (snapshot_json s) \<rparr>)))"

definition workflowReducerRegistry :: "reducer_configuration \<Rightarrow> workflow_state event_registry" where
  "workflowReducerRegistry configuration =
     \<lparr> er_seed = workflowSeed configuration, er_reducer = workflow_reducer, er_materialize = materialize \<rparr>"

section \<open>Replay of a run\<close>

lemma thrown_Inr [simp]: "thrown r = Inr x \<longleftrightarrow> r = Inr x"
  by (simp add: thrown_def split: sum.splits)

lemma replay_Inr:
  "replayEventStream sv registry stream = Inr r \<longleftrightarrow>
     vs_events stream \<noteq> [] \<and>
     replay_from (reduceOnce registry) (er_seed registry) (vs_events stream) = Inr (rp_state r) \<and>
     er_materialize registry (rp_state r) (vs_cursor stream) = Inr (rp_snapshot r) \<and>
     hasFinalBindings (rp_snapshot r) stream \<and>
     es_validate sv ''state.snapshot'' (Some snapshot_version) (snapshot_json (rp_snapshot r)) = None \<and>
     rp_canonical r = canonicalizeJson (snapshot_json (rp_snapshot r))"
  by (cases r) (auto simp: replayEventStream_def split: option.splits)

lemma reduceOnce_workflow [simp]:
  "reduceOnce (workflowReducerRegistry c) s e = Inr t \<longleftrightarrow> workflow_step s e = Inr t"
  by (auto simp: reduceOnce_def workflowReducerRegistry_def workflow_step_def split: option.splits)

lemma replay_workflow:
  "replay_from (reduceOnce (workflowReducerRegistry c)) s es = Inr t \<longleftrightarrow> replay_from workflow_step s es = Inr t"
  by (induction es arbitrary: s) auto

end
