(* ===== verification/Durable_Storage.thy ===== *)
theory Durable_Storage
  imports Transaction_Recovery Canonical_Json Js_Order
begin

text \<open>
  The durable file system the transaction manager works on, as the deterministic model
  \<open>infra/fake/transactions.ts\<close> defines it: files and directories, primitives driven one
  boundary at a time, and injected failures before or after a boundary. The machine also
  remembers every storage a boundary left behind, so that a crash between two boundaries
  is one of the remembered storages.
\<close>

section \<open>Storage and machine\<close>

record storage =
  sg_files :: "(string \<times> string) list"
  sg_directories :: "string list"

datatype durable_operation =
    Op_inspect | Op_list | Op_read_text | Op_create_directory | Op_create_directory_exclusive
  | Op_open_file | Op_write_file | Op_sync_file | Op_close_file | Op_replace_file
  | Op_link_file_exclusive | Op_rename_directory_exclusive | Op_remove_file
  | Op_remove_empty_directory | Op_sync_directory

datatype failure_timing = Before | After

record failure_rule =
  fr_operation :: durable_operation
  fr_timing :: failure_timing
  fr_occurrence :: nat

text \<open>What a failing call knows of its own attempt (\<open>TransactionFailureContext\<close>).\<close>

record failure_context =
  fc_transactionId :: "string option"
  fc_recoveryToken :: "string option"
  fc_validatedRecovery :: bool
  fc_publishingAuthorized :: bool

record machine =
  mc_storage :: storage
  mc_occurrences :: "durable_operation list"
  mc_rules :: "failure_rule list"
  mc_history :: "storage list"
  mc_ticks :: nat
  mc_ids :: nat
  mc_context :: failure_context

datatype transaction_reason =
    Guard_outside_allow | Internal_failure | Lease_conflict | Recovery_required
  | Revision_conflict | Runtime_state_corrupt

datatype evidence_kind = Artifact_evidence | Event_evidence

text \<open>
  What a step throws: any other error, the transaction manager's own failure, or,
  in the bounded form of an unbounded loop, the end of the bound.
\<close>

datatype driver_failure =
    Untyped_error
  | Loop_exhausted
  | Transaction_failure transaction_reason "(evidence_kind \<times> string) list"

type_synonym 'a proc = "machine \<Rightarrow> (driver_failure, 'a) result \<times> machine"

definition give :: "'a \<Rightarrow> 'a proc" where
  "give x m = (Inr x, m)"

definition throw :: "driver_failure \<Rightarrow> 'a proc" where
  "throw e m = (Inl e, m)"

definition and_then :: "'a proc \<Rightarrow> ('a \<Rightarrow> 'b proc) \<Rightarrow> 'b proc" where
  "and_then p f m = (case p m of (Inl e, n) \<Rightarrow> (Inl e, n) | (Inr x, n) \<Rightarrow> f x n)"

definition next_do :: "'a proc \<Rightarrow> 'b proc \<Rightarrow> 'b proc" where
  "next_do p q = and_then p (\<lambda>_. q)"

definition catch :: "'a proc \<Rightarrow> (driver_failure \<Rightarrow> 'a proc) \<Rightarrow> 'a proc" where
  "catch p h m = (case p m of (Inl e, n) \<Rightarrow> h e n | (Inr x, n) \<Rightarrow> (Inr x, n))"

definition ensure :: "bool \<Rightarrow> driver_failure \<Rightarrow> unit proc" where
  "ensure b e = (if b then give () else throw e)"

text \<open>A loop that carries a value, and one that carries none.\<close>

fun fold_proc :: "('s \<Rightarrow> 'a \<Rightarrow> 's proc) \<Rightarrow> 's \<Rightarrow> 'a list \<Rightarrow> 's proc" where
  "fold_proc f s [] = give s"
| "fold_proc f s (x # xs) = and_then (f s x) (\<lambda>t. fold_proc f t xs)"

fun each_proc :: "('a \<Rightarrow> unit proc) \<Rightarrow> 'a list \<Rightarrow> unit proc" where
  "each_proc f [] = give ()"
| "each_proc f (x # xs) = next_do (f x) (each_proc f xs)"

section \<open>Paths of the storage\<close>

fun normal_segments :: "string list \<Rightarrow> string list option" where
  "normal_segments [] = Some []"
| "normal_segments (s # ss) =
     (if s = '''' \<or> s = ''.'' then normal_segments ss
      else if s = ''..'' then None else map_option ((#) s) (normal_segments ss))"

definition normalizePath :: "string \<Rightarrow> string option" where
  "normalizePath path =
     (if path = '''' \<or> starts_with ''/'' path \<or> drive_prefix path \<or> CHR 0x5C \<in> set path \<or>
         list_ex (\<lambda>c. code_unit c < 32 \<or> code_unit c = 127) path
      then None
      else (case normal_segments (segments_of path) of
          None \<Rightarrow> None | Some ss \<Rightarrow> if ss = [] then None else Some (join_segments ss)))"

definition normalizeDurablePath :: "string \<Rightarrow> string option" where
  "normalizeDurablePath path =
     (case normalizePath path of
        None \<Rightarrow> None
      | Some normalized \<Rightarrow> if \<not> isManagedPathShape path \<or> normalized \<noteq> path then None else Some normalized)"

fun last_separator :: "string \<Rightarrow> nat option" where
  "last_separator [] = None"
| "last_separator (c # cs) =
     (case last_separator cs of
        Some i \<Rightarrow> Some (Suc i)
      | None \<Rightarrow> if c = CHR ''/'' then Some 0 else None)"

definition storage_parent :: "string \<Rightarrow> string option" where
  "storage_parent path = map_option (\<lambda>i. take i path) (last_separator path)"

text \<open>The names directly in a directory, and their listing in the order of \<open>localeCompare\<close>, a parameter.\<close>

definition entryNames :: "storage \<Rightarrow> string \<Rightarrow> string list" where
  "entryNames s path =
     js_set_list
       (map (\<lambda>candidate. first_segment (drop (length path + 1) candidate))
         (filter (\<lambda>candidate. starts_with (path @ ''/'') candidate) (map fst (sg_files s) @ sg_directories s)))"

definition immediateEntries :: "(string \<Rightarrow> string \<Rightarrow> int) \<Rightarrow> storage \<Rightarrow> string \<Rightarrow> string list" where
  "immediateEntries localeCompare s path = js_sort localeCompare (entryNames s path)"

lemma immediateEntries_Nil [simp]: "immediateEntries localeCompare s path = [] \<longleftrightarrow> entryNames s path = []"
  by (simp add: immediateEntries_def)

section \<open>Entries\<close>

fun assoc_set :: "'k \<Rightarrow> 'v \<Rightarrow> ('k \<times> 'v) list \<Rightarrow> ('k \<times> 'v) list" where
  "assoc_set k v [] = [(k, v)]"
| "assoc_set k v ((j, w) # ps) = (if j = k then (k, v) # ps else (j, w) # assoc_set k v ps)"

definition assoc_delete :: "'k \<Rightarrow> ('k \<times> 'v) list \<Rightarrow> ('k \<times> 'v) list" where
  "assoc_delete k ps = filter (\<lambda>(j, w). j \<noteq> k) ps"

definition file_at :: "storage \<Rightarrow> string \<Rightarrow> string option" where
  "file_at s path = map_of (sg_files s) path"

definition dir_at :: "storage \<Rightarrow> string \<Rightarrow> bool" where
  "dir_at s path \<longleftrightarrow> path \<in> set (sg_directories s)"

definition set_file :: "string \<Rightarrow> string \<Rightarrow> storage \<Rightarrow> storage" where
  "set_file path content s = s\<lparr>sg_files := assoc_set path content (sg_files s)\<rparr>"

definition delete_file :: "string \<Rightarrow> storage \<Rightarrow> storage" where
  "delete_file path s = s\<lparr>sg_files := assoc_delete path (sg_files s)\<rparr>"

definition add_dir :: "string \<Rightarrow> storage \<Rightarrow> storage" where
  "add_dir path s = s\<lparr>sg_directories := (if dir_at s path then sg_directories s else sg_directories s @ [path])\<rparr>"

definition remove_dir :: "string \<Rightarrow> storage \<Rightarrow> storage" where
  "remove_dir path s = s\<lparr>sg_directories := removeAll path (sg_directories s)\<rparr>"

lemma map_of_assoc_set [simp]: "map_of (assoc_set k v ps) = (map_of ps)(k \<mapsto> v)"
  by (induction k v ps rule: assoc_set.induct) (auto simp: fun_eq_iff)

lemma map_of_assoc_delete [simp]: "map_of (assoc_delete k ps) = (map_of ps)(k := None)"
  by (induction ps) (auto simp: assoc_delete_def fun_eq_iff)

lemma file_at_simps [simp]:
  "file_at (set_file p c s) = (file_at s)(p \<mapsto> c)"
  "file_at (delete_file p s) = (file_at s)(p := None)"
  "file_at (add_dir p s) = file_at s" "file_at (remove_dir p s) = file_at s"
  by (simp_all add: file_at_def set_file_def delete_file_def add_dir_def remove_dir_def fun_eq_iff)

lemma dir_at_simps [simp]:
  "dir_at (set_file p c s) = dir_at s" "dir_at (delete_file p s) = dir_at s"
  "dir_at (add_dir p s) q \<longleftrightarrow> q = p \<or> dir_at s q" "dir_at (remove_dir p s) q \<longleftrightarrow> q \<noteq> p \<and> dir_at s q"
  by (auto simp: dir_at_def set_file_def delete_file_def add_dir_def remove_dir_def fun_eq_iff)

section \<open>Boundaries and primitives\<close>

definition matchingRule :: "machine \<Rightarrow> durable_operation \<Rightarrow> failure_timing \<Rightarrow> bool" where
  "matchingRule m operation timing =
     list_ex (\<lambda>rule. fr_operation rule = operation \<and> fr_timing rule = timing \<and>
       fr_occurrence rule = length (filter (\<lambda>x. x = operation) (mc_occurrences m))) (mc_rules m)"

text \<open>
  One boundary: count the call, fail before it when a rule says so, run the effect
  (\<^const>\<open>None\<close> is an effect that throws), remember the storage, fail after it when a
  rule says so. The flag tells whether the effect took place.
\<close>

definition boundary ::
  "durable_operation \<Rightarrow> (storage \<Rightarrow> ('a \<times> storage) option) \<Rightarrow> machine \<Rightarrow> bool \<times> (driver_failure, 'a) result \<times> machine"
where
  "boundary operation eff m0 =
     (let m = m0\<lparr>mc_occurrences := operation # mc_occurrences m0\<rparr>
      in if matchingRule m operation Before then (False, Inl Untyped_error, m)
         else (case eff (mc_storage m) of
             None \<Rightarrow> (False, Inl Untyped_error, m)
           | Some (x, s) \<Rightarrow>
               (let n = m\<lparr>mc_storage := s, mc_history := s # mc_history m\<rparr>
                in if matchingRule m operation After then (True, Inl Untyped_error, n) else (True, Inr x, n))))"

definition primitive :: "durable_operation \<Rightarrow> (storage \<Rightarrow> ('a \<times> storage) option) \<Rightarrow> 'a proc" where
  "primitive operation eff m = snd (boundary operation eff m)"

definition durable :: "string \<Rightarrow> 'a proc \<Rightarrow> 'a proc" where
  "durable path p = (if normalizeDurablePath path = None then throw Untyped_error else p)"

definition has_parent :: "storage \<Rightarrow> string \<Rightarrow> bool" where
  "has_parent s path = (case storage_parent path of None \<Rightarrow> True | Some parent \<Rightarrow> dir_at s parent)"

definition vacant :: "storage \<Rightarrow> string \<Rightarrow> bool" where
  "vacant s path \<longleftrightarrow> file_at s path = None \<and> \<not> dir_at s path"

definition fingerprint_at :: "(string \<Rightarrow> string) \<Rightarrow> storage \<Rightarrow> string \<Rightarrow> path_fingerprint" where
  "fingerprint_at sha256 s path =
     (case file_at s path of
        Some content \<Rightarrow> File_print (utf8_length content) (sha256 content)
      | None \<Rightarrow> if dir_at s path then Directory else Missing)"

definition inspect :: "(string \<Rightarrow> string) \<Rightarrow> string \<Rightarrow> path_fingerprint proc" where
  "inspect sha256 path =
     (if path = ''.'' then primitive Op_inspect (\<lambda>s. Some (Directory, s))
      else durable path (primitive Op_inspect (\<lambda>s. Some (fingerprint_at sha256 s path, s))))"

definition list_entries :: "(string \<Rightarrow> string \<Rightarrow> int) \<Rightarrow> string \<Rightarrow> string list proc" where
  "list_entries localeCompare path =
     durable path (primitive Op_list
       (\<lambda>s. if dir_at s path then Some (immediateEntries localeCompare s path, s) else None))"

definition readText :: "string \<Rightarrow> string proc" where
  "readText path = durable path (primitive Op_read_text (\<lambda>s. map_option (\<lambda>c. (c, s)) (file_at s path)))"

definition createDirectory :: "string \<Rightarrow> unit proc" where
  "createDirectory path =
     durable path (primitive Op_create_directory
       (\<lambda>s. if has_parent s path \<and> file_at s path = None then Some ((), add_dir path s) else None))"

definition createDirectoryExclusive :: "string \<Rightarrow> unit proc" where
  "createDirectoryExclusive path =
     durable path (primitive Op_create_directory_exclusive
       (\<lambda>s. if has_parent s path \<and> vacant s path then Some ((), add_dir path s) else None))"

text \<open>
  \<open>writeSynced\<close> opens an empty file, writes and syncs it; once opened, it is closed
  whatever happened, and a failure to close is thrown.
\<close>

definition still_open :: "string \<Rightarrow> storage \<Rightarrow> (unit \<times> storage) option" where
  "still_open path s = (if file_at s path = None then None else Some ((), s))"

definition writeSynced :: "string \<Rightarrow> string \<Rightarrow> unit proc" where
  "writeSynced path content =
     durable path (\<lambda>m0.
       (case boundary Op_open_file
            (\<lambda>s. if has_parent s path \<and> vacant s path then Some ((), set_file path '''' s) else None) m0 of
          (False, r, m) \<Rightarrow> (r, m)
        | (True, r, m) \<Rightarrow>
            (case (case r of
                Inl e \<Rightarrow> (Inl e, m)
              | Inr _ \<Rightarrow> next_do
                  (primitive Op_write_file
                    (\<lambda>s. if file_at s path = None then None else Some ((), set_file path content s)))
                  (primitive Op_sync_file (still_open path)) m) of
              (r2, m2) \<Rightarrow>
                (case primitive Op_close_file (still_open path) m2 of
                   (Inl e, m3) \<Rightarrow> (Inl e, m3)
                 | (Inr _, m3) \<Rightarrow> (r2, m3)))))"

definition replaceFile :: "string \<Rightarrow> string \<Rightarrow> unit proc" where
  "replaceFile stagedPath targetPath =
     durable stagedPath (durable targetPath (primitive Op_replace_file
       (\<lambda>s. if has_parent s stagedPath \<and> has_parent s targetPath then
              (case file_at s stagedPath of
                 None \<Rightarrow> None
               | Some content \<Rightarrow> if dir_at s targetPath then None
                   else Some ((), set_file targetPath content (delete_file stagedPath s)))
            else None)))"

definition linkFileExclusive :: "string \<Rightarrow> string \<Rightarrow> unit proc" where
  "linkFileExclusive sourcePath targetPath =
     durable sourcePath (durable targetPath (primitive Op_link_file_exclusive
       (\<lambda>s. if has_parent s sourcePath \<and> has_parent s targetPath then
              (case file_at s sourcePath of
                 None \<Rightarrow> None
               | Some content \<Rightarrow> if \<not> vacant s targetPath then None
                   else Some ((), set_file targetPath content s))
            else None)))"

definition removeFile :: "string \<Rightarrow> unit proc" where
  "removeFile path =
     durable path (primitive Op_remove_file
       (\<lambda>s. if file_at s path = None then None else Some ((), delete_file path s)))"

definition removeEmptyDirectory :: "string \<Rightarrow> unit proc" where
  "removeEmptyDirectory path =
     durable path (primitive Op_remove_empty_directory
       (\<lambda>s. if dir_at s path \<and> entryNames s path = [] then Some ((), remove_dir path s) else None))"

definition syncDirectory :: "string \<Rightarrow> directory_sync proc" where
  "syncDirectory path =
     (if path = ''.'' then primitive Op_sync_directory (\<lambda>s. Some (Supported, s))
      else durable path (primitive Op_sync_directory (\<lambda>s. if dir_at s path then Some (Supported, s) else None)))"

end
