(* ===== verification/Transaction_Driver.thy ===== *)
theory Transaction_Driver
  imports Durable_Storage Transaction_Documents
begin

text \<open>
  The transaction manager of \<open>composition/transactions.ts\<close>: a plan is staged, recorded in
  a manifest, published operation by operation and committed, with \<open>progress.json\<close>
  replaced at every step; recovery reads those documents and drives the transaction to
  its end. Every call of the port is a step of the machine of \<open>Durable_Storage\<close>.
\<close>

section \<open>Services and requests\<close>

text \<open>
  The clock's and the id source's answers by call, the digest and the locale order of
  names are parameters.
\<close>

record transaction_services =
  sv_sha256 :: "string \<Rightarrow> string"
  sv_now :: "nat \<Rightarrow> string"
  sv_next_id :: "nat \<Rightarrow> string"
  sv_localeCompare :: "string \<Rightarrow> string \<Rightarrow> int"

record transaction_receipt =
  rc_transactionId :: string
  rc_manifestDigest :: "string option"
  rc_recoveryToken :: string
  rc_phase :: transaction_phase
  rc_directorySync :: directory_sync

record transaction_summary =
  sm_transactionId :: string
  sm_manifestDigest :: "string option"
  sm_recoveryToken :: string
  sm_phase :: transaction_phase
  sm_evidenceRef :: string

datatype root_mode = Existing | Initialize

type_synonym precondition = "string \<times> path_fingerprint"

record lease_binding =
  lb_leaseText :: string
  lb_eventsText :: string
  lb_expected :: "precondition list"

record execute_options =
  xo_rootMode :: root_mode
  xo_eventStorePreconditions :: "precondition list option"
  xo_guardPreconditions :: "precondition list option"
  xo_leaseGuard :: "lease_binding option"

text \<open>A lock artifact with the two states its holder may observe.\<close>

record guarded_artifact =
  ga_path :: string
  ga_expected :: path_fingerprint
  ga_published :: path_fingerprint

definition transactionsRoot :: string where "transactionsRoot = ''.brain/transactions''"

definition lockNamespace :: string where "lockNamespace = ''.brain/locks''"

definition transactionRoot :: "string \<Rightarrow> string" where
  "transactionRoot transactionId = transactionsRoot @ ''/'' @ transactionId"

definition progress_path :: "string \<Rightarrow> string" where "progress_path root = root @ ''/progress.json''"

definition next_path :: "string \<Rightarrow> string" where "next_path root = root @ ''/progress.next''"

definition manifest_path :: "string \<Rightarrow> string" where "manifest_path root = root @ ''/manifest.json''"

definition staging_path :: "string \<Rightarrow> string" where "staging_path root = root @ ''/staging''"

definition evidence :: "string \<Rightarrow> (evidence_kind \<times> string) list" where
  "evidence path = [(Artifact_evidence, path)]"

definition corrupt :: "string \<Rightarrow> driver_failure" where
  "corrupt path = Transaction_failure Runtime_state_corrupt (evidence path)"

definition now :: "transaction_services \<Rightarrow> string proc" where
  "now sv m = (Inr (sv_now sv (mc_ticks m)), m\<lparr>mc_ticks := Suc (mc_ticks m)\<rparr>)"

definition next_id :: "transaction_services \<Rightarrow> string proc" where
  "next_id sv m = (Inr (sv_next_id sv (mc_ids m)), m\<lparr>mc_ids := Suc (mc_ids m)\<rparr>)"

definition set_context :: "(failure_context \<Rightarrow> failure_context) \<Rightarrow> unit proc" where
  "set_context f m = (Inr (), m\<lparr>mc_context := f (mc_context m)\<rparr>)"

text \<open>
  The port's entries of kind \<open>special\<close> and \<open>symlink\<close> do not occur in this storage, so an
  inspected entry is its fingerprint.
\<close>

definition observeFingerprint :: "transaction_services \<Rightarrow> string \<Rightarrow> path_fingerprint proc" where
  "observeFingerprint sv path = inspect (sv_sha256 sv) path"

definition parentOf :: "string \<Rightarrow> string" where
  "parentOf path = (case storage_parent path of None \<Rightarrow> ''.'' | Some parent \<Rightarrow> parent)"

definition mergeDirectorySync :: "directory_sync \<Rightarrow> directory_sync \<Rightarrow> directory_sync" where
  "mergeDirectorySync current observed =
     (if current = Unsupported \<or> observed = Unsupported then Unsupported else Supported)"

definition contentFingerprint :: "transaction_services \<Rightarrow> string \<Rightarrow> path_fingerprint" where
  "contentFingerprint sv content = File_print (utf8_length content) (sv_sha256 sv content)"

definition is_file_print :: "path_fingerprint \<Rightarrow> bool" where
  "is_file_print f = (case f of File_print _ _ \<Rightarrow> True | _ \<Rightarrow> False)"

section \<open>Options and the lease guard\<close>

definition lockScope :: "string \<Rightarrow> bool" where
  "lockScope path =
     (case segments_of path of
        a # b # c # d # rest \<Rightarrow> a = ''.brain'' \<and> b = ''locks'' \<and>
          (c = ''project'' \<or>
           (c = ''runs'' \<and> list_all is_id_char d \<and> 1 \<le> length d \<and> length d \<le> 128 \<and> rest \<noteq> []))
      | _ \<Rightarrow> False)"

definition reservedGuardPath :: "string \<Rightarrow> string \<Rightarrow> bool" where
  "reservedGuardPath path name \<longleftrightarrow> lockScope path \<and> ends_with (''/'' @ name) path"

definition feature_name :: "string \<Rightarrow> bool" where
  "feature_name s = (case s of
     [] \<Rightarrow> False
   | c # cs \<Rightarrow> (is_lower c \<or> is_digit c) \<and>
       list_all (\<lambda>c. is_lower c \<or> is_digit c \<or> c = CHR ''-'') cs \<and> length cs \<le> 63)"

text \<open>The feature, the run and the file of a run's event stream or state.\<close>

definition run_artifact :: "string \<Rightarrow> (string \<times> string \<times> string) option" where
  "run_artifact path =
     (case segments_of path of
        [a, b, feature, r, run, name] \<Rightarrow>
          if a = ''.brain'' \<and> b = ''02-features'' \<and> feature_name feature \<and> r = ''runs'' \<and> id_test run \<and>
             (name = ''events.jsonl'' \<or> name = ''state.json'')
          then Some (feature, run, name) else None
      | _ \<Rightarrow> None)"

definition EVENT_STREAM_PATH :: "string \<Rightarrow> bool" where
  "EVENT_STREAM_PATH path =
     (case run_artifact path of Some (_, _, name) \<Rightarrow> name = ''events.jsonl'' | None \<Rightarrow> False)"

definition freezeFingerprintStrict :: "path_fingerprint \<Rightarrow> bool" where
  "freezeFingerprintStrict f \<longleftrightarrow> f \<noteq> Directory \<and> valid_fingerprint f"

fun event_pairs_ok :: "(string \<times> string) list \<Rightarrow> precondition list \<Rightarrow> bool" where
  "event_pairs_ok destinations [] = True"
| "event_pairs_ok destinations [_] = False"
| "event_pairs_ok destinations (left # right # rest) =
     (case (run_artifact (fst left), run_artifact (fst right)) of
        (Some (f, r, n), Some (f', r', n')) \<Rightarrow>
          n = ''events.jsonl'' \<and> n' = ''state.json'' \<and> f = f' \<and> r = r' \<and> (f, r) \<notin> set destinations \<and>
          event_pairs_ok ((f, r) # destinations) rest
      | _ \<Rightarrow> False)"

definition freezeGuardPreconditions :: "precondition list option \<Rightarrow> bool" where
  "freezeGuardPreconditions entries =
     (case entries of
        None \<Rightarrow> True
      | Some ps \<Rightarrow> ps \<noteq> [] \<and> length ps \<le> 256 \<and> list_all (\<lambda>p. freezeFingerprintStrict (snd p)) ps \<and>
          list_all (\<lambda>p. isManagedDestination (fst p)) ps \<and> distinct (map (to_lower_case \<circ> fst) ps))"

definition freezeLeaseGuard :: "lease_binding option \<Rightarrow> bool" where
  "freezeLeaseGuard guard =
     (case guard of
        None \<Rightarrow> True
      | Some binding \<Rightarrow>
          (case lb_expected binding of
             [events, lease] \<Rightarrow>
               freezeFingerprintStrict (snd events) \<and> freezeFingerprintStrict (snd lease) \<and>
               reservedGuardPath (fst events) ''events.jsonl'' \<and> reservedGuardPath (fst lease) ''lease.json''
           | _ \<Rightarrow> False))"

definition freezeExecuteOptions :: "execute_options \<Rightarrow> (driver_failure, execute_options) result" where
  "freezeExecuteOptions options =
     (if freezeLeaseGuard (xo_leaseGuard options) \<and> freezeGuardPreconditions (xo_guardPreconditions options) \<and>
         (case xo_eventStorePreconditions options of
            None \<Rightarrow> True
          | Some ps \<Rightarrow> ps \<noteq> [] \<and> list_all (\<lambda>p. freezeFingerprintStrict (snd p)) ps \<and> event_pairs_ok [] ps)
      then Inr options else Inl (Transaction_failure Internal_failure []))"

definition reservedGuardWrite ::
  "transaction_services \<Rightarrow> nat \<Rightarrow> precondition \<Rightarrow> string \<Rightarrow> managed_operation" where
  "reservedGuardWrite sv index precondition content =
     (let operationId = operationIdAt index
      in \<lparr> dr_kind = Write_op content, dr_path = fst precondition, dr_expected = snd precondition,
           dr_result = contentFingerprint sv content, mo_operationId = operationId,
           mo_stagedPath = Some (staged_name operationId) \<rparr>)"

definition renumbered :: "managed_operation \<Rightarrow> nat \<Rightarrow> managed_operation" where
  "renumbered operation index =
     (let operationId = operationIdAt index
      in (case dr_kind operation of
            Write_op _ \<Rightarrow> operation\<lparr>mo_operationId := operationId, mo_stagedPath := Some (staged_name operationId)\<rparr>
          | _ \<Rightarrow> operation\<lparr>mo_operationId := operationId\<rparr>))"

definition bindLeaseGuard ::
  "transaction_services \<Rightarrow> managed_operation list \<Rightarrow> lease_binding \<Rightarrow> (driver_failure, managed_operation list) result"
where
  "bindLeaseGuard sv operations binding =
     (if list_ex (\<lambda>operation. dr_path operation = lockNamespace \<or>
            starts_with (lockNamespace @ ''/'') (dr_path operation)) operations
      then Inl (Transaction_failure Guard_outside_allow [])
      else (case lb_expected binding of
          [events, lease] \<Rightarrow>
            (let bound = reservedGuardWrite sv 0 events (lb_eventsText binding) #
                   reservedGuardWrite sv 1 lease (lb_leaseText binding) #
                   map (\<lambda>(index, operation). renumbered operation (index + 2)) (enumerate 0 operations)
             in if validateManagedRelationships bound then Inr bound
                else Inl (Transaction_failure Runtime_state_corrupt []))
        | _ \<Rightarrow> Inl (Transaction_failure Internal_failure [])))"

definition bindingAuthority :: "transaction_services \<Rightarrow> lease_binding \<Rightarrow> guarded_artifact list" where
  "bindingAuthority sv binding =
     map (\<lambda>((path, expected), content).
         \<lparr> ga_path = path, ga_expected = expected, ga_published = contentFingerprint sv content \<rparr>)
       (zip (lb_expected binding) [lb_eventsText binding, lb_leaseText binding])"

definition manifestAuthority :: "transaction_manifest \<Rightarrow> guarded_artifact list option" where
  "manifestAuthority manifest =
     (case mf_operations manifest of
        events # lease # _ # _ \<Rightarrow>
          if reservedGuardPath (po_path events) ''events.jsonl'' \<and> reservedGuardPath (po_path lease) ''lease.json''
          then Some (map (\<lambda>operation. \<lparr> ga_path = po_path operation, ga_expected = po_expected operation,
                 ga_published = po_result operation \<rparr>) [events, lease])
          else None
      | _ \<Rightarrow> None)"

definition assertLeaseAuthority :: "transaction_services \<Rightarrow> guarded_artifact list option \<Rightarrow> unit proc" where
  "assertLeaseAuthority sv authority =
     (case authority of
        None \<Rightarrow> give ()
      | Some artifacts \<Rightarrow>
          each_proc (\<lambda>artifact. and_then (observeFingerprint sv (ga_path artifact)) (\<lambda>observed.
            ensure (sameFingerprint observed (ga_expected artifact) \<or> sameFingerprint observed (ga_published artifact))
              (Transaction_failure Lease_conflict (evidence (ga_path artifact))))) artifacts)"

section \<open>Checks of the observed files\<close>

text \<open>The preconditions that no longer hold, each with the kind of evidence it is.\<close>

definition changed_preconditions ::
  "transaction_services \<Rightarrow> (string \<Rightarrow> evidence_kind) \<Rightarrow> precondition list \<Rightarrow> (evidence_kind \<times> string) list proc" where
  "changed_preconditions sv kind_of =
     fold_proc (\<lambda>changed (path, expected). and_then (observeFingerprint sv path) (\<lambda>observed.
         give (if sameFingerprint observed expected then changed else changed @ [(kind_of path, path)]))) []"

definition assertDeclaredEventStorePreconditions ::
  "transaction_services \<Rightarrow> precondition list option \<Rightarrow> unit proc" where
  "assertDeclaredEventStorePreconditions sv entries =
     (case entries of
        None \<Rightarrow> give ()
      | Some ps \<Rightarrow>
          and_then
            (catch (changed_preconditions sv
                 (\<lambda>path. if EVENT_STREAM_PATH path then Event_evidence else Artifact_evidence) ps)
               (\<lambda>_. throw (Transaction_failure Internal_failure [])))
            (\<lambda>changed. ensure (changed = []) (Transaction_failure Revision_conflict changed)))"

definition assertDeclaredGuardPreconditions ::
  "transaction_services \<Rightarrow> precondition list option \<Rightarrow> unit proc" where
  "assertDeclaredGuardPreconditions sv entries =
     (case entries of
        None \<Rightarrow> give ()
      | Some ps \<Rightarrow> and_then (changed_preconditions sv (\<lambda>_. Artifact_evidence) ps)
          (\<lambda>changed. ensure (changed = []) (Transaction_failure Revision_conflict changed)))"

definition assertInitializeNamespaceAvailable :: "transaction_services \<Rightarrow> bool \<Rightarrow> unit proc" where
  "assertInitializeNamespaceAvailable sv createdBrain =
     (if createdBrain then give ()
      else and_then (list_entries (sv_localeCompare sv) ''.brain'') (\<lambda>entries. ensure (entries = []) (corrupt ''.brain'')))"

definition assertPreflightRoot :: "transaction_services \<Rightarrow> root_mode \<Rightarrow> unit proc" where
  "assertPreflightRoot sv rootMode =
     and_then (observeFingerprint sv ''.brain'') (\<lambda>brain.
       if brain = Missing \<and> rootMode = Initialize then give ()
       else next_do (ensure (brain = Directory) (corrupt ''.brain''))
         (and_then (observeFingerprint sv transactionsRoot) (\<lambda>transactions.
           if transactions = Missing \<and> rootMode = Initialize then assertInitializeNamespaceAvailable sv False
           else ensure (transactions = Directory) (corrupt transactionsRoot))))"

definition assertExistingRoot :: "transaction_services \<Rightarrow> root_mode \<Rightarrow> unit proc" where
  "assertExistingRoot sv rootMode =
     and_then (observeFingerprint sv ''.brain'') (\<lambda>brain0.
     and_then (if rootMode = Initialize \<and> brain0 = Missing
               then next_do (createDirectory ''.brain'') (and_then (syncDirectory ''.'') (\<lambda>_. give (Directory, True)))
               else give (brain0, False)) (\<lambda>(brain, createdBrain).
     next_do (ensure (brain = Directory) (corrupt ''.brain''))
     (and_then (observeFingerprint sv transactionsRoot) (\<lambda>transactions0.
      and_then (if rootMode = Initialize \<and> transactions0 = Missing
                then next_do (assertInitializeNamespaceAvailable sv createdBrain)
                  (next_do (createDirectory transactionsRoot) (and_then (syncDirectory ''.brain'') (\<lambda>_. give Directory)))
                else give transactions0) (\<lambda>transactions.
      ensure (transactions = Directory) (corrupt transactionsRoot))))))"


section \<open>Documents of a transaction\<close>

definition validateProgress :: "transaction_progress \<Rightarrow> transaction_progress proc" where
  "validateProgress p =
     (if valid_progress p then give p else throw (Transaction_failure Runtime_state_corrupt []))"

definition validateManifest :: "transaction_manifest \<Rightarrow> transaction_manifest proc" where
  "validateManifest m =
     (if valid_manifest m then give m else throw (Transaction_failure Runtime_state_corrupt []))"

definition identity_token :: "transaction_services \<Rightarrow> string \<Rightarrow> string \<Rightarrow> string" where
  "identity_token sv transactionId createdAt =
     sv_sha256 sv (canonicalizeJson (JObj (contract_fields @
       [(''transactionId'', JStr transactionId), (''createdAt'', JStr createdAt)])))"

definition plan_digest :: "transaction_services \<Rightarrow> persisted_operation list \<Rightarrow> string" where
  "plan_digest sv operations = sv_sha256 sv (canonicalizeJson (JObj [(''operations'', operations_json operations)]))"

definition manifest_operation :: "string \<Rightarrow> managed_operation \<Rightarrow> persisted_operation" where
  "manifest_operation root operation =
     (let value = toPersistedManagedOperation operation
      in value\<lparr>po_stagedPath := map_option (\<lambda>s. root @ ''/'' @ s) (po_stagedPath value)\<rparr>)"

definition createManifest ::
  "transaction_services \<Rightarrow> managed_operation list \<Rightarrow> string \<Rightarrow> string \<Rightarrow> string \<Rightarrow> transaction_manifest proc" where
  "createManifest sv plan transactionId createdAt root =
     (if plan = [] then throw (Transaction_failure Runtime_state_corrupt [])
      else validateManifest
        \<lparr> mf_transactionId = transactionId, mf_planDigest = plan_digest sv (map toPersistedManagedOperation plan),
          mf_createdAt = createdAt, mf_operations = map (manifest_operation root) plan \<rparr>)"

definition merged_sync :: "directory_sync \<Rightarrow> string \<Rightarrow> directory_sync proc" where
  "merged_sync current path = and_then (syncDirectory path) (\<lambda>observed. give (mergeDirectorySync current observed))"

text \<open>Remove the scratch file left by an interrupted update, then replace \<open>progress.json\<close>.\<close>

definition persistProgress :: "transaction_services \<Rightarrow> transaction_progress \<Rightarrow> directory_sync proc" where
  "persistProgress sv progress =
     and_then (validateProgress progress) (\<lambda>validated.
       let root = transactionRoot (pg_transactionId validated)
       in and_then (observeFingerprint sv (next_path root)) (\<lambda>next.
          next_do
            (if is_file_print next
             then next_do (removeFile (next_path root)) (and_then (syncDirectory root) (\<lambda>_. give ()))
             else ensure (next = Missing) (corrupt (next_path root)))
            (next_do (writeSynced (next_path root) (document_text (progress_json validated)))
            (next_do (replaceFile (next_path root) (progress_path root))
              (merged_sync (pg_directorySync validated) root)))))"

text \<open>A progress document stamped with the time and persisted, as it stands afterwards.\<close>

definition stamped :: "transaction_services \<Rightarrow> transaction_progress \<Rightarrow> transaction_progress proc" where
  "stamped sv p = and_then (now sv) (\<lambda>t. validateProgress (p\<lparr>pg_updatedAt := t\<rparr>))"

definition stamp_and_persist :: "transaction_services \<Rightarrow> transaction_progress \<Rightarrow> transaction_progress proc" where
  "stamp_and_persist sv p =
     and_then (stamped sv p) (\<lambda>progress.
     and_then (persistProgress sv progress) (\<lambda>directorySync. give (progress\<lparr>pg_directorySync := directorySync\<rparr>)))"

definition removePayloads :: "transaction_services \<Rightarrow> string list \<Rightarrow> unit proc" where
  "removePayloads sv paths =
     each_proc (\<lambda>path. and_then (observeFingerprint sv path) (\<lambda>payload.
        if is_file_print payload then removeFile path else ensure (payload = Missing) (corrupt path))) paths"

definition cleanupTransaction ::
  "transaction_services \<Rightarrow> transaction_manifest \<Rightarrow> directory_sync \<Rightarrow> directory_sync proc" where
  "cleanupTransaction sv manifest currentDirectorySync =
     (let root = transactionRoot (mf_transactionId manifest); stagingRoot = staging_path root
      in next_do (removePayloads sv (staged_paths (mf_operations manifest)))
         (and_then (observeFingerprint sv stagingRoot) (\<lambda>staging.
          next_do
            (if staging = Directory
             then and_then (list_entries (sv_localeCompare sv) stagingRoot) (\<lambda>entries.
               next_do (ensure (entries = []) (corrupt stagingRoot)) (removeEmptyDirectory stagingRoot))
             else ensure (staging = Missing) (corrupt stagingRoot))
         (and_then (observeFingerprint sv (next_path root)) (\<lambda>next.
          next_do
            (if is_file_print next then removeFile (next_path root)
             else ensure (next = Missing) (corrupt (next_path root)))
            (merged_sync currentDirectorySync root))))))"

definition persistTerminalDirectorySync ::
  "transaction_services \<Rightarrow> transaction_progress \<Rightarrow> directory_sync \<Rightarrow> transaction_progress proc" where
  "persistTerminalDirectorySync sv progress observed =
     (let directorySync = mergeDirectorySync (pg_directorySync progress) observed
      in if directorySync = pg_directorySync progress then give progress
         else stamp_and_persist sv (progress\<lparr>pg_directorySync := directorySync\<rparr>))"

definition finalizeTerminalProgress :: "transaction_services \<Rightarrow> transaction_progress \<Rightarrow> transaction_progress proc" where
  "finalizeTerminalProgress sv progress =
     and_then (syncDirectory (transactionRoot (pg_transactionId progress)))
       (persistTerminalDirectorySync sv progress)"

definition receiptFromProgress :: "transaction_progress \<Rightarrow> transaction_receipt proc" where
  "receiptFromProgress progress =
     (if pg_phase progress \<noteq> Committed \<and> pg_phase progress \<noteq> Aborted
      then throw (corrupt (progress_path (transactionRoot (pg_transactionId progress))))
      else give \<lparr> rc_transactionId = pg_transactionId progress, rc_manifestDigest = pg_manifestDigest progress,
        rc_recoveryToken = pg_recoveryToken progress, rc_phase = pg_phase progress,
        rc_directorySync = pg_directorySync progress \<rparr>)"

section \<open>Executing a plan\<close>

definition stagedPayloadPath :: "string \<Rightarrow> managed_operation \<Rightarrow> string" where
  "stagedPayloadPath root operation = root @ ''/'' @ the (mo_stagedPath operation)"

definition assertPreconditions :: "transaction_services \<Rightarrow> transaction_manifest \<Rightarrow> unit proc" where
  "assertPreconditions sv manifest =
     each_proc (\<lambda>operation. and_then (observeFingerprint sv (po_path operation)) (\<lambda>observed.
       ensure (sameFingerprint observed (po_expected operation))
         (Transaction_failure Revision_conflict (evidence (po_path operation))))) (mf_operations manifest)"

definition assertPublishable :: "transaction_services \<Rightarrow> managed_operation \<Rightarrow> unit proc" where
  "assertPublishable sv operation =
     and_then (observeFingerprint sv (parentOf (dr_path operation))) (\<lambda>parent.
     next_do (ensure (parent = Directory) (corrupt (dr_path operation)))
     (and_then (observeFingerprint sv (dr_path operation)) (\<lambda>observed.
       ensure (sameFingerprint observed (dr_expected operation))
         (Transaction_failure Revision_conflict (evidence (dr_path operation))))))"

definition assertExecutionPayload :: "transaction_services \<Rightarrow> managed_operation \<Rightarrow> string \<Rightarrow> unit proc" where
  "assertExecutionPayload sv operation root =
     (let path = stagedPayloadPath root operation
      in and_then (observeFingerprint sv path) (\<lambda>observed.
           ensure (sameFingerprint observed (dr_result operation)) (corrupt path)))"

definition publishOperation :: "managed_operation \<Rightarrow> string \<Rightarrow> unit proc" where
  "publishOperation operation root =
     (case dr_kind operation of
        Create_op \<Rightarrow> createDirectory (dr_path operation)
      | Write_op _ \<Rightarrow> replaceFile (stagedPayloadPath root operation) (dr_path operation)
      | Delete_op \<Rightarrow> removeFile (dr_path operation))"

definition assertResult :: "transaction_services \<Rightarrow> string \<Rightarrow> path_fingerprint \<Rightarrow> unit proc" where
  "assertResult sv path result =
     and_then (observeFingerprint sv path) (\<lambda>observed. ensure (sameFingerprint observed result) (corrupt path))"

definition assertResults :: "transaction_services \<Rightarrow> transaction_manifest \<Rightarrow> unit proc" where
  "assertResults sv manifest =
     each_proc (\<lambda>operation. assertResult sv (po_path operation) (po_result operation)) (mf_operations manifest)"

text \<open>Staging: each payload is written, checked, and its directory synced.\<close>

definition stagePayloads ::
  "transaction_services \<Rightarrow> managed_operation list \<Rightarrow> string \<Rightarrow> directory_sync \<Rightarrow> directory_sync proc" where
  "stagePayloads sv plan root directorySync =
     fold_proc (\<lambda>sync operation.
         case dr_kind operation of
           Write_op content \<Rightarrow>
             next_do (writeSynced (stagedPayloadPath root operation) content)
             (next_do (assertExecutionPayload sv operation root) (merged_sync sync (staging_path root)))
         | _ \<Rightarrow> give sync) directorySync plan"

text \<open>
  Publication of one operation; the carried values are the progress document, the
  directory sync and the ids published so far.
\<close>

definition publish_step ::
  "transaction_services \<Rightarrow> guarded_artifact list option \<Rightarrow> precondition list option \<Rightarrow> string \<Rightarrow>
   transaction_progress \<times> directory_sync \<Rightarrow> managed_operation \<Rightarrow> (transaction_progress \<times> directory_sync) proc" where
  "publish_step sv authority guards root s operation =
     next_do (assertLeaseAuthority sv authority)
     (next_do (assertDeclaredGuardPreconditions sv guards)
     (next_do (assertPublishable sv operation)
     (next_do (case dr_kind operation of Write_op _ \<Rightarrow> assertExecutionPayload sv operation root | _ \<Rightarrow> give ())
     (next_do (publishOperation operation root)
     (and_then (merged_sync (snd s) (parentOf (dr_path operation))) (\<lambda>directorySync.
      next_do (assertResult sv (dr_path operation) (dr_result operation))
      (and_then (stamped sv ((fst s)\<lparr>pg_published := pg_published (fst s) @ [mo_operationId operation],
          pg_directorySync := directorySync\<rparr>)) (\<lambda>progress.
       and_then (persistProgress sv progress) (\<lambda>directorySync'. give (progress, directorySync'))))))))))"

text \<open>
  A transaction from its identity on. Everything before the first persisted document can
  only leave an unmarked directory; publication is authorized by the document of phase
  \<open>publishing\<close>.
\<close>

definition runTransaction ::
  "transaction_services \<Rightarrow> managed_operation list \<Rightarrow> guarded_artifact list option \<Rightarrow> precondition list option \<Rightarrow>
   string \<Rightarrow> string \<Rightarrow> transaction_receipt proc" where
  "runTransaction sv plan authority guards transactionId createdAt =
     (let root = transactionRoot transactionId
      in and_then (stamped sv \<lparr> pg_transactionId = transactionId, pg_manifestDigest = None,
           pg_recoveryToken = identity_token sv transactionId createdAt, pg_phase = Begun, pg_published = [],
           pg_directorySync = Not_attempted, pg_createdAt = createdAt, pg_updatedAt = '''' \<rparr>) (\<lambda>begun.
         next_do (createDirectoryExclusive root)
         (and_then (merged_sync Not_attempted transactionsRoot) (\<lambda>sync1.
          and_then (persistProgress sv (begun\<lparr>pg_directorySync := sync1\<rparr>)) (\<lambda>sync2.
          next_do (createDirectory (staging_path root))
          (and_then (merged_sync sync2 root) (\<lambda>sync3.
           and_then (stagePayloads sv plan root sync3) (\<lambda>sync4.
           and_then (createManifest sv plan transactionId createdAt root) (\<lambda>manifest.
           let manifestDigest = sv_sha256 sv (canonicalizeJson (manifest_json manifest))
           in next_do (writeSynced (manifest_path root) (document_text (manifest_json manifest)))
              (and_then (merged_sync sync4 root) (\<lambda>sync5.
               next_do (assertDeclaredGuardPreconditions sv guards)
               (next_do (assertPreconditions sv manifest)
               (and_then (stamped sv (begun\<lparr>pg_manifestDigest := Some manifestDigest,
                   pg_recoveryToken := manifestDigest, pg_phase := Prepared, pg_directorySync := sync5\<rparr>)) (\<lambda>prepared.
                and_then (persistProgress sv prepared) (\<lambda>sync6.
                next_do (assertLeaseAuthority sv authority)
                (next_do (assertDeclaredGuardPreconditions sv guards)
                (and_then (stamped sv (prepared\<lparr>pg_phase := Publishing, pg_directorySync := sync6\<rparr>)) (\<lambda>publishing.
                 and_then (persistProgress sv publishing) (\<lambda>sync7.
                 next_do (set_context (\<lambda>c. c\<lparr>fc_publishingAuthorized := True\<rparr>))
                 (and_then (fold_proc (publish_step sv authority guards root) (publishing, sync7) plan) (\<lambda>(published, sync8).
                  next_do (assertResults sv manifest)
                  (next_do (assertDeclaredGuardPreconditions sv guards)
                  (and_then (stamped sv (published\<lparr>pg_phase := Committed,
                      pg_published := map po_operationId (mf_operations manifest), pg_directorySync := sync8\<rparr>)) (\<lambda>committed.
                   and_then (persistProgress sv committed) (\<lambda>sync9.
                   and_then (cleanupTransaction sv manifest sync9) (\<lambda>sync10.
                   and_then (persistTerminalDirectorySync sv committed sync10) receiptFromProgress
                   ))))))))))))))))))))))))))"

definition driveExecution ::
  "transaction_services \<Rightarrow> managed_operation list \<Rightarrow> execute_options \<Rightarrow> transaction_receipt proc" where
  "driveExecution sv plan options =
     (let authority = map_option (bindingAuthority sv) (xo_leaseGuard options)
      in next_do (assertLeaseAuthority sv authority)
         (next_do (assertExistingRoot sv (xo_rootMode options))
         (and_then (next_id sv) (\<lambda>transactionId.
          next_do (set_context (\<lambda>c. c\<lparr>fc_transactionId := Some transactionId\<rparr>))
          (and_then (now sv) (\<lambda>createdAt.
            runTransaction sv plan authority (xo_guardPreconditions options) transactionId createdAt))))))"

section \<open>Reading a transaction back\<close>

definition readRegularText :: "transaction_services \<Rightarrow> string \<Rightarrow> string proc" where
  "readRegularText sv path =
     and_then (observeFingerprint sv path) (\<lambda>entry.
       next_do (ensure (is_file_print entry) (corrupt path)) (readText path))"

definition read_document ::
  "transaction_services \<Rightarrow> (json \<Rightarrow> 'a option) \<Rightarrow> ('a \<Rightarrow> bool) \<Rightarrow> string \<Rightarrow> (string \<times> 'a) proc" where
  "read_document sv decode valid path =
     and_then (readRegularText sv path) (\<lambda>text.
       case Option.bind (parseCanonicalJson text) decode of
         None \<Rightarrow> throw (corrupt path)
       | Some value \<Rightarrow> if valid value then give (text, value) else throw (corrupt path))"

definition readProgress :: "transaction_services \<Rightarrow> string \<Rightarrow> transaction_progress proc" where
  "readProgress sv path =
     and_then (read_document sv json_progress valid_progress path) (\<lambda>(_, progress). give progress)"

text \<open>The manifest with its canonical text, the file without its line feed.\<close>

definition readManifest :: "transaction_services \<Rightarrow> string \<Rightarrow> (transaction_manifest \<times> string) proc" where
  "readManifest sv path =
     and_then (read_document sv json_manifest valid_manifest path) (\<lambda>(text, manifest). give (manifest, butlast text))"

definition relative_operation :: "persisted_operation \<Rightarrow> persisted_operation" where
  "relative_operation operation =
     (if po_stagedPath operation = None then operation
      else operation\<lparr>po_stagedPath := Some (staged_name (po_operationId operation))\<rparr>)"

definition manifest_operation_ok :: "string \<Rightarrow> nat \<Rightarrow> persisted_operation \<Rightarrow> bool" where
  "manifest_operation_ok root index operation =
     (let operationId = operationIdAt index
      in po_operationId operation = operationId \<and> isManagedDirectoryDestination (po_path operation) \<and>
         (case po_kind operation of
            Persisted_create \<Rightarrow> po_expected operation = Missing \<and> po_result operation = Directory
          | Persisted_write \<Rightarrow> po_stagedPath operation = Some (root @ ''/'' @ staged_name operationId) \<and>
              po_expected operation \<noteq> Directory \<and> is_file_print (po_result operation)
          | Persisted_delete \<Rightarrow> is_file_print (po_expected operation) \<and> po_result operation = Missing))"

definition assertManifestSemantics :: "transaction_services \<Rightarrow> transaction_manifest \<Rightarrow> string \<Rightarrow> unit proc" where
  "assertManifestSemantics sv manifest root =
     ensure
       (list_all (\<lambda>(index, operation). manifest_operation_ok root index operation) (enumerate 0 (mf_operations manifest)) \<and>
        mf_planDigest manifest = plan_digest sv (map relative_operation (mf_operations manifest)))
       (corrupt (manifest_path root))"

definition readRequiredManifest ::
  "transaction_services \<Rightarrow> string \<Rightarrow> transaction_progress \<Rightarrow> transaction_manifest proc" where
  "readRequiredManifest sv root progress =
     and_then (readManifest sv (manifest_path root)) (\<lambda>(manifest, canonical).
     next_do (assertManifestSemantics sv manifest root)
     (next_do (ensure
        (mf_transactionId manifest = pg_transactionId progress \<and> mf_createdAt manifest = pg_createdAt progress \<and>
         (pg_manifestDigest progress = None \<or> Some (sv_sha256 sv canonical) = pg_manifestDigest progress))
        (corrupt (manifest_path root)))
      (give manifest)))"

definition validateTransactionLayout :: "transaction_services \<Rightarrow> string \<Rightarrow> unit proc" where
  "validateTransactionLayout sv root =
     and_then (list_entries (sv_localeCompare sv) root) (\<lambda>entries.
     next_do (ensure (\<not> list_ex (\<lambda>entry. entry \<notin> {''manifest.json'', ''progress.json'', ''progress.next'', ''staging''}) entries)
       (corrupt root))
     (next_do (each_proc (\<lambda>file. and_then (observeFingerprint sv (root @ ''/'' @ file)) (\<lambda>observed.
         ensure (observed = Missing \<or> is_file_print observed) (corrupt (root @ ''/'' @ file))))
         [''manifest.json'', ''progress.json'', ''progress.next''])
     (and_then (observeFingerprint sv (staging_path root)) (\<lambda>staging.
       ensure (staging = Missing \<or> staging = Directory) (corrupt (staging_path root))))))"

definition validatePersistedIdentity ::
  "transaction_services \<Rightarrow> transaction_progress \<Rightarrow> string \<Rightarrow> unit proc" where
  "validatePersistedIdentity sv progress root =
     next_do (ensure
       (case pg_manifestDigest progress of
          None \<Rightarrow> pg_recoveryToken progress = identity_token sv (pg_transactionId progress) (pg_createdAt progress)
        | Some digest \<Rightarrow> pg_recoveryToken progress = digest) (corrupt (progress_path root)))
     (and_then (observeFingerprint sv (manifest_path root)) (\<lambda>manifestEntry.
       if pg_manifestDigest progress = None then give ()
       else next_do (ensure (is_file_print manifestEntry) (corrupt (manifest_path root)))
         (and_then (readManifest sv (manifest_path root)) (\<lambda>(manifest, canonical).
          next_do (assertManifestSemantics sv manifest root)
            (ensure (mf_transactionId manifest = pg_transactionId progress \<and> mf_createdAt manifest = pg_createdAt progress \<and>
               Some (sv_sha256 sv canonical) = pg_manifestDigest progress) (corrupt (manifest_path root)))))))"

definition inspect_transaction :: "transaction_services \<Rightarrow> string \<Rightarrow> transaction_summary proc" where
  "inspect_transaction sv transactionId =
     (let root = transactionRoot transactionId
      in and_then (observeFingerprint sv root) (\<lambda>entry.
         next_do (ensure (entry = Directory) (corrupt root))
         (next_do (validateTransactionLayout sv root)
         (and_then (readProgress sv (progress_path root)) (\<lambda>progress.
          next_do (ensure (pg_transactionId progress = transactionId) (corrupt (progress_path root)))
          (next_do (validatePersistedIdentity sv progress root)
          (give \<lparr> sm_transactionId = transactionId, sm_manifestDigest = pg_manifestDigest progress,
            sm_recoveryToken = pg_recoveryToken progress, sm_phase = pg_phase progress,
            sm_evidenceRef = progress_path root \<rparr>)))))))"

definition listed_transactions :: "transaction_services \<Rightarrow> string list proc" where
  "listed_transactions sv = and_then (list_entries (sv_localeCompare sv) transactionsRoot) (\<lambda>ids. give (js_sort (sv_localeCompare sv) ids))"

definition inspectManagedTransactions :: "transaction_services \<Rightarrow> transaction_summary list proc" where
  "inspectManagedTransactions sv =
     and_then (observeFingerprint sv ''.brain'') (\<lambda>brain.
       if brain = Missing then give []
       else next_do (ensure (brain = Directory) (corrupt ''.brain''))
         (and_then (observeFingerprint sv transactionsRoot) (\<lambda>transactions.
            if transactions = Missing then give []
            else next_do (ensure (transactions = Directory) (corrupt transactionsRoot))
              (and_then (listed_transactions sv)
                (fold_proc (\<lambda>summaries transactionId. and_then (inspect_transaction sv transactionId)
                    (\<lambda>summary. give (summaries @ [summary]))) [])))))"

definition hasCleanupEntries :: "transaction_services \<Rightarrow> string \<Rightarrow> bool \<Rightarrow> bool proc" where
  "hasCleanupEntries sv root removeUnboundManifest =
     and_then (observeFingerprint sv (staging_path root)) (\<lambda>staging.
       if staging \<noteq> Missing then give True
       else and_then (observeFingerprint sv (next_path root)) (\<lambda>next.
         if next \<noteq> Missing then give True
         else if \<not> removeUnboundManifest then give False
         else and_then (observeFingerprint sv (manifest_path root)) (\<lambda>manifest. give (manifest \<noteq> Missing))))"

definition recoveryRequired :: "transaction_summary \<Rightarrow> driver_failure" where
  "recoveryRequired summary = Transaction_failure Recovery_required (evidence (sm_evidenceRef summary))"

fun firstIncompleteSummary :: "transaction_services \<Rightarrow> transaction_summary list \<Rightarrow> transaction_summary option proc" where
  "firstIncompleteSummary sv [] = give None"
| "firstIncompleteSummary sv (summary # summaries) =
     (if sm_phase summary \<noteq> Committed \<and> sm_phase summary \<noteq> Aborted then give (Some summary)
      else let root = transactionRoot (sm_transactionId summary)
        in and_then (observeFingerprint sv (staging_path root)) (\<lambda>staging.
           and_then (observeFingerprint sv (next_path root)) (\<lambda>next.
           and_then (if sm_manifestDigest summary = None then observeFingerprint sv (manifest_path root) else give Missing)
             (\<lambda>unboundManifest.
               if staging \<noteq> Missing \<or> next \<noteq> Missing \<or> unboundManifest \<noteq> Missing then give (Some summary)
               else firstIncompleteSummary sv summaries))))"

definition rejectIncompleteTransactions :: "transaction_services \<Rightarrow> unit proc" where
  "rejectIncompleteTransactions sv =
     and_then (inspectManagedTransactions sv) (\<lambda>summaries.
     and_then (firstIncompleteSummary sv summaries) (\<lambda>incomplete.
       case incomplete of None \<Rightarrow> give () | Some summary \<Rightarrow> throw (recoveryRequired summary)))"

section \<open>Recovery\<close>

definition observe_into ::
  "transaction_services \<Rightarrow> string \<Rightarrow> (string \<times> path_fingerprint) list \<Rightarrow> (string \<times> path_fingerprint) list proc" where
  "observe_into sv path entries =
     and_then (observeFingerprint sv path) (\<lambda>fingerprint. give (assoc_set path fingerprint entries))"

definition observe_operation ::
  "transaction_services \<Rightarrow> transaction_observation \<Rightarrow> persisted_operation \<Rightarrow> transaction_observation proc" where
  "observe_operation sv observation operation =
     and_then (observe_into sv (po_path operation) (ob_destinations observation)) (\<lambda>destinations.
       case po_stagedPath operation of
         None \<Rightarrow> give (observation\<lparr>ob_destinations := destinations\<rparr>)
       | Some s \<Rightarrow> and_then (observe_into sv s (ob_stagedPayloads observation)) (\<lambda>payloads.
           give \<lparr> ob_destinations = destinations, ob_stagedPayloads = payloads \<rparr>))"

definition observeTransaction :: "transaction_services \<Rightarrow> transaction_manifest \<Rightarrow> transaction_observation proc" where
  "observeTransaction sv manifest =
     and_then (fold_proc (observe_operation sv) \<lparr> ob_destinations = [], ob_stagedPayloads = [] \<rparr> (mf_operations manifest))
       (\<lambda>observation.
        let stagingRoot = staging_path (transactionRoot (mf_transactionId manifest))
        in and_then (observeFingerprint sv stagingRoot) (\<lambda>staging.
          if staging = Directory then
            and_then (list_entries (sv_localeCompare sv) stagingRoot) (\<lambda>names.
            and_then (fold_proc (\<lambda>payloads name.
                 let path = stagingRoot @ ''/'' @ name
                 in if path \<in> set (staged_paths (mf_operations manifest)) then give payloads
                    else observe_into sv path payloads) (ob_stagedPayloads observation) names)
              (\<lambda>payloads. give (observation\<lparr>ob_stagedPayloads := payloads\<rparr>)))
          else next_do (ensure (staging = Missing) (corrupt stagingRoot)) (give observation)))"

definition publishPersistedOperation :: "persisted_operation \<Rightarrow> unit proc" where
  "publishPersistedOperation operation =
     (case po_kind operation of
        Persisted_create \<Rightarrow> createDirectory (po_path operation)
      | Persisted_write \<Rightarrow> replaceFile (the (po_stagedPath operation)) (po_path operation)
      | Persisted_delete \<Rightarrow> removeFile (po_path operation))"

datatype recovery_step = Finished transaction_receipt | Again transaction_progress

definition payload_name :: "string \<Rightarrow> bool" where
  "payload_name name \<longleftrightarrow>
     length name = 22 \<and> starts_with ''operation-'' name \<and> list_all is_digit (take 4 (drop 10 name)) \<and>
     drop 14 name = ''.payload''"

text \<open>A transaction whose progress names no manifest is aborted and swept.\<close>

definition recoverWithoutManifest :: "transaction_services \<Rightarrow> transaction_progress \<Rightarrow> transaction_receipt proc" where
  "recoverWithoutManifest sv initial =
     (let root = transactionRoot (pg_transactionId initial); stagingRoot = staging_path root
      in next_do (ensure (pg_manifestDigest initial = None) (corrupt (progress_path root)))
         (and_then (observeFingerprint sv stagingRoot) (\<lambda>staging.
          and_then (if staging = Directory then
              and_then (list_entries (sv_localeCompare sv) stagingRoot)
                (fold_proc (\<lambda>payloads name.
                   let path = stagingRoot @ ''/'' @ name
                   in next_do (ensure (payload_name name) (corrupt path))
                      (and_then (observeFingerprint sv path) (\<lambda>entry.
                        next_do (ensure (is_file_print entry) (corrupt path)) (give (payloads @ [path]))))) [])
            else next_do (ensure (staging = Missing) (corrupt stagingRoot)) (give [])) (\<lambda>payloads.
          and_then (observeFingerprint sv (next_path root)) (\<lambda>next.
          next_do (ensure (is_file_print next \<or> next = Missing) (corrupt (next_path root)))
          (and_then (if pg_phase initial = Begun then
              next_do (ensure (assertPhaseTransition (pg_phase initial) Aborted) Untyped_error)
                (stamp_and_persist sv (initial\<lparr>pg_phase := Aborted, pg_published := []\<rparr>))
            else give initial) (\<lambda>progress.
          next_do (each_proc removeFile payloads)
          (next_do (if staging = Directory then removeEmptyDirectory stagingRoot else give ())
          (and_then (observeFingerprint sv (next_path root)) (\<lambda>next'.
          next_do (if is_file_print next' then removeFile (next_path root) else give ())
          (and_then (observeFingerprint sv (manifest_path root)) (\<lambda>manifest.
          next_do (if is_file_print manifest then removeFile (manifest_path root)
                   else ensure (manifest = Missing) (corrupt (manifest_path root)))
          (and_then (merged_sync (pg_directorySync progress) root) (\<lambda>directorySync.
          and_then (persistTerminalDirectorySync sv progress directorySync) receiptFromProgress
          ))))))))))))))"

definition recover_publish ::
  "transaction_services \<Rightarrow> guarded_artifact list option \<Rightarrow> transaction_progress \<Rightarrow> persisted_operation \<Rightarrow> recovery_step proc"
where
  "recover_publish sv authority progress operation =
     (let parent = parentOf (po_path operation);
          recorded = progress\<lparr>pg_published := pg_published progress @ [po_operationId operation]\<rparr>
      in and_then (observeFingerprint sv parent) (\<lambda>parentEntry.
         next_do (ensure (parentEntry = Directory) (corrupt (po_path operation)))
         (and_then (observeFingerprint sv (po_path operation)) (\<lambda>immediateTarget.
          if sameFingerprint immediateTarget (po_result operation)
          then and_then (stamp_and_persist sv recorded) (\<lambda>p. give (Again p))
          else next_do (ensure (sameFingerprint immediateTarget (po_expected operation)) (corrupt (po_path operation)))
            (next_do (if po_kind operation = Persisted_write
                      then assertResult sv (the (po_stagedPath operation)) (po_result operation) else give ())
            (next_do (assertLeaseAuthority sv authority)
            (next_do (publishPersistedOperation operation)
            (and_then (merged_sync (pg_directorySync progress) parent) (\<lambda>directorySync.
             next_do (assertResult sv (po_path operation) (po_result operation))
             (and_then (stamp_and_persist sv (recorded\<lparr>pg_directorySync := directorySync\<rparr>))
                (\<lambda>p. give (Again p))))))))))))"

definition manifest_operation_named :: "transaction_manifest \<Rightarrow> string \<Rightarrow> persisted_operation option" where
  "manifest_operation_named manifest operationId =
     List.find (\<lambda>candidate. po_operationId candidate = operationId) (mf_operations manifest)"

definition cleanup_and_sync ::
  "transaction_services \<Rightarrow> transaction_manifest \<Rightarrow> transaction_progress \<Rightarrow> transaction_progress proc" where
  "cleanup_and_sync sv manifest progress =
     and_then (cleanupTransaction sv manifest (pg_directorySync progress)) (persistTerminalDirectorySync sv progress)"

definition recovery_iteration ::
  "transaction_services \<Rightarrow> transaction_manifest \<Rightarrow> guarded_artifact list option \<Rightarrow> transaction_progress \<Rightarrow> recovery_step proc"
where
  "recovery_iteration sv manifest authority progress =
     (let root = transactionRoot (mf_transactionId manifest);
          again = (\<lambda>p. and_then (stamp_and_persist sv p) (\<lambda>q. give (Again q)))
      in and_then (observeTransaction sv manifest) (\<lambda>observation.
         case decideRecovery manifest progress observation of
           Abort \<Rightarrow> next_do (ensure (assertPhaseTransition (pg_phase progress) Aborted) Untyped_error)
             (again (progress\<lparr>pg_phase := Aborted, pg_published := []\<rparr>))
         | Record_published operationId \<Rightarrow> again (progress\<lparr>pg_published := pg_published progress @ [operationId]\<rparr>)
         | Publish operationId \<Rightarrow>
             (case manifest_operation_named manifest operationId of
                None \<Rightarrow> throw (corrupt (manifest_path root))
              | Some operation \<Rightarrow> recover_publish sv authority progress operation)
         | Commit \<Rightarrow> next_do (ensure (assertPhaseTransition (pg_phase progress) Committed) Untyped_error)
             (again (progress\<lparr>pg_phase := Committed, pg_published := map po_operationId (mf_operations manifest)\<rparr>))
         | Cleanup _ \<Rightarrow> and_then (cleanup_and_sync sv manifest progress) (\<lambda>p. give (Again p))
         | Complete _ \<Rightarrow>
             and_then (hasCleanupEntries sv root (pg_manifestDigest progress = None)) (\<lambda>residue.
             and_then (if residue then cleanup_and_sync sv manifest progress else give progress) (\<lambda>p.
             and_then (receiptFromProgress p) (\<lambda>receipt. give (Finished receipt))))
         | Recovery_blocked blocked \<Rightarrow>
             (case blocked of
                None \<Rightarrow> throw (corrupt (progress_path root))
              | Some operationId \<Rightarrow>
                  (case manifest_operation_named manifest operationId of
                     None \<Rightarrow> throw (corrupt (manifest_path root))
                   | Some operation \<Rightarrow> throw (corrupt (po_path operation))))))"

text \<open>The loop \<open>for (;;)\<close> of \<open>driveRecovery\<close>, bounded.\<close>

fun recovery_loop ::
  "transaction_services \<Rightarrow> transaction_manifest \<Rightarrow> guarded_artifact list option \<Rightarrow> nat \<Rightarrow> transaction_progress \<Rightarrow>
   transaction_receipt proc"
where
  "recovery_loop sv manifest authority 0 progress = throw Loop_exhausted"
| "recovery_loop sv manifest authority (Suc fuel) progress =
     and_then (recovery_iteration sv manifest authority progress) (\<lambda>step.
       case step of Finished receipt \<Rightarrow> give receipt | Again p \<Rightarrow> recovery_loop sv manifest authority fuel p)"

definition driveRecovery :: "transaction_services \<Rightarrow> nat \<Rightarrow> transaction_summary \<Rightarrow> transaction_receipt proc" where
  "driveRecovery sv fuel summary =
     (let root = transactionRoot (sm_transactionId summary)
      in and_then (readProgress sv (progress_path root)) (\<lambda>progress.
         next_do (ensure (pg_transactionId progress = sm_transactionId summary \<and>
             pg_recoveryToken progress = sm_recoveryToken summary \<and> pg_manifestDigest progress = sm_manifestDigest summary)
           (recoveryRequired summary))
         (and_then (observeFingerprint sv (manifest_path root)) (\<lambda>manifestEntry.
          if pg_manifestDigest progress = None then recoverWithoutManifest sv progress
          else next_do (ensure (is_file_print manifestEntry) (corrupt (manifest_path root)))
            (and_then (readRequiredManifest sv root progress) (\<lambda>manifest.
             let authority = (if pg_phase progress = Publishing \<or> pg_phase progress = Committed
                   then manifestAuthority manifest else None)
             in next_do (assertLeaseAuthority sv authority) (recovery_loop sv manifest authority fuel progress)))))))"


section \<open>Unmarked transactions and failures\<close>

text \<open>
  A directory without \<open>progress.json\<close> is removed when it holds at most the scratch file;
  anything else is refused, or left alone after a failed attempt.
\<close>

definition removeSafeUnmarkedTransaction :: "transaction_services \<Rightarrow> string \<Rightarrow> bool \<Rightarrow> unit proc" where
  "removeSafeUnmarkedTransaction sv root blockUnknown =
     (let refuse = (\<lambda>path. if blockUnknown then throw (corrupt path) else give ())
      in and_then (list_entries (sv_localeCompare sv) root) (\<lambda>entries.
         if list_ex (\<lambda>entry. entry \<noteq> ''progress.next'') entries then refuse root
         else and_then (observeFingerprint sv (next_path root)) (\<lambda>next.
           if \<not> is_file_print next \<and> next \<noteq> Missing then refuse (next_path root)
           else next_do (if is_file_print next then removeFile (next_path root) else give ())
             (and_then (list_entries (sv_localeCompare sv) root) (\<lambda>left.
              if left \<noteq> [] then refuse root
              else next_do (removeEmptyDirectory root) (and_then (syncDirectory transactionsRoot) (\<lambda>_. give ())))))))"

definition cleanupUnmarkedTransaction :: "transaction_services \<Rightarrow> string \<Rightarrow> unit proc" where
  "cleanupUnmarkedTransaction sv transactionId =
     (let root = transactionRoot transactionId
      in and_then (observeFingerprint sv root) (\<lambda>entry.
         if entry \<noteq> Directory then give ()
         else and_then (observeFingerprint sv (progress_path root)) (\<lambda>progress.
           if progress \<noteq> Missing then give () else removeSafeUnmarkedTransaction sv root False)))"

definition reconcile_transaction :: "transaction_services \<Rightarrow> string \<Rightarrow> unit proc" where
  "reconcile_transaction sv transactionId =
     (let root = transactionRoot transactionId
      in next_do (ensure (id_test transactionId) (corrupt transactionsRoot))
         (and_then (observeFingerprint sv root) (\<lambda>entry.
          next_do (ensure (entry = Directory) (corrupt root))
          (and_then (observeFingerprint sv (progress_path root)) (\<lambda>progress.
            if progress \<noteq> Missing then give () else removeSafeUnmarkedTransaction sv root True)))))"

definition reconcileUnmarkedTransactions :: "transaction_services \<Rightarrow> unit proc" where
  "reconcileUnmarkedTransactions sv =
     and_then (observeFingerprint sv ''.brain'') (\<lambda>brain.
       if brain \<noteq> Directory then give ()
       else and_then (observeFingerprint sv transactionsRoot) (\<lambda>transactions.
         if transactions \<noteq> Directory then give ()
         else and_then (listed_transactions sv) (each_proc (reconcile_transaction sv))))"

text \<open>What escapes as the manager's own failure, anything else as an internal failure.\<close>

definition typed_only :: "'a proc \<Rightarrow> 'a proc" where
  "typed_only p = catch p (\<lambda>e. case e of
     Transaction_failure _ _ \<Rightarrow> throw e | _ \<Rightarrow> throw (Transaction_failure Internal_failure []))"

definition preflightManagedTransactions :: "transaction_services \<Rightarrow> root_mode \<Rightarrow> bool \<Rightarrow> unit proc" where
  "preflightManagedTransactions sv rootMode reconcile =
     typed_only
       (next_do (if reconcile then reconcileUnmarkedTransactions sv else give ())
       (next_do (assertPreflightRoot sv rootMode) (rejectIncompleteTransactions sv)))"

definition classifyPublishingState :: "transaction_services \<Rightarrow> transaction_summary \<Rightarrow> transaction_receipt proc" where
  "classifyPublishingState sv summary =
     (let root = transactionRoot (sm_transactionId summary)
      in and_then (readProgress sv (progress_path root)) (\<lambda>progress.
         next_do (ensure (pg_transactionId progress = sm_transactionId summary \<and>
             pg_recoveryToken progress = sm_recoveryToken summary \<and> pg_manifestDigest progress = sm_manifestDigest summary)
           (recoveryRequired summary))
         (and_then (readRequiredManifest sv root progress) (\<lambda>manifest.
          and_then (observeTransaction sv manifest) (\<lambda>observation.
          case decideRecovery manifest progress observation of
            Recovery_blocked blocked \<Rightarrow>
              (case Option.bind blocked (manifest_operation_named manifest) of
                 None \<Rightarrow> throw (corrupt (progress_path root))
               | Some operation \<Rightarrow>
                   (case po_stagedPath operation of
                      Some s \<Rightarrow>
                        if po_kind operation = Persisted_write \<and>
                           map_of (ob_stagedPayloads observation) s \<noteq> Some (po_result operation)
                        then throw (corrupt s) else throw (corrupt (po_path operation))
                    | None \<Rightarrow> throw (corrupt (po_path operation))))
          | Publish operationId \<Rightarrow>
              (case manifest_operation_named manifest operationId of
                 None \<Rightarrow> throw (corrupt (manifest_path root))
               | Some operation \<Rightarrow>
                   and_then (observeFingerprint sv (parentOf (po_path operation))) (\<lambda>parent.
                   next_do (ensure (parent = Directory) (corrupt (po_path operation))) (throw (recoveryRequired summary))))
          | _ \<Rightarrow> throw (recoveryRequired summary))))))"

definition is_typed :: "driver_failure \<Rightarrow> bool" where
  "is_typed e = (case e of Transaction_failure _ _ \<Rightarrow> True | _ \<Rightarrow> False)"

text \<open>
  The state found for the transaction that failed; \<^const>\<open>None\<close> when it is not there and
  no other transaction is incomplete.
\<close>

definition classify_current ::
  "transaction_services \<Rightarrow> driver_failure \<Rightarrow> failure_context \<Rightarrow> transaction_receipt option proc" where
  "classify_current sv e context =
     next_do (case fc_transactionId context of
         Some transactionId \<Rightarrow> if is_typed e then give () else cleanupUnmarkedTransaction sv transactionId
       | None \<Rightarrow> give ())
     (and_then (inspectManagedTransactions sv) (\<lambda>summaries.
      case List.find (\<lambda>summary. Some (sm_transactionId summary) = fc_transactionId context) summaries of
        Some current \<Rightarrow>
          (let root = transactionRoot (sm_transactionId current)
           in next_do (ensure (fc_recoveryToken context = None \<or> fc_recoveryToken context = Some (sm_recoveryToken current))
                (recoveryRequired current))
              (if sm_phase current = Committed \<or> sm_phase current = Aborted then
                 and_then (hasCleanupEntries sv root (sm_manifestDigest current = None)) (\<lambda>residue.
                 next_do (ensure (\<not> residue) (recoveryRequired current))
                 (and_then (readProgress sv (progress_path root)) (\<lambda>progress.
                  and_then (finalizeTerminalProgress sv progress) (\<lambda>p.
                  and_then (receiptFromProgress p) (\<lambda>receipt. give (Some receipt))))))
               else
                 and_then (if sm_phase current = Publishing then
                     catch (and_then (classifyPublishingState sv current) (\<lambda>receipt. give (Some receipt)))
                       (\<lambda>fresh. throw (if is_typed fresh then fresh else recoveryRequired current))
                   else give None) (\<lambda>_.
                 throw (if is_typed e then e else recoveryRequired current))))
      | None \<Rightarrow>
          and_then (firstIncompleteSummary sv summaries) (\<lambda>incomplete.
            case incomplete of Some summary \<Rightarrow> throw (recoveryRequired summary) | None \<Rightarrow> give None)))"

definition is_lease_conflict :: "driver_failure \<Rightarrow> bool" where
  "is_lease_conflict e = (case e of Transaction_failure reason _ \<Rightarrow> reason = Lease_conflict | _ \<Rightarrow> False)"

definition classifyDriverFailure :: "transaction_services \<Rightarrow> driver_failure \<Rightarrow> transaction_receipt proc" where
  "classifyDriverFailure sv e m =
     (let context = mc_context m;
          last = throw (if is_typed e then e else Transaction_failure Internal_failure [])
      in (if is_typed e \<and> fc_transactionId context = None then throw e
          else if is_lease_conflict e then throw e
          else and_then
            (catch (classify_current sv e context) (\<lambda>inspectionError.
               if is_typed inspectionError then throw inspectionError
               else (case fc_transactionId context of
                   Some transactionId \<Rightarrow>
                     if fc_validatedRecovery context \<or> fc_publishingAuthorized context
                     then throw (Transaction_failure Recovery_required
                       (evidence (progress_path (transactionRoot transactionId))))
                     else give None
                 | None \<Rightarrow> give None)))
            (\<lambda>found. case found of Some receipt \<Rightarrow> give receipt | None \<Rightarrow> last)) m)"

definition recoverManagedMutation ::
  "transaction_services \<Rightarrow> nat \<Rightarrow> string \<Rightarrow> string \<Rightarrow> transaction_receipt proc" where
  "recoverManagedMutation sv fuel transactionId recoveryToken =
     next_do (set_context (\<lambda>_. \<lparr> fc_transactionId = Some transactionId, fc_recoveryToken = Some recoveryToken,
         fc_validatedRecovery = False, fc_publishingAuthorized = False \<rparr>))
     (catch
       (and_then (inspectManagedTransactions sv) (\<lambda>summaries.
         case List.find (\<lambda>candidate. sm_transactionId candidate = transactionId) summaries of
           None \<Rightarrow> and_then (firstIncompleteSummary sv summaries) (\<lambda>incomplete.
             case incomplete of
               Some summary \<Rightarrow> throw (recoveryRequired summary)
             | None \<Rightarrow> throw (corrupt (transactionRoot transactionId)))
         | Some summary \<Rightarrow>
             next_do (ensure (sm_recoveryToken summary = recoveryToken) (recoveryRequired summary))
             (next_do (set_context (\<lambda>c. c\<lparr>fc_validatedRecovery := True,
                 fc_publishingAuthorized := (sm_phase summary = Publishing \<or> sm_phase summary = Committed)\<rparr>))
             (driveRecovery sv fuel summary))))
       (classifyDriverFailure sv))"

definition frozen :: "transaction_services \<Rightarrow> managed_operation list \<Rightarrow> execute_options \<Rightarrow>
  (driver_failure, managed_operation list) result" where
  "frozen sv plan options =
     bind_result (freezeExecuteOptions options) (\<lambda>frozenOptions.
       case freezeManagedPlan (sv_sha256 sv) plan of
         Inl Outside_allow \<Rightarrow> Inl (Transaction_failure Guard_outside_allow [])
       | Inl State_corrupt \<Rightarrow> Inl (Transaction_failure Runtime_state_corrupt [])
       | Inr frozenPlan \<Rightarrow>
           (case xo_leaseGuard frozenOptions of
              None \<Rightarrow> Inr frozenPlan
            | Some binding \<Rightarrow> bindLeaseGuard sv frozenPlan binding))"

definition executeManagedMutation ::
  "transaction_services \<Rightarrow> managed_operation list \<Rightarrow> execute_options \<Rightarrow> transaction_receipt proc" where
  "executeManagedMutation sv plan options =
     (case frozen sv plan options of
        Inl e \<Rightarrow> throw e
      | Inr frozenPlan \<Rightarrow>
          next_do (set_context (\<lambda>_. \<lparr> fc_transactionId = None, fc_recoveryToken = None,
              fc_validatedRecovery = False, fc_publishingAuthorized = False \<rparr>))
          (catch
            (next_do (preflightManagedTransactions sv (xo_rootMode options) True)
            (next_do (assertDeclaredEventStorePreconditions sv (xo_eventStorePreconditions options))
            (next_do (assertDeclaredGuardPreconditions sv (xo_guardPreconditions options))
            (driveExecution sv frozenPlan options))))
            (classifyDriverFailure sv)))"

end
