(* ===== verification/Transaction_Hoare.thy ===== *)
theory Transaction_Hoare
  imports Transaction_Driver
begin

text \<open>
  Triples for the steps of the transaction manager. A triple follows every storage a
  boundary leaves behind, so that its invariant holds at every point a crash can leave;
  an injected fault may end a step with an error at any boundary.
\<close>

section \<open>Triples\<close>

text \<open>
  From a storage satisfying \<open>P\<close>, every storage left behind satisfies \<open>I\<close>; a result \<open>x\<close>
  comes with \<open>Q x\<close>; an error leaves \<open>I\<close> and needs an injected fault, unless \<open>free\<close> allows
  errors of the code itself.
\<close>

definition hoare ::
  "(storage \<Rightarrow> bool) \<Rightarrow> bool \<Rightarrow> (storage \<Rightarrow> bool) \<Rightarrow> 'a proc \<Rightarrow> ('a \<Rightarrow> storage \<Rightarrow> bool) \<Rightarrow> bool" where
  "hoare I free P p Q \<longleftrightarrow>
     (\<forall>m. P (mc_storage m) \<longrightarrow>
        mc_rules (snd (p m)) = mc_rules m \<and>
        (\<exists>h. mc_history (snd (p m)) = h @ mc_history m \<and> (\<forall>s \<in> set h. I s)) \<and>
        (case fst (p m) of
           Inr x \<Rightarrow> Q x (mc_storage (snd (p m)))
         | Inl e \<Rightarrow> I (mc_storage (snd (p m))) \<and> (free \<or> mc_rules m \<noteq> [])))"

lemma hoareD:
  assumes "hoare I free P p Q" "P (mc_storage m)" "p m = (r, n)"
  shows "mc_rules n = mc_rules m" "\<exists>h. mc_history n = h @ mc_history m \<and> (\<forall>s \<in> set h. I s)"
    "case r of Inr x \<Rightarrow> Q x (mc_storage n) | Inl e \<Rightarrow> I (mc_storage n) \<and> (free \<or> mc_rules m \<noteq> [])"
  using assms(1) [unfolded hoare_def, rule_format, OF assms(2)] assms(3)
  by (simp_all split: sum.splits)

lemma hoare_pre:
  "hoare I free P' p Q \<Longrightarrow> (\<And>s. P s \<Longrightarrow> P' s) \<Longrightarrow> hoare I free P p Q"
  by (auto simp: hoare_def)

lemma hoare_post:
  "hoare I free P p Q' \<Longrightarrow> (\<And>x s. Q' x s \<Longrightarrow> Q x s) \<Longrightarrow> hoare I free P p Q"
  unfolding hoare_def by (fastforce split: sum.splits)

lemma hoare_fact: "(\<phi> \<Longrightarrow> hoare I free P p Q) \<Longrightarrow> hoare I free (\<lambda>s. \<phi> \<and> P s) p Q"
  by (auto simp: hoare_def)

lemma hoare_exists: "(\<And>x. hoare I free (P x) p Q) \<Longrightarrow> hoare I free (\<lambda>s. \<exists>x. P x s) p Q"
  by (auto simp: hoare_def)

lemma hoare_cases:
  "hoare I free (\<lambda>s. P s \<and> b s) p Q \<Longrightarrow> hoare I free (\<lambda>s. P s \<and> \<not> b s) p Q \<Longrightarrow> hoare I free P p Q"
  unfolding hoare_def by meson

lemma hoare_give: "(\<And>s. P s \<Longrightarrow> Q x s) \<Longrightarrow> hoare I free P (give x) Q"
  by (auto simp: hoare_def give_def)

lemma hoare_throw: "(\<And>s. P s \<Longrightarrow> free \<and> I s) \<Longrightarrow> hoare I free P (throw e) Q"
  by (auto simp: hoare_def throw_def)

lemma hoare_and_then:
  assumes p: "hoare I free P p R" and q: "\<And>x. hoare I free (R x) (q x) Q"
  shows "hoare I free P (and_then p q) Q"
  unfolding hoare_def
proof (intro allI impI)
  fix m :: machine assume P: "P (mc_storage m)"
  obtain r n where pm: "p m = (r, n)" by fastforce
  note 1 = hoareD [OF p P pm]
  show "mc_rules (snd (and_then p q m)) = mc_rules m \<and>
      (\<exists>h. mc_history (snd (and_then p q m)) = h @ mc_history m \<and> (\<forall>s \<in> set h. I s)) \<and>
      (case fst (and_then p q m) of
         Inr x \<Rightarrow> Q x (mc_storage (snd (and_then p q m)))
       | Inl e \<Rightarrow> I (mc_storage (snd (and_then p q m))) \<and> (free \<or> mc_rules m \<noteq> []))"
  proof (cases r)
    case (Inl e)
    with 1 pm show ?thesis by (simp add: and_then_def)
  next
    case (Inr x)
    obtain r' n' where qn: "q x n = (r', n')" by fastforce
    from 1 Inr have "R x (mc_storage n)" by simp
    note 2 = hoareD [OF q this qn]
    from 1(2) 2(2) have "\<exists>h. mc_history n' = h @ mc_history m \<and> (\<forall>s \<in> set h. I s)" by fastforce
    with 1 2 pm qn Inr show ?thesis by (simp add: and_then_def split: sum.splits)
  qed
qed

lemma hoare_next:
  "hoare I free P p (\<lambda>_. R) \<Longrightarrow> hoare I free R q Q \<Longrightarrow> hoare I free P (next_do p q) Q"
  unfolding next_do_def by (rule hoare_and_then)

lemma hoare_ensure:
  "(\<And>s. P s \<Longrightarrow> b \<Longrightarrow> Q () s) \<Longrightarrow> (\<And>s. P s \<Longrightarrow> \<not> b \<Longrightarrow> free \<and> I s) \<Longrightarrow> hoare I free P (ensure b e) Q"
  by (auto simp: ensure_def intro: hoare_give hoare_throw)

lemma hoare_fold:
  assumes "\<And>xs x ys t. zs = xs @ x # ys \<Longrightarrow> hoare I free (J xs t) (f t x) (J (xs @ [x]))"
  shows "hoare I free (J [] t) (fold_proc f t zs) (J zs)"
proof -
  have "hoare I free (J xs t) (fold_proc f t ys) (J zs)" if "zs = xs @ ys" for xs ys t
    using that
  proof (induction ys arbitrary: xs t)
    case Nil
    then show ?case by (auto intro: hoare_give)
  next
    case (Cons y ys)
    then show ?case using assms [of xs y ys t] by (auto intro!: hoare_and_then)
  qed
  from this [of "[]" zs] show ?thesis by simp
qed

lemma hoare_each:
  assumes "\<And>xs x ys. zs = xs @ x # ys \<Longrightarrow> hoare I free (J xs) (f x) (\<lambda>_. J (xs @ [x]))"
  shows "hoare I free (J []) (each_proc f zs) (\<lambda>_. J zs)"
proof -
  have "hoare I free (J xs) (each_proc f ys) (\<lambda>_. J zs)" if "zs = xs @ ys" for xs ys
    using that
  proof (induction ys arbitrary: xs)
    case Nil
    then show ?case by (auto intro: hoare_give)
  next
    case (Cons y ys)
    then show ?case using assms [of xs y ys] by (auto intro!: hoare_next)
  qed
  from this [of "[]" zs] show ?thesis by simp
qed

lemma hoare_each_same:
  "(\<And>x. x \<in> set zs \<Longrightarrow> hoare I free P (f x) (\<lambda>_. P)) \<Longrightarrow> hoare I free P (each_proc f zs) (\<lambda>_. P)"
  using hoare_each [of zs I free "\<lambda>_. P" f] by auto

section \<open>Boundaries\<close>

lemma matchingRule_rules: "mc_rules m = [] \<Longrightarrow> \<not> matchingRule m operation timing"
  by (simp add: matchingRule_def)

lemma boundary_cases:
  assumes "boundary operation eff m = (b, r, n)"
  obtains (kept) e where "\<not> b" "r = Inl e" "mc_storage n = mc_storage m" "mc_history n = mc_history m"
      "mc_rules n = mc_rules m" "mc_rules m \<noteq> [] \<or> eff (mc_storage m) = None"
  | (done_) x s where "b" "eff (mc_storage m) = Some (x, s)" "r = Inr x \<or> (mc_rules m \<noteq> [] \<and> (\<exists>e. r = Inl e))"
      "mc_storage n = s" "mc_history n = s # mc_history m" "mc_rules n = mc_rules m"
proof -
  let ?m = "m\<lparr>mc_occurrences := operation # mc_occurrences m\<rparr>"
  have rules: "mc_rules m \<noteq> []" if "matchingRule ?m operation t" for t
    using that matchingRule_rules [of ?m] by auto
  have "\<exists>e. \<not> b \<and> r = Inl e \<and> mc_storage n = mc_storage m \<and> mc_history n = mc_history m \<and>
      mc_rules n = mc_rules m \<and> (mc_rules m \<noteq> [] \<or> eff (mc_storage m) = None)"
    if "matchingRule ?m operation Before \<or> eff (mc_storage m) = None"
    using that rules assms by (auto simp: boundary_def Let_def split: if_splits)
  moreover have "\<exists>x s. b \<and> eff (mc_storage m) = Some (x, s) \<and> (r = Inr x \<or> (mc_rules m \<noteq> [] \<and> (\<exists>e. r = Inl e))) \<and>
      mc_storage n = s \<and> mc_history n = s # mc_history m \<and> mc_rules n = mc_rules m"
    if "\<not> matchingRule ?m operation Before" "eff (mc_storage m) \<noteq> None"
  proof -
    from that(2) obtain x s where e: "eff (mc_storage m) = Some (x, s)" by auto
    with that(1) assms rules show ?thesis
      by (cases "matchingRule ?m operation After") (auto simp: boundary_def Let_def)
  qed
  ultimately show thesis using that by blast
qed

lemma hoare_primitive:
  assumes "\<And>s. P s \<Longrightarrow> I s \<and> (case eff s of None \<Rightarrow> free | Some (x, s') \<Rightarrow> I s' \<and> Q x s')"
  shows "hoare I free P (primitive operation eff) Q"
  unfolding hoare_def primitive_def
proof (intro allI impI)
  fix m :: machine assume P: "P (mc_storage m)"
  obtain b r n where bd: "boundary operation eff m = (b, r, n)" by (metis prod_cases3)
  from assms [OF P] show "mc_rules (snd (snd (boundary operation eff m))) = mc_rules m \<and>
      (\<exists>h. mc_history (snd (snd (boundary operation eff m))) = h @ mc_history m \<and> (\<forall>s \<in> set h. I s)) \<and>
      (case fst (snd (boundary operation eff m)) of
         Inr x \<Rightarrow> Q x (mc_storage (snd (snd (boundary operation eff m))))
       | Inl e \<Rightarrow> I (mc_storage (snd (snd (boundary operation eff m)))) \<and> (free \<or> mc_rules m \<noteq> []))"
    unfolding bd by (cases rule: boundary_cases [OF bd]) auto
qed

definition durable_path :: "string \<Rightarrow> bool" where
  "durable_path path \<longleftrightarrow> normalizeDurablePath path \<noteq> None"

lemma hoare_durable:
  assumes "free \<or> durable_path path" "hoare I free P p Q" "\<And>s. P s \<Longrightarrow> I s"
  shows "hoare I free P (durable path p) Q"
  using assms by (auto simp: durable_def durable_path_def intro: hoare_throw)

definition view :: "transaction_services \<Rightarrow> storage \<Rightarrow> string \<Rightarrow> path_fingerprint" where
  "view sv s path = (if path = ''.'' then Directory else fingerprint_at (sv_sha256 sv) s path)"

lemma hoare_observe:
  assumes "\<And>s. P s \<Longrightarrow> I s \<and> Q (view sv s path) s" "free \<or> path = ''.'' \<or> durable_path path"
  shows "hoare I free P (observeFingerprint sv path) Q"
  using assms by (auto simp: observeFingerprint_def inspect_def view_def intro!: hoare_primitive hoare_durable)

lemma hoare_list:
  assumes "\<And>s. P s \<Longrightarrow> I s \<and> (free \<or> dir_at s path) \<and> Q (immediateEntries localeCompare s path) s" "free \<or> durable_path path"
  shows "hoare I free P (list_entries localeCompare path) Q"
  using assms by (fastforce simp: list_entries_def intro!: hoare_primitive hoare_durable)

lemma hoare_read:
  assumes "\<And>s. P s \<Longrightarrow> I s \<and> (free \<or> file_at s path \<noteq> None)" "\<And>s c. P s \<Longrightarrow> file_at s path = Some c \<Longrightarrow> Q c s"
    "free \<or> durable_path path"
  shows "hoare I free P (readText path) Q"
  using assms by (fastforce simp: readText_def intro!: hoare_primitive hoare_durable split: option.splits)

lemma hoare_create:
  assumes "\<And>s. P s \<Longrightarrow> I s \<and> (free \<or> has_parent s path \<and> file_at s path = None)"
    "\<And>s. P s \<Longrightarrow> has_parent s path \<Longrightarrow> file_at s path = None \<Longrightarrow> I (add_dir path s) \<and> Q () (add_dir path s)"
    "free \<or> durable_path path"
  shows "hoare I free P (createDirectory path) Q"
  using assms by (fastforce simp: createDirectory_def intro!: hoare_primitive hoare_durable)

lemma hoare_create_exclusive:
  assumes "\<And>s. P s \<Longrightarrow> I s \<and> (free \<or> has_parent s path \<and> vacant s path)"
    "\<And>s. P s \<Longrightarrow> has_parent s path \<Longrightarrow> vacant s path \<Longrightarrow> I (add_dir path s) \<and> Q () (add_dir path s)"
    "free \<or> durable_path path"
  shows "hoare I free P (createDirectoryExclusive path) Q"
  using assms by (fastforce simp: createDirectoryExclusive_def intro!: hoare_primitive hoare_durable)

lemma hoare_replace:
  assumes "\<And>s. P s \<Longrightarrow> I s \<and>
      (free \<or> has_parent s a \<and> has_parent s b \<and> file_at s a \<noteq> None \<and> \<not> dir_at s b)"
    "\<And>s c. P s \<Longrightarrow> has_parent s b \<Longrightarrow> file_at s a = Some c \<Longrightarrow> \<not> dir_at s b \<Longrightarrow>
       I (set_file b c (delete_file a s)) \<and> Q () (set_file b c (delete_file a s))"
    "free \<or> durable_path a" "free \<or> durable_path b"
  shows "hoare I free P (replaceFile a b) Q"
  using assms by (fastforce simp: replaceFile_def intro!: hoare_primitive hoare_durable split: option.splits)

lemma hoare_remove:
  assumes "\<And>s. P s \<Longrightarrow> I s \<and> (free \<or> file_at s path \<noteq> None)"
    "\<And>s c. P s \<Longrightarrow> file_at s path = Some c \<Longrightarrow> I (delete_file path s) \<and> Q () (delete_file path s)"
    "free \<or> durable_path path"
  shows "hoare I free P (removeFile path) Q"
  using assms by (fastforce simp: removeFile_def intro!: hoare_primitive hoare_durable)

lemma hoare_remove_dir:
  assumes "\<And>s. P s \<Longrightarrow> I s \<and> (free \<or> dir_at s path \<and> entryNames s path = [])"
    "\<And>s. P s \<Longrightarrow> dir_at s path \<Longrightarrow> entryNames s path = [] \<Longrightarrow> I (remove_dir path s) \<and> Q () (remove_dir path s)"
    "free \<or> durable_path path"
  shows "hoare I free P (removeEmptyDirectory path) Q"
  using assms by (fastforce simp: removeEmptyDirectory_def intro!: hoare_primitive hoare_durable)

lemma hoare_sync:
  assumes "\<And>s. P s \<Longrightarrow> I s \<and> (free \<or> path = ''.'' \<or> dir_at s path)" "free \<or> path = ''.'' \<or> durable_path path"
    "\<And>s. P s \<Longrightarrow> Q Supported s"
  shows "hoare I free P (syncDirectory path) Q"
  using assms by (fastforce simp: syncDirectory_def intro!: hoare_primitive hoare_durable)

lemma hoare_merged:
  assumes "\<And>s. P s \<Longrightarrow> I s \<and> (free \<or> path = ''.'' \<or> dir_at s path)" "free \<or> path = ''.'' \<or> durable_path path"
    "\<And>d s. P s \<Longrightarrow> Q d s"
  shows "hoare I free P (merged_sync d path) Q"
  unfolding merged_sync_def
  using assms by (intro hoare_and_then [OF hoare_sync [where Q = "\<lambda>_. P"]]) (auto intro: hoare_give)

lemma hoare_now: "(\<And>t s. P s \<Longrightarrow> t \<in> range (sv_now sv) \<Longrightarrow> Q t s) \<Longrightarrow> hoare I free P (now sv) Q"
  by (auto simp: hoare_def now_def)

lemma hoare_next_id: "(\<And>t s. P s \<Longrightarrow> t \<in> range (sv_next_id sv) \<Longrightarrow> Q t s) \<Longrightarrow> hoare I free P (next_id sv) Q"
  by (auto simp: hoare_def next_id_def)

lemma hoare_context: "(\<And>s. P s \<Longrightarrow> Q () s) \<Longrightarrow> hoare I free P (set_context f) Q"
  by (auto simp: hoare_def set_context_def)

text \<open>Writing a file passes through the empty file and leaves it whole.\<close>

lemma set_file_twice: "set_file p c (set_file p d s) = set_file p c s"
proof -
  have "assoc_set p c (assoc_set p d xs) = assoc_set p c xs" for xs :: "(string \<times> string) list"
    by (induction p d xs rule: assoc_set.induct) auto
  then show ?thesis by (simp add: set_file_def)
qed


lemma hoare_free: "hoare I free P p Q \<Longrightarrow> hoare I True P p Q"
  unfolding hoare_def by (fastforce split: sum.splits)

lemma hoare_write:
  assumes before: "\<And>s. P s \<Longrightarrow> I s \<and> (free \<or> has_parent s path \<and> vacant s path)"
    and after: "\<And>s. P s \<Longrightarrow> has_parent s path \<Longrightarrow> vacant s path \<Longrightarrow>
       I (set_file path '''' s) \<and> I (set_file path c s) \<and> Q () (set_file path c s)"
    and path: "free \<or> durable_path path"
  shows "hoare I free P (writeSynced path c) Q"
  unfolding writeSynced_def
proof (rule hoare_durable [OF path])
  let ?open = "\<lambda>s. if has_parent s path \<and> vacant s path then Some ((), set_file path '''' s) else None"
  let ?body = "next_do (primitive Op_write_file
      (\<lambda>s. if file_at s path = None then None else Some ((), set_file path c s)))
      (primitive Op_sync_file (still_open path))"
  let ?close = "primitive Op_close_file (still_open path)"
  let ?wrote = "\<lambda>m0. case boundary Op_open_file ?open m0 of
      (False, r, m) \<Rightarrow> (r, m)
    | (True, r, m) \<Rightarrow> (case (case r of Inl e \<Rightarrow> (Inl e, m) | Inr _ \<Rightarrow> ?body m) of
        (r2, m2) \<Rightarrow> (case ?close m2 of (Inl e, m3) \<Rightarrow> (Inl e, m3) | (Inr _, m3) \<Rightarrow> (r2, m3)))"
  show "hoare I free P ?wrote Q"
    unfolding hoare_def
  proof (intro allI impI)
    fix m0 :: machine assume P: "P (mc_storage m0)"
    obtain b r m where o: "boundary Op_open_file ?open m0 = (b, r, m)"
      by (cases "boundary Op_open_file ?open m0" rule: prod_cases3)
    show "mc_rules (snd (?wrote m0)) = mc_rules m0 \<and>
        (\<exists>h. mc_history (snd (?wrote m0)) = h @ mc_history m0 \<and> (\<forall>s \<in> set h. I s)) \<and>
        (case fst (?wrote m0) of
           Inr x \<Rightarrow> Q x (mc_storage (snd (?wrote m0)))
         | Inl e \<Rightarrow> I (mc_storage (snd (?wrote m0))) \<and> (free \<or> mc_rules m0 \<noteq> []))"
      using o
    proof (cases rule: boundary_cases)
      case kept
      with o before [OF P] show ?thesis by (auto split: if_splits)
    next
      case (done_ x s)
      let ?s = "mc_storage m0"
      have s: "s = set_file path '''' ?s" "has_parent ?s path" "vacant ?s path"
        using done_(2) by (auto split: if_splits)
      note I = after [OF P s(2,3)]
      obtain r2 m2 where body: "(case r of Inl e \<Rightarrow> (Inl e, m) | Inr _ \<Rightarrow> ?body m) = (r2, m2)" by fastforce
      have full: "hoare I free (\<lambda>s. s = set_file path '''' ?s) ?body (\<lambda>_ s. s = set_file path c ?s)"
        by (rule hoare_next [where R = "\<lambda>s. s = set_file path c ?s"]; rule hoare_primitive)
           (use I in \<open>auto simp: set_file_twice still_open_def\<close>)
      have m2: "mc_rules m2 = mc_rules m0 \<and> (\<exists>h. mc_history m2 = h @ mc_history m0 \<and> (\<forall>s \<in> set h. I s)) \<and>
          (case r2 of Inr _ \<Rightarrow> mc_storage m2 = set_file path c ?s
           | Inl e \<Rightarrow> I (mc_storage m2) \<and> (free \<or> mc_rules m0 \<noteq> []))"
      proof (cases r)
        case (Inl e)
        with body done_ s I show ?thesis by auto
      next
        case (Inr u)
        with body have "?body m = (r2, m2)" by simp
        note 1 = hoareD [OF full _ this]
        from done_ s have "mc_storage m = set_file path '''' ?s" by simp
        note 2 = 1 [OF this]
        obtain h where "mc_history m2 = h @ mc_history m" "\<forall>s \<in> set h. I s" using 2(2) by blast
        with done_(5) s I have "mc_history m2 = (h @ [s]) @ mc_history m0 \<and> (\<forall>s \<in> set (h @ [s]). I s)" by simp
        then have "\<exists>h. mc_history m2 = h @ mc_history m0 \<and> (\<forall>s \<in> set h. I s)" by (rule exI)
        moreover have "mc_rules m2 = mc_rules m0" using 2(1) done_(6) by simp
        ultimately show ?thesis using 2(3) done_(6) by (cases r2) simp_all
      qed
      obtain r3 m3 where close: "?close m2 = (r3, m3)" by fastforce
      have c1: "hoare I free (\<lambda>s. s = set_file path c ?s) ?close (\<lambda>_ s. s = set_file path c ?s)"
        by (rule hoare_primitive) (use I in \<open>auto simp: still_open_def\<close>)
      have c2: "hoare I True I ?close (\<lambda>_. I)"
        by (rule hoare_primitive) (auto simp: still_open_def)
      have eq: "?wrote m0 = (case r3 of Inl e \<Rightarrow> Inl e | Inr _ \<Rightarrow> r2, m3)"
        using o done_(1) body close by (auto split: sum.splits)
      show ?thesis
      proof (cases r2)
        case (Inl e)
        with m2 have "I (mc_storage m2)" by simp
        note 3 = hoareD [OF c2 this close]
        from 3(2) m2 have "\<exists>h. mc_history m3 = h @ mc_history m0 \<and> (\<forall>s \<in> set h. I s)" by fastforce
        with 3 m2 Inl show ?thesis unfolding eq by (auto split: sum.splits)
      next
        case (Inr u)
        with m2 have "mc_storage m2 = set_file path c ?s" by simp
        note 3 = hoareD [OF c1 this close]
        from 3(2) m2 have "\<exists>h. mc_history m3 = h @ mc_history m0 \<and> (\<forall>s \<in> set h. I s)" by fastforce
        with 3 m2 Inr I show ?thesis unfolding eq by (auto split: sum.splits)
      qed
    qed
  qed
qed (use before in blast)

end
