(* ===== verification/Transaction_States.thy ===== *)
theory Transaction_States
  imports Transaction_Hoare
begin

text \<open>
  The states a transaction can leave on disk. A job is a plan with the identity of its
  transaction and the storage it started from; the states are unmarked, begun, prepared,
  publishing at some operation, committed and aborted, each fixing what lies in the
  transaction's own directory and how many operations the rest of the storage has seen.
\<close>

section \<open>Jobs\<close>

record job =
  jb_services :: transaction_services
  jb_id :: string
  jb_createdAt :: string
  jb_plan :: "managed_operation list"
  jb_initial :: storage

definition jroot :: "job \<Rightarrow> string" where "jroot j = transactionRoot (jb_id j)"

definition jlen :: "job \<Rightarrow> nat" where "jlen j = length (jb_plan j)"

definition payload :: "job \<Rightarrow> nat \<Rightarrow> string" where
  "payload j i = jroot j @ ''/'' @ staged_name (operationIdAt i)"

definition jmanifest :: "job \<Rightarrow> transaction_manifest" where
  "jmanifest j =
     \<lparr> mf_transactionId = jb_id j, mf_planDigest = plan_digest (jb_services j) (map toPersistedManagedOperation (jb_plan j)),
       mf_createdAt = jb_createdAt j, mf_operations = map (manifest_operation (jroot j)) (jb_plan j) \<rparr>"

definition jdigest :: "job \<Rightarrow> string" where
  "jdigest j = sv_sha256 (jb_services j) (canonicalizeJson (manifest_json (jmanifest j)))"

definition jids :: "job \<Rightarrow> string list" where "jids j = map mo_operationId (jb_plan j)"

text \<open>What the executor's own checks establish of a plan.\<close>

definition operation_shape :: "transaction_services \<Rightarrow> nat \<Rightarrow> managed_operation \<Rightarrow> bool" where
  "operation_shape sv i operation \<longleftrightarrow>
     mo_operationId operation = operationIdAt i \<and> isManagedDirectoryDestination (dr_path operation) \<and>
     dr_expected operation \<noteq> dr_result operation \<and>
     (case dr_kind operation of
        Create_op \<Rightarrow> mo_stagedPath operation = None \<and> dr_expected operation = Missing \<and> dr_result operation = Directory
      | Write_op c \<Rightarrow> mo_stagedPath operation = Some (staged_name (operationIdAt i)) \<and>
          dr_expected operation \<noteq> Directory \<and> dr_result operation = contentFingerprint sv c
      | Delete_op \<Rightarrow> mo_stagedPath operation = None \<and> is_file_print (dr_expected operation) \<and> dr_result operation = Missing)"

definition plan_shape :: "transaction_services \<Rightarrow> managed_operation list \<Rightarrow> bool" where
  "plan_shape sv plan \<longleftrightarrow> plan \<noteq> [] \<and> (\<forall>i < length plan. operation_shape sv i (plan ! i)) \<and> distinct (map dr_path plan)"

lemma frozen_shape:
  assumes "freezeManagedPlan (sv_sha256 sv) plan = Inr plan2"
  shows "plan2 = plan \<and> plan_shape sv plan"
proof -
  from assms have eq: "plan2 = plan" "plan \<noteq> []" "first_failure (freezeManagedOperation (sv_sha256 sv)) 0 plan = None"
    and rel: "validateManagedRelationships plan"
    by (auto simp: freezeManagedPlan_def split: if_splits option.splits)
  have "\<forall>i < length xs. freezeManagedOperation (sv_sha256 sv) (xs ! i) (k + i) = None"
    if "first_failure (freezeManagedOperation (sv_sha256 sv)) k xs = None" for xs k
    using that
  proof (induction xs arbitrary: k)
    case (Cons x xs)
    from Cons.prems have head: "freezeManagedOperation (sv_sha256 sv) x k = None"
      and tail: "first_failure (freezeManagedOperation (sv_sha256 sv)) (Suc k) xs = None"
      by (simp_all split: option.splits)
    show ?case
    proof (intro allI impI)
      fix i assume "i < length (x # xs)"
      with head Cons.IH [OF tail] show "freezeManagedOperation (sv_sha256 sv) ((x # xs) ! i) (k + i) = None"
        by (cases i) simp_all
    qed
  qed simp
  from this [OF eq(3)] have ops: "freezeManagedOperation (sv_sha256 sv) (plan ! i) i = None" if "i < length plan" for i
    using that by simp
  have "operation_shape sv i (plan ! i)" if "i < length plan" for i
    using ops [OF that] unfolding freezeManagedOperation_def operation_shape_def
    by (auto simp: Let_def isManagedDirectoryDestination_def is_file_print_def contentFingerprint_def
        split: if_splits operation_kind.splits path_fingerprint.splits)
  moreover have "distinct (map dr_path plan)"
  proof -
    from rel have "all_pairs operation_pair_ok plan" by (simp add: validateManagedRelationships_def)
    then have pair: "operation_pair_ok (plan ! i) (plan ! k)" if "i < k" "k < length plan" for i k
      using that by (simp add: all_pairs_nth)
    have "dr_path (plan ! i) \<noteq> dr_path (plan ! k)" if "i < k" "k < length plan" for i k
      using pair [OF that] by (auto simp: operation_pair_ok_def Let_def)
    then show ?thesis by (auto simp: distinct_conv_nth) (metis linorder_neqE_nat)
  qed
  ultimately show ?thesis using eq by (auto simp: plan_shape_def)
qed

section \<open>Paths of a job\<close>

definition under :: "string \<Rightarrow> string \<Rightarrow> bool" where
  "under root p \<longleftrightarrow> p = root \<or> starts_with (root @ ''/'') p"

lemma starts_with_exists: "starts_with a b \<longleftrightarrow> (\<exists>r. b = a @ r)"
  by (simp add: starts_with_iff)

lemma nat_text_inj: "nat_text a = nat_text b \<Longrightarrow> a = b"
  using digits_value_nat_text by metis

lemma operationIdAt_inj [simp]: "operationIdAt a = operationIdAt b \<longleftrightarrow> a = b"
proof
  assume "operationIdAt a = operationIdAt b"
  then have "digits_value 0 (pad_start 4 (nat_text (a + 1))) = digits_value 0 (pad_start 4 (nat_text (b + 1)))"
    by (simp add: operationIdAt_def)
  then show "a = b" by (simp add: pad_start_def digits_value_zeros digits_value_nat_text)
qed simp

lemma payload_inj [simp]: "payload j a = payload j b \<longleftrightarrow> a = b"
  by (simp add: payload_def staged_name_def)

lemma own_paths_distinct [simp]:
  "progress_path r \<noteq> next_path r" "progress_path r \<noteq> manifest_path r" "next_path r \<noteq> manifest_path r"
  "progress_path r \<noteq> staging_path r" "next_path r \<noteq> staging_path r" "manifest_path r \<noteq> staging_path r"
  "progress_path r \<noteq> r" "next_path r \<noteq> r" "manifest_path r \<noteq> r" "staging_path r \<noteq> r"
  by (simp_all add: progress_path_def next_path_def manifest_path_def staging_path_def)

lemma payload_distinct [simp]:
  "payload j i \<noteq> progress_path (jroot j)" "payload j i \<noteq> next_path (jroot j)" "payload j i \<noteq> manifest_path (jroot j)"
  "payload j i \<noteq> staging_path (jroot j)" "payload j i \<noteq> jroot j"
  by (simp_all add: payload_def staged_name_def progress_path_def next_path_def manifest_path_def staging_path_def)

lemmas own_paths_distinct' [simp] = own_paths_distinct [symmetric] payload_distinct [symmetric]

lemma own_under [simp]:
  "under r r" "under r (progress_path r)" "under r (next_path r)" "under r (manifest_path r)" "under r (staging_path r)"
  "under (jroot j) (payload j i)"
  by (auto simp: under_def progress_path_def next_path_def manifest_path_def staging_path_def payload_def starts_with_exists)

lemma storage_parent_append:
  assumes "CHR ''/'' \<notin> set b"
  shows "storage_parent (a @ ''/'' @ b) = Some a"
proof -
  have none: "last_separator b = None" using assms by (induction b) auto
  have "last_separator (a @ ''/'' @ b) = Some (length a)"
    by (induction a) (simp_all add: none)
  then show ?thesis by (simp add: storage_parent_def)
qed

lemma operationIdAt_plain: "CHR ''/'' \<notin> set (operationIdAt i)"
  using nat_text_digits [of "i + 1"] by (auto simp: operationIdAt_def pad_start_def is_digit_def code_unit_def)

lemma own_parents [simp]:
  "storage_parent (progress_path r) = Some r" "storage_parent (next_path r) = Some r"
  "storage_parent (manifest_path r) = Some r" "storage_parent (staging_path r) = Some r"
  "storage_parent (payload j i) = Some (staging_path (jroot j))"
proof -
  show "storage_parent (progress_path r) = Some r" "storage_parent (next_path r) = Some r"
    "storage_parent (manifest_path r) = Some r" "storage_parent (staging_path r) = Some r"
    unfolding progress_path_def next_path_def manifest_path_def staging_path_def
    by (rule storage_parent_append [of "_" r, simplified]; simp)+
  have "payload j i = staging_path (jroot j) @ ''/'' @ (operationIdAt i @ ''.payload'')"
    by (simp add: payload_def staging_path_def staged_name_def)
  moreover have "CHR ''/'' \<notin> set (operationIdAt i @ ''.payload'')" using operationIdAt_plain by simp
  ultimately show "storage_parent (payload j i) = Some (staging_path (jroot j))"
    using storage_parent_append [of "operationIdAt i @ ''.payload''" "staging_path (jroot j)"] by simp
qed

lemma destination_outside:
  assumes "isManagedDirectoryDestination p"
  shows "\<not> under (transactionRoot i) p" "p \<noteq> transactionsRoot" "p \<noteq> ''.brain''" "p \<noteq> ''.''"
proof -
  have base: "segments_of ''.brain/transactions'' = [''.brain'', ''transactions'']" by code_simp
  have seg: "\<exists>r. segments_of q = ''.brain'' # ''transactions'' # r" if "q = transactionsRoot \<or> under (transactionRoot i) q" for q
  proof -
    from that consider "q = ''.brain/transactions''" | r where "q = ''.brain/transactions'' @ CHR ''/'' # r"
      by (auto simp: under_def transactionRoot_def transactionsRoot_def starts_with_exists)
    then show ?thesis
    proof cases
      case 1
      with base show ?thesis by simp
    next
      case (2 r)
      have "segments_of q = ''.brain'' # ''transactions'' # segments_of r"
        unfolding 2 segments_of_prefix base by simp
      then show ?thesis by blast
    qed
  qed
  have "\<not> (\<exists>r. segments_of p = ''.brain'' # ''transactions'' # r)" and brain: "p \<noteq> ''.brain'' \<and> p \<noteq> ''.''"
  proof -
    have roots: "\<forall>f \<in> set MANAGED_ROOT_FILES. segments_of f = [f] \<and> f \<noteq> ''.brain'' \<and> f \<noteq> ''.''" 
      "\<forall>f \<in> set MANAGED_DIRECTORY_ROOTS. segments_of f = [f] \<and> f \<noteq> ''.''"
      by code_simp+
    have low: "to_lower_case ''transactions'' = ''transactions''" by code_simp
    from assms consider "isManagedDestination p" | "p \<in> set MANAGED_DIRECTORY_ROOTS" "p \<noteq> ''.brain''"
      by (auto simp: isManagedDirectoryDestination_def isManagedRoot_def split: if_splits)
    then have "\<not> (\<exists>r. segments_of p = ''.brain'' # ''transactions'' # r) \<and> p \<noteq> ''.brain'' \<and> p \<noteq> ''.''"
    proof cases
      case 1
      from managed_destination(2) [OF 1] show ?thesis
      proof (elim disjE exE conjE)
        assume "p \<in> set MANAGED_ROOT_FILES"
        with roots(1) show ?thesis by auto
      next
        fix root rest
        assume p: "segments_of p = root # rest" "rest \<noteq> []"
          and reserved: "root = ''.brain'' \<longrightarrow> to_lower_case (hd rest) \<noteq> ''transactions''"
        have "segments_of ''.brain'' = [''.brain'']" "segments_of ''.'' = [''.'']" by code_simp+
        with p have "p \<noteq> ''.brain''" "p \<noteq> ''.''" by auto
        with p reserved low show ?thesis by auto
      qed
    next
      case 2
      with roots(2) show ?thesis by auto
    qed
    then show "\<not> (\<exists>r. segments_of p = ''.brain'' # ''transactions'' # r)" "p \<noteq> ''.brain'' \<and> p \<noteq> ''.''" by blast+
  qed
  with seg [of p] show "\<not> under (transactionRoot i) p" "p \<noteq> transactionsRoot" "p \<noteq> ''.brain''" "p \<noteq> ''.''" by blast+
qed


text \<open>The paths the manager uses are ones the durable file system accepts.\<close>

definition safe_char :: "char \<Rightarrow> bool" where
  "safe_char c \<longleftrightarrow> c \<noteq> CHR 0x5C \<and> \<not> is_control c"

definition safe_segment :: "string \<Rightarrow> bool" where
  "safe_segment s \<longleftrightarrow> plain_segment s \<and> list_all safe_char s"

lemma shape_durable:
  assumes "isManagedPathShape p"
  shows "durable_path p"
proof -
  note shape = managed_shape [OF assms]
  have "normal_segments ss = Some ss" if "list_all plain_segment ss" for ss
    using that by (induction ss) (auto simp: plain_segment_def)
  from this [OF shape(3)] have "normal_segments (segments_of p) = Some (segments_of p)" .
  moreover from shape(1,2) have "\<not> starts_with ''/'' p" "CHR 0x5C \<notin> set p" "\<not> hasControlCharacter p" "\<not> driveLetterPattern p"
    by (auto simp: canonicalizeProjectPath_def canonical_absolute_def split: if_splits)
  moreover from this(4) have "\<not> drive_prefix p"
    by (auto simp: driveLetterPattern_def is_letter_def drive_prefix_def split: list.splits)
  ultimately have "normalizePath p = Some p"
    using shape(2) by (auto simp: normalizePath_def hasControlCharacter_def is_control_def list_ex_iff)
  with assms show ?thesis by (simp add: durable_path_def normalizeDurablePath_def)
qed

lemma destination_durable: "isManagedDirectoryDestination p \<Longrightarrow> durable_path p"
proof -
  have "list_all isManagedPathShape MANAGED_DIRECTORY_ROOTS" by code_simp
  then show "isManagedDirectoryDestination p \<Longrightarrow> durable_path p"
    by (auto simp: isManagedDirectoryDestination_def isManagedDestination_def isManagedRoot_def list_all_iff
        intro: shape_durable split: if_splits)
qed

lemma brain_durable: "list_all safe_segment ss \<Longrightarrow> ss \<noteq> [] \<Longrightarrow> durable_path (join_segments (''.brain'' # ss))"
proof (rule shape_durable)
  assume ss: "list_all safe_segment ss" "ss \<noteq> []"
  let ?ss = "''.brain'' # ss" let ?p = "join_segments ?ss"
  have brain: "safe_segment ''.brain''" by code_simp
  with ss have plain: "list_all plain_segment ?ss" by (auto simp: safe_segment_def list_all_iff)
  have "set (join_with (CHR ''/'') xs) \<subseteq> insert (CHR ''/'') (\<Union> (set ` set xs))" for xs
    by (induction xs rule: join_with.induct) auto
  moreover have "\<forall>s \<in> set ?ss. \<forall>c \<in> set s. safe_char c"
    using ss(1) brain by (auto simp: safe_segment_def list_all_iff)
  moreover have "safe_char (CHR ''/'')" by code_simp
  ultimately have chars: "\<forall>c \<in> set ?p. safe_char c" unfolding join_segments_def by blast
  have can: "canonicalizeProjectPath ?p None = Canonical ?p"
    by (rule shape_of_segments [OF plain])
       (use chars in \<open>auto simp: safe_char_def hasControlCharacter_def list_ex_iff\<close>)
  have seg: "segments_of ?p = ?ss" using segments_of_join [OF plain] by simp
  obtain s r where sr: "ss = s # r" using ss(2) by (cases ss) auto
  from seg sr segments_of_after [of ?p] have "first_segment ?p = ''.brain''" "after_separator ?p \<noteq> None"
    by (auto split: option.splits)
  moreover have "isManagedRoot ''.brain''" by code_simp
  moreover have "?p \<noteq> ''''" using seg by (auto simp: segments_of_def)
  ultimately show "isManagedPathShape ?p" using can by (auto simp: isManagedPathShape_def)
qed

lemma id_safe: "id_test i \<Longrightarrow> safe_segment i"
proof (cases i)
  case (Cons c cs)
  assume "id_test i"
  with Cons have c: "is_alnum c" "\<forall>d \<in> set (c # cs). is_id_char d"
    by (auto simp: is_id_char_def list_all_iff)
  have "is_id_char d \<Longrightarrow> safe_char d \<and> d \<noteq> CHR ''/''" for d
    by (auto simp: is_id_char_def is_alnum_def is_upper_def is_lower_def is_digit_def safe_char_def is_control_def
        code_unit_def)
  moreover have "c \<noteq> CHR ''.''" using c(1) by (auto simp: is_alnum_def is_upper_def is_lower_def is_digit_def code_unit_def)
  ultimately show ?thesis using c Cons by (auto simp: safe_segment_def plain_segment_def list_all_iff)
qed simp

lemma payload_name_safe: "safe_segment (operationIdAt i @ ''.payload'')"
proof -
  let ?P = "\<lambda>d. safe_char d \<and> d \<noteq> CHR ''/''"
  have "?P d" if "is_digit d" for d
    using that by (auto simp: is_digit_def safe_char_def is_control_def code_unit_def)
  then have "list_all ?P (nat_text (i + 1))" using nat_text_digits [of "i + 1"] by (auto simp: list_all_iff)
  moreover have "list_all ?P ''operation-''" "list_all ?P ''.payload''" "?P (CHR ''0'')" by code_simp+
  moreover from this(3) have "list_all ?P (replicate k (CHR ''0''))" for k by (auto simp: list_all_iff)
  ultimately have "list_all ?P (operationIdAt i @ ''.payload'')"
    unfolding operationIdAt_def pad_start_def list_all_append by blast
  then have "\<forall>d \<in> set (operationIdAt i @ ''.payload''). ?P d" by (simp only: list_all_iff)
  moreover have "operationIdAt i @ ''.payload'' = CHR ''o'' # tl (operationIdAt i @ ''.payload'')"
    by (simp add: operationIdAt_def)
  then have "operationIdAt i @ ''.payload'' \<notin> {'''', ''.'', ''..''}" by auto
  ultimately show ?thesis unfolding safe_segment_def plain_segment_def list_all_iff by blast
qed

lemma own_durable:
  assumes "id_test (jb_id j)"
  shows "durable_path (jroot j)" "durable_path (progress_path (jroot j))" "durable_path (next_path (jroot j))"
    "durable_path (manifest_path (jroot j))" "durable_path (staging_path (jroot j))" "durable_path (payload j i)"
    "durable_path transactionsRoot" "durable_path ''.brain''"
proof -
  note id = id_safe [OF assms]
  have t: "list_all safe_segment [''transactions'', ''progress.json'', ''progress.next'', ''manifest.json'', ''staging'']"
    by code_simp
  note intro = brain_durable [of "''transactions'' # jb_id j # r" for r, unfolded join_segments_def, simplified]
  from t id payload_name_safe [of i] show "durable_path (jroot j)" "durable_path (progress_path (jroot j))"
    "durable_path (next_path (jroot j))" "durable_path (manifest_path (jroot j))" "durable_path (staging_path (jroot j))"
    "durable_path (payload j i)"
    using intro [of "[]"] intro [of "[''progress.json'']"] intro [of "[''progress.next'']"] intro [of "[''manifest.json'']"]
      intro [of "[''staging'']"] intro [of "[''staging'', operationIdAt i @ ''.payload'']"]
    by (simp_all add: jroot_def transactionRoot_def transactionsRoot_def progress_path_def next_path_def
        manifest_path_def staging_path_def payload_def staged_name_def)
  have "isManagedPathShape ''.brain/transactions''" "isManagedPathShape ''.brain''" by code_simp+
  then show "durable_path transactionsRoot" "durable_path ''.brain''" unfolding transactionsRoot_def by (simp_all add: shape_durable)
qed


section \<open>States\<close>

definition effect_on :: "managed_operation \<Rightarrow> storage \<Rightarrow> storage" where
  "effect_on operation s =
     (case dr_kind operation of
        Create_op \<Rightarrow> add_dir (dr_path operation) s
      | Write_op c \<Rightarrow> set_file (dr_path operation) c s
      | Delete_op \<Rightarrow> delete_file (dr_path operation) s)"

definition applied :: "job \<Rightarrow> nat \<Rightarrow> storage" where
  "applied j k = foldl (\<lambda>s operation. effect_on operation s) (jb_initial j) (take k (jb_plan j))"

text \<open>Outside the transaction's directory the first \<open>k\<close> operations, and nothing else, took effect.\<close>

definition outside :: "job \<Rightarrow> nat \<Rightarrow> storage \<Rightarrow> bool" where
  "outside j k s \<longleftrightarrow> (\<forall>p. \<not> under (jroot j) p \<longrightarrow>
     file_at s p = file_at (applied j k) p \<and> dir_at s p = dir_at (applied j k) p)"

text \<open>The transaction's directory holds its documents and payloads only.\<close>

definition inside :: "job \<Rightarrow> storage \<Rightarrow> bool" where
  "inside j s \<longleftrightarrow> dir_at s (jroot j) \<and> file_at s (jroot j) = None \<and>
     (\<forall>p. under (jroot j) p \<longrightarrow> p \<noteq> jroot j \<longrightarrow>
        (file_at s p \<noteq> None \<longrightarrow> p \<in> {progress_path (jroot j), next_path (jroot j), manifest_path (jroot j)} \<or>
           (\<exists>i < jlen j. p = payload j i)) \<and>
        (dir_at s p \<longrightarrow> p = staging_path (jroot j)))"

definition content_of :: "job \<Rightarrow> nat \<Rightarrow> string option" where
  "content_of j i = (case dr_kind (jb_plan j ! i) of Write_op c \<Rightarrow> Some c | _ \<Rightarrow> None)"

definition manifest_in :: "job \<Rightarrow> storage \<Rightarrow> bool" where
  "manifest_in j s \<longleftrightarrow> file_at s (manifest_path (jroot j)) = Some (document_text (manifest_json (jmanifest j)))"

definition orphan_free :: "job \<Rightarrow> storage \<Rightarrow> bool" where
  "orphan_free j s \<longleftrightarrow> (\<forall>i < jlen j. file_at s (payload j i) \<noteq> None \<longrightarrow> dir_at s (staging_path (jroot j)))"

text \<open>The payloads of the operations from \<open>k\<close> on are staged, the others are gone.\<close>

definition staged_from :: "job \<Rightarrow> nat \<Rightarrow> storage \<Rightarrow> bool" where
  "staged_from j k s \<longleftrightarrow> dir_at s (staging_path (jroot j)) \<and>
     (\<forall>i < jlen j. file_at s (payload j i) = (if k \<le> i then content_of j i else None))"

definition loosely_staged :: "job \<Rightarrow> storage \<Rightarrow> bool" where
  "loosely_staged j s \<longleftrightarrow> (\<forall>i < jlen j. file_at s (payload j i) \<in> {None, content_of j i})"

definition unstaged :: "job \<Rightarrow> storage \<Rightarrow> bool" where
  "unstaged j s \<longleftrightarrow> (\<forall>i < jlen j. file_at s (payload j i) = None)"

definition expected_ok :: "job \<Rightarrow> bool" where
  "expected_ok j \<longleftrightarrow> (\<forall>i < jlen j.
     view (jb_services j) (jb_initial j) (dr_path (jb_plan j ! i)) = dr_expected (jb_plan j ! i))"

definition documented :: "job \<Rightarrow> transaction_progress \<Rightarrow> bool" where
  "documented j p \<longleftrightarrow> valid_progress p \<and> pg_transactionId p = jb_id j \<and> pg_createdAt p = jb_createdAt j \<and>
     (case pg_manifestDigest p of
        None \<Rightarrow> pg_recoveryToken p = identity_token (jb_services j) (jb_id j) (jb_createdAt j)
      | Some d \<Rightarrow> d = jdigest j \<and> pg_recoveryToken p = d)"

text \<open>The storage is one the progress document \<open>p\<close> describes.\<close>

definition fits :: "job \<Rightarrow> transaction_progress \<Rightarrow> storage \<Rightarrow> bool" where
  "fits j p s \<longleftrightarrow> documented j p \<and> inside j s \<and>
     (case pg_phase p of
        Begun \<Rightarrow> pg_published p = [] \<and> outside j 0 s \<and> orphan_free j s
      | Aborted \<Rightarrow> pg_published p = [] \<and> outside j 0 s \<and> orphan_free j s \<and>
          (pg_manifestDigest p \<noteq> None \<longrightarrow> manifest_in j s \<and> loosely_staged j s)
      | Prepared \<Rightarrow> pg_published p = [] \<and> outside j 0 s \<and> manifest_in j s \<and> staged_from j 0 s \<and> expected_ok j
      | Publishing \<Rightarrow> manifest_in j s \<and> expected_ok j \<and> pg_published p = take (length (pg_published p)) (jids j) \<and>
          (\<exists>k \<le> jlen j. outside j k s \<and> staged_from j k s \<and>
             length (pg_published p) \<le> k \<and> k \<le> Suc (length (pg_published p)))
      | Committed \<Rightarrow> manifest_in j s \<and> expected_ok j \<and> outside j (jlen j) s \<and> unstaged j s \<and> pg_published p = jids j)"

definition progress_is :: "job \<Rightarrow> transaction_progress \<Rightarrow> storage \<Rightarrow> bool" where
  "progress_is j p s \<longleftrightarrow> file_at s (progress_path (jroot j)) = Some (document_text (progress_json p))"

text \<open>No progress document yet: the directory is missing or holds the scratch file at most.\<close>

definition unmarked :: "job \<Rightarrow> storage \<Rightarrow> bool" where
  "unmarked j s \<longleftrightarrow> outside j 0 s \<and>
     (\<forall>p. under (jroot j) p \<longrightarrow> (p \<noteq> next_path (jroot j) \<longrightarrow> file_at s p = None) \<and> (dir_at s p \<longrightarrow> p = jroot j)) \<and>
     (\<not> dir_at s (jroot j) \<longrightarrow> file_at s (next_path (jroot j)) = None)"

definition crash :: "job \<Rightarrow> storage \<Rightarrow> bool" where
  "crash j s \<longleftrightarrow> unmarked j s \<or> (\<exists>p. progress_is j p s \<and> fits j p s)"

text \<open>
  A job the executor may be given: the plan passed its checks, the manager's directories
  exist and the transaction's own does not.
\<close>

definition job_ok :: "job \<Rightarrow> bool" where
  "job_ok j \<longleftrightarrow> plan_shape (jb_services j) (jb_plan j) \<and> id_test (jb_id j) \<and>
     dir_at (jb_initial j) ''.brain'' \<and> dir_at (jb_initial j) transactionsRoot \<and>
     (\<forall>p. dir_at (jb_initial j) p \<longrightarrow> file_at (jb_initial j) p = None) \<and>
     (\<forall>p. under (jroot j) p \<longrightarrow> file_at (jb_initial j) p = None \<and> \<not> dir_at (jb_initial j) p)"

section \<open>What the states say\<close>

lemma jids_at: "job_ok j \<Longrightarrow> i < jlen j \<Longrightarrow> jids j ! i = operationIdAt i"
  by (simp add: jids_def jlen_def job_ok_def plan_shape_def operation_shape_def)

lemma length_jids [simp]: "length (jids j) = jlen j"
  by (simp add: jids_def jlen_def)

lemma distinct_jids: "job_ok j \<Longrightarrow> distinct (jids j)"
  by (auto simp: distinct_conv_nth jids_at)

lemma applied_0 [simp]: "applied j 0 = jb_initial j"
  by (simp add: applied_def)

lemma applied_Suc: "k < jlen j \<Longrightarrow> applied j (Suc k) = effect_on (jb_plan j ! k) (applied j k)"
  by (simp add: applied_def take_Suc_conv_app_nth jlen_def)

lemma effect_on_other:
  "p \<noteq> dr_path operation \<Longrightarrow> file_at (effect_on operation s) p = file_at s p \<and> dir_at (effect_on operation s) p = dir_at s p"
  by (cases "dr_kind operation") (auto simp: effect_on_def)

lemma view_cong: "file_at s p = file_at t p \<Longrightarrow> dir_at s p = dir_at t p \<Longrightarrow> view sv s p = view sv t p"
  by (simp add: view_def fingerprint_at_def)

definition jop :: "job \<Rightarrow> nat \<Rightarrow> managed_operation" where "jop j i = jb_plan j ! i"

lemma jop_shape: "job_ok j \<Longrightarrow> i < jlen j \<Longrightarrow> operation_shape (jb_services j) i (jop j i)"
  by (simp add: job_ok_def plan_shape_def jlen_def jop_def)

lemma jop_destination: "job_ok j \<Longrightarrow> i < jlen j \<Longrightarrow> isManagedDirectoryDestination (dr_path (jop j i))"
  using jop_shape [of j i] by (simp add: operation_shape_def)

lemma jop_outside:
  assumes "job_ok j" "i < jlen j"
  shows "\<not> under (jroot j) (dr_path (jop j i))" "dr_path (jop j i) \<noteq> ''.''" "dr_path (jop j i) \<noteq> transactionsRoot"
    "dr_path (jop j i) \<noteq> ''.brain''"
  using destination_outside [OF jop_destination [OF assms]] by (simp_all add: jroot_def)

lemma jop_paths: "job_ok j \<Longrightarrow> i < jlen j \<Longrightarrow> k < jlen j \<Longrightarrow> dr_path (jop j i) = dr_path (jop j k) \<longleftrightarrow> i = k"
  by (auto simp: job_ok_def plan_shape_def jlen_def jop_def distinct_conv_nth)

lemma applied_other:
  assumes "k \<le> jlen j" "\<forall>i < k. p \<noteq> dr_path (jop j i)"
  shows "file_at (applied j k) p = file_at (jb_initial j) p \<and> dir_at (applied j k) p = dir_at (jb_initial j) p"
  using assms by (induction k) (auto simp: applied_Suc jop_def effect_on_other)

text \<open>Destinations stand at their results up to the last published operation, at their expectations after it.\<close>

lemma applied_view:
  assumes j: "job_ok j" "expected_ok j" and k: "k \<le> jlen j" and i: "i < jlen j"
  shows "view (jb_services j) (applied j k) (dr_path (jop j i)) =
    (if i < k then dr_result (jop j i) else dr_expected (jop j i))"
  using k
proof (induction k)
  case 0
  then show ?case using j i by (simp add: expected_ok_def jop_def)
next
  case (Suc k)
  then have k: "k < jlen j" by simp
  show ?case
  proof (cases "i = k")
    case False
    then have "dr_path (jop j i) \<noteq> dr_path (jop j k)" using jop_paths [OF j(1) i k] by simp
    from effect_on_other [OF this] have "view (jb_services j) (applied j (Suc k)) (dr_path (jop j i)) =
        view (jb_services j) (applied j k) (dr_path (jop j i))"
      using k by (intro view_cong) (simp_all add: applied_Suc jop_def)
    with Suc False show ?thesis by (simp add: less_Suc_eq)
  next
    case True
    let ?p = "dr_path (jop j k)"
    from Suc True have "view (jb_services j) (applied j k) ?p = dr_expected (jop j k)" by simp
    moreover have "?p \<noteq> ''.''" using jop_outside(2) [OF j(1) k] .
    ultimately have now: "fingerprint_at (sv_sha256 (jb_services j)) (applied j k) ?p = dr_expected (jop j k)"
      by (simp add: view_def)
    have "\<forall>i < k. ?p \<noteq> dr_path (jop j i)" using jop_paths [OF j(1)] k by auto
    with applied_other [of k j ?p] Suc j(1) have "dir_at (applied j k) ?p \<longrightarrow> file_at (applied j k) ?p = None"
      by (simp add: job_ok_def)
    with now jop_shape [OF j(1) k] True \<open>?p \<noteq> ''.''\<close> show ?thesis
      by (auto simp: applied_Suc [OF k] operation_shape_def view_def fingerprint_at_def effect_on_def jop_def
          contentFingerprint_def is_file_print_def split: operation_kind.splits option.splits if_splits path_fingerprint.splits)
  qed
qed


section \<open>Replacing the progress document\<close>

text \<open>Storages that differ in the progress document and its scratch file only.\<close>

definition scratch_eq :: "job \<Rightarrow> storage \<Rightarrow> storage \<Rightarrow> bool" where
  "scratch_eq j s t \<longleftrightarrow> dir_at s = dir_at t \<and>
     (\<forall>p. p \<noteq> progress_path (jroot j) \<longrightarrow> p \<noteq> next_path (jroot j) \<longrightarrow> file_at s p = file_at t p)"

lemma scratch_eq_set [simp]:
  "scratch_eq j s (set_file (progress_path (jroot j)) c s)" "scratch_eq j s (set_file (next_path (jroot j)) c s)"
  "scratch_eq j s (delete_file (next_path (jroot j)) s)"
  "scratch_eq j s (set_file (progress_path (jroot j)) c (delete_file (next_path (jroot j)) s))"
  by (simp_all add: scratch_eq_def)

lemma scratch_eq_states:
  assumes "scratch_eq j s t"
  shows "outside j k s \<Longrightarrow> outside j k t" "inside j s \<Longrightarrow> inside j t" "manifest_in j s \<Longrightarrow> manifest_in j t"
    "orphan_free j s \<Longrightarrow> orphan_free j t" "staged_from j k s \<Longrightarrow> staged_from j k t"
    "loosely_staged j s \<Longrightarrow> loosely_staged j t" "unstaged j s \<Longrightarrow> unstaged j t"
proof -
  have f: "file_at t p = file_at s p" if "p \<noteq> progress_path (jroot j)" "p \<noteq> next_path (jroot j)" for p
    using that assms by (simp add: scratch_eq_def)
  have d: "dir_at t = dir_at s" using assms by (simp add: scratch_eq_def)
  have own: "file_at t (manifest_path (jroot j)) = file_at s (manifest_path (jroot j))"
    "file_at t (payload j i) = file_at s (payload j i)" "file_at t (jroot j) = file_at s (jroot j)" for i
    by (rule f; simp)+
  show "manifest_in j s \<Longrightarrow> manifest_in j t" "orphan_free j s \<Longrightarrow> orphan_free j t" "staged_from j k s \<Longrightarrow> staged_from j k t"
    "loosely_staged j s \<Longrightarrow> loosely_staged j t" "unstaged j s \<Longrightarrow> unstaged j t"
    by (auto simp: manifest_in_def orphan_free_def staged_from_def loosely_staged_def unstaged_def own d)
  show "outside j k s \<Longrightarrow> outside j k t"
    unfolding outside_def d by (metis f own_under(2,3))
  show "inside j s \<Longrightarrow> inside j t"
    unfolding inside_def d own by (metis f insertCI)
qed

lemma fits_scratch: "fits j p s \<Longrightarrow> scratch_eq j s t \<Longrightarrow> fits j p t"
  unfolding fits_def by (cases "pg_phase p") (auto dest: scratch_eq_states)

lemma inside_own:
  assumes "inside j s"
  shows "dir_at s (jroot j)" "\<not> dir_at s (next_path (jroot j))" "\<not> dir_at s (progress_path (jroot j))"
    "\<not> dir_at s (manifest_path (jroot j))" "\<not> dir_at s (payload j i)" "file_at s (staging_path (jroot j)) = None"
    "file_at s (jroot j) = None"
proof -
  have no: "\<not> dir_at s p" if "under (jroot j) p" "p \<noteq> jroot j" "p \<noteq> staging_path (jroot j)" for p
    using assms that by (auto simp: inside_def)
  show "dir_at s (jroot j)" "file_at s (jroot j) = None" using assms by (simp_all add: inside_def)
  show "\<not> dir_at s (next_path (jroot j))" "\<not> dir_at s (progress_path (jroot j))"
    "\<not> dir_at s (manifest_path (jroot j))" "\<not> dir_at s (payload j i)"
    by (rule no; simp)+
  show "file_at s (staging_path (jroot j)) = None"
  proof (rule ccontr)
    assume "file_at s (staging_path (jroot j)) \<noteq> None"
    moreover have "under (jroot j) (staging_path (jroot j))" "staging_path (jroot j) \<noteq> jroot j" by simp_all
    ultimately have "staging_path (jroot j) \<in> {progress_path (jroot j), next_path (jroot j), manifest_path (jroot j)} \<or>
        (\<exists>i < jlen j. staging_path (jroot j) = payload j i)"
      using assms unfolding inside_def by blast
    then show False by auto
  qed
qed

lemma own_not_dot [simp]:
  "jroot j \<noteq> ''.''" "progress_path (jroot j) \<noteq> ''.''" "next_path (jroot j) \<noteq> ''.''" "manifest_path (jroot j) \<noteq> ''.''"
  "staging_path (jroot j) \<noteq> ''.''" "payload j i \<noteq> ''.''" "transactionsRoot \<noteq> ''.''"
  by (simp_all add: jroot_def transactionRoot_def transactionsRoot_def progress_path_def next_path_def
      manifest_path_def staging_path_def payload_def)

lemma view_file [simp]: "p \<noteq> ''.'' \<Longrightarrow> file_at s p = Some c \<Longrightarrow> view sv s p = contentFingerprint sv c"
  by (simp add: view_def fingerprint_at_def contentFingerprint_def)

lemma view_missing_iff: "p \<noteq> ''.'' \<Longrightarrow> view sv s p = Missing \<longleftrightarrow> vacant s p"
  by (auto simp: view_def fingerprint_at_def vacant_def split: option.splits)

lemma view_is_file: "p \<noteq> ''.'' \<Longrightarrow> is_file_print (view sv s p) \<longleftrightarrow> file_at s p \<noteq> None"
  by (auto simp: view_def fingerprint_at_def is_file_print_def split: option.splits)

lemma view_is_dir: "p \<noteq> ''.'' \<Longrightarrow> view sv s p = Directory \<longleftrightarrow> file_at s p = None \<and> dir_at s p"
  by (auto simp: view_def fingerprint_at_def split: option.splits)

lemma file_print_content [simp]: "is_file_print (contentFingerprint sv c)"
  by (simp add: is_file_print_def contentFingerprint_def)

lemma hoare_validate:
  assumes "free \<or> valid_progress p" "\<And>s. P s \<Longrightarrow> I s" "\<And>s. P s \<Longrightarrow> valid_progress p \<Longrightarrow> Q p s"
  shows "hoare I free P (validateProgress p) Q"
  using assms by (auto simp: validateProgress_def intro!: hoare_give hoare_throw)

lemma hoare_persist:
  assumes closed: "\<And>s t. R s \<Longrightarrow> scratch_eq j s t \<Longrightarrow> R t"
    and root: "\<And>s. R s \<Longrightarrow> dir_at s (jroot j) \<and> \<not> dir_at s (next_path (jroot j)) \<and> \<not> dir_at s (progress_path (jroot j))"
    and old: "\<And>s. R s \<Longrightarrow> file_at s (progress_path (jroot j)) = before \<Longrightarrow> I s"
    and new: "\<And>s. R s \<Longrightarrow> valid_progress p \<Longrightarrow> progress_is j p s \<Longrightarrow> I s"
    and id: "pg_transactionId p = jb_id j" "id_test (jb_id j)"
    and valid: "free \<or> valid_progress p"
  shows "hoare I free (\<lambda>s. R s \<and> file_at s (progress_path (jroot j)) = before) (persistProgress sv p)
    (\<lambda>_ s. R s \<and> progress_is j p s \<and> file_at s (next_path (jroot j)) = None \<and> valid_progress p)"
  unfolding persistProgress_def Let_def
proof (rule hoare_and_then [OF hoare_validate [where Q = "\<lambda>q s. (q = p \<and> valid_progress p) \<and>
        (R s \<and> file_at s (progress_path (jroot j)) = before)"]])
  let ?next = "next_path (jroot j)" and ?prog = "progress_path (jroot j)"
  let ?text = "document_text (progress_json p)"
  have root_eq: "transactionRoot (pg_transactionId p) = jroot j" using id by (simp add: jroot_def)
  note paths [simp] = own_durable [OF id(2)]
  fix q
  show "hoare I free (\<lambda>s. (q = p \<and> valid_progress p) \<and> (R s \<and> file_at s ?prog = before))
     (and_then (observeFingerprint sv (next_path (transactionRoot (pg_transactionId q)))) (\<lambda>next.
        next_do
          (if is_file_print next
           then next_do (removeFile (next_path (transactionRoot (pg_transactionId q))))
             (and_then (syncDirectory (transactionRoot (pg_transactionId q))) (\<lambda>_. give ()))
           else ensure (next = Missing) (corrupt (next_path (transactionRoot (pg_transactionId q)))))
          (next_do (writeSynced (next_path (transactionRoot (pg_transactionId q))) (document_text (progress_json q)))
            (next_do (replaceFile (next_path (transactionRoot (pg_transactionId q))) (progress_path (transactionRoot (pg_transactionId q))))
              (merged_sync (pg_directorySync q) (transactionRoot (pg_transactionId q)))))))
     (\<lambda>_ s. R s \<and> progress_is j p s \<and> file_at s ?next = None \<and> valid_progress p)"
  proof (rule hoare_fact, elim conjE, hypsubst, unfold root_eq)
    assume v: "valid_progress p"
    have covered: "R s \<Longrightarrow> file_at s ?prog = before \<Longrightarrow> I s" "R s \<Longrightarrow> progress_is j p s \<Longrightarrow> I s" for s
      using old new v by blast+
    let ?clean = "\<lambda>s. R s \<and> file_at s ?prog = before \<and> file_at s ?next = None"
    let ?written = "\<lambda>s. R s \<and> file_at s ?prog = before \<and> file_at s ?next = Some ?text"
    let ?done = "\<lambda>s. R s \<and> progress_is j p s \<and> file_at s ?next = None \<and> valid_progress p"
    have sweep: "hoare I free (\<lambda>s. (R s \<and> file_at s ?prog = before) \<and> entry = view sv s ?next)
        (if is_file_print entry then next_do (removeFile ?next) (and_then (syncDirectory (jroot j)) (\<lambda>_. give ()))
         else ensure (entry = Missing) (corrupt ?next)) (\<lambda>_. ?clean)" for entry
    proof (cases "is_file_print entry")
      case True
      have "hoare I free (\<lambda>s. (R s \<and> file_at s ?prog = before) \<and> entry = view sv s ?next) (removeFile ?next) (\<lambda>_. ?clean)"
        using True covered closed by (intro hoare_remove) (auto simp: view_is_file)
      moreover have "hoare I free ?clean (and_then (syncDirectory (jroot j)) (\<lambda>_. give ())) (\<lambda>_. ?clean)"
        using covered root by (intro hoare_and_then [OF hoare_sync [where Q = "\<lambda>_. ?clean"]] hoare_give) auto
      ultimately show ?thesis using True by (auto intro: hoare_next)
    next
      case False
      have "hoare I free (\<lambda>s. (R s \<and> file_at s ?prog = before) \<and> entry = view sv s ?next)
          (ensure (entry = Missing) (corrupt ?next)) (\<lambda>_. ?clean)"
        using False root by (intro hoare_ensure) (auto simp: view_missing_iff view_is_file vacant_def)
      with False show ?thesis by simp
    qed
    have put: "hoare I free ?clean (writeSynced ?next ?text) (\<lambda>_. ?written)"
      by (rule hoare_write)
         (use covered closed root in \<open>auto simp: has_parent_def vacant_def\<close>)
    have replace: "hoare I free ?written (replaceFile ?next ?prog) (\<lambda>_. ?done)"
      by (rule hoare_replace)
         (use covered closed root v in \<open>auto simp: has_parent_def progress_is_def\<close>)
    have sync: "hoare I free ?done (merged_sync (pg_directorySync p) (jroot j)) (\<lambda>_. ?done)"
      by (rule hoare_merged) (use covered root in auto)
    show "hoare I free (\<lambda>s. R s \<and> file_at s ?prog = before)
       (and_then (observeFingerprint sv ?next) (\<lambda>next.
          next_do (if is_file_print next then next_do (removeFile ?next) (and_then (syncDirectory (jroot j)) (\<lambda>_. give ()))
             else ensure (next = Missing) (corrupt ?next))
            (next_do (writeSynced ?next ?text) (next_do (replaceFile ?next ?prog) (merged_sync (pg_directorySync p) (jroot j))))))
       (\<lambda>_. ?done)"
      by (rule hoare_and_then [OF hoare_observe hoare_next [OF sweep hoare_next [OF put hoare_next [OF replace sync]]]])
         (use covered in auto)
  qed
qed (use valid old in auto)

end
