(* ===== verification/Event_Store.thy ===== *)
theory Event_Store
  imports Event_Replay Transaction_States
begin

text \<open>
  The event store of a run (\<open>composition/events.ts\<close>): reading the log and the snapshot
  back, verifying and replaying them, sealing one more event and giving the only two
  writes that append it. Reading goes through the durable storage, whose primitives may
  fail; the store itself never changes it.
\<close>

section \<open>Failures\<close>

text \<open>The private errors \<open>DependencyFailure\<close>, \<open>IntegrityFailure\<close> and \<open>RevisionConflict\<close>.\<close>

type_synonym evidence_refs = "(evidence_kind \<times> string) list"

datatype store_failure =
    Dependency_failure
  | Integrity_failure "contract_failure option"
  | Store_conflict evidence_refs

text \<open>The \<open>TransactionFailure\<close> the store throws: its reason code and its evidence.\<close>

type_synonym reported = "string \<times> evidence_refs"

fun contract_failure_text :: "contract_failure \<Rightarrow> string" where
  "contract_failure_text State_version_invalid = ''contract.state_version_invalid''"
| "contract_failure_text State_version_unsupported = ''contract.state_version_unsupported''"

fun classifiedFailure :: "store_failure \<Rightarrow> evidence_refs \<Rightarrow> reported" where
  "classifiedFailure (Store_conflict own) refs = (''runtime.revision_conflict'', own)"
| "classifiedFailure (Integrity_failure None) refs = (''runtime.state_corrupt'', refs)"
| "classifiedFailure (Integrity_failure (Some reason)) refs = (contract_failure_text reason, [])"
| "classifiedFailure Dependency_failure refs = (''runtime.internal_failure'', [])"

type_synonym 'a store_proc = "machine \<Rightarrow> (store_failure, 'a) result \<times> machine"

definition settle :: "(store_failure, 'a) result \<Rightarrow> 'a store_proc" where
  "settle r m = (r, m)"

definition then_store :: "'a store_proc \<Rightarrow> ('a \<Rightarrow> 'b store_proc) \<Rightarrow> 'b store_proc" where
  "then_store p f m = (case p m of (Inl e, n) \<Rightarrow> (Inl e, n) | (Inr x, n) \<Rightarrow> f x n)"

definition storageCall :: "'a proc \<Rightarrow> 'a store_proc" where
  "storageCall p m = (case p m of (Inl _, n) \<Rightarrow> (Inl Dependency_failure, n) | (Inr x, n) \<Rightarrow> (Inr x, n))"

definition eventDomain :: "(integrity_error, 'a) result \<Rightarrow> (store_failure, 'a) result" where
  "eventDomain r = (case r of Inl (_, reason) \<Rightarrow> Inl (Integrity_failure reason) | Inr x \<Rightarrow> Inr x)"

definition integral :: "bool \<Rightarrow> (store_failure, unit) result" where
  "integral b = (if b then Inr () else Inl (Integrity_failure None))"

section \<open>Reading\<close>

record store_paths =
  ep_events :: string
  ep_snapshot :: string

definition derivePaths :: "string \<Rightarrow> string \<Rightarrow> (store_failure, store_paths) result" where
  "derivePaths feature runId =
     (if \<not> feature_test feature \<or> \<not> id_test runId then Inl (Integrity_failure None)
      else let root = ''.brain/02-features/'' @ feature @ ''/runs/'' @ runId
           in Inr \<lparr> ep_events = root @ ''/events.jsonl'', ep_snapshot = root @ ''/state.json'' \<rparr>)"

definition eventEvidence :: "store_paths \<Rightarrow> evidence_refs" where
  "eventEvidence paths = [(Event_evidence, ep_events paths), (Artifact_evidence, ep_snapshot paths)]"

definition eventEvidenceFor :: "string \<Rightarrow> evidence_refs" where
  "eventEvidenceFor path =
     [(if ends_with ''events.jsonl'' path then Event_evidence else Artifact_evidence, path)]"

definition fileFingerprint :: "path_fingerprint \<Rightarrow> bool \<Rightarrow> (store_failure, path_fingerprint) result" where
  "fileFingerprint entry stream =
     (case entry of
        Missing \<Rightarrow> Inr Missing
      | Directory \<Rightarrow> Inl (Integrity_failure None)
      | File_print bytes digest \<Rightarrow>
          if \<not> isSafeInteger bytes \<or> bytes < 0 \<or> (stream \<and> bytes > EVENT_STREAM_BYTES)
          then Inl (Integrity_failure None) else Inr entry)"

definition readExact :: "event_services \<Rightarrow> string \<Rightarrow> path_fingerprint \<Rightarrow> string store_proc" where
  "readExact sv path expected =
     then_store (storageCall (readText path)) (\<lambda>text.
       settle (if File_print (utf8_length text) (es_sha256 sv text) \<noteq> expected
               then Inl (Store_conflict (eventEvidenceFor path)) else Inr text))"

definition snapshot_reason :: "diagnostic list \<Rightarrow> contract_failure option" where
  "snapshot_reason diagnostics =
     Option.bind (find (\<lambda>r. r \<noteq> None) (map (\<lambda>d. contractFailure (dg_reasonCode d)) diagnostics)) id"

definition assertPersistedSnapshot :: "event_services \<Rightarrow> string \<Rightarrow> string \<Rightarrow> (store_failure, unit) result" where
  "assertPersistedSnapshot sv text canonical =
     (case json_parse text of
        None \<Rightarrow> Inl (Integrity_failure None)
      | Some v \<Rightarrow>
          (case es_validate sv ''state.snapshot'' (contractVersion v) v of
             Some diagnostics \<Rightarrow> Inl (Integrity_failure (snapshot_reason diagnostics))
           | None \<Rightarrow> integral (text = canonical @ [LF] \<and> canonicalizeJson v = canonical)))"

definition assertReplayRunId :: "snapshot \<Rightarrow> string \<Rightarrow> (store_failure, unit) result" where
  "assertReplayRunId s runId = integral (sn_runId s = runId)"

section \<open>Appending\<close>

record prepared_append =
  pa_paths :: store_paths
  pa_event :: event
  pa_effects :: "(string \<times> string) list"
  pa_expected :: "(string \<times> path_fingerprint) list"

definition prepared :: "store_paths \<Rightarrow> event \<Rightarrow> (string \<times> path_fingerprint) list \<Rightarrow> string \<Rightarrow> string \<Rightarrow> prepared_append" where
  "prepared paths event expected priorEvents snapshotCanonical =
     \<lparr> pa_paths = paths, pa_event = event,
       pa_effects = [(ep_events paths, priorEvents @ line_text event @ [LF]), (ep_snapshot paths, snapshotCanonical @ [LF])],
       pa_expected = expected \<rparr>"

text \<open>
  Sealing one event behind a cursor, and verifying and replaying the extended log: what
  the first append and every later one have in common.
\<close>

definition extend_log ::
  "event_services \<Rightarrow> 's event_registry \<Rightarrow> string \<Rightarrow> event_draft \<Rightarrow> string \<Rightarrow> event_cursor \<Rightarrow>
   (store_failure, event \<times> 's replay_result) result" where
  "extend_log sv registry runId draft eventsText cursor =
     bind_result (eventDomain (sealEvent sv draft cursor)) (\<lambda>event.
     bind_result (eventDomain (verifyEventStream sv (eventsText @ line_text event @ [LF]))) (\<lambda>extended.
     bind_result (eventDomain (replayEventStream sv registry extended)) (\<lambda>replay.
     bind_result (assertReplayRunId (rp_snapshot replay) runId) (\<lambda>_. Inr (event, replay)))))"

definition snapshotRequest ::
  "string \<Rightarrow> string \<Rightarrow> event_draft \<Rightarrow> (store_failure, event_draft) result" where
  "snapshotRequest feature runId event =
     bind_result (eventDomain (snapshotEventDraft event)) (\<lambda>draft.
     bind_result (integral (ev_stateContract draft \<in> {V1_2, V1_3, V1_4})) (\<lambda>_. Inr draft))"

text \<open>What follows once both files are observed.\<close>

definition append_observed ::
  "event_services \<Rightarrow> 's event_registry \<Rightarrow> store_paths \<Rightarrow> string \<Rightarrow> event_draft \<Rightarrow>
   path_fingerprint \<Rightarrow> path_fingerprint \<Rightarrow> prepared_append store_proc" where
  "append_observed sv registry paths runId draft expectedEvents expectedSnapshot =
     (let expected = [(ep_events paths, expectedEvents), (ep_snapshot paths, expectedSnapshot)] in
      if expectedEvents = Missing \<and> expectedSnapshot = Missing then
        settle (bind_result (extend_log sv registry runId draft [] first_cursor)
          (\<lambda>(event, replay). Inr (prepared paths event expected [] (rp_canonical replay))))
      else if expectedEvents = Missing \<or> expectedSnapshot = Missing then settle (Inl (Integrity_failure None))
      else
        then_store (readExact sv (ep_events paths) expectedEvents) (\<lambda>eventsText.
        then_store (readExact sv (ep_snapshot paths) expectedSnapshot) (\<lambda>snapshotText.
        settle (bind_result (eventDomain (verifyEventStream sv eventsText)) (\<lambda>verified.
          bind_result (eventDomain (replayEventStream sv registry verified)) (\<lambda>replay.
          bind_result (assertReplayRunId (rp_snapshot replay) runId) (\<lambda>_.
          bind_result (assertPersistedSnapshot sv snapshotText (rp_canonical replay)) (\<lambda>_.
          bind_result (extend_log sv registry runId draft eventsText (vs_cursor verified)) (\<lambda>(event, later).
            Inr (prepared paths event expected eventsText (rp_canonical later)))))))))))"

definition append_to ::
  "event_services \<Rightarrow> 's event_registry \<Rightarrow> store_paths \<Rightarrow> string \<Rightarrow> event_draft \<Rightarrow> prepared_append store_proc" where
  "append_to sv registry paths runId draft =
     then_store (storageCall (inspect (es_sha256 sv) (ep_events paths))) (\<lambda>eventEntry.
     then_store (storageCall (inspect (es_sha256 sv) (ep_snapshot paths))) (\<lambda>snapshotEntry.
     then_store (settle (fileFingerprint eventEntry True)) (\<lambda>expectedEvents.
     then_store (settle (fileFingerprint snapshotEntry False)) (\<lambda>expectedSnapshot.
       append_observed sv registry paths runId draft expectedEvents expectedSnapshot))))"

definition classified :: "evidence_refs \<Rightarrow> (store_failure, 'a) result \<Rightarrow> (reported, 'a) result" where
  "classified refs r = (case r of Inl e \<Rightarrow> Inl (classifiedFailure e refs) | Inr x \<Rightarrow> Inr x)"

definition prepareEventAppend ::
  "event_services \<Rightarrow> 's event_registry \<Rightarrow> string \<Rightarrow> string \<Rightarrow> event_draft \<Rightarrow> machine \<Rightarrow>
   (reported, prepared_append) result \<times> machine" where
  "prepareEventAppend sv registry feature runId event m =
     (case bind_result (snapshotRequest feature runId event) (\<lambda>draft.
             bind_result (derivePaths feature runId) (\<lambda>paths. Inr (draft, paths))) of
        Inl e \<Rightarrow> (classified [] (Inl e), m)
      | Inr (draft, paths) \<Rightarrow>
          (case append_to sv registry paths runId draft m of
             (r, n) \<Rightarrow> (classified (eventEvidence paths) r, n)))"

section \<open>The paths of a run\<close>

lemma join_segments_Cons: "ss \<noteq> [] \<Longrightarrow> join_segments (s # ss) = s @ ''/'' @ join_segments ss"
  by (cases ss) (simp_all add: join_segments_def)

lemma feature_safe: "feature_test f \<Longrightarrow> safe_segment f"
proof -
  assume f: "feature_test f"
  have "is_id_char d" if "is_lower d \<or> is_digit d \<or> d = CHR ''-''" for d
    using that by (auto simp: is_id_char_def is_alnum_def)
  with f have "id_test f" by (cases f) (auto simp: list_all_iff is_alnum_def)
  then show "safe_segment f" by (rule id_safe)
qed

definition run_file :: "string \<Rightarrow> string \<Rightarrow> string \<Rightarrow> string" where
  "run_file feature runId name = join_segments [''.brain'', ''02-features'', feature, ''runs'', runId, name]"

lemma derivePaths_Inr:
  "derivePaths feature runId = Inr paths \<longleftrightarrow> feature_test feature \<and> id_test runId \<and>
     paths = \<lparr> ep_events = run_file feature runId ''events.jsonl'', ep_snapshot = run_file feature runId ''state.json'' \<rparr>"
  by (auto simp: derivePaths_def run_file_def join_segments_Cons join_segments_def Let_def)

lemma run_file_segments:
  assumes "feature_test feature" "id_test runId" "safe_segment name"
  shows "list_all safe_segment [''02-features'', feature, ''runs'', runId, name]"
proof -
  have "safe_segment ''02-features''" "safe_segment ''runs''" by code_simp+
  then show ?thesis using assms feature_safe id_safe by simp
qed

lemma run_file_durable:
  assumes "feature_test feature" "id_test runId" "safe_segment name"
  shows "durable_path (run_file feature runId name)"
  unfolding run_file_def by (rule brain_durable [OF run_file_segments [OF assms]]) simp

lemma run_file_managed:
  assumes "feature_test feature" "id_test runId" "safe_segment name"
  shows "isManagedDestination (run_file feature runId name)"
proof (rule destination_segments)
  let ?ss = "[''02-features'', feature, ''runs'', runId, name]"
  from run_file_durable [OF assms] have "isManagedPathShape (run_file feature runId name)"
    by (auto simp: durable_path_def normalizeDurablePath_def split: option.splits if_splits)
  then show "canonicalizeProjectPath (run_file feature runId name) None = Canonical (run_file feature runId name)"
    by (rule managed_shape(1))
  have "safe_segment ''.brain''" by code_simp
  then have "list_all plain_segment (''.brain'' # ?ss)"
    using run_file_segments [OF assms] by (auto simp: safe_segment_def)
  then show "segments_of (run_file feature runId name) = ''.brain'' # ''02-features'' # [feature, ''runs'', runId, name]"
    unfolding run_file_def using segments_of_join by simp
  show "isManagedRoot ''.brain''" by code_simp
  have "to_lower_case ''02-features'' \<noteq> ''transactions''" by code_simp
  then show "''.brain'' = ''.brain'' \<longrightarrow> to_lower_case ''02-features'' \<noteq> ''transactions''" by simp
qed

lemma store_names: "safe_segment ''events.jsonl''" "safe_segment ''state.json''"
  by code_simp+

lemma run_files_differ: "run_file feature runId ''events.jsonl'' \<noteq> run_file feature runId ''state.json''"
  by (simp add: run_file_def join_segments_Cons join_segments_def)

section \<open>What the store reads\<close>

lemma then_store_Inr [simp]:
  "then_store p f m = (Inr y, n) \<longleftrightarrow> (\<exists>x k. p m = (Inr x, k) \<and> f x k = (Inr y, n))"
  by (auto simp: then_store_def split: prod.splits sum.splits)

lemma settle_eq [simp]: "settle r m = (x, n) \<longleftrightarrow> r = x \<and> n = m"
  by (auto simp: settle_def)

lemma storageCall_Inr [simp]: "storageCall p m = (Inr x, n) \<longleftrightarrow> p m = (Inr x, n)"
  by (auto simp: storageCall_def split: prod.splits sum.splits)

lemma eventDomain_Inr [simp]: "eventDomain r = Inr x \<longleftrightarrow> r = Inr x"
  by (auto simp: eventDomain_def split: sum.splits)

lemma integral_Inr [simp]: "integral b = Inr u \<longleftrightarrow> b"
  by (simp add: integral_def)

lemma classified_Inr [simp]: "classified refs r = Inr x \<longleftrightarrow> r = Inr x"
  by (simp add: classified_def split: sum.splits)

lemma primitive_reads:
  "primitive operation (\<lambda>s. map_option (\<lambda>x. (x, s)) (f s)) m = (Inr y, n) \<Longrightarrow>
     f (mc_storage m) = Some y \<and> mc_storage n = mc_storage m"
  by (auto simp: primitive_def boundary_def Let_def split: if_splits option.splits)

lemma primitive_reads_ok:
  "mc_rules m = [] \<Longrightarrow> f (mc_storage m) = Some y \<Longrightarrow>
     \<exists>n. primitive operation (\<lambda>s. map_option (\<lambda>x. (x, s)) (f s)) m = (Inr y, n) \<and>
       mc_storage n = mc_storage m \<and> mc_rules n = []"
  by (simp add: primitive_def boundary_def Let_def matchingRule_def)

lemma inspect_primitive:
  "durable_path p \<Longrightarrow> p \<noteq> ''.'' \<Longrightarrow>
     inspect sha p = primitive Op_inspect (\<lambda>s. map_option (\<lambda>x. (x, s)) (Some (fingerprint_at sha s p)))"
  by (auto simp: inspect_def durable_def durable_path_def)

lemma readText_primitive:
  "durable_path p \<Longrightarrow> readText p = primitive Op_read_text (\<lambda>s. map_option (\<lambda>x. (x, s)) (file_at s p))"
  by (auto simp: readText_def durable_def durable_path_def)

text \<open>A directory never stands where the store expects a file.\<close>

lemma fileFingerprint_Inr:
  "fileFingerprint (fingerprint_at sha s p) stream = Inr x \<Longrightarrow>
     x = fingerprint_at sha s p \<and>
     (x = Missing \<longleftrightarrow> file_at s p = None) \<and>
     (\<forall>text. file_at s p = Some text \<longrightarrow> x = File_print (utf8_length text) (sha text))"
  by (auto simp: fileFingerprint_def fingerprint_at_def split: option.splits if_splits path_fingerprint.splits)

section \<open>A store that agrees with itself\<close>

text \<open>
  The log verifies and replays to the run, and the snapshot file holds the canonical text
  of what it replays to.
\<close>

definition store_consistent ::
  "event_services \<Rightarrow> 's event_registry \<Rightarrow> store_paths \<Rightarrow> string \<Rightarrow> storage \<Rightarrow> verified_stream \<Rightarrow> 's replay_result \<Rightarrow> bool" where
  "store_consistent sv registry paths runId s v r \<longleftrightarrow>
     file_at s (ep_events paths) = Some (vs_canonical v) \<and> verifyEventStream sv (vs_canonical v) = Inr v \<and>
     replayEventStream sv registry v = Inr r \<and> sn_runId (rp_snapshot r) = runId \<and>
     file_at s (ep_snapshot paths) = Some (rp_canonical r @ [LF])"

definition store_empty :: "store_paths \<Rightarrow> storage \<Rightarrow> bool" where
  "store_empty paths s \<longleftrightarrow> file_at s (ep_events paths) = None \<and> file_at s (ep_snapshot paths) = None"

definition apply_writes :: "(string \<times> string) list \<Rightarrow> storage \<Rightarrow> storage" where
  "apply_writes effects s = fold (\<lambda>(path, content). set_file path content) effects s"

definition run_paths :: "string \<Rightarrow> string \<Rightarrow> store_paths" where
  "run_paths feature runId =
     \<lparr> ep_events = run_file feature runId ''events.jsonl'', ep_snapshot = run_file feature runId ''state.json'' \<rparr>"

definition usable_paths :: "store_paths \<Rightarrow> bool" where
  "usable_paths paths \<longleftrightarrow>
     durable_path (ep_events paths) \<and> durable_path (ep_snapshot paths) \<and> ep_events paths \<noteq> ''.'' \<and>
     ep_snapshot paths \<noteq> ''.'' \<and> ep_events paths \<noteq> ep_snapshot paths"

lemma run_paths_usable: "feature_test feature \<Longrightarrow> id_test runId \<Longrightarrow> usable_paths (run_paths feature runId)"
  using run_file_durable store_names run_files_differ
  by (auto simp: usable_paths_def run_paths_def) (auto simp: run_file_def join_segments_Cons)

lemma log_text_inject: "log_text es = log_text fs \<longleftrightarrow> es = fs"
proof
  assume "log_text es = log_text fs"
  then have "map line_text es = map line_text fs" using split_log by (metis append_same_eq)
  then show "es = fs" by (rule map_injective) (simp add: inj_def line_text_inject)
qed simp

lemma extend_log_Inr:
  assumes "extend_log sv registry runId draft text cursor = Inr (e, r)"
  obtains v where "sealEvent sv draft cursor = Inr e" "verifyEventStream sv (text @ line_text e @ [LF]) = Inr v"
    "replayEventStream sv registry v = Inr r" "sn_runId (rp_snapshot r) = runId"
  using assms by (auto simp: extend_log_def assertReplayRunId_def)

lemma append_to_Inr:
  assumes u: "usable_paths paths" and a: "append_to sv registry paths runId draft m = (Inr p, n)"
  obtains old cursor r where "mc_storage n = mc_storage m"
    "store_empty paths (mc_storage m) \<and> old = [] \<and> cursor = first_cursor \<or>
     (\<exists>v r. store_consistent sv registry paths runId (mc_storage m) v r \<and> old = vs_canonical v \<and> cursor = vs_cursor v)"
    "extend_log sv registry runId draft old cursor = Inr (pa_event p, r)"
    "p = prepared paths (pa_event p)
       [(ep_events paths, fingerprint_at (es_sha256 sv) (mc_storage m) (ep_events paths)),
        (ep_snapshot paths, fingerprint_at (es_sha256 sv) (mc_storage m) (ep_snapshot paths))] old (rp_canonical r)"
proof -
  let ?fp = "\<lambda>q. fingerprint_at (es_sha256 sv) (mc_storage m) q"
  from u have d: "durable_path (ep_events paths)" "durable_path (ep_snapshot paths)"
    "ep_events paths \<noteq> ''.''" "ep_snapshot paths \<noteq> ''.''" by (simp_all add: usable_paths_def)
  from a obtain ee m1 se m2 xe xs where
      1: "inspect (es_sha256 sv) (ep_events paths) m = (Inr ee, m1)"
         "inspect (es_sha256 sv) (ep_snapshot paths) m1 = (Inr se, m2)"
    and x: "fileFingerprint ee True = Inr xe" "fileFingerprint se False = Inr xs"
    and rest: "append_observed sv registry paths runId draft xe xs m2 = (Inr p, n)"
    by (auto simp: append_to_def)
  have e: "ee = ?fp (ep_events paths)" "mc_storage m1 = mc_storage m"
    using 1(1) primitive_reads [of Op_inspect "\<lambda>s. Some (fingerprint_at (es_sha256 sv) s (ep_events paths))" m ee m1]
    by (simp_all add: inspect_primitive [OF d(1,3)])
  have s: "se = ?fp (ep_snapshot paths)" "mc_storage m2 = mc_storage m"
    using 1(2) e(2)
      primitive_reads [of Op_inspect "\<lambda>s. Some (fingerprint_at (es_sha256 sv) s (ep_snapshot paths))" m1 se m2]
    by (simp_all add: inspect_primitive [OF d(2,4)])
  note fe = fileFingerprint_Inr [OF x(1) [unfolded e(1)]] and fs = fileFingerprint_Inr [OF x(2) [unfolded s(1)]]
  show thesis
  proof (cases "xe = Missing \<and> xs = Missing")
    case True
    with rest obtain ev r where r: "extend_log sv registry runId draft [] first_cursor = Inr (ev, r)"
      and p: "p = prepared paths ev [(ep_events paths, xe), (ep_snapshot paths, xs)] [] (rp_canonical r)" and n: "n = m2"
      by (auto simp: append_observed_def)
    have "pa_event p = ev" by (simp add: p prepared_def)
    with r p n s fe fs True show thesis by (intro that) (auto simp: store_empty_def)
  next
    case False
    then have "xe \<noteq> Missing \<and> xs \<noteq> Missing" using rest by (auto simp: append_observed_def Let_def)
    with rest obtain te m3 ts v r0 ev r where
        2: "readText (ep_events paths) m2 = (Inr te, m3)" "readText (ep_snapshot paths) m3 = (Inr ts, n)"
      and 3: "verifyEventStream sv te = Inr v" "replayEventStream sv registry v = Inr r0"
        "sn_runId (rp_snapshot r0) = runId" "assertPersistedSnapshot sv ts (rp_canonical r0) = Inr ()"
        "extend_log sv registry runId draft te (vs_cursor v) = Inr (ev, r)"
      and p: "p = prepared paths ev [(ep_events paths, xe), (ep_snapshot paths, xs)] te (rp_canonical r)"
      by (auto simp: append_observed_def Let_def readExact_def assertReplayRunId_def split: if_splits)
    have t: "file_at (mc_storage m) (ep_events paths) = Some te" "mc_storage m3 = mc_storage m"
      using 2(1) s(2) primitive_reads [of Op_read_text "\<lambda>s. file_at s (ep_events paths)" m2 te m3]
      by (simp_all add: readText_primitive [OF d(1)])
    have t': "file_at (mc_storage m) (ep_snapshot paths) = Some ts" "mc_storage n = mc_storage m"
      using 2(2) t(2) primitive_reads [of Op_read_text "\<lambda>s. file_at s (ep_snapshot paths)" m3 ts n]
      by (simp_all add: readText_primitive [OF d(2)])
    have c: "vs_canonical v = te" using 3(1) by (simp add: verify_Inr)
    have "ts = rp_canonical r0 @ [LF]"
      using 3(4) by (auto simp: assertPersistedSnapshot_def split: option.splits)
    with t t' 3 c have "store_consistent sv registry paths runId (mc_storage m) v r0"
      by (simp add: store_consistent_def)
    moreover have "pa_event p = ev" by (simp add: p prepared_def)
    ultimately show thesis using that [of te "vs_cursor v" r] 3 p t'(2) c fe fs by auto
  qed
qed

lemma extend_appends:
  assumes e: "extend_log sv registry runId draft (log_text es) cursor = Inr (e, r)" and u: "usable_paths paths"
    and p: "p = prepared paths e expected (log_text es) (rp_canonical r)"
  obtains v where "store_consistent sv registry paths runId (apply_writes (pa_effects p) s) v r"
    "vs_events v = es @ [e]" "event_draft.truncate e = draft"
proof -
  from e obtain v where v: "sealEvent sv draft cursor = Inr e" "verifyEventStream sv (log_text es @ line_text e @ [LF]) = Inr v"
    "replayEventStream sv registry v = Inr r" "sn_runId (rp_snapshot r) = runId" by (rule extend_log_Inr)
  have c: "vs_canonical v = log_text es @ line_text e @ [LF]" using v(2) by (simp add: verify_Inr)
  have "log_text (vs_events v) = log_text (es @ [e])" using v(2) by (simp add: verify_Inr)
  then have "vs_events v = es @ [e]" by (simp only: log_text_inject)
  moreover have "event_draft.truncate e = draft"
    using v(1) by (rule sealEventE) (metis with_hashes_simps(1))
  moreover have "store_consistent sv registry paths runId (apply_writes (pa_effects p) s) v r"
    using v u by (auto simp: store_consistent_def apply_writes_def p prepared_def c usable_paths_def)
  ultimately show thesis using that by blast
qed

lemma prepareEventAppend_Inr:
  assumes "prepareEventAppend sv registry feature runId d m = (Inr p, n)"
  obtains "feature_test feature" "id_test runId" "snapshotRequest feature runId d = Inr d"
    "append_to sv registry (run_paths feature runId) runId d m = (Inr p, n)"
proof -
  from assms obtain d' paths where 1: "snapshotRequest feature runId d = Inr d'" "derivePaths feature runId = Inr paths"
    "append_to sv registry paths runId d' m = (Inr p, n)"
    by (auto simp: prepareEventAppend_def classified_def split: prod.splits sum.splits)
  have "d' = d" using 1(1) snapshot_Inr by (auto simp: snapshotRequest_def)
  with 1 that show thesis by (simp add: derivePaths_Inr run_paths_def)
qed

text \<open>
  The log before the append, which is empty where the files are missing, and the store
  after the two writes.
\<close>

definition log_before :: "store_paths \<Rightarrow> storage \<Rightarrow> string" where
  "log_before paths s = (case file_at s (ep_events paths) of None \<Rightarrow> [] | Some old \<Rightarrow> old)"

lemma append_effect:
  assumes "prepareEventAppend sv registry feature runId d m = (Inr p, n)"
  obtains es v r where "mc_storage n = mc_storage m"
    "log_before (run_paths feature runId) (mc_storage m) = log_text es"
    "store_empty (run_paths feature runId) (mc_storage m) \<and> es = [] \<or>
     (\<exists>v0 r0. store_consistent sv registry (run_paths feature runId) runId (mc_storage m) v0 r0 \<and> vs_events v0 = es)"
    "pa_effects p = [(run_file feature runId ''events.jsonl'', log_text (es @ [pa_event p])),
       (run_file feature runId ''state.json'', rp_canonical r @ [LF])]"
    "store_consistent sv registry (run_paths feature runId) runId (apply_writes (pa_effects p) (mc_storage m)) v r"
    "vs_events v = es @ [pa_event p]" "event_draft.truncate (pa_event p) = d"
proof -
  let ?paths = "run_paths feature runId"
  from assms have a: "feature_test feature" "id_test runId"
    "append_to sv registry ?paths runId d m = (Inr p, n)" by (auto elim: prepareEventAppend_Inr)
  note u = run_paths_usable [OF a(1,2)]
  from append_to_Inr [OF u a(3)] obtain old cursor r where o: "mc_storage n = mc_storage m"
    "store_empty ?paths (mc_storage m) \<and> old = [] \<and> cursor = first_cursor \<or>
     (\<exists>v r. store_consistent sv registry ?paths runId (mc_storage m) v r \<and> old = vs_canonical v \<and> cursor = vs_cursor v)"
    "extend_log sv registry runId d old cursor = Inr (pa_event p, r)"
    "p = prepared ?paths (pa_event p)
       [(ep_events ?paths, fingerprint_at (es_sha256 sv) (mc_storage m) (ep_events ?paths)),
        (ep_snapshot ?paths, fingerprint_at (es_sha256 sv) (mc_storage m) (ep_snapshot ?paths))] old (rp_canonical r)"
    by metis
  from o(2) obtain es where es: "old = log_text es" "log_before ?paths (mc_storage m) = log_text es"
    "store_empty ?paths (mc_storage m) \<and> es = [] \<or>
     (\<exists>v0 r0. store_consistent sv registry ?paths runId (mc_storage m) v0 r0 \<and> vs_events v0 = es)"
  proof (elim disjE conjE exE)
    assume "store_empty ?paths (mc_storage m)" "old = []"
    then show thesis by (intro that [of "[]"]) (auto simp: log_before_def store_empty_def)
  next
    fix v0 r0 assume s: "store_consistent sv registry ?paths runId (mc_storage m) v0 r0" "old = vs_canonical v0"
    then have "old = log_text (vs_events v0)" by (auto simp: store_consistent_def verify_Inr)
    with s show thesis by (intro that [of "vs_events v0"]) (auto simp: log_before_def store_consistent_def)
  qed
  obtain v where "store_consistent sv registry ?paths runId (apply_writes (pa_effects p) (mc_storage m)) v r"
    "vs_events v = es @ [pa_event p]" "event_draft.truncate (pa_event p) = d"
    by (rule extend_appends [OF o(3) [unfolded es(1)] u o(4) [unfolded es(1)]])
  moreover have "pa_effects p = [(run_file feature runId ''events.jsonl'', log_text (es @ [pa_event p])),
       (run_file feature runId ''state.json'', rp_canonical r @ [LF])]"
    by (subst o(4)) (simp add: prepared_def run_paths_def es(1))
  ultimately show thesis using that o(1) es by blast
qed

section \<open>Histories\<close>

text \<open>
  A store to which drafts were appended one after the other: each append was prepared on
  the storage it found, whatever faults its reads met, and its two writes were published.
\<close>

inductive appended ::
  "event_services \<Rightarrow> 's event_registry \<Rightarrow> string \<Rightarrow> string \<Rightarrow> storage \<Rightarrow> event_draft list \<Rightarrow> bool"
  for sv registry feature runId where
  opened: "store_empty (run_paths feature runId) s \<Longrightarrow> appended sv registry feature runId s []"
| append: "appended sv registry feature runId (mc_storage m) ds \<Longrightarrow>
     prepareEventAppend sv registry feature runId d m = (Inr p, n) \<Longrightarrow>
     appended sv registry feature runId (apply_writes (pa_effects p) (mc_storage m)) (ds @ [d])"

lemma log_before_events:
  "store_consistent sv registry paths runId s v r \<Longrightarrow> log_before paths s = log_text (vs_events v)"
  by (auto simp: store_consistent_def log_before_def verify_Inr)

lemma appended_consistent:
  assumes "appended sv registry feature runId s ds"
  shows "ds = [] \<and> store_empty (run_paths feature runId) s \<or>
    (\<exists>v r. store_consistent sv registry (run_paths feature runId) runId s v r \<and>
       map event_draft.truncate (vs_events v) = ds)"
  using assms
proof (induction rule: appended.induct)
  case (append m ds d p n)
  from append.hyps(2) obtain es v r where a:
    "log_before (run_paths feature runId) (mc_storage m) = log_text es"
    "store_consistent sv registry (run_paths feature runId) runId (apply_writes (pa_effects p) (mc_storage m)) v r"
    "vs_events v = es @ [pa_event p]" "event_draft.truncate (pa_event p) = d"
    by (rule append_effect)
  have "map event_draft.truncate es = ds"
    using append.IH
  proof (elim disjE conjE exE)
    assume "ds = []" "store_empty (run_paths feature runId) (mc_storage m)"
    with a(1) show ?thesis by (auto simp: log_before_def store_empty_def eq_commute [of "[]"])
  next
    fix v0 r0 assume "store_consistent sv registry (run_paths feature runId) runId (mc_storage m) v0 r0"
      "map event_draft.truncate (vs_events v0) = ds"
    with a(1) log_before_events log_text_inject show ?thesis by metis
  qed
  with a(2-4) show ?case by auto
qed simp

section \<open>Runs in the store\<close>

text \<open>The reducers read only what the draft gives, not the hashes.\<close>

lemma truncate_sel [simp]:
  "ev_stateContract (event_draft.truncate e) = ev_stateContract e" "ev_eventType (event_draft.truncate e) = ev_eventType e"
  "ev_occurredAt (event_draft.truncate e) = ev_occurredAt e" "ev_operation (event_draft.truncate e) = ev_operation e"
  "ev_policyVersion (event_draft.truncate e) = ev_policyVersion e"
  "ev_priorRevision (event_draft.truncate e) = ev_priorRevision e"
  "ev_resultingRevision (event_draft.truncate e) = ev_resultingRevision e"
  "ev_reasonCode (event_draft.truncate e) = ev_reasonCode e" "ev_effect (event_draft.truncate e) = ev_effect e"
  "ev_artifactRefs (event_draft.truncate e) = ev_artifactRefs e" "ev_runLimits (event_draft.truncate e) = ev_runLimits e"
  "ev_acceptanceDecision (event_draft.truncate e) = ev_acceptanceDecision e"
  "ev_repairResolution (event_draft.truncate e) = ev_repairResolution e"
  "ev_startedFromSpec (event_draft.truncate e) = ev_startedFromSpec e"
  by (simp_all add: event_draft.truncate_def)

lemma reducers_truncate:
  "stamp (event_draft.truncate e) = stamp e"
  "hasCanonicalAcceptanceDecision s (event_draft.truncate e) = hasCanonicalAcceptanceDecision s e"
  by (auto simp: fun_eq_iff stamp_def hasCanonicalAcceptanceDecision_def Let_def split: option.splits)

lemma reduce_truncate:
  "reduceKnownWorkflowReason s (event_draft.truncate e) = reduceKnownWorkflowReason s e"
  "reduce_upgrade s (event_draft.truncate e) = reduce_upgrade s e"
  "reduce_started_from_spec s (event_draft.truncate e) = reduce_started_from_spec s e"
  "reduce_acceptance outcome s (event_draft.truncate e) = reduce_acceptance outcome s e"
  "reduce_resolution s (event_draft.truncate e) = reduce_resolution s e"
  unfolding reduceKnownWorkflowReason_def reduce_upgrade_def reduce_started_from_spec_def reduce_acceptance_def
    reduce_resolution_def reducers_truncate truncate_sel by (rule refl)+

lemma step_truncate: "workflow_step s (event_draft.truncate e) = workflow_step s e"
  unfolding workflow_step_def workflow_reducer_def truncate_sel
  by (simp add: reduceWorkflow_def reduceWorkflowV1_def reduce_truncate cong: option.case_cong)

lemma replay_truncate: "replay_from workflow_step s (map event_draft.truncate es) = replay_from workflow_step s es"
proof (induction es arbitrary: s)
  case (Cons e es)
  then show ?case by (cases "workflow_step s e") (simp_all add: step_truncate)
qed simp

section \<open>Reopening a store\<close>

lemma fingerprint_file:
  assumes "file_at s p = Some body" "utf8_length body \<le> (if stream then EVENT_STREAM_BYTES else MAX_SAFE_INTEGER)"
  shows "fileFingerprint (fingerprint_at sha s p) stream = Inr (File_print (utf8_length body) (sha body))"
proof -
  have "0 \<le> utf8_length body" by (induction body) auto
  with assms show ?thesis
    by (auto simp: fileFingerprint_def fingerprint_at_def isSafeInteger_def EVENT_STREAM_BYTES_def MAX_SAFE_INTEGER_def
        split: if_splits)
qed

lemma snapshot_persisted:
  assumes "order_free sv" "replayEventStream sv registry v = Inr r"
  shows "assertPersistedSnapshot sv (rp_canonical r @ [LF]) (rp_canonical r) = Inr ()"
proof -
  let ?j = "snapshot_json (rp_snapshot r)"
  have c: "rp_canonical r = canonicalizeJson ?j" and ok: "es_validate sv ''state.snapshot'' (Some snapshot_version) ?j = None"
    using assms(2) by (simp_all add: replay_Inr)
  have doc: "document_text ?j = rp_canonical r @ [LF]" by (simp add: document_text_def c LF_def)
  have "parseCanonicalJson (document_text ?j) = Some (normal ?j)"
    by (rule parse_document [OF snapshot_codec.encode_wf])
  then have p: "json_parse (rp_canonical r @ [LF]) = Some (normal ?j)"
    by (auto simp: parseCanonicalJson_def doc bind_eq_Some_conv split: if_splits)
  have "contractVersion (normal ?j) = Some snapshot_version"
    by (simp add: contractVersion_def snapshot_json_def contract_fields_def snapshot_version_def del: normal.simps(2))
  with p ok assms(1) show ?thesis
    by (simp add: assertPersistedSnapshot_def order_free_def c canonical_normal [OF snapshot_codec.encode_wf])
qed

lemma consistent_reopens:
  assumes u: "usable_paths paths" and ok: "mc_rules m = []" and free: "order_free sv"
    and c: "store_consistent sv registry paths runId (mc_storage m) v r"
    and small: "utf8_length (rp_canonical r) < MAX_SAFE_INTEGER"
    and e: "extend_log sv registry runId d (vs_canonical v) (vs_cursor v) = Inr (e, r')"
  obtains p n where "append_to sv registry paths runId d m = (Inr p, n)" "pa_event p = e" "mc_storage n = mc_storage m"
proof -
  let ?sha = "es_sha256 sv" let ?s = "mc_storage m"
  from u have d: "durable_path (ep_events paths)" "durable_path (ep_snapshot paths)"
    "ep_events paths \<noteq> ''.''" "ep_snapshot paths \<noteq> ''.''" by (simp_all add: usable_paths_def)
  from c have f: "file_at ?s (ep_events paths) = Some (vs_canonical v)"
    "file_at ?s (ep_snapshot paths) = Some (rp_canonical r @ [LF])" "verifyEventStream sv (vs_canonical v) = Inr v"
    "replayEventStream sv registry v = Inr r" "sn_runId (rp_snapshot r) = runId" by (simp_all add: store_consistent_def)
  have b: "utf8_length (vs_canonical v) \<le> EVENT_STREAM_BYTES" using f(3) by (auto simp: verify_Inr log_fits_def)
  have s: "utf8_length (rp_canonical r @ [LF]) \<le> MAX_SAFE_INTEGER" using small by (simp add: LF_def code_unit_def)
  obtain m1 where 1: "inspect ?sha (ep_events paths) m = (Inr (fingerprint_at ?sha ?s (ep_events paths)), m1)"
      "mc_storage m1 = ?s" "mc_rules m1 = []"
    using primitive_reads_ok [OF ok, of "\<lambda>s. Some (fingerprint_at ?sha s (ep_events paths))"]
    by (auto simp: inspect_primitive [OF d(1,3)])
  obtain m2 where 2: "inspect ?sha (ep_snapshot paths) m1 = (Inr (fingerprint_at ?sha ?s (ep_snapshot paths)), m2)"
      "mc_storage m2 = ?s" "mc_rules m2 = []"
    using primitive_reads_ok [OF 1(3), of "\<lambda>s. Some (fingerprint_at ?sha s (ep_snapshot paths))"] 1(2)
    by (auto simp: inspect_primitive [OF d(2,4)])
  obtain m3 where 3: "readText (ep_events paths) m2 = (Inr (vs_canonical v), m3)" "mc_storage m3 = ?s" "mc_rules m3 = []"
    using primitive_reads_ok [OF 2(3), of "\<lambda>s. file_at s (ep_events paths)"] 2(2) f(1)
    by (auto simp: readText_primitive [OF d(1)])
  obtain m4 where 4: "readText (ep_snapshot paths) m3 = (Inr (rp_canonical r @ [LF]), m4)" "mc_storage m4 = ?s"
    using primitive_reads_ok [OF 3(3), of "\<lambda>s. file_at s (ep_snapshot paths)"] 3(2) f(2)
    by (auto simp: readText_primitive [OF d(2)])
  let ?ex = "[(ep_events paths, File_print (utf8_length (vs_canonical v)) (?sha (vs_canonical v))),
      (ep_snapshot paths, File_print (utf8_length (rp_canonical r @ [LF])) (?sha (rp_canonical r @ [LF])))]"
  let ?p = "prepared paths e ?ex (vs_canonical v) (rp_canonical r')"
  have "append_to sv registry paths runId d m = (Inr ?p, m4)"
    using 1 2 3 4 f e fingerprint_file [OF f(1), of True ?sha] b fingerprint_file [OF f(2), of False ?sha] s
      snapshot_persisted [OF free f(4)]
    by (simp add: append_to_def append_observed_def readExact_def assertReplayRunId_def)
  then show thesis by (rule that) (simp_all add: prepared_def 4(2))
qed

end
