(* ===== verification/Workflow_Runs.thy ===== *)
theory Workflow_Runs
  imports Workflow_Reducer
begin

text \<open>
  What the reducers guarantee of whole runs: the edges a run may take through its
  phases, the fields no event writes, that completion is final, that active repair
  stops hold a run at acceptance, and that the repair loop cannot go round for ever.
\<close>

section \<open>Edges between phases\<close>

inductive phase_edge :: "run_phase option \<Rightarrow> run_phase option \<Rightarrow> bool" where
  begin_run: "phase_edge None (Some Prd)"
| begin_from_spec: "phase_edge None (Some Spec)"
| stay: "phase_edge p p"
| advance: "nextPhase (Some p) = Some q \<Longrightarrow> phase_edge (Some p) (Some q)"
| repair: "phase_edge (Some Acceptance) (Some Code)"
| finish: "phase_edge (Some Acceptance) None"

inductive_cases phase_edge_fromE: "phase_edge (Some p) q"
inductive_simps phase_edge_Some: "phase_edge (Some p) (Some q)"
inductive_simps phase_edge_finish: "phase_edge (Some p) None"

lemma reduceKnown_edge:
  assumes "workflow_inv s" "reduceKnownWorkflowReason s e = Inr t"
  shows "phase_edge (st_currentStep s) (st_currentStep t)"
proof -
  from assms(2) obtain st cs where kr: "known_reason s (ev_reasonCode e) = Inr (st, cs)"
    and t: "t = (stamp e s)\<lparr> st_status := st, st_currentStep := cs,
       st_createdAt := (case st_createdAt s of None \<Rightarrow> Some (ev_occurredAt e) | Some u \<Rightarrow> Some u) \<rparr>"
    by (rule reduceKnownE)
  from kr show ?thesis
  proof (cases rule: known_reasonE)
    case started
    with assms(1) have "st_currentStep s = None" by (auto simp: workflow_inv_defs)
    with started show ?thesis by (auto simp: t intro: phase_edge.intros)
  qed (auto simp: t intro: phase_edge.intros)
qed

lemma workflow_step_edge:
  assumes inv: "workflow_inv s" and "workflow_step s e = Inr t"
  shows "phase_edge (st_currentStep s) (st_currentStep t)"
  using assms(2)
proof (cases rule: workflow_stepE)
  case known
  then show ?thesis by (rule reduceKnown_edge [OF inv])
next
  case (started limits u)
  then show ?thesis using reduceKnown_edge [OF inv] by simp
next
  case upgraded
  then show ?thesis by (auto simp: reduce_upgrade_def split: option.splits if_splits intro: stay)
next
  case restarted
  with inv have "st_currentStep s = None" "st_currentStep t = Some Spec"
    by (auto simp: reduce_started_from_spec_def workflow_inv_defs split: option.splits if_splits)
  then show ?thesis by (simp add: begin_from_spec)
next
  case (acceptance outcome)
  then obtain d where "hasCanonicalAcceptanceDecision s e d outcome"
    and t: "st_currentStep t = (if outcome = Acc_repair then Some Code else st_currentStep s)"
    by (elim reduce_acceptanceE) (auto split: acceptance_outcome.splits)
  then have "st_currentStep s = Some Acceptance" by (elim canonical_decisionE)
  then show ?thesis by (auto simp: t intro: phase_edge.intros)
next
  case resolved
  from this(2) show ?thesis
  proof (cases rule: reduce_resolutionE)
    case (code r stop)
    have "st_currentStep s = Some Acceptance"
      using inv resolution_stop(4) [OF _ code(5)] by (simp add: workflow_inv_def)
    then show ?thesis by (auto simp: code(10) intro: phase_edge.intros)
  next
    case (respec r stop nrun ref digest)
    then show ?thesis by (auto intro: stay)
  qed
qed

section \<open>Identity and completion\<close>

lemma reduceKnown_frame:
  assumes "reduceKnownWorkflowReason s e = Inr t"
  shows "st_projectId t = st_projectId s" "st_feature t = st_feature s" "st_runId t = st_runId s"
    "st_lineage t = st_lineage s" "st_operations t = st_operations s @ [ev_operation e]"
    "st_revision t = ev_resultingRevision e" "st_attempts t = st_attempts s"
    "st_activeRepairStops t = st_activeRepairStops s" "st_repairStopHistory t = st_repairStopHistory s"
    "st_acceptanceAttemptCeiling t = st_acceptanceAttemptCeiling s"
    "st_updatedAt t = Some (ev_occurredAt e)" "st_policyVersion t = Some (ev_policyVersion e)"
  using assms by (auto elim!: reduceKnownE)

lemma workflow_step_identity:
  assumes "workflow_step s e = Inr t"
  shows "st_projectId t = st_projectId s \<and> st_feature t = st_feature s \<and>
    st_runId t = st_runId s \<and> st_lineage t = st_lineage s"
  using assms
proof (cases rule: workflow_stepE)
  case known
  then show ?thesis by (simp add: reduceKnown_frame)
next
  case (started limits u)
  then show ?thesis by (simp add: reduceKnown_frame)
next
  case upgraded
  then show ?thesis by (auto simp: reduce_upgrade_def split: option.splits if_splits)
next
  case restarted
  then show ?thesis by (auto simp: reduce_started_from_spec_def split: option.splits if_splits)
next
  case (acceptance outcome)
  then show ?thesis by (elim reduce_acceptanceE) (auto split: acceptance_outcome.splits)
next
  case resolved
  then show ?thesis by (elim reduce_resolutionE) auto
qed

lemma workflow_step_stamped:
  assumes "workflow_step s e = Inr t" "workflow_inv s"
  shows "st_operations t = st_operations s @ [ev_operation e] \<and> st_revision t = ev_resultingRevision e \<and>
    st_updatedAt t = Some (ev_occurredAt e) \<and> ev_priorRevision e = st_revision s"
  using assms(1)
proof (cases rule: workflow_stepE)
  case known
  then show ?thesis by (auto simp: reduceKnown_frame elim: reduceKnownE)
next
  case (started limits u)
  then show ?thesis by (auto simp: reduceKnown_frame elim: reduceKnownE)
next
  case upgraded
  then show ?thesis by (auto simp: reduce_upgrade_def split: option.splits if_splits)
next
  case restarted
  with assms(2) have "st_operations s = []"
    by (auto simp: reduce_started_from_spec_def workflow_inv_defs split: option.splits if_splits)
  with restarted show ?thesis
    by (auto simp: reduce_started_from_spec_def split: option.splits if_splits)
next
  case (acceptance outcome)
  then show ?thesis by (elim reduce_acceptanceE) (auto split: acceptance_outcome.splits)
next
  case resolved
  from resolved(2,1) show ?thesis by (elim reduce_resolutionE) auto
qed

lemma completed_final:
  assumes inv: "workflow_inv s" and fin: "st_status s = Done_completed" and step: "workflow_step s e = Inr t"
  shows "st_status t = Done_completed \<and> ev_reasonCode e = ''run.policy_upgraded''"
proof -
  have none: "st_currentStep s = None" "st_revision s \<noteq> 0"
    using inv fin by (auto simp: workflow_inv_defs)
  have known: "\<not> is_ok (reduceKnownWorkflowReason s e)"
  proof
    assume "is_ok (reduceKnownWorkflowReason s e)"
    then obtain u where "reduceKnownWorkflowReason s e = Inr u" by (auto simp: is_ok_iff)
    then obtain st cs where "known_reason s (ev_reasonCode e) = Inr (st, cs)" by (rule reduceKnownE)
    then show False using none fin by (cases rule: known_reasonE) auto
  qed
  from step show ?thesis
  proof (cases rule: workflow_stepE)
    case upgraded
    then have "st_status t = Done_completed"
      using fin by (auto simp: reduce_upgrade_def split: option.splits if_splits)
    moreover have "ev_reasonCode e = ''run.policy_upgraded''"
    proof (rule ccontr)
      assume other: "ev_reasonCode e \<noteq> ''run.policy_upgraded''"
      from step known show False
        using other none fin
        by (auto simp: workflow_step_def workflow_reducer_def reduceWorkflowV1_def reduceWorkflow_def
            reduce_started_from_spec_def reduce_acceptance_def hasCanonicalAcceptanceDecision_def
            reduce_resolution_def is_ok_iff split: if_splits option.splits)
    qed
    ultimately show ?thesis ..
  next
    case restarted
    then show ?thesis using none by (auto simp: reduce_started_from_spec_def split: option.splits if_splits)
  next
    case (acceptance outcome)
    then show ?thesis using none by (elim reduce_acceptanceE) (auto elim: canonical_decisionE)
  next
    case resolved
    then show ?thesis using fin by (elim reduce_resolutionE) auto
  qed (use known in \<open>auto simp: is_ok_iff\<close>)
qed

section \<open>The repair loop ends\<close>

definition attempt_count :: "workflow_state \<Rightarrow> string \<Rightarrow> int" where
  "attempt_count s k = (case attempt_map (st_attempts s) k of None \<Rightarrow> 0 | Some n \<Rightarrow> n)"

lemma attempt_count_mem:
  "attempts_inv s \<Longrightarrow> a \<in> set (st_attempts s) \<Longrightarrow> attempt_count s (at_criterionId a) = at_attempt a"
  using attempt_map_distinct [of "st_attempts s" a] by (simp add: attempt_count_def attempts_inv_def)

lemma attempt_count_none:
  "k \<notin> at_criterionId ` set (st_attempts s) \<Longrightarrow> attempt_count s k = 0"
  using attempt_map_None [of "st_attempts s" k] by (simp add: attempt_count_def)

lemma attempt_count_bounds:
  assumes "attempts_inv s" "st_acceptanceAttemptCeiling s = Some c"
  shows "0 \<le> attempt_count s k"
    and "k \<in> at_criterionId ` set (st_attempts s) \<Longrightarrow> attempt_count s k \<le> c"
proof -
  show "0 \<le> attempt_count s k"
  proof (cases "k \<in> at_criterionId ` set (st_attempts s)")
    case True
    then show ?thesis using assms by (auto simp: attempt_count_mem) (fastforce simp: attempts_inv_def)
  qed (simp add: attempt_count_none)
  show "k \<in> at_criterionId ` set (st_attempts s) \<Longrightarrow> attempt_count s k \<le> c"
    using assms by (auto simp: attempt_count_mem) (fastforce simp: attempts_inv_def)
qed

lemma merged_counts:
  assumes inv: "attempts_inv s" and can: "attempts_canonical (attempt_map (st_attempts s)) c [] us"
    and t: "st_attempts t = mergeAttempts s us"
  shows "attempt_count t k = attempt_count s k + (if k \<in> at_criterionId ` set us then 1 else 0)"
proof -
  have dist: "distinct (map at_criterionId (mergeAttempts s us))"
    using inv can by (intro mergeAttempts_distinct) (simp_all add: attempts_inv_def attempts_canonical_iff)
  consider (new) u where "u \<in> set us" "k = at_criterionId u"
    | (old) a where "a \<in> set (st_attempts s)" "k = at_criterionId a" "k \<notin> at_criterionId ` set us"
    | (neither) "k \<notin> at_criterionId ` set us" "k \<notin> at_criterionId ` set (st_attempts s)"
    by blast
  then show ?thesis
  proof cases
    case new
    then have "attempt_count t k = at_attempt u"
      using attempt_map_distinct [OF dist, of u] by (simp add: attempt_count_def t mergeAttempts_mem)
    with new can show ?thesis by (auto simp: attempts_canonical_iff attempt_count_def split: option.splits)
  next
    case old
    then have "attempt_count t k = at_attempt a"
      using attempt_map_distinct [OF dist, of a] by (simp add: attempt_count_def t mergeAttempts_mem)
    with old attempt_count_mem [OF inv] show ?thesis by simp
  next
    case neither
    then have "k \<notin> at_criterionId ` set (st_attempts t)" by (auto simp: t mergeAttempts_mem)
    with neither show ?thesis by (simp add: attempt_count_none)
  qed
qed

lemma acceptance_counts:
  assumes inv: "workflow_inv s" and red: "reduce_acceptance outcome s e = Inr t"
  shows "attempt_count s k \<le> attempt_count t k"
    and "outcome = Acc_repair \<Longrightarrow> \<exists>k. attempt_count t k = attempt_count s k + 1"
proof -
  from red obtain d where d: "hasCanonicalAcceptanceDecision s e d outcome"
    and t: "st_attempts t = (if outcome = Acc_passed then st_attempts s else mergeAttempts s (ad_attempts d))"
    by (elim reduce_acceptanceE) (auto split: acceptance_outcome.splits)
  from d obtain c where can: "attempts_canonical (attempt_map (st_attempts s)) c [] (ad_attempts d)"
    and some: "outcome \<noteq> Acc_passed \<longrightarrow> ad_attempts d \<noteq> []"
    by (rule canonical_decisionE) blast
  have ainv: "attempts_inv s" using inv by (simp add: workflow_inv_def)
  note counts = merged_counts [OF ainv can, of t]
  show "attempt_count s k \<le> attempt_count t k"
    using t counts by (cases "outcome = Acc_passed") (auto simp: attempt_count_def)
  assume "outcome = Acc_repair"
  with some obtain u where "u \<in> set (ad_attempts d)" by (cases "ad_attempts d") auto
  with \<open>outcome = Acc_repair\<close> t counts [of "at_criterionId u"]
  show "\<exists>k. attempt_count t k = attempt_count s k + 1" by auto
qed

lemma repair_reason_step:
  assumes "workflow_step s e = Inr t" "ev_reasonCode e = ''run.acceptance.repair_required''"
  shows "reduce_acceptance Acc_repair s e = Inr t"
proof -
  have "\<not> is_ok (known_reason s (ev_reasonCode e))"
    by (simp add: assms(2) known_reason_def)
  then have "reduceKnownWorkflowReason s e \<noteq> Inr t"
    by (auto simp: is_ok_iff elim!: reduceKnownE)
  with assms show ?thesis
    by (auto simp: workflow_step_def workflow_reducer_def reduceWorkflowV1_def reduceWorkflow_def split: if_splits)
qed

lemma resolution_reason:
  assumes "workflow_step s e = Inr t" "ev_reasonCode e \<noteq> ''run.repair_stop.resolved''"
  obtains "reduceKnownWorkflowReason s e = Inr t"
  | limits u where "reduceKnownWorkflowReason s e = Inr u" "t = with_limits limits u"
  | "reduce_upgrade s e = Inr t" | "reduce_started_from_spec s e = Inr t"
  | outcome where "reduce_acceptance outcome s e = Inr t"
proof (cases "ev_policyVersion e = LEGACY_WORKFLOW_POLICY_VERSION")
  case True
  with assms that(1) show thesis
    by (simp add: workflow_step_def workflow_reducer_def reduceWorkflowV1_def)
next
  case False
  with assms(1) have r: "reduceWorkflow s e = Inr t"
    by (auto simp: workflow_step_def workflow_reducer_def split: if_splits)
  show thesis
  proof (cases "ev_reasonCode e = ''run.started''")
    case True
    with r that(2) show thesis by (auto simp: reduceWorkflow_def split: if_splits option.splits)
  next
    case False
    with r assms(2) show thesis
      unfolding reduceWorkflow_def by (auto split: if_splits intro: that)
  qed
qed

lemma counts_monotone:
  assumes inv: "workflow_inv s" and step: "workflow_step s e = Inr t"
    and reason: "ev_reasonCode e \<noteq> ''run.repair_stop.resolved''"
  shows "attempt_count s k \<le> attempt_count t k"
  using step reason
proof (cases rule: resolution_reason)
  case 1
  then show ?thesis by (simp add: attempt_count_def reduceKnown_frame)
next
  case (2 limits u)
  then show ?thesis by (simp add: attempt_count_def reduceKnown_frame)
next
  case 3
  then have "st_attempts t = st_attempts s" by (auto simp: reduce_upgrade_def split: option.splits if_splits)
  then show ?thesis by (simp add: attempt_count_def)
next
  case 4
  then have "st_attempts t = st_attempts s" by (auto simp: reduce_started_from_spec_def split: option.splits if_splits)
  then show ?thesis by (simp add: attempt_count_def)
next
  case (5 outcome)
  then show ?thesis by (rule acceptance_counts(1) [OF inv])
qed

definition is_repair :: "'a event_draft_scheme \<Rightarrow> bool" where
  "is_repair e \<longleftrightarrow> ev_reasonCode e = ''run.acceptance.repair_required''"

definition is_resolution :: "'a event_draft_scheme \<Rightarrow> bool" where
  "is_resolution e \<longleftrightarrow> ev_reasonCode e = ''run.repair_stop.resolved''"

definition attempted :: "workflow_state \<Rightarrow> string set" where
  "attempted s = at_criterionId ` set (st_attempts s)"

lemma finite_attempted [simp]: "finite (attempted s)"
  by (simp add: attempted_def)

lemma attempted_pos:
  assumes "workflow_inv s"
  shows "k \<in> attempted s \<longleftrightarrow> 0 < attempt_count s k"
proof
  assume "k \<in> attempted s"
  then obtain a where "a \<in> set (st_attempts s)" "k = at_criterionId a" by (auto simp: attempted_def)
  with assms show "0 < attempt_count s k"
    by (auto simp: attempt_count_mem workflow_inv_def) (fastforce simp: attempts_inv_def)
next
  assume "0 < attempt_count s k"
  then show "k \<in> attempted s" using attempt_count_none [of k s] by (force simp: attempted_def)
qed

lemma attempt_count_nonneg: "workflow_inv s \<Longrightarrow> 0 \<le> attempt_count s k"
  using attempted_pos [of s k] attempt_count_none [of k s] by (cases "k \<in> attempted s") (auto simp: attempted_def)

lemma repair_step_sum:
  assumes inv: "workflow_inv s" "workflow_inv t" and step: "workflow_step s e = Inr t"
    and reason: "\<not> is_resolution e" and K: "finite K" "attempted t \<subseteq> K"
  shows "sum (attempt_count s) K + (if is_repair e then 1 else 0) \<le> sum (attempt_count t) K"
proof -
  have mono: "attempt_count s k \<le> attempt_count t k" for k
    using counts_monotone [OF inv(1) step] reason by (simp add: is_resolution_def)
  show ?thesis
  proof (cases "is_repair e")
    case True
    then obtain k where k: "attempt_count t k = attempt_count s k + 1"
      using acceptance_counts(2) [OF inv(1) repair_reason_step [OF step]] by (auto simp: is_repair_def)
    with attempt_count_nonneg [OF inv(1), of k] have "k \<in> attempted t"
      by (simp add: attempted_pos [OF inv(2)])
    with K have "k \<in> K" by auto
    then have "sum (attempt_count s) K < sum (attempt_count t) K"
      using k mono by (intro sum_strict_mono_ex1 K) (auto intro!: bexI [of _ k])
    then show ?thesis by simp
  next
    case False
    then show ?thesis using mono by (simp add: sum_mono)
  qed
qed

lemma repair_run_sum:
  assumes "workflow_inv s" "run.ok_run s es" "replay_from workflow_step s es = Inr t"
    "\<not> list_ex is_resolution es" "finite K" "attempted t \<subseteq> K"
  shows "sum (attempt_count s) K + int (length (filter is_repair es)) \<le> sum (attempt_count t) K \<and>
    attempted s \<subseteq> K"
  using assms
proof (induction es arbitrary: s)
  case (Cons e es)
  then obtain u where u: "workflow_step s e = Inr u" "replay_from workflow_step u es = Inr t" by auto
  with Cons.prems have ok: "sequenced s e" "run.ok_run u es" by simp_all
  have inv: "workflow_inv u" by (rule run.step_inv [OF Cons.prems(1) ok(1) u(1)])
  from Cons.IH [OF inv ok(2) u(2)] Cons.prems(4-6)
  have IH: "sum (attempt_count u) K + int (length (filter is_repair es)) \<le> sum (attempt_count t) K"
    and sub: "attempted u \<subseteq> K" by simp_all
  have "\<not> is_resolution e" using Cons.prems(4) by simp
  note step = repair_step_sum [OF Cons.prems(1) inv u(1) this Cons.prems(5) sub]
  have mono: "attempt_count s k \<le> attempt_count u k" for k
    using counts_monotone [OF Cons.prems(1) u(1)] \<open>\<not> is_resolution e\<close> by (simp add: is_resolution_def)
  have "k \<in> attempted u" if "k \<in> attempted s" for k
    using that mono [of k] by (simp add: attempted_pos [OF inv] attempted_pos [OF Cons.prems(1)])
  with IH step sub show ?case by auto
qed simp

text \<open>
  Without a resolution in between, the rounds of repair in a run are bounded by the
  number of criteria that failed and the attempt ceiling.
\<close>

lemma repair_rounds:
  assumes inv: "workflow_inv s" and ok: "run.ok_run s es" and run: "replay_from workflow_step s es = Inr t"
    and res: "\<not> list_ex is_resolution es" and ceil: "st_acceptanceAttemptCeiling t = Some c"
  shows "int (length (filter is_repair es)) \<le> int (card (attempted t)) * c"
proof -
  have tinv: "workflow_inv t" by (rule run.replay_inv [OF inv ok run])
  have "int (length (filter is_repair es)) \<le> sum (attempt_count t) (attempted t)"
    using repair_run_sum [OF inv ok run res finite_attempted subset_refl]
      sum_nonneg [of "attempted t" "attempt_count s"] attempt_count_nonneg [OF inv] by auto
  also have "\<dots> \<le> (\<Sum>k \<in> attempted t. c)"
    using tinv ceil by (intro sum_mono attempt_count_bounds(2)) (simp_all add: workflow_inv_def attempted_def)
  finally show ?thesis by simp
qed

end
