(* ===== verification/Workflow_Decision.thy ===== *)
theory Workflow_Decision
  imports Workflow_Runs
begin

text \<open>
  The decisions of \<open>domain/workflow/decision.ts\<close>: given what was observed of a run and
  a request, either the draft of the one event to record, or that nothing changes, or a
  refusal with its reason code. The request and decision types are those of
  \<open>domain/workflow/model.ts\<close>.
\<close>

section \<open>Requests, observations and decisions\<close>

datatype workflow_observation =
    Absent (absent_operations: "string list")
  | Present workflow_state
  | Corrupt

record workflow_identity =
  wi_host :: string
  wi_model :: "string option"

datatype provenance = Host_reported | Unknown_provenance

record phase_execution =
  px_assignmentDigest :: string
  px_model :: "string option"
  px_effort :: "string option"
  px_provenance :: provenance

record start_request =
  sq_projectId :: string
  sq_feature :: string
  sq_runId :: string
  sq_correlationId :: string
  sq_eventId :: string
  sq_occurredAt :: string
  sq_lineage :: lineage
  sq_objectiveActive :: bool
  sq_worktreeClean :: bool
  sq_observedIdentity :: workflow_identity
  sq_acceptanceAttemptCeiling :: "int option"
  sq_tokenCeiling :: "int option"
  sq_startFromSpec :: "started_from_spec option"

record gate_verdict =
  gv_outcome :: gate_outcome
  gv_failures :: "gate_failure list"

record complete_action =
  ca_artifactRefs :: "string list"
  ca_evidenceRefs :: "string list"
  ca_rejectionReasons :: "string list option"
  ca_gateFailures :: "string list option"
  ca_allowFinalCompletion :: bool

datatype continue_action =
    Complete_phase complete_action
  | Resume_action
  | Reject_action (reject_artifactRefs: "string list") (reject_evidenceRefs: "string list")

record continue_request =
  cq_feature :: string
  cq_runId :: string
  cq_correlationId :: string
  cq_eventId :: string
  cq_occurredAt :: string
  cq_expectedRevision :: int
  cq_observedIdentity :: workflow_identity
  cq_resolvedAssignment :: "assignment option"
  cq_phaseExecution :: "phase_execution option"
  cq_gateDecision :: "gate_verdict option"
  cq_action :: continue_action

record resolve_request =
  rq_feature :: string
  rq_runId :: string
  rq_criterionId :: string
  rq_correlationId :: string
  rq_eventId :: string
  rq_occurredAt :: string
  rq_expectedRevision :: int
  rq_resolvedBy :: string
  rq_observation :: string
  rq_observedIdentity :: workflow_identity
  rq_resolutionRef :: string
  rq_resolutionDigest :: string
  rq_nextRunId :: "string option"
  rq_restartTicketRef :: "string option"
  rq_restartTicketDigest :: "string option"

record fact_request =
  fq_feature :: string
  fq_runId :: string
  fq_correlationId :: string
  fq_eventId :: string
  fq_occurredAt :: string
  fq_expectedRevision :: int
  fq_operation :: fact_operation
  fq_artifactRefs :: "string list"
  fq_observedIdentity :: workflow_identity
  fq_resolvedAssignment :: "assignment option"
  fq_phaseExecution :: "phase_execution option"

datatype refusal =
    Refuse_context_unreadable
  | Refuse_feature_mismatch
  | Refuse_runid_mismatch
  | Refuse_state_unreadable
  | Refuse_stop_loss_rejections
  | Refuse_assignment_stale
  | Refuse_execution_mismatch
  | Refuse_revision_conflict
  | Refuse_uso
  | Refuse_worktree_dirty

datatype transition =
    Moving moving_transition
  | Upgraded
  | Observed
  | Resolved

datatype unchanged_reason = Duplicate | Already_completed

datatype workflow_decision =
    Recorded transition event_draft "string list option"
  | Unchanged unchanged_reason
  | Refused refusal

section \<open>Validation and event construction\<close>

definition operationId :: "operation_family \<Rightarrow> string \<Rightarrow> string" where
  "operationId name correlationId = ''sdd.'' @ family_text name @ '':'' @ correlationId"

definition PASS_GATE_DECISION :: gate_verdict where
  "PASS_GATE_DECISION = \<lparr> gv_outcome = Pass_outcome, gv_failures = [] \<rparr>"

definition valid_identity :: "workflow_identity \<Rightarrow> bool" where
  "valid_identity i \<longleftrightarrow>
     id_test (wi_host i) \<and> (case wi_model i of None \<Rightarrow> True | Some m \<Rightarrow> id_test m)"

definition valid_ceiling :: "int option \<Rightarrow> bool" where
  "valid_ceiling c = (case c of None \<Rightarrow> True | Some n \<Rightarrow> isSafeInteger n \<and> n > 0)"

definition valid_start_from_spec :: "string \<Rightarrow> started_from_spec option \<Rightarrow> bool" where
  "valid_start_from_spec runId start =
     (case start of
        None \<Rightarrow> True
      | Some s \<Rightarrow>
          id_test (sf_sourceRunId s) \<and> sf_sourceRunId s \<noteq> runId \<and>
          reference_test (sf_restartTicketRef s) \<and> sha256_test (sf_restartTicketDigest s) \<and>
          sf_retiredCriterionIds s \<noteq> [] \<and> distinct (sf_retiredCriterionIds s) \<and>
          list_all isAcceptanceCriterionId (sf_retiredCriterionIds s))"

definition validStartRequest :: "start_request \<Rightarrow> bool" where
  "validStartRequest request \<longleftrightarrow>
     id_test (sq_projectId request) \<and> feature_test (sq_feature request) \<and>
     id_test (sq_runId request) \<and> id_test (sq_correlationId request) \<and>
     id_test (sq_eventId request) \<and>
     id_test (operationId Start_family (sq_correlationId request)) \<and>
     valid_identity (sq_observedIdentity request) \<and>
     sha256_test (ln_prdDigest (sq_lineage request)) \<and>
     sha256_test (ln_specDigest (sq_lineage request)) \<and>
     valid_ceiling (sq_acceptanceAttemptCeiling request) \<and>
     valid_ceiling (sq_tokenCeiling request) \<and>
     valid_start_from_spec (sq_runId request) (sq_startFromSpec request)"

text \<open>The run-time test on the provenance holds for every value of its type.\<close>

definition validPhaseExecution :: "phase_execution \<Rightarrow> bool" where
  "validPhaseExecution execution \<longleftrightarrow>
     sha256_test (px_assignmentDigest execution) \<and>
     (case px_model execution of None \<Rightarrow> True | Some m \<Rightarrow> id_test m) \<and>
     (case px_effort execution of None \<Rightarrow> True | Some e \<Rightarrow> id_test e)"

definition validContinueRequest :: "continue_request \<Rightarrow> bool" where
  "validContinueRequest request \<longleftrightarrow>
     feature_test (cq_feature request) \<and> id_test (cq_runId request) \<and>
     id_test (cq_correlationId request) \<and> id_test (cq_eventId request) \<and>
     id_test (operationId Continue_family (cq_correlationId request)) \<and>
     isSafeInteger (cq_expectedRevision request) \<and> cq_expectedRevision request \<ge> 0 \<and>
     valid_identity (cq_observedIdentity request) \<and>
     (case cq_phaseExecution request of None \<Rightarrow> True | Some x \<Rightarrow> validPhaseExecution x)"

definition executionMismatch :: "assignment \<Rightarrow> phase_execution \<Rightarrow> bool" where
  "executionMismatch assignment execution \<longleftrightarrow>
     px_provenance execution = Host_reported \<and>
     ((px_model execution \<noteq> None \<and> px_model execution \<noteq> Some (as_model assignment)) \<or>
      (px_effort execution \<noteq> None \<and> px_effort execution \<noteq> Some (as_effort assignment)))"

fun phaseIdentity :: "workflow_identity \<Rightarrow> phase_execution option \<Rightarrow> event_identity" where
  "phaseIdentity identity None =
     \<lparr> id_host = wi_host identity, id_model = wi_model identity, id_effort = None \<rparr>"
| "phaseIdentity identity (Some execution) =
     (case px_provenance execution of
        Host_reported \<Rightarrow> \<lparr> id_host = wi_host identity, id_model = px_model execution, id_effort = px_effort execution \<rparr>
      | Unknown_provenance \<Rightarrow> \<lparr> id_host = wi_host identity, id_model = None, id_effort = None \<rparr>)"

fun hasOperation :: "workflow_observation \<Rightarrow> string \<Rightarrow> bool" where
  "hasOperation (Absent operations) operation = (operation \<in> set operations)"
| "hasOperation (Present state) operation = (operation \<in> set (st_operations state))"
| "hasOperation Corrupt operation = False"

record event_input =
  in_eventId :: string
  in_occurredAt :: string
  in_operation :: string
  in_revision :: int
  in_identity :: workflow_identity

definition workflow_event ::
  "event_input \<Rightarrow> moving_transition \<Rightarrow> string list \<Rightarrow> string list \<Rightarrow> assignment option \<Rightarrow>
   phase_execution option \<Rightarrow> run_limits option \<Rightarrow> gate_failure list \<Rightarrow> event_draft" where
  "workflow_event input transition artifactRefs evidenceRefs resolvedAssignment phaseExecution runLimits gateFailures =
     (let fact = WORKFLOW_TRANSITION_FACTS transition in
      \<lparr> ev_contractVersion = V1_2, ev_stateContract = V1_2, ev_eventId = in_eventId input,
        ev_eventType = fp_eventType fact, ev_occurredAt = in_occurredAt input,
        ev_operation = in_operation input, ev_policyVersion = WORKFLOW_POLICY_VERSION,
        ev_priorRevision = in_revision input, ev_resultingRevision = in_revision input + 1,
        ev_reasonCode = fp_reasonCode fact, ev_effect = fp_effect fact,
        ev_artifactRefs = artifactRefs, ev_evidenceRefs = evidenceRefs,
        ev_observedIdentity = phaseIdentity (in_identity input) phaseExecution,
        ev_gateFailures = Some gateFailures, ev_resolvedAssignment = resolvedAssignment,
        ev_runLimits = runLimits, ev_acceptanceDecision = None, ev_repairResolution = None,
        ev_startedFromSpec = None \<rparr>)"

definition policyUpgradeEvent :: "event_input \<Rightarrow> run_limits \<Rightarrow> event_draft" where
  "policyUpgradeEvent input runLimits =
     \<lparr> ev_contractVersion = V1_4, ev_stateContract = V1_4, ev_eventId = in_eventId input,
       ev_eventType = fp_eventType WORKFLOW_POLICY_UPGRADE_FACT, ev_occurredAt = in_occurredAt input,
       ev_operation = in_operation input, ev_policyVersion = WORKFLOW_POLICY_VERSION,
       ev_priorRevision = in_revision input, ev_resultingRevision = in_revision input + 1,
       ev_reasonCode = fp_reasonCode WORKFLOW_POLICY_UPGRADE_FACT,
       ev_effect = fp_effect WORKFLOW_POLICY_UPGRADE_FACT,
       ev_artifactRefs = [], ev_evidenceRefs = [],
       ev_observedIdentity = phaseIdentity (in_identity input) None,
       ev_gateFailures = Some [], ev_resolvedAssignment = None,
       ev_runLimits = Some runLimits, ev_acceptanceDecision = None, ev_repairResolution = None,
       ev_startedFromSpec = None \<rparr>"

section \<open>Starting and resuming a run\<close>

definition start_input :: "start_request \<Rightarrow> int \<Rightarrow> event_input" where
  "start_input request revision =
     \<lparr> in_eventId = sq_eventId request, in_occurredAt = sq_occurredAt request,
       in_operation = operationId Start_family (sq_correlationId request),
       in_revision = revision, in_identity = sq_observedIdentity request \<rparr>"

definition start_limits :: "start_request \<Rightarrow> run_limits" where
  "start_limits request =
     \<lparr> rl_acceptanceAttemptCeiling =
         (case sq_acceptanceAttemptCeiling request of None \<Rightarrow> 3 | Some n \<Rightarrow> n),
       rl_tokenCeiling = sq_tokenCeiling request \<rparr>"

definition restart_operation :: "string \<Rightarrow> string" where
  "restart_operation correlationId = ''sdd.repair.restart:'' @ correlationId"

definition restart_event :: "start_request \<Rightarrow> started_from_spec \<Rightarrow> event_draft" where
  "restart_event request start =
     \<lparr> ev_contractVersion = V1_3, ev_stateContract = V1_3, ev_eventId = sq_eventId request,
       ev_eventType = Recovery_event, ev_occurredAt = sq_occurredAt request,
       ev_operation = restart_operation (sq_correlationId request),
       ev_policyVersion = WORKFLOW_POLICY_VERSION,
       ev_priorRevision = 0, ev_resultingRevision = 1,
       ev_reasonCode = ''run.started_from_spec'', ev_effect = State_and_artifact,
       ev_artifactRefs = [sf_restartTicketRef start], ev_evidenceRefs = [],
       ev_observedIdentity = phaseIdentity (sq_observedIdentity request) None,
       ev_gateFailures = Some [], ev_resolvedAssignment = None,
       ev_runLimits = Some (start_limits request), ev_acceptanceDecision = None,
       ev_repairResolution = None, ev_startedFromSpec = Some start \<rparr>"

definition decide_start_present :: "workflow_state \<Rightarrow> start_request \<Rightarrow> workflow_decision" where
  "decide_start_present state request =
     (if st_feature state \<noteq> sq_feature request then Refused Refuse_feature_mismatch
      else if st_runId state \<noteq> sq_runId request then Refused Refuse_runid_mismatch
      else if st_status state = Done_completed then Unchanged Already_completed
      else if upgradable state
      then Recorded Upgraded
        (policyUpgradeEvent (start_input request (st_revision state)) (start_limits request)) None
      else if st_policyVersion state \<noteq> Some WORKFLOW_POLICY_VERSION \<or>
              st_acceptanceAttemptCeiling state = None
      then Refused Refuse_uso
      else if st_activeRepairStops state \<noteq> [] \<or> st_specificationRestart state \<noteq> None
      then Refused Refuse_stop_loss_rejections
      else Recorded (Moving Resumed)
        (workflow_event (start_input request (st_revision state)) Resumed [] [] None None None []) None)"

definition decide_start_absent :: "start_request \<Rightarrow> workflow_decision" where
  "decide_start_absent request =
     (case sq_startFromSpec request of
        Some start \<Rightarrow>
          if sf_retiredCriterionIds start = [] then Refused Refuse_uso
          else Recorded (Moving Started) (restart_event request start) None
      | None \<Rightarrow>
          Recorded (Moving Started)
            (workflow_event (start_input request 0) Started [] [] None None (Some (start_limits request)) []) None)"

definition decideStartWorkflow :: "workflow_observation \<Rightarrow> start_request \<Rightarrow> workflow_decision" where
  "decideStartWorkflow observation request =
     (if \<not> validStartRequest request then Refused Refuse_uso
      else if observation = Corrupt then Refused Refuse_state_unreadable
      else if \<not> sq_objectiveActive request then Refused Refuse_uso
      else if \<not> sq_worktreeClean request then Refused Refuse_worktree_dirty
      else if hasOperation observation (operationId Start_family (sq_correlationId request))
      then Unchanged Duplicate
      else (case observation of
              Present state \<Rightarrow> decide_start_present state request
            | _ \<Rightarrow> decide_start_absent request))"

section \<open>Continuing a run\<close>

definition gate_verdict_of :: "continue_request \<Rightarrow> gate_verdict" where
  "gate_verdict_of request =
     (case cq_gateDecision request of None \<Rightarrow> PASS_GATE_DECISION | Some d \<Rightarrow> d)"

definition action_reasons :: "complete_action \<Rightarrow> string list" where
  "action_reasons action =
     (case ca_rejectionReasons action of
        Some reasons \<Rightarrow> reasons
      | None \<Rightarrow> (case ca_gateFailures action of Some reasons \<Rightarrow> reasons | None \<Rightarrow> []))"

definition rejectionWhy :: "gate_verdict \<Rightarrow> complete_action \<Rightarrow> string list" where
  "rejectionWhy gateDecision action =
     (let reasons = (if gv_outcome gateDecision = Block_outcome
            then map (\<lambda>f. gate_reason_text (gf_reasonCode f)) (gv_failures gateDecision) else []) @
            action_reasons action;
          artifacts = (if ca_artifactRefs action = [] \<and> ''artifact-unreadable'' \<notin> set reasons
            then reasons @ [''artifact-missing''] else reasons);
          evidence = (if ca_evidenceRefs action = [] \<and> ''evidence-invalid'' \<notin> set artifacts
            then artifacts @ [''evidence-missing''] else artifacts)
      in js_set_list evidence)"

definition recorded ::
  "continue_request \<Rightarrow> string \<Rightarrow> int \<Rightarrow> moving_transition \<Rightarrow> string list \<Rightarrow> string list \<Rightarrow>
   string list option \<Rightarrow> workflow_decision" where
  "recorded request operation revision transition artifactRefs evidenceRefs why =
     Recorded (Moving transition)
       (workflow_event
          \<lparr> in_eventId = cq_eventId request, in_occurredAt = cq_occurredAt request,
            in_operation = operation, in_revision = revision,
            in_identity = cq_observedIdentity request \<rparr>
          transition artifactRefs evidenceRefs
          (if transition = Accepted \<or> transition = Completed then cq_resolvedAssignment request else None)
          (if transition = Accepted \<or> transition = Completed then cq_phaseExecution request else None)
          None (gv_failures (gate_verdict_of request)))
       why"

definition decide_complete ::
  "workflow_state \<Rightarrow> continue_request \<Rightarrow> string \<Rightarrow> complete_action \<Rightarrow> workflow_decision" where
  "decide_complete state request operation action =
     (if gv_outcome (gate_verdict_of request) = Block_outcome \<or> action_reasons action \<noteq> [] \<or>
         ca_artifactRefs action = [] \<or> ca_evidenceRefs action = []
      then recorded request operation (st_revision state) Rejected_transition
        (ca_artifactRefs action) (ca_evidenceRefs action)
        (Some (rejectionWhy (gate_verdict_of request) action))
      else
        (let finalPhase = (st_currentStep state = Some Acceptance)
         in if finalPhase \<and> \<not> ca_allowFinalCompletion action
            then recorded request operation (st_revision state) Rejected_transition
              (ca_artifactRefs action) (ca_evidenceRefs action)
              (Some [''final-completion-not-allowed''])
            else (case (cq_resolvedAssignment request, cq_phaseExecution request) of
                (Some assignment, Some execution) \<Rightarrow>
                  if executionMismatch assignment execution then Refused Refuse_execution_mismatch
                  else recorded request operation (st_revision state)
                    (if finalPhase then Completed else Accepted)
                    (ca_artifactRefs action) (ca_evidenceRefs action) None
              | _ \<Rightarrow> Refused Refuse_uso)))"

definition is_reject :: "continue_action \<Rightarrow> bool" where
  "is_reject action = (case action of Reject_action _ _ \<Rightarrow> True | _ \<Rightarrow> False)"

definition decide_continue_present :: "workflow_state \<Rightarrow> continue_request \<Rightarrow> workflow_decision" where
  "decide_continue_present state request =
     (let operation = operationId Continue_family (cq_correlationId request) in
      if st_feature state \<noteq> cq_feature request then Refused Refuse_feature_mismatch
      else if st_runId state \<noteq> cq_runId request then Refused Refuse_runid_mismatch
      else if operation \<in> set (st_operations state) then Unchanged Duplicate
      else if st_status state = Done_completed then Unchanged Already_completed
      else if st_policyVersion state \<noteq> Some WORKFLOW_POLICY_VERSION \<or>
              st_acceptanceAttemptCeiling state = None
      then Refused Refuse_uso
      else if cq_expectedRevision request \<noteq> st_revision state then Refused Refuse_revision_conflict
      else if \<not> is_reject (cq_action request) \<and>
              (st_activeRepairStops state \<noteq> [] \<or> st_specificationRestart state \<noteq> None)
      then Refused Refuse_stop_loss_rejections
      else (case cq_action request of
              Resume_action \<Rightarrow> recorded request operation (st_revision state) Resumed [] [] None
            | Reject_action artifacts evidence \<Rightarrow>
                recorded request operation (st_revision state) Rejected_transition
                  artifacts evidence (Some [''explicit-reject''])
            | Complete_phase action \<Rightarrow> decide_complete state request operation action))"

definition decideContinueWorkflow :: "workflow_observation \<Rightarrow> continue_request \<Rightarrow> workflow_decision" where
  "decideContinueWorkflow observation request =
     (if \<not> validContinueRequest request then Refused Refuse_uso
      else (case observation of
              Corrupt \<Rightarrow> Refused Refuse_state_unreadable
            | Absent _ \<Rightarrow> Refused Refuse_context_unreadable
            | Present state \<Rightarrow> decide_continue_present state request))"

section \<open>Resolving a repair stop\<close>

definition resolve_operation :: "string \<Rightarrow> string" where
  "resolve_operation correlationId = ''sdd.repair.resolve:'' @ correlationId"

definition valid_resolve_request :: "resolve_request \<Rightarrow> bool" where
  "valid_resolve_request request \<longleftrightarrow>
     feature_test (rq_feature request) \<and> id_test (rq_runId request) \<and>
     isAcceptanceCriterionId (rq_criterionId request) \<and> id_test (rq_correlationId request) \<and>
     id_test (rq_eventId request) \<and> id_test (resolve_operation (rq_correlationId request)) \<and>
     isSafeInteger (rq_expectedRevision request) \<and> rq_expectedRevision request \<ge> 0 \<and>
     id_test (rq_resolvedBy request) \<and> length (js_trim (rq_observation request)) \<ge> 1 \<and>
     length (rq_observation request) \<le> 2048 \<and> \<not> list_ex is_control (rq_observation request) \<and>
     valid_identity (rq_observedIdentity request) \<and>
     reference_test (rq_resolutionRef request) \<and> sha256_test (rq_resolutionDigest request)"

definition same_resolution :: "recorded_resolution \<Rightarrow> resolve_request \<Rightarrow> bool" where
  "same_resolution prior request \<longleftrightarrow>
     re_criterionId prior = rq_criterionId request \<and>
     re_classification prior = (if rq_nextRunId request = None then Code_fault else Specification_fault) \<and>
     re_resolutionRef prior = rq_resolutionRef request \<and>
     re_resolutionDigest prior = rq_resolutionDigest request \<and>
     re_nextRunId prior = rq_nextRunId request \<and>
     re_restartTicketRef prior = rq_restartTicketRef request \<and>
     re_restartTicketDigest prior = rq_restartTicketDigest request"

definition restart_fields_ok :: "bool \<Rightarrow> resolve_request \<Rightarrow> bool" where
  "restart_fields_ok specification request \<longleftrightarrow>
     specification = (rq_nextRunId request \<noteq> None) \<and>
     specification = (rq_restartTicketRef request \<noteq> None) \<and>
     specification = (rq_restartTicketDigest request \<noteq> None) \<and>
     (case rq_nextRunId request of None \<Rightarrow> True | Some r \<Rightarrow> id_test r \<and> r \<noteq> rq_runId request) \<and>
     (case rq_restartTicketRef request of None \<Rightarrow> True | Some r \<Rightarrow> reference_test r) \<and>
     (case rq_restartTicketDigest request of None \<Rightarrow> True | Some d \<Rightarrow> sha256_test d)"

definition resolution_event :: "workflow_state \<Rightarrow> resolve_request \<Rightarrow> repair_stop \<Rightarrow> event_draft" where
  "resolution_event state request stop =
     \<lparr> ev_contractVersion = V1_3, ev_stateContract = V1_3, ev_eventId = rq_eventId request,
       ev_eventType = Recovery_event, ev_occurredAt = rq_occurredAt request,
       ev_operation = resolve_operation (rq_correlationId request),
       ev_policyVersion = WORKFLOW_POLICY_VERSION,
       ev_priorRevision = st_revision state, ev_resultingRevision = st_revision state + 1,
       ev_reasonCode = ''run.repair_stop.resolved'', ev_effect = State_and_artifact,
       ev_artifactRefs = rq_resolutionRef request #
         (case rq_restartTicketRef request of None \<Rightarrow> [] | Some r \<Rightarrow> [r]),
       ev_evidenceRefs = [],
       ev_observedIdentity = phaseIdentity (rq_observedIdentity request) None,
       ev_gateFailures = Some [], ev_resolvedAssignment = None, ev_runLimits = None,
       ev_acceptanceDecision = None,
       ev_repairResolution = Some \<lparr> re_criterionId = rq_criterionId request,
         re_classification = rs_classification stop, re_resolutionRef = rq_resolutionRef request,
         re_resolutionDigest = rq_resolutionDigest request, re_nextRunId = rq_nextRunId request,
         re_restartTicketRef = rq_restartTicketRef request,
         re_restartTicketDigest = rq_restartTicketDigest request \<rparr>,
       ev_startedFromSpec = None \<rparr>"

definition decide_resolve_present :: "workflow_state \<Rightarrow> resolve_request \<Rightarrow> workflow_decision" where
  "decide_resolve_present state request =
     (let operation = resolve_operation (rq_correlationId request) in
      if st_feature state \<noteq> rq_feature request then Refused Refuse_feature_mismatch
      else if st_runId state \<noteq> rq_runId request then Refused Refuse_runid_mismatch
      else if operation \<in> set (st_operations state) then
        (case List.find (\<lambda>r. rc_operation r = operation) (st_repairResolutions state) of
           Some prior \<Rightarrow>
             if same_resolution prior request then Unchanged Duplicate else Refused Refuse_revision_conflict
         | None \<Rightarrow> Refused Refuse_revision_conflict)
      else if st_policyVersion state \<noteq> Some WORKFLOW_POLICY_VERSION \<or> st_status state \<noteq> Blocked \<or>
              st_specificationRestart state \<noteq> None
      then Refused Refuse_uso
      else if rq_expectedRevision request \<noteq> st_revision state then Refused Refuse_revision_conflict
      else (case List.find (\<lambda>s. at_criterionId s = rq_criterionId request) (st_activeRepairStops state) of
              None \<Rightarrow> Refused Refuse_uso
            | Some stop \<Rightarrow>
                (let specification = (rs_classification stop = Specification_fault)
                 in if specification \<and>
                       list_ex (\<lambda>c. rs_classification c = Code_fault) (st_activeRepairStops state)
                    then Refused Refuse_stop_loss_rejections
                    else if \<not> restart_fields_ok specification request then Refused Refuse_uso
                    else Recorded Resolved (resolution_event state request stop) None)))"

definition decideResolveRepairStop :: "workflow_observation \<Rightarrow> resolve_request \<Rightarrow> workflow_decision" where
  "decideResolveRepairStop observation request =
     (if \<not> valid_resolve_request request then Refused Refuse_uso
      else (case observation of
              Corrupt \<Rightarrow> Refused Refuse_state_unreadable
            | Absent _ \<Rightarrow> Refused Refuse_context_unreadable
            | Present state \<Rightarrow> decide_resolve_present state request))"

section \<open>Recording facts\<close>

definition valid_fact_request :: "fact_request \<Rightarrow> bool" where
  "valid_fact_request request \<longleftrightarrow>
     feature_test (fq_feature request) \<and> id_test (fq_runId request) \<and>
     id_test (fq_correlationId request) \<and> id_test (fq_eventId request) \<and>
     id_test (operationId (Fact_family (fq_operation request)) (fq_correlationId request)) \<and>
     isSafeInteger (fq_expectedRevision request) \<and> fq_expectedRevision request \<ge> 0 \<and>
     valid_identity (fq_observedIdentity request) \<and>
     (case fq_phaseExecution request of None \<Rightarrow> True | Some x \<Rightarrow> validPhaseExecution x) \<and>
     list_all (\<lambda>r. length r > 0) (fq_artifactRefs request)"

definition fact_event :: "workflow_state \<Rightarrow> fact_request \<Rightarrow> event_draft" where
  "fact_event state request =
     (let fact = WORKFLOW_OPERATION_FACTS (fq_operation request) in
      \<lparr> ev_contractVersion = V1_2, ev_stateContract = V1_2, ev_eventId = fq_eventId request,
        ev_eventType = fp_eventType fact, ev_occurredAt = fq_occurredAt request,
        ev_operation = operationId (Fact_family (fq_operation request)) (fq_correlationId request),
        ev_policyVersion = WORKFLOW_POLICY_VERSION,
        ev_priorRevision = st_revision state, ev_resultingRevision = st_revision state + 1,
        ev_reasonCode = fp_reasonCode fact, ev_effect = fp_effect fact,
        ev_artifactRefs = fq_artifactRefs request, ev_evidenceRefs = [],
        ev_observedIdentity = phaseIdentity (fq_observedIdentity request) (fq_phaseExecution request),
        ev_gateFailures = Some [], ev_resolvedAssignment = fq_resolvedAssignment request,
        ev_runLimits = None, ev_acceptanceDecision = None, ev_repairResolution = None,
        ev_startedFromSpec = None \<rparr>)"

definition decide_fact_present :: "workflow_state \<Rightarrow> fact_request \<Rightarrow> workflow_decision" where
  "decide_fact_present state request =
     (let operation = operationId (Fact_family (fq_operation request)) (fq_correlationId request);
          requiresAssignment = (fq_operation request = Agent_record)
      in if st_feature state \<noteq> fq_feature request then Refused Refuse_feature_mismatch
         else if st_runId state \<noteq> fq_runId request then Refused Refuse_runid_mismatch
         else if operation \<in> set (st_operations state) then Unchanged Duplicate
         else if st_status state = Done_completed then Unchanged Already_completed
         else if st_policyVersion state \<noteq> Some WORKFLOW_POLICY_VERSION \<or>
                 st_acceptanceAttemptCeiling state = None
         then Refused Refuse_uso
         else if fq_expectedRevision request \<noteq> st_revision state then Refused Refuse_revision_conflict
         else if requiresAssignment \<and>
                 (fq_resolvedAssignment request = None \<or> fq_phaseExecution request = None)
         then Refused Refuse_uso
         else if \<not> requiresAssignment \<and>
                 (fq_resolvedAssignment request \<noteq> None \<or> fq_phaseExecution request \<noteq> None)
         then Refused Refuse_uso
         else if (case (fq_resolvedAssignment request, fq_phaseExecution request) of
                    (Some assignment, Some execution) \<Rightarrow> executionMismatch assignment execution
                  | _ \<Rightarrow> False)
         then Refused Refuse_execution_mismatch
         else Recorded Observed (fact_event state request) None)"

definition decideRecordFact :: "workflow_observation \<Rightarrow> fact_request \<Rightarrow> workflow_decision" where
  "decideRecordFact observation request =
     (if \<not> valid_fact_request request then Refused Refuse_uso
      else (case observation of
              Corrupt \<Rightarrow> Refused Refuse_state_unreadable
            | Absent _ \<Rightarrow> Refused Refuse_context_unreadable
            | Present state \<Rightarrow> decide_fact_present state request))"

section \<open>The drafted events meet the semantic policy\<close>

lemma family_exhaust:
  obtains "f = Start_family" | "f = Continue_family" | "f = Fact_family Agent_record"
    | "f = Fact_family Gaps_record" | "f = Fact_family Gaps_resolve" | "f = Fact_family Gaps_waive"
    | "f = Fact_family Gates_record"
  by (metis fact_operation.exhaust operation_family.exhaust)

lemma operationId_named:
  "operation_named (family_text g) (operationId f corr) \<longleftrightarrow> g = f \<and> id_test corr"
  by (cases f rule: family_exhaust; cases g rule: family_exhaust)
    (simp_all add: operationId_def operation_named_def)

lemma workflowOperation_operationId: "id_test corr \<Longrightarrow> workflowOperation (operationId f corr) = Some f"
  by (cases f rule: family_exhaust)
    (simp_all add: workflowOperation_def operation_families_def operationId_named)

lemma operationId_other:
  "\<not> starts_with ''lock.'' (operationId f corr)"
  "\<not> operation_named ''acceptance.record'' (operationId f corr)"
  "\<not> operation_named ''repair.resolve'' (operationId f corr)"
  "\<not> operation_named ''repair.restart'' (operationId f corr)"
  "starts_with ''sdd.'' (operationId f corr)"
  by (cases f rule: family_exhaust; simp add: operationId_def operation_named_def)+

lemma operationId_semantics:
  assumes "ev_operation e = operationId f corr" "id_test corr" "ev_stateContract e \<noteq> V1_0"
    "case ev_resolvedAssignment e of None \<Rightarrow> True | Some a \<Rightarrow> as_role a = PHASE_MODEL_ROLE (as_phase a)"
    "ev_gateFailures e = Some gs" "gate_failures_consistent (ev_operation e) gs"
  shows "assertEventSemanticPolicy e = workflow_branch_ok e"
  using assms by (auto simp: assertEventSemanticPolicy_def operationId_other split: option.splits)

lemma named_operations [simp]:
  "\<not> starts_with ''lock.'' (resolve_operation corr)" "\<not> starts_with ''lock.'' (restart_operation corr)"
  "\<not> operation_named ''acceptance.record'' (resolve_operation corr)"
  "\<not> operation_named ''acceptance.record'' (restart_operation corr)"
  "operation_named ''repair.resolve'' (resolve_operation corr) = id_test corr"
  "\<not> operation_named ''repair.resolve'' (restart_operation corr)"
  "operation_named ''repair.restart'' (restart_operation corr) = id_test corr"
  by (simp_all add: resolve_operation_def restart_operation_def operation_named_def)

lemma empty_gate_failures [simp]: "gate_failures_consistent operation []"
  by (simp add: gate_failures_consistent_def)

definition role_matches :: "assignment option \<Rightarrow> bool" where
  "role_matches a = (case a of None \<Rightarrow> True | Some x \<Rightarrow> as_role x = PHASE_MODEL_ROLE (as_phase x))"

lemma moving_semantics:
  assumes "in_operation i = operationId f corr" "id_test corr" "f = Start_family \<or> f = Continue_family"
    "tr \<in> (if f = Start_family then {Started, Resumed} else {Resumed, Accepted, Rejected_transition, Completed})"
    "(limits \<noteq> None) = (tr = Started)" "(a \<noteq> None) = (tr \<in> {Accepted, Completed})" "role_matches a"
    "gate_failures_consistent (in_operation i) gs"
  shows "assertEventSemanticPolicy (workflow_event i tr arts evs a x limits gs)"
proof -
  let ?e = "workflow_event i tr arts evs a x limits gs"
  have "assertEventSemanticPolicy ?e = workflow_branch_ok ?e"
    using assms by (intro operationId_semantics) (auto simp: workflow_event_def Let_def role_matches_def)
  moreover have "workflowOperation (ev_operation ?e) = Some f"
    using assms(1,2) by (simp add: workflow_event_def Let_def workflowOperation_operationId)
  ultimately show ?thesis
    using assms(3-6)
    by (cases tr) (auto simp: workflow_branch_ok_def workflow_event_def Let_def matchesPolicy_def
      hasRunLimits_def hasAcceptanceDecision_def hasRepairResolution_def hasStartedFromSpec_def
      workflow_contract_def current_contract_def WORKFLOW_POLICY_VERSION_def
      WORKFLOW_POLICY_UPGRADE_FACT_def)
qed

section \<open>The drafted events are accepted by the reducer\<close>

lemma workflow_event_sel [simp]:
  "ev_stateContract (workflow_event i tr arts evs a x l gs) = V1_2"
  "ev_occurredAt (workflow_event i tr arts evs a x l gs) = in_occurredAt i"
  "ev_operation (workflow_event i tr arts evs a x l gs) = in_operation i"
  "ev_policyVersion (workflow_event i tr arts evs a x l gs) = WORKFLOW_POLICY_VERSION"
  "ev_priorRevision (workflow_event i tr arts evs a x l gs) = in_revision i"
  "ev_resultingRevision (workflow_event i tr arts evs a x l gs) = in_revision i + 1"
  "ev_reasonCode (workflow_event i tr arts evs a x l gs) = fp_reasonCode (WORKFLOW_TRANSITION_FACTS tr)"
  "ev_runLimits (workflow_event i tr arts evs a x l gs) = l"
  "ev_artifactRefs (workflow_event i tr arts evs a x l gs) = arts"
  "ev_gateFailures (workflow_event i tr arts evs a x l gs) = Some gs"
  by (simp_all add: workflow_event_def Let_def)

lemma policies_distinct [simp]: "WORKFLOW_POLICY_VERSION \<noteq> LEGACY_WORKFLOW_POLICY_VERSION"
  by (simp add: WORKFLOW_POLICY_VERSION_def LEGACY_WORKFLOW_POLICY_VERSION_def)

lemma current_step:
  "ev_policyVersion e = WORKFLOW_POLICY_VERSION \<Longrightarrow> workflow_step s e = reduceWorkflow s e"
  by (simp add: workflow_step_def workflow_reducer_def)

text \<open>What no moving transition and no fact changes: the repair loop's books.\<close>

definition same_repair_books :: "workflow_state \<Rightarrow> workflow_state \<Rightarrow> bool" where
  "same_repair_books s t \<longleftrightarrow> st_attempts t = st_attempts s \<and>
     st_activeRepairStops t = st_activeRepairStops s \<and> st_repairStopHistory t = st_repairStopHistory s \<and>
     st_repairResolutions t = st_repairResolutions s \<and> st_specificationRestart t = st_specificationRestart s"

text \<open>What a moving transition makes of the run that it applies to.\<close>

fun transition_applies :: "workflow_state \<Rightarrow> moving_transition \<Rightarrow> bool" where
  "transition_applies s Started = (st_revision s = 0)"
| "transition_applies s Resumed = (st_status s \<noteq> Done_completed \<and>
     st_activeRepairStops s = [] \<and> st_specificationRestart s = None)"
| "transition_applies s Accepted = (st_status s \<noteq> Done_completed \<and> st_currentStep s \<notin> {None, Some Acceptance} \<and>
     st_activeRepairStops s = [] \<and> st_specificationRestart s = None)"
| "transition_applies s Rejected_transition = (st_status s \<noteq> Done_completed \<and> st_currentStep s \<noteq> None)"
| "transition_applies s Completed = (st_currentStep s = Some Acceptance \<and>
     st_activeRepairStops s = [] \<and> st_specificationRestart s = None)"

fun transition_result :: "workflow_state \<Rightarrow> moving_transition \<Rightarrow> run_status \<times> run_phase option" where
  "transition_result s Started = (Active, Some Prd)"
| "transition_result s Resumed = (Active, st_currentStep s)"
| "transition_result s Accepted = (Active, nextPhase (st_currentStep s))"
| "transition_result s Rejected_transition = (Blocked, st_currentStep s)"
| "transition_result s Completed = (Done_completed, None)"

lemma transition_known:
  "transition_applies s tr \<Longrightarrow>
     known_reason s (fp_reasonCode (WORKFLOW_TRANSITION_FACTS tr)) = Inr (transition_result s tr)"
proof (cases tr)
  case Accepted
  assume "transition_applies s tr"
  with Accepted obtain p where "st_currentStep s = Some p" "p \<noteq> Acceptance" "st_status s \<noteq> Done_completed" by auto
  then show ?thesis by (cases p) (simp_all add: Accepted known_reason_def)
qed (simp_all add: known_reason_def)

lemma moving_step:
  assumes "transition_applies s tr" "in_revision i = st_revision s"
    "if tr = Started then l \<noteq> None else st_acceptanceAttemptCeiling s \<noteq> None"
  shows "\<exists>t. workflow_step s (workflow_event i tr arts evs a x l gs) = Inr t \<and>
    (st_status t, st_currentStep t) = transition_result s tr \<and> same_repair_books s t"
proof -
  let ?e = "workflow_event i tr arts evs a x l gs"
  obtain st cs where res: "transition_result s tr = (st, cs)" by (cases "transition_result s tr")
  have known: "reduceKnownWorkflowReason s ?e = Inr ((stamp ?e s)
      \<lparr> st_status := st, st_currentStep := cs,
        st_createdAt := (case st_createdAt s of None \<Rightarrow> Some (ev_occurredAt ?e) | Some t \<Rightarrow> Some t) \<rparr>)"
    using transition_known [OF assms(1)] assms(1,2) res
    by (cases tr) (auto simp: reduceKnownWorkflowReason_def)
  show ?thesis
  proof (cases "tr = Started")
    case True
    with known assms res show ?thesis
      by (auto simp: current_step reduceWorkflow_def same_repair_books_def)
  next
    case False
    then have "workflow_step s ?e = reduceKnownWorkflowReason s ?e"
      using assms by (cases tr) (auto simp: current_step reduceWorkflow_def)
    with known res show ?thesis by (simp add: same_repair_books_def)
  qed
qed

text \<open>A run that has begun and not ended has a current phase.\<close>

lemma open_run_phase:
  "workflow_inv s \<Longrightarrow> st_revision s \<noteq> 0 \<Longrightarrow> st_status s \<noteq> Done_completed \<Longrightarrow> st_currentStep s \<noteq> None"
  by (auto simp: workflow_inv_defs)

lemma upgrade_step:
  assumes "workflow_inv s" "upgradable s" "in_revision i = st_revision s" "starts_with ''sdd.start:'' (in_operation i)"
  shows "\<exists>t. workflow_step s (policyUpgradeEvent i limits) = Inr t \<and> st_status t = st_status s \<and>
    st_currentStep t = st_currentStep s \<and> st_acceptanceAttemptCeiling t = Some (rl_acceptanceAttemptCeiling limits)"
proof -
  have "st_revision s \<noteq> 0"
    using assms(1,2) by (auto simp: workflow_inv_defs upgradable_def)
  with assms show ?thesis
    by (auto simp: current_step policyUpgradeEvent_def reduceWorkflow_def reduce_upgrade_def
        WORKFLOW_POLICY_UPGRADE_FACT_def)
qed

lemma restart_step:
  assumes "st_revision s = 0" "sf_retiredCriterionIds start \<noteq> []"
  shows "\<exists>t. workflow_step s (restart_event r start) = Inr t \<and> st_status t = Active \<and>
    st_currentStep t = Some Spec \<and> st_retiredCriterionIds t = sf_retiredCriterionIds start"
  using assms
  by (auto simp: current_step restart_event_def reduceWorkflow_def reduce_started_from_spec_def)

lemma resolution_step:
  assumes "st_status s = Blocked" "st_specificationRestart s = None" "st_acceptanceAttemptCeiling s \<noteq> None"
    "List.find (\<lambda>x. at_criterionId x = rq_criterionId r) (st_activeRepairStops s) = Some stop"
    "rs_classification stop = Specification_fault \<longrightarrow>
       \<not> list_ex (\<lambda>c. rs_classification c = Code_fault) (st_activeRepairStops s)"
    "restart_fields_ok (rs_classification stop = Specification_fault) r"
  shows "\<exists>t. workflow_step s (resolution_event s r stop) = Inr t"
proof -
  let ?e = "resolution_event s r stop"
  have "workflow_step s ?e = reduce_resolution s ?e"
    using assms(3) by (auto simp: current_step resolution_event_def reduceWorkflow_def)
  moreover have "\<exists>t. reduce_resolution s ?e = Inr t"
  proof (cases "rs_classification stop")
    case Code_fault
    with assms show ?thesis
      by (auto simp: reduce_resolution_def resolution_event_def restart_fields_ok_def Let_def)
  next
    case Specification_fault
    with assms show ?thesis
      by (auto simp: reduce_resolution_def resolution_event_def restart_fields_ok_def Let_def list_ex_iff)
  qed
  ultimately show ?thesis by simp
qed

lemma fact_known:
  "st_status s \<noteq> Done_completed \<Longrightarrow> st_currentStep s \<noteq> None \<Longrightarrow>
     known_reason s (FACT_EVENT_REASONS f) = Inr (st_status s, st_currentStep s)"
  by (cases f) (simp_all add: known_reason_def)

lemma fact_step:
  assumes "st_status s \<noteq> Done_completed" "st_currentStep s \<noteq> None" "st_acceptanceAttemptCeiling s \<noteq> None"
  shows "\<exists>t. workflow_step s (fact_event s r) = Inr t \<and> st_status t = st_status s \<and>
    st_currentStep t = st_currentStep s \<and> same_repair_books s t"
proof -
  let ?e = "fact_event s r"
  have reason: "ev_reasonCode ?e = FACT_EVENT_REASONS (fq_operation r)"
    by (simp add: fact_event_def Let_def WORKFLOW_OPERATION_FACTS_def)
  have "workflow_step s ?e = reduceKnownWorkflowReason s ?e"
    using assms(3)
    by (cases "fq_operation r") (auto simp: current_step fact_event_def Let_def reduceWorkflow_def
        WORKFLOW_OPERATION_FACTS_def)
  moreover have "reduceKnownWorkflowReason s ?e = Inr ((stamp ?e s)
      \<lparr> st_status := st_status s, st_currentStep := st_currentStep s,
        st_createdAt := (case st_createdAt s of None \<Rightarrow> Some (ev_occurredAt ?e) | Some t \<Rightarrow> Some t) \<rparr>)"
    using fact_known [OF assms(1,2), of "fq_operation r"]
    unfolding reduceKnownWorkflowReason_def reason
    by (cases "fq_operation r") (simp_all add: fact_event_def Let_def)
  ultimately show ?thesis by (simp add: same_repair_books_def)
qed

section \<open>Recorded decisions\<close>

lemma decideStartE:
  assumes "decideStartWorkflow obs r = Recorded tr e why"
  obtains (fresh) ops where "obs = Absent ops" "sq_startFromSpec r = None" "validStartRequest r"
      "operationId Start_family (sq_correlationId r) \<notin> set ops" "tr = Moving Started"
      "e = workflow_event (start_input r 0) Started [] [] None None (Some (start_limits r)) []"
  | (respec) ops start where "obs = Absent ops" "sq_startFromSpec r = Some start" "validStartRequest r"
      "sf_retiredCriterionIds start \<noteq> []" "tr = Moving Started" "e = restart_event r start"
  | (upgrade) s where "obs = Present s" "validStartRequest r" "upgradable s" "st_status s \<noteq> Done_completed"
      "operationId Start_family (sq_correlationId r) \<notin> set (st_operations s)" "tr = Upgraded"
      "e = policyUpgradeEvent (start_input r (st_revision s)) (start_limits r)"
  | (resume) s where "obs = Present s" "validStartRequest r" "st_status s \<noteq> Done_completed"
      "st_acceptanceAttemptCeiling s \<noteq> None" "st_activeRepairStops s = []" "st_specificationRestart s = None"
      "operationId Start_family (sq_correlationId r) \<notin> set (st_operations s)" "tr = Moving Resumed"
      "e = workflow_event (start_input r (st_revision s)) Resumed [] [] None None None []"
proof (cases obs)
  case (Absent ops)
  with assms have "decide_start_absent r = Recorded tr e why" "validStartRequest r"
    "operationId Start_family (sq_correlationId r) \<notin> set ops"
    by (auto simp: decideStartWorkflow_def split: if_splits)
  then show thesis using Absent fresh respec
    by (auto simp: decide_start_absent_def split: option.splits if_splits)
next
  case (Present s)
  with assms have "decide_start_present s r = Recorded tr e why" "validStartRequest r"
    "operationId Start_family (sq_correlationId r) \<notin> set (st_operations s)"
    by (auto simp: decideStartWorkflow_def split: if_splits)
  then show thesis using Present upgrade resume
    by (auto simp: decide_start_present_def split: if_splits)
next
  case Corrupt
  with assms show thesis by (auto simp: decideStartWorkflow_def split: if_splits)
qed

definition continue_input :: "continue_request \<Rightarrow> workflow_state \<Rightarrow> event_input" where
  "continue_input r s =
     \<lparr> in_eventId = cq_eventId r, in_occurredAt = cq_occurredAt r,
       in_operation = operationId Continue_family (cq_correlationId r), in_revision = st_revision s,
       in_identity = cq_observedIdentity r \<rparr>"

text \<open>A recorded continuation is one moving transition that applies to the run.\<close>

lemma decideContinueE:
  assumes "decideContinueWorkflow obs r = Recorded tr e why"
  obtains s mt arts evs a x where "obs = Present s" "tr = Moving mt" "validContinueRequest r"
    "operationId Continue_family (cq_correlationId r) \<notin> set (st_operations s)"
    "cq_expectedRevision r = st_revision s" "st_status s \<noteq> Done_completed"
    "st_acceptanceAttemptCeiling s \<noteq> None" "mt \<noteq> Started"
    "mt = Rejected_transition \<or> st_activeRepairStops s = [] \<and> st_specificationRestart s = None"
    "mt = Accepted \<longrightarrow> st_currentStep s \<noteq> Some Acceptance"
    "mt = Completed \<longrightarrow> st_currentStep s = Some Acceptance"
    "a = (if mt \<in> {Accepted, Completed} then cq_resolvedAssignment r else None)"
    "mt \<in> {Accepted, Completed} \<longrightarrow> a \<noteq> None \<and> gv_outcome (gate_verdict_of r) \<noteq> Block_outcome \<and>
       arts \<noteq> [] \<and> evs \<noteq> [] \<and> (\<exists>act. cq_action r = Complete_phase act \<and> action_reasons act = [])"
    "mt = Completed \<longrightarrow> (\<exists>act. cq_action r = Complete_phase act \<and> ca_allowFinalCompletion act)"
    "e = workflow_event (continue_input r s) mt arts evs a x None (gv_failures (gate_verdict_of r))"
proof -
  from assms obtain s where s: "obs = Present s" "validContinueRequest r"
    and d: "decide_continue_present s r = Recorded tr e why"
    by (auto simp: decideContinueWorkflow_def split: if_splits workflow_observation.splits)
  have common: "operationId Continue_family (cq_correlationId r) \<notin> set (st_operations s)"
      "cq_expectedRevision r = st_revision s" "st_status s \<noteq> Done_completed"
      "st_acceptanceAttemptCeiling s \<noteq> None"
    and clear: "is_reject (cq_action r) \<or> st_activeRepairStops s = [] \<and> st_specificationRestart s = None"
    and act: "(case cq_action r of
        Resume_action \<Rightarrow> recorded r (operationId Continue_family (cq_correlationId r)) (st_revision s) Resumed [] [] None
      | Reject_action artifacts evidence \<Rightarrow>
          recorded r (operationId Continue_family (cq_correlationId r)) (st_revision s) Rejected_transition
            artifacts evidence (Some [''explicit-reject''])
      | Complete_phase action \<Rightarrow>
          decide_complete s r (operationId Continue_family (cq_correlationId r)) action) = Recorded tr e why"
    using d by (auto simp: decide_continue_present_def Let_def split: if_splits)
  note rule = that [OF s(1) _ s(2) common]
  show thesis
  proof (cases "cq_action r")
    case (Complete_phase action)
    with clear have "st_activeRepairStops s = []" "st_specificationRestart s = None"
      by (auto simp: is_reject_def)
    moreover from act Complete_phase have
      "decide_complete s r (operationId Continue_family (cq_correlationId r)) action = Recorded tr e why"
      by simp
    ultimately show thesis using Complete_phase
      unfolding decide_complete_def Let_def recorded_def continue_input_def [symmetric]
      by (auto split: if_splits option.splits
          intro!: rule [where arts = "ca_artifactRefs action" and evs = "ca_evidenceRefs action"])
  next
    case Resume_action
    with act clear show thesis
      by (intro rule) (auto simp: recorded_def continue_input_def is_reject_def)
  next
    case Reject_action
    with act clear show thesis
      by (intro rule) (auto simp: recorded_def continue_input_def is_reject_def)
  qed
qed

lemma decideResolveE:
  assumes "decideResolveRepairStop obs r = Recorded tr e why"
  obtains s stop where "obs = Present s" "tr = Resolved" "valid_resolve_request r"
    "resolve_operation (rq_correlationId r) \<notin> set (st_operations s)"
    "st_status s = Blocked" "st_specificationRestart s = None" "rq_expectedRevision r = st_revision s"
    "List.find (\<lambda>x. at_criterionId x = rq_criterionId r) (st_activeRepairStops s) = Some stop"
    "rs_classification stop = Specification_fault \<longrightarrow>
       \<not> list_ex (\<lambda>c. rs_classification c = Code_fault) (st_activeRepairStops s)"
    "restart_fields_ok (rs_classification stop = Specification_fault) r"
    "e = resolution_event s r stop"
proof -
  from assms obtain s where s: "obs = Present s" "valid_resolve_request r"
    and d: "decide_resolve_present s r = Recorded tr e why"
    by (auto simp: decideResolveRepairStop_def split: if_splits workflow_observation.splits)
  from d show thesis
    unfolding decide_resolve_present_def Let_def
    by (auto split: if_splits option.splits intro!: that [OF s(1) _ s(2)])
qed

lemma decideFactE:
  assumes "decideRecordFact obs r = Recorded tr e why"
  obtains s where "obs = Present s" "tr = Observed" "valid_fact_request r"
    "operationId (Fact_family (fq_operation r)) (fq_correlationId r) \<notin> set (st_operations s)"
    "st_status s \<noteq> Done_completed" "st_acceptanceAttemptCeiling s \<noteq> None"
    "fq_expectedRevision r = st_revision s"
    "(fq_operation r = Agent_record) = (fq_resolvedAssignment r \<noteq> None)"
    "e = fact_event s r"
proof -
  from assms obtain s where s: "obs = Present s" "valid_fact_request r"
    and d: "decide_fact_present s r = Recorded tr e why"
    by (auto simp: decideRecordFact_def split: if_splits workflow_observation.splits)
  from d show thesis
    unfolding decide_fact_present_def Let_def
    by (auto split: if_splits intro!: that [OF s(1) _ s(2)])
qed

end
