(* ===== verification/Repair_Loop.thy ===== *)
theory Repair_Loop
  imports Workflow_Decision
begin

text \<open>
  The acceptance repair loop: the decision on one complete acceptance verdict
  (\<open>domain/repair-loop/decision.ts\<close>), the artifacts it is bound to
  (\<open>domain/repair-loop/artifact.ts\<close>), and the acceptance event that
  \<open>domain/cli/agent.ts\<close> commits, with the preparation of its inputs in
  \<open>composition/workflow.ts\<close>.
\<close>

section \<open>Candidates and decisions\<close>

datatype criterion_outcome = Outcome_passed | Outcome_failed | Outcome_not_run

record repair_loop_fault =
  fa_criterionId :: string
  fa_classification :: fault_class
  fa_diagnosis :: string

record repair_loop_stop = repair_loop_fault +
  fs_attempt :: int

text \<open>The criteria of a candidate are reported as passed (\<open>False\<close>) or failed (\<open>True\<close>).\<close>

record repair_loop_criterion =
  lc_criterionId :: string
  lc_failed :: bool

record repair_loop_candidate =
  rc_attemptCeiling :: int
  rc_attempts :: "attempt list"
  rc_criteria :: "repair_loop_criterion list"
  rc_faults :: "repair_loop_fault list"

datatype repair_refusal =
    Active_stop
  | Duplicate_criterion
  | Invalid_attempt
  | Invalid_ceiling
  | Invalid_criterion
  | Invalid_fault
  | Missing_fault
  | Unexpected_fault

datatype repair_loop_decision =
    Loop_passed "attempt list"
  | Loop_repair "attempt list"
  | Loop_stopped "attempt list" "repair_loop_stop list"
  | Loop_refused repair_refusal "string option"

definition validPositiveInteger :: "int \<Rightarrow> bool" where
  "validPositiveInteger value \<longleftrightarrow> isSafeInteger value \<and> value > 0"

definition validFault :: "repair_loop_fault \<Rightarrow> bool" where
  "validFault fault \<longleftrightarrow>
     isAcceptanceCriterionId (fa_criterionId fault) \<and>
     length (js_trim (fa_diagnosis fault)) > 0 \<and> length (fa_diagnosis fault) \<le> 2048 \<and>
     \<not> list_ex is_control (fa_diagnosis fault)"

text \<open>
  The three validation loops return the refusal of the first offending entry. The map
  \<open>prior\<close>, the set \<open>criteria\<close> and the map \<open>faults\<close> hold what was seen so far.
\<close>

fun check_attempts :: "int \<Rightarrow> string list \<Rightarrow> attempt list \<Rightarrow> (repair_refusal \<times> string) option" where
  "check_attempts ceiling prior [] = None"
| "check_attempts ceiling prior (a # as) =
     (if \<not> isAcceptanceCriterionId (at_criterionId a) \<or> \<not> validPositiveInteger (at_attempt a)
      then Some (Invalid_attempt, at_criterionId a)
      else if at_criterionId a \<in> set prior then Some (Duplicate_criterion, at_criterionId a)
      else if at_attempt a \<ge> ceiling then Some (Active_stop, at_criterionId a)
      else check_attempts ceiling (at_criterionId a # prior) as)"

fun check_criteria :: "string list \<Rightarrow> repair_loop_criterion list \<Rightarrow> (repair_refusal \<times> string) option" where
  "check_criteria criteria [] = None"
| "check_criteria criteria (c # cs) =
     (if \<not> isAcceptanceCriterionId (lc_criterionId c) then Some (Invalid_criterion, lc_criterionId c)
      else if lc_criterionId c \<in> set criteria then Some (Duplicate_criterion, lc_criterionId c)
      else check_criteria (lc_criterionId c # criteria) cs)"

fun check_faults :: "string list \<Rightarrow> repair_loop_fault list \<Rightarrow> (repair_refusal \<times> string) option" where
  "check_faults faults [] = None"
| "check_faults faults (f # fs) =
     (if \<not> validFault f \<or> fa_criterionId f \<in> set faults then Some (Invalid_fault, fa_criterionId f)
      else check_faults (fa_criterionId f # faults) fs)"

definition failed_attempts :: "repair_loop_candidate \<Rightarrow> attempt list" where
  "failed_attempts candidate =
     map (\<lambda>c. \<lparr> at_criterionId = lc_criterionId c,
         at_attempt = (case attempt_map (rc_attempts candidate) (lc_criterionId c) of None \<Rightarrow> 0 | Some n \<Rightarrow> n) + 1 \<rparr>)
       (filter lc_failed (rc_criteria candidate))"

definition fault_of :: "repair_loop_fault list \<Rightarrow> string \<Rightarrow> repair_loop_fault option" where
  "fault_of faults criterionId = List.find (\<lambda>f. fa_criterionId f = criterionId) faults"

definition decide_failed :: "repair_loop_candidate \<Rightarrow> attempt list \<Rightarrow> repair_loop_decision" where
  "decide_failed candidate attempts =
     (let tripping = filter (\<lambda>a. at_attempt a \<ge> rc_attemptCeiling candidate) attempts;
          faults = rc_faults candidate
      in case List.find (\<lambda>a. fault_of faults (at_criterionId a) = None) tripping of
           Some a \<Rightarrow> Loop_refused Missing_fault (Some (at_criterionId a))
         | None \<Rightarrow>
             (case List.find (\<lambda>f. fa_criterionId f \<notin> at_criterionId ` set tripping) faults of
                Some f \<Rightarrow> Loop_refused Unexpected_fault (Some (fa_criterionId f))
              | None \<Rightarrow>
                  if tripping = [] then Loop_repair attempts
                  else Loop_stopped attempts
                    (map (\<lambda>a. repair_loop_fault.extend
                        (repair_loop_fault.truncate (the (fault_of faults (at_criterionId a))))
                        \<lparr> fs_attempt = at_attempt a \<rparr>) tripping)))"

definition decideRepairLoop :: "repair_loop_candidate \<Rightarrow> repair_loop_decision" where
  "decideRepairLoop candidate =
     (if \<not> validPositiveInteger (rc_attemptCeiling candidate) then Loop_refused Invalid_ceiling None
      else (case check_attempts (rc_attemptCeiling candidate) [] (rc_attempts candidate) of
        Some (reason, k) \<Rightarrow> Loop_refused reason (Some k)
      | None \<Rightarrow>
          (case check_criteria [] (rc_criteria candidate) of
             Some (reason, k) \<Rightarrow> Loop_refused reason (Some k)
           | None \<Rightarrow>
               (case check_faults [] (rc_faults candidate) of
                  Some (reason, k) \<Rightarrow> Loop_refused reason (Some k)
                | None \<Rightarrow>
                    (let attempts = failed_attempts candidate
                     in if attempts = [] then
                          (case rc_faults candidate of
                             [] \<Rightarrow> Loop_passed (rc_attempts candidate)
                           | f # _ \<Rightarrow> Loop_refused Unexpected_fault (Some (fa_criterionId f)))
                        else decide_failed candidate attempts)))))"

section \<open>Artifacts\<close>

record stop_binding =
  sb_criterionId :: string
  sb_artifactRef :: string
  sb_artifactDigest :: string

datatype binding_error = Bindings_unexpected | Bindings_incomplete | Binding_missing

text \<open>The binding of a criterion recorded last wins in \<open>new Map(entries)\<close>.\<close>

definition binding_map :: "stop_binding list \<Rightarrow> string \<rightharpoonup> stop_binding" where
  "binding_map bindings = map_of (rev (map (\<lambda>b. (sb_criterionId b, b)) bindings))"

fun bind_stops ::
  "(string \<rightharpoonup> stop_binding) \<Rightarrow> repair_loop_stop list \<Rightarrow> (binding_error, repair_stop list) result" where
  "bind_stops byCriterion [] = Inr []"
| "bind_stops byCriterion (stop # stops) =
     (case byCriterion (fa_criterionId stop) of
        None \<Rightarrow> Inl Binding_missing
      | Some binding \<Rightarrow>
          bind_result (bind_stops byCriterion stops) (\<lambda>rest. Inr
            (\<lparr> at_criterionId = fa_criterionId stop, at_attempt = fs_attempt stop,
               rs_classification = fa_classification stop, rs_artifactRef = sb_artifactRef binding,
               rs_artifactDigest = sb_artifactDigest binding \<rparr> # rest)))"

fun buildAcceptanceDecisionMetadata ::
  "repair_loop_decision \<Rightarrow> stop_binding list \<Rightarrow> (binding_error, acceptance_decision) result" where
  "buildAcceptanceDecisionMetadata (Loop_stopped attempts stops) bindings =
     (if length (remdups (map sb_criterionId bindings)) \<noteq> length stops then Inl Bindings_incomplete
      else bind_result (bind_stops (binding_map bindings) stops) (\<lambda>repairStops.
        Inr \<lparr> ad_outcome = Acc_stopped, ad_attempts = attempts, ad_repairStops = repairStops \<rparr>))"
| "buildAcceptanceDecisionMetadata (Loop_repair attempts) bindings =
     (if bindings \<noteq> [] then Inl Bindings_unexpected
      else Inr \<lparr> ad_outcome = Acc_repair, ad_attempts = attempts, ad_repairStops = [] \<rparr>)"
| "buildAcceptanceDecisionMetadata decision bindings =
     (if bindings \<noteq> [] then Inl Bindings_unexpected
      else Inr \<lparr> ad_outcome = Acc_passed, ad_attempts = [], ad_repairStops = [] \<rparr>)"

section \<open>Recording an acceptance verdict\<close>

text \<open>
  What the composition layer prepares for the command: the reported outcomes of the
  criteria, the faults of the reply, and the reference and digest under which each stop
  artifact is written (the digest of serialised JSON is a parameter of the model).
\<close>

record acceptance_request =
  aq_correlationId :: string
  aq_eventId :: string
  aq_occurredAt :: string
  aq_host :: string
  aq_execution :: phase_execution
  aq_rejected :: bool
  aq_criteria :: "(string \<times> criterion_outcome) list"
  aq_faults :: "repair_loop_fault list"
  aq_artifactRefs :: "string list"
  aq_evidenceRefs :: "string list"

definition run_root :: "workflow_state \<Rightarrow> string" where
  "run_root state = ''.brain/02-features/'' @ st_feature state @ ''/runs/'' @ st_runId state"

definition stop_ref :: "workflow_state \<Rightarrow> string \<Rightarrow> string \<Rightarrow> string" where
  "stop_ref state eventId criterionId =
     run_root state @ ''/acceptance/repair-stops/'' @ eventId @ ''/'' @ criterionId @ ''.json''"

fun reported_criteria :: "(string \<times> criterion_outcome) list \<Rightarrow> repair_loop_criterion list" where
  "reported_criteria [] = []"
| "reported_criteria ((k, outcome) # rest) =
     (if outcome = Outcome_not_run then reported_criteria rest
      else \<lparr> lc_criterionId = k, lc_failed = (outcome = Outcome_failed) \<rparr> # reported_criteria rest)"

definition prepare_loop :: "workflow_state \<Rightarrow> acceptance_request \<Rightarrow> repair_loop_decision" where
  "prepare_loop state request =
     (let reported = reported_criteria (aq_criteria request)
      in if aq_rejected request \<and> reported = []
         then Loop_refused Invalid_criterion
           (case aq_criteria request of [] \<Rightarrow> None | (k, _) # _ \<Rightarrow> Some k)
         else decideRepairLoop
           \<lparr> rc_attemptCeiling = (case st_acceptanceAttemptCeiling state of None \<Rightarrow> 0 | Some c \<Rightarrow> c),
             rc_attempts = st_attempts state, rc_criteria = reported, rc_faults = aq_faults request \<rparr>)"

definition prepared_stops ::
  "(repair_loop_stop \<Rightarrow> string) \<Rightarrow> workflow_state \<Rightarrow> string \<Rightarrow> repair_loop_decision \<Rightarrow> stop_binding list" where
  "prepared_stops digest state eventId decision =
     (case decision of
        Loop_stopped _ stops \<Rightarrow>
          map (\<lambda>s. \<lparr> sb_criterionId = fa_criterionId s, sb_artifactRef = stop_ref state eventId (fa_criterionId s),
             sb_artifactDigest = digest s \<rparr>) stops
      | _ \<Rightarrow> [])"

definition acceptance_operation :: "string \<Rightarrow> string" where
  "acceptance_operation correlationId = ''sdd.acceptance.record:'' @ correlationId"

fun loop_reason :: "repair_loop_decision \<Rightarrow> string" where
  "loop_reason (Loop_passed _) = ''run.acceptance.passed''"
| "loop_reason (Loop_repair _) = ''run.acceptance.repair_required''"
| "loop_reason _ = ''run.stop_loss.repeated_rejection''"

definition acceptance_event ::
  "workflow_state \<Rightarrow> acceptance_request \<Rightarrow> repair_loop_decision \<Rightarrow> stop_binding list \<Rightarrow>
   acceptance_decision \<Rightarrow> event_draft" where
  "acceptance_event state request decision bindings metadata =
     \<lparr> ev_contractVersion = V1_2, ev_stateContract = V1_2, ev_eventId = aq_eventId request,
       ev_eventType = Decision_event, ev_occurredAt = aq_occurredAt request,
       ev_operation = acceptance_operation (aq_correlationId request),
       ev_policyVersion = WORKFLOW_POLICY_VERSION,
       ev_priorRevision = st_revision state, ev_resultingRevision = st_revision state + 1,
       ev_reasonCode = loop_reason decision, ev_effect = State_and_artifact,
       ev_artifactRefs = aq_artifactRefs request @ map sb_artifactRef bindings,
       ev_evidenceRefs = aq_evidenceRefs request,
       ev_observedIdentity = phaseIdentity \<lparr> wi_host = aq_host request, wi_model = None \<rparr>
         (Some (aq_execution request)),
       ev_gateFailures = Some [], ev_resolvedAssignment = None, ev_runLimits = None,
       ev_acceptanceDecision = Some metadata, ev_repairResolution = None, ev_startedFromSpec = None \<rparr>"

text \<open>The repetition test of the command, which answers before anything else is read of the reply.\<close>

definition acceptanceRecorded :: "workflow_state \<Rightarrow> string \<Rightarrow> bool" where
  [simp]: "acceptanceRecorded state correlationId \<longleftrightarrow> acceptance_operation correlationId \<in> set (st_operations state)"

text \<open>
  The event the command commits, or \<^const>\<open>None\<close> when it settles as a repetition, refuses
  the verdict, or cannot bind it to the active run. The assignment of the phase was
  resolved and its execution observed, as the request carries them.
\<close>

definition draftAcceptance ::
  "(repair_loop_stop \<Rightarrow> string) \<Rightarrow> workflow_observation \<Rightarrow> acceptance_request \<Rightarrow> event_draft option" where
  "draftAcceptance digest observation request =
     (case observation of
        Present state \<Rightarrow>
          if acceptanceRecorded state (aq_correlationId request) then None
          else if st_currentStep state \<noteq> Some Acceptance \<or>
                  st_policyVersion state \<noteq> Some WORKFLOW_POLICY_VERSION then None
          else (let decision = prepare_loop state request;
                    bindings = prepared_stops digest state (aq_eventId request) decision
                in case decision of
                     Loop_refused _ _ \<Rightarrow> None
                   | _ \<Rightarrow> (case buildAcceptanceDecisionMetadata decision bindings of
                         Inl _ \<Rightarrow> None
                       | Inr metadata \<Rightarrow> Some (acceptance_event state request decision bindings metadata)))
      | _ \<Rightarrow> None)"

section \<open>The decision agrees with the reducer\<close>

lemma check_attempts_None:
  "check_attempts ceiling prior as = None \<longleftrightarrow>
     distinct (map at_criterionId as) \<and> set prior \<inter> at_criterionId ` set as = {} \<and>
     (\<forall>a \<in> set as. isAcceptanceCriterionId (at_criterionId a) \<and> validPositiveInteger (at_attempt a) \<and>
        at_attempt a < ceiling)"
  by (induction as arbitrary: prior) auto

lemma check_criteria_None:
  "check_criteria prior cs = None \<longleftrightarrow>
     distinct (map lc_criterionId cs) \<and> set prior \<inter> lc_criterionId ` set cs = {} \<and>
     (\<forall>c \<in> set cs. isAcceptanceCriterionId (lc_criterionId c))"
  by (induction cs arbitrary: prior) auto

lemma check_faults_None:
  "check_faults prior fs = None \<longleftrightarrow>
     distinct (map fa_criterionId fs) \<and> set prior \<inter> fa_criterionId ` set fs = {} \<and> (\<forall>f \<in> set fs. validFault f)"
  by (induction fs arbitrary: prior) auto

definition valid_candidate :: "repair_loop_candidate \<Rightarrow> bool" where
  "valid_candidate c \<longleftrightarrow> validPositiveInteger (rc_attemptCeiling c) \<and>
     check_attempts (rc_attemptCeiling c) [] (rc_attempts c) = None \<and>
     check_criteria [] (rc_criteria c) = None \<and> check_faults [] (rc_faults c) = None"

lemma decideRepairLoopE:
  assumes "decideRepairLoop c = d" "\<And>reason k. d \<noteq> Loop_refused reason k"
  obtains (passed) "valid_candidate c" "failed_attempts c = []" "d = Loop_passed (rc_attempts c)"
  | (repair) "valid_candidate c" "failed_attempts c \<noteq> []" "d = Loop_repair (failed_attempts c)"
      "filter (\<lambda>a. at_attempt a \<ge> rc_attemptCeiling c) (failed_attempts c) = []"
  | (stopped) stops where "valid_candidate c" "d = Loop_stopped (failed_attempts c) stops"
      "filter (\<lambda>a. at_attempt a \<ge> rc_attemptCeiling c) (failed_attempts c) \<noteq> []"
      "\<forall>a \<in> set (failed_attempts c). at_attempt a \<ge> rc_attemptCeiling c \<longrightarrow> fault_of (rc_faults c) (at_criterionId a) \<noteq> None"
      "stops = map (\<lambda>a. repair_loop_fault.extend
          (repair_loop_fault.truncate (the (fault_of (rc_faults c) (at_criterionId a)))) \<lparr> fs_attempt = at_attempt a \<rparr>)
        (filter (\<lambda>a. at_attempt a \<ge> rc_attemptCeiling c) (failed_attempts c))"
proof -
  have valid: "valid_candidate c"
    using assms by (auto simp: decideRepairLoop_def valid_candidate_def split: if_splits option.splits)
  show thesis
  proof (cases "failed_attempts c = []")
    case True
    with valid assms passed show thesis
      by (auto simp: decideRepairLoop_def valid_candidate_def split: list.splits)
  next
    case False
    with valid assms(1) have d: "decide_failed c (failed_attempts c) = d"
      by (simp add: decideRepairLoop_def valid_candidate_def Let_def)
    with assms(2) have none: "List.find (\<lambda>a. fault_of (rc_faults c) (at_criterionId a) = None)
        (filter (\<lambda>a. at_attempt a \<ge> rc_attemptCeiling c) (failed_attempts c)) = None"
      by (auto simp: decide_failed_def Let_def split: option.splits)
    from d assms(2) none show thesis
      using valid False repair stopped
      by (auto simp: decide_failed_def Let_def find_None_iff split: option.splits if_splits)
  qed
qed

lemma failed_attempts_canonical:
  assumes "valid_candidate c"
  shows "attempts_canonical (attempt_map (rc_attempts c)) (rc_attemptCeiling c) [] (failed_attempts c)"
proof -
  have bound: "n < rc_attemptCeiling c" if "attempt_map (rc_attempts c) k = Some n" for k n
    using attempt_map_Some [OF that] assms by (auto simp: valid_candidate_def check_attempts_None)
  moreover have "1 \<le> rc_attemptCeiling c"
    using assms by (simp add: valid_candidate_def validPositiveInteger_def)
  moreover have "distinct (map lc_criterionId (filter lc_failed (rc_criteria c)))"
    using assms by (simp add: valid_candidate_def check_criteria_None distinct_map_filter)
  ultimately show ?thesis
    using assms
    by (auto simp: attempts_canonical_iff failed_attempts_def comp_def valid_candidate_def check_criteria_None
        split: option.splits dest: bound)
qed

lemma filter_ge_ceiling:
  "attempts_canonical prior ceiling [] as \<Longrightarrow>
     filter (\<lambda>a. at_attempt a \<ge> ceiling) as = filter (\<lambda>a. at_attempt a = ceiling) as"
  by (rule filter_cong) (auto simp: attempts_canonical_iff)

lemma fault_of_criterion: "fault_of fs k = Some f \<Longrightarrow> fa_criterionId f = k"
  by (auto simp: fault_of_def find_Some_iff)

lemma bind_stops_Inr:
  "bind_stops m stops = Inr rs \<Longrightarrow>
     list_all2 (\<lambda>stop r. at_criterionId r = fa_criterionId stop \<and> at_attempt r = fs_attempt stop \<and>
       (\<exists>b. m (fa_criterionId stop) = Some b \<and> rs_artifactRef r = sb_artifactRef b)) stops rs"
  by (induction stops arbitrary: rs) (auto split: option.splits)

lemma binding_map_mem: "binding_map bs k = Some b \<Longrightarrow> b \<in> set bs"
  unfolding binding_map_def by (auto dest!: map_of_SomeD)

lemma bound_stops_match:
  assumes bound: "bind_stops (binding_map bindings) stops = Inr rs"
    and stops: "map (\<lambda>s. (fa_criterionId s, fs_attempt s)) stops = map (\<lambda>a. (at_criterionId a, at_attempt a)) as"
    and refs: "set (map sb_artifactRef bindings) \<subseteq> set refs"
  shows "stops_match as rs refs"
proof -
  have eq: "list_all2 (\<lambda>a s. fa_criterionId s = at_criterionId a \<and> fs_attempt s = at_attempt a) as stops"
    using stops by (auto simp: list_all2_conv_all_nth list_eq_iff_nth_eq)
  show ?thesis
    unfolding stops_match_def
    by (rule list_all2_trans [OF _ eq bind_stops_Inr [OF bound]])
      (use refs in \<open>auto dest: binding_map_mem\<close>)
qed

lemma loop_canonical:
  assumes c: "st_acceptanceAttemptCeiling s = Some (rc_attemptCeiling c)" "rc_attempts c = st_attempts s"
      "st_currentStep s = Some Acceptance" "st_activeRepairStops s = []"
    and d: "decideRepairLoop c = d" "\<And>reason k. d \<noteq> Loop_refused reason k"
    and m: "buildAcceptanceDecisionMetadata d bindings = Inr m"
    and refs: "set (map sb_artifactRef bindings) \<subseteq> set (ev_artifactRefs e)"
  shows "hasCanonicalAcceptanceDecision s e m (ad_outcome m) \<and> loop_reason d = acceptance_reason (ad_outcome m)"
  using d
proof (cases rule: decideRepairLoopE)
  case passed
  then have "m = \<lparr> ad_outcome = Acc_passed, ad_attempts = [], ad_repairStops = [] \<rparr>"
    using m by (auto split: if_splits)
  then show ?thesis using c passed by (simp add: hasCanonicalAcceptanceDecision_def)
next
  case repair
  then have "m = \<lparr> ad_outcome = Acc_repair, ad_attempts = failed_attempts c, ad_repairStops = [] \<rparr>"
    using m by (auto split: if_splits)
  then show ?thesis
    using c repair failed_attempts_canonical [OF repair(1)] filter_ge_ceiling [OF failed_attempts_canonical [OF repair(1)]]
    by (simp add: hasCanonicalAcceptanceDecision_def)
next
  case (stopped stops)
  let ?trip = "filter (\<lambda>a. at_attempt a \<ge> rc_attemptCeiling c) (failed_attempts c)"
  note can = failed_attempts_canonical [OF stopped(1)]
  from m stopped obtain rs where rs: "bind_stops (binding_map bindings) stops = Inr rs"
    and m': "m = \<lparr> ad_outcome = Acc_stopped, ad_attempts = failed_attempts c, ad_repairStops = rs \<rparr>"
    by (auto split: if_splits)
  have "fa_criterionId (the (fault_of (rc_faults c) (at_criterionId a))) = at_criterionId a" if "a \<in> set ?trip" for a
  proof -
    from that stopped(4) obtain f where f: "fault_of (rc_faults c) (at_criterionId a) = Some f" by auto
    with fault_of_criterion [OF f] show ?thesis by simp
  qed
  then have "map (\<lambda>s. (fa_criterionId s, fs_attempt s)) stops = map (\<lambda>a. (at_criterionId a, at_attempt a)) ?trip"
    unfolding stopped(5) by (auto simp: repair_loop_fault.defs)
  from bound_stops_match [OF rs this refs] have match: "stops_match ?trip rs (ev_artifactRefs e)" .
  then have "length rs = length ?trip" by (auto simp: stops_match_def dest: list_all2_lengthD)
  with match m' c stopped(2,3) can filter_ge_ceiling [OF can] show ?thesis
    by (auto simp: hasCanonicalAcceptanceDecision_def Let_def)
qed

text \<open>The bindings the composition layer prepares are complete.\<close>

lemma prepared_binding:
  assumes "distinct (map fa_criterionId stops)" "stop \<in> set stops"
  shows "\<exists>b. binding_map (prepared_stops digest s eid (Loop_stopped as stops)) (fa_criterionId stop) = Some b"
  using assms
  by (auto simp: binding_map_def prepared_stops_def map_of_eq_None_iff comp_def image_image
      simp flip: not_None_eq)

lemma bind_stops_total:
  "(\<And>stop. stop \<in> set stops \<Longrightarrow> m (fa_criterionId stop) \<noteq> None) \<Longrightarrow> \<exists>rs. bind_stops m stops = Inr rs"
proof (induction stops)
  case (Cons stop stops)
  then obtain b rs where "m (fa_criterionId stop) = Some b" "bind_stops m stops = Inr rs" by fastforce
  then show ?case by simp
qed simp

lemma prepared_metadata:
  assumes "decideRepairLoop c = d" "\<And>reason k. d \<noteq> Loop_refused reason k"
  shows "\<exists>m. buildAcceptanceDecisionMetadata d (prepared_stops digest s eid d) = Inr m"
  using assms
proof (cases rule: decideRepairLoopE)
  case (stopped stops)
  let ?trip = "filter (\<lambda>a. at_attempt a \<ge> rc_attemptCeiling c) (failed_attempts c)"
  have "fa_criterionId (the (fault_of (rc_faults c) (at_criterionId a))) = at_criterionId a" if "a \<in> set ?trip" for a
    using that stopped(4) fault_of_criterion by fastforce
  then have ids: "map fa_criterionId stops = map at_criterionId ?trip"
    unfolding stopped(5) by (auto simp: repair_loop_fault.defs)
  have "distinct (map at_criterionId (failed_attempts c))"
    using failed_attempts_canonical [OF stopped(1)] by (simp add: attempts_canonical_iff)
  then have dist: "distinct (map fa_criterionId stops)" unfolding ids by (rule distinct_map_filter)
  have keys: "map sb_criterionId (prepared_stops digest s eid (Loop_stopped (failed_attempts c) stops)) = map fa_criterionId stops"
    by (simp add: prepared_stops_def)
  have "\<exists>rs. bind_stops (binding_map (prepared_stops digest s eid (Loop_stopped (failed_attempts c) stops))) stops = Inr rs"
    using prepared_binding [OF dist] by (intro bind_stops_total) fastforce
  then show ?thesis using dist stopped(2) keys by (auto simp: distinct_remdups_id)
qed (auto simp: prepared_stops_def)

lemma metadata_outcome:
  assumes "buildAcceptanceDecisionMetadata d b = Inr m"
  shows "case d of
      Loop_passed _ \<Rightarrow> ad_outcome m = Acc_passed
    | Loop_repair as \<Rightarrow> ad_outcome m = Acc_repair \<and> ad_attempts m = as
    | Loop_stopped as stops \<Rightarrow> ad_outcome m = Acc_stopped \<and> ad_attempts m = as \<and>
        map at_criterionId (ad_repairStops m) = map fa_criterionId stops
    | Loop_refused _ _ \<Rightarrow> True"
proof (cases d)
  case (Loop_stopped as stops)
  with assms obtain rs where rs: "bind_stops (binding_map b) stops = Inr rs"
    and m: "m = \<lparr> ad_outcome = Acc_stopped, ad_attempts = as, ad_repairStops = rs \<rparr>"
    by (auto split: if_splits)
  have "map at_criterionId rs = map fa_criterionId stops"
    using bind_stops_Inr [OF rs] by (induction rule: list_all2_induct) auto
  with Loop_stopped m show ?thesis by simp
qed (use assms in \<open>auto split: if_splits\<close>)

section \<open>Drafted acceptance events\<close>

lemma acceptance_event_sel [simp]:
  "ev_operation (acceptance_event s r d b m) = acceptance_operation (aq_correlationId r)"
  "ev_priorRevision (acceptance_event s r d b m) = st_revision s"
  "ev_resultingRevision (acceptance_event s r d b m) = st_revision s + 1"
  "ev_policyVersion (acceptance_event s r d b m) = WORKFLOW_POLICY_VERSION"
  "ev_reasonCode (acceptance_event s r d b m) = loop_reason d"
  "ev_acceptanceDecision (acceptance_event s r d b m) = Some m"
  "ev_artifactRefs (acceptance_event s r d b m) = aq_artifactRefs r @ map sb_artifactRef b"
  by (simp_all add: acceptance_event_def)

lemma draftAcceptanceE:
  assumes "draftAcceptance digest obs r = Some e"
  obtains s d m where "obs = Present s" "acceptance_operation (aq_correlationId r) \<notin> set (st_operations s)"
    "st_currentStep s = Some Acceptance" "d = prepare_loop s r" "\<And>reason k. d \<noteq> Loop_refused reason k"
    "decideRepairLoop \<lparr> rc_attemptCeiling = (case st_acceptanceAttemptCeiling s of None \<Rightarrow> 0 | Some c \<Rightarrow> c),
       rc_attempts = st_attempts s, rc_criteria = reported_criteria (aq_criteria r), rc_faults = aq_faults r \<rparr> = d"
    "buildAcceptanceDecisionMetadata d (prepared_stops digest s (aq_eventId r) d) = Inr m"
    "e = acceptance_event s r d (prepared_stops digest s (aq_eventId r) d) m"
proof -
  from assms obtain s where s: "obs = Present s" "acceptance_operation (aq_correlationId r) \<notin> set (st_operations s)"
      "st_currentStep s = Some Acceptance" and rest: "\<And>reason k. prepare_loop s r \<noteq> Loop_refused reason k"
    by (auto simp: draftAcceptance_def Let_def split: workflow_observation.splits if_splits repair_loop_decision.splits)
  from assms s rest obtain m
    where m: "buildAcceptanceDecisionMetadata (prepare_loop s r) (prepared_stops digest s (aq_eventId r) (prepare_loop s r)) = Inr m"
      and e: "e = acceptance_event s r (prepare_loop s r) (prepared_stops digest s (aq_eventId r) (prepare_loop s r)) m"
    by (auto simp: draftAcceptance_def Let_def split: if_splits repair_loop_decision.splits sum.splits)
  from rest have "prepare_loop s r = decideRepairLoop \<lparr> rc_attemptCeiling = (case st_acceptanceAttemptCeiling s of None \<Rightarrow> 0 | Some c \<Rightarrow> c),
       rc_attempts = st_attempts s, rc_criteria = reported_criteria (aq_criteria r), rc_faults = aq_faults r \<rparr>"
    by (cases "aq_rejected r \<and> reported_criteria (aq_criteria r) = []") (auto simp: prepare_loop_def)
  with that [OF s refl rest _ m e] show thesis by simp
qed

lemma loop_needs_ceiling:
  assumes "decideRepairLoop c = d" "\<And>reason k. d \<noteq> Loop_refused reason k"
  shows "valid_candidate c"
  using assms by (elim decideRepairLoopE) auto

lemma acceptance_books_open:
  assumes inv: "workflow_inv s"
    and valid: "valid_candidate \<lparr> rc_attemptCeiling = (case st_acceptanceAttemptCeiling s of None \<Rightarrow> 0 | Some c \<Rightarrow> c),
       rc_attempts = st_attempts s, rc_criteria = cs, rc_faults = fs \<rparr>"
  obtains c where "st_acceptanceAttemptCeiling s = Some c" "st_activeRepairStops s = []" "st_specificationRestart s = None"
proof -
  from valid obtain c where c: "st_acceptanceAttemptCeiling s = Some c"
    by (cases "st_acceptanceAttemptCeiling s") (auto simp: valid_candidate_def validPositiveInteger_def)
  with valid have below: "a \<in> set (st_attempts s) \<Longrightarrow> at_attempt a < c" for a
    by (auto simp: valid_candidate_def check_attempts_None)
  have "st_activeRepairStops s = []"
  proof (rule ccontr)
    assume "st_activeRepairStops s \<noteq> []"
    then obtain stop where "stop \<in> set (st_activeRepairStops s)" by (cases "st_activeRepairStops s") auto
    with inv have "attempt.truncate stop \<in> set (st_attempts s)" "c = at_attempt stop"
      using c by (auto simp: workflow_inv_defs)
    with below show False by fastforce
  qed
  moreover have "st_specificationRestart s = None"
    using inv c below by (fastforce simp: workflow_inv_def restart_inv_def)
  ultimately show thesis using c that by blast
qed

lemma acceptance_recorded:
  assumes inv: "workflow_inv s" and d: "draftAcceptance digest (Present s) r = Some e"
  shows "ev_operation e = acceptance_operation (aq_correlationId r)"
    "acceptance_operation (aq_correlationId r) \<notin> set (st_operations s)"
    "ev_resultingRevision e = ev_priorRevision e + 1" "ev_reasonCode e \<noteq> ''run.resumed''"
    "is_ok (workflow_step s e)" "st_activeRepairStops s = []" "st_specificationRestart s = None"
    "\<exists>b m. e = acceptance_event s r (prepare_loop s r) b m \<and>
       (\<forall>reason k. prepare_loop s r \<noteq> Loop_refused reason k) \<and>
       buildAcceptanceDecisionMetadata (prepare_loop s r) b = Inr m \<and>
       hasCanonicalAcceptanceDecision s e m (ad_outcome m) \<and>
       loop_reason (prepare_loop s r) = acceptance_reason (ad_outcome m) \<and>
       workflow_step s e = reduce_acceptance (ad_outcome m) s e"
proof -
  from d obtain u d' m where u: "Present s = Present u" and rest:
    "acceptance_operation (aq_correlationId r) \<notin> set (st_operations u)"
    "st_currentStep u = Some Acceptance" "d' = prepare_loop u r" "\<And>reason k. d' \<noteq> Loop_refused reason k"
    and loop: "decideRepairLoop \<lparr> rc_attemptCeiling = (case st_acceptanceAttemptCeiling u of None \<Rightarrow> 0 | Some c \<Rightarrow> c),
       rc_attempts = st_attempts u, rc_criteria = reported_criteria (aq_criteria r), rc_faults = aq_faults r \<rparr> = d'"
    and m: "buildAcceptanceDecisionMetadata d' (prepared_stops digest u (aq_eventId r) d') = Inr m"
    and e: "e = acceptance_event u r d' (prepared_stops digest u (aq_eventId r) d') m"
    by (rule draftAcceptanceE) blast
  from u have us [simp]: "u = s" by simp
  obtain c where c: "st_acceptanceAttemptCeiling s = Some c"
    and open_books: "st_activeRepairStops s = []" "st_specificationRestart s = None"
    using acceptance_books_open [OF inv loop_needs_ceiling [OF loop rest(4), simplified us]] by blast
  from loop_canonical [of s _ d' _ m e, OF _ _ _ open_books(1) loop rest(4) m] c rest(2)
  have can: "hasCanonicalAcceptanceDecision s e m (ad_outcome m)" "loop_reason d' = acceptance_reason (ad_outcome m)"
    by (auto simp: e)
  have step: "workflow_step s e = reduce_acceptance (ad_outcome m) s e"
    using c can(2) by (cases "ad_outcome m") (auto simp: e current_step reduceWorkflow_def)
  from step can(1) show "is_ok (workflow_step s e)"
    by (auto simp: reduce_acceptance_def e split: acceptance_outcome.splits)
  show "ev_reasonCode e \<noteq> ''run.resumed''" using can(2) by (cases "ad_outcome m") (simp_all add: e)
  show "ev_operation e = acceptance_operation (aq_correlationId r)"
    "acceptance_operation (aq_correlationId r) \<notin> set (st_operations s)"
    "ev_resultingRevision e = ev_priorRevision e + 1" "st_activeRepairStops s = []" "st_specificationRestart s = None"
    using rest open_books by (simp_all add: e)
  show "\<exists>b m. e = acceptance_event s r (prepare_loop s r) b m \<and>
      (\<forall>reason k. prepare_loop s r \<noteq> Loop_refused reason k) \<and>
      buildAcceptanceDecisionMetadata (prepare_loop s r) b = Inr m \<and>
      hasCanonicalAcceptanceDecision s e m (ad_outcome m) \<and>
      loop_reason (prepare_loop s r) = acceptance_reason (ad_outcome m) \<and>
      workflow_step s e = reduce_acceptance (ad_outcome m) s e"
    using can e us m rest(3,4) step by blast
qed

section \<open>Acceptance events meet the semantic policy\<close>

lemma index_where_append:
  "(\<And>x. x \<in> set pre \<Longrightarrow> \<not> P x) \<Longrightarrow> P a \<Longrightarrow> index_where P (pre @ a # as) = int (length pre)"
  by (induction pre) (auto simp: Let_def)

lemma map_of_attempt:
  "distinct (map at_criterionId (pre @ a # as)) \<Longrightarrow>
     map_of (map (\<lambda>a. (at_criterionId a, at_attempt a)) (pre @ a # as)) (at_criterionId a) = Some (at_attempt a)"
  by (rule map_of_is_SomeI) (auto simp: comp_def)

lemma stops_in_order:
  assumes "list_all2 (\<lambda>a s. at_criterionId a = at_criterionId s \<and> at_attempt a = at_attempt s \<and>
      rs_artifactRef s \<in> set refs) (filter P as) stops"
    "distinct (map at_criterionId (pre @ as))" "prior < int (length pre)" "set seen \<subseteq> at_criterionId ` set pre"
  shows "stops_consistent (pre @ as) refs seen prior stops"
  using assms
proof (induction as arbitrary: pre seen prior stops)
  case (Cons a as)
  show ?case
  proof (cases "P a")
    case True
    with Cons.prems(1) obtain s rest where s: "stops = s # rest" "at_criterionId a = at_criterionId s"
        "at_attempt a = at_attempt s" "rs_artifactRef s \<in> set refs"
      and rest: "list_all2 (\<lambda>a s. at_criterionId a = at_criterionId s \<and> at_attempt a = at_attempt s \<and>
      rs_artifactRef s \<in> set refs) (filter P as) rest"
      by (auto simp: list_all2_Cons1)
    have "index_where (\<lambda>x. at_criterionId x = at_criterionId s) (pre @ a # as) = int (length pre)"
      using Cons.prems(2) s by (intro index_where_append) (auto, metis image_eqI)
    moreover have "at_criterionId s \<notin> set seen" using Cons.prems(2,4) s(2) by auto
    moreover have "map_of (map (\<lambda>a. (at_criterionId a, at_attempt a)) (pre @ a # as)) (at_criterionId s) = Some (at_attempt s)"
      using map_of_attempt [OF Cons.prems(2)] s by simp
    moreover have "stops_consistent ((pre @ [a]) @ as) refs (at_criterionId s # seen) (int (length pre)) rest"
      using Cons.prems rest s by (intro Cons.IH) auto
    ultimately show ?thesis using Cons.prems(3) s by (simp add: Let_def)
  next
    case False
    with Cons.prems have "stops_consistent ((pre @ [a]) @ as) refs seen prior stops"
      by (intro Cons.IH) auto
    then show ?thesis by simp
  qed
qed simp

lemma canonical_consistent:
  assumes "hasCanonicalAcceptanceDecision s e d outcome" "ev_acceptanceDecision e = Some d"
  shows "hasConsistentAcceptanceMetadata e"
proof -
  from assms(1) obtain c where o1: "ad_outcome d = outcome"
    and can: "attempts_canonical (attempt_map (st_attempts s)) c [] (ad_attempts d)"
    and passed: "outcome = Acc_passed \<longrightarrow> ad_attempts d = []" "outcome \<noteq> Acc_passed \<longrightarrow> ad_attempts d \<noteq> []"
    and stopped: "outcome = Acc_stopped \<longrightarrow>
       stops_match (filter (\<lambda>a. at_attempt a = c) (ad_attempts d)) (ad_repairStops d) (ev_artifactRefs e) \<and>
       ad_repairStops d \<noteq> []"
    by (rule canonical_decisionE) blast
  have dist: "distinct (map at_criterionId (ad_attempts d))"
    using can by (simp add: attempts_canonical_iff)
  show ?thesis
  proof (cases "outcome = Acc_stopped")
    case True
    with stopped have "list_all2 (\<lambda>a s. at_criterionId a = at_criterionId s \<and> at_attempt a = at_attempt s \<and>
        rs_artifactRef s \<in> set (ev_artifactRefs e)) (filter (\<lambda>a. at_attempt a = c) (ad_attempts d)) (ad_repairStops d)"
      by (simp add: stops_match_def)
    from stops_in_order [OF this, of "[]" "-1" "[]"] dist True stopped o1 assms(2) show ?thesis
      by (simp add: hasConsistentAcceptanceMetadata_def)
  next
    case False
    with assms(1) o1 have "ad_repairStops d = []"
      by (cases outcome) (auto simp: hasCanonicalAcceptanceDecision_def Let_def split: option.splits if_splits)
    with False passed dist o1 assms(2) show ?thesis
      by (cases outcome) (auto simp: hasConsistentAcceptanceMetadata_def)
  qed
qed

lemma acceptance_operation_named [simp]:
  "\<not> starts_with ''lock.'' (acceptance_operation corr)"
  "operation_named ''acceptance.record'' (acceptance_operation corr) = id_test corr"
  by (simp_all add: acceptance_operation_def operation_named_def)

lemma acceptance_semantics:
  assumes "hasCanonicalAcceptanceDecision s (acceptance_event s r d b m) m (ad_outcome m)"
    "loop_reason d = acceptance_reason (ad_outcome m)" "id_test (aq_correlationId r)"
  shows "assertEventSemanticPolicy (acceptance_event s r d b m)"
  using canonical_consistent [OF assms(1)] assms(2,3)
  by (simp add: assertEventSemanticPolicy_def acceptance_branch_ok_def acceptance_event_def
      workflow_contract_def current_contract_def hasRunLimits_def hasRepairResolution_def hasStartedFromSpec_def
      WORKFLOW_POLICY_VERSION_def)

lemma acceptance_recorded_semantics:
  assumes "workflow_inv s" "draftAcceptance digest (Present s) r = Some e" "id_test (aq_correlationId r)"
  shows "assertEventSemanticPolicy e"
  using acceptance_recorded(8) [OF assms(1,2)] acceptance_semantics assms(3) by metis

end
