(* ===== verification/Workflow_Delivery.thy ===== *)
theory Workflow_Delivery
  imports Repair_Loop
begin

text \<open>
  Deciding and replaying together: a request is decided on what replay shows of the run,
  and the event it drafts is replayed on top. The locales state what the four decision
  functions and the acceptance command promise to the code that commits their events;
  the interpretations discharge them for each and for a run that receives requests of
  every kind.
\<close>

section \<open>Delivery of a request\<close>

definition observe :: "workflow_state \<Rightarrow> workflow_observation" where
  "observe s = (if st_revision s = 0 then Absent (st_operations s) else Present s)"

definition deliver ::
  "(workflow_observation \<Rightarrow> 'r \<Rightarrow> event_draft option) \<Rightarrow> workflow_state \<Rightarrow> 'r \<Rightarrow> reduction" where
  "deliver draft s r =
     (case draft (observe s) r of Some e \<Rightarrow> workflow_step s e | None \<Rightarrow> Inr s)"

definition recorded_event :: "workflow_decision \<Rightarrow> event_draft option" where
  "recorded_event d = (case d of Recorded _ e _ \<Rightarrow> Some e | _ \<Rightarrow> None)"

lemma recorded_event_Some: "recorded_event d = Some e \<longleftrightarrow> (\<exists>tr why. d = Recorded tr e why)"
  by (cases d) (auto simp: recorded_event_def)

lemma observe_Present: "observe s = Present t \<longleftrightarrow> t = s \<and> st_revision s \<noteq> 0"
  by (auto simp: observe_def)

lemma observe_Absent: "observe s = Absent ops \<longleftrightarrow> ops = st_operations s \<and> st_revision s = 0"
  by (auto simp: observe_def)

lemmas observed = observe_Present observe_Absent

lemma observe_after:
  assumes "workflow_inv s" "sequenced s e" "workflow_step s e = Inr t"
  shows "observe t = Present t"
proof -
  from assms(1) have "0 \<le> st_revision s" by (simp add: workflow_inv_defs)
  moreover have "st_revision t = st_revision s + 1"
    using workflow_step_stamped [OF assms(3,1)] assms(2) by (simp add: sequenced_def)
  ultimately show ?thesis by (simp add: observe_def)
qed

text \<open>
  The contract of code that drafts events: a draft is in sequence, accepted by the
  reducer and recorded under a new operation; a repeated request drafts nothing.
\<close>

locale run_drafter =
  fixes draft :: "workflow_observation \<Rightarrow> 'r \<Rightarrow> event_draft option"
    and repeatable :: "'r \<Rightarrow> bool"
  assumes drafted: "workflow_inv s \<Longrightarrow> draft (observe s) r = Some e \<Longrightarrow>
      sequenced s e \<and> is_ok (workflow_step s e) \<and> ev_operation e \<notin> set (st_operations s)"
    and redrafted: "repeatable r \<Longrightarrow> workflow_inv s \<Longrightarrow> draft (observe s) r = Some e \<Longrightarrow>
      workflow_step s e = Inr t \<Longrightarrow> draft (Present t) r = None"
begin

lemma drafted_step:
  assumes inv: "workflow_inv s" and d: "draft (observe s) r = Some e"
  obtains t where "workflow_step s e = Inr t" "workflow_inv t" "observe t = Present t"
    "st_operations t = st_operations s @ [ev_operation e]" "st_revision t = st_revision s + 1"
proof -
  from drafted [OF assms] obtain t where seq: "sequenced s e" and t: "workflow_step s e = Inr t"
    by (auto simp: is_ok_iff)
  have "workflow_inv t" by (rule run.step_inv [OF inv seq t])
  then show thesis
    using that [OF t] observe_after [OF inv seq t] workflow_step_stamped [OF t inv] seq
    by (simp add: sequenced_def)
qed

lemma deliver_ok:
  assumes "workflow_inv s"
  shows "\<exists>t. deliver draft s r = Inr t \<and> workflow_inv t"
proof (cases "draft (observe s) r")
  case (Some e)
  then show ?thesis using drafted_step [OF assms Some] by (auto simp: deliver_def)
qed (use assms in \<open>auto simp: deliver_def\<close>)

lemma deliver_distinct:
  assumes "workflow_inv s" "distinct (st_operations s)" "deliver draft s r = Inr t"
  shows "distinct (st_operations t)"
proof (cases "draft (observe s) r")
  case (Some e)
  obtain u where "workflow_step s e = Inr u" "st_operations u = st_operations s @ [ev_operation e]"
    using drafted_step [OF assms(1) Some] by blast
  with assms(2,3) Some drafted [OF assms(1) Some] show ?thesis
    by (simp add: deliver_def)
qed (use assms in \<open>auto simp: deliver_def\<close>)

lemma deliver_idempotent:
  assumes "workflow_inv s" "repeatable r" "deliver draft s r = Inr t"
  shows "deliver draft t r = Inr t"
proof (cases "draft (observe s) r")
  case (Some e)
  then obtain u where u: "workflow_step s e = Inr u" "observe u = Present u"
    using drafted_step [OF assms(1) Some] by blast
  with assms(3) Some have "t = u" by (simp add: deliver_def)
  with u redrafted [OF assms(2,1) Some] show ?thesis by (simp add: deliver_def)
qed (use assms in \<open>auto simp: deliver_def\<close>)

end

text \<open>A decision function gives a drafter: its recorded events are the drafts.\<close>

locale run_decider =
  fixes decide :: "workflow_observation \<Rightarrow> 'r \<Rightarrow> workflow_decision"
    and repeatable :: "'r \<Rightarrow> bool"
  assumes recorded: "workflow_inv s \<Longrightarrow> decide (observe s) r = Recorded tr e why \<Longrightarrow>
      sequenced s e \<and> is_ok (workflow_step s e) \<and> ev_operation e \<notin> set (st_operations s)"
    and redelivered: "repeatable r \<Longrightarrow> workflow_inv s \<Longrightarrow> decide (observe s) r = Recorded tr e why \<Longrightarrow>
      workflow_step s e = Inr t \<Longrightarrow> decide (Present t) r = Unchanged Duplicate"

sublocale run_decider \<subseteq> drafter: run_drafter "\<lambda>obs r. recorded_event (decide obs r)" repeatable
proof (unfold_locales, goal_cases)
  case (1 s r e)
  then show ?case using recorded by (auto simp: recorded_event_Some)
next
  case (2 r s e t)
  then have "decide (Present t) r = Unchanged Duplicate" using redelivered by (auto simp: recorded_event_Some)
  then show ?case by (simp add: recorded_event_def)
qed

section \<open>The four decision functions\<close>

lemma start_input_sel [simp]:
  "in_operation (start_input r n) = operationId Start_family (sq_correlationId r)"
  "in_revision (start_input r n) = n"
  by (simp_all add: start_input_def)

lemma continue_input_sel [simp]:
  "in_operation (continue_input r s) = operationId Continue_family (cq_correlationId r)"
  "in_revision (continue_input r s) = st_revision s"
  by (simp_all add: continue_input_def)

lemma upgrade_event_sel [simp]:
  "ev_operation (policyUpgradeEvent i l) = in_operation i"
  "ev_priorRevision (policyUpgradeEvent i l) = in_revision i"
  "ev_resultingRevision (policyUpgradeEvent i l) = in_revision i + 1"
  "ev_reasonCode (policyUpgradeEvent i l) = ''run.policy_upgraded''"
  by (simp_all add: policyUpgradeEvent_def WORKFLOW_POLICY_UPGRADE_FACT_def)

lemma restart_event_sel [simp]:
  "ev_operation (restart_event r start) = restart_operation (sq_correlationId r)"
  "ev_priorRevision (restart_event r start) = 0" "ev_resultingRevision (restart_event r start) = 1"
  "ev_reasonCode (restart_event r start) = ''run.started_from_spec''"
  by (simp_all add: restart_event_def)

lemma resolution_event_sel [simp]:
  "ev_operation (resolution_event s r stop) = resolve_operation (rq_correlationId r)"
  "ev_priorRevision (resolution_event s r stop) = st_revision s"
  "ev_resultingRevision (resolution_event s r stop) = st_revision s + 1"
  "ev_reasonCode (resolution_event s r stop) = ''run.repair_stop.resolved''"
  by (simp_all add: resolution_event_def)

lemma fact_event_sel [simp]:
  "ev_operation (fact_event s r) = operationId (Fact_family (fq_operation r)) (fq_correlationId r)"
  "ev_priorRevision (fact_event s r) = st_revision s"
  "ev_resultingRevision (fact_event s r) = st_revision s + 1"
  "ev_reasonCode (fact_event s r) = FACT_EVENT_REASONS (fq_operation r)"
  by (simp_all add: fact_event_def Let_def WORKFLOW_OPERATION_FACTS_def)

lemma start_prefix: "starts_with ''sdd.start:'' (operationId Start_family corr)"
  by (simp add: operationId_def)

lemma seed_operations: "workflow_inv s \<Longrightarrow> st_revision s = 0 \<Longrightarrow> st_operations s = []"
  by (simp add: workflow_inv_defs)

lemma moving_ok:
  assumes "transition_applies s tr" "in_revision i = st_revision s"
    "if tr = Started then l \<noteq> None else st_acceptanceAttemptCeiling s \<noteq> None"
  shows "is_ok (workflow_step s (workflow_event i tr arts evs a x l gs))"
  using moving_step [OF assms] by (fastforce simp: is_ok_iff)

lemma start_recorded:
  assumes inv: "workflow_inv s" and d: "decideStartWorkflow (observe s) r = Recorded tr e why"
  shows "sequenced s e \<and> is_ok (workflow_step s e) \<and> ev_operation e \<notin> set (st_operations s)"
  using d
proof (cases rule: decideStartE)
  case (fresh ops)
  then show ?thesis
    by (auto simp: observed sequenced_def intro!: moving_ok)
next
  case (respec ops start)
  then show ?thesis using restart_step [of s start r] seed_operations [OF inv]
    by (auto simp: observed sequenced_def is_ok_iff)
next
  case (upgrade u)
  then show ?thesis using upgrade_step [OF inv, of "start_input r (st_revision s)"] start_prefix
    by (auto simp: observed sequenced_def is_ok_iff)
next
  case (resume u)
  then show ?thesis by (auto simp: observed sequenced_def intro!: moving_ok)
qed

lemma start_duplicate:
  assumes "validStartRequest r" "sq_objectiveActive r" "sq_worktreeClean r"
    "operationId Start_family (sq_correlationId r) \<in> set (st_operations t)"
  shows "decideStartWorkflow (Present t) r = Unchanged Duplicate"
  using assms by (simp add: decideStartWorkflow_def)

lemma start_recorded_request:
  "decideStartWorkflow obs r = Recorded tr e why \<Longrightarrow> validStartRequest r \<and> sq_objectiveActive r \<and> sq_worktreeClean r"
  by (auto simp: decideStartWorkflow_def split: if_splits)

lemma start_operation:
  assumes "decideStartWorkflow obs r = Recorded tr e why" "sq_startFromSpec r = None"
  shows "ev_operation e = operationId Start_family (sq_correlationId r)"
  using assms by (elim decideStartE) auto

interpretation start: run_decider decideStartWorkflow "\<lambda>r. sq_startFromSpec r = None"
proof (unfold_locales, goal_cases)
  case (1 s r tr e why)
  then show ?case by (rule start_recorded)
next
  case (2 r s tr e why t)
  then show ?case
    using start_recorded_request [OF 2(3)] start_operation [OF 2(3,1)] workflow_step_stamped [OF 2(4,2)]
    by (intro start_duplicate) auto
qed

lemma continue_recorded:
  assumes inv: "workflow_inv s" and d: "decideContinueWorkflow (observe s) r = Recorded tr e why"
  shows "sequenced s e \<and> is_ok (workflow_step s e) \<and> ev_operation e \<notin> set (st_operations s)"
  using d
proof (cases rule: decideContinueE)
  case (1 u mt arts evs a x)
  then have u: "u = s" "st_revision s \<noteq> 0" by (simp_all add: observed)
  have "transition_applies s mt"
    using 1 u open_run_phase [OF inv] by (cases mt) auto
  then have "is_ok (workflow_step s e)"
    using 1(7,8) u unfolding 1(15) by (intro moving_ok) auto
  with 1(4,15) u show ?thesis by (simp add: sequenced_def)
qed

interpretation cont: run_decider decideContinueWorkflow "\<lambda>_. True"
proof (unfold_locales, goal_cases)
  case (1 s r tr e why)
  then show ?case by (rule continue_recorded)
next
  case (2 r s tr e why t)
  from 2(3) obtain u where "validContinueRequest r" "observe s = Present u"
      "ev_operation e = operationId Continue_family (cq_correlationId r)"
      "st_feature u = cq_feature r" "st_runId u = cq_runId r"
    by (elim decideContinueE) (use 2(3) in \<open>auto simp: decideContinueWorkflow_def
      decide_continue_present_def Let_def split: if_splits\<close>)
  then show ?case
    using workflow_step_stamped [OF 2(4,2)] workflow_step_identity [OF 2(4)]
    by (simp add: decideContinueWorkflow_def decide_continue_present_def Let_def observed)
qed

lemma resolve_recorded:
  assumes inv: "workflow_inv s" and d: "decideResolveRepairStop (observe s) r = Recorded tr e why"
  shows "sequenced s e \<and> is_ok (workflow_step s e) \<and> ev_operation e \<notin> set (st_operations s)"
  using d
proof (cases rule: decideResolveE)
  case (1 u stop)
  then have u: "u = s" by (simp add: observed)
  have "st_acceptanceAttemptCeiling s \<noteq> None"
    using inv 1(8) by (auto simp: u workflow_inv_defs find_Some_iff)
  with 1 u resolution_step [of s r stop] show ?thesis by (auto simp: sequenced_def is_ok_iff)
qed

lemma fact_recorded:
  assumes inv: "workflow_inv s" and d: "decideRecordFact (observe s) r = Recorded tr e why"
  shows "sequenced s e \<and> is_ok (workflow_step s e) \<and> ev_operation e \<notin> set (st_operations s)"
  using d
proof (cases rule: decideFactE)
  case (1 u)
  then have u: "u = s" "st_revision s \<noteq> 0" by (simp_all add: observed)
  with 1 fact_step [of s r] open_run_phase [OF inv] show ?thesis
    by (auto simp: sequenced_def is_ok_iff elim!: FACT_EVENT_REASONS.elims)
qed

interpretation fact: run_decider decideRecordFact "\<lambda>_. True"
proof (unfold_locales, goal_cases)
  case (1 s r tr e why)
  then show ?case by (rule fact_recorded)
next
  case (2 r s tr e why t)
  from 2(3) obtain u where "valid_fact_request r" "observe s = Present u"
      "ev_operation e = operationId (Fact_family (fq_operation r)) (fq_correlationId r)"
      "st_feature u = fq_feature r" "st_runId u = fq_runId r"
    by (elim decideFactE) (use 2(3) in \<open>auto simp: decideRecordFact_def
      decide_fact_present_def Let_def split: if_splits\<close>)
  then show ?case
    using workflow_step_stamped [OF 2(4,2)] workflow_step_identity [OF 2(4)]
    by (simp add: decideRecordFact_def decide_fact_present_def Let_def observed)
qed

lemma find_append_fresh:
  "(\<And>x. x \<in> set xs \<Longrightarrow> \<not> P x) \<Longrightarrow> P y \<Longrightarrow> List.find P (xs @ [y]) = Some y"
  by (induction xs) auto

text \<open>A resolution step appends what was decided to the resolutions of the run.\<close>

lemma resolution_appends:
  assumes inv: "workflow_inv s" and fresh: "resolve_operation (rq_correlationId r) \<notin> set (st_operations s)"
    and step: "workflow_step s (resolution_event s r stop) = Inr t"
  shows "List.find (\<lambda>x. rc_operation x = resolve_operation (rq_correlationId r)) (st_repairResolutions t) =
    Some (repair_resolution.extend (repair_resolution.truncate (the (ev_repairResolution (resolution_event s r stop))))
      \<lparr> rc_operation = resolve_operation (rq_correlationId r) \<rparr>)"
proof -
  let ?e = "resolution_event s r stop"
  have red: "reduce_resolution s ?e = Inr t"
    using step by (auto simp: current_step resolution_event_def reduceWorkflow_def split: if_splits)
  then have "st_repairResolutions t = st_repairResolutions s @
      [repair_resolution.extend (repair_resolution.truncate (the (ev_repairResolution ?e)))
        \<lparr> rc_operation = ev_operation ?e \<rparr>]"
    by (elim reduce_resolutionE) auto
  moreover have "rc_operation x \<noteq> resolve_operation (rq_correlationId r)"
    if "x \<in> set (st_repairResolutions s)" for x
  proof -
    from inv that have "rc_operation x \<in> set (st_operations s)" by (auto simp: workflow_inv_defs)
    with fresh show ?thesis by auto
  qed
  ultimately show ?thesis by (simp add: find_append_fresh)
qed

interpretation resolve: run_decider decideResolveRepairStop "\<lambda>_. True"
proof (unfold_locales, goal_cases)
  case (1 s r tr e why)
  then show ?case by (rule resolve_recorded)
next
  case (2 r s tr e why t)
  from 2(3) show ?case
  proof (cases rule: decideResolveE)
    case (1 u stop)
    then have u: "u = s" by (simp add: observed)
    have match: "st_feature s = rq_feature r" "st_runId s = rq_runId r"
      using 2(3) 1(1) u by (auto simp: decideResolveRepairStop_def decide_resolve_present_def Let_def
          split: if_splits)
    have dup: "resolve_operation (rq_correlationId r) \<in> set (st_operations t)"
      using workflow_step_stamped [OF 2(4,2)] 1(11) by simp
    note find = resolution_appends [of s r stop t, OF 2(2)]
    have "same_resolution (repair_resolution.extend (repair_resolution.truncate
        (the (ev_repairResolution (resolution_event s r stop))))
        \<lparr> rc_operation = resolve_operation (rq_correlationId r) \<rparr>) r"
      using 1(10) by (cases "rs_classification stop")
        (auto simp: same_resolution_def resolution_event_def restart_fields_ok_def)
    with 1(3,4,11) u match dup find 2(4) workflow_step_identity [OF 2(4)] show ?thesis
      by (simp add: decideResolveRepairStop_def decide_resolve_present_def Let_def)
  qed
qed

section \<open>A run that receives requests of every kind\<close>

datatype run_request =
    Start_request start_request
  | Continue_request continue_request
  | Resolve_request resolve_request
  | Fact_request fact_request
  | Acceptance_request acceptance_request

fun draft_request ::
  "(repair_loop_stop \<Rightarrow> string) \<Rightarrow> workflow_observation \<Rightarrow> run_request \<Rightarrow> event_draft option" where
  "draft_request digest observation (Start_request r) = recorded_event (decideStartWorkflow observation r)"
| "draft_request digest observation (Continue_request r) = recorded_event (decideContinueWorkflow observation r)"
| "draft_request digest observation (Resolve_request r) = recorded_event (decideResolveRepairStop observation r)"
| "draft_request digest observation (Fact_request r) = recorded_event (decideRecordFact observation r)"
| "draft_request digest observation (Acceptance_request r) = draftAcceptance digest observation r"

fun repeatable_request :: "run_request \<Rightarrow> bool" where
  "repeatable_request (Start_request r) = (sq_startFromSpec r = None)"
| "repeatable_request r = True"

lemma draftAcceptance_observe:
  "draftAcceptance digest (observe s) r = Some e \<Longrightarrow> draftAcceptance digest (Present s) r = Some e \<and> st_revision s \<noteq> 0"
  by (auto simp: observe_def draftAcceptance_def split: if_splits)

interpretation acceptance: run_drafter "draftAcceptance digest" "\<lambda>_. True"
  for digest :: "repair_loop_stop \<Rightarrow> string"
proof (unfold_locales, goal_cases)
  case (1 s r e)
  from draftAcceptance_observe [OF 1(2)] have d: "draftAcceptance digest (Present s) r = Some e" "st_revision s \<noteq> 0"
    by simp_all
  then have "ev_priorRevision e = st_revision s" by (auto elim!: draftAcceptanceE)
  with acceptance_recorded [OF 1(1) d(1)] d(2) show ?case by (simp add: sequenced_def)
next
  case (2 r s e t)
  from draftAcceptance_observe [OF 2(3)] have d: "draftAcceptance digest (Present s) r = Some e" by simp
  have "acceptance_operation (aq_correlationId r) \<in> set (st_operations t)"
    using acceptance_recorded(1) [OF 2(2) d] workflow_step_stamped [OF 2(4,2)] by simp
  then show ?case by (simp add: draftAcceptance_def)
qed

interpretation any: run_drafter "draft_request digest" repeatable_request
  for digest :: "repair_loop_stop \<Rightarrow> string"
proof (unfold_locales, goal_cases)
  case (1 s r e)
  then show ?case
    using start.drafter.drafted cont.drafter.drafted resolve.drafter.drafted fact.drafter.drafted acceptance.drafted
    by (cases r) auto
next
  case (2 r s e t)
  then show ?case
    using start.drafter.redrafted cont.drafter.redrafted resolve.drafter.redrafted fact.drafter.redrafted
      acceptance.redrafted
    by (cases r) auto
qed

definition delivered_inv :: "workflow_state \<Rightarrow> bool" where
  "delivered_inv s \<longleftrightarrow> workflow_inv s \<and> distinct (st_operations s)"

interpretation deliveries: event_reducer "deliver (draft_request digest)" "\<lambda>_ _. True" delivered_inv
  for digest :: "repair_loop_stop \<Rightarrow> string"
proof (unfold_locales, goal_cases)
  case (1 s r t)
  then show ?case
    using any.deliver_ok [of s digest r] any.deliver_distinct [of s digest r t] by (auto simp: delivered_inv_def)
qed

lemma delivered_ok:
  "delivered_inv s \<Longrightarrow> \<exists>t. replay_from (deliver (draft_request digest)) s rs = Inr t \<and> delivered_inv t"
proof (induction rs arbitrary: s)
  case (Cons r rs)
  then obtain t where "deliver (draft_request digest) s r = Inr t" "delivered_inv t"
    using any.deliver_ok [of s digest r] deliveries.step_inv [of s digest r] by (auto simp: delivered_inv_def)
  with Cons.IH show ?case by simp
qed simp

end
