(* ===== verification/Workflow_Properties.thy ===== *)
theory Workflow_Properties
  imports Workflow_Delivery Js_Order
begin

text \<open>
  The properties of runs that receive requests of every kind, with a sample run on which
  they are instantiated.
\<close>

section \<open>A sample run\<close>

definition sample_digest :: string where
  "sample_digest = replicate 64 (CHR ''a'')"

definition sample_identity :: workflow_identity where
  "sample_identity = \<lparr> wi_host = ''codex'', wi_model = None \<rparr>"

definition sample_lineage :: lineage where
  "sample_lineage = \<lparr> ln_prdDigest = sample_digest, ln_specDigest = sample_digest \<rparr>"

definition sample_seed :: workflow_state where
  "sample_seed = workflowSeed \<lparr> co_projectId = ''p1'', co_feature = ''login'', co_runId = ''r1'',
     co_lineage = sample_lineage \<rparr>"

definition sample_start :: start_request where
  "sample_start =
     \<lparr> sq_projectId = ''p1'', sq_feature = ''login'', sq_runId = ''r1'', sq_correlationId = ''c1'',
       sq_eventId = ''e1'', sq_occurredAt = ''2026-01-01T00:00:00.000Z'', sq_lineage = sample_lineage,
       sq_objectiveActive = True, sq_worktreeClean = True, sq_observedIdentity = sample_identity,
       sq_acceptanceAttemptCeiling = Some 2, sq_tokenCeiling = None, sq_startFromSpec = None \<rparr>"

definition sample_restart :: start_request where
  "sample_restart = sample_start\<lparr> sq_startFromSpec := Some
     \<lparr> sf_sourceRunId = ''r0'', sf_restartTicketRef = ''.brain/tickets/t1.json'',
       sf_restartTicketDigest = sample_digest, sf_retiredCriterionIds = [''AC-1.1.1''] \<rparr> \<rparr>"

definition sample_continue :: "int \<Rightarrow> string \<Rightarrow> run_phase \<Rightarrow> continue_request" where
  "sample_continue revision correlation phase =
     \<lparr> cq_feature = ''login'', cq_runId = ''r1'', cq_correlationId = correlation, cq_eventId = ''e2'',
       cq_occurredAt = ''2026-01-01T00:01:00.000Z'', cq_expectedRevision = revision,
       cq_observedIdentity = sample_identity,
       cq_resolvedAssignment = Some \<lparr> as_phase = phase, as_role = PHASE_MODEL_ROLE phase,
         as_model = ''m'', as_effort = ''high'' \<rparr>,
       cq_phaseExecution = Some \<lparr> px_assignmentDigest = sample_digest, px_model = Some ''m'',
         px_effort = None, px_provenance = Host_reported \<rparr>,
       cq_gateDecision = None,
       cq_action = Complete_phase \<lparr> ca_artifactRefs = [''a.md''], ca_evidenceRefs = [''e.json''],
         ca_rejectionReasons = None, ca_gateFailures = None, ca_allowFinalCompletion = True \<rparr> \<rparr>"

definition sample_started :: workflow_state where
  "sample_started = sample_seed
     \<lparr> st_status := Active, st_currentStep := Some Prd, st_revision := 1,
       st_createdAt := Some ''2026-01-01T00:00:00.000Z'', st_updatedAt := Some ''2026-01-01T00:00:00.000Z'',
       st_operations := [''sdd.start:c1''], st_policyVersion := Some WORKFLOW_POLICY_VERSION,
       st_acceptanceAttemptCeiling := Some 2 \<rparr>"

lemma sample_started: "deliver (draft_request digest) sample_seed (Start_request sample_start) = Inr sample_started"
  by code_simp

lemma sample_seed_inv: "workflow_inv sample_seed"
  by (simp add: sample_seed_def workflow_inv_seed)

lemma sample_started_inv: "workflow_inv sample_started"
  using any.deliver_ok [OF sample_seed_inv, of _ "Start_request sample_start"]
  by (simp add: sample_started)

section \<open>Recorded events meet the semantic policy\<close>

text \<open>What the composition layer supplies with a request: roles from the phase table and gate failures the policy accepts.\<close>

fun request_consistent :: "run_request \<Rightarrow> bool" where
  "request_consistent (Continue_request r) \<longleftrightarrow> role_matches (cq_resolvedAssignment r) \<and>
     gate_failures_consistent (operationId Continue_family (cq_correlationId r)) (gv_failures (gate_verdict_of r))"
| "request_consistent (Fact_request r) \<longleftrightarrow> role_matches (fq_resolvedAssignment r)"
| "request_consistent (Acceptance_request r) \<longleftrightarrow> id_test (aq_correlationId r)"
| "request_consistent _ \<longleftrightarrow> True"

lemmas event_blocks = hasRunLimits_def hasAcceptanceDecision_def hasRepairResolution_def
  hasStartedFromSpec_def workflow_contract_def current_contract_def WORKFLOW_POLICY_VERSION_def

lemma upgrade_semantics:
  assumes "in_operation i = operationId Start_family corr" "id_test corr"
  shows "assertEventSemanticPolicy (policyUpgradeEvent i l)"
proof -
  let ?e = "policyUpgradeEvent i l"
  have "assertEventSemanticPolicy ?e = workflow_branch_ok ?e"
    using assms by (intro operationId_semantics) (auto simp: policyUpgradeEvent_def)
  then show ?thesis using workflowOperation_operationId [OF assms(2), of Start_family] assms(1)
    by (auto simp: workflow_branch_ok_def policyUpgradeEvent_def event_blocks matchesPolicy_def
        WORKFLOW_POLICY_UPGRADE_FACT_def)
qed

lemma restart_semantics:
  "id_test (sq_correlationId r) \<Longrightarrow> assertEventSemanticPolicy (restart_event r start)"
  by (simp add: assertEventSemanticPolicy_def restart_event_def restart_branch_ok_def event_blocks)

lemma resolution_semantics:
  "id_test (rq_correlationId r) \<Longrightarrow> restart_fields_ok (rs_classification stop = Specification_fault) r \<Longrightarrow>
     assertEventSemanticPolicy (resolution_event s r stop)"
  by (auto simp: assertEventSemanticPolicy_def resolution_event_def resolution_branch_ok_def event_blocks
      restart_fields_ok_def Let_def split: option.splits)

lemma fact_semantics:
  assumes "id_test (fq_correlationId r)" "(fq_operation r = Agent_record) = (fq_resolvedAssignment r \<noteq> None)"
    "role_matches (fq_resolvedAssignment r)"
  shows "assertEventSemanticPolicy (fact_event s r)"
proof -
  let ?e = "fact_event s r"
  have "assertEventSemanticPolicy ?e = workflow_branch_ok ?e"
    using assms by (intro operationId_semantics) (auto simp: fact_event_def Let_def role_matches_def)
  moreover have "FACT_EVENT_REASONS (fq_operation r) \<notin> {''run.started'', ''run.policy_upgraded''}"
    by (cases "fq_operation r") simp_all
  ultimately show ?thesis
    using workflowOperation_operationId [OF assms(1), of "Fact_family (fq_operation r)"] assms(2)
    by (auto simp: workflow_branch_ok_def event_blocks matchesPolicy_def fact_event_def Let_def
        WORKFLOW_OPERATION_FACTS_def)
qed

lemma drafted_semantics:
  assumes inv: "workflow_inv s" and draft: "draft_request digest (observe s) r = Some e"
    and consistent: "request_consistent r"
  shows "assertEventSemanticPolicy e"
proof (cases r)
  case (Start_request q)
  with draft obtain tr why where d: "decideStartWorkflow (observe s) q = Recorded tr e why"
    by (auto simp: recorded_event_Some)
  then have v: "id_test (sq_correlationId q)"
    using start_recorded_request [OF d] by (simp add: validStartRequest_def)
  from d show ?thesis
    by (cases rule: decideStartE)
      (auto intro!: restart_semantics [OF v] upgrade_semantics [OF _ v] moving_semantics [OF _ v] simp: role_matches_def)
next
  case (Continue_request q)
  with draft obtain tr why where "decideContinueWorkflow (observe s) q = Recorded tr e why"
    by (auto simp: recorded_event_Some)
  then show ?thesis
  proof (cases rule: decideContinueE)
    case (1 u mt arts evs a x)
    have v: "id_test (cq_correlationId q)" using 1(3) by (simp add: validContinueRequest_def)
    have "mt \<in> {Resumed, Accepted, Rejected_transition, Completed}" using 1(8) by (cases mt) auto
    moreover have "(a \<noteq> None) = (mt \<in> {Accepted, Completed})" using 1(12,13) by auto
    ultimately show ?thesis
      using consistent Continue_request 1(12) unfolding 1(15)
      by (intro moving_semantics [OF _ v, of _ Continue_family]) (auto simp: role_matches_def)
  qed
next
  case (Resolve_request q)
  with draft obtain tr why where "decideResolveRepairStop (observe s) q = Recorded tr e why"
    by (auto simp: recorded_event_Some)
  then show ?thesis
    by (elim decideResolveE) (auto intro!: resolution_semantics simp: valid_resolve_request_def)
next
  case (Fact_request q)
  with draft obtain tr why where "decideRecordFact (observe s) q = Recorded tr e why"
    by (auto simp: recorded_event_Some)
  with consistent Fact_request show ?thesis
    by (elim decideFactE) (auto intro!: fact_semantics simp: valid_fact_request_def)
next
  case (Acceptance_request q)
  with draft draftAcceptance_observe [of digest s q e] have "draftAcceptance digest (Present s) q = Some e" by simp
  with consistent Acceptance_request show ?thesis by (intro acceptance_recorded_semantics [OF inv]) simp_all
qed

section \<open>Which events the policy admits\<close>

text \<open>
  How the commands fill a request in: the gate decision is the evaluation of the observed
  context, and an assignment is the one \<open>resolvePhaseAssignmentDetailed\<close> builds for a phase.
\<close>

definition roleForPhase :: "run_phase \<Rightarrow> model_role" where
  "roleForPhase phase = PHASE_MODEL_ROLE phase"

definition resolvedPhaseAssignment :: "run_phase \<Rightarrow> string \<Rightarrow> string \<Rightarrow> assignment" where
  "resolvedPhaseAssignment phase model effort =
     \<lparr> as_phase = phase, as_role = roleForPhase phase, as_model = model, as_effort = effort \<rparr>"

definition resolved_or_absent :: "assignment option \<Rightarrow> bool" where
  "resolved_or_absent a =
     (case a of None \<Rightarrow> True | Some x \<Rightarrow> x = resolvedPhaseAssignment (as_phase x) (as_model x) (as_effort x))"

fun composed_request :: "gate_context \<Rightarrow> run_request \<Rightarrow> bool" where
  "composed_request c (Continue_request q) \<longleftrightarrow>
     cq_gateDecision q = Some \<lparr> gv_outcome = gd_outcome (evaluateGates c), gv_failures = gd_failures (evaluateGates c) \<rparr> \<and>
     resolved_or_absent (cq_resolvedAssignment q)"
| "composed_request c (Fact_request q) \<longleftrightarrow> resolved_or_absent (fq_resolvedAssignment q)"
| "composed_request c _ \<longleftrightarrow> True"

text \<open>The causes for which the stop-loss gate fails in a context.\<close>

definition stop_loss_causes :: "gate_context \<Rightarrow> nat" where
  "stop_loss_causes c =
     length (case gc_stopLoss_repeatedRejections c of None \<Rightarrow> [] | Some stops \<Rightarrow> stops) +
     (if gc_stopLoss_exhausted c then 1 else 0) + (if gc_stopLoss_tripped c then 1 else 0)"

fun recordable_request :: "gate_context \<Rightarrow> run_request \<Rightarrow> bool" where
  "recordable_request c (Continue_request q) \<longleftrightarrow> stop_loss_causes c \<le> 1"
| "recordable_request c (Acceptance_request q) \<longleftrightarrow> id_test (aq_correlationId q)"
| "recordable_request c _ \<longleftrightarrow> True"

text \<open>The gates of the failures of a context: each at most once, stop-loss once per cause.\<close>

definition gate_if :: "bool \<Rightarrow> gate_id \<Rightarrow> gate_id list" where
  "gate_if b g = (if b then [g] else [])"

lemma gate_if_simps [simp]: "set (gate_if b g) = {x. b \<and> x = g}" "distinct (gate_if b g)"
  by (auto simp: gate_if_def)

lemma gate_if_failures:
  "map gf_gateId (if b then [failure g r c x y] else []) = gate_if b g"
  "map gf_gateId (prd_failures c) = gate_if (gc_prdDocument c \<noteq> Prd_complete) Prd_present"
  "map gf_gateId (case List.find P ks of None \<Rightarrow> [] | Some k \<Rightarrow> if b then [failure g r c x (d k)] else []) =
     gate_if (b \<and> List.find P ks \<noteq> None) g"
  by (simp_all add: gate_if_def prd_failures_def split: prd_document.split option.split)

lemma stop_loss_gates:
  "map gf_gateId (repeated_rejection_failures c) @ gate_if (gc_stopLoss_exhausted c) Stop_loss @
     gate_if (gc_stopLoss_tripped c) Stop_loss = replicate (stop_loss_causes c) Stop_loss"
  by (simp add: repeated_rejection_failures_def stop_loss_causes_def comp_def map_replicate_const replicate_add gate_if_def)

lemma distinct_replicate_iff: "distinct (replicate n x) \<longleftrightarrow> n \<le> 1"
  by (cases n) (auto simp: less_Suc_eq_le)

lemma failing_gates_distinct: "distinct (map gf_gateId (gate_failures c)) \<longleftrightarrow> stop_loss_causes c \<le> 1"
proof -
  let ?before = "gate_if (\<not> gc_contextReadable c) Context_readable"
  obtain z where gates: "map gf_gateId (gate_failures c) = ?before @ (map gf_gateId (repeated_rejection_failures c) @
      gate_if (gc_stopLoss_exhausted c) Stop_loss @ gate_if (gc_stopLoss_tripped c) Stop_loss) @ z"
    and others: "distinct (?before @ z)" "Stop_loss \<notin> set (?before @ z)"
  proof
    show "map gf_gateId (gate_failures c) = ?before @ (map gf_gateId (repeated_rejection_failures c) @
        gate_if (gc_stopLoss_exhausted c) Stop_loss @ gate_if (gc_stopLoss_tripped c) Stop_loss) @
        gate_if (gc_prdDocument c \<noteq> Prd_complete) Prd_present @
        gate_if (gc_phase c \<in> {Plan, Code, Review, Acceptance} \<and> \<not> approved (gc_approvals c) ''spec'' c) Spec_approved @
        gate_if (gc_openGaps c > 0) Gaps_closed @
        gate_if (gc_partitionRequired c \<and> \<not> gc_partitionApproved c) Partition_approved @
        gate_if (gc_phase c = Acceptance \<and> List.find criterion_incomplete (context_criteria c) \<noteq> None) Acceptance_criteria @
        gate_if (gc_phase c = Acceptance \<and> \<not> gc_finalAcceptance c) Final_acceptance"
      by (simp only: gate_failures_def map_append gate_if_failures append_assoc)
  qed auto
  have "distinct (?before @ replicate n Stop_loss @ z) \<longleftrightarrow> n \<le> 1" for n
    using others by (auto simp: distinct_replicate_iff)
  then show ?thesis unfolding gates stop_loss_gates .
qed

lemma evaluated_consistent:
  "gate_failures_consistent operation (gd_failures (evaluateGates c)) \<longleftrightarrow>
     stop_loss_causes c \<le> 1 \<and> (starts_with ''sdd.continue:'' operation \<or> gate_failures c = [])"
proof -
  let ?fs = "js_sort compareGateFailures (gate_failures c)"
  have "distinct (map gf_gateId ?fs) \<longleftrightarrow> distinct (map gf_gateId (gate_failures c))"
    by (rule mset_eq_imp_distinct_iff) (simp add: mset_js_sort)
  moreover have "list_all (\<lambda>f. gf_priority f = GATE_PRIORITIES (gf_gateId f) \<and>
      gf_reasonCode f \<in> set (GATE_REASON_CODES (gf_gateId f))) ?fs"
    using gate_failures_well_formed [of _ c] by (auto simp: list_all_iff well_formed_failure_def)
  moreover have "successively (\<lambda>f g. \<not> compareGateFailures f g > 0) ?fs"
    by (rule successively_if_sorted_wrt) (use gf.sorted_sort [of "gate_failures c"] in \<open>simp add: not_less\<close>)
  ultimately show ?thesis by (simp add: gate_failures_consistent_def failing_gates_distinct)
qed

lemma resolved_role: "resolved_or_absent a \<Longrightarrow> role_matches a"
  by (cases a) (auto simp: resolved_or_absent_def role_matches_def resolvedPhaseAssignment_def roleForPhase_def
    dest: arg_cong [where f = as_role])

lemma composed_consistent: "composed_request c r \<Longrightarrow> recordable_request c r \<Longrightarrow> request_consistent r"
  using evaluated_consistent [of "operationId Continue_family (cq_correlationId q)" c for q]
  by (cases r) (auto simp: resolved_role gate_verdict_of_def operationId_def)

lemma acceptance_unnamed:
  assumes "workflow_inv s" "draftAcceptance digest (Present s) r = Some e" "\<not> id_test (aq_correlationId r)"
  shows "\<not> assertEventSemanticPolicy e"
proof -
  have "ev_operation e = acceptance_operation (aq_correlationId r)" "ev_stateContract e = V1_2"
    "ev_gateFailures e = Some []" "ev_resolvedAssignment e = None"
    using assms(2) by (auto elim!: draftAcceptanceE simp: acceptance_event_def)
  with assms(3) show ?thesis
    by (simp add: assertEventSemanticPolicy_def workflow_branch_ok_def workflowOperation_def operation_families_def
      acceptance_operation_def operation_named_def)
qed

lemma repeated_stop_loss_rejected:
  assumes "decideContinueWorkflow obs q = Recorded tr e why" "stop_loss_causes c > 1"
    "cq_gateDecision q = Some \<lparr> gv_outcome = gd_outcome (evaluateGates c), gv_failures = gd_failures (evaluateGates c) \<rparr>"
  shows "\<not> assertEventSemanticPolicy e"
proof -
  from assms(1) have "ev_gateFailures e = Some (gd_failures (evaluateGates c))" "ev_stateContract e = V1_2"
    by (auto elim!: decideContinueE simp: gate_verdict_of_def assms(3))
  with assms(2) evaluated_consistent [of _ c] show ?thesis
    by (auto simp: assertEventSemanticPolicy_def split: option.splits)
qed

lemma unrecordable_rejected:
  assumes "workflow_inv s" "draft_request digest (observe s) r = Some e" "composed_request c r" "\<not> recordable_request c r"
  shows "\<not> assertEventSemanticPolicy e"
proof (cases r)
  case (Continue_request q)
  with assms repeated_stop_loss_rejected [of "observe s" q _ e _ c] show ?thesis
    by (auto simp: recorded_event_Some)
next
  case (Acceptance_request q)
  with assms draftAcceptance_observe [of digest s q e] acceptance_unnamed [of s digest q e] show ?thesis by simp
qed (use assms in simp_all)

definition sample_context :: "bool \<Rightarrow> bool \<Rightarrow> gate_context" where
  "sample_context tripped exhausted =
     \<lparr> gc_gateModes = resolveGateModes Strict (\<lambda>_. None), gc_phase = Prd, gc_contextReadable = True,
       gc_stopLoss_tripped = tripped, gc_stopLoss_exhausted = exhausted, gc_stopLoss_repeatedRejections = None,
       gc_prdDigest = None, gc_prdDocument = Prd_complete, gc_specDigest = None, gc_approvals = [],
       gc_openGaps = 0, gc_partitionRequired = False, gc_partitionApproved = False, gc_finalAcceptance = False,
       gc_acceptanceCriteria = None, gc_languagePolicy = None, gc_languageObservations = None,
       gc_languageMismatch = None \<rparr>"

definition sample_gated :: "bool \<Rightarrow> bool \<Rightarrow> continue_request" where
  "sample_gated tripped exhausted = (let decision = evaluateGates (sample_context tripped exhausted) in
     (sample_continue 1 ''c2'' Prd)\<lparr> cq_gateDecision := Some
       \<lparr> gv_outcome = gd_outcome decision, gv_failures = gd_failures decision \<rparr> \<rparr>)"

section \<open>Held runs\<close>

text \<open>A run is held while a repair stop is active or after it was retired for a specification restart.\<close>

definition held :: "workflow_state \<Rightarrow> bool" where
  "held s \<longleftrightarrow> st_activeRepairStops s \<noteq> [] \<or> st_specificationRestart s \<noteq> None"

lemma held_books: "same_repair_books s t \<Longrightarrow> held t = held s"
  by (simp add: same_repair_books_def held_def)

lemma drafted_held:
  assumes inv: "workflow_inv s" and h: "held s" and d: "draft_request digest (observe s) r = Some e"
  obtains (kept) t where "workflow_step s e = Inr t" "st_currentStep t = st_currentStep s" "same_repair_books s t"
  | (resolved) q where "r = Resolve_request q" "st_specificationRestart s = None"
proof (cases r)
  case (Start_request q)
  with d obtain tr why where "decideStartWorkflow (observe s) q = Recorded tr e why"
    by (auto simp: recorded_event_Some)
  then show thesis
    by (cases rule: decideStartE) (use inv h in \<open>auto simp: observed held_def upgradable_def workflow_inv_defs\<close>)
next
  case (Continue_request q)
  with d obtain tr why where "decideContinueWorkflow (observe s) q = Recorded tr e why"
    by (auto simp: recorded_event_Some)
  then show thesis
  proof (cases rule: decideContinueE)
    case (1 u mt arts evs a x)
    have mt: "mt = Rejected_transition" "u = s" using 1(1,9) h by (auto simp: held_def observed)
    have "transition_applies s mt"
      using mt 1(1,6) open_run_phase [OF inv] by (simp add: observed)
    then have "\<exists>t. workflow_step s e = Inr t \<and> (st_status t, st_currentStep t) = transition_result s mt \<and>
        same_repair_books s t"
      using 1(7) mt unfolding 1(15) by (intro moving_step) auto
    with mt kept show thesis by auto
  qed
next
  case (Resolve_request q)
  with d obtain tr why where "decideResolveRepairStop (observe s) q = Recorded tr e why"
    by (auto simp: recorded_event_Some)
  then show thesis using Resolve_request resolved
    by (cases rule: decideResolveE) (auto simp: observed)
next
  case (Fact_request q)
  with d obtain tr why where "decideRecordFact (observe s) q = Recorded tr e why"
    by (auto simp: recorded_event_Some)
  then show thesis
  proof (cases rule: decideFactE)
    case (1 u)
    then have "u = s" "st_currentStep s \<noteq> None" using open_run_phase [OF inv] by (auto simp: observed)
    with 1 fact_step [of s q] kept show thesis by auto
  qed
next
  case (Acceptance_request q)
  with d draftAcceptance_observe [of digest s q e] have "draftAcceptance digest (Present s) q = Some e" by simp
  from acceptance_recorded(6,7) [OF inv this] h show thesis by (simp add: held_def)
qed

fun is_resolve :: "run_request \<Rightarrow> bool" where
  "is_resolve (Resolve_request _) = True"
| "is_resolve _ = False"

lemma deliver_held:
  assumes "workflow_inv s" "held s" "deliver (draft_request digest) s r = Inr t"
    "\<not> is_resolve r \<or> st_specificationRestart s \<noteq> None"
  shows "workflow_inv t \<and> st_currentStep t = st_currentStep s \<and> same_repair_books s t"
proof -
  have inv: "workflow_inv t" using any.deliver_ok [OF assms(1), of digest r] assms(3) by auto
  show ?thesis
  proof (cases "draft_request digest (observe s) r")
    case (Some e)
    with assms(3) have t: "workflow_step s e = Inr t" by (simp add: deliver_def)
    from assms(1,2) Some show ?thesis
      by (cases rule: drafted_held) (use inv assms(4) t in auto)
  qed (use assms inv in \<open>auto simp: deliver_def same_repair_books_def\<close>)
qed

lemma deliveries_held:
  assumes "workflow_inv s" "held s" "replay_from (deliver (draft_request digest)) s rs = Inr t"
    "\<not> list_ex is_resolve rs \<or> st_specificationRestart s \<noteq> None"
  shows "st_currentStep t = st_currentStep s \<and> same_repair_books s t"
  using assms
proof (induction rs arbitrary: s)
  case Nil
  then show ?case by (simp add: same_repair_books_def)
next
  case (Cons r rs)
  then obtain u where u: "deliver (draft_request digest) s r = Inr u" "replay_from (deliver (draft_request digest)) u rs = Inr t"
    by auto
  with Cons.prems have step: "workflow_inv u \<and> st_currentStep u = st_currentStep s \<and> same_repair_books s u"
    by (intro deliver_held) auto
  then have "held u" using Cons.prems(2) held_books by blast
  moreover have "\<not> list_ex is_resolve rs \<or> st_specificationRestart u \<noteq> None"
    using Cons.prems(4) step by (auto simp: same_repair_books_def)
  ultimately show ?case using Cons.IH [of u] u step by (simp add: same_repair_books_def)
qed

definition sample_stop :: repair_stop where
  "sample_stop = \<lparr> at_criterionId = ''AC-1.1.1'', at_attempt = 2, rs_classification = Code_fault,
     rs_artifactRef = ''.brain/stops/s1.json'', rs_artifactDigest = sample_digest \<rparr>"

definition sample_held :: workflow_state where
  "sample_held = sample_started
     \<lparr> st_status := Blocked, st_currentStep := Some Acceptance, st_attempts := [attempt.truncate sample_stop],
       st_activeRepairStops := [sample_stop], st_repairStopHistory := [sample_stop] \<rparr>"

lemma sample_held_inv: "workflow_inv sample_held"
  by (simp add: sample_held_def sample_started_def sample_seed_def workflowSeed_def workflow_inv_defs
      sample_stop_def attempt.truncate_def)

section \<open>Repeated requests\<close>

lemma deliver_revision:
  assumes "workflow_inv s" "deliver (draft_request digest) s r = Inr t"
  shows "st_revision t \<le> st_revision s + 1"
proof (cases "draft_request digest (observe s) r")
  case (Some e)
  obtain v where "workflow_step s e = Inr v" "st_revision v = st_revision s + 1"
    using any.drafted_step [OF assms(1) Some] by blast
  with Some assms(2) show ?thesis by (simp add: deliver_def)
qed (use assms in \<open>simp add: deliver_def\<close>)

text \<open>A start of a run that has events is recorded under the operation its duplicate test looks for.\<close>

lemma present_start_duplicate:
  assumes "workflow_inv t" "decideStartWorkflow (Present t) q = Recorded tr e why" "workflow_step t e = Inr u"
  shows "decideStartWorkflow (Present u) q = Unchanged Duplicate"
proof (rule start_duplicate)
  have "ev_operation e = operationId Start_family (sq_correlationId q)"
    using assms(2) by (elim decideStartE) simp_all
  then show "operationId Start_family (sq_correlationId q) \<in> set (st_operations u)"
    using workflow_step_stamped [OF assms(3,1)] by simp
qed (use start_recorded_request [OF assms(2)] in simp_all)

lemma start_settles:
  assumes inv: "workflow_inv s" and t: "deliver (draft_request digest) s (Start_request q) = Inr t"
    and u: "deliver (draft_request digest) t (Start_request q) = Inr u"
  shows "deliver (draft_request digest) u (Start_request q) = Inr u"
proof (cases "draft_request digest (observe s) (Start_request q)")
  case None
  with t have "t = s" by (simp add: deliver_def)
  with t u show ?thesis by simp
next
  case (Some e)
  obtain v where "workflow_step s e = Inr v" "workflow_inv v" "observe v = Present v"
    using any.drafted_step [OF inv Some] by blast
  with t Some have t': "workflow_inv t" "observe t = Present t" by (simp_all add: deliver_def)
  show ?thesis
  proof (cases "draft_request digest (observe t) (Start_request q)")
    case None
    with u have "u = t" by (simp add: deliver_def)
    with u show ?thesis by simp
  next
    case (Some f)
    with t' obtain tr why where d: "decideStartWorkflow (Present t) q = Recorded tr f why"
      by (auto simp: recorded_event_Some)
    obtain v where "workflow_step t f = Inr v" "observe v = Present v"
      using any.drafted_step [OF t'(1) Some] by blast
    with u Some have "workflow_step t f = Inr u" "observe u = Present u" by (simp_all add: deliver_def)
    with present_start_duplicate [OF t'(1) d] show ?thesis by (simp add: deliver_def recorded_event_def)
  qed
qed

section \<open>Properties\<close>

text \<open>
  C1: Whatever sequence of start, continue, resolve and fact requests a new run receives,
  every recorded event is accepted by the reducer of its policy version, so replay never
  fails; the resulting run is well formed, no operation is recorded twice, and its
  revision is the number of recorded operations.
\<close>

theorem deliveries_replay:
  "\<exists>t. replay_from (deliver (draft_request digest)) (workflowSeed c) rs = Inr t \<and> workflow_inv t \<and>
     distinct (st_operations t) \<and> int (length (st_operations t)) = st_revision t"
proof -
  have "delivered_inv (workflowSeed c)"
    by (simp add: delivered_inv_def workflow_inv_seed) (simp add: workflowSeed_def)
  then obtain t where "replay_from (deliver (draft_request digest)) (workflowSeed c) rs = Inr t" "delivered_inv t"
    using delivered_ok by blast
  then show ?thesis by (auto simp: delivered_inv_def workflow_inv_defs)
qed

text \<open>
  C27: Repeating a request settles at once: every request can be delivered, a second delivery
  changes nothing, and only a start from a specification may be recorded a second time, as a
  start of the run it produced, after which a third delivery changes nothing either.
\<close>

theorem redelivery_idempotent:
  assumes "workflow_inv s"
  shows "\<exists>t u. deliver (draft_request digest) s r = Inr t \<and> deliver (draft_request digest) t r = Inr u \<and>
    deliver (draft_request digest) u r = Inr u \<and>
    (if (case r of Start_request q \<Rightarrow> sq_startFromSpec q \<noteq> None | _ \<Rightarrow> False) then st_revision u \<le> st_revision s + 2
     else u = t \<and> st_revision u \<le> st_revision s + 1)"
proof -
  obtain t where t: "deliver (draft_request digest) s r = Inr t" "workflow_inv t"
    using any.deliver_ok [OF assms] by blast
  obtain u where u: "deliver (draft_request digest) t r = Inr u"
    using any.deliver_ok [OF t(2)] by blast
  have bounds: "st_revision t \<le> st_revision s + 1" "st_revision u \<le> st_revision t + 1"
    using deliver_revision [OF assms t(1)] deliver_revision [OF t(2) u] by simp_all
  have "deliver (draft_request digest) u r = Inr u \<and> (repeatable_request r \<longrightarrow> u = t)"
  proof (cases "repeatable_request r")
    case True
    from any.deliver_idempotent [OF assms True t(1)] u show ?thesis by simp
  next
    case False
    then obtain q where "r = Start_request q" by (cases r) auto
    with start_settles [of s digest q t u] assms t(1) u False show ?thesis by auto
  qed
  with t u bounds show ?thesis
    by (cases r) auto
qed

theorem redelivery_idempotent_witness:
  "\<exists>t u. deliver (draft_request (\<lambda>_. sample_digest)) sample_seed (Start_request sample_restart) = Inr t \<and>
     deliver (draft_request (\<lambda>_. sample_digest)) t (Start_request sample_restart) = Inr u \<and>
     deliver (draft_request (\<lambda>_. sample_digest)) u (Start_request sample_restart) = Inr u \<and> st_revision u \<le> 2"
  using redelivery_idempotent [OF sample_seed_inv, of "\<lambda>_. sample_digest" "Start_request sample_restart"]
  by (auto simp: sample_restart_def sample_seed_def workflowSeed_def)

text \<open>
  C28: Which drafted events the event store's semantic policy admits, for requests filled in as
  the commands fill them, with an evaluation of the gates and an assignment resolved for its
  phase: every one, except the continuation of a run whose stop-loss gate fails for more than
  one cause at once, and the acceptance under a correlation that is no identifier.
\<close>

theorem drafted_events_semantic:
  assumes "workflow_inv s" "draft_request digest (observe s) r = Some e" "composed_request c r"
  shows "assertEventSemanticPolicy e \<longleftrightarrow>
    (case r of
       Continue_request q \<Rightarrow> stop_loss_causes c \<le> 1
     | Acceptance_request q \<Rightarrow> id_test (aq_correlationId q)
     | _ \<Rightarrow> True)"
proof (cases "recordable_request c r")
  case True
  from drafted_semantics [OF assms(1,2) composed_consistent [OF assms(3) True]] True
  show ?thesis by (cases r) simp_all
next
  case False
  from unrecordable_rejected [OF assms(1,2,3) False] False show ?thesis by (cases r) simp_all
qed

theorem drafted_events_semantic_witness:
  "\<exists>e f. draft_request (\<lambda>_. sample_digest) (observe sample_started) (Continue_request (sample_gated True False)) = Some e \<and>
     assertEventSemanticPolicy e \<and>
     draft_request (\<lambda>_. sample_digest) (observe sample_started) (Continue_request (sample_gated True True)) = Some f \<and>
     \<not> assertEventSemanticPolicy f"
proof -
  have "draft_request (\<lambda>_. sample_digest) (observe sample_started) (Continue_request (sample_gated True b)) \<noteq> None" for b
    by (cases b) (simp_all only:, code_simp+)
  then obtain e f where
    e: "draft_request (\<lambda>_. sample_digest) (observe sample_started) (Continue_request (sample_gated True False)) = Some e" and
    f: "draft_request (\<lambda>_. sample_digest) (observe sample_started) (Continue_request (sample_gated True True)) = Some f"
    by blast
  have composed: "composed_request (sample_context True b) (Continue_request (sample_gated True b))" for b
    by (cases b) (simp_all only:, code_simp+)
  from drafted_events_semantic [OF sample_started_inv e composed] drafted_events_semantic [OF sample_started_inv f composed] e f
  show ?thesis by (simp add: stop_loss_causes_def sample_context_def)
qed

text \<open>
  C25: While a repair stop is active, or once the run was retired for a specification
  restart, no sequence of requests other than resolutions moves the run: it stays in its
  phase and keeps its attempts, stops and resolutions. A retired run is not moved by
  resolutions either.
\<close>

theorem held_run_stays:
  assumes "workflow_inv s" "st_activeRepairStops s \<noteq> [] \<or> st_specificationRestart s \<noteq> None"
    "\<not> list_ex is_resolve rs \<or> st_specificationRestart s \<noteq> None"
    "replay_from (deliver (draft_request digest)) s rs = Inr t"
  shows "st_currentStep t = st_currentStep s \<and> same_repair_books s t"
  using assms by (intro deliveries_held) (auto simp: held_def)

theorem held_run_stays_witness:
  "\<exists>t. replay_from (deliver (draft_request (\<lambda>_. sample_digest))) sample_held
     [Continue_request (sample_continue 1 ''c2'' Acceptance), Start_request sample_start] = Inr t \<and>
     st_currentStep t = Some Acceptance \<and> same_repair_books sample_held t"
proof -
  let ?rs = "[Continue_request (sample_continue 1 ''c2'' Acceptance), Start_request sample_start]"
  have "\<exists>t. replay_from (deliver (draft_request (\<lambda>_. sample_digest))) sample_held ?rs = Inr t"
    using any.deliver_ok [OF sample_held_inv] any.deliver_ok by fastforce
  then obtain t where t: "replay_from (deliver (draft_request (\<lambda>_. sample_digest))) sample_held ?rs = Inr t" by blast
  have "st_currentStep sample_held = Some Acceptance" "st_activeRepairStops sample_held \<noteq> []"
    by (simp_all add: sample_held_def)
  with held_run_stays [OF sample_held_inv _ _ t] t show ?thesis by auto
qed

lemma sample_continued:
  "\<exists>e t. decideContinueWorkflow (Present sample_started) (sample_continue 1 ''c2'' Prd) = Recorded (Moving Accepted) e None \<and>
     workflow_step sample_started e = Inr t \<and> st_currentStep t \<noteq> Some Prd"
proof -
  have "case decideContinueWorkflow (Present sample_started) (sample_continue 1 ''c2'' Prd) of
      Recorded tr e why \<Rightarrow> tr = Moving Accepted \<and> why = None \<and>
        (case workflow_step sample_started e of Inr t \<Rightarrow> st_currentStep t \<noteq> Some Prd | Inl _ \<Rightarrow> False)
    | _ \<Rightarrow> False" by code_simp
  then show ?thesis by (auto split: workflow_decision.splits sum.splits)
qed

text \<open>
  C26: A continuation moves a run only past its gates: when the phase of the run changes,
  the new phase is the next one (completion after acceptance, and only when allowed), no
  gate blocked, artifacts and evidence were supplied and the event carries the resolved
  assignment of the phase.
\<close>

theorem continue_moves_past_gates:
  assumes "workflow_inv s" "decideContinueWorkflow (Present s) r = Recorded tr e why"
    "workflow_step s e = Inr t" "st_currentStep t \<noteq> st_currentStep s"
  shows "st_currentStep t = nextPhase (st_currentStep s) \<and>
    gv_outcome (gate_verdict_of r) \<noteq> Block_outcome \<and> ev_artifactRefs e \<noteq> [] \<and> ev_evidenceRefs e \<noteq> [] \<and>
    ev_resolvedAssignment e = cq_resolvedAssignment r \<and> ev_resolvedAssignment e \<noteq> None \<and>
    st_status t = (if st_currentStep s = Some Acceptance then Done_completed else Active)"
  using assms(2)
proof (cases rule: decideContinueE)
  case (1 u mt arts evs a x)
  then have u: "u = s" by simp
  have "st_currentStep s \<noteq> None"
    using assms(1) 1(6,7) by (auto simp: u workflow_inv_defs)
  then have "transition_applies s mt" using 1(6-11) u by (cases mt) auto
  from moving_step [OF this, of "continue_input r s" None arts evs a x "gv_failures (gate_verdict_of r)"] 1(7,8)
  have res: "(st_status t, st_currentStep t) = transition_result s mt"
    using assms(3) by (auto simp: 1(15) u)
  with assms(4) 1(8) have "mt \<in> {Accepted, Completed}" by (cases mt) auto
  with res 1(10-13) show ?thesis
    by (auto simp: 1(15) u workflow_event_def Let_def)
qed

theorem continue_moves_past_gates_witness:
  "\<exists>e t. decideContinueWorkflow (Present sample_started) (sample_continue 1 ''c2'' Prd) = Recorded (Moving Accepted) e None \<and>
     workflow_step sample_started e = Inr t \<and> st_currentStep t = Some Spec \<and> st_status t = Active"
proof -
  obtain e t where e: "decideContinueWorkflow (Present sample_started) (sample_continue 1 ''c2'' Prd) = Recorded (Moving Accepted) e None"
    and t: "workflow_step sample_started e = Inr t" and moved: "st_currentStep t \<noteq> Some Prd"
    using sample_continued by blast
  have p: "st_currentStep sample_started = Some Prd" by (simp add: sample_started_def)
  with moved continue_moves_past_gates [OF sample_started_inv e t] e t show ?thesis by auto
qed

fun expected_revision :: "run_request \<Rightarrow> int option" where
  "expected_revision (Start_request r) = None"
| "expected_revision (Continue_request r) = Some (cq_expectedRevision r)"
| "expected_revision (Resolve_request r) = Some (rq_expectedRevision r)"
| "expected_revision (Fact_request r) = Some (fq_expectedRevision r)"
| "expected_revision (Acceptance_request r) = None"

lemma drafted_expects_revision:
  assumes "draft_request digest (observe s) r = Some e" "expected_revision r = Some n"
  shows "n = st_revision s"
proof (cases r)
  case (Continue_request q)
  with assms show ?thesis by (auto elim!: decideContinueE simp: observed recorded_event_Some)
next
  case (Resolve_request q)
  with assms show ?thesis by (auto elim!: decideResolveE simp: observed recorded_event_Some)
next
  case (Fact_request q)
  with assms show ?thesis by (auto elim!: decideFactE simp: observed recorded_event_Some)
qed (use assms in simp_all)

text \<open>
  C29: No update is lost: of two requests prepared against the same revision, once the
  first is recorded the second is not, whichever their order.
\<close>

theorem no_lost_update:
  assumes "workflow_inv s" "draft_request digest (observe s) r1 = Some e" "workflow_step s e = Inr t"
    "expected_revision r2 = Some (st_revision s)"
  shows "draft_request digest (observe t) r2 = None"
proof (rule ccontr)
  assume "draft_request digest (observe t) r2 \<noteq> None"
  then obtain e2 where "draft_request digest (observe t) r2 = Some e2" by auto
  from drafted_expects_revision [OF this assms(4)] have "st_revision t = st_revision s" by simp
  moreover have "st_revision t = st_revision s + 1"
    using any.drafted_step [OF assms(1,2)] assms(3) by auto
  ultimately show False by simp
qed

theorem no_lost_update_witness:
  "\<exists>t. deliver (draft_request (\<lambda>_. sample_digest)) sample_started (Continue_request (sample_continue 1 ''c2'' Prd)) = Inr t \<and>
     draft_request (\<lambda>_. sample_digest) (observe t) (Continue_request (sample_continue 1 ''c3'' Prd)) = None"
proof -
  have o: "observe sample_started = Present sample_started" by (simp add: observe_def sample_started_def)
  obtain e t where e: "decideContinueWorkflow (Present sample_started) (sample_continue 1 ''c2'' Prd) = Recorded (Moving Accepted) e None"
    and t: "workflow_step sample_started e = Inr t"
    using sample_continued by blast
  have "expected_revision (Continue_request (sample_continue 1 ''c3'' Prd)) = Some (st_revision sample_started)"
    by (simp add: sample_continue_def sample_started_def)
  from no_lost_update [OF sample_started_inv _ t this, of "\<lambda>_. sample_digest" "Continue_request (sample_continue 1 ''c2'' Prd)"]
  show ?thesis using e t o by (auto simp: deliver_def recorded_event_def)
qed

text \<open>
  A start from a specification is recorded under a restart operation while its
  duplicate test looks for a start operation, so the same request delivered twice is
  recorded twice.
\<close>

theorem restart_recorded_twice:
  "case deliver (draft_request (\<lambda>_. sample_digest)) sample_seed (Start_request sample_restart) of
     Inl _ \<Rightarrow> False
   | Inr t \<Rightarrow> (case deliver (draft_request (\<lambda>_. sample_digest)) t (Start_request sample_restart) of
        Inl _ \<Rightarrow> False
      | Inr u \<Rightarrow> st_revision t = 1 \<and> st_revision u = 2 \<and>
          st_operations u = [''sdd.repair.restart:c1'', ''sdd.start:c1''])"
  by code_simp

text \<open>
  A gate evaluation whose stop-loss gate fails for two reasons yields a continuation
  whose event the semantic policy rejects, because the failures name the same gate twice.
\<close>

theorem double_stop_loss_unrecordable:
  assumes "gc_stopLoss_exhausted c" "gc_stopLoss_tripped c"
    "cq_gateDecision r = Some \<lparr> gv_outcome = gd_outcome (evaluateGates c), gv_failures = gd_failures (evaluateGates c) \<rparr>"
    "decideContinueWorkflow obs r = Recorded tr e why"
  shows "\<not> assertEventSemanticPolicy e"
  using assms(1,2) by (intro repeated_stop_loss_rejected [OF assms(4) _ assms(3)]) (simp add: stop_loss_causes_def)

definition sample_blocked :: continue_request where
  "sample_blocked = (sample_continue 1 ''c2'' Prd)\<lparr> cq_gateDecision := Some
     \<lparr> gv_outcome = gd_outcome (evaluateGates (sample_context True True)),
       gv_failures = gd_failures (evaluateGates (sample_context True True)) \<rparr> \<rparr>"

theorem double_stop_loss_unrecordable_witness:
  "\<exists>e why. decideContinueWorkflow (Present sample_started) sample_blocked = Recorded (Moving Rejected_transition) e why \<and>
     \<not> assertEventSemanticPolicy e"
proof -
  have "case decideContinueWorkflow (Present sample_started) sample_blocked of
      Recorded tr e why \<Rightarrow> tr = Moving Rejected_transition | _ \<Rightarrow> False" by code_simp
  then obtain e why where e: "decideContinueWorkflow (Present sample_started) sample_blocked =
      Recorded (Moving Rejected_transition) e why"
    by (auto split: workflow_decision.splits)
  then show ?thesis
    using double_stop_loss_unrecordable [of "sample_context True True" sample_blocked "Present sample_started"
        "Moving Rejected_transition" e why]
    by (simp add: sample_context_def sample_blocked_def)
qed

section \<open>Runs of the reducers\<close>

definition sample_review :: workflow_state where
  "sample_review = sample_started\<lparr> st_currentStep := Some Acceptance \<rparr>"

lemma sample_review_inv: "workflow_inv sample_review"
  by (simp add: sample_review_def sample_started_def sample_seed_def workflowSeed_def workflow_inv_defs)

definition sample_verdict :: "bool \<Rightarrow> acceptance_request" where
  "sample_verdict failed =
     \<lparr> aq_correlationId = ''c9'', aq_eventId = ''e9'', aq_occurredAt = ''2026-01-01T00:02:00.000Z'',
       aq_host = ''codex'', aq_execution = \<lparr> px_assignmentDigest = sample_digest, px_model = Some ''m'',
         px_effort = None, px_provenance = Host_reported \<rparr>,
       aq_rejected = failed,
       aq_criteria = [(''AC-1.1.1'', Outcome_passed), (''AC-1.1.2'', if failed then Outcome_failed else Outcome_passed)],
       aq_faults = [], aq_artifactRefs = [''out.json''], aq_evidenceRefs = [''e.json''] \<rparr>"

definition sample_repair :: event_draft where
  "sample_repair = the (draftAcceptance (\<lambda>_. sample_digest) (Present sample_review) (sample_verdict True))"

definition sample_repaired :: workflow_state where
  "sample_repaired = sample_review
     \<lparr> st_currentStep := Some Code, st_revision := 2, st_updatedAt := Some ''2026-01-01T00:02:00.000Z'',
       st_operations := [''sdd.start:c1'', ''sdd.acceptance.record:c9''],
       st_attempts := [\<lparr> at_criterionId = ''AC-1.1.2'', at_attempt = 1 \<rparr>] \<rparr>"

lemma sample_repair_draft:
  "draftAcceptance (\<lambda>_. sample_digest) (Present sample_review) (sample_verdict True) = Some sample_repair"
proof -
  have "draftAcceptance (\<lambda>_. sample_digest) (Present sample_review) (sample_verdict True) \<noteq> None" by code_simp
  then show ?thesis by (auto simp: sample_repair_def)
qed

lemma sample_repair_step: "workflow_step sample_review sample_repair = Inr sample_repaired"
  by code_simp

lemma sample_repair_sequenced: "sequenced sample_review sample_repair"
  by code_simp

text \<open>
  Only a legacy log can begin with a resumption. The run is then active without a phase, and no
  later event gives it one.
\<close>

definition phaseless :: "workflow_state \<Rightarrow> bool" where
  "phaseless s \<longleftrightarrow> st_status s = Active \<and> st_currentStep s = None \<and> 0 < st_revision s \<and>
     int (length (st_operations s)) = st_revision s \<and> st_attempts s = [] \<and> st_activeRepairStops s = [] \<and>
     st_repairStopHistory s = [] \<and> st_repairResolutions s = [] \<and> st_specificationRestart s = None"

abbreviation counts_up :: "'a event_draft_scheme \<Rightarrow> bool" where
  "counts_up e \<equiv> ev_resultingRevision e = ev_priorRevision e + 1"

lemma phaseless_step:
  assumes "phaseless s" "counts_up e" "workflow_step s e = Inr t"
  shows "phaseless t"
  using assms(3)
proof (cases rule: workflow_stepE)
  case known
  then show ?thesis
  proof (cases rule: reduceKnownE)
    case (1 st cs)
    from 1(2) show ?thesis
      by (cases rule: known_reasonE) (use assms(1,2) 1(1,4) in \<open>simp_all add: phaseless_def\<close>)
  qed
next
  case (started limits u)
  then show ?thesis
    using assms(1) by (auto elim!: reduceKnownE simp: known_reason_def phaseless_def split: if_splits)
next
  case upgraded
  then show ?thesis
    using assms(1,2) by (auto simp: reduce_upgrade_def phaseless_def split: option.splits if_splits)
next
  case restarted
  then show ?thesis
    using assms(1) by (auto simp: reduce_started_from_spec_def phaseless_def split: option.splits if_splits)
next
  case (acceptance outcome)
  then show ?thesis
    using assms(1) by (auto simp: reduce_acceptance_def phaseless_def elim!: canonical_decisionE split: option.splits if_splits)
next
  case resolved
  then show ?thesis
    using assms(1) by (auto simp: phaseless_def elim!: reduce_resolutionE)
qed

lemma phaseless_replay:
  "phaseless s \<Longrightarrow> list_all counts_up es \<Longrightarrow> replay_from workflow_step s es = Inr t \<Longrightarrow> phaseless t"
  by (induction es arbitrary: s) (auto intro: phaseless_step)

lemma resumed_first:
  assumes "ev_reasonCode e = ''run.resumed''" "counts_up e" "workflow_step (workflowSeed c) e = Inr t"
  shows "phaseless t"
proof -
  have "st_acceptanceAttemptCeiling (workflowSeed c) = None" by (simp add: workflowSeed_def)
  with assms(1,3) have "reduceKnownWorkflowReason (workflowSeed c) e = Inr t"
    by (simp add: workflow_step_def workflow_reducer_def reduceWorkflow_def reduceWorkflowV1_def split: if_splits)
  then show ?thesis
    by (elim reduceKnownE) (use assms(1,2) in \<open>auto simp: known_reason_def phaseless_def workflowSeed_def split: if_splits\<close>)
qed

text \<open>From the first event on, events that count up meet the sequencing rule.\<close>

lemma later_events_sequenced:
  "workflow_inv s \<Longrightarrow> 0 < st_revision s \<Longrightarrow> list_all counts_up es \<Longrightarrow> run.ok_run s es"
proof (induction es arbitrary: s)
  case (Cons e es)
  then have seq: "sequenced s e" by (simp add: sequenced_def)
  have "run.ok_run t es" if "workflow_step s e = Inr t" for t
  proof (rule Cons.IH)
    show "workflow_inv t" by (rule run.step_inv [OF Cons.prems(1) seq that])
    have "st_revision t = st_revision s + 1"
      using workflow_step_stamped [OF that Cons.prems(1)] seq by (simp add: sequenced_def)
    with Cons.prems(2) show "0 < st_revision t" by simp
  qed (use Cons.prems in simp)
  with seq show ?case by (simp split: sum.split)
qed simp

text \<open>
  C31: Replaying any sequence of events whose revisions count up by one, as those of every
  verified log do, keeps the invariant of a run: status and phase agree, attempts of a criterion
  lie between one and the ceiling, active stops block the run at acceptance at the ceiling, and
  resolutions belong to replayed operations. The only exception is a log that begins with a
  resumption: such a run is active but has no phase, no attempts and no stops, and stays so.
\<close>

theorem replay_invariant:
  assumes "list_all counts_up es" "replay_from workflow_step (workflowSeed c) es = Inr t"
  shows "if es \<noteq> [] \<and> ev_reasonCode (hd es) = ''run.resumed'' then phaseless t else workflow_inv t"
proof (cases es)
  case Nil
  with assms(2) show ?thesis using workflow_inv_seed [of c] by simp
next
  case (Cons e later)
  with assms obtain u where u: "workflow_step (workflowSeed c) e = Inr u" "replay_from workflow_step u later = Inr t"
    and up: "counts_up e" "list_all counts_up later" by auto
  show ?thesis
  proof (cases "ev_reasonCode e = ''run.resumed''")
    case True
    from phaseless_replay [OF resumed_first [OF True up(1) u(1)] up(2) u(2)] True Cons show ?thesis by simp
  next
    case False
    with up(1) have seq: "sequenced (workflowSeed c) e" by (simp add: sequenced_def)
    note inv = run.step_inv [OF workflow_inv_seed seq u(1)]
    have "0 < st_revision u"
      using workflow_step_stamped [OF u(1) workflow_inv_seed] seq by (simp add: sequenced_def workflowSeed_def)
    from run.replay_inv [OF inv later_events_sequenced [OF inv this up(2)] u(2)] False Cons show ?thesis by simp
  qed
qed

definition sample_legacy_resumption :: event_draft where
  "sample_legacy_resumption = (workflow_event (start_input sample_start 0) Resumed [] [] None None None [])
     \<lparr> ev_policyVersion := LEGACY_WORKFLOW_POLICY_VERSION \<rparr>"

theorem replay_invariant_witness:
  "workflow_inv sample_started \<and>
   (\<exists>t. replay_from workflow_step (workflowSeed \<lparr> co_projectId = ''p1'', co_feature = ''login'', co_runId = ''r1'',
       co_lineage = sample_lineage \<rparr>) [sample_legacy_resumption] = Inr t \<and> phaseless t)"
proof
  let ?c = "\<lparr> co_projectId = ''p1'', co_feature = ''login'', co_runId = ''r1'', co_lineage = sample_lineage \<rparr>"
  let ?e = "workflow_event (start_input sample_start 0) Started [] [] None None (Some (start_limits sample_start)) []"
  have "workflow_step (workflowSeed ?c) ?e = Inr sample_started" "counts_up ?e" "ev_reasonCode ?e \<noteq> ''run.resumed''"
    by code_simp+
  then show "workflow_inv sample_started" using replay_invariant [of "[?e]" ?c sample_started] by simp
  have "is_ok (workflow_step (workflowSeed ?c) sample_legacy_resumption)" "counts_up sample_legacy_resumption"
    "ev_reasonCode sample_legacy_resumption = ''run.resumed''"
    by code_simp+
  then show "\<exists>t. replay_from workflow_step (workflowSeed ?c) [sample_legacy_resumption] = Inr t \<and> phaseless t"
    using replay_invariant [of "[sample_legacy_resumption]" ?c] by (auto simp: is_ok_iff)
qed

text \<open>
  C34: A replayed event moves a run only along the edges of the phase machine: it enters
  at the first phase or at the specification, advances to the following phase, goes back
  from acceptance to code, ends after acceptance, or stays.
\<close>

theorem steps_follow_phase_edges:
  assumes "workflow_inv s" "workflow_step s e = Inr t"
  shows "phase_edge (st_currentStep s) (st_currentStep t)"
  using assms by (rule workflow_step_edge)

theorem steps_follow_phase_edges_witness: "phase_edge (Some Acceptance) (Some Code)"
  using steps_follow_phase_edges [OF sample_review_inv sample_repair_step]
  by (simp add: sample_review_def sample_repaired_def)

text \<open>
  Completion is final: no replayed event changes the status of a completed run, and
  the only event a completed run accepts is the upgrade of its policy.
\<close>

theorem completion_is_final:
  assumes "workflow_inv s" "st_status s = Done_completed" "workflow_step s e = Inr t"
  shows "st_status t = Done_completed \<and> ev_reasonCode e = ''run.policy_upgraded''"
  using assms by (rule completed_final)

definition sample_legacy_done :: workflow_state where
  "sample_legacy_done = sample_started
     \<lparr> st_status := Done_completed, st_currentStep := None, st_policyVersion := Some LEGACY_WORKFLOW_POLICY_VERSION,
       st_acceptanceAttemptCeiling := None \<rparr>"

lemma sample_legacy_done_inv: "workflow_inv sample_legacy_done"
  by (simp add: sample_legacy_done_def sample_started_def sample_seed_def workflowSeed_def workflow_inv_defs)

theorem completion_is_final_witness:
  "\<exists>t. workflow_step sample_legacy_done
     (policyUpgradeEvent (start_input sample_start 1) (start_limits sample_start)) = Inr t \<and> st_status t = Done_completed"
proof -
  let ?e = "policyUpgradeEvent (start_input sample_start 1) (start_limits sample_start)"
  have "is_ok (workflow_step sample_legacy_done ?e)" by code_simp
  then obtain t where t: "workflow_step sample_legacy_done ?e = Inr t" by (auto simp: is_ok_iff)
  have "st_status sample_legacy_done = Done_completed" by (simp add: sample_legacy_done_def)
  from completion_is_final [OF sample_legacy_done_inv this t] t show ?thesis by blast
qed

text \<open>
  C35: The repair loop ends: as long as no repair stop is resolved, the number of times
  acceptance sends a run back to code is at most the number of criteria that failed
  times the attempt ceiling.
\<close>

theorem repair_loop_bounded:
  assumes "workflow_inv s" "run.ok_run s es" "replay_from workflow_step s es = Inr t"
    "\<not> list_ex is_resolution es" "st_acceptanceAttemptCeiling t = Some c"
  shows "int (length (filter is_repair es)) \<le> int (length (st_attempts t)) * c"
proof -
  have "workflow_inv t" by (rule run.replay_inv [OF assms(1-3)])
  then have "card (attempted t) = length (st_attempts t)"
    using distinct_card [of "map at_criterionId (st_attempts t)"]
    by (simp add: workflow_inv_def attempts_inv_def attempted_def)
  with repair_rounds [OF assms] show ?thesis by simp
qed

theorem repair_loop_bounded_witness:
  "int (length (filter is_repair [sample_repair])) \<le> int (length (st_attempts sample_repaired)) * 2 \<and>
     is_repair sample_repair"
proof -
  have "is_repair sample_repair" "\<not> is_resolution sample_repair" by code_simp+
  moreover have "st_acceptanceAttemptCeiling sample_repaired = Some 2"
    by (simp add: sample_repaired_def sample_review_def sample_started_def)
  ultimately show ?thesis
    using repair_loop_bounded [OF sample_review_inv, of "[sample_repair]" sample_repaired 2]
      sample_repair_step sample_repair_sequenced by simp
qed

text \<open>
  C36: Every acceptance event the runtime drafts is accepted by the reducer with the
  effect of the loop's decision: a passed verdict leaves the phase, a verdict to repair
  sends the run to code, and a stopped verdict blocks it with one active stop for each
  criterion that reached the ceiling.
\<close>

theorem acceptance_draft_replays:
  assumes "workflow_inv s" "draftAcceptance digest (Present s) r = Some e"
  shows "\<exists>t. workflow_step s e = Inr t \<and> workflow_inv t \<and>
    (case prepare_loop s r of
       Loop_passed _ \<Rightarrow> st_currentStep t = Some Acceptance \<and> st_attempts t = st_attempts s
     | Loop_repair attempts \<Rightarrow> st_status t = Active \<and> st_currentStep t = Some Code \<and>
         st_attempts t = mergeAttempts s attempts \<and> st_activeRepairStops t = []
     | Loop_stopped attempts stops \<Rightarrow> st_status t = Blocked \<and> st_currentStep t = Some Acceptance \<and>
         st_attempts t = mergeAttempts s attempts \<and>
         map at_criterionId (st_activeRepairStops t) = map fa_criterionId stops \<and> stops \<noteq> []
     | Loop_refused _ _ \<Rightarrow> False)"
proof -
  obtain b m where refused: "\<forall>reason k. prepare_loop s r \<noteq> Loop_refused reason k"
    and m: "buildAcceptanceDecisionMetadata (prepare_loop s r) b = Inr m"
    and can: "hasCanonicalAcceptanceDecision s e m (ad_outcome m)"
    and e: "ev_acceptanceDecision e = Some m"
    and step: "workflow_step s e = reduce_acceptance (ad_outcome m) s e"
    using acceptance_recorded(8) [OF assms] acceptance_event_sel(6) by metis
  have "st_revision s \<noteq> 0" and phase: "st_currentStep s = Some Acceptance" and clear: "st_activeRepairStops s = []"
    using acceptance_recorded(6) [OF assms] assms by (auto elim!: draftAcceptanceE simp: workflow_inv_defs)
  then have "draftAcceptance digest (observe s) r = Some e" using assms(2) by (simp add: observe_def)
  then obtain t where t: "workflow_step s e = Inr t" "workflow_inv t"
    using acceptance.drafted_step [OF assms(1)] by blast
  have "ad_repairStops m \<noteq> [] \<or> ad_outcome m \<noteq> Acc_stopped"
    using can by (auto elim!: canonical_decisionE)
  then show ?thesis
    using refused metadata_outcome [OF m] t can e phase clear unfolding step
    by (cases "prepare_loop s r") (auto simp: reduce_acceptance_def)
qed

theorem acceptance_draft_replays_witness:
  "\<exists>t. workflow_step sample_review sample_repair = Inr t \<and> st_currentStep t = Some Code \<and> st_status t = Active"
proof -
  have "case prepare_loop sample_review (sample_verdict True) of Loop_repair _ \<Rightarrow> True | _ \<Rightarrow> False" by code_simp
  with acceptance_draft_replays [OF sample_review_inv sample_repair_draft] show ?thesis
    by (auto split: repair_loop_decision.splits)
qed

lemma reported_failed:
  "\<exists>c \<in> set (reported_criteria cs). lc_failed c \<Longrightarrow> \<exists>k. (k, Outcome_failed) \<in> set cs"
  by (induction cs rule: reported_criteria.induct) (auto split: if_splits)

text \<open>
  C37: A verdict in which no criterion failed is recorded as a passed acceptance even
  when the reply rejected it because criteria were not run.
\<close>

theorem unrun_rejection_recorded_as_passed:
  assumes "workflow_inv s" "draftAcceptance digest (Present s) r = Some e"
    "\<not> list_ex (\<lambda>c. snd c = Outcome_failed) (aq_criteria r)"
  shows "ev_reasonCode e = ''run.acceptance.passed''"
proof -
  from assms(2) obtain d where d: "d = prepare_loop s r" "\<And>reason k. d \<noteq> Loop_refused reason k"
    and loop: "decideRepairLoop \<lparr> rc_attemptCeiling = (case st_acceptanceAttemptCeiling s of None \<Rightarrow> 0 | Some c \<Rightarrow> c),
       rc_attempts = st_attempts s, rc_criteria = reported_criteria (aq_criteria r), rc_faults = aq_faults r \<rparr> = d"
    and reason: "ev_reasonCode e = loop_reason d"
    by (elim draftAcceptanceE) auto
  have "\<not> (\<exists>c \<in> set (reported_criteria (aq_criteria r)). lc_failed c)"
    using reported_failed assms(3) by (fastforce simp: list_ex_iff)
  then have none: "filter lc_failed (reported_criteria (aq_criteria r)) = []" by (simp add: filter_empty_conv)
  from loop d(2) show ?thesis
    by (cases rule: decideRepairLoopE) (use reason none in \<open>auto simp: failed_attempts_def\<close>)
qed

definition sample_unrun :: acceptance_request where
  "sample_unrun = (sample_verdict True)
     \<lparr> aq_criteria := [(''AC-1.1.1'', Outcome_passed), (''AC-1.1.2'', Outcome_not_run)] \<rparr>"

theorem unrun_rejection_recorded_as_passed_witness:
  "\<exists>e. draftAcceptance (\<lambda>_. sample_digest) (Present sample_review) sample_unrun = Some e \<and>
     aq_rejected sample_unrun \<and> ev_reasonCode e = ''run.acceptance.passed''"
proof -
  have "draftAcceptance (\<lambda>_. sample_digest) (Present sample_review) sample_unrun \<noteq> None" by code_simp
  then obtain e where e: "draftAcceptance (\<lambda>_. sample_digest) (Present sample_review) sample_unrun = Some e" by auto
  from unrun_rejection_recorded_as_passed [OF sample_review_inv e] e show ?thesis
    by (simp add: sample_unrun_def sample_verdict_def)
qed

end
