(* ===== verification/Event_Runs.thy ===== *)
theory Event_Runs
  imports Event_Store Workflow_Properties
begin

text \<open>
  A run and its event store together: what the append promises to every reader of the two
  files, that a store is the history of the drafts appended to it, and that the events a
  run's requests record can be appended.
\<close>

section \<open>A run in its store\<close>

definition run_store :: "reducer_configuration \<Rightarrow> store_paths" where
  "run_store c = run_paths (co_feature c) (co_runId c)"

text \<open>
  The store of a run at a state: no file yet and the seed, or a consistent store whose
  replay gives the state.
\<close>

definition run_in_store ::
  "event_services \<Rightarrow> reducer_configuration \<Rightarrow> storage \<Rightarrow> workflow_state \<Rightarrow> event_cursor \<Rightarrow> event list \<Rightarrow> bool" where
  "run_in_store sv c s st cursor es \<longleftrightarrow>
     (store_empty (run_store c) s \<and> \<not> dir_at s (ep_events (run_store c)) \<and> \<not> dir_at s (ep_snapshot (run_store c)) \<and>
      st = workflowSeed c \<and> cursor = first_cursor \<and> es = []) \<or>
     (\<exists>v r. store_consistent sv (workflowReducerRegistry c) (run_store c) (co_runId c) s v r \<and>
        rp_state r = st \<and> vs_cursor v = cursor \<and> vs_events v = es \<and>
        utf8_length (rp_canonical r) < MAX_SAFE_INTEGER)"

lemma step_policy:
  assumes "workflow_step s e = Inr t"
  shows "st_policyVersion t = Some (ev_policyVersion e)"
  using assms
proof (cases rule: workflow_stepE)
  case known
  then show ?thesis by (simp add: reduceKnown_frame)
next
  case (started limits u)
  then show ?thesis by (simp add: reduceKnown_frame)
next
  case upgraded
  then show ?thesis by (auto simp: reduce_upgrade_def split: option.splits if_splits)
next
  case restarted
  then show ?thesis by (auto simp: reduce_started_from_spec_def split: option.splits if_splits)
next
  case (acceptance outcome)
  then show ?thesis by (elim reduce_acceptanceE) (auto split: acceptance_outcome.splits)
next
  case resolved
  from resolved(2) show ?thesis by (elim reduce_resolutionE) auto
qed

lemma workflow_identity:
  "replay_from workflow_step s es = Inr t \<Longrightarrow> st_projectId t = st_projectId s \<and> st_runId t = st_runId s"
proof (induction es arbitrary: s)
  case (Cons e es)
  then obtain u where "workflow_step s e = Inr u" "replay_from workflow_step u es = Inr t" by auto
  with Cons.IH [of u] workflow_step_identity [of s e u] show ?case by simp
qed simp

lemma run_replays:
  assumes "run_in_store sv c s st cursor es"
  shows "replay_from workflow_step (workflowSeed c) es = Inr st"
    "replay_from (check_link sv) first_cursor es = Inr cursor" "st_runId st = co_runId c"
proof -
  show r: "replay_from workflow_step (workflowSeed c) es = Inr st"
    using assms by (auto simp: run_in_store_def store_consistent_def replay_Inr)
      (simp add: replay_workflow workflowReducerRegistry_def flip: replay_workflow [of c])
  show "replay_from (check_link sv) first_cursor es = Inr cursor"
    using assms by (auto simp: run_in_store_def store_consistent_def verify_Inr)
  show "st_runId st = co_runId c" using workflow_identity [OF r] by (simp add: workflowSeed_def)
qed

lemma run_verifies:
  assumes "run_in_store sv c s st cursor es"
  shows "verifyEventStream sv (log_text es) = Inr \<lparr> vs_events = es, vs_cursor = cursor, vs_canonical = log_text es \<rparr>"
  using assms empty_stream [of sv] by (auto simp: run_in_store_def store_consistent_def verify_Inr)

text \<open>What the limits and the validator must grant for an event and the snapshot behind it.\<close>

definition admits ::
  "event_services \<Rightarrow> event list \<Rightarrow> event \<Rightarrow> workflow_state \<Rightarrow> bool" where
  "admits sv es e t \<longleftrightarrow>
     utf8_length (line_text e) \<le> EVENT_RECORD_BYTES \<and> log_fits (es @ [e]) \<and>
     (case materialize t (cursor_after e) of
        Inl _ \<Rightarrow> False
      | Inr sn \<Rightarrow> es_validate sv ''state.snapshot'' (Some snapshot_version) (snapshot_json sn) = None \<and>
          utf8_length (canonicalizeJson (snapshot_json sn)) < MAX_SAFE_INTEGER)"

lemma materialize_Inr:
  "materialize t cursor = Inr sn \<Longrightarrow>
     sn_runId sn = st_runId t \<and> sn_eventCursor sn = cu_revision cursor \<and> cu_hash cursor = Some (sn_eventHash sn) \<and>
     st_updatedAt t = Some (sn_updatedAt sn) \<and>
     sn_policyVersion sn = (case st_policyVersion t of None \<Rightarrow> WORKFLOW_POLICY_VERSION | Some p \<Rightarrow> p)"
  by (auto simp: materialize_def split: option.splits if_splits)

lemma extend_run:
  assumes run: "run_in_store sv c s st cursor es" and free: "order_free sv" and inv: "workflow_inv st"
    and e: "sealEvent sv d cursor = Inr e" and t: "workflow_step st d = Inr t" and a: "admits sv es e t"
  obtains r where "extend_log sv (workflowReducerRegistry c) (co_runId c) d (log_text es) cursor = Inr (e, r)"
    "rp_state r = t" "utf8_length (rp_canonical r) < MAX_SAFE_INTEGER"
proof -
  from a obtain sn where sn: "materialize t (cursor_after e) = Inr sn"
    "es_validate sv ''state.snapshot'' (Some snapshot_version) (snapshot_json sn) = None"
    "utf8_length (canonicalizeJson (snapshot_json sn)) < MAX_SAFE_INTEGER"
    by (auto simp: admits_def split: sum.splits)
  let ?t = "log_text es @ line_text e @ [LF]"
  let ?v = "\<lparr> vs_events = es @ [e], vs_cursor = cursor_after e, vs_canonical = ?t \<rparr>"
  let ?r = "\<lparr> rp_state = t, rp_snapshot = sn, rp_canonical = canonicalizeJson (snapshot_json sn) \<rparr>"
  have v: "verifyEventStream sv ?t = Inr ?v"
    using seal_extends [OF free run_verifies [OF run], of d e] e a by (simp add: admits_def)
  have d: "event_draft.truncate e = d" using e by (rule sealEventE) (metis with_hashes_simps(1))
  have te: "workflow_step st e = Inr t" using t step_truncate [of st e] d by simp
  have "replay_from workflow_step (workflowSeed c) (es @ [e]) = Inr t"
    using run_replays(1) [OF run] te by (simp add: replay_from_append)
  then have rp: "replay_from (reduceOnce (workflowReducerRegistry c)) (er_seed (workflowReducerRegistry c)) (es @ [e]) = Inr t"
    by (simp add: workflowReducerRegistry_def flip: replay_workflow [of c])
  note m = materialize_Inr [OF sn(1)]
  have "hasFinalBindings sn ?v"
    using m step_policy [OF te] workflow_step_stamped [OF te inv] by (simp add: hasFinalBindings_def)
  with rp sn have "replayEventStream sv (workflowReducerRegistry c) ?v = Inr ?r"
    by (simp add: replay_Inr workflowReducerRegistry_def)
  moreover have "sn_runId sn = co_runId c" using m workflow_step_identity [OF te] run_replays(3) [OF run] by simp
  ultimately have "extend_log sv (workflowReducerRegistry c) (co_runId c) d (log_text es) cursor = Inr (e, ?r)"
    using e v by (simp add: extend_log_def assertReplayRunId_def)
  then show thesis by (rule that) (use sn in simp_all)
qed

lemma empty_opens:
  assumes u: "usable_paths paths" and ok: "mc_rules m = []"
    and s: "store_empty paths (mc_storage m)" "\<not> dir_at (mc_storage m) (ep_events paths)"
      "\<not> dir_at (mc_storage m) (ep_snapshot paths)"
    and e: "extend_log sv registry runId d [] first_cursor = Inr (e, r)"
  obtains p n where "append_to sv registry paths runId d m = (Inr p, n)" "pa_event p = e" "mc_storage n = mc_storage m"
proof -
  let ?sha = "es_sha256 sv"
  from u have d: "durable_path (ep_events paths)" "durable_path (ep_snapshot paths)"
    "ep_events paths \<noteq> ''.''" "ep_snapshot paths \<noteq> ''.''" by (simp_all add: usable_paths_def)
  have f: "fingerprint_at ?sha (mc_storage m) (ep_events paths) = Missing"
    "fingerprint_at ?sha (mc_storage m) (ep_snapshot paths) = Missing"
    using s by (simp_all add: fingerprint_at_def store_empty_def)
  obtain m1 where 1: "inspect ?sha (ep_events paths) m = (Inr Missing, m1)" "mc_storage m1 = mc_storage m" "mc_rules m1 = []"
    using primitive_reads_ok [OF ok, of "\<lambda>s. Some (fingerprint_at ?sha s (ep_events paths))"] f
    by (auto simp: inspect_primitive [OF d(1,3)])
  obtain m2 where 2: "inspect ?sha (ep_snapshot paths) m1 = (Inr Missing, m2)" "mc_storage m2 = mc_storage m"
    using primitive_reads_ok [OF 1(3), of "\<lambda>s. Some (fingerprint_at ?sha s (ep_snapshot paths))"] 1(2) f
    by (auto simp: inspect_primitive [OF d(2,4)])
  have "append_to sv registry paths runId d m =
      (Inr (prepared paths e [(ep_events paths, Missing), (ep_snapshot paths, Missing)] [] (rp_canonical r)), m2)"
    using 1 2 e by (simp add: append_to_def append_observed_def fileFingerprint_def)
  then show thesis by (rule that) (simp_all add: prepared_def 2(2))
qed

lemma run_appends:
  assumes c: "feature_test (co_feature c)" "id_test (co_runId c)"
    and run: "run_in_store sv c (mc_storage m) st cursor es" and free: "order_free sv" and inv: "workflow_inv st"
    and ok: "mc_rules m = []" and contract: "ev_stateContract d \<in> {V1_2, V1_3, V1_4}"
    and e: "sealEvent sv d cursor = Inr e" and t: "workflow_step st d = Inr t" and a: "admits sv es e t"
  obtains p n where
    "prepareEventAppend sv (workflowReducerRegistry c) (co_feature c) (co_runId c) d m = (Inr p, n)" "pa_event p = e"
    "mc_storage n = mc_storage m" "run_in_store sv c (apply_writes (pa_effects p) (mc_storage m)) t (cursor_after e) (es @ [e])"
proof -
  let ?reg = "workflowReducerRegistry c"
  note u = run_paths_usable [OF c]
  obtain r where r: "extend_log sv ?reg (co_runId c) d (log_text es) cursor = Inr (e, r)"
    "rp_state r = t" "utf8_length (rp_canonical r) < MAX_SAFE_INTEGER" by (rule extend_run [OF run free inv e t a])
  have "\<exists>p n. append_to sv ?reg (run_store c) (co_runId c) d m = (Inr p, n) \<and> pa_event p = e \<and> mc_storage n = mc_storage m"
    using run unfolding run_in_store_def
  proof (elim disjE conjE exE)
    assume "store_empty (run_store c) (mc_storage m)" "\<not> dir_at (mc_storage m) (ep_events (run_store c))"
      "\<not> dir_at (mc_storage m) (ep_snapshot (run_store c))" "cursor = first_cursor" "es = []"
    note s = this
    obtain p n where "append_to sv ?reg (run_store c) (co_runId c) d m = (Inr p, n)" "pa_event p = e"
      "mc_storage n = mc_storage m"
      by (rule empty_opens [OF u [folded run_store_def] ok s(1-3)]) (use r(1) s(4,5) in auto)
    then show ?thesis by blast
  next
    fix v r0 assume v: "store_consistent sv ?reg (run_store c) (co_runId c) (mc_storage m) v r0" "vs_cursor v = cursor"
      "vs_events v = es" "utf8_length (rp_canonical r0) < MAX_SAFE_INTEGER"
    then have "vs_canonical v = log_text es" by (auto simp: store_consistent_def verify_Inr)
    with v(2) r(1) have x: "extend_log sv ?reg (co_runId c) d (vs_canonical v) (vs_cursor v) = Inr (e, r)" by simp
    obtain p n where "append_to sv ?reg (run_store c) (co_runId c) d m = (Inr p, n)" "pa_event p = e"
      "mc_storage n = mc_storage m"
      by (rule consistent_reopens [OF u [folded run_store_def] ok free v(1,4) x])
    then show ?thesis by blast
  qed
  then obtain p n where p: "append_to sv ?reg (run_store c) (co_runId c) d m = (Inr p, n)" "pa_event p = e"
    "mc_storage n = mc_storage m" by blast
  have "snapshotEventDraft d = Inr d" using e by (rule sealEventE)
  then have pe: "prepareEventAppend sv ?reg (co_feature c) (co_runId c) d m = (Inr p, n)"
    using p(1) contract c
    by (simp add: prepareEventAppend_def snapshotRequest_def run_store_def run_paths_def derivePaths_Inr [THEN iffD2] classified_def
        eventDomain_def integral_def)
  from append_effect [OF pe] obtain es' v r' where q: "log_before (run_store c) (mc_storage m) = log_text es'"
    "store_consistent sv ?reg (run_store c) (co_runId c) (apply_writes (pa_effects p) (mc_storage m)) v r'"
    "vs_events v = es' @ [e]"
    by (metis p(2) run_store_def)
  have "log_before (run_store c) (mc_storage m) = log_text es"
    using run by (auto simp: run_in_store_def log_before_events) (simp add: log_before_def store_empty_def)
  with q(1) have "es' = es" by (simp add: log_text_inject)
  have cur: "vs_cursor v = cursor_after e"
    using q(2,3) by (auto simp: store_consistent_def verify_Inr linked_snoc)
  obtain w where w: "verifyEventStream sv (log_text es @ line_text e @ [LF]) = Inr w" "replayEventStream sv ?reg w = Inr r"
    using r(1) by (rule extend_log_Inr)
  have "vs_canonical v = log_text es @ line_text e @ [LF]"
    using q(2,3) \<open>es' = es\<close> by (auto simp: store_consistent_def verify_Inr)
  with q(2) w have "r' = r" by (simp add: store_consistent_def)
  with r(2) have rr: "rp_state r' = t \<and> rp_canonical r' = rp_canonical r" by simp
  then have "run_in_store sv c (apply_writes (pa_effects p) (mc_storage m)) t (cursor_after e) (es @ [e])"
    using q cur \<open>es' = es\<close> r(3) unfolding run_in_store_def
    by (intro disjI2 exI [of _ v] exI [of _ r']) simp
  then show thesis by (rule that [OF pe p(2,3)])
qed

section \<open>Properties of the event store\<close>

text \<open>
  C11: A prepared append leaves the storage as it is and names two writes, to managed files
  of the run: the log as it stood with one line behind it, whose event carries the draft,
  and the canonical snapshot. With both written the store agrees with itself: the log
  verifies and replays, and the snapshot is the one it replays to.
\<close>

theorem append_extends_log:
  assumes "prepareEventAppend sv registry feature runId d m = (Inr p, n)"
  shows "mc_storage n = mc_storage m \<and> event_draft.truncate (pa_event p) = d \<and>
    (\<exists>snapshot. pa_effects p =
      [(run_file feature runId ''events.jsonl'', log_before (run_paths feature runId) (mc_storage m) @
          canonicalizeJson (event_json (pa_event p)) @ [LF]),
       (run_file feature runId ''state.json'', snapshot)]) \<and>
    list_all (\<lambda>(path, _). isManagedDestination path) (pa_effects p) \<and>
    (\<exists>v r. store_consistent sv registry (run_paths feature runId) runId
      (apply_writes (pa_effects p) (mc_storage m)) v r \<and> last (vs_events v) = pa_event p)"
proof (intro conjI)
  from assms have c: "feature_test feature" "id_test runId" by (auto elim: prepareEventAppend_Inr)
  from append_effect [OF assms] obtain es v r where a: "mc_storage n = mc_storage m"
    "log_before (run_paths feature runId) (mc_storage m) = log_text es"
    "pa_effects p = [(run_file feature runId ''events.jsonl'', log_text (es @ [pa_event p])),
       (run_file feature runId ''state.json'', rp_canonical r @ [LF])]"
    "store_consistent sv registry (run_paths feature runId) runId (apply_writes (pa_effects p) (mc_storage m)) v r"
    "vs_events v = es @ [pa_event p]" "event_draft.truncate (pa_event p) = d" by metis
  show "mc_storage n = mc_storage m" "event_draft.truncate (pa_event p) = d" by (fact a)+
  show "\<exists>snapshot. pa_effects p =
      [(run_file feature runId ''events.jsonl'', log_before (run_paths feature runId) (mc_storage m) @
          canonicalizeJson (event_json (pa_event p)) @ [LF]),
       (run_file feature runId ''state.json'', snapshot)]"
    using a(2,3) by (simp add: line_text_def)
  show "list_all (\<lambda>(path, _). isManagedDestination path) (pa_effects p)"
    using run_file_managed [OF c] store_names by (simp add: a(3))
  show "\<exists>v r. store_consistent sv registry (run_paths feature runId) runId
      (apply_writes (pa_effects p) (mc_storage m)) v r \<and> last (vs_events v) = pa_event p"
    using a(4,5) by auto
qed

text \<open>
  C7: A store to which drafts were appended one after the other is their history: its log
  verifies and holds exactly these drafts in this order, the reducers fold them to the
  replayed state of the run, and the snapshot file is the canonical text of that state.
\<close>

theorem store_refines_history:
  assumes "appended sv (workflowReducerRegistry c) (co_feature c) (co_runId c) s ds" "ds \<noteq> []"
  shows "\<exists>v st sn. file_at s (ep_events (run_store c)) = Some (vs_canonical v) \<and>
      verifyEventStream sv (vs_canonical v) = Inr v \<and> map event_draft.truncate (vs_events v) = ds \<and>
      replay_from workflow_step (workflowSeed c) ds = Inr st \<and> materialize st (vs_cursor v) = Inr sn \<and>
      sn_runId sn = co_runId c \<and> cu_revision (vs_cursor v) = int (length ds) \<and>
      file_at s (ep_snapshot (run_store c)) = Some (canonicalizeJson (snapshot_json sn) @ [LF])"
proof -
  from appended_consistent [OF assms(1)] assms(2) obtain v r where
    k: "store_consistent sv (workflowReducerRegistry c) (run_store c) (co_runId c) s v r"
    and ds: "map event_draft.truncate (vs_events v) = ds" by (auto simp: run_store_def)
  from k have r: "replay_from (reduceOnce (workflowReducerRegistry c)) (workflowSeed c) (vs_events v) = Inr (rp_state r)"
    "materialize (rp_state r) (vs_cursor v) = Inr (rp_snapshot r)"
    "rp_canonical r = canonicalizeJson (snapshot_json (rp_snapshot r))"
    by (simp_all add: store_consistent_def replay_Inr) (simp_all add: workflowReducerRegistry_def)
  have "replay_from workflow_step (workflowSeed c) (vs_events v) = Inr (rp_state r)" using r(1) replay_workflow by blast
  then have "replay_from workflow_step (workflowSeed c) ds = Inr (rp_state r)"
    using replay_truncate [of "workflowSeed c" "vs_events v"] by (simp add: ds)
  moreover have "cu_revision (vs_cursor v) = int (length ds)"
    using k linked_revision [of sv first_cursor "vs_events v" "vs_cursor v"] arg_cong [OF ds, of length]
    by (simp add: store_consistent_def verify_Inr first_cursor_def)
  ultimately show ?thesis
    using k r ds by (intro exI [of _ v] exI [of _ "rp_state r"] exI [of _ "rp_snapshot r"]) (simp add: store_consistent_def)
qed

text \<open>
  C8: What a request records can be stored: on a sound store whose reads do not fail, the
  event a request of any kind drafts, once it seals, fits the limits and gives a snapshot
  the validator accepts, is prepared and its writes bring the store to the state behind it.
\<close>

theorem recorded_request_appends:
  assumes "feature_test (co_feature c)" "id_test (co_runId c)" "order_free sv"
    and "run_in_store sv c (mc_storage m) st cursor es" "workflow_inv st" "mc_rules m = []"
    and "draft_request digest (observe st) request = Some d" "ev_stateContract d \<in> {V1_2, V1_3, V1_4}"
    and "sealEvent sv d cursor = Inr e" "\<forall>t. workflow_step st d = Inr t \<longrightarrow> admits sv es e t"
  shows "\<exists>p n t. prepareEventAppend sv (workflowReducerRegistry c) (co_feature c) (co_runId c) d m = (Inr p, n) \<and>
      pa_event p = e \<and> deliver (draft_request digest) st request = Inr t \<and> workflow_inv t \<and>
      run_in_store sv c (apply_writes (pa_effects p) (mc_storage m)) t (cursor_after e) (es @ [e])"
proof -
  from any.drafted [OF assms(5,7)] assms(10) obtain t where t: "workflow_step st d = Inr t" "admits sv es e t"
    by (auto simp: is_ok_iff)
  obtain p n where "prepareEventAppend sv (workflowReducerRegistry c) (co_feature c) (co_runId c) d m = (Inr p, n)"
    "pa_event p = e" "run_in_store sv c (apply_writes (pa_effects p) (mc_storage m)) t (cursor_after e) (es @ [e])"
    by (rule run_appends [OF assms(1,2,4,3,5,6,8,9) t])
  moreover have "deliver (draft_request digest) st request = Inr t" using assms(7) t by (simp add: deliver_def)
  moreover from this have "workflow_inv t" using any.deliver_ok [OF assms(5), of digest request] by auto
  ultimately show ?thesis by blast
qed

section \<open>A sample store\<close>

definition sample_configuration :: reducer_configuration where
  "sample_configuration =
     \<lparr> co_projectId = ''p1'', co_feature = ''login'', co_runId = ''r1'', co_lineage = sample_lineage \<rparr>"

definition sample_void :: machine where
  "sample_void = \<lparr> mc_storage = \<lparr> sg_files = [], sg_directories = [] \<rparr>, mc_occurrences = [], mc_rules = [],
     mc_history = [], mc_ticks = 0, mc_ids = 0,
     mc_context = \<lparr> fc_transactionId = None, fc_recoveryToken = None, fc_validatedRecovery = False,
       fc_publishingAuthorized = False \<rparr> \<rparr>"

definition sample_run_draft :: event_draft where
  "sample_run_draft = the (draft_request (\<lambda>_. sample_digest) (observe sample_seed) (Start_request sample_start))"

definition sample_run_event :: event where
  "sample_run_event = with_hashes sample_run_draft None (replicate 64 (CHR ''a''))"

lemma sample_run_drafted:
  "draft_request (\<lambda>_. sample_digest) (observe sample_seed) (Start_request sample_start) = Some sample_run_draft"
  by code_simp

lemma sample_run_sealed: "sealEvent sample_event_services sample_run_draft first_cursor = Inr sample_run_event"
  by code_simp

lemma sample_run_step: "workflow_step sample_seed sample_run_draft = Inr sample_started"
  by code_simp

lemma sample_run_bound: "text_bound (event_json sample_run_event) < 30000"
  by code_simp

lemma sample_run_contract: "ev_stateContract sample_run_draft = V1_2"
  by code_simp

definition sample_snapshot :: snapshot where
  "sample_snapshot = \<lparr> sn_projectId = ''p1'', sn_runId = ''r1'', sn_status = Active, sn_currentStep = Some Prd,
     sn_eventCursor = 1, sn_eventHash = replicate 64 (CHR ''a''), sn_policyVersion = ''workflow-v2'',
     sn_lineage = sample_lineage, sn_createdAt = ''2026-01-01T00:00:00.000Z'', sn_updatedAt = ''2026-01-01T00:00:00.000Z'' \<rparr>"

lemma sample_materialized: "materialize sample_started (cursor_after sample_run_event) = Inr sample_snapshot"
  by code_simp

lemma sample_snapshot_bound: "text_bound (snapshot_json sample_snapshot) < 30000"
  by code_simp

lemma sample_admits: "admits sample_event_services [] sample_run_event sample_started"
proof -
  have "utf8_length (line_text sample_run_event) < 30000"
    using canonical_bound [OF event_wf, of sample_run_event] sample_run_bound by (simp add: line_text_def)
  moreover have "utf8_length (canonicalizeJson (snapshot_json sample_snapshot)) < 30000"
    using canonical_bound [OF snapshot_codec.encode_wf, of sample_snapshot] sample_snapshot_bound by linarith
  ultimately show ?thesis
    by (simp add: admits_def log_fits_def sample_materialized EVENT_RECORD_BYTES_def EVENT_STREAM_BYTES_def
        EVENT_STREAM_COUNT_def MAX_SAFE_INTEGER_def LF_def code_unit_def sample_event_services_def sample_validate_def
        snapshot_json_def)
qed

lemma sample_empty: "run_in_store sample_event_services sample_configuration (mc_storage sample_void) sample_seed first_cursor []"
  by (simp add: run_in_store_def store_empty_def sample_void_def file_at_def dir_at_def sample_seed_def sample_configuration_def)

lemma sample_names: "feature_test (co_feature sample_configuration)" "id_test (co_runId sample_configuration)"
  by code_simp+

lemma sample_void_rules: "mc_rules sample_void = []"
  by (simp add: sample_void_def)

lemma sample_appended:
  obtains p n where "prepareEventAppend sample_event_services (workflowReducerRegistry sample_configuration)
      (co_feature sample_configuration) (co_runId sample_configuration) sample_run_draft sample_void = (Inr p, n)"
    "pa_event p = sample_run_event"
proof -
  have "ev_stateContract sample_run_draft \<in> {V1_2, V1_3, V1_4}" by (simp add: sample_run_contract)
  then show thesis
    by (rule run_appends [OF sample_names sample_empty sample_order_free sample_seed_inv sample_void_rules _
          sample_run_sealed sample_run_step sample_admits that])
qed

theorem append_extends_log_witness:
  "\<exists>p n. prepareEventAppend sample_event_services (workflowReducerRegistry sample_configuration)
      (co_feature sample_configuration) (co_runId sample_configuration) sample_run_draft sample_void = (Inr p, n) \<and>
    mc_storage n = mc_storage sample_void \<and> event_draft.truncate (pa_event p) = sample_run_draft"
  by (rule sample_appended) (use append_extends_log in blast)

lemma sample_history:
  "\<exists>s. appended sample_event_services (workflowReducerRegistry sample_configuration)
      (co_feature sample_configuration) (co_runId sample_configuration) s [sample_run_draft]"
proof (rule sample_appended)
  fix p n assume p: "prepareEventAppend sample_event_services (workflowReducerRegistry sample_configuration)
      (co_feature sample_configuration) (co_runId sample_configuration) sample_run_draft sample_void = (Inr p, n)"
  have "store_empty (run_paths (co_feature sample_configuration) (co_runId sample_configuration)) (mc_storage sample_void)"
    by (simp add: store_empty_def sample_void_def file_at_def)
  from append [OF opened [OF this] p] show ?thesis by auto
qed

theorem store_refines_history_witness:
  "\<exists>s v st. verifyEventStream sample_event_services (vs_canonical v) = Inr v \<and>
     file_at s (ep_events (run_store sample_configuration)) = Some (vs_canonical v) \<and>
     replay_from workflow_step (workflowSeed sample_configuration) [sample_run_draft] = Inr st"
proof -
  from sample_history obtain s where "appended sample_event_services (workflowReducerRegistry sample_configuration)
      (co_feature sample_configuration) (co_runId sample_configuration) s [sample_run_draft]" by blast
  from store_refines_history [OF this] show ?thesis by blast
qed

theorem recorded_request_appends_witness:
  "\<exists>p n t. prepareEventAppend sample_event_services (workflowReducerRegistry sample_configuration)
      (co_feature sample_configuration) (co_runId sample_configuration) sample_run_draft sample_void = (Inr p, n) \<and>
    pa_event p = sample_run_event \<and>
    run_in_store sample_event_services sample_configuration (apply_writes (pa_effects p) (mc_storage sample_void)) t
      (cursor_after sample_run_event) [sample_run_event]"
  using recorded_request_appends [OF sample_names sample_order_free sample_empty sample_seed_inv sample_void_rules
      sample_run_drafted _ sample_run_sealed] sample_run_contract sample_run_step sample_admits
  by (auto 0 3)

end
