(* ===== verification/Transaction_Steps.thy ===== *)
theory Transaction_Steps
  imports Transaction_States
begin

text \<open>
  The steps execution and recovery share: persisting a progress document the storage
  fits, publishing one operation, sweeping the staging directory. Every storage a step
  leaves behind is a crash state of its job.
\<close>

section \<open>Moves between states\<close>

lemma crash_fits: "progress_is j p s \<Longrightarrow> fits j p s \<Longrightarrow> crash j s"
  by (auto simp: crash_def)

text \<open>Changing a progress document in memory that the storage already fits.\<close>

lemma hoare_stamped:
  assumes "\<And>s. P s \<Longrightarrow> I s" "\<And>t. free \<or> valid_progress (p\<lparr>pg_updatedAt := t\<rparr>) \<or> t \<notin> range (sv_now sv)"
    "\<And>t s. P s \<Longrightarrow> valid_progress (p\<lparr>pg_updatedAt := t\<rparr>) \<Longrightarrow> Q (p\<lparr>pg_updatedAt := t\<rparr>) s"
  shows "hoare I free P (stamped sv p) Q"
  unfolding stamped_def
proof (rule hoare_and_then [OF hoare_now [where Q = "\<lambda>t s. t \<in> range (sv_now sv) \<and> P s"]])
  fix t
  show "hoare I free (\<lambda>s. t \<in> range (sv_now sv) \<and> P s) (validateProgress (p\<lparr>pg_updatedAt := t\<rparr>)) Q"
    by (rule hoare_fact, rule hoare_validate) (use assms in auto)
qed simp

lemma scratch_eq_trans: "scratch_eq j s t \<Longrightarrow> scratch_eq j t u \<Longrightarrow> scratch_eq j s u"
  by (simp add: scratch_eq_def)

lemma scratch_eq_refl [simp]: "scratch_eq j s s"
  by (simp add: scratch_eq_def)

text \<open>Persisting a document that the storage fits, over one that it fits too.\<close>

lemma hoare_persist_fitting:
  assumes id: "id_test (jb_id j)" and valid: "free \<or> valid_progress p"
    and old: "\<And>s. P s \<Longrightarrow> \<exists>q. progress_is j q s \<and> fits j q s"
    and new: "\<And>s. P s \<Longrightarrow> valid_progress p \<Longrightarrow> fits j p s"
    and keeps: "\<And>s t. P s \<Longrightarrow> scratch_eq j s t \<Longrightarrow> A t"
    and pid: "\<And>s. P s \<Longrightarrow> pg_transactionId p = jb_id j"
  shows "hoare (crash j) free P (persistProgress sv p)
    (\<lambda>_ s. A s \<and> progress_is j p s \<and> fits j p s \<and> file_at s (next_path (jroot j)) = None)"
proof (cases "\<exists>s. P s")
  case False
  then show ?thesis by (simp add: hoare_def)
next
  case True
  let ?R = "\<lambda>q s. \<exists>s0. P s0 \<and> scratch_eq j s0 s \<and> fits j q s0"
  let ?old = "\<lambda>q. Some (document_text (progress_json q))"
  have fits_old: "fits j q s" and fits_new: "valid_progress p \<Longrightarrow> fits j p s" and A: "A s" if "?R q s" for q s
    using that fits_scratch new keeps by blast+
  have "hoare (crash j) free (\<lambda>s. ?R q s \<and> file_at s (progress_path (jroot j)) = ?old q) (persistProgress sv p)
      (\<lambda>_ s. ?R q s \<and> progress_is j p s \<and> file_at s (next_path (jroot j)) = None \<and> valid_progress p)" for q
  proof (rule hoare_persist)
    show "?R q t" if "?R q s" "scratch_eq j s t" for s t using that scratch_eq_trans by blast
    show "dir_at s (jroot j) \<and> \<not> dir_at s (next_path (jroot j)) \<and> \<not> dir_at s (progress_path (jroot j))" if "?R q s" for s
      using fits_old [OF that] inside_own [of j s] by (simp add: fits_def)
    show "crash j s" if "?R q s" "file_at s (progress_path (jroot j)) = ?old q" for s
      using that(2) fits_old [OF that(1)] by (auto simp: crash_def progress_is_def)
    show "crash j s" if "?R q s" "valid_progress p" "progress_is j p s" for s
      using that fits_new [OF that(1)] by (auto intro: crash_fits)
    show "pg_transactionId p = jb_id j" using True pid by blast
  qed (rule id, rule valid)
  then have "hoare (crash j) free (\<lambda>s. \<exists>q. ?R q s \<and> file_at s (progress_path (jroot j)) = ?old q) (persistProgress sv p)
      (\<lambda>_ s. A s \<and> progress_is j p s \<and> fits j p s \<and> file_at s (next_path (jroot j)) = None)"
    by (intro hoare_exists) (rule hoare_post, assumption, use A fits_new in blast)
  then show ?thesis
  proof (rule hoare_pre)
    fix s assume P: "P s"
    with old obtain q where "progress_is j q s" "fits j q s" by blast
    with P have "?R q s \<and> file_at s (progress_path (jroot j)) = ?old q" by (auto simp: progress_is_def)
    then show "\<exists>q. ?R q s \<and> file_at s (progress_path (jroot j)) = ?old q" by (rule exI)
  qed
qed


section \<open>Parents of destinations\<close>

lemma last_separator_Some: "last_separator p = Some i \<Longrightarrow> i < length p \<and> p ! i = CHR ''/''"
  by (induction p arbitrary: i) (auto split: option.splits if_splits)

lemma storage_parent_Some:
  assumes "storage_parent p = Some par"
  shows "\<exists>b. p = par @ CHR ''/'' # b"
proof -
  from assms obtain i where i: "last_separator p = Some i" "par = take i p" by (auto simp: storage_parent_def)
  from last_separator_Some [OF i(1)] have "p = take i p @ CHR ''/'' # drop (Suc i) p"
    by (metis Cons_nth_drop_Suc append_take_drop_id)
  with i(2) show ?thesis by blast
qed

lemma parent_durable:
  assumes p: "isManagedDirectoryDestination p" and par: "storage_parent p = Some par"
  shows "durable_path par" "par \<noteq> ''.''"
proof -
  from storage_parent_Some [OF par] obtain b where b: "p = par @ CHR ''/'' # b" by blast
  then have parent: "isParent par p" by (simp add: isParent_def starts_with_exists)
  then have "\<not> isManagedRoot p" using root_parentless by blast
  with p have d: "isManagedDestination p" by (auto simp: isManagedDirectoryDestination_def split: if_splits)
  show "durable_path par"
  proof (cases "par = ''.brain''")
    case True
    have "isManagedPathShape ''.brain''" by code_simp
    with True show ?thesis by (simp add: shape_durable)
  next
    case False
    with managed_parent [OF d parent] show ?thesis by (simp add: destination_durable)
  qed
  show "par \<noteq> ''.''"
  proof
    assume dot: "par = ''.''"
    have "segments_of ''.'' = [''.'']" by code_simp
    have "segments_of p = segments_of ''.'' @ segments_of b" unfolding b dot by (rule segments_of_prefix)
    with \<open>segments_of ''.'' = [''.'']\<close> have "''.'' \<in> set (segments_of p)" by simp
    moreover have "\<not> plain_segment ''.''" by (simp add: plain_segment_def)
    ultimately show False using managed_destination(1) [OF d] by (auto simp: list_all_iff)
  qed
qed

lemma parent_outside:
  assumes j: "job_ok j" "k < jlen j" and par: "storage_parent (dr_path (jop j k)) = Some par"
  shows "\<not> under (jroot j) par"
proof
  assume "under (jroot j) par"
  moreover obtain b where "dr_path (jop j k) = par @ CHR ''/'' # b" using storage_parent_Some [OF par] by blast
  ultimately have "under (jroot j) (dr_path (jop j k))" by (auto simp: under_def starts_with_exists)
  with jop_outside(1) [OF j] show False by simp
qed

lemma parent_found:
  assumes j: "job_ok j" "k < jlen j"
    and v: "view sv s (parentOf (dr_path (jop j k))) = Directory"
  shows "has_parent s (dr_path (jop j k))"
proof (cases "storage_parent (dr_path (jop j k))")
  case (Some par)
  with parent_durable(2) [OF jop_destination [OF j] Some] v show ?thesis
    by (auto simp: has_parent_def parentOf_def view_def fingerprint_at_def split: option.splits if_splits)
qed (simp add: has_parent_def)

lemma parentOf_observable:
  assumes "job_ok j" "k < jlen j"
  shows "parentOf (dr_path (jop j k)) = ''.'' \<or> durable_path (parentOf (dr_path (jop j k)))"
  using parent_durable(1) [OF jop_destination [OF assms]] by (auto simp: parentOf_def split: option.splits)

section \<open>Publishing one operation\<close>

text \<open>The first \<open>k\<close> operations are published, the payloads of the others staged.\<close>

definition at_op :: "job \<Rightarrow> nat \<Rightarrow> storage \<Rightarrow> bool" where
  "at_op j k s \<longleftrightarrow> inside j s \<and> manifest_in j s \<and> outside j k s \<and> staged_from j k s"

definition pubdoc :: "job \<Rightarrow> nat \<Rightarrow> transaction_progress \<Rightarrow> bool" where
  "pubdoc j k p \<longleftrightarrow> documented j p \<and> pg_phase p = Publishing \<and> pg_published p = take k (jids j)"

lemma pubdoc_fits:
  assumes "pubdoc j k p" "expected_ok j" "k \<le> jlen j" "at_op j i s" "i = k \<or> i = Suc k" "i \<le> jlen j"
  shows "fits j p s"
  using assms by (auto simp: fits_def pubdoc_def at_op_def min_def)

lemma at_op_scratch: "at_op j k s \<Longrightarrow> scratch_eq j s t \<Longrightarrow> at_op j k t"
  by (auto simp: at_op_def dest: scratch_eq_states)

definition publish_on :: "job \<Rightarrow> nat \<Rightarrow> storage \<Rightarrow> storage" where
  "publish_on j k s =
     (case dr_kind (jop j k) of
        Create_op \<Rightarrow> add_dir (dr_path (jop j k)) s
      | Write_op c \<Rightarrow> set_file (dr_path (jop j k)) c (delete_file (payload j k) s)
      | Delete_op \<Rightarrow> delete_file (dr_path (jop j k)) s)"

lemma publish_on_at:
  "file_at (publish_on j k s) p =
     (if p = dr_path (jop j k) then
        (case dr_kind (jop j k) of Create_op \<Rightarrow> file_at s p | Write_op c \<Rightarrow> Some c | Delete_op \<Rightarrow> None)
      else if p = payload j k \<and> content_of j k \<noteq> None then None else file_at s p)"
  "dir_at (publish_on j k s) p \<longleftrightarrow> dir_at s p \<or> (p = dr_path (jop j k) \<and> dr_kind (jop j k) = Create_op)"
  by (auto simp: publish_on_def content_of_def jop_def split: operation_kind.splits)

lemma effect_on_at:
  "file_at (effect_on (jop j k) s) p =
     (if p = dr_path (jop j k) then
        (case dr_kind (jop j k) of Create_op \<Rightarrow> file_at s p | Write_op c \<Rightarrow> Some c | Delete_op \<Rightarrow> None)
      else file_at s p)"
  "dir_at (effect_on (jop j k) s) p \<longleftrightarrow> dir_at s p \<or> (p = dr_path (jop j k) \<and> dr_kind (jop j k) = Create_op)"
  by (auto simp: effect_on_def split: operation_kind.splits)

lemma at_op_step:
  assumes j: "job_ok j" "k < jlen j" and s: "at_op j k s"
  shows "at_op j (Suc k) (publish_on j k s)"
proof -
  let ?t = "publish_on j k s" and ?d = "dr_path (jop j k)"
  note out = jop_outside(1) [OF j]
  have f: "file_at ?t p = file_at s p" if "under (jroot j) p" "p \<noteq> payload j k" for p
    using that out by (auto simp: publish_on_at)
  have d: "dir_at ?t p = dir_at s p" if "under (jroot j) p" for p
    using that out by (auto simp: publish_on_at)
  have gone: "file_at ?t (payload j k) = None"
  proof -
    have "payload j k \<noteq> ?d" using out own_under(6) by metis
    moreover have "content_of j k = None \<Longrightarrow> file_at s (payload j k) = None"
      using s j by (auto simp: at_op_def staged_from_def)
    ultimately show ?thesis by (auto simp: publish_on_at)
  qed
  have "outside j (Suc k) ?t"
    unfolding outside_def
  proof (intro allI impI)
    fix p assume p: "\<not> under (jroot j) p"
    then have "file_at s p = file_at (applied j k) p" "dir_at s p = dir_at (applied j k) p"
      using s by (simp_all add: at_op_def outside_def)
    moreover have "p \<noteq> payload j k" using p own_under(6) by metis
    ultimately show "file_at ?t p = file_at (applied j (Suc k)) p \<and> dir_at ?t p = dir_at (applied j (Suc k)) p"
      unfolding applied_Suc [OF j(2)]
      by (auto simp: publish_on_at effect_on_at jop_def [symmetric] split: operation_kind.splits)
  qed
  moreover have "inside j ?t"
  proof -
    have kept: "file_at s p \<noteq> None" if "under (jroot j) p" "file_at ?t p \<noteq> None" for p
      using that f [of p] gone by (cases "p = payload j k") auto
    have "file_at ?t (jroot j) = file_at s (jroot j)" by (rule f) simp_all
    with s kept d show ?thesis unfolding at_op_def inside_def by simp
  qed
  moreover have "manifest_in j ?t" using s f [of "manifest_path (jroot j)"] by (simp add: at_op_def manifest_in_def)
  moreover have "staged_from j (Suc k) ?t"
    unfolding staged_from_def
  proof (intro conjI allI impI)
    show "dir_at ?t (staging_path (jroot j))" using s d by (simp add: at_op_def staged_from_def)
    fix i assume i: "i < jlen j"
    show "file_at ?t (payload j i) = (if Suc k \<le> i then content_of j i else None)"
    proof (cases "i = k")
      case False
      then have "file_at ?t (payload j i) = file_at s (payload j i)" by (intro f) auto
      with s i False show ?thesis by (auto simp: at_op_def staged_from_def)
    qed (use gone in simp)
  qed
  ultimately show ?thesis by (simp add: at_op_def)
qed


lemma staged_payload: "job_ok j \<Longrightarrow> k < jlen j \<Longrightarrow> dr_kind (jop j k) = Write_op c \<Longrightarrow>
    stagedPayloadPath (jroot j) (jop j k) = payload j k"
  using jop_shape [of j k] by (simp add: operation_shape_def stagedPayloadPath_def payload_def)

lemma manifest_operation_sel [simp]:
  "po_operationId (manifest_operation r operation) = mo_operationId operation"
  "po_path (manifest_operation r operation) = dr_path operation"
  "po_expected (manifest_operation r operation) = dr_expected operation"
  "po_result (manifest_operation r operation) = dr_result operation"
  "po_kind (manifest_operation r operation) =
     (case dr_kind operation of Create_op \<Rightarrow> Persisted_create | Write_op _ \<Rightarrow> Persisted_write | Delete_op \<Rightarrow> Persisted_delete)"
  "po_stagedPath (manifest_operation r operation) = map_option (\<lambda>s. r @ ''/'' @ s) (mo_stagedPath operation)"
  by (simp_all add: manifest_operation_def Let_def toPersistedManagedOperation_def)

lemma jop_staged:
  assumes "job_ok j" "k < jlen j"
  shows "po_stagedPath (manifest_operation (jroot j) (jop j k)) = (if content_of j k = None then None else Some (payload j k))"
  using jop_shape [OF assms] by (auto simp: operation_shape_def content_of_def jop_def payload_def split: operation_kind.splits)

lemma publish_persisted:
  assumes "job_ok j" "k < jlen j"
  shows "publishPersistedOperation (manifest_operation (jroot j) (jop j k)) = publishOperation (jop j k) (jroot j)"
  using jop_staged [OF assms] staged_payload [OF assms]
  by (auto simp: publishPersistedOperation_def publishOperation_def content_of_def jop_def split: operation_kind.splits)

lemma at_op_progress [simp]:
  "job_ok j \<Longrightarrow> k < jlen j \<Longrightarrow> progress_is j p (publish_on j k s) \<longleftrightarrow> progress_is j p s"
proof -
  assume "job_ok j" "k < jlen j"
  from jop_outside(1) [OF this] have "progress_path (jroot j) \<noteq> dr_path (jop j k)" by (metis own_under(2))
  then show ?thesis by (simp add: progress_is_def publish_on_at)
qed

lemma at_op_destination:
  assumes "job_ok j" "k < jlen j" "at_op j i s" "i \<le> k"
  shows "dir_at s (dr_path (jop j k)) \<longrightarrow> file_at s (dr_path (jop j k)) = None"
proof -
  have "\<forall>l < i. dr_path (jop j k) \<noteq> dr_path (jop j l)" using assms jop_paths [OF assms(1,2)] by auto
  with applied_other [of i j "dr_path (jop j k)"] assms jop_outside(1) [OF assms(1,2)] show ?thesis
    by (simp add: at_op_def outside_def job_ok_def)
qed

lemma hoare_publish:
  assumes j: "job_ok j" "expected_ok j" "k < jlen j" and q: "pubdoc j k q"
  shows "hoare (crash j) free
    (\<lambda>s. at_op j k s \<and> progress_is j q s \<and> view (jb_services j) s (parentOf (dr_path (jop j k))) = Directory \<and>
       view (jb_services j) s (dr_path (jop j k)) = dr_expected (jop j k))
    (publishOperation (jop j k) (jroot j))
    (\<lambda>_ s. at_op j (Suc k) s \<and> progress_is j q s)"
proof -
  let ?d = "dr_path (jop j k)"
  let ?P = "\<lambda>s. at_op j k s \<and> progress_is j q s \<and> view (jb_services j) s (parentOf ?d) = Directory \<and>
       view (jb_services j) s ?d = dr_expected (jop j k)"
  have id: "id_test (jb_id j)" using j by (simp add: job_ok_def)
  note durable = destination_durable [OF jop_destination [OF j(1,3)]] own_durable [OF id]
  have nd: "?d \<noteq> ''.''" using jop_outside(2) [OF j(1,3)] .
  have I: "crash j s" if "?P s" for s
    using that pubdoc_fits [OF q j(2), of k s] j(3) by (auto intro: crash_fits)
  have I': "crash j (publish_on j k s) \<and> at_op j (Suc k) (publish_on j k s) \<and> progress_is j q (publish_on j k s)" if "?P s" for s
  proof -
    have at: "at_op j (Suc k) (publish_on j k s)" using that at_op_step [OF j(1,3)] by simp
    then have "fits j q (publish_on j k s)" using pubdoc_fits [OF q j(2)] j(3) by simp
    with at that j show ?thesis by (auto intro: crash_fits)
  qed
  have parent: "has_parent s ?d" if "?P s" for s using that parent_found [OF j(1,3), of "jb_services j" s] by simp
  note shape = jop_shape [OF j(1,3)]
  show ?thesis
  proof (cases "dr_kind (jop j k)")
    case Create_op
    with shape have "dr_expected (jop j k) = Missing" by (simp add: operation_shape_def)
    with nd have vac: "?P s \<Longrightarrow> vacant s ?d" for s using view_missing_iff by simp
    have eq: "add_dir ?d s = publish_on j k s" for s using Create_op by (simp add: publish_on_def)
    from Create_op show ?thesis unfolding publishOperation_def
      by (simp, intro hoare_create) (use I I' parent vac durable in \<open>auto simp: eq vacant_def\<close>)
  next
    case (Write_op c)
    have eq: "set_file ?d c (delete_file (payload j k) s) = publish_on j k s" for s
      using Write_op by (simp add: publish_on_def)
    have payload: "file_at s (payload j k) = Some c" "dir_at s (staging_path (jroot j))" if "?P s" for s
      using that Write_op j(3) by (auto simp: at_op_def staged_from_def content_of_def jop_def)
    have "dr_expected (jop j k) \<noteq> Directory" using shape Write_op by (simp add: operation_shape_def)
    then have free: "\<not> dir_at s ?d" if "?P s" for s
      using that at_op_destination [OF j(1,3), of k s] nd by (metis order_refl view_is_dir)
    from Write_op show ?thesis unfolding publishOperation_def staged_payload [OF j(1,3) Write_op]
      by (simp, intro hoare_replace)
         (use I I' parent payload free durable eq in \<open>auto simp: has_parent_def\<close>)
  next
    case Delete_op
    have eq: "delete_file ?d s = publish_on j k s" for s using Delete_op by (simp add: publish_on_def)
    have "is_file_print (dr_expected (jop j k))" using shape Delete_op by (simp add: operation_shape_def)
    then have present: "file_at s ?d \<noteq> None" if "?P s" for s
      using that view_is_file [OF nd] by metis
    from Delete_op show ?thesis unfolding publishOperation_def
      by (simp, intro hoare_remove) (use I I' present durable eq in auto)
  qed
qed


section \<open>Cleaning up\<close>

text \<open>A finished transaction: nothing, or everything, took effect.\<close>

definition term_state :: "job \<Rightarrow> transaction_phase \<Rightarrow> storage \<Rightarrow> bool" where
  "term_state j phase s \<longleftrightarrow> inside j s \<and> manifest_in j s \<and> orphan_free j s \<and> loosely_staged j s \<and>
     outside j (if phase = Committed then jlen j else 0) s \<and> (phase = Committed \<longrightarrow> unstaged j s)"

definition termdoc :: "job \<Rightarrow> transaction_progress \<Rightarrow> bool" where
  "termdoc j p \<longleftrightarrow> documented j p \<and> pg_manifestDigest p \<noteq> None \<and>
     ((pg_phase p = Committed \<and> pg_published p = jids j \<and> expected_ok j) \<or>
      (pg_phase p = Aborted \<and> pg_published p = []))"

lemma termdoc_fits: "termdoc j p \<Longrightarrow> fits j p s \<longleftrightarrow> term_state j (pg_phase p) s"
  by (auto simp: termdoc_def fits_def term_state_def unstaged_def orphan_free_def loosely_staged_def)

text \<open>No residue of the transaction but its two documents.\<close>

definition clean :: "job \<Rightarrow> storage \<Rightarrow> bool" where
  "clean j s \<longleftrightarrow> unstaged j s \<and> \<not> dir_at s (staging_path (jroot j)) \<and> file_at s (next_path (jroot j)) = None"

lemma manifest_paths:
  assumes "job_ok j"
  shows "set (staged_paths (mf_operations (jmanifest j))) = {payload j i | i. i < jlen j \<and> content_of j i \<noteq> None}"
proof -
  have "set (staged_paths (map f xs)) = {p. \<exists>i < length xs. po_stagedPath (f (xs ! i)) = Some p}"
    for f :: "managed_operation \<Rightarrow> persisted_operation" and xs
    by (force simp: staged_paths_def in_set_conv_nth split: option.splits)
  then have "set (staged_paths (mf_operations (jmanifest j))) =
      {p. \<exists>i < jlen j. po_stagedPath (manifest_operation (jroot j) (jop j i)) = Some p}"
    by (simp only: jmanifest_def jlen_def jop_def transaction_manifest.select_convs)
  also have "\<dots> = {p. \<exists>i < jlen j. content_of j i \<noteq> None \<and> p = payload j i}"
    using jop_staged [OF assms] by (auto simp del: manifest_operation_sel split: if_splits)
  finally show ?thesis by blast
qed

lemma term_state_remove:
  assumes "term_state j phase s"
  shows "term_state j phase (delete_file (payload j i) s)" "term_state j phase (delete_file (next_path (jroot j)) s)"
    "unstaged j s \<Longrightarrow> term_state j phase (remove_dir (staging_path (jroot j)) s)"
proof -
  have "term_state j phase t"
    if dirs: "\<And>p. dir_at t p \<longleftrightarrow> dir_at s p \<and> (p = staging_path (jroot j) \<longrightarrow> dir_at t p)"
      and staging: "dir_at s (staging_path (jroot j)) \<Longrightarrow> \<not> dir_at t (staging_path (jroot j)) \<Longrightarrow> unstaged j s"
      and files: "\<And>p. file_at t p = file_at s p \<or> (file_at t p = None \<and> under (jroot j) p \<and> p \<noteq> manifest_path (jroot j))" for t
  proof -
    have sub: "file_at t p \<noteq> None \<Longrightarrow> file_at t p = file_at s p" for p using files [of p] by auto
    have out: "file_at t p = file_at s p \<and> dir_at t p = dir_at s p" if "\<not> under (jroot j) p" for p
    proof -
      have "p \<noteq> staging_path (jroot j)" using that own_under(5) by metis
      with files [of p] dirs [of p] that show ?thesis by blast
    qed
    then have "outside j k s \<Longrightarrow> outside j k t" for k unfolding outside_def by simp
    moreover have "inside j s \<Longrightarrow> inside j t"
    proof -
      have "dir_at t (jroot j) = dir_at s (jroot j)" using dirs [of "jroot j"] own_paths_distinct'(10) by metis
      moreover have "dir_at t p \<Longrightarrow> dir_at s p" for p using dirs [of p] by blast
      moreover have "file_at s (jroot j) = None \<Longrightarrow> file_at t (jroot j) = None" using sub by metis
      moreover have "file_at t p \<noteq> None \<Longrightarrow> file_at s p \<noteq> None" for p using sub by metis
      ultimately show "inside j s \<Longrightarrow> inside j t" unfolding inside_def by blast
    qed
    moreover have "manifest_in j s \<Longrightarrow> manifest_in j t" using files [of "manifest_path (jroot j)"] by (simp add: manifest_in_def)
    moreover have "orphan_free j s \<Longrightarrow> orphan_free j t"
      unfolding orphan_free_def using sub staging by (metis unstaged_def)
    moreover have "loosely_staged j s \<Longrightarrow> loosely_staged j t" unfolding loosely_staged_def using files by (metis insertCI)
    moreover have "unstaged j s \<Longrightarrow> unstaged j t" unfolding unstaged_def using sub by metis
    ultimately show ?thesis using assms by (auto simp: term_state_def)
  qed
  note step = this
  show "term_state j phase (delete_file (payload j i) s)" "term_state j phase (delete_file (next_path (jroot j)) s)"
    "unstaged j s \<Longrightarrow> term_state j phase (remove_dir (staging_path (jroot j)) s)"
    by (rule step; auto)+
qed


lemma term_state_own:
  assumes "term_state j phase s"
  shows "dir_at s (jroot j)" "file_at s (staging_path (jroot j)) = None" "\<not> dir_at s (next_path (jroot j))"
    "\<not> dir_at s (payload j i)"
  using assms inside_own [of j s] by (simp_all add: term_state_def)

lemma term_state_inside: "term_state j phase s \<Longrightarrow> inside j s"
  by (simp add: term_state_def)

lemma removed_progress [simp]:
  "unstaged j (remove_dir p s) \<longleftrightarrow> unstaged j s"
  "progress_is j q (delete_file (payload j i) s) \<longleftrightarrow> progress_is j q s"
  "progress_is j q (delete_file (next_path (jroot j)) s) \<longleftrightarrow> progress_is j q s"
  "progress_is j q (remove_dir p s) \<longleftrightarrow> progress_is j q s"
  by (simp_all add: progress_is_def unstaged_def)

lemma set_entryNames:
  "set (entryNames s path) =
     {first_segment (drop (length path + 1) p) | p. starts_with (path @ ''/'') p \<and> (file_at s p \<noteq> None \<or> dir_at s p)}"
proof -
  have "fst ` set (sg_files s) = {p. file_at s p \<noteq> None}"
    by (auto simp: file_at_def map_of_eq_None_iff)
  moreover have "set (sg_directories s) = {p. dir_at s p}" by (auto simp: dir_at_def)
  ultimately show ?thesis unfolding entryNames_def by (auto simp: image_iff)
qed

lemma set_immediateEntries: "set (immediateEntries localeCompare s path) = set (entryNames s path)"
  by (simp add: immediateEntries_def set_js_sort)

lemma entryNames_empty:
  "entryNames s path = [] \<longleftrightarrow> (\<forall>p. starts_with (path @ ''/'') p \<longrightarrow> vacant s p)"
proof -
  have "entryNames s path = [] \<longleftrightarrow> set (entryNames s path) = {}" by simp
  then show ?thesis unfolding set_entryNames by (auto simp: vacant_def)
qed

lemma beneath_staging:
  assumes "inside j s" "starts_with (staging_path (jroot j) @ ''/'') p" "\<not> vacant s p"
  shows "\<exists>i < jlen j. p = payload j i \<and> file_at s p \<noteq> None"
proof -
  from assms(2) obtain r where r: "p = jroot j @ ''/staging/'' @ r" by (auto simp: starts_with_exists staging_path_def)
  have "under (jroot j) p" "p \<noteq> jroot j" "p \<noteq> staging_path (jroot j)" "p \<noteq> progress_path (jroot j)"
    "p \<noteq> next_path (jroot j)" "p \<noteq> manifest_path (jroot j)"
    by (auto simp: r under_def starts_with_exists staging_path_def progress_path_def next_path_def manifest_path_def)
  with assms(1,3) show ?thesis by (auto simp: inside_def vacant_def)
qed

lemma staging_empty:
  assumes "inside j s" "unstaged j s"
  shows "entryNames s (staging_path (jroot j)) = []"
  unfolding entryNames_empty
proof (intro allI impI, rule ccontr)
  fix p assume "starts_with (staging_path (jroot j) @ ''/'') p" "\<not> vacant s p"
  from beneath_staging [OF assms(1) this] assms(2) show False by (auto simp: unstaged_def)
qed

lemma hoare_cleanup:
  assumes j: "job_ok j" and q: "termdoc j q" "pg_phase q = phase"
  shows "hoare (crash j) free (\<lambda>s. term_state j phase s \<and> progress_is j q s)
    (cleanupTransaction (jb_services j) (jmanifest j) d)
    (\<lambda>_ s. term_state j phase s \<and> progress_is j q s \<and> clean j s)"
proof -
  let ?sv = "jb_services j" and ?T = "\<lambda>s. term_state j phase s \<and> progress_is j q s"
  let ?next = "next_path (jroot j)" and ?staging = "staging_path (jroot j)"
  have id: "id_test (jb_id j)" using j by (simp add: job_ok_def)
  note durable = own_durable [OF id]
  have I: "crash j s" if "?T s" for s
    using that termdoc_fits [OF q(1)] q(2) by (auto intro: crash_fits)
  have root: "transactionRoot (mf_transactionId (jmanifest j)) = jroot j" by (simp add: jmanifest_def jroot_def)
  let ?paths = "staged_paths (mf_operations (jmanifest j))"
  note paths = manifest_paths [OF j]
  have remove: "hoare (crash j) free (\<lambda>s. ?T s \<and> entry = view ?sv s (payload j i) \<and> A s)
      (if is_file_print entry then removeFile (payload j i) else ensure (entry = Missing) (corrupt (payload j i)))
      (\<lambda>_ s. ?T s \<and> file_at s (payload j i) = None \<and> A s)"
    if "\<And>s. A s \<Longrightarrow> A (delete_file (payload j i) s)" for i entry A
    by (cases "is_file_print entry"; simp; intro hoare_remove hoare_ensure)
       (use I term_state_remove(1) that durable in \<open>auto simp: view_is_file view_missing_iff vacant_def dest: term_state_own(4)\<close>)
  let ?swept = "\<lambda>xs s. \<forall>p \<in> set xs. file_at s p = None"
  have loop: "hoare (crash j) free ?T (removePayloads ?sv ?paths) (\<lambda>_ s. ?T s \<and> ?swept ?paths s)"
    unfolding removePayloads_def
  proof (rule hoare_pre [OF hoare_each [where J = "\<lambda>xs s. ?T s \<and> ?swept xs s"]])
    fix xs x ys assume x: "?paths = xs @ x # ys"
    then have "x \<in> set ?paths" by simp
    with paths obtain i where i: "x = payload j i" by auto
    show "hoare (crash j) free (\<lambda>s. ?T s \<and> ?swept xs s)
        (and_then (observeFingerprint ?sv x) (\<lambda>entry. if is_file_print entry then removeFile x
            else ensure (entry = Missing) (corrupt x)))
        (\<lambda>_ s. ?T s \<and> ?swept (xs @ [x]) s)"
      by (rule hoare_and_then [OF hoare_observe hoare_post [OF remove [where A = "?swept xs" and i = i, folded i]]])
         (use I durable i in auto)
  qed simp
  have all: "unstaged j s" if "?T s" "?swept ?paths s" for s
  proof -
    have "file_at s (payload j i) = None" if "i < jlen j" for i
      using that \<open>?T s\<close> \<open>?swept ?paths s\<close> paths by (cases "content_of j i") (force simp: term_state_def loosely_staged_def)+
    then show ?thesis by (simp add: unstaged_def)
  qed
  have staging: "hoare (crash j) free (\<lambda>s. (?T s \<and> unstaged j s) \<and> entry = view ?sv s ?staging)
      (if entry = Directory then and_then (list_entries (sv_localeCompare ?sv) ?staging) (\<lambda>entries.
          next_do (ensure (entries = []) (corrupt ?staging)) (removeEmptyDirectory ?staging))
       else ensure (entry = Missing) (corrupt ?staging))
      (\<lambda>_ s. ?T s \<and> unstaged j s \<and> \<not> dir_at s ?staging)" for entry
  proof (cases "entry = Directory")
    case True
    have "hoare (crash j) free (\<lambda>s. (?T s \<and> unstaged j s) \<and> entry = view ?sv s ?staging)
        (list_entries (sv_localeCompare ?sv) ?staging) (\<lambda>entries s. entries = [] \<and> ?T s \<and> unstaged j s \<and> dir_at s ?staging)"
      using True I durable staging_empty
      by (intro hoare_list) (auto simp: term_state_def view_is_dir)
    moreover have "hoare (crash j) free (\<lambda>s. entries = [] \<and> ?T s \<and> unstaged j s \<and> dir_at s ?staging)
        (next_do (ensure (entries = []) (corrupt ?staging)) (removeEmptyDirectory ?staging))
        (\<lambda>_ s. ?T s \<and> unstaged j s \<and> \<not> dir_at s ?staging)" for entries
      by (rule hoare_next [where R = "\<lambda>s. ?T s \<and> unstaged j s \<and> dir_at s ?staging"]; intro hoare_ensure hoare_remove_dir)
         (use I durable staging_empty term_state_inside term_state_remove(3) in auto)
    ultimately show ?thesis using True by (auto intro: hoare_and_then)
  next
    case False
    then show ?thesis
      by (simp, intro hoare_ensure)
         (auto simp: view_missing_iff view_is_dir vacant_def dest: term_state_own(2))
  qed
  have scratch: "hoare (crash j) free (\<lambda>s. (?T s \<and> unstaged j s \<and> \<not> dir_at s ?staging) \<and> entry = view ?sv s ?next)
      (if is_file_print entry then removeFile ?next else ensure (entry = Missing) (corrupt ?next))
      (\<lambda>_ s. ?T s \<and> clean j s)" for entry
    by (cases "is_file_print entry"; simp; intro hoare_remove hoare_ensure)
       (use I term_state_remove(2) durable in \<open>auto simp: view_is_file view_missing_iff vacant_def clean_def unstaged_def
          dest: term_state_own(3)\<close>)
  have sync: "hoare (crash j) free (\<lambda>s. ?T s \<and> clean j s) (merged_sync d (jroot j)) (\<lambda>_ s. ?T s \<and> clean j s)"
    by (rule hoare_merged) (use I durable term_state_own(1) in auto)
  have "hoare (crash j) free ?T (cleanupTransaction ?sv (jmanifest j) d) (\<lambda>_ s. ?T s \<and> clean j s)"
    unfolding cleanupTransaction_def Let_def root
    by (rule hoare_next [OF hoare_post [OF loop, where Q = "\<lambda>_ s. ?T s \<and> unstaged j s"]
          hoare_and_then [OF hoare_observe hoare_next [OF staging hoare_and_then [OF hoare_observe hoare_next [OF scratch sync]]]]])
       (use I durable all in auto)
  then show ?thesis by (rule hoare_post) auto
qed


section \<open>Stamping and persisting\<close>

definition clock_ok :: "transaction_services \<Rightarrow> bool" where
  "clock_ok sv \<longleftrightarrow> (\<forall>n. timestamp_test (sv_now sv n))"

lemma sync_irrelevant [simp]:
  "valid_progress (p\<lparr>pg_directorySync := d\<rparr>) \<longleftrightarrow> valid_progress p"
  "documented j (p\<lparr>pg_directorySync := d\<rparr>) \<longleftrightarrow> documented j p"
  "fits j (p\<lparr>pg_directorySync := d\<rparr>) s \<longleftrightarrow> fits j p s"
  "termdoc j (p\<lparr>pg_directorySync := d\<rparr>) \<longleftrightarrow> termdoc j p"
  "pubdoc j k (p\<lparr>pg_directorySync := d\<rparr>) \<longleftrightarrow> pubdoc j k p"
proof -
  show v: "valid_progress (p\<lparr>pg_directorySync := d\<rparr>) \<longleftrightarrow> valid_progress p" by (simp add: valid_progress_def)
  show r: "documented j (p\<lparr>pg_directorySync := d\<rparr>) \<longleftrightarrow> documented j p" by (simp add: documented_def v cong: option.case_cong)
  show "fits j (p\<lparr>pg_directorySync := d\<rparr>) s \<longleftrightarrow> fits j p s"
    by (simp add: fits_def r cong: transaction_phase.case_cong)
  show "termdoc j (p\<lparr>pg_directorySync := d\<rparr>) \<longleftrightarrow> termdoc j p" by (simp add: termdoc_def r)
  show "pubdoc j k (p\<lparr>pg_directorySync := d\<rparr>) \<longleftrightarrow> pubdoc j k p" by (simp add: pubdoc_def r)
qed

lemma stamp_valid: "valid_progress p \<Longrightarrow> timestamp_test t \<Longrightarrow> valid_progress (p\<lparr>pg_updatedAt := t\<rparr>)"
  by (simp add: valid_progress_def)

lemma stamp_recorded: "documented j p \<Longrightarrow> valid_progress (p\<lparr>pg_updatedAt := t\<rparr>) \<Longrightarrow> documented j (p\<lparr>pg_updatedAt := t\<rparr>)"
  by (simp add: documented_def cong: option.case_cong)

lemma stamp_docs:
  assumes "valid_progress (p\<lparr>pg_updatedAt := t\<rparr>)"
  shows "termdoc j p \<Longrightarrow> termdoc j (p\<lparr>pg_updatedAt := t\<rparr>)" "pubdoc j k p \<Longrightarrow> pubdoc j k (p\<lparr>pg_updatedAt := t\<rparr>)"
    "fits j p s \<Longrightarrow> fits j (p\<lparr>pg_updatedAt := t\<rparr>) s"
  using stamp_recorded [OF _ assms, of j]
  by (simp_all add: termdoc_def pubdoc_def fits_def cong: transaction_phase.case_cong)

lemma hoare_stamp_persist:
  assumes id: "id_test (jb_id j)"
    and valid: "free \<or> (clock_ok sv \<and> (\<forall>t. timestamp_test t \<longrightarrow> valid_progress (p\<lparr>pg_updatedAt := t\<rparr>)))"
    and old: "\<And>s. P s \<Longrightarrow> \<exists>q. progress_is j q s \<and> fits j q s"
    and new: "\<And>s t. P s \<Longrightarrow> valid_progress (p\<lparr>pg_updatedAt := t\<rparr>) \<Longrightarrow> fits j (p\<lparr>pg_updatedAt := t\<rparr>) s"
    and keeps: "\<And>s t. P s \<Longrightarrow> scratch_eq j s t \<Longrightarrow> A t"
    and pid: "\<And>s. P s \<Longrightarrow> pg_transactionId p = jb_id j"
  shows "hoare (crash j) free P (stamp_and_persist sv p)
    (\<lambda>r s. \<exists>t d. r = p\<lparr>pg_updatedAt := t, pg_directorySync := d\<rparr> \<and> A s \<and> progress_is j (p\<lparr>pg_updatedAt := t\<rparr>) s \<and>
      fits j (p\<lparr>pg_updatedAt := t\<rparr>) s \<and> file_at s (next_path (jroot j)) = None)"
  unfolding stamp_and_persist_def
proof (rule hoare_and_then [OF hoare_stamped [where Q = "\<lambda>q s. (\<exists>t. q = p\<lparr>pg_updatedAt := t\<rparr> \<and> valid_progress q) \<and> P s"]])
  fix q
  show "hoare (crash j) free (\<lambda>s. (\<exists>t. q = p\<lparr>pg_updatedAt := t\<rparr> \<and> valid_progress q) \<and> P s)
      (and_then (persistProgress sv q) (\<lambda>directorySync. give (q\<lparr>pg_directorySync := directorySync\<rparr>)))
      (\<lambda>r s. \<exists>t d. r = p\<lparr>pg_updatedAt := t, pg_directorySync := d\<rparr> \<and> A s \<and> progress_is j (p\<lparr>pg_updatedAt := t\<rparr>) s \<and>
        fits j (p\<lparr>pg_updatedAt := t\<rparr>) s \<and> file_at s (next_path (jroot j)) = None)"
  proof (rule hoare_fact, elim exE conjE)
    fix t assume q: "q = p\<lparr>pg_updatedAt := t\<rparr>" "valid_progress q"
    have "hoare (crash j) free P (persistProgress sv q)
        (\<lambda>_ s. A s \<and> progress_is j q s \<and> fits j q s \<and> file_at s (next_path (jroot j)) = None)"
      by (rule hoare_persist_fitting [OF id]) (use old new keeps pid q in auto)
    then show "hoare (crash j) free P
        (and_then (persistProgress sv q) (\<lambda>directorySync. give (q\<lparr>pg_directorySync := directorySync\<rparr>)))
        (\<lambda>r s. \<exists>t d. r = p\<lparr>pg_updatedAt := t, pg_directorySync := d\<rparr> \<and> A s \<and> progress_is j (p\<lparr>pg_updatedAt := t\<rparr>) s \<and>
          fits j (p\<lparr>pg_updatedAt := t\<rparr>) s \<and> file_at s (next_path (jroot j)) = None)"
      by (rule hoare_and_then) (rule hoare_give, use q(1) in blast)
  qed
next
  show "free \<or> valid_progress (p\<lparr>pg_updatedAt := t\<rparr>) \<or> t \<notin> range (sv_now sv)" for t
    using valid by (auto simp: clock_ok_def)
qed (use old in \<open>auto intro: crash_fits\<close>)

text \<open>The last document of a finished transaction: persisted, with the sync it was given.\<close>

lemma hoare_terminal_sync:
  assumes j: "job_ok j" and p: "termdoc j p" "pg_phase p = phase" and q: "termdoc j q" "pg_phase q = phase"
    and valid: "free \<or> clock_ok sv"
    and A: "\<And>s t. A s \<Longrightarrow> scratch_eq j s t \<Longrightarrow> file_at t (next_path (jroot j)) = None \<Longrightarrow> A t"
  shows "hoare (crash j) free (\<lambda>s. term_state j phase s \<and> progress_is j q s \<and> A s)
    (persistTerminalDirectorySync sv p d)
    (\<lambda>r s. termdoc j r \<and> pg_phase r = phase \<and> term_state j phase s \<and> A s \<and>
      (\<exists>q. termdoc j q \<and> pg_phase q = phase \<and> progress_is j q s))"
proof -
  let ?d = "mergeDirectorySync (pg_directorySync p) d"
  let ?A = "\<lambda>s. \<exists>s0. term_state j phase s0 \<and> A s0 \<and> scratch_eq j s0 s"
  have id: "id_test (jb_id j)" using j by (simp add: job_ok_def)
  note fit = termdoc_fits [OF q(1), unfolded q(2)]
  have persist: "hoare (crash j) free (\<lambda>s. term_state j phase s \<and> progress_is j q s \<and> A s)
      (stamp_and_persist sv (p\<lparr>pg_directorySync := ?d\<rparr>))
      (\<lambda>r s. \<exists>t d. r = p\<lparr>pg_directorySync := ?d\<rparr>\<lparr>pg_updatedAt := t, pg_directorySync := d\<rparr> \<and> ?A s \<and>
        progress_is j (p\<lparr>pg_directorySync := ?d\<rparr>\<lparr>pg_updatedAt := t\<rparr>) s \<and>
        fits j (p\<lparr>pg_directorySync := ?d\<rparr>\<lparr>pg_updatedAt := t\<rparr>) s \<and> file_at s (next_path (jroot j)) = None)"
  proof (rule hoare_stamp_persist [OF id])
    show "free \<or> clock_ok sv \<and> (\<forall>t. timestamp_test t \<longrightarrow> valid_progress (p\<lparr>pg_directorySync := ?d\<rparr>\<lparr>pg_updatedAt := t\<rparr>))"
      using valid p(1) stamp_valid [where p = "p\<lparr>pg_directorySync := ?d\<rparr>"] by (simp add: termdoc_def documented_def)
    show "\<exists>q. progress_is j q s \<and> fits j q s" if "term_state j phase s \<and> progress_is j q s \<and> A s" for s
      using that fit by blast
    show "fits j (p\<lparr>pg_directorySync := ?d\<rparr>\<lparr>pg_updatedAt := t\<rparr>) s"
      if "term_state j phase s \<and> progress_is j q s \<and> A s" "valid_progress (p\<lparr>pg_directorySync := ?d\<rparr>\<lparr>pg_updatedAt := t\<rparr>)" for s t
      using stamp_docs(3) [OF that(2)] that(1) termdoc_fits [OF p(1)] p(2) by simp
    show "pg_transactionId (p\<lparr>pg_directorySync := ?d\<rparr>) = jb_id j" for s :: storage
      using p(1) by (simp add: termdoc_def documented_def)
  qed blast
  have "hoare (crash j) free (\<lambda>s. term_state j phase s \<and> progress_is j q s \<and> A s) (give p)
      (\<lambda>r s. termdoc j r \<and> pg_phase r = phase \<and> term_state j phase s \<and> A s \<and>
        (\<exists>q. termdoc j q \<and> pg_phase q = phase \<and> progress_is j q s))"
    by (rule hoare_give) (use p q in blast)
  moreover have "hoare (crash j) free (\<lambda>s. term_state j phase s \<and> progress_is j q s \<and> A s)
      (stamp_and_persist sv (p\<lparr>pg_directorySync := ?d\<rparr>))
      (\<lambda>r s. termdoc j r \<and> pg_phase r = phase \<and> term_state j phase s \<and> A s \<and>
        (\<exists>q. termdoc j q \<and> pg_phase q = phase \<and> progress_is j q s))"
  proof (rule hoare_post [OF persist], elim exE conjE)
    fix r s t d s0
    let ?p = "p\<lparr>pg_directorySync := ?d\<rparr>\<lparr>pg_updatedAt := t\<rparr>"
    assume r: "r = p\<lparr>pg_directorySync := ?d\<rparr>\<lparr>pg_updatedAt := t, pg_directorySync := d\<rparr>"
      and s: "progress_is j ?p s" "fits j ?p s" "file_at s (next_path (jroot j)) = None"
      and s0: "term_state j phase s0" "A s0" "scratch_eq j s0 s"
    from s(2) have "valid_progress ?p" by (simp add: fits_def documented_def)
    then have td: "termdoc j ?p" using stamp_docs(1) [where p = "p\<lparr>pg_directorySync := ?d\<rparr>"] p(1) by simp
    moreover have ph: "pg_phase ?p = phase" using p(2) by simp
    moreover have "termdoc j r" unfolding r using td by (simp only: sync_irrelevant)
    moreover have "term_state j phase s" using termdoc_fits [OF td] s(2) ph by simp
    moreover have "A s" using A s0 s(3) by blast
    ultimately show "termdoc j r \<and> pg_phase r = phase \<and> term_state j phase s \<and> A s \<and>
        (\<exists>q. termdoc j q \<and> pg_phase q = phase \<and> progress_is j q s)"
      using s(1) r p(2) by auto
  qed
  ultimately show ?thesis by (simp add: persistTerminalDirectorySync_def Let_def)
qed

end
