(* ===== verification/Transaction_Execution.thy ===== *)
theory Transaction_Execution
  imports Transaction_Steps
begin

text \<open>
  The execution of a plan: every storage it leaves behind is one of the crash states of
  its job, whatever faults are injected and whatever else makes it fail, and a receipt
  is given only when every operation took effect.
\<close>

section \<open>Checks that only read\<close>

lemma hoare_ensured:
  assumes "\<And>s. P s \<Longrightarrow> I s" "free \<or> b \<or> (\<forall>s. \<not> P s)"
  shows "hoare I free P (ensure b e) (\<lambda>_ s. b \<and> P s)"
  by (rule hoare_ensure) (use assms in auto)

lemma hoare_observed:
  assumes "\<And>s. P s \<Longrightarrow> I s" "free \<or> path = ''.'' \<or> durable_path path"
    "\<And>entry. hoare I free (\<lambda>s. P s \<and> entry = view sv s path) (q entry) Q"
  shows "hoare I free P (and_then (observeFingerprint sv path) q) Q"
  by (rule hoare_and_then [OF hoare_observe assms(3)]) (use assms in auto)

lemma hoare_checked:
  assumes "\<And>s. P s \<Longrightarrow> I s" "free \<or> path = ''.'' \<or> durable_path path"
    "\<And>s. P s \<Longrightarrow> free \<or> ok (view sv s path)"
    "\<And>s. P s \<Longrightarrow> ok (view sv s path) \<Longrightarrow> Q () s"
  shows "hoare I free P (and_then (observeFingerprint sv path) (\<lambda>entry. ensure (ok entry) e)) Q"
  by (rule hoare_observed [OF assms(1,2)]; (rule hoare_ensure)?) (use assms in auto)

definition lease_holds :: "transaction_services \<Rightarrow> guarded_artifact list option \<Rightarrow> storage \<Rightarrow> bool" where
  "lease_holds sv authority s \<longleftrightarrow>
     (\<forall>artifacts. authority = Some artifacts \<longrightarrow> (\<forall>a \<in> set artifacts.
        (ga_path a = ''.'' \<or> durable_path (ga_path a)) \<and> view sv s (ga_path a) \<in> {ga_expected a, ga_published a}))"

lemma hoare_vacuous: "(\<And>s. \<not> P s) \<Longrightarrow> hoare I free P p Q"
  by (simp add: hoare_def)

lemma hoare_lease:
  assumes "\<And>s. P s \<Longrightarrow> I s \<and> (free \<or> lease_holds sv authority s)"
  shows "hoare I free P (assertLeaseAuthority sv authority) (\<lambda>_. P)"
proof (cases "authority = None \<or> (\<forall>s. \<not> P s)")
  case True
  then show ?thesis by (auto simp: assertLeaseAuthority_def intro: hoare_vacuous hoare_give)
next
  case False
  then obtain artifacts where Some: "authority = Some artifacts" and some: "\<exists>s. P s" by auto
  have paths: "free \<or> ga_path a = ''.'' \<or> durable_path (ga_path a)" if "a \<in> set artifacts" for a
    using assms some that Some unfolding lease_holds_def by blast
  have "hoare I free P (and_then (observeFingerprint sv (ga_path a)) (\<lambda>observed.
      ensure (sameFingerprint observed (ga_expected a) \<or> sameFingerprint observed (ga_published a))
        (Transaction_failure Lease_conflict (evidence (ga_path a))))) (\<lambda>_. P)" if "a \<in> set artifacts" for a
    by (rule hoare_checked) (use assms that Some paths in \<open>auto simp: lease_holds_def\<close>)
  with Some show ?thesis by (simp add: assertLeaseAuthority_def hoare_each_same)
qed

definition preconditions_hold :: "transaction_services \<Rightarrow> precondition list option \<Rightarrow> storage \<Rightarrow> bool" where
  "preconditions_hold sv guards s \<longleftrightarrow>
     (\<forall>ps. guards = Some ps \<longrightarrow> (\<forall>(path, expected) \<in> set ps.
        (path = ''.'' \<or> durable_path path) \<and> view sv s path = expected))"

lemma hoare_guards:
  assumes I: "\<And>s. P s \<Longrightarrow> I s \<and> (free \<or> preconditions_hold sv guards s)"
  shows "hoare I free P (assertDeclaredGuardPreconditions sv guards) (\<lambda>_. P)"
proof (cases "guards = None \<or> (\<forall>s. \<not> P s)")
  case True
  then show ?thesis by (auto simp: assertDeclaredGuardPreconditions_def intro: hoare_vacuous hoare_give)
next
  case False
  then obtain ps where Some: "guards = Some ps" and some: "\<exists>s. P s" by auto
  have paths: "free \<or> path = ''.'' \<or> durable_path path" if "(path, expected) \<in> set ps" for path expected
    using assms some that Some unfolding preconditions_hold_def by blast
  let ?f = "\<lambda>changed (path, expected). and_then (observeFingerprint sv path) (\<lambda>observed.
      give (if sameFingerprint observed expected then changed else changed @ [(Artifact_evidence, path)]))"
  have "hoare I free P (fold_proc ?f [] ps) (\<lambda>changed s. (free \<or> changed = []) \<and> P s)"
  proof (rule hoare_pre [OF hoare_fold [where J = "\<lambda>_ changed s. (free \<or> changed = []) \<and> P s"]])
    fix xs :: "precondition list" and x ys t assume x: "ps = xs @ x # ys"
    obtain path expected where p: "x = (path, expected)" by fastforce
    have mem: "(path, expected) \<in> set ps" using x p by simp
    have "preconditions_hold sv guards s \<Longrightarrow> view sv s path = expected" for s
      using Some mem by (auto simp: preconditions_hold_def)
    with I have ok: "P s \<Longrightarrow> free \<or> view sv s path = expected" for s by metis
    from mem show "hoare I free (\<lambda>s. (free \<or> t = []) \<and> P s) (?f t x) (\<lambda>changed s. (free \<or> changed = []) \<and> P s)"
      unfolding p prod.case
      by (intro hoare_observed hoare_give) (use I paths ok in auto)
  qed simp
  then have "hoare I free P (and_then (fold_proc ?f [] ps)
      (\<lambda>changed. ensure (changed = []) (Transaction_failure Revision_conflict changed))) (\<lambda>_. P)"
    by (rule hoare_and_then) (rule hoare_ensure, use I in auto)
  with Some show ?thesis by (simp add: assertDeclaredGuardPreconditions_def changed_preconditions_def)
qed


section \<open>From nothing to a begun transaction\<close>

text \<open>The directory exists and holds the scratch file and the progress document at most.\<close>

definition opened :: "job \<Rightarrow> storage \<Rightarrow> bool" where
  "opened j s \<longleftrightarrow> outside j 0 s \<and> dir_at s (jroot j) \<and>
     (\<forall>p. under (jroot j) p \<longrightarrow> (p \<noteq> progress_path (jroot j) \<longrightarrow> p \<noteq> next_path (jroot j) \<longrightarrow> file_at s p = None) \<and>
       (dir_at s p \<longrightarrow> p = jroot j))"

definition begundoc :: "job \<Rightarrow> transaction_progress \<Rightarrow> bool" where
  "begundoc j p \<longleftrightarrow> documented j p \<and> pg_phase p = Begun \<and> pg_published p = []"

lemma begundoc_fits:
  "begundoc j p \<Longrightarrow> fits j p s \<longleftrightarrow> inside j s \<and> outside j 0 s \<and> orphan_free j s"
  by (auto simp: begundoc_def fits_def)

lemma begundoc_stable:
  "begundoc j p \<Longrightarrow> begundoc j (p\<lparr>pg_directorySync := d\<rparr>)"
  by (simp add: begundoc_def)

lemma opened_scratch: "opened j s \<Longrightarrow> scratch_eq j s t \<Longrightarrow> opened j t"
  using scratch_eq_states(1) [of j s t 0] unfolding opened_def scratch_eq_def by metis

lemma opened_unmarked: "opened j s \<Longrightarrow> file_at s (progress_path (jroot j)) = None \<Longrightarrow> unmarked j s"
  unfolding opened_def unmarked_def by (metis own_under(1))

lemma opened_empty:
  assumes "opened j s"
  shows "file_at s (payload j i) = None" "file_at s (jroot j) = None" "inside j s" "orphan_free j s"
    "\<not> dir_at s (staging_path (jroot j))" "file_at s (staging_path (jroot j)) = None" "file_at s (manifest_path (jroot j)) = None"
    "\<not> dir_at s (manifest_path (jroot j))"
proof -
  have f: "file_at s p = None" if "under (jroot j) p" "p \<noteq> progress_path (jroot j)" "p \<noteq> next_path (jroot j)" for p
    using assms that by (simp add: opened_def)
  have d: "\<not> dir_at s p" if "under (jroot j) p" "p \<noteq> jroot j" for p using assms that by (auto simp: opened_def)
  show "file_at s (payload j i) = None" "file_at s (jroot j) = None" "file_at s (staging_path (jroot j)) = None"
    "file_at s (manifest_path (jroot j)) = None" for i
    by (rule f; simp)+
  show "\<not> dir_at s (staging_path (jroot j))" "\<not> dir_at s (manifest_path (jroot j))" by (rule d; simp)+
  show "orphan_free j s" using \<open>\<And>i. file_at s (payload j i) = None\<close> by (simp add: orphan_free_def)
  show "inside j s"
    unfolding inside_def
  proof (intro conjI allI impI)
    show "dir_at s (jroot j)" using assms by (simp add: opened_def)
    fix p assume p: "under (jroot j) p" "p \<noteq> jroot j"
    show "p \<in> {progress_path (jroot j), next_path (jroot j), manifest_path (jroot j)} \<or> (\<exists>i < jlen j. p = payload j i)"
      if "file_at s p \<noteq> None" using that f [OF p(1)] by auto
    show "p = staging_path (jroot j)" if "dir_at s p" using that d [OF p] by simp
  qed (rule \<open>file_at s (jroot j) = None\<close>)
qed

text \<open>The storages of a begun transaction with the first \<open>k\<close> operations staged.\<close>

definition staging_at :: "job \<Rightarrow> nat \<Rightarrow> storage \<Rightarrow> bool" where
  "staging_at j k s \<longleftrightarrow> inside j s \<and> outside j 0 s \<and> dir_at s (staging_path (jroot j)) \<and>
     (\<forall>i < jlen j. file_at s (payload j i) = (if i < k then content_of j i else None)) \<and>
     file_at s (manifest_path (jroot j)) = None"

lemma staging_at_orphan: "staging_at j k s \<Longrightarrow> orphan_free j s"
  by (simp add: staging_at_def orphan_free_def)

lemma staging_at_root: "staging_at j k s \<Longrightarrow> dir_at s (jroot j)"
  by (simp add: staging_at_def inside_def)

lemma opened_staging:
  assumes "opened j s"
  shows "staging_at j 0 (add_dir (staging_path (jroot j)) s)"
proof -
  have "outside j 0 (add_dir (staging_path (jroot j)) s)"
    using assms unfolding opened_def outside_def dir_at_simps file_at_simps by (metis own_under(5))
  moreover have "inside j (add_dir (staging_path (jroot j)) s)"
    using opened_empty(3) [OF assms] unfolding inside_def dir_at_simps file_at_simps by blast
  ultimately show ?thesis using opened_empty [OF assms] by (simp add: staging_at_def)
qed

text \<open>Writing below the transaction's directory.\<close>

lemma outside_own: "under (jroot j) p \<Longrightarrow> outside j k (set_file p c s) \<longleftrightarrow> outside j k s"
  by (auto simp: outside_def)

lemma inside_own_file:
  "inside j s \<Longrightarrow> p = manifest_path (jroot j) \<or> (\<exists>i < jlen j. p = payload j i) \<Longrightarrow> inside j (set_file p c s)"
  by (auto simp: inside_def)

lemma progress_is_other [simp]:
  "p \<noteq> progress_path (jroot j) \<Longrightarrow> progress_is j q (set_file p c s) \<longleftrightarrow> progress_is j q s"
  "progress_is j q (add_dir p s) \<longleftrightarrow> progress_is j q s"
  by (simp_all add: progress_is_def)

lemma staging_at_payload:
  assumes s: "staging_at j k s" "k < jlen j"
  shows "content_of j k = Some c \<Longrightarrow> staging_at j (Suc k) (set_file (payload j k) c s)"
    "content_of j k = None \<Longrightarrow> staging_at j (Suc k) s"
    "begundoc j q \<Longrightarrow> progress_is j q s \<Longrightarrow> crash j (set_file (payload j k) d s)"
proof -
  have ins: "inside j (set_file (payload j k) d s)" for d
    using s by (intro inside_own_file) (auto simp: staging_at_def)
  have out: "outside j 0 (set_file (payload j k) d s)" for d using s by (simp add: staging_at_def outside_own)
  show "content_of j k = Some c \<Longrightarrow> staging_at j (Suc k) (set_file (payload j k) c s)"
    using s ins out by (auto simp: staging_at_def less_Suc_eq)
  show "content_of j k = None \<Longrightarrow> staging_at j (Suc k) s"
    using s by (auto simp: staging_at_def less_Suc_eq)
  assume q: "begundoc j q" "progress_is j q s"
  have "orphan_free j (set_file (payload j k) d s)" using s by (simp add: orphan_free_def staging_at_def)
  with q ins out show "crash j (set_file (payload j k) d s)"
    by (intro crash_fits [of j q]) (simp_all add: begundoc_fits)
qed

lemma staging_at_manifest:
  assumes s: "staging_at j (jlen j) s" "begundoc j q" "progress_is j q s"
  shows "crash j (set_file (manifest_path (jroot j)) c s)"
    "at_op j 0 (set_file (manifest_path (jroot j)) (document_text (manifest_json (jmanifest j))) s)"
proof -
  have ins: "inside j (set_file (manifest_path (jroot j)) c s)" for c
    using s by (intro inside_own_file) (auto simp: staging_at_def)
  have out: "outside j 0 (set_file (manifest_path (jroot j)) c s)" for c using s by (simp add: staging_at_def outside_own)
  have "orphan_free j (set_file (manifest_path (jroot j)) c s)" using s by (simp add: orphan_free_def staging_at_def)
  with s(2,3) ins out show "crash j (set_file (manifest_path (jroot j)) c s)"
    by (intro crash_fits [of j q]) (simp_all add: begundoc_fits)
  show "at_op j 0 (set_file (manifest_path (jroot j)) (document_text (manifest_json (jmanifest j))) s)"
    using s(1) ins out by (auto simp: at_op_def manifest_in_def staged_from_def staging_at_def)
qed

lemma at_op_begun: "at_op j 0 s \<Longrightarrow> begundoc j q \<Longrightarrow> fits j q s"
  by (auto simp: begundoc_fits at_op_def staged_from_def orphan_free_def)


section \<open>Staging\<close>

definition fresh :: "job \<Rightarrow> storage \<Rightarrow> bool" where
  "fresh j s \<longleftrightarrow> outside j 0 s \<and> (\<forall>p. under (jroot j) p \<longrightarrow> vacant s p)"

lemma fresh_unmarked: "fresh j s \<Longrightarrow> unmarked j s"
  by (auto simp: fresh_def unmarked_def vacant_def)

lemma root_parent: "storage_parent (jroot j) = Some transactionsRoot" if "id_test (jb_id j)"
proof -
  have "CHR ''/'' \<notin> set (jb_id j)" using id_safe [OF that] by (simp add: safe_segment_def plain_segment_def)
  from storage_parent_append [OF this] show ?thesis by (simp add: jroot_def transactionRoot_def)
qed

lemma transactions_dir:
  assumes "job_ok j" "outside j k s" "k \<le> jlen j"
  shows "dir_at s transactionsRoot"
proof -
  have "\<not> under (jroot j) transactionsRoot"
    by (auto simp: under_def jroot_def transactionRoot_def starts_with_exists)
  then have "dir_at s transactionsRoot = dir_at (applied j k) transactionsRoot" using assms(2) by (simp add: outside_def)
  also have "\<dots> = dir_at (jb_initial j) transactionsRoot"
    using applied_other [OF assms(3), of transactionsRoot] jop_outside(3) [OF assms(1)] assms(3)
    by (metis less_le_trans)
  finally show ?thesis using assms(1) by (simp add: job_ok_def)
qed


lemma hoare_open:
  assumes j: "job_ok j"
  shows "hoare (crash j) free (fresh j) (createDirectoryExclusive (jroot j))
    (\<lambda>_ s. opened j s \<and> file_at s (progress_path (jroot j)) = None)"
proof (rule hoare_create_exclusive)
  have id: "id_test (jb_id j)" using j by (simp add: job_ok_def)
  show "free \<or> durable_path (jroot j)" using own_durable(1) [OF id] by simp
  fix s assume s: "fresh j s"
  have "has_parent s (jroot j)"
    using s transactions_dir [OF j, of 0 s] by (simp add: has_parent_def root_parent [OF id] fresh_def)
  moreover have "vacant s (jroot j)" using s by (simp add: fresh_def)
  ultimately show "crash j s \<and> (free \<or> has_parent s (jroot j) \<and> vacant s (jroot j))"
    using fresh_unmarked [OF s] by (simp add: crash_def)
  have "opened j (add_dir (jroot j) s)"
    unfolding opened_def
  proof (intro conjI allI impI)
    show "outside j 0 (add_dir (jroot j) s)"
      using s unfolding fresh_def outside_def dir_at_simps file_at_simps by (metis own_under(1))
    show "dir_at (add_dir (jroot j) s) (jroot j)" by simp
    fix p assume p: "under (jroot j) p"
    with s have "vacant s p" by (simp add: fresh_def)
    then show "file_at (add_dir (jroot j) s) p = None" "dir_at (add_dir (jroot j) s) p \<Longrightarrow> p = jroot j"
      by (auto simp: vacant_def)
  qed
  moreover have "file_at (add_dir (jroot j) s) (progress_path (jroot j)) = None"
    using s by (simp add: fresh_def vacant_def)
  ultimately show "crash j (add_dir (jroot j) s) \<and>
      opened j (add_dir (jroot j) s) \<and> file_at (add_dir (jroot j) s) (progress_path (jroot j)) = None"
    using opened_unmarked by (auto simp: crash_def)
qed

lemma hoare_begin:
  assumes j: "job_ok j" and p: "begundoc j p"
  shows "hoare (crash j) free (\<lambda>s. opened j s \<and> file_at s (progress_path (jroot j)) = None) (persistProgress sv p)
    (\<lambda>_ s. opened j s \<and> progress_is j p s)"
proof (rule hoare_post [OF hoare_persist [where R = "opened j"]])
  show "crash j s" if "opened j s" "file_at s (progress_path (jroot j)) = None" for s
    using opened_unmarked [OF that] by (simp add: crash_def)
  show "crash j s" if "opened j s" "progress_is j p s" for s
    using that p opened_empty(3,4) [OF that(1)] by (intro crash_fits [of j p]) (simp_all add: begundoc_fits opened_def)
  show "dir_at s (jroot j) \<and> \<not> dir_at s (next_path (jroot j)) \<and> \<not> dir_at s (progress_path (jroot j))" if "opened j s" for s
    using inside_own(1-3) [OF opened_empty(3) [OF that]] by simp
qed (use j p opened_scratch in \<open>auto simp: job_ok_def begundoc_def documented_def\<close>)

lemma hoare_create_staging:
  assumes j: "job_ok j" and q: "begundoc j q"
  shows "hoare (crash j) free (\<lambda>s. opened j s \<and> progress_is j q s) (createDirectory (staging_path (jroot j)))
    (\<lambda>_ s. staging_at j 0 s \<and> progress_is j q s)"
proof (rule hoare_create)
  have id: "id_test (jb_id j)" using j by (simp add: job_ok_def)
  show "free \<or> durable_path (staging_path (jroot j))" using own_durable(5) [OF id] by simp
  fix s assume s: "opened j s \<and> progress_is j q s"
  then have "fits j q s" using opened_empty(3,4) [of j s] by (simp add: begundoc_fits [OF q] opened_def)
  with s opened_empty(6) [of j s] show "crash j s \<and> (free \<or> has_parent s (staging_path (jroot j)) \<and> file_at s (staging_path (jroot j)) = None)"
    by (auto intro: crash_fits simp: has_parent_def opened_def)
  have t: "staging_at j 0 (add_dir (staging_path (jroot j)) s)" using s opened_staging by simp
  then have "fits j q (add_dir (staging_path (jroot j)) s)"
    using staging_at_orphan [OF t] by (simp add: begundoc_fits [OF q] staging_at_def)
  with s t show "crash j (add_dir (staging_path (jroot j)) s) \<and>
      staging_at j 0 (add_dir (staging_path (jroot j)) s) \<and> progress_is j q (add_dir (staging_path (jroot j)) s)"
    by (auto intro: crash_fits)
qed

lemma staging_at_crash:
  "staging_at j k s \<Longrightarrow> begundoc j q \<Longrightarrow> progress_is j q s \<Longrightarrow> crash j s"
  using staging_at_orphan [of j k s] by (intro crash_fits [of j q]) (simp_all add: begundoc_fits staging_at_def)

lemma plan_split: "jb_plan j = xs @ x # ys \<Longrightarrow> length xs < jlen j \<and> x = jop j (length xs)"
  by (simp add: jlen_def jop_def)

lemma hoare_stage:
  assumes j: "job_ok j" and q: "begundoc j q"
  shows "hoare (crash j) free (\<lambda>s. staging_at j 0 s \<and> progress_is j q s)
    (stagePayloads (jb_services j) (jb_plan j) (jroot j) d) (\<lambda>_ s. staging_at j (jlen j) s \<and> progress_is j q s)"
proof -
  have id: "id_test (jb_id j)" using j by (simp add: job_ok_def)
  note durable = own_durable [OF id]
  let ?J = "\<lambda>k s. staging_at j k s \<and> progress_is j q s"
  have step: "hoare (crash j) free (?J k)
      (case dr_kind (jop j k) of
         Write_op content \<Rightarrow>
           next_do (writeSynced (stagedPayloadPath (jroot j) (jop j k)) content)
           (next_do (assertExecutionPayload (jb_services j) (jop j k) (jroot j)) (merged_sync t (staging_path (jroot j))))
       | _ \<Rightarrow> give t) (\<lambda>_. ?J (Suc k))" if k: "k < jlen j" for k t
  proof (cases "\<exists>c. dr_kind (jop j k) = Write_op c")
    case False
    then have "content_of j k = None" by (auto simp: content_of_def jop_def split: operation_kind.splits)
    with False show ?thesis using staging_at_payload(2) [OF _ k]
      by (cases "dr_kind (jop j k)") (auto intro!: hoare_give)
  next
    case True
    then obtain c where c: "dr_kind (jop j k) = Write_op c" by blast
    then have content: "content_of j k = Some c" by (simp add: content_of_def jop_def)
    note path = staged_payload [OF j k c]
    have I: "crash j s" if "?J i s" for i s using that staging_at_crash [OF _ q] by blast
    have put: "hoare (crash j) free (?J k) (writeSynced (payload j k) c) (\<lambda>_. ?J (Suc k))"
    proof (rule hoare_write)
      fix s assume s: "?J k s"
      then have "vacant s (payload j k)" "dir_at s (staging_path (jroot j))"
        using k inside_own(5) [of j s k] by (auto simp: staging_at_def vacant_def)
      with I s show "crash j s \<and> (free \<or> has_parent s (payload j k) \<and> vacant s (payload j k))"
        by (auto simp: has_parent_def)
      show "crash j (set_file (payload j k) '''' s) \<and> crash j (set_file (payload j k) c s) \<and> ?J (Suc k) (set_file (payload j k) c s)"
        using s staging_at_payload(1) [OF _ k content] staging_at_payload(3) [OF _ k q] by simp
    qed (use durable in simp)
    have check: "hoare (crash j) free (?J (Suc k)) (assertExecutionPayload (jb_services j) (jop j k) (jroot j)) (\<lambda>_. ?J (Suc k))"
      unfolding assertExecutionPayload_def path Let_def
    proof (rule hoare_checked)
      fix s assume s: "?J (Suc k) s"
      then have "file_at s (payload j k) = Some c" using k content by (simp add: staging_at_def)
      moreover have "dr_result (jop j k) = contentFingerprint (jb_services j) c"
        using jop_shape [OF j k] c by (simp add: operation_shape_def)
      ultimately show "free \<or> sameFingerprint (view (jb_services j) s (payload j k)) (dr_result (jop j k))" by simp
    qed (use I durable in auto)
    have sync: "hoare (crash j) free (?J (Suc k)) (merged_sync t (staging_path (jroot j))) (\<lambda>_. ?J (Suc k))"
      by (rule hoare_merged) (use I durable in \<open>auto simp: staging_at_def\<close>)
    show ?thesis using c hoare_next [OF put hoare_next [OF check sync]] by (simp add: path)
  qed
  show ?thesis
    unfolding stagePayloads_def
  proof (rule hoare_pre [OF hoare_post [OF hoare_fold [where J = "\<lambda>xs _. ?J (length xs)"]]])
    fix xs x ys t assume x: "jb_plan j = xs @ x # ys"
    from plan_split [OF x] have k: "length xs < jlen j" and op: "x = jop j (length xs)" by simp_all
    from step [OF k, of t, folded op]
    show "hoare (crash j) free (?J (length xs))
      (case dr_kind x of
         Write_op content \<Rightarrow>
           next_do (writeSynced (stagedPayloadPath (jroot j) x) content)
           (next_do (assertExecutionPayload (jb_services j) x (jroot j)) (merged_sync t (staging_path (jroot j))))
       | _ \<Rightarrow> give t) (\<lambda>_. ?J (length (xs @ [x])))" by simp
  qed (simp_all add: jlen_def)
qed


section \<open>The manifest and the documents after it\<close>

lemma hoare_manifest:
  assumes j: "job_ok j" and valid: "free \<or> valid_manifest (jmanifest j)" and P: "\<And>s. P s \<Longrightarrow> I s"
  shows "hoare I free P (createManifest (jb_services j) (jb_plan j) (jb_id j) (jb_createdAt j) (jroot j))
    (\<lambda>m s. m = jmanifest j \<and> P s)"
proof -
  have "jb_plan j \<noteq> []" using j by (simp add: job_ok_def plan_shape_def)
  then have "createManifest (jb_services j) (jb_plan j) (jb_id j) (jb_createdAt j) (jroot j) = validateManifest (jmanifest j)"
    by (simp add: createManifest_def jmanifest_def)
  then show ?thesis using valid P by (auto simp: validateManifest_def intro!: hoare_give hoare_throw)
qed

lemma hoare_write_manifest:
  assumes j: "job_ok j" and q: "begundoc j q"
  shows "hoare (crash j) free (\<lambda>s. staging_at j (jlen j) s \<and> progress_is j q s)
    (writeSynced (manifest_path (jroot j)) (document_text (manifest_json (jmanifest j))))
    (\<lambda>_ s. at_op j 0 s \<and> progress_is j q s)"
proof (rule hoare_write)
  have id: "id_test (jb_id j)" using j by (simp add: job_ok_def)
  show "free \<or> durable_path (manifest_path (jroot j))" using own_durable(4) [OF id] by simp
  fix s assume s: "staging_at j (jlen j) s \<and> progress_is j q s"
  have "crash j s" using s staging_at_crash [OF _ q] by blast
  with s show "crash j s \<and> (free \<or> has_parent s (manifest_path (jroot j)) \<and> vacant s (manifest_path (jroot j)))"
    using inside_own(1,4) [of j s] by (simp add: has_parent_def vacant_def staging_at_def)
  from s show "crash j (set_file (manifest_path (jroot j)) '''' s) \<and>
      crash j (set_file (manifest_path (jroot j)) (document_text (manifest_json (jmanifest j))) s) \<and>
      at_op j 0 (set_file (manifest_path (jroot j)) (document_text (manifest_json (jmanifest j))) s) \<and>
      progress_is j q (set_file (manifest_path (jroot j)) (document_text (manifest_json (jmanifest j))) s)"
    using staging_at_manifest [OF _ q] by simp
qed

lemma outside_view:
  assumes "outside j k s" "\<not> under (jroot j) p"
  shows "view sv s p = view sv (applied j k) p"
  using assms by (intro view_cong) (auto simp: outside_def)

lemma jmanifest_operations: "mf_operations (jmanifest j) = map (manifest_operation (jroot j)) (jb_plan j)"
  by (simp add: jmanifest_def)

lemma hoare_preconditions:
  assumes j: "job_ok j" and ready: "free \<or> expected_ok j" and P: "\<And>s. P s \<Longrightarrow> I s \<and> outside j 0 s"
  shows "hoare I free P (assertPreconditions (jb_services j) (jmanifest j)) (\<lambda>_ s. expected_ok j \<and> P s)"
proof -
  let ?sv = "jb_services j"
  let ?ok = "\<lambda>k. view ?sv (jb_initial j) (dr_path (jop j k)) = dr_expected (jop j k)"
  let ?J = "\<lambda>(xs :: persisted_operation list) s. (\<forall>k < length xs. ?ok k) \<and> P s"
  have "hoare I free (?J []) (assertPreconditions ?sv (jmanifest j)) (\<lambda>_. ?J (mf_operations (jmanifest j)))"
    unfolding assertPreconditions_def
  proof (rule hoare_each [where J = ?J])
    fix xs x ys assume x: "mf_operations (jmanifest j) = xs @ x # ys"
    let ?k = "length xs"
    have k: "?k < jlen j" using arg_cong [OF x, of length] by (simp add: jmanifest_operations jlen_def)
    have "x = mf_operations (jmanifest j) ! ?k" by (simp add: x)
    also have "\<dots> = manifest_operation (jroot j) (jop j ?k)" using k by (simp add: jmanifest_operations jlen_def jop_def)
    finally have op: "x = manifest_operation (jroot j) (jop j ?k)" .
    note out = jop_outside(1) [OF j k]
    have at: "view ?sv s (dr_path (jop j ?k)) = view ?sv (jb_initial j) (dr_path (jop j ?k))" if "P s" for s
      using outside_view [OF _ out] P [OF that] by (metis applied_0)
    have durable: "durable_path (dr_path (jop j ?k))" using destination_durable jop_destination [OF j k] by blast
    show "hoare I free (?J xs) (and_then (observeFingerprint ?sv (po_path x)) (\<lambda>observed.
        ensure (sameFingerprint observed (po_expected x)) (Transaction_failure Revision_conflict (evidence (po_path x)))))
        (\<lambda>_. ?J (xs @ [x]))"
      unfolding op manifest_operation_sel
      by (rule hoare_checked)
         (use P at ready k durable in \<open>auto simp: expected_ok_def less_Suc_eq jop_def [symmetric]\<close>)
  qed
  then show ?thesis
    by (rule hoare_pre [OF hoare_post]) (auto simp: expected_ok_def jmanifest_operations jlen_def jop_def)
qed

definition prepdoc :: "job \<Rightarrow> transaction_progress \<Rightarrow> bool" where
  "prepdoc j p \<longleftrightarrow> documented j p \<and> pg_phase p = Prepared \<and> pg_published p = []"

lemma prepdoc_fits: "prepdoc j p \<Longrightarrow> expected_ok j \<Longrightarrow> at_op j 0 s \<Longrightarrow> fits j p s"
  by (simp add: prepdoc_def fits_def at_op_def)

lemma prepared_document:
  assumes "begundoc j q"
    "valid_progress (q\<lparr>pg_manifestDigest := Some (jdigest j), pg_recoveryToken := jdigest j, pg_phase := Prepared,
       pg_directorySync := d, pg_updatedAt := t\<rparr>)"
  shows "prepdoc j (q\<lparr>pg_manifestDigest := Some (jdigest j), pg_recoveryToken := jdigest j, pg_phase := Prepared,
       pg_directorySync := d, pg_updatedAt := t\<rparr>)"
  using assms by (simp add: begundoc_def prepdoc_def documented_def)

lemma publishing_document:
  assumes "prepdoc j q" "valid_progress (q\<lparr>pg_phase := Publishing, pg_directorySync := d, pg_updatedAt := t\<rparr>)"
  shows "pubdoc j 0 (q\<lparr>pg_phase := Publishing, pg_directorySync := d, pg_updatedAt := t\<rparr>)"
  using assms by (simp add: prepdoc_def pubdoc_def documented_def cong: option.case_cong)

lemma published_document:
  assumes "job_ok j" "pubdoc j k q" "k < jlen j"
    "valid_progress (q\<lparr>pg_published := pg_published q @ [mo_operationId (jop j k)], pg_directorySync := d, pg_updatedAt := t\<rparr>)"
  shows "pubdoc j (Suc k) (q\<lparr>pg_published := pg_published q @ [mo_operationId (jop j k)], pg_directorySync := d, pg_updatedAt := t\<rparr>)"
proof -
  have "mo_operationId (jop j k) = jids j ! k" using assms(3) by (simp add: jids_def jop_def jlen_def)
  with assms show ?thesis
    by (simp add: pubdoc_def documented_def take_Suc_conv_app_nth cong: option.case_cong)
qed

lemma committed_document:
  assumes "pubdoc j k q" "expected_ok j"
    "valid_progress (q\<lparr>pg_phase := Committed, pg_published := jids j, pg_directorySync := d, pg_updatedAt := t\<rparr>)"
  shows "termdoc j (q\<lparr>pg_phase := Committed, pg_published := jids j, pg_directorySync := d, pg_updatedAt := t\<rparr>)"
proof -
  have "pg_manifestDigest q \<noteq> None" using assms(1) by (auto simp: pubdoc_def documented_def valid_progress_def)
  with assms show ?thesis by (auto simp: pubdoc_def termdoc_def documented_def cong: option.case_cong)
qed

lemma at_op_committed:
  assumes "at_op j (jlen j) s"
  shows "term_state j Committed s"
  using assms by (auto simp: at_op_def term_state_def staged_from_def orphan_free_def loosely_staged_def unstaged_def)

text \<open>Stamping a document and persisting it before going on.\<close>

lemma hoare_record:
  assumes id: "id_test (jb_id j)"
    and valid: "free \<or> (clock_ok sv \<and> (\<forall>t. timestamp_test t \<longrightarrow> valid_progress (p\<lparr>pg_updatedAt := t\<rparr>)))"
    and old: "\<And>s. P s \<Longrightarrow> \<exists>q. progress_is j q s \<and> fits j q s"
    and new: "\<And>s t. P s \<Longrightarrow> valid_progress (p\<lparr>pg_updatedAt := t\<rparr>) \<Longrightarrow> fits j (p\<lparr>pg_updatedAt := t\<rparr>) s"
    and keeps: "\<And>s t. P s \<Longrightarrow> scratch_eq j s t \<Longrightarrow> A t"
    and pid: "\<And>s. P s \<Longrightarrow> pg_transactionId p = jb_id j"
    and rest: "\<And>t sync. valid_progress (p\<lparr>pg_updatedAt := t\<rparr>) \<Longrightarrow>
      hoare (crash j) free (\<lambda>s. A s \<and> progress_is j (p\<lparr>pg_updatedAt := t\<rparr>) s) (rest (p\<lparr>pg_updatedAt := t\<rparr>) sync) Q"
  shows "hoare (crash j) free P
    (and_then (stamped sv p) (\<lambda>q. and_then (persistProgress sv q) (\<lambda>sync. rest q sync))) Q"
proof (rule hoare_and_then [OF hoare_stamped [where Q = "\<lambda>q s. (\<exists>t. q = p\<lparr>pg_updatedAt := t\<rparr> \<and> valid_progress q) \<and> P s"]])
  fix q
  show "hoare (crash j) free (\<lambda>s. (\<exists>t. q = p\<lparr>pg_updatedAt := t\<rparr> \<and> valid_progress q) \<and> P s)
      (and_then (persistProgress sv q) (\<lambda>sync. rest q sync)) Q"
  proof (rule hoare_fact, elim exE conjE)
    fix t assume q: "q = p\<lparr>pg_updatedAt := t\<rparr>" "valid_progress q"
    have "hoare (crash j) free P (persistProgress sv q)
        (\<lambda>_ s. A s \<and> progress_is j q s \<and> fits j q s \<and> file_at s (next_path (jroot j)) = None)"
      by (rule hoare_persist_fitting [OF id]) (use old new keeps pid q in auto)
    then have "hoare (crash j) free P (persistProgress sv q) (\<lambda>_ s. A s \<and> progress_is j q s)"
      by (rule hoare_post) simp
    then show "hoare (crash j) free P (and_then (persistProgress sv q) (\<lambda>sync. rest q sync)) Q"
      by (rule hoare_and_then) (use rest [of t] q in simp)
  qed
next
  show "free \<or> valid_progress (p\<lparr>pg_updatedAt := t\<rparr>) \<or> t \<notin> range (sv_now sv)" for t
    using valid by (auto simp: clock_ok_def)
qed (use old in \<open>auto intro: crash_fits\<close>)


section \<open>Publishing\<close>

definition parents_exist :: "job \<Rightarrow> bool" where
  "parents_exist j \<longleftrightarrow> (\<forall>k < jlen j. view (jb_services j) (applied j k) (parentOf (dr_path (jop j k))) = Directory)"

definition digests_ok :: "transaction_services \<Rightarrow> bool" where
  "digests_ok sv \<longleftrightarrow> (\<forall>s. sha256_test (sv_sha256 sv s))"

text \<open>Nothing but an injected fault can make the execution fail.\<close>

definition smooth :: "job \<Rightarrow> guarded_artifact list option \<Rightarrow> precondition list option \<Rightarrow> bool" where
  "smooth j authority guards \<longleftrightarrow>
     expected_ok j \<and> parents_exist j \<and> clock_ok (jb_services j) \<and> digests_ok (jb_services j) \<and>
     timestamp_test (jb_createdAt j) \<and> valid_manifest (jmanifest j) \<and>
     (\<forall>k \<le> jlen j. \<forall>s. outside j k s \<longrightarrow>
        lease_holds (jb_services j) authority s \<and> preconditions_hold (jb_services j) guards s)"

lemma parent_view:
  assumes "job_ok j" "k < jlen j" "outside j k s"
  shows "view sv s (parentOf (dr_path (jop j k))) = view sv (applied j k) (parentOf (dr_path (jop j k)))"
proof (cases "storage_parent (dr_path (jop j k))")
  case None
  then show ?thesis by (simp add: parentOf_def view_def)
next
  case (Some par)
  then show ?thesis using outside_view [OF assms(3) parent_outside [OF assms(1,2) Some]] by (simp add: parentOf_def)
qed


lemma hoare_publish_step:
  assumes j: "job_ok j" "expected_ok j" and k: "k < jlen j" and p: "pubdoc j k p"
    and smooth: "free \<or> (smooth j authority guards \<and> list_all id_test (jids j))"
  shows "hoare (crash j) free (\<lambda>s. at_op j k s \<and> progress_is j p s)
    (publish_step (jb_services j) authority guards (jroot j) (p, d) (jop j k))
    (\<lambda>r s. pubdoc j (Suc k) (fst r) \<and> at_op j (Suc k) s \<and> progress_is j (fst r) s)"
proof -
  let ?sv = "jb_services j" and ?op = "jop j k"
  let ?P = "\<lambda>s. at_op j k s \<and> progress_is j p s" and ?N = "\<lambda>s. at_op j (Suc k) s \<and> progress_is j p s"
  have id: "id_test (jb_id j)" using j by (simp add: job_ok_def)
  have I: "crash j s" if "?P s" for s
    using that pubdoc_fits [OF p j(2) _ _ _, of k s] k by (auto intro: crash_fits)
  have N: "crash j s" if "?N s" for s
    using that pubdoc_fits [OF p j(2), of "Suc k" s] k by (auto intro: crash_fits)
  have outP: "?P s \<Longrightarrow> outside j k s" and outN: "?N s \<Longrightarrow> outside j (Suc k) s" for s by (simp_all add: at_op_def)
  have durable: "durable_path (dr_path ?op)" using destination_durable jop_destination [OF j(1) k] by blast
  note parent = parentOf_observable [OF j(1) k]
  have lease: "hoare (crash j) free ?P (assertLeaseAuthority ?sv authority) (\<lambda>_. ?P)"
    using I outP smooth k by (intro hoare_lease) (auto simp: smooth_def dest: less_imp_le)
  have guards: "hoare (crash j) free ?P (assertDeclaredGuardPreconditions ?sv guards) (\<lambda>_. ?P)"
    using I outP smooth k by (intro hoare_guards) (auto simp: smooth_def dest: less_imp_le)
  let ?R = "\<lambda>s. ?P s \<and> view ?sv s (parentOf (dr_path ?op)) = Directory \<and> view ?sv s (dr_path ?op) = dr_expected ?op"
  have dest: "view ?sv s (dr_path ?op) = dr_expected ?op" if "?P s" for s
    using outside_view [OF outP [OF that] jop_outside(1) [OF j(1) k]] applied_view [OF j, of k k] k by simp
  have parents: "free \<or> view ?sv s (parentOf (dr_path ?op)) = Directory" if "?P s" for s
    using smooth parent_view [OF j(1) k outP [OF that]] k by (auto simp: smooth_def parents_exist_def)
  have publishable: "hoare (crash j) free ?P (assertPublishable ?sv ?op) (\<lambda>_. ?R)"
    unfolding assertPublishable_def
  proof (rule hoare_observed)
    fix entry
    show "hoare (crash j) free (\<lambda>s. ?P s \<and> entry = view ?sv s (parentOf (dr_path ?op)))
        (next_do (ensure (entry = Directory) (corrupt (dr_path ?op)))
          (and_then (observeFingerprint ?sv (dr_path ?op)) (\<lambda>observed.
            ensure (sameFingerprint observed (dr_expected ?op)) (Transaction_failure Revision_conflict (evidence (dr_path ?op))))))
        (\<lambda>_. ?R)"
      by (rule hoare_next [where R = "\<lambda>s. ?P s \<and> view ?sv s (parentOf (dr_path ?op)) = Directory"];
          (rule hoare_ensure hoare_checked)?)
         (use I parents dest durable in auto)
  qed (use I parent in auto)
  have payload: "hoare (crash j) free ?R
      (case dr_kind ?op of Write_op _ \<Rightarrow> assertExecutionPayload ?sv ?op (jroot j) | _ \<Rightarrow> give ()) (\<lambda>_. ?R)"
  proof (cases "\<exists>c. dr_kind ?op = Write_op c")
    case False
    then show ?thesis by (cases "dr_kind ?op") (auto intro: hoare_give)
  next
    case True
    then obtain c where c: "dr_kind ?op = Write_op c" by blast
    have "file_at s (payload j k) = Some c" if "?P s" for s
      using that c k by (simp add: at_op_def staged_from_def content_of_def jop_def)
    moreover have "dr_result ?op = contentFingerprint ?sv c"
      using jop_shape [OF j(1) k] c by (simp add: operation_shape_def)
    ultimately show ?thesis
      unfolding c operation_kind.case assertExecutionPayload_def staged_payload [OF j(1) k c] Let_def
      by (intro hoare_checked) (use I own_durable(6) [OF id] in auto)
  qed
  have publish: "hoare (crash j) free ?R (publishOperation ?op (jroot j)) (\<lambda>_. ?N)"
    by (rule hoare_pre [OF hoare_publish [OF j k p]]) auto
  have sync: "hoare (crash j) free ?N (merged_sync e (parentOf (dr_path ?op))) (\<lambda>_. ?N)" for e
  proof (rule hoare_merged)
    fix s assume s: "?N s"
    have "free \<or> parentOf (dr_path ?op) = ''.'' \<or> dir_at s (parentOf (dr_path ?op))"
    proof (cases "storage_parent (dr_path ?op)")
      case (Some par)
      note out = parent_outside [OF j(1) k Some]
      have "dir_at s par = dir_at (applied j (Suc k)) par" using outN [OF s] out by (simp add: outside_def)
      also have "dir_at (applied j k) par \<Longrightarrow> dir_at (applied j (Suc k)) par"
        unfolding applied_Suc [OF k] by (auto simp: jop_def [symmetric] effect_on_at)
      finally have keep: "dir_at (applied j k) par \<Longrightarrow> dir_at s par" .
      show ?thesis
      proof (cases free)
        case False
        with smooth k have "view ?sv (applied j k) (parentOf (dr_path ?op)) = Directory"
          by (simp add: smooth_def parents_exist_def)
        moreover have "par \<noteq> ''.''" using parent_durable(2) [OF jop_destination [OF j(1) k] Some] .
        ultimately show ?thesis using keep Some by (simp add: parentOf_def view_is_dir)
      qed simp
    qed (simp add: parentOf_def)
    with N [OF s] show "crash j s \<and> (free \<or> parentOf (dr_path ?op) = ''.'' \<or> dir_at s (parentOf (dr_path ?op)))" by blast
  qed (use parent in auto)
  have result: "hoare (crash j) free ?N (assertResult ?sv (dr_path ?op) (dr_result ?op)) (\<lambda>_. ?N)"
    unfolding assertResult_def
  proof (rule hoare_checked)
    fix s assume s: "?N s"
    have "view ?sv s (dr_path ?op) = dr_result ?op"
      using outside_view [OF outN [OF s] jop_outside(1) [OF j(1) k]] applied_view [OF j, of "Suc k" k] k by simp
    then show "free \<or> sameFingerprint (view ?sv s (dr_path ?op)) (dr_result ?op)" by simp
  qed (use N durable in auto)
  let ?doc = "\<lambda>e. p\<lparr>pg_published := pg_published p @ [mo_operationId ?op], pg_directorySync := e\<rparr>"
  have noted: "hoare (crash j) free ?N
      (and_then (stamped ?sv (?doc e)) (\<lambda>q. and_then (persistProgress ?sv q) (\<lambda>sync. give (q, sync))))
      (\<lambda>r s. pubdoc j (Suc k) (fst r) \<and> at_op j (Suc k) s \<and> progress_is j (fst r) s)" for e
  proof (rule hoare_record [OF id, where A = "at_op j (Suc k)"])
    show "free \<or> clock_ok ?sv \<and> (\<forall>t. timestamp_test t \<longrightarrow> valid_progress (?doc e\<lparr>pg_updatedAt := t\<rparr>))"
    proof (cases free)
      case False
      with smooth have s: "clock_ok ?sv" "list_all id_test (jids j)" by (simp_all add: smooth_def)
      have "pg_published p @ [mo_operationId ?op] = take (Suc k) (jids j)"
        using p k by (simp add: pubdoc_def take_Suc_conv_app_nth jids_def jop_def jlen_def)
      moreover have "list_all id_test (take (Suc k) (jids j))" "distinct (take (Suc k) (jids j))"
        using s(2) distinct_jids [OF j(1)] by (auto simp: list_all_iff dest: in_set_takeD)
      ultimately show ?thesis using s(1) p by (auto simp: pubdoc_def documented_def valid_progress_def)
    qed simp
    show "\<exists>q. progress_is j q s \<and> fits j q s" if "?N s" for s
      using that pubdoc_fits [OF p j(2), of "Suc k" s] k by auto
    show "fits j (?doc e\<lparr>pg_updatedAt := t\<rparr>) s" if "?N s" "valid_progress (?doc e\<lparr>pg_updatedAt := t\<rparr>)" for s t
      using published_document [OF j(1) p k, where d = e and t = t] that pubdoc_fits [OF _ j(2), of "Suc k" _ "Suc k" s] k by simp
    show "at_op j (Suc k) t" if "?N s" "scratch_eq j s t" for s t using that at_op_scratch by blast
    show "pg_transactionId (?doc e) = jb_id j" for s :: storage using p by (simp add: pubdoc_def documented_def)
    show "hoare (crash j) free (\<lambda>s. at_op j (Suc k) s \<and> progress_is j (?doc e\<lparr>pg_updatedAt := t\<rparr>) s)
        (give (?doc e\<lparr>pg_updatedAt := t\<rparr>, sync))
        (\<lambda>r s. pubdoc j (Suc k) (fst r) \<and> at_op j (Suc k) s \<and> progress_is j (fst r) s)"
      if "valid_progress (?doc e\<lparr>pg_updatedAt := t\<rparr>)" for t sync
      using published_document [OF j(1) p k, where d = e and t = t] that by (intro hoare_give) simp
  qed
  show ?thesis
    unfolding publish_step_def fst_conv snd_conv
    by (rule hoare_next [OF lease hoare_next [OF guards hoare_next [OF publishable hoare_next [OF payload
          hoare_next [OF publish hoare_and_then [OF sync hoare_next [OF result noted]]]]]]])
qed


section \<open>The whole execution\<close>

text \<open>
  The execution in three parts, each over what follows it: staging up to the manifest,
  preparing, publishing and committing.
\<close>

lemma hoare_stage_part:
  assumes j: "job_ok j" and ok: "free \<or> (clock_ok (jb_services j) \<and> digests_ok (jb_services j) \<and>
      timestamp_test (jb_createdAt j) \<and> valid_manifest (jmanifest j))"
    and k: "\<And>begun q sync. begundoc j begun \<Longrightarrow> begundoc j q \<Longrightarrow>
      hoare (crash j) free (\<lambda>s. at_op j 0 s \<and> progress_is j q s) (k begun (jmanifest j) sync) Q"
  shows "hoare (crash j) free (fresh j)
    (and_then (stamped (jb_services j) \<lparr> pg_transactionId = jb_id j, pg_manifestDigest = None,
         pg_recoveryToken = identity_token (jb_services j) (jb_id j) (jb_createdAt j), pg_phase = Begun, pg_published = [],
         pg_directorySync = Not_attempted, pg_createdAt = jb_createdAt j, pg_updatedAt = '''' \<rparr>) (\<lambda>begun.
       next_do (createDirectoryExclusive (jroot j))
       (and_then (merged_sync Not_attempted transactionsRoot) (\<lambda>sync1.
        and_then (persistProgress (jb_services j) (begun\<lparr>pg_directorySync := sync1\<rparr>)) (\<lambda>sync2.
        next_do (createDirectory (staging_path (jroot j)))
        (and_then (merged_sync sync2 (jroot j)) (\<lambda>sync3.
         and_then (stagePayloads (jb_services j) (jb_plan j) (jroot j) sync3) (\<lambda>sync4.
         and_then (createManifest (jb_services j) (jb_plan j) (jb_id j) (jb_createdAt j) (jroot j)) (\<lambda>manifest.
         next_do (writeSynced (manifest_path (jroot j)) (document_text (manifest_json manifest)))
           (and_then (merged_sync sync4 (jroot j)) (k begun manifest))))))))))) Q"
proof (rule hoare_and_then [OF hoare_stamped [where Q = "\<lambda>q s. begundoc j q \<and> fresh j s"]])
  have id: "id_test (jb_id j)" using j by (simp add: job_ok_def)
  note durable = own_durable [OF id]
  let ?doc = "\<lparr> pg_transactionId = jb_id j, pg_manifestDigest = None,
      pg_recoveryToken = identity_token (jb_services j) (jb_id j) (jb_createdAt j), pg_phase = Begun, pg_published = [],
      pg_directorySync = Not_attempted, pg_createdAt = jb_createdAt j, pg_updatedAt = '''' \<rparr>"
  show "free \<or> valid_progress (?doc\<lparr>pg_updatedAt := t\<rparr>) \<or> t \<notin> range (sv_now (jb_services j))" for t
    using ok id by (auto simp: valid_progress_def clock_ok_def digests_ok_def identity_token_def)
  show "begundoc j (?doc\<lparr>pg_updatedAt := t\<rparr>) \<and> fresh j s" if "fresh j s" "valid_progress (?doc\<lparr>pg_updatedAt := t\<rparr>)" for t s
    using that by (simp add: begundoc_def documented_def)
  show "crash j s" if "fresh j s" for s using fresh_unmarked [OF that] by (simp add: crash_def)
  fix begun
  show "hoare (crash j) free (\<lambda>s. begundoc j begun \<and> fresh j s)
      (next_do (createDirectoryExclusive (jroot j))
       (and_then (merged_sync Not_attempted transactionsRoot) (\<lambda>sync1.
        and_then (persistProgress (jb_services j) (begun\<lparr>pg_directorySync := sync1\<rparr>)) (\<lambda>sync2.
        next_do (createDirectory (staging_path (jroot j)))
        (and_then (merged_sync sync2 (jroot j)) (\<lambda>sync3.
         and_then (stagePayloads (jb_services j) (jb_plan j) (jroot j) sync3) (\<lambda>sync4.
         and_then (createManifest (jb_services j) (jb_plan j) (jb_id j) (jb_createdAt j) (jroot j)) (\<lambda>manifest.
         next_do (writeSynced (manifest_path (jroot j)) (document_text (manifest_json manifest)))
           (and_then (merged_sync sync4 (jroot j)) (k begun manifest)))))))))) Q" (is "hoare _ _ _ ?program _")
  proof (rule hoare_fact)
    assume b: "begundoc j begun"
    let ?q = "\<lambda>d. begun\<lparr>pg_directorySync := d\<rparr>"
    note q = begundoc_stable [OF b]
    let ?O = "\<lambda>s. opened j s \<and> file_at s (progress_path (jroot j)) = None"
    let ?S = "\<lambda>k d s. staging_at j k s \<and> progress_is j (?q d) s"
    let ?M = "\<lambda>d s. at_op j 0 s \<and> progress_is j (?q d) s"
    have sync1: "hoare (crash j) free ?O (merged_sync Not_attempted transactionsRoot) (\<lambda>_. ?O)"
      by (rule hoare_merged)
         (use opened_unmarked transactions_dir [OF j, of 0] durable in \<open>auto simp: crash_def opened_def\<close>)
    have sync2: "hoare (crash j) free (?S 0 d) (merged_sync e (jroot j)) (\<lambda>_. ?S 0 d)" for d e
      by (rule hoare_merged) (use staging_at_crash [OF _ q] staging_at_root durable in auto)
    have manifest: "hoare (crash j) free (?S (jlen j) d)
        (createManifest (jb_services j) (jb_plan j) (jb_id j) (jb_createdAt j) (jroot j)) (\<lambda>m s. m = jmanifest j \<and> ?S (jlen j) d s)" for d
      by (rule hoare_manifest [OF j]) (use ok staging_at_crash [OF _ q] in auto)
    have M: "crash j s" if "?M d s" for d s using at_op_begun [OF _ q] that by (auto intro: crash_fits)
    have sync3: "hoare (crash j) free (?M d) (merged_sync e (jroot j)) (\<lambda>_. ?M d)" for d e
      by (rule hoare_merged) (use M durable inside_own(1) in \<open>auto simp: at_op_def\<close>)
    have rest: "hoare (crash j) free (\<lambda>s. m = jmanifest j \<and> ?S (jlen j) d s)
        (next_do (writeSynced (manifest_path (jroot j)) (document_text (manifest_json m)))
          (and_then (merged_sync e (jroot j)) (k begun m))) Q" for m d e
      by (rule hoare_fact, hypsubst, rule hoare_next [OF hoare_write_manifest [OF j q] hoare_and_then [OF sync3 k [OF b q]]])
    show "hoare (crash j) free (fresh j) ?program Q"
      by (rule hoare_next [OF hoare_open [OF j] hoare_and_then [OF sync1 hoare_and_then [OF hoare_begin [OF j q]
            hoare_next [OF hoare_create_staging [OF j q] hoare_and_then [OF sync2 hoare_and_then [OF hoare_stage [OF j q]
            hoare_and_then [OF manifest rest]]]]]]])
  qed
qed


definition undisturbed :: "bool \<Rightarrow> job \<Rightarrow> guarded_artifact list option \<Rightarrow> precondition list option \<Rightarrow> bool" where
  "undisturbed free j authority guards \<longleftrightarrow> free \<or> (smooth j authority guards \<and> list_all id_test (jids j))"

lemma undisturbed_checks:
  assumes "undisturbed free j authority guards" "\<And>s. P s \<Longrightarrow> I s \<and> outside j k s" "k \<le> jlen j"
  shows "hoare I free P (assertLeaseAuthority (jb_services j) authority) (\<lambda>_. P)"
    "hoare I free P (assertDeclaredGuardPreconditions (jb_services j) guards) (\<lambda>_. P)"
proof -
  have "free \<or> lease_holds (jb_services j) authority s \<and> preconditions_hold (jb_services j) guards s" if "P s" for s
    using assms that by (auto simp: undisturbed_def smooth_def)
  with assms(2) show "hoare I free P (assertLeaseAuthority (jb_services j) authority) (\<lambda>_. P)"
    "hoare I free P (assertDeclaredGuardPreconditions (jb_services j) guards) (\<lambda>_. P)"
    by (blast intro: hoare_lease hoare_guards)+
qed

lemma stamp_always:
  assumes "undisturbed free j authority guards" "\<And>t. timestamp_test t \<Longrightarrow> digests_ok (jb_services j) \<Longrightarrow>
      list_all id_test (jids j) \<Longrightarrow> valid_progress (p\<lparr>pg_updatedAt := t\<rparr>)"
  shows "free \<or> (clock_ok (jb_services j) \<and> (\<forall>t. timestamp_test t \<longrightarrow> valid_progress (p\<lparr>pg_updatedAt := t\<rparr>)))"
  using assms by (auto simp: undisturbed_def smooth_def)

lemma hoare_prepare_part:
  assumes j: "job_ok j" and ok: "undisturbed free j authority guards" and b: "begundoc j begun" and q: "begundoc j q"
    and k: "\<And>publishing sync. pubdoc j 0 publishing \<Longrightarrow> expected_ok j \<Longrightarrow>
      hoare (crash j) free (\<lambda>s. at_op j 0 s \<and> progress_is j publishing s) (k publishing sync) Q"
  shows "hoare (crash j) free (\<lambda>s. at_op j 0 s \<and> progress_is j q s)
    (next_do (assertDeclaredGuardPreconditions (jb_services j) guards)
     (next_do (assertPreconditions (jb_services j) (jmanifest j))
     (and_then (stamped (jb_services j) (begun\<lparr>pg_manifestDigest := Some (jdigest j),
         pg_recoveryToken := jdigest j, pg_phase := Prepared, pg_directorySync := sync5\<rparr>)) (\<lambda>prepared.
      and_then (persistProgress (jb_services j) prepared) (\<lambda>sync6.
      next_do (assertLeaseAuthority (jb_services j) authority)
      (next_do (assertDeclaredGuardPreconditions (jb_services j) guards)
      (and_then (stamped (jb_services j) (prepared\<lparr>pg_phase := Publishing, pg_directorySync := sync6\<rparr>)) (\<lambda>publishing.
       and_then (persistProgress (jb_services j) publishing) (k publishing)))))))))
    Q"
proof -
  let ?sv = "jb_services j" and ?P = "\<lambda>q s. at_op j 0 s \<and> progress_is j q s"
  have id: "id_test (jb_id j)" using j by (simp add: job_ok_def)
  have out: "?P r s \<Longrightarrow> outside j 0 s" for r s by (simp add: at_op_def)
  have I: "crash j s" if "?P q s" for s using that at_op_begun [OF _ q] by (auto intro: crash_fits)
  have keep: "at_op j 0 t" if "?P r s" "scratch_eq j s t" for r s t using that at_op_scratch by blast
  let ?prep = "begun\<lparr>pg_manifestDigest := Some (jdigest j), pg_recoveryToken := jdigest j, pg_phase := Prepared,
      pg_directorySync := sync5\<rparr>"
  have rest: "hoare (crash j) free (\<lambda>s. at_op j 0 s \<and> progress_is j (?prep\<lparr>pg_updatedAt := t\<rparr>) s)
      (next_do (assertLeaseAuthority ?sv authority) (next_do (assertDeclaredGuardPreconditions ?sv guards)
        (and_then (stamped ?sv (?prep\<lparr>pg_updatedAt := t\<rparr>\<lparr>pg_phase := Publishing, pg_directorySync := sync6\<rparr>)) (\<lambda>publishing.
         and_then (persistProgress ?sv publishing) (k publishing))))) Q"
    if e: "expected_ok j" and v: "valid_progress (?prep\<lparr>pg_updatedAt := t\<rparr>)" for t sync6
  proof -
    let ?p = "?prep\<lparr>pg_updatedAt := t\<rparr>"
    have p: "prepdoc j ?p" using prepared_document [OF b v] by simp
    have I': "crash j s" if "?P ?p s" for s using that prepdoc_fits [OF p e] by (auto intro: crash_fits)
    have checks: "hoare (crash j) free (?P ?p) (assertLeaseAuthority ?sv authority) (\<lambda>_. ?P ?p)"
      "hoare (crash j) free (?P ?p) (assertDeclaredGuardPreconditions ?sv guards) (\<lambda>_. ?P ?p)"
      by (rule undisturbed_checks [OF ok, where k = 0]; use I' out in auto)+
    have "hoare (crash j) free (?P ?p)
        (and_then (stamped ?sv (?p\<lparr>pg_phase := Publishing, pg_directorySync := sync6\<rparr>)) (\<lambda>publishing.
         and_then (persistProgress ?sv publishing) (\<lambda>sync. k publishing sync))) Q"
    proof (rule hoare_record [OF id, where A = "at_op j 0"])
      show "free \<or> clock_ok ?sv \<and> (\<forall>u. timestamp_test u \<longrightarrow>
          valid_progress (?p\<lparr>pg_phase := Publishing, pg_directorySync := sync6\<rparr>\<lparr>pg_updatedAt := u\<rparr>))"
        by (rule stamp_always [OF ok]) (use v in \<open>simp add: valid_progress_def\<close>)
      fix u assume w: "valid_progress (?p\<lparr>pg_phase := Publishing, pg_directorySync := sync6\<rparr>\<lparr>pg_updatedAt := u\<rparr>)"
      note pub = publishing_document [OF p w]
      show "fits j (?p\<lparr>pg_phase := Publishing, pg_directorySync := sync6\<rparr>\<lparr>pg_updatedAt := u\<rparr>) s" if "?P ?p s" for s
        using pubdoc_fits [OF pub e, of 0 s] that by simp
      show "hoare (crash j) free
          (\<lambda>s. at_op j 0 s \<and> progress_is j (?p\<lparr>pg_phase := Publishing, pg_directorySync := sync6\<rparr>\<lparr>pg_updatedAt := u\<rparr>) s)
          (k (?p\<lparr>pg_phase := Publishing, pg_directorySync := sync6\<rparr>\<lparr>pg_updatedAt := u\<rparr>) sync) Q" for sync
        by (rule k [OF pub e])
    next
      show "\<exists>q. progress_is j q s \<and> fits j q s" if "?P ?p s" for s using that prepdoc_fits [OF p e] by auto
    qed (use keep p in \<open>auto simp: prepdoc_def documented_def\<close>)
    then show ?thesis by (rule hoare_next [OF checks(1) hoare_next [OF checks(2)]])
  qed
  have prep: "hoare (crash j) free (\<lambda>s. expected_ok j \<and> ?P q s)
      (and_then (stamped ?sv ?prep) (\<lambda>prepared. and_then (persistProgress ?sv prepared) (\<lambda>sync6.
        next_do (assertLeaseAuthority ?sv authority) (next_do (assertDeclaredGuardPreconditions ?sv guards)
        (and_then (stamped ?sv (prepared\<lparr>pg_phase := Publishing, pg_directorySync := sync6\<rparr>)) (\<lambda>publishing.
         and_then (persistProgress ?sv publishing) (k publishing))))))) Q"
  proof (rule hoare_fact, rule hoare_record [OF id, where A = "at_op j 0"])
    assume e: "expected_ok j"
    show "free \<or> clock_ok ?sv \<and> (\<forall>t. timestamp_test t \<longrightarrow> valid_progress (?prep\<lparr>pg_updatedAt := t\<rparr>))"
      by (rule stamp_always [OF ok]) (use b in \<open>auto simp: begundoc_def documented_def valid_progress_def digests_ok_def jdigest_def\<close>)
    fix t assume v: "valid_progress (?prep\<lparr>pg_updatedAt := t\<rparr>)"
    show "fits j (?prep\<lparr>pg_updatedAt := t\<rparr>) s" if "?P q s" for s
      using that prepdoc_fits [OF _ e] prepared_document [OF b v] by simp
    show "hoare (crash j) free (\<lambda>s. at_op j 0 s \<and> progress_is j (?prep\<lparr>pg_updatedAt := t\<rparr>) s)
      (next_do (assertLeaseAuthority ?sv authority) (next_do (assertDeclaredGuardPreconditions ?sv guards)
        (and_then (stamped ?sv (?prep\<lparr>pg_updatedAt := t\<rparr>\<lparr>pg_phase := Publishing, pg_directorySync := sync6\<rparr>)) (\<lambda>publishing.
         and_then (persistProgress ?sv publishing) (k publishing))))) Q" for sync6
      by (rule rest [OF e v])
  next
    show "\<exists>r. progress_is j r s \<and> fits j r s" if "?P q s" for s using that at_op_begun [OF _ q] by auto
  qed (use keep b in \<open>auto simp: begundoc_def documented_def\<close>)
  have pre: "hoare (crash j) free (?P q) (assertPreconditions ?sv (jmanifest j)) (\<lambda>_ s. expected_ok j \<and> ?P q s)"
    by (rule hoare_preconditions [OF j]) (use ok I out in \<open>auto simp: undisturbed_def smooth_def\<close>)
  show ?thesis
    by (rule hoare_next [OF undisturbed_checks(2) [OF ok, where k = 0] hoare_next [OF pre prep]]) (use I out in auto)
qed


lemma hoare_results:
  assumes j: "job_ok j" "expected_ok j" and P: "\<And>s. P s \<Longrightarrow> I s \<and> outside j (jlen j) s"
  shows "hoare I free P (assertResults (jb_services j) (jmanifest j)) (\<lambda>_. P)"
  unfolding assertResults_def
proof (rule hoare_each_same)
  fix x assume "x \<in> set (mf_operations (jmanifest j))"
  then obtain k where k: "k < jlen j" and x: "x = manifest_operation (jroot j) (jop j k)"
    by (auto simp: jmanifest_operations jlen_def jop_def in_set_conv_nth)
  have durable: "durable_path (dr_path (jop j k))" using destination_durable jop_destination [OF j(1) k] by blast
  have "view (jb_services j) s (dr_path (jop j k)) = dr_result (jop j k)" if "P s" for s
    using outside_view [OF _ jop_outside(1) [OF j(1) k], of "jlen j" s] P [OF that] applied_view [OF j, of "jlen j" k] k by simp
  then show "hoare I free P (assertResult (jb_services j) (po_path x) (po_result x)) (\<lambda>_. P)"
    unfolding x manifest_operation_sel assertResult_def by (intro hoare_checked) (use P durable in auto)
qed

definition finished :: "job \<Rightarrow> transaction_phase \<Rightarrow> storage \<Rightarrow> bool" where
  "finished j phase s \<longleftrightarrow> term_state j phase s \<and> clean j s \<and> (\<exists>q. termdoc j q \<and> pg_phase q = phase \<and> progress_is j q s)"

lemma finished_crash: "finished j phase s \<Longrightarrow> crash j s"
  by (auto simp: finished_def termdoc_fits intro: crash_fits)

lemma clean_scratch: "clean j s \<Longrightarrow> scratch_eq j s t \<Longrightarrow> file_at t (next_path (jroot j)) = None \<Longrightarrow> clean j t"
  using scratch_eq_states(7) by (auto simp: clean_def scratch_eq_def)

lemma hoare_receipt:
  assumes "\<And>s. P s \<Longrightarrow> I s \<and> (pg_phase p = Committed \<or> pg_phase p = Aborted)"
    "\<And>r s. P s \<Longrightarrow> rc_phase r = pg_phase p \<Longrightarrow> rc_transactionId r = pg_transactionId p \<Longrightarrow> Q r s"
  shows "hoare I free P (receiptFromProgress p) Q"
proof (cases "pg_phase p = Committed \<or> pg_phase p = Aborted")
  case True
  then show ?thesis using assms by (auto simp: receiptFromProgress_def intro!: hoare_give)
qed (use assms in \<open>auto intro: hoare_vacuous\<close>)

lemma hoare_finish:
  assumes j: "job_ok j" and q: "termdoc j q" "pg_phase q = phase" and ok: "free \<or> clock_ok (jb_services j)"
    and p: "termdoc j p" "pg_phase p = phase"
  shows "hoare (crash j) free (\<lambda>s. term_state j phase s \<and> progress_is j q s)
    (and_then (cleanupTransaction (jb_services j) (jmanifest j) d)
      (\<lambda>sync. and_then (persistTerminalDirectorySync (jb_services j) p sync) receiptFromProgress))
    (\<lambda>r s. rc_phase r = phase \<and> rc_transactionId r = jb_id j \<and> finished j phase s)"
proof -
  have final: "hoare (crash j) free
      (\<lambda>s. termdoc j r \<and> pg_phase r = phase \<and> term_state j phase s \<and> clean j s \<and>
        (\<exists>q. termdoc j q \<and> pg_phase q = phase \<and> progress_is j q s))
      (receiptFromProgress r) (\<lambda>r s. rc_phase r = phase \<and> rc_transactionId r = jb_id j \<and> finished j phase s)" for r
  proof (rule hoare_receipt)
    fix s
    assume s: "termdoc j r \<and> pg_phase r = phase \<and> term_state j phase s \<and> clean j s \<and>
      (\<exists>q. termdoc j q \<and> pg_phase q = phase \<and> progress_is j q s)"
    then have done_: "finished j phase s" by (simp add: finished_def)
    with s show "crash j s \<and> (pg_phase r = Committed \<or> pg_phase r = Aborted)"
      using finished_crash by (auto simp: termdoc_def)
    from done_ s show "rc_phase t = phase \<and> rc_transactionId t = jb_id j \<and> finished j phase s"
      if "rc_phase t = pg_phase r" "rc_transactionId t = pg_transactionId r" for t
      using that by (simp add: termdoc_def documented_def)
  qed
  show ?thesis
    by (rule hoare_and_then [OF hoare_pre [OF hoare_cleanup [OF j q]]
          hoare_and_then [OF hoare_pre [OF hoare_terminal_sync [OF j p q ok, where A = "clean j"]] final]])
       (use clean_scratch in auto)
qed

lemma hoare_publish_part:
  assumes j: "job_ok j" "expected_ok j" and ok: "undisturbed free j authority guards" and p: "pubdoc j 0 publishing"
  shows "hoare (crash j) free (\<lambda>s. at_op j 0 s \<and> progress_is j publishing s)
    (next_do (set_context f)
     (and_then (fold_proc (publish_step (jb_services j) authority guards (jroot j)) (publishing, sync7) (jb_plan j))
       (\<lambda>(published, sync8).
        next_do (assertResults (jb_services j) (jmanifest j))
        (next_do (assertDeclaredGuardPreconditions (jb_services j) guards)
        (and_then (stamped (jb_services j) (published\<lparr>pg_phase := Committed, pg_published := jids j, pg_directorySync := sync8\<rparr>))
          (\<lambda>committed. and_then (persistProgress (jb_services j) committed) (\<lambda>sync9.
         and_then (cleanupTransaction (jb_services j) (jmanifest j) sync9) (\<lambda>sync10.
         and_then (persistTerminalDirectorySync (jb_services j) committed sync10) receiptFromProgress))))))))
    (\<lambda>r s. rc_phase r = Committed \<and> rc_transactionId r = jb_id j \<and> finished j Committed s)"
proof -
  let ?sv = "jb_services j"
  have id: "id_test (jb_id j)" using j by (simp add: job_ok_def)
  have fold: "hoare (crash j) free (\<lambda>s. at_op j 0 s \<and> progress_is j publishing s)
      (fold_proc (publish_step ?sv authority guards (jroot j)) (publishing, sync7) (jb_plan j))
      (\<lambda>r s. pubdoc j (jlen j) (fst r) \<and> at_op j (jlen j) s \<and> progress_is j (fst r) s)"
  proof (rule hoare_pre [OF hoare_post [OF hoare_fold [where
            J = "\<lambda>xs r s. pubdoc j (length xs) (fst r) \<and> at_op j (length xs) s \<and> progress_is j (fst r) s"]]])
    fix xs x ys and t :: "transaction_progress \<times> directory_sync" assume x: "jb_plan j = xs @ x # ys"
    from plan_split [OF x] have k: "length xs < jlen j" and op: "x = jop j (length xs)" by simp_all
    show "hoare (crash j) free (\<lambda>s. pubdoc j (length xs) (fst t) \<and> at_op j (length xs) s \<and> progress_is j (fst t) s)
        (publish_step ?sv authority guards (jroot j) t x)
        (\<lambda>r s. pubdoc j (length (xs @ [x])) (fst r) \<and> at_op j (length (xs @ [x])) s \<and> progress_is j (fst r) s)"
      using hoare_publish_step [OF j k _ ok [unfolded undisturbed_def], of "fst t" "snd t"] unfolding op
      by (intro hoare_fact) simp
  qed (use p in \<open>simp_all add: jlen_def\<close>)
  let ?Q = "\<lambda>r s. rc_phase r = Committed \<and> rc_transactionId r = jb_id j \<and> finished j Committed s"
  have commit: "hoare (crash j) free (\<lambda>s. pubdoc j (jlen j) p \<and> at_op j (jlen j) s \<and> progress_is j p s)
      (next_do (assertResults ?sv (jmanifest j)) (next_do (assertDeclaredGuardPreconditions ?sv guards)
        (and_then (stamped ?sv (p\<lparr>pg_phase := Committed, pg_published := jids j, pg_directorySync := sync8\<rparr>))
          (\<lambda>committed. and_then (persistProgress ?sv committed) (\<lambda>sync9.
         and_then (cleanupTransaction ?sv (jmanifest j) sync9) (\<lambda>sync10.
         and_then (persistTerminalDirectorySync ?sv committed sync10) receiptFromProgress)))))) ?Q" for p sync8
  proof (rule hoare_fact)
    assume p: "pubdoc j (jlen j) p"
    let ?P = "\<lambda>s. at_op j (jlen j) s \<and> progress_is j p s"
    let ?doc = "p\<lparr>pg_phase := Committed, pg_published := jids j, pg_directorySync := sync8\<rparr>"
    have fit: "fits j p s" if "?P s" for s using pubdoc_fits [OF p j(2), of "jlen j" s] that by simp
    then have I: "crash j s" if "?P s" for s using that by (auto intro: crash_fits)
    have out: "?P s \<Longrightarrow> outside j (jlen j) s" for s by (simp add: at_op_def)
    have finish: "hoare (crash j) free ?P
        (and_then (stamped ?sv ?doc) (\<lambda>committed. and_then (persistProgress ?sv committed) (\<lambda>sync9.
           and_then (cleanupTransaction ?sv (jmanifest j) sync9) (\<lambda>sync10.
           and_then (persistTerminalDirectorySync ?sv committed sync10) receiptFromProgress)))) ?Q"
    proof (rule hoare_record [OF id, where A = "term_state j Committed"])
      show "free \<or> clock_ok ?sv \<and> (\<forall>t. timestamp_test t \<longrightarrow> valid_progress (?doc\<lparr>pg_updatedAt := t\<rparr>))"
        by (rule stamp_always [OF ok])
           (use p distinct_jids [OF j(1)] in \<open>auto simp: pubdoc_def documented_def valid_progress_def\<close>)
      fix t assume v: "valid_progress (?doc\<lparr>pg_updatedAt := t\<rparr>)"
      note td = committed_document [OF p j(2) v]
      show "fits j (?doc\<lparr>pg_updatedAt := t\<rparr>) s" if "?P s" for s
        using termdoc_fits [OF td] at_op_committed that by simp
      show "hoare (crash j) free (\<lambda>s. term_state j Committed s \<and> progress_is j (?doc\<lparr>pg_updatedAt := t\<rparr>) s)
          (and_then (cleanupTransaction ?sv (jmanifest j) sync) (\<lambda>sync10.
             and_then (persistTerminalDirectorySync ?sv (?doc\<lparr>pg_updatedAt := t\<rparr>) sync10) receiptFromProgress)) ?Q" for sync
        by (rule hoare_finish [OF j(1) td _ _ td]) (use ok in \<open>auto simp: undisturbed_def smooth_def\<close>)
    next
      show "term_state j Committed t" if "?P s" "scratch_eq j s t" for s t
        using that at_op_scratch at_op_committed by blast
      show "\<exists>q. progress_is j q s \<and> fits j q s" if "?P s" for s using that fit by blast
      show "pg_transactionId ?doc = jb_id j" for s :: storage using p by (simp add: pubdoc_def documented_def)
    qed
    show "hoare (crash j) free ?P
      (next_do (assertResults ?sv (jmanifest j)) (next_do (assertDeclaredGuardPreconditions ?sv guards)
        (and_then (stamped ?sv ?doc) (\<lambda>committed. and_then (persistProgress ?sv committed) (\<lambda>sync9.
         and_then (cleanupTransaction ?sv (jmanifest j) sync9) (\<lambda>sync10.
         and_then (persistTerminalDirectorySync ?sv committed sync10) receiptFromProgress)))))) ?Q"
      by (rule hoare_next [OF hoare_results [OF j] hoare_next [OF undisturbed_checks(2) [OF ok, where k = "jlen j"] finish]])
         (use I out in auto)
  qed
  have kept: "hoare (crash j) free (\<lambda>s. at_op j 0 s \<and> progress_is j publishing s) (set_context f)
      (\<lambda>_ s. at_op j 0 s \<and> progress_is j publishing s)" by (rule hoare_context)
  show ?thesis
    by (rule hoare_next [OF kept hoare_and_then [OF fold]]) (use commit in \<open>simp add: case_prod_unfold\<close>)
qed

lemma jmanifest_ids: "map po_operationId (mf_operations (jmanifest j)) = jids j"
  by (simp add: jmanifest_operations jids_def)

lemma hoare_run:
  assumes j: "job_ok j" and ok: "undisturbed free j authority guards"
  shows "hoare (crash j) free (fresh j)
    (runTransaction (jb_services j) (jb_plan j) authority guards (jb_id j) (jb_createdAt j))
    (\<lambda>r s. rc_phase r = Committed \<and> rc_transactionId r = jb_id j \<and> finished j Committed s)"
proof -
  have root: "transactionRoot (jb_id j) = jroot j" by (simp add: jroot_def)
  show ?thesis
    unfolding runTransaction_def Let_def root
  proof (rule hoare_stage_part [OF j], goal_cases)
    case 1
    show ?case using ok by (auto simp: undisturbed_def smooth_def)
  next
    case (2 begun q sync)
    show ?case
      unfolding jdigest_def [symmetric] jmanifest_ids
      by (rule hoare_prepare_part [OF j ok 2 hoare_publish_part [OF j _ ok]])
  qed
qed

end
