(* ===== verification/Transaction_Results.thy ===== *)
theory Transaction_Results
  imports Transaction_Execution
begin

text \<open>
  What an execution promises on a machine: the steps before a transaction exists read the
  storage only, so the rules of the execution apply to the storage the call found.
\<close>

section \<open>Steps that draw no identity\<close>

definition quiet :: "'a proc \<Rightarrow> bool" where
  "quiet p \<longleftrightarrow> (\<forall>m. mc_ticks (snd (p m)) = mc_ticks m \<and> mc_ids (snd (p m)) = mc_ids m \<and> mc_rules (snd (p m)) = mc_rules m)"

lemma quiet_give [intro]: "quiet (give x)" by (simp add: quiet_def give_def)

lemma quiet_throw [intro]: "quiet (throw e)" by (simp add: quiet_def throw_def)

lemma quiet_ensure [intro]: "quiet (ensure b e)" by (auto simp: ensure_def)

lemma quiet_and_then [intro]: "quiet p \<Longrightarrow> (\<And>x. quiet (f x)) \<Longrightarrow> quiet (and_then p f)"
  by (auto simp: quiet_def and_then_def split: prod.splits sum.splits)
     (metis fst_conv snd_conv)+

lemma quiet_next [intro]: "quiet p \<Longrightarrow> quiet q \<Longrightarrow> quiet (next_do p q)"
  by (auto simp: next_do_def)

lemma quiet_each [intro]: "(\<And>x. quiet (f x)) \<Longrightarrow> quiet (each_proc f xs)"
  by (induction xs) auto

lemma quiet_primitive [intro]: "quiet (primitive operation eff)"
  by (auto simp: quiet_def primitive_def boundary_def Let_def split: option.splits)

lemma quiet_durable [intro]: "quiet p \<Longrightarrow> quiet (durable path p)"
  by (auto simp: durable_def)

lemma quiet_storage [intro]:
  "quiet (observeFingerprint sv path)" "quiet (list_entries localeCompare path)" "quiet (createDirectory path)" "quiet (syncDirectory path)"
  by (auto simp: observeFingerprint_def inspect_def list_entries_def createDirectory_def syncDirectory_def)

lemma quiet_lease: "quiet (assertLeaseAuthority sv authority)"
  by (cases authority) (auto simp: assertLeaseAuthority_def)

lemma quiet_if [intro]: "quiet p \<Longrightarrow> quiet q \<Longrightarrow> quiet (if b then p else q)"
  by simp

lemma quiet_root: "quiet (assertExistingRoot sv rootMode)"
  unfolding assertExistingRoot_def assertInitializeNamespaceAvailable_def case_prod_unfold
  by (intro quiet_and_then quiet_next quiet_if quiet_storage quiet_ensure quiet_give)

section \<open>The state of a machine as a job\<close>

definition job_of :: "transaction_services \<Rightarrow> managed_operation list \<Rightarrow> machine \<Rightarrow> job" where
  "job_of sv plan m =
     \<lparr> jb_services = sv, jb_id = sv_next_id sv (mc_ids m), jb_createdAt = sv_now sv (mc_ticks m),
       jb_plan = plan, jb_initial = mc_storage m \<rparr>"

lemma job_of_simps [simp]:
  "jb_services (job_of sv plan m) = sv" "jb_id (job_of sv plan m) = sv_next_id sv (mc_ids m)"
  "jb_createdAt (job_of sv plan m) = sv_now sv (mc_ticks m)" "jb_plan (job_of sv plan m) = plan"
  "jb_initial (job_of sv plan m) = mc_storage m"
  by (simp_all add: job_of_def)

text \<open>What a call of the manager starts from: its directories exist and the new id is unused.\<close>

definition ready_for :: "transaction_services \<Rightarrow> machine \<Rightarrow> bool" where
  "ready_for sv m \<longleftrightarrow>
     id_test (sv_next_id sv (mc_ids m)) \<and>
     dir_at (mc_storage m) ''.brain'' \<and> dir_at (mc_storage m) transactionsRoot \<and>
     (\<forall>p. dir_at (mc_storage m) p \<longrightarrow> file_at (mc_storage m) p = None) \<and>
     (\<forall>p. under (transactionRoot (sv_next_id sv (mc_ids m))) p \<longrightarrow> vacant (mc_storage m) p)"

lemma job_of_ok: "ready_for sv m \<Longrightarrow> plan_shape sv plan \<Longrightarrow> job_ok (job_of sv plan m)"
  by (auto simp: ready_for_def job_ok_def jroot_def vacant_def)

lemma job_of_fresh: "ready_for sv m \<Longrightarrow> fresh (job_of sv plan m) (mc_storage m)"
  by (simp add: ready_for_def fresh_def outside_def jroot_def)

lemma hoare_root:
  assumes j: "job_ok j" and P: "\<And>s. P s \<Longrightarrow> I s \<and> outside j 0 s"
  shows "hoare I free P (assertExistingRoot sv rootMode) (\<lambda>_. P)"
proof -
  have paths: "durable_path ''.brain''" "durable_path transactionsRoot"
    using own_durable [of j] j by (simp_all add: job_ok_def)
  have neq: "''.brain'' \<noteq> ''.''" "transactionsRoot \<noteq> ''.''" by (simp_all add: transactionsRoot_def)
  have out: "\<not> under (jroot j) ''.brain''" "\<not> under (jroot j) transactionsRoot"
    by (auto simp: under_def jroot_def transactionRoot_def transactionsRoot_def starts_with_exists)
  have v: "view sv s ''.brain'' = Directory \<and> view sv s transactionsRoot = Directory" if "P s" for s
  proof -
    from P [OF that] out have "file_at s ''.brain'' = file_at (jb_initial j) ''.brain''"
      "dir_at s ''.brain'' = dir_at (jb_initial j) ''.brain''"
      "file_at s transactionsRoot = file_at (jb_initial j) transactionsRoot"
      "dir_at s transactionsRoot = dir_at (jb_initial j) transactionsRoot" by (auto simp: outside_def)
    with j show ?thesis by (simp add: view_is_dir [OF neq(1)] view_is_dir [OF neq(2)] job_ok_def)
  qed
  have obs: "hoare I free P (observeFingerprint sv p) (\<lambda>entry s. entry = Directory \<and> P s)"
    if "p = ''.brain'' \<or> p = transactionsRoot" for p
    by (rule hoare_observe) (use that P v paths in auto)
  note brain = obs [OF disjI1 [OF refl]] and trans = obs [OF disjI2 [OF refl]]
  show ?thesis
    unfolding assertExistingRoot_def
  proof (rule hoare_and_then [OF brain], rule hoare_fact, goal_cases)
    case (1 entry)
    then show ?case
      by (intro hoare_and_then [where R = "\<lambda>x s. x = (Directory, False) \<and> P s"])
         (auto intro!: hoare_give hoare_fact hoare_ensure hoare_next [where R = P] hoare_and_then [OF trans]
            hoare_and_then [where R = "\<lambda>x s. x = Directory \<and> P s"] dest: P split: prod.splits)
  qed
qed

section \<open>Executing on a machine\<close>

lemma next_do_assoc: "next_do p (next_do q r) = next_do (next_do p q) r"
  by (auto simp: next_do_def and_then_def fun_eq_iff split: prod.splits sum.splits)

lemma drive_execution:
  fixes sv plan options m
  defines "j \<equiv> job_of sv plan m" and "authority \<equiv> map_option (bindingAuthority sv) (xo_leaseGuard options)"
  assumes ready: "ready_for sv m" "plan_shape sv plan"
    and ok: "undisturbed free j authority (xo_guardPreconditions options)"
    and run: "driveExecution sv plan options m = (r, n)"
  shows "(\<exists>h. mc_history n = h @ mc_history m \<and> (\<forall>s \<in> set h. crash j s)) \<and>
    (case r of
       Inr x \<Rightarrow> rc_phase x = Committed \<and> rc_transactionId x = jb_id j \<and> finished j Committed (mc_storage n)
     | Inl e \<Rightarrow> crash j (mc_storage n) \<and> (free \<or> mc_rules m \<noteq> []))"
proof -
  have j: "job_ok j" unfolding j_def by (rule job_of_ok [OF ready])
  have fresh: "fresh j (mc_storage m)" unfolding j_def by (rule job_of_fresh [OF ready(1)])
  have P: "fresh j s \<Longrightarrow> crash j s \<and> outside j 0 s" for s
    using fresh_unmarked [of j s] by (auto simp: crash_def fresh_def)
  let ?pre = "next_do (assertLeaseAuthority sv authority) (assertExistingRoot sv (xo_rootMode options))"
  have lease: "hoare (crash j) free (fresh j) (assertLeaseAuthority sv authority) (\<lambda>_. fresh j)"
    using undisturbed_checks(1) [OF ok, where P = "fresh j" and I = "crash j" and k = 0] P by (simp add: j_def)
  have pre: "hoare (crash j) free (fresh j) ?pre (\<lambda>_. fresh j)"
    by (rule hoare_next [OF lease hoare_root [OF j P]])
  have quiet: "quiet ?pre" by (intro quiet_next quiet_lease quiet_root)
  obtain r1 m1 where m1: "?pre m = (r1, m1)" by fastforce
  note 1 = hoareD [OF pre fresh m1]
  from quiet m1 have same: "mc_ticks m1 = mc_ticks m" "mc_ids m1 = mc_ids m" unfolding quiet_def by (metis snd_conv)+
  obtain h1 where h1: "mc_history m1 = h1 @ mc_history m" "\<forall>s \<in> set h1. crash j s" using 1(2) by blast
  show ?thesis
  proof (cases r1)
    case (Inl e)
    with m1 run have "r = Inl e" "n = m1"
      unfolding driveExecution_def Let_def authority_def [symmetric] next_do_assoc
      by (simp_all add: next_do_def and_then_def)
    with h1 1(3) Inl show ?thesis by auto
  next
    case (Inr u)
    define m2 where "m2 = m1\<lparr>mc_ids := Suc (mc_ids m1),
      mc_context := (mc_context m1)\<lparr>fc_transactionId := Some (jb_id j)\<rparr>, mc_ticks := Suc (mc_ticks m1)\<rparr>"
    have run2: "runTransaction (jb_services j) (jb_plan j) authority (xo_guardPreconditions options) (jb_id j) (jb_createdAt j) m2 = (r, n)"
      using run m1 Inr same
      unfolding driveExecution_def Let_def authority_def [symmetric] next_do_assoc
      by (simp add: next_do_def and_then_def next_id_def set_context_def now_def j_def m2_def)
    have fresh2: "fresh j (mc_storage m2)" using 1(3) Inr by (simp add: m2_def)
    note 2 = hoareD [OF hoare_run [OF j ok] fresh2 run2]
    have m2: "mc_history m2 = mc_history m1" "mc_rules m2 = mc_rules m" using 1(1) by (simp_all add: m2_def)
    obtain h2 where h2: "mc_history n = h2 @ mc_history m2" "\<forall>s \<in> set h2. crash j s" using 2(2) by blast
    have "mc_history n = (h2 @ h1) @ mc_history m" "\<forall>s \<in> set (h2 @ h1). crash j s" using h1 h2 m2 by auto
    moreover have "case r of Inr x \<Rightarrow> rc_phase x = Committed \<and> rc_transactionId x = jb_id j \<and> finished j Committed (mc_storage n)
        | Inl e \<Rightarrow> crash j (mc_storage n) \<and> (free \<or> mc_rules m \<noteq> [])"
      using 2(3) m2 by (simp split: sum.splits)
    ultimately show ?thesis by blast
  qed
qed

section \<open>The promises\<close>

lemma crash_prefix: "crash j s \<Longrightarrow> \<exists>k \<le> jlen j. outside j k s"
  unfolding crash_def unmarked_def fits_def
  by (elim disjE exE conjE) (auto split: transaction_phase.split_asm)

text \<open>What a reader of the progress document knows of the storage beside it.\<close>

definition described :: "job \<Rightarrow> transaction_progress \<Rightarrow> storage \<Rightarrow> bool" where
  "described j p s \<longleftrightarrow>
     (case pg_phase p of
        Publishing \<Rightarrow> pg_published p = take (length (pg_published p)) (jids j) \<and>
          (outside j (length (pg_published p)) s \<or> outside j (Suc (length (pg_published p))) s)
      | Committed \<Rightarrow> outside j (jlen j) s
      | _ \<Rightarrow> outside j 0 s)"

lemma fits_described: "fits j p s \<Longrightarrow> described j p s"
proof (cases "pg_phase p = Publishing")
  case True
  assume "fits j p s"
  with True obtain k where k: "outside j k s" "length (pg_published p) \<le> k" "k \<le> Suc (length (pg_published p))"
    and pub: "pg_published p = take (length (pg_published p)) (jids j)"
    by (auto simp: fits_def)
  from k have "k = length (pg_published p) \<or> k = Suc (length (pg_published p))" by linarith
  with k(1) pub True show ?thesis unfolding described_def by auto
qed (auto simp: fits_def described_def split: transaction_phase.splits)

lemma progress_is_read:
  "progress_is j p s \<Longrightarrow>
     Option.bind (file_at s (progress_path (jroot j))) (\<lambda>text. Option.bind (parseCanonicalJson text) json_progress) = Some p"
  by (simp add: progress_is_def progress_codec.read_back)

text \<open>
  C2: whatever fails and whenever, every storage an execution leaves behind shows, outside
  the transaction's own directory, the effects of a prefix of the plan and nothing else; when
  a receipt is returned it is the whole plan, and the payloads are gone.
\<close>
theorem execution_applies_prefix:
  assumes "freezeManagedPlan (sv_sha256 sv) plan = Inr plan" "ready_for sv m"
    and "driveExecution sv plan options m = (r, n)"
  shows "(\<exists>h. mc_history n = h @ mc_history m \<and>
      (\<forall>s \<in> insert (mc_storage n) (set h). \<exists>k \<le> length plan. outside (job_of sv plan m) k s)) \<and>
    (\<forall>x. r = Inr x \<longrightarrow> rc_phase x = Committed \<and> outside (job_of sv plan m) (length plan) (mc_storage n) \<and>
      clean (job_of sv plan m) (mc_storage n))"
proof -
  let ?j = "job_of sv plan m"
  have shape: "plan_shape sv plan" using frozen_shape [OF assms(1)] by simp
  have "undisturbed True ?j authority guards" for authority guards by (simp add: undisturbed_def)
  note run = drive_execution [OF assms(2) shape this assms(3)]
  then obtain h where h: "mc_history n = h @ mc_history m" "\<forall>s \<in> set h. crash ?j s" by blast
  have "crash ?j (mc_storage n)" using run finished_crash by (auto split: sum.splits)
  with h(2) have "\<forall>s \<in> insert (mc_storage n) (set h). \<exists>k \<le> length plan. outside ?j k s"
    using crash_prefix [of ?j] by (simp add: jlen_def)
  moreover have "\<forall>x. r = Inr x \<longrightarrow> rc_phase x = Committed \<and> outside ?j (length plan) (mc_storage n) \<and> clean ?j (mc_storage n)"
    using run by (auto simp: finished_def term_state_def jlen_def)
  ultimately show ?thesis using h(1) by blast
qed

text \<open>
  C5: every storage an execution leaves behind tells a reader where it stands: either nothing
  outside the transaction's directory changed and no document is there yet, or the document
  reads back, is valid, carries the identity of the transaction, and names how far the plan
  took effect, up to the one operation being published.
\<close>
theorem execution_leaves_documents:
  assumes "freezeManagedPlan (sv_sha256 sv) plan = Inr plan" "ready_for sv m"
    and "driveExecution sv plan options m = (r, n)"
  shows "\<exists>h. mc_history n = h @ mc_history m \<and> (\<forall>s \<in> insert (mc_storage n) (set h).
    unmarked (job_of sv plan m) s \<or>
    (\<exists>p. Option.bind (file_at s (progress_path (jroot (job_of sv plan m))))
        (\<lambda>text. Option.bind (parseCanonicalJson text) json_progress) = Some p \<and>
      valid_progress p \<and> pg_transactionId p = sv_next_id sv (mc_ids m) \<and> described (job_of sv plan m) p s))"
proof -
  let ?j = "job_of sv plan m"
  have shape: "plan_shape sv plan" using frozen_shape [OF assms(1)] by simp
  have "undisturbed True ?j authority guards" for authority guards by (simp add: undisturbed_def)
  note run = drive_execution [OF assms(2) shape this assms(3)]
  then obtain h where h: "mc_history n = h @ mc_history m" "\<forall>s \<in> set h. crash ?j s" by blast
  have last: "crash ?j (mc_storage n)" using run finished_crash by (auto split: sum.splits)
  have "unmarked ?j s \<or> (\<exists>p. Option.bind (file_at s (progress_path (jroot ?j)))
        (\<lambda>text. Option.bind (parseCanonicalJson text) json_progress) = Some p \<and>
      valid_progress p \<and> pg_transactionId p = sv_next_id sv (mc_ids m) \<and> described ?j p s)" if "crash ?j s" for s
    using that progress_is_read [of ?j _ s] fits_described [of ?j _ s]
    unfolding crash_def fits_def documented_def by force
  with h last show ?thesis by blast
qed

text \<open>
  C6: an execution that no injected fault and no other writer disturbs returns a receipt: the
  expectations, the parents and the lease it names hold, and then it commits the whole plan.
\<close>
theorem execution_completes:
  assumes "freezeManagedPlan (sv_sha256 sv) plan = Inr plan" "ready_for sv m" "mc_rules m = []"
    and "smooth (job_of sv plan m) (map_option (bindingAuthority sv) (xo_leaseGuard options)) (xo_guardPreconditions options)"
    and "list_all (\<lambda>operation. id_test (mo_operationId operation)) plan"
  shows "\<exists>x n. driveExecution sv plan options m = (Inr x, n) \<and> rc_phase x = Committed \<and>
    rc_transactionId x = sv_next_id sv (mc_ids m) \<and> outside (job_of sv plan m) (length plan) (mc_storage n)"
proof -
  let ?j = "job_of sv plan m"
  obtain r n where run: "driveExecution sv plan options m = (r, n)" by fastforce
  have shape: "plan_shape sv plan" using frozen_shape [OF assms(1)] by simp
  have "undisturbed False ?j (map_option (bindingAuthority sv) (xo_leaseGuard options)) (xo_guardPreconditions options)"
    using assms(4,5) by (simp add: undisturbed_def jids_def list_all_iff)
  note done_ = drive_execution [OF assms(2) shape this run]
  then obtain x where "r = Inr x" using assms(3) by (auto split: sum.splits)
  with done_ run show ?thesis by (auto simp: finished_def term_state_def jlen_def)
qed

section \<open>A concrete execution\<close>

definition sample_services :: transaction_services where
  "sample_services =
     \<lparr> sv_sha256 = sample_sha, sv_now = (\<lambda>_. ''2026-01-01T00:00:00.000Z''), sv_next_id = (\<lambda>_. ''t1''),
       sv_localeCompare = (\<lambda>a b. if a = b then 0 else 1) \<rparr>"

definition sample_operations :: "managed_operation list" where
  "sample_operations =
     [\<lparr> dr_kind = Create_op, dr_path = ''.brain/notes'', dr_expected = Missing, dr_result = Directory,
        mo_operationId = ''operation-0001'', mo_stagedPath = None \<rparr>,
      \<lparr> dr_kind = Write_op ''text'', dr_path = ''.brain/notes/a.md'', dr_expected = Missing,
        dr_result = File_print 4 (sample_sha ''text''), mo_operationId = ''operation-0002'',
        mo_stagedPath = Some ''staging/operation-0002.payload'' \<rparr>]"

definition sample_machine :: machine where
  "sample_machine =
     \<lparr> mc_storage = \<lparr> sg_files = [], sg_directories = [''.brain'', ''.brain/transactions''] \<rparr>,
       mc_occurrences = [], mc_rules = [], mc_history = [], mc_ticks = 0, mc_ids = 0,
       mc_context = \<lparr> fc_transactionId = None, fc_recoveryToken = None, fc_validatedRecovery = False,
         fc_publishingAuthorized = False \<rparr> \<rparr>"

definition sample_options :: execute_options where
  "sample_options =
     \<lparr> xo_rootMode = Existing, xo_eventStorePreconditions = None, xo_guardPreconditions = None, xo_leaseGuard = None \<rparr>"

lemma sample_frozen: "freezeManagedPlan (sv_sha256 sample_services) sample_operations = Inr sample_operations"
  by code_simp

lemma sample_ready: "ready_for sample_services sample_machine"
proof -
  have "id_test ''t1''" "durable_path ''.brain''" by code_simp+
  then show ?thesis
    by (auto simp: ready_for_def sample_services_def sample_machine_def file_at_def dir_at_def vacant_def
        transactionsRoot_def transactionRoot_def under_def starts_with_exists)
qed

lemma sample_smooth: "smooth (job_of sample_services sample_operations sample_machine) None None"
proof -
  let ?j = "job_of sample_services sample_operations sample_machine"
  have len: "jlen ?j = 2" by (simp add: jlen_def sample_operations_def)
  have e0: "view sample_services (jb_initial ?j) (dr_path (jb_plan ?j ! 0)) = dr_expected (jb_plan ?j ! 0)" by code_simp
  have e1: "view sample_services (jb_initial ?j) (dr_path (jb_plan ?j ! 1)) = dr_expected (jb_plan ?j ! 1)" by code_simp
  have e2: "view sample_services (applied ?j 0) (parentOf (dr_path (jop ?j 0))) = Directory" by code_simp
  have e3: "view sample_services (applied ?j 1) (parentOf (dr_path (jop ?j 1))) = Directory" by code_simp
  have e4: "timestamp_test ''2026-01-01T00:00:00.000Z''" by code_simp
  have e5: "valid_manifest (jmanifest ?j)"
  proof -
    have "id_test ''t1''" "list_all valid_persisted (map (manifest_operation ''.brain/transactions/t1'') sample_operations)" by code_simp+
    then show ?thesis
      using e4 sample_valid by (simp add: valid_manifest_def jmanifest_def plan_digest_def sample_services_def jroot_def
        transactionRoot_def transactionsRoot_def sample_operations_def)
  qed
  have two: "k < 2 \<longleftrightarrow> k = 0 \<or> k = 1" for k :: nat by linarith
  have sha: "sha256_test (sample_sha s)" for s using sample_valid by blast
  show ?thesis
    unfolding smooth_def expected_ok_def parents_exist_def len two
    using e0 e1 e2 e3 e4 e5 sha by (auto simp: clock_ok_def digests_ok_def lease_holds_def preconditions_hold_def sample_services_def)
qed

text \<open>The same machine with a fault: the third replacement of a file fails after taking effect.\<close>

definition sample_faulty :: machine where
  "sample_faulty =
     sample_machine\<lparr>mc_rules := [\<lparr> fr_operation = Op_replace_file, fr_timing = After, fr_occurrence = 3 \<rparr>]\<rparr>"

lemma sample_faulty_ready: "ready_for sample_services sample_faulty"
  using sample_ready by (simp add: ready_for_def sample_faulty_def)

lemma execution_applies_prefix_witness:
  "\<exists>r n h. driveExecution sample_services sample_operations sample_options sample_faulty = (r, n) \<and>
     mc_history n = h @ mc_history sample_faulty \<and>
     (\<forall>s \<in> insert (mc_storage n) (set h). \<exists>k \<le> 2. outside (job_of sample_services sample_operations sample_faulty) k s)"
proof -
  obtain r n where run: "driveExecution sample_services sample_operations sample_options sample_faulty = (r, n)" by fastforce
  have "length sample_operations = 2" by (simp add: sample_operations_def)
  with run execution_applies_prefix [OF sample_frozen sample_faulty_ready run] show ?thesis by auto
qed

lemma execution_leaves_documents_witness:
  "\<exists>r n h. driveExecution sample_services sample_operations sample_options sample_faulty = (r, n) \<and>
     mc_history n = h @ mc_history sample_faulty \<and>
     (\<forall>s \<in> set h. unmarked (job_of sample_services sample_operations sample_faulty) s \<or>
        (\<exists>p. valid_progress p \<and> pg_transactionId p = sv_next_id sample_services (mc_ids sample_faulty) \<and>
           described (job_of sample_services sample_operations sample_faulty) p s))"
proof -
  obtain r n where run: "driveExecution sample_services sample_operations sample_options sample_faulty = (r, n)" by fastforce
  from run execution_leaves_documents [OF sample_frozen sample_faulty_ready run] show ?thesis by blast
qed

lemma execution_completes_witness:
  "\<exists>x n. driveExecution sample_services sample_operations sample_options sample_machine = (Inr x, n) \<and>
     rc_phase x = Committed \<and> outside (job_of sample_services sample_operations sample_machine) 2 (mc_storage n)"
proof -
  have "list_all (\<lambda>operation. id_test (mo_operationId operation)) sample_operations" by code_simp
  moreover have "mc_rules sample_machine = []" by (simp add: sample_machine_def)
  moreover have "length sample_operations = 2" by (simp add: sample_operations_def)
  ultimately show ?thesis
    using execution_completes [OF sample_frozen sample_ready, of sample_options] sample_smooth
    by (auto simp: sample_options_def)
qed

end
