(* ===== verification/Transaction_Recover.thy ===== *)
theory Transaction_Recover
  imports Transaction_Results
begin

text \<open>
  Recovery of a transaction that stopped in any of its states: reading its documents back,
  observing its files, and the loop that publishes the rest or aborts. Every storage
  recovery leaves behind is a crash state again, so recovery may be interrupted as well.
\<close>

section \<open>Reading documents back\<close>

lemma hoare_read_document:
  assumes I: "\<And>s. P s \<Longrightarrow> I s" and path: "durable_path path" "path \<noteq> ''.''"
    and stored: "\<And>s. P s \<Longrightarrow> file_at s path = Some content"
    and parsed: "Option.bind (parseCanonicalJson content) decode = Some v" and valid: "free \<or> valid v"
  shows "hoare I free P (read_document sv decode valid path) (\<lambda>r s. r = (content, v) \<and> valid v \<and> P s)"
proof -
  have observe: "hoare I free P (observeFingerprint sv path) (\<lambda>entry s. is_file_print entry \<and> P s)"
    by (rule hoare_observe) (use assms in \<open>auto simp: view_is_file\<close>)
  have read: "hoare I free P (readRegularText sv path) (\<lambda>t s. t = content \<and> P s)"
    unfolding readRegularText_def
    by (rule hoare_and_then [OF observe], rule hoare_fact, rule hoare_next [where R = P])
       (auto intro!: hoare_ensure hoare_read I simp: path stored)
  show ?thesis
    unfolding read_document_def
    by (rule hoare_and_then [OF read], rule hoare_fact)
       (use parsed valid in \<open>auto intro!: hoare_give hoare_throw I\<close>)
qed

lemma hoare_read_progress:
  assumes j: "job_ok j" and I: "\<And>s. P s \<Longrightarrow> I s" and p: "valid_progress p" "\<And>s. P s \<Longrightarrow> progress_is j p s"
  shows "hoare I free P (readProgress sv (progress_path (jroot j))) (\<lambda>r s. r = p \<and> P s)"
proof -
  have id: "id_test (jb_id j)" using j by (simp add: job_ok_def)
  note durable = own_durable [OF id]
  show ?thesis
    unfolding readProgress_def
    by (rule hoare_and_then [OF hoare_read_document [where v = p and content = "document_text (progress_json p)"]])
       (use assms durable in \<open>auto simp: progress_is_def progress_codec.read_back intro!: hoare_give hoare_fact\<close>)
qed

lemma documented_valid: "documented j p \<Longrightarrow> valid_progress p"
  by (simp add: documented_def)

section \<open>The manifest read back is the plan's\<close>

lemma jmanifest_sel:
  "mf_operations (jmanifest j) = map (manifest_operation (jroot j)) (jb_plan j)"
  "mf_transactionId (jmanifest j) = jb_id j" "mf_createdAt (jmanifest j) = jb_createdAt j"
  by (simp_all add: jmanifest_def)

lemma mop_at: "i < jlen j \<Longrightarrow> mf_operations (jmanifest j) ! i = manifest_operation (jroot j) (jop j i)"
  by (simp add: jmanifest_sel jlen_def jop_def)

lemma mop_length [simp]: "length (mf_operations (jmanifest j)) = jlen j"
  by (simp add: jmanifest_sel jlen_def)

lemma relative_manifest_operation:
  assumes "job_ok j" "i < jlen j"
  shows "relative_operation (manifest_operation (jroot j) (jop j i)) = toPersistedManagedOperation (jop j i)"
  using jop_shape [OF assms]
  by (auto simp: relative_operation_def manifest_operation_def Let_def toPersistedManagedOperation_def operation_shape_def
      split: operation_kind.splits)

lemma manifest_operation_accepted:
  assumes "job_ok j" "i < jlen j"
  shows "manifest_operation_ok (jroot j) i (manifest_operation (jroot j) (jop j i))"
  using jop_shape [OF assms]
  by (auto simp: manifest_operation_ok_def operation_shape_def Let_def contentFingerprint_def is_file_print_def
      split: operation_kind.splits)

lemma manifest_semantics:
  assumes j: "job_ok j"
  shows "list_all (\<lambda>(index, operation). manifest_operation_ok (jroot j) index operation) (enumerate 0 (mf_operations (jmanifest j)))"
    "mf_planDigest (jmanifest j) = plan_digest (jb_services j) (map relative_operation (mf_operations (jmanifest j)))"
proof -
  show "list_all (\<lambda>(index, operation). manifest_operation_ok (jroot j) index operation) (enumerate 0 (mf_operations (jmanifest j)))"
    using manifest_operation_accepted [OF j] by (auto simp: list_all_iff in_set_enumerate_eq mop_at)
  have "map relative_operation (mf_operations (jmanifest j)) = map toPersistedManagedOperation (jb_plan j)"
    by (rule nth_equalityI)
       (use relative_manifest_operation [OF j] in \<open>simp_all add: jmanifest_sel jlen_def jop_def\<close>)
  then show "mf_planDigest (jmanifest j) = plan_digest (jb_services j) (map relative_operation (mf_operations (jmanifest j)))"
    by (simp add: jmanifest_def del: map_map)
qed

lemma hoare_semantics:
  assumes "job_ok j"
  shows "hoare I free P (assertManifestSemantics (jb_services j) (jmanifest j) (jroot j)) (\<lambda>_. P)"
  unfolding assertManifestSemantics_def
  by (rule hoare_ensure) (use manifest_semantics [OF assms] in auto)

lemma butlast_document: "butlast (document_text d) = canonicalizeJson d"
  by (simp add: document_text_def)

lemma hoare_read_manifest:
  assumes j: "job_ok j" and I: "\<And>s. P s \<Longrightarrow> I s" and m: "\<And>s. P s \<Longrightarrow> manifest_in j s"
    and valid: "free \<or> valid_manifest (jmanifest j)"
  shows "hoare I free P (readManifest sv (manifest_path (jroot j)))
    (\<lambda>r s. r = (jmanifest j, canonicalizeJson (manifest_json (jmanifest j))) \<and> P s)"
proof -
  have id: "id_test (jb_id j)" using j by (simp add: job_ok_def)
  note durable = own_durable [OF id]
  show ?thesis
    unfolding readManifest_def
    by (rule hoare_and_then [OF hoare_read_document
          [where v = "jmanifest j" and content = "document_text (manifest_json (jmanifest j))"]])
       (use assms durable in \<open>auto simp: manifest_in_def manifest_codec.read_back butlast_document
          intro!: hoare_give hoare_fact\<close>)
qed

lemma hoare_required_manifest:
  assumes j: "job_ok j" and I: "\<And>s. P s \<Longrightarrow> I s" and m: "\<And>s. P s \<Longrightarrow> manifest_in j s"
    and valid: "free \<or> valid_manifest (jmanifest j)"
    and p: "documented j p" "pg_manifestDigest p \<noteq> None"
  shows "hoare I free P (readRequiredManifest (jb_services j) (jroot j) p) (\<lambda>r s. r = jmanifest j \<and> P s)"
proof -
  have d: "pg_manifestDigest p = Some (sv_sha256 (jb_services j) (canonicalizeJson (manifest_json (jmanifest j))))"
    using p by (auto simp: documented_def jdigest_def)
  have ids: "mf_transactionId (jmanifest j) = pg_transactionId p" "mf_createdAt (jmanifest j) = pg_createdAt p"
    using p(1) by (simp_all add: documented_def jmanifest_sel)
  show ?thesis
    unfolding readRequiredManifest_def
    by (rule hoare_and_then [OF hoare_read_manifest [OF j I m valid]], assumption, assumption)
       (auto intro!: hoare_fact hoare_next [OF hoare_semantics [OF j]] hoare_next [where R = P] hoare_ensure hoare_give
         simp: d ids)
qed

section \<open>Observing the files\<close>

text \<open>The names in the staging directory are those of the payloads that lie there.\<close>

definition staged_owned :: "job \<Rightarrow> storage \<Rightarrow> bool" where
  "staged_owned j s \<longleftrightarrow> inside j s \<and> (\<forall>i < jlen j. file_at s (payload j i) \<noteq> None \<longrightarrow> content_of j i \<noteq> None)"

lemma first_segment_plain: "CHR ''/'' \<notin> set b \<Longrightarrow> first_segment b = b"
  unfolding first_segment_def takeWhile_eq_all_conv by blast

lemma staging_names:
  assumes "inside j s" "name \<in> set (immediateEntries localeCompare s (staging_path (jroot j)))"
  shows "\<exists>i < jlen j. name = operationIdAt i @ ''.payload'' \<and> staging_path (jroot j) @ ''/'' @ name = payload j i \<and>
    file_at s (payload j i) \<noteq> None"
proof -
  let ?staging = "staging_path (jroot j)"
  from assms(2) obtain p where p: "starts_with (?staging @ ''/'') p" "file_at s p \<noteq> None \<or> dir_at s p"
      "name = first_segment (drop (length ?staging + 1) p)"
    unfolding set_immediateEntries set_entryNames by blast
  from p(2) have "\<not> vacant s p" by (auto simp: vacant_def)
  from beneath_staging [OF assms(1) p(1) this] obtain i where i: "i < jlen j" "p = payload j i" "file_at s p \<noteq> None" by blast
  have pay: "payload j i = ?staging @ ''/'' @ (operationIdAt i @ ''.payload'')"
    by (simp add: payload_def staging_path_def staged_name_def)
  have plain: "CHR ''/'' \<notin> set (operationIdAt i @ ''.payload'')" using operationIdAt_plain by simp
  have "drop (length ?staging + 1) p = operationIdAt i @ ''.payload''" unfolding i(2) pay by simp
  with p(3) first_segment_plain [OF plain] have "name = operationIdAt i @ ''.payload''" by simp
  with i pay show ?thesis by auto
qed

definition observed :: "job \<Rightarrow> transaction_observation \<Rightarrow> storage \<Rightarrow> bool" where
  "observed j obs s \<longleftrightarrow>
     (\<forall>i < jlen j. map_of (ob_destinations obs) (dr_path (jop j i)) = Some (view (jb_services j) s (dr_path (jop j i)))) \<and>
     (\<forall>i < jlen j. content_of j i \<noteq> None \<longrightarrow>
        map_of (ob_stagedPayloads obs) (payload j i) = Some (view (jb_services j) s (payload j i))) \<and>
     \<not> hasUnexpectedStagedContent (jmanifest j) obs"

text \<open>While the operations \<open>xs\<close> are observed: every entry is what the storage shows there.\<close>

definition seen ::
  "transaction_services \<Rightarrow> storage \<Rightarrow> persisted_operation list \<Rightarrow> transaction_observation \<Rightarrow> bool" where
  "seen sv s xs obs \<longleftrightarrow>
     (\<forall>p v. map_of (ob_destinations obs) p = Some v \<longrightarrow> v = view sv s p) \<and>
     (\<forall>p v. map_of (ob_stagedPayloads obs) p = Some v \<longrightarrow> v = view sv s p) \<and>
     (\<forall>x \<in> set xs. map_of (ob_destinations obs) (po_path x) \<noteq> None \<and>
        (\<forall>q. po_stagedPath x = Some q \<longrightarrow> map_of (ob_stagedPayloads obs) q \<noteq> None)) \<and>
     fst ` set (ob_stagedPayloads obs) \<subseteq> set (staged_paths xs)"

lemma assoc_set_keys: "fst ` set (assoc_set k v ps) = insert k (fst ` set ps)"
  by (induction k v ps rule: assoc_set.induct) auto

lemma staged_paths_append: "staged_paths (xs @ ys) = staged_paths xs @ staged_paths ys"
  by (simp add: staged_paths_def)

lemma staged_paths_single: "set (staged_paths [x]) = (case po_stagedPath x of None \<Rightarrow> {} | Some q \<Rightarrow> {q})"
  by (simp add: staged_paths_def split: option.splits)

lemma seen_step:
  assumes "seen sv s xs obs"
  shows "po_stagedPath x = None \<Longrightarrow>
      seen sv s (xs @ [x]) (obs\<lparr>ob_destinations := assoc_set (po_path x) (view sv s (po_path x)) (ob_destinations obs)\<rparr>)"
    "po_stagedPath x = Some q \<Longrightarrow>
      seen sv s (xs @ [x])
        \<lparr> ob_destinations = assoc_set (po_path x) (view sv s (po_path x)) (ob_destinations obs),
          ob_stagedPayloads = assoc_set q (view sv s q) (ob_stagedPayloads obs) \<rparr>"
  using assms by (auto simp: seen_def assoc_set_keys staged_paths_append staged_paths_single simp del: not_None_eq)

lemma hoare_observe_operation:
  assumes I: "I s0" and paths: "durable_path (po_path x)" "\<And>q. po_stagedPath x = Some q \<Longrightarrow> durable_path q"
  shows "hoare I free (\<lambda>s. seen sv s0 xs obs \<and> s = s0) (observe_operation sv obs x)
    (\<lambda>obs s. seen sv s0 (xs @ [x]) obs \<and> s = s0)"
proof (rule hoare_fact)
  assume seen: "seen sv s0 xs obs"
  have into: "hoare I free (\<lambda>s. s = s0) (observe_into sv p es) (\<lambda>r s. r = assoc_set p (view sv s0 p) es \<and> s = s0)"
    if "durable_path p" for p es
    unfolding observe_into_def using that
    by (intro hoare_observed) (auto intro!: hoare_give simp: I)
  show "hoare I free (\<lambda>s. s = s0) (observe_operation sv obs x) (\<lambda>obs s. seen sv s0 (xs @ [x]) obs \<and> s = s0)"
    unfolding observe_operation_def
  proof (rule hoare_and_then [OF into [OF paths(1)]], rule hoare_fact, goal_cases)
    case 1
    show ?case
    proof (cases "po_stagedPath x")
      case None
      with 1 seen_step(1) [OF seen] show ?thesis by (auto intro: hoare_give)
    next
      case (Some q)
      show ?thesis unfolding Some option.case
        by (rule hoare_and_then [OF into [OF paths(2) [OF Some]]], rule hoare_fact)
           (use 1 Some seen_step(2) [OF seen] in \<open>auto intro: hoare_give\<close>)
    qed
  qed
qed

lemma seen_observed:
  assumes j: "job_ok j" and seen: "seen (jb_services j) s (mf_operations (jmanifest j)) obs"
  shows "observed j obs s"
proof -
  have dest: "map_of (ob_destinations obs) (dr_path (jop j i)) = Some (view (jb_services j) s (dr_path (jop j i)))" if "i < jlen j" for i
  proof -
    have "manifest_operation (jroot j) (jop j i) \<in> set (mf_operations (jmanifest j))"
      using that mop_at by (metis mop_length nth_mem)
    with seen show ?thesis unfolding seen_def by (metis manifest_operation_sel(2) not_None_eq)
  qed
  moreover have "map_of (ob_stagedPayloads obs) (payload j i) = Some (view (jb_services j) s (payload j i))"
    if "i < jlen j" "content_of j i \<noteq> None" for i
  proof -
    have "manifest_operation (jroot j) (jop j i) \<in> set (mf_operations (jmanifest j))"
      using that(1) mop_at by (metis mop_length nth_mem)
    moreover have "po_stagedPath (manifest_operation (jroot j) (jop j i)) = Some (payload j i)"
      using jop_staged [OF j that(1)] that(2) by simp
    ultimately show ?thesis using seen unfolding seen_def by (metis not_None_eq)
  qed
  moreover have "\<not> hasUnexpectedStagedContent (jmanifest j) obs"
    using seen unfolding hasUnexpectedStagedContent_def seen_def by (force simp: list_ex_iff)
  ultimately show ?thesis by (simp add: observed_def)
qed

lemma hoare_observe_transaction:
  assumes j: "job_ok j" and I: "I s0" and s0: "staged_owned j s0"
  shows "hoare I free (\<lambda>s. s = s0) (observeTransaction (jb_services j) (jmanifest j)) (\<lambda>obs s. observed j obs s0 \<and> s = s0)"
proof -
  let ?sv = "jb_services j" and ?ops = "mf_operations (jmanifest j)" and ?staging = "staging_path (jroot j)"
  have id: "id_test (jb_id j)" using j by (simp add: job_ok_def)
  note durable = own_durable [OF id]
  have root: "transactionRoot (mf_transactionId (jmanifest j)) = jroot j" by (simp add: jmanifest_def jroot_def)
  have paths: "durable_path (po_path x)" "\<And>q. po_stagedPath x = Some q \<Longrightarrow> durable_path q" if "x \<in> set ?ops" for x
  proof -
    from that obtain i where i: "i < jlen j" "x = manifest_operation (jroot j) (jop j i)"
      using mop_at by (metis in_set_conv_nth mop_length)
    show "durable_path (po_path x)" using destination_durable [OF jop_destination [OF j i(1)]] i(2) by simp
    show "durable_path q" if "po_stagedPath x = Some q" for q
      using that jop_staged [OF j i(1)] durable i(2) by (auto split: if_splits)
  qed
  have none: "seen ?sv s0 [] \<lparr> ob_destinations = [], ob_stagedPayloads = [] \<rparr>" by (simp add: seen_def)
  have fold: "hoare I free (\<lambda>s. s = s0) (fold_proc (observe_operation ?sv) \<lparr> ob_destinations = [], ob_stagedPayloads = [] \<rparr> ?ops)
      (\<lambda>obs s. seen ?sv s0 ?ops obs \<and> s = s0)"
    by (rule hoare_pre [OF hoare_fold [where J = "\<lambda>xs obs s. seen ?sv s0 xs obs \<and> s = s0"]])
       (use I paths none in \<open>auto intro!: hoare_observe_operation\<close>)
  have known: "?staging @ ''/'' @ name \<in> set (staged_paths ?ops)" if "name \<in> set (immediateEntries (sv_localeCompare ?sv) s0 ?staging)" for name
    using staging_names [of j s0 name "sv_localeCompare ?sv"] that s0 manifest_paths [OF j] by (auto simp: staged_owned_def)
  have names: "hoare I free (\<lambda>s. s = s0) (fold_proc (\<lambda>payloads name. let path = ?staging @ ''/'' @ name
          in if path \<in> set (staged_paths ?ops) then give payloads else observe_into ?sv path payloads) es ns)
      (\<lambda>r s. r = es \<and> s = s0)" if "set ns \<subseteq> set (immediateEntries (sv_localeCompare ?sv) s0 ?staging)" for ns es
    by (rule hoare_pre [OF hoare_fold [where J = "\<lambda>_ r s. r = es \<and> s = s0"]])
       (use that known in \<open>auto simp: Let_def intro!: hoare_fact hoare_give\<close>)
  have finish: "hoare I free (\<lambda>s. s = s0) (and_then (observeFingerprint ?sv ?staging) (\<lambda>staging.
      if staging = Directory then and_then (list_entries (sv_localeCompare ?sv) ?staging) (\<lambda>names.
        and_then (fold_proc (\<lambda>payloads name. let path = ?staging @ ''/'' @ name
            in if path \<in> set (staged_paths ?ops) then give payloads else observe_into ?sv path payloads) (ob_stagedPayloads obs) names)
          (\<lambda>payloads. give (obs\<lparr>ob_stagedPayloads := payloads\<rparr>)))
      else next_do (ensure (staging = Missing) (corrupt ?staging)) (give obs))) (\<lambda>r s. r = obs \<and> s = s0)" for obs
  proof (rule hoare_observed)
    fix entry
    show "hoare I free (\<lambda>s. s = s0 \<and> entry = view ?sv s ?staging)
      (if entry = Directory then and_then (list_entries (sv_localeCompare ?sv) ?staging) (\<lambda>names.
        and_then (fold_proc (\<lambda>payloads name. let path = ?staging @ ''/'' @ name
            in if path \<in> set (staged_paths ?ops) then give payloads else observe_into ?sv path payloads) (ob_stagedPayloads obs) names)
          (\<lambda>payloads. give (obs\<lparr>ob_stagedPayloads := payloads\<rparr>)))
      else next_do (ensure (entry = Missing) (corrupt ?staging)) (give obs)) (\<lambda>r s. r = obs \<and> s = s0)"
    proof (cases "entry = Directory")
      case True
      have list: "hoare I free (\<lambda>s. s = s0 \<and> entry = view ?sv s ?staging) (list_entries (sv_localeCompare ?sv) ?staging)
          (\<lambda>names s. set names \<subseteq> set (immediateEntries (sv_localeCompare ?sv) s0 ?staging) \<and> s = s0)"
        by (rule hoare_list) (use True I durable in \<open>auto simp: view_is_dir eq_commute [of Directory]\<close>)
      show ?thesis unfolding if_P [OF True]
        by (rule hoare_and_then [OF list], rule hoare_fact, rule hoare_and_then [OF names], assumption, rule hoare_fact)
           (auto intro: hoare_give)
    next
      case False
      have "view ?sv s0 ?staging = Directory \<or> view ?sv s0 ?staging = Missing"
        using s0 inside_own(6) [of j s0] by (auto simp: staged_owned_def view_missing_iff view_is_dir vacant_def)
      with False show ?thesis
        by (auto intro!: hoare_next [where R = "\<lambda>s. s = s0"] hoare_ensure hoare_give)
    qed
  qed (use I durable in auto)
  show ?thesis
    unfolding observeTransaction_def root Let_def
    by (rule hoare_and_then [OF fold], rule hoare_fact, rule hoare_post [OF finish [unfolded Let_def]])
       (use seen_observed [OF j] in auto)
qed

section \<open>What is decided\<close>

lemma mop_distinct:
  assumes j: "job_ok j"
  shows "findManifestFailure (jmanifest j) = None"
proof -
  have eq: "mf_operations (jmanifest j) = map (\<lambda>i. manifest_operation (jroot j) (jop j i)) [0..<jlen j]"
    by (rule nth_equalityI) (simp_all add: mop_at)
  have staged: "staged_paths (map (\<lambda>i. manifest_operation (jroot j) (jop j i)) xs) =
      map (payload j) (filter (\<lambda>i. content_of j i \<noteq> None) xs)" if "\<forall>i \<in> set xs. i < jlen j" for xs
    using that by (induction xs) (simp_all add: staged_paths_def jop_staged [OF j] del: manifest_operation_sel)
  have "distinct (staged_paths (mf_operations (jmanifest j)))"
    unfolding eq by (subst staged) (auto simp: distinct_map inj_on_def)
  moreover have "distinct (map po_operationId (mf_operations (jmanifest j)))"
    using distinct_jids [OF j] by (simp add: jmanifest_ids)
  moreover have "distinct (map po_path (mf_operations (jmanifest j)))"
    unfolding eq by (auto simp: distinct_map inj_on_def jop_paths [OF j])
  moreover have "\<forall>x \<in> set (mf_operations (jmanifest j)). po_expected x \<noteq> po_result x"
    unfolding eq using jop_shape [OF j] by (auto simp: operation_shape_def)
  ultimately show ?thesis by (simp add: findManifestFailure_None)
qed

lemma fits_valid:
  assumes j: "job_ok j" and fit: "fits j p s" and d: "pg_manifestDigest p \<noteq> None"
  shows "valid_transaction (jmanifest j) p"
proof -
  from fit have doc: "documented j p" by (simp add: fits_def)
  with d have id: "Some (pg_recoveryToken p) = pg_manifestDigest p" by (auto simp: documented_def)
  have "hasValidIdentity (jmanifest j) p"
    using doc id by (simp add: hasValidIdentity_def jmanifest_sel documented_def split: transaction_phase.splits)
  moreover have "hasValidPublishedPrefix p (map po_operationId (mf_operations (jmanifest j)))"
  proof -
    have "distinct (pg_published p)" using documented_valid [OF doc] by (simp add: valid_progress_def)
    moreover have "pg_published p = take (length (pg_published p)) (jids j)"
      using fit by (auto simp: fits_def split: transaction_phase.splits)
    moreover from this have "length (pg_published p) \<le> jlen j" by (metis length_jids length_take min.cobounded1)
    moreover have "pg_phase p = Committed \<Longrightarrow> length (pg_published p) = jlen j"
      using fit by (simp add: fits_def)
    moreover have "pg_phase p \<notin> {Publishing, Committed} \<Longrightarrow> pg_published p = []"
      using fit by (auto simp: fits_def split: transaction_phase.splits)
    ultimately show ?thesis
      by (simp add: hasValidPublishedPrefix_def Let_def jmanifest_ids split: transaction_phase.splits)
  qed
  ultimately show ?thesis using mop_distinct [OF j] by (simp add: valid_transaction_def)
qed

lemma observed_split:
  assumes j: "job_ok j" "expected_ok j" and obs: "observed j obs s" and k: "k \<le> jlen j" "outside j k s"
  shows "split_at obs k (mf_operations (jmanifest j))"
proof -
  have "map_of (ob_destinations obs) (dr_path (jop j i)) =
      Some (if i < k then dr_result (jop j i) else dr_expected (jop j i))" if "i < jlen j" for i
  proof -
    have "view (jb_services j) s (dr_path (jop j i)) = view (jb_services j) (applied j k) (dr_path (jop j i))"
      using k(2) jop_outside(1) [OF j(1) that] by (intro view_cong) (simp_all add: outside_def)
    with applied_view [OF j k(1) that] obs that show ?thesis by (simp add: observed_def)
  qed
  with k(1) show ?thesis by (auto simp: split_at_def dest_is_def mop_at)
qed

lemma payload_view:
  assumes "job_ok j" "i < jlen j" "content_of j i = Some c"
  shows "file_at s (payload j i) = Some c \<Longrightarrow> view (jb_services j) s (payload j i) = dr_result (jop j i)"
proof -
  from assms(3) have "dr_kind (jop j i) = Write_op c" by (simp add: content_of_def jop_def split: operation_kind.splits)
  with jop_shape [OF assms(1,2)] have "dr_result (jop j i) = contentFingerprint (jb_services j) c"
    by (simp add: operation_shape_def)
  then show "file_at s (payload j i) = Some c \<Longrightarrow> view (jb_services j) s (payload j i) = dr_result (jop j i)" by simp
qed

lemma payload_gone: "inside j s \<Longrightarrow> file_at s (payload j i) = None \<Longrightarrow> view sv s (payload j i) = Missing"
  using inside_own(5) [of j s i] by (simp add: view_missing_iff vacant_def)

lemma observed_payload:
  assumes "observed j obs s" "i < jlen j" "content_of j i \<noteq> None"
  shows "payload_at obs (payload j i) = view (jb_services j) s (payload j i)"
  using assms by (simp add: observed_def payload_at_def)

lemma observed_payloads:
  assumes j: "job_ok j" and obs: "observed j obs s" and s: "inside j s" "staged_from j k s"
  shows "payloads_at obs k (mf_operations (jmanifest j))"
  unfolding payloads_at_def
proof (intro allI impI)
  fix i q assume "i < length (mf_operations (jmanifest j))" "po_stagedPath (mf_operations (jmanifest j) ! i) = Some q"
  then have i: "i < jlen j" and "po_stagedPath (manifest_operation (jroot j) (jop j i)) = Some q" by (simp_all add: mop_at)
  with jop_staged [OF j i] obtain c where c: "content_of j i = Some c" and q: "q = payload j i"
    by (auto split: if_splits)
  have "payload_at obs q = view (jb_services j) s (payload j i)"
    using observed_payload [OF obs i] c q by simp
  moreover have "file_at s (payload j i) = (if k \<le> i then content_of j i else None)"
    using s(2) i by (simp add: staged_from_def)
  ultimately show "payload_at obs q = (if i < k then Missing else po_result (mf_operations (jmanifest j) ! i))"
    using payload_view [OF j i c, of s] payload_gone [OF s(1), of i] c i by (auto simp: mop_at split: if_splits)
qed

lemma fits_staged_owned: "fits j p s \<Longrightarrow> pg_manifestDigest p \<noteq> None \<Longrightarrow> staged_owned j s"
  unfolding fits_def staged_owned_def
  by (cases "pg_phase p")
     (auto simp: staged_from_def loosely_staged_def unstaged_def documented_def valid_progress_def split: if_splits)

lemma begun_unbound: "documented j p \<Longrightarrow> pg_phase p = Begun \<Longrightarrow> pg_manifestDigest p = None"
  by (simp add: documented_def valid_progress_def)

lemma decides_prepared:
  assumes j: "job_ok j" and fit: "fits j p s" and obs: "observed j obs s" and phase: "pg_phase p = Prepared"
    and d: "pg_manifestDigest p \<noteq> None"
  shows "decideRecovery (jmanifest j) p obs = Abort"
proof -
  have s: "inside j s" "outside j 0 s" "staged_from j 0 s" "expected_ok j" using fit phase by (simp_all add: fits_def)
  have "split_at obs 0 (mf_operations (jmanifest j))" by (rule observed_split [OF j s(4) obs _ s(2)]) simp
  then have "findUnexpectedPrepublicationDestination (jmanifest j) obs = None"
    by (simp add: findUnexpectedPrepublicationDestination_def find_destination_None split_at_0)
  moreover have "findUnpublishablePayload (jmanifest j) obs = None"
  proof -
    have "map_of (ob_stagedPayloads obs) q = Some (po_result operation)"
      if "operation \<in> set (mf_operations (jmanifest j))" "po_stagedPath operation = Some q" for operation q
    proof -
      from that(1) obtain i where i: "i < jlen j" "operation = manifest_operation (jroot j) (jop j i)"
        using mop_at by (metis in_set_conv_nth mop_length)
      with that(2) jop_staged [OF j i(1)] obtain c where c: "content_of j i = Some c" and q: "q = payload j i"
        by (auto split: if_splits)
      have "view (jb_services j) s (payload j i) = dr_result (jop j i)"
        using payload_view [OF j i(1) c, of s] s(3) i(1) c by (simp add: staged_from_def)
      with obs i c q show ?thesis by (simp add: observed_def)
    qed
    then show ?thesis by (auto simp: findUnpublishablePayload_def find_None_iff split: option.splits)
  qed
  moreover have "\<not> hasUnexpectedStagedContent (jmanifest j) obs" using obs by (simp add: observed_def)
  ultimately show ?thesis
    using decideRecovery_valid [OF fits_valid [OF j fit d]] phase by (simp add: decide_unpublished_def)
qed

lemma decides_publishing:
  assumes j: "job_ok j" and fit: "fits j p s" and obs: "observed j obs s" and phase: "pg_phase p = Publishing"
    and d: "pg_manifestDigest p \<noteq> None"
    and k: "k \<le> jlen j" "outside j k s" "staged_from j k s" "length (pg_published p) \<le> k"
  shows "decideRecovery (jmanifest j) p obs =
    (if length (pg_published p) < k then Record_published (mo_operationId (jop j (length (pg_published p))))
     else if k < jlen j then Publish (mo_operationId (jop j k)) else Commit)"
proof -
  have s: "inside j s" "expected_ok j" using fit phase by (simp_all add: fits_def)
  note valid = fits_valid [OF j fit d]
  have "\<not> hasUnexpectedStagedContent (jmanifest j) obs" using obs by (simp add: observed_def)
  with decideRecovery_valid [OF valid] phase
  have "decideRecovery (jmanifest j) p obs = decidePublishing (jmanifest j) p obs" by simp
  also have "\<dots> = (if length (pg_published p) < k
       then Record_published (po_operationId (mf_operations (jmanifest j) ! length (pg_published p)))
       else if k < length (mf_operations (jmanifest j)) then Publish (po_operationId (mf_operations (jmanifest j) ! k)) else Commit)"
    by (rule decidePublishing_split [OF valid observed_split [OF j s(2) obs k(1,2)] observed_payloads [OF j obs s(1) k(3)] k(4)])
  finally show ?thesis using k(1) by (simp add: mop_at)
qed

lemma decides_terminal:
  assumes j: "job_ok j" and obs: "observed j obs s" and s: "inside j s" "loosely_staged j s"
  shows "decide_terminal t (jmanifest j) obs = (if unstaged j s then Complete t else Cleanup t)"
proof -
  obtain r h where ins: "inspectPayloads (jmanifest j) obs = (r, h)" by fastforce
  have at: "payload_at obs q = view (jb_services j) s q \<and> (view (jb_services j) s q = Missing \<longleftrightarrow> file_at s q = None) \<and>
      (file_at s q \<noteq> None \<longrightarrow> view (jb_services j) s q = po_result (manifest_operation (jroot j) (jop j i)))"
    if "i < jlen j" "po_stagedPath (manifest_operation (jroot j) (jop j i)) = Some q" for i q
  proof -
    from that(2) jop_staged [OF j that(1)] obtain c where c: "content_of j i = Some c" and q: "q = payload j i"
      by (auto split: if_splits)
    have "file_at s q = None \<or> file_at s q = Some c" using s(2) that(1) c q by (auto simp: loosely_staged_def)
    then show ?thesis
      using observed_payload [OF obs that(1)] c payload_view [OF j that(1) c, of s] payload_gone [OF s(1), of i]
      unfolding q by (auto simp: contentFingerprint_def)
  qed
  have ops: "operation \<in> set (mf_operations (jmanifest j)) \<longleftrightarrow> (\<exists>i < jlen j. operation = manifest_operation (jroot j) (jop j i))" for operation
    using mop_at by (metis in_set_conv_nth mop_length)
  note cases = inspect_payloads_cases [OF ins [unfolded inspectPayloads_def]]
  have "r = None" using cases at ops by auto
  moreover have "h \<longleftrightarrow> \<not> unstaged j s"
  proof -
    have "h \<longleftrightarrow> (\<exists>i < jlen j. \<exists>q. po_stagedPath (manifest_operation (jroot j) (jop j i)) = Some q \<and> file_at s q \<noteq> None)"
      using cases \<open>r = None\<close> at ops by (metis (no_types, lifting))
    also have "\<dots> \<longleftrightarrow> (\<exists>i < jlen j. content_of j i \<noteq> None \<and> file_at s (payload j i) \<noteq> None)"
      using jop_staged [OF j] by (metis option.distinct(1) option.inject)
    also have "\<dots> \<longleftrightarrow> \<not> unstaged j s"
      using s(2) unfolding unstaged_def loosely_staged_def by (metis empty_iff insert_iff)
    finally show ?thesis .
  qed
  ultimately show ?thesis using ins by (simp add: decide_terminal_def)
qed

lemma decides_committed:
  assumes j: "job_ok j" and fit: "fits j p s" and obs: "observed j obs s" and phase: "pg_phase p = Committed"
    and d: "pg_manifestDigest p \<noteq> None"
  shows "decideRecovery (jmanifest j) p obs = Complete Terminal_committed"
proof -
  have s: "inside j s" "outside j (jlen j) s" "unstaged j s" "expected_ok j" using fit phase by (simp_all add: fits_def)
  have "\<forall>operation \<in> set (mf_operations (jmanifest j)). dest_is obs operation (po_result operation)"
    using observed_split [OF j s(4) obs _ s(2)] split_at_all [of obs "mf_operations (jmanifest j)"] by simp
  then have "findNonResultDestination (jmanifest j) obs = None"
    by (simp add: findNonResultDestination_def find_destination_None)
  moreover have "loosely_staged j s" using s(3) by (simp add: loosely_staged_def unstaged_def)
  moreover have "\<not> hasUnexpectedStagedContent (jmanifest j) obs" using obs by (simp add: observed_def)
  ultimately show ?thesis
    using decideRecovery_valid [OF fits_valid [OF j fit d]] phase decides_terminal [OF j obs s(1)] s(3) by simp
qed

lemma decides_aborted:
  assumes j: "job_ok j" and fit: "fits j p s" and obs: "observed j obs s" and phase: "pg_phase p = Aborted"
    and d: "pg_manifestDigest p \<noteq> None"
  shows "decideRecovery (jmanifest j) p obs = (if unstaged j s then Complete Terminal_aborted else Cleanup Terminal_aborted)"
proof -
  have s: "inside j s" "loosely_staged j s" using fit phase d by (simp_all add: fits_def)
  moreover have "\<not> hasUnexpectedStagedContent (jmanifest j) obs" using obs by (simp add: observed_def)
  ultimately show ?thesis
    using decideRecovery_valid [OF fits_valid [OF j fit d]] phase decides_terminal [OF j obs s] by simp
qed

end
