(* ===== verification/Transaction_Resume.thy ===== *)
theory Transaction_Resume
  imports Transaction_Recover
begin

text \<open>
  The recovery loop. Each turn observes the files, decides and takes one step; the number of
  turns left strictly decreases, and the loop ends with the transaction committed when it
  was authorized to publish and aborted when it was not.
\<close>

section \<open>The state of the loop\<close>

definition same_doc :: "job \<Rightarrow> transaction_progress \<Rightarrow> transaction_progress \<Rightarrow> bool" where
  "same_doc j p q \<longleftrightarrow> documented j q \<and> pg_phase q = pg_phase p \<and> pg_published q = pg_published p \<and> pg_manifestDigest q \<noteq> None"

text \<open>The document in memory describes the storage, and so does the one it holds.\<close>

definition resumes :: "job \<Rightarrow> transaction_progress \<Rightarrow> storage \<Rightarrow> bool" where
  "resumes j p s \<longleftrightarrow> fits j p s \<and> pg_manifestDigest p \<noteq> None \<and> (\<exists>q. progress_is j q s \<and> same_doc j p q)"

lemma fits_same: "fits j p s \<Longrightarrow> pg_manifestDigest p \<noteq> None \<Longrightarrow> same_doc j p q \<Longrightarrow> fits j q s"
  unfolding fits_def same_doc_def by (auto split: transaction_phase.splits)

lemma resumes_crash: "resumes j p s \<Longrightarrow> crash j s"
  using fits_same crash_fits unfolding resumes_def by blast

lemma resumes_documented: "resumes j p s \<Longrightarrow> documented j p"
  by (simp add: resumes_def fits_def)

text \<open>The turns left.\<close>

definition remaining :: "job \<Rightarrow> transaction_progress \<Rightarrow> storage \<Rightarrow> nat" where
  "remaining j p s =
     (case pg_phase p of
        Prepared \<Rightarrow> 3
      | Publishing \<Rightarrow> jlen j - length (pg_published p) + 2
      | Committed \<Rightarrow> 1
      | Aborted \<Rightarrow> if unstaged j s then 1 else 2
      | Begun \<Rightarrow> 0)"

definition aim :: "transaction_progress \<Rightarrow> transaction_phase" where
  "aim p = (if pg_phase p \<in> {Publishing, Committed} then Committed else Aborted)"

lemma remaining_bounds: "job_ok j \<Longrightarrow> resumes j p s \<Longrightarrow> 0 < remaining j p s \<and> remaining j p s \<le> jlen j + 2"
proof -
  assume j: "job_ok j" and r: "resumes j p s"
  have "0 < jlen j" using j by (auto simp: job_ok_def plan_shape_def jlen_def)
  moreover have "pg_phase p \<noteq> Begun" using begun_unbound [OF resumes_documented [OF r]] r by (auto simp: resumes_def)
  ultimately show ?thesis by (auto simp: remaining_def split: transaction_phase.splits)
qed

text \<open>Nothing but an injected fault can make the recovery fail.\<close>

definition calm :: "bool \<Rightarrow> job \<Rightarrow> bool" where
  "calm free j \<longleftrightarrow> free \<or> (parents_exist j \<and> clock_ok (jb_services j) \<and> valid_manifest (jmanifest j) \<and> list_all id_test (jids j))"

definition next_turn :: "job \<Rightarrow> transaction_progress \<Rightarrow> storage \<Rightarrow> recovery_step \<Rightarrow> storage \<Rightarrow> bool" where
  "next_turn j p s0 step s \<longleftrightarrow>
     (case step of
        Finished receipt \<Rightarrow> rc_phase receipt = aim p \<and> rc_transactionId receipt = jb_id j \<and> finished j (aim p) s
      | Again r \<Rightarrow> resumes j r s \<and> remaining j r s < remaining j p s0 \<and> aim r = aim p)"

text \<open>Recording a document that the storage fits, as the step of a turn.\<close>

lemma hoare_again:
  assumes j: "job_ok j" and valid: "free \<or> (clock_ok sv \<and> (\<forall>t. timestamp_test t \<longrightarrow> valid_progress (p\<lparr>pg_updatedAt := t\<rparr>)))"
    and old: "\<And>s. P s \<Longrightarrow> \<exists>q. progress_is j q s \<and> fits j q s"
    and new: "\<And>s t. P s \<Longrightarrow> valid_progress (p\<lparr>pg_updatedAt := t\<rparr>) \<Longrightarrow> fits j (p\<lparr>pg_updatedAt := t\<rparr>) s"
    and keeps: "\<And>s t. P s \<Longrightarrow> scratch_eq j s t \<Longrightarrow> A t"
    and p: "pg_transactionId p = jb_id j" "pg_manifestDigest p \<noteq> None"
  shows "hoare (crash j) free P (and_then (stamp_and_persist sv p) (\<lambda>q. give (Again q)))
    (\<lambda>step s. \<exists>r. step = Again r \<and> resumes j r s \<and> pg_phase r = pg_phase p \<and> pg_published r = pg_published p \<and> A s)"
proof -
  have id: "id_test (jb_id j)" using j by (simp add: job_ok_def)
  have persist: "hoare (crash j) free P (stamp_and_persist sv p)
      (\<lambda>r s. \<exists>t d. r = p\<lparr>pg_updatedAt := t, pg_directorySync := d\<rparr> \<and> A s \<and> progress_is j (p\<lparr>pg_updatedAt := t\<rparr>) s \<and>
        fits j (p\<lparr>pg_updatedAt := t\<rparr>) s \<and> file_at s (next_path (jroot j)) = None)"
    by (rule hoare_stamp_persist [OF id valid old new keeps]) (use p in auto)
  show ?thesis
  proof (rule hoare_and_then [OF persist], rule hoare_give, elim exE conjE)
    fix r s t d
    assume r: "r = p\<lparr>pg_updatedAt := t, pg_directorySync := d\<rparr>" and s: "A s" "progress_is j (p\<lparr>pg_updatedAt := t\<rparr>) s"
      "fits j (p\<lparr>pg_updatedAt := t\<rparr>) s"
    have "fits j r s" unfolding r using s(3) sync_irrelevant(3) [where p = "p\<lparr>pg_updatedAt := t\<rparr>"] by simp
    moreover have "documented j (p\<lparr>pg_updatedAt := t\<rparr>)" using s(3) by (simp add: fits_def)
    ultimately have "resumes j r s" using s(2) p(2) r unfolding resumes_def same_doc_def
      by (intro conjI exI [of _ "p\<lparr>pg_updatedAt := t\<rparr>"]) simp_all
    with r s(1) show "\<exists>ra. Again r = Again ra \<and> resumes j ra s \<and> pg_phase ra = pg_phase p \<and> pg_published ra = pg_published p \<and> A s"
      by simp
  qed
qed

lemma resumes_old: "resumes j p s \<Longrightarrow> \<exists>q. progress_is j q s \<and> fits j q s"
  using fits_same unfolding resumes_def by blast

section \<open>One turn\<close>

lemma aborted_fits:
  assumes v: "valid_progress (p\<lparr>pg_phase := Aborted, pg_published := [], pg_updatedAt := t\<rparr>)"
    and p: "documented j p" and s: "inside j s" "outside j 0 s" "orphan_free j s"
      "pg_manifestDigest p \<noteq> None \<longrightarrow> manifest_in j s \<and> loosely_staged j s"
  shows "fits j (p\<lparr>pg_phase := Aborted, pg_published := [], pg_updatedAt := t\<rparr>) s"
  using assms by (simp add: fits_def documented_def cong: option.case_cong)

lemma staged_loose: "staged_from j k s \<Longrightarrow> loosely_staged j s \<and> orphan_free j s"
  by (auto simp: staged_from_def loosely_staged_def orphan_free_def)

lemma turn_prepared:
  assumes j: "job_ok j" and calm: "calm free j" and r: "resumes j p s0" and phase: "pg_phase p = Prepared"
  shows "hoare (crash j) free (\<lambda>s. s = s0)
    (and_then (stamp_and_persist (jb_services j) (p\<lparr>pg_phase := Aborted, pg_published := []\<rparr>)) (\<lambda>q. give (Again q)))
    (next_turn j p s0)"
proof -
  let ?p = "p\<lparr>pg_phase := Aborted, pg_published := []\<rparr>"
  have fit: "fits j p s0" and d: "pg_manifestDigest p \<noteq> None" using r by (simp_all add: resumes_def)
  note doc = resumes_documented [OF r]
  have s: "inside j s0" "outside j 0 s0" "staged_from j 0 s0" "manifest_in j s0" using fit phase by (simp_all add: fits_def)
  have "hoare (crash j) free (\<lambda>s. s = s0) (and_then (stamp_and_persist (jb_services j) ?p) (\<lambda>q. give (Again q)))
      (\<lambda>step s. \<exists>r. step = Again r \<and> resumes j r s \<and> pg_phase r = pg_phase ?p \<and> pg_published r = pg_published ?p \<and> True)"
  proof (rule hoare_again [OF j])
    show "free \<or> clock_ok (jb_services j) \<and> (\<forall>t. timestamp_test t \<longrightarrow> valid_progress (?p\<lparr>pg_updatedAt := t\<rparr>))"
      using calm documented_valid [OF doc] by (auto simp: calm_def valid_progress_def)
    show "\<exists>q. progress_is j q s \<and> fits j q s" if "s = s0" for s using resumes_old [OF r] that by simp
    show "fits j (?p\<lparr>pg_updatedAt := t\<rparr>) s" if "s = s0" "valid_progress (?p\<lparr>pg_updatedAt := t\<rparr>)" for s t
      using aborted_fits [OF that(2) doc] s staged_loose [OF s(3)] that(1) by simp
    show "pg_transactionId ?p = jb_id j" using doc by (simp add: documented_def)
  qed (use d in auto)
  then show ?thesis
    by (rule hoare_post) (auto simp: next_turn_def remaining_def aim_def phase)
qed

section \<open>Turns while publishing\<close>

lemma next_published:
  assumes "pubdoc j m p" "m < jlen j"
  shows "pg_published p @ [mo_operationId (jop j m)] = take (Suc m) (jids j)"
  using assms by (simp add: pubdoc_def jids_def jlen_def jop_def take_Suc_conv_app_nth)

lemma published_valid:
  assumes j: "job_ok j" "list_all id_test (jids j)" and p: "pubdoc j m p" and t: "timestamp_test t"
  shows "valid_progress (p\<lparr>pg_published := take n (jids j), pg_updatedAt := t\<rparr>)"
  using p t documented_valid [of j p] distinct_jids [OF j(1)] j(2)
  by (auto simp: pubdoc_def valid_progress_def list_all_iff dest: in_set_takeD)

lemma published_pubdoc:
  assumes "pubdoc j m p" "valid_progress (p\<lparr>pg_published := take n (jids j), pg_updatedAt := t\<rparr>)"
  shows "pubdoc j n (p\<lparr>pg_published := take n (jids j), pg_updatedAt := t\<rparr>)"
  using assms by (simp add: pubdoc_def documented_def cong: option.case_cong)

text \<open>The storages of a turn: the document \<open>p\<close> in memory, \<open>q\<close> on disk, \<open>k\<close> operations in effect.\<close>

lemma publishing_state:
  assumes j: "job_ok j" and r: "resumes j p s" and phase: "pg_phase p = Publishing"
  obtains m k q where "pubdoc j m p" "pubdoc j m q" "progress_is j q s" "at_op j k s" "m = length (pg_published p)"
    "m \<le> k" "k \<le> Suc m" "k \<le> jlen j" "expected_ok j"
proof -
  from r obtain q where q: "progress_is j q s" "same_doc j p q" and fit: "fits j p s" by (auto simp: resumes_def)
  from fit phase obtain k where k: "k \<le> jlen j" "outside j k s" "staged_from j k s"
      "length (pg_published p) \<le> k" "k \<le> Suc (length (pg_published p))"
    and doc: "documented j p" "inside j s" "manifest_in j s" "expected_ok j"
      "pg_published p = take (length (pg_published p)) (jids j)"
    by (auto simp: fits_def)
  have "at_op j k s" using k doc by (simp add: at_op_def)
  moreover have "pubdoc j (length (pg_published p)) p" using doc phase by (simp add: pubdoc_def)
  moreover have "pubdoc j (length (pg_published p)) q" using q(2) doc phase by (simp add: pubdoc_def same_doc_def)
  ultimately show thesis using that q(1) k doc by blast
qed

lemma publishing_turn:
  assumes j: "job_ok j" "expected_ok j" and calm: "calm free j"
    and p: "pubdoc j m p" "m < jlen j" and P: "\<And>s. P s \<Longrightarrow> at_op j (Suc m) s \<and> (\<exists>q. pubdoc j m q \<and> progress_is j q s)"
  shows "hoare (crash j) free P
    (and_then (stamp_and_persist (jb_services j)
        (p\<lparr>pg_published := pg_published p @ [mo_operationId (jop j m)], pg_directorySync := d\<rparr>)) (\<lambda>q. give (Again q)))
    (\<lambda>step s. \<exists>r. step = Again r \<and> resumes j r s \<and> pg_phase r = Publishing \<and> length (pg_published r) = Suc m)"
proof -
  let ?p = "p\<lparr>pg_published := take (Suc m) (jids j), pg_directorySync := d\<rparr>"
  have eq: "p\<lparr>pg_published := pg_published p @ [mo_operationId (jop j m)], pg_directorySync := d\<rparr> = ?p"
    using next_published [OF p] by simp
  have doc: "documented j p" using p by (simp add: pubdoc_def)
  have swap: "?p\<lparr>pg_updatedAt := t\<rparr> = p\<lparr>pg_published := take (Suc m) (jids j), pg_updatedAt := t\<rparr>\<lparr>pg_directorySync := d\<rparr>" for t
    by simp
  have "hoare (crash j) free P (and_then (stamp_and_persist (jb_services j) ?p) (\<lambda>q. give (Again q)))
      (\<lambda>step s. \<exists>r. step = Again r \<and> resumes j r s \<and> pg_phase r = pg_phase ?p \<and> pg_published r = pg_published ?p \<and> True)"
  proof (rule hoare_again [OF j(1)])
    show "free \<or> clock_ok (jb_services j) \<and> (\<forall>t. timestamp_test t \<longrightarrow> valid_progress (?p\<lparr>pg_updatedAt := t\<rparr>))"
      using calm published_valid [OF j(1) _ p(1)] unfolding swap sync_irrelevant calm_def by blast
    show "\<exists>q. progress_is j q s \<and> fits j q s" if "P s" for s
      using P [OF that] pubdoc_fits [OF _ j(2), of m _ "Suc m" s] p(2) by auto
    show "fits j (?p\<lparr>pg_updatedAt := t\<rparr>) s" if "P s" "valid_progress (?p\<lparr>pg_updatedAt := t\<rparr>)" for s t
    proof -
      have "pubdoc j (Suc m) (p\<lparr>pg_published := take (Suc m) (jids j), pg_updatedAt := t\<rparr>)"
        using that(2) published_pubdoc [OF p(1)] unfolding swap sync_irrelevant by blast
      from pubdoc_fits [OF this j(2), of "Suc m" s] P [OF that(1)] p(2) show ?thesis
        unfolding swap sync_irrelevant by simp
    qed
    show "pg_transactionId ?p = jb_id j" "pg_manifestDigest ?p \<noteq> None"
      using doc p(1) by (auto simp: documented_def pubdoc_def valid_progress_def)
  qed simp
  then show ?thesis unfolding eq
    by (rule hoare_post) (use p in \<open>auto simp: pubdoc_def\<close>)
qed

lemma turn_record:
  assumes j: "job_ok j" "expected_ok j" and calm: "calm free j" and p: "pubdoc j m p" "m < jlen j"
    and s0: "at_op j (Suc m) s0" "pubdoc j m q" "progress_is j q s0"
  shows "hoare (crash j) free (\<lambda>s. s = s0)
    (and_then (stamp_and_persist (jb_services j) (p\<lparr>pg_published := pg_published p @ [mo_operationId (jop j m)]\<rparr>))
      (\<lambda>q. give (Again q))) (next_turn j p s0)"
proof -
  have same: "p\<lparr>pg_published := xs\<rparr> = p\<lparr>pg_published := xs, pg_directorySync := pg_directorySync p\<rparr>" for xs by simp
  have "length (pg_published p) = m" using p by (simp add: pubdoc_def)
  then show ?thesis
    using p by (subst same) (rule hoare_post [OF publishing_turn [OF j calm p]],
      use s0 in \<open>auto simp: next_turn_def remaining_def aim_def pubdoc_def\<close>)
qed

lemma parent_stays:
  assumes j: "job_ok j" "k < jlen j" and s: "outside j (Suc k) s" and parents: "parents_exist j"
  shows "parentOf (dr_path (jop j k)) = ''.'' \<or> dir_at s (parentOf (dr_path (jop j k)))"
proof (cases "storage_parent (dr_path (jop j k))")
  case (Some par)
  have nd: "par \<noteq> ''.''" using parent_durable(2) [OF jop_destination [OF j] Some] .
  have "view (jb_services j) (applied j k) par = Directory"
    using parents j(2) Some unfolding parents_exist_def parentOf_def by fastforce
  then have "dir_at (applied j (Suc k)) par"
    unfolding applied_Suc [OF j(2)] by (simp add: view_is_dir [OF nd] jop_def [symmetric] effect_on_at)
  with s parent_outside [OF j Some] Some show ?thesis by (simp add: outside_def parentOf_def)
qed (simp add: parentOf_def)

lemma turn_publish:
  assumes j: "job_ok j" "expected_ok j" and calm: "calm free j" and p: "pubdoc j m p" "m < jlen j"
    and s0: "at_op j m s0" "pubdoc j m q" "progress_is j q s0"
    and lease: "\<And>s. at_op j m s \<Longrightarrow> free \<or> lease_holds (jb_services j) authority s"
  shows "hoare (crash j) free (\<lambda>s. s = s0)
    (recover_publish (jb_services j) authority p (manifest_operation (jroot j) (jop j m))) (next_turn j p s0)"
proof -
  let ?sv = "jb_services j" and ?op = "jop j m"
  let ?P = "\<lambda>s. at_op j m s \<and> progress_is j q s" and ?N = "\<lambda>s. at_op j (Suc m) s \<and> progress_is j q s"
  have id: "id_test (jb_id j)" using j by (simp add: job_ok_def)
  have I: "crash j s" if "?P s" for s using that pubdoc_fits [OF s0(2) j(2), of m s] p by (auto intro: crash_fits)
  have N: "crash j s" if "?N s" for s using that pubdoc_fits [OF s0(2) j(2), of "Suc m" s] p by (auto intro: crash_fits)
  have durable: "durable_path (dr_path ?op)" using destination_durable jop_destination [OF j(1) p(2)] by blast
  have nd: "dr_path ?op \<noteq> ''.''" using jop_outside(2) [OF j(1) p(2)] .
  note parent = parentOf_observable [OF j(1) p(2)]
  have ne: "dr_expected ?op \<noteq> dr_result ?op" using jop_shape [OF j(1) p(2)] by (simp add: operation_shape_def)
  have dest: "view ?sv s (dr_path ?op) = dr_expected ?op" if "?P s" for s
    using outside_view [OF _ jop_outside(1) [OF j(1) p(2)], of m s] applied_view [OF j, of m m] that p(2) by (simp add: at_op_def)
  have parents: "free \<or> view ?sv s (parentOf (dr_path ?op)) = Directory" if "?P s" for s
    using calm parent_view [OF j(1) p(2), of s] p(2) that by (auto simp: calm_def parents_exist_def at_op_def)
  let ?V = "\<lambda>s. ?P s \<and> view ?sv s (parentOf (dr_path ?op)) = Directory"
  have payload: "hoare (crash j) free ?V
      (if po_kind (manifest_operation (jroot j) ?op) = Persisted_write
       then assertResult ?sv (the (po_stagedPath (manifest_operation (jroot j) ?op))) (dr_result ?op) else give ()) (\<lambda>_. ?V)"
  proof (cases "content_of j m")
    case None
    then show ?thesis by (auto simp: content_of_def jop_def split: operation_kind.splits intro: hoare_give)
  next
    case (Some c)
    then have kind: "dr_kind ?op = Write_op c" by (simp add: content_of_def jop_def split: operation_kind.splits)
    have staged: "po_stagedPath (manifest_operation (jroot j) ?op) = Some (payload j m)"
      using jop_staged [OF j(1) p(2)] Some by simp
    have "view ?sv s (payload j m) = dr_result ?op" if "?P s" for s
      using payload_view [OF j(1) p(2) Some, of s] that p(2) Some by (simp add: at_op_def staged_from_def)
    moreover have "po_kind (manifest_operation (jroot j) ?op) = Persisted_write" using kind by simp
    ultimately show ?thesis
      unfolding staged option.sel assertResult_def
      by (simp only: if_True simp_thms) (rule hoare_checked, use I own_durable(6) [OF id] in auto)
  qed
  have publish: "hoare (crash j) free ?V (publishOperation ?op (jroot j)) (\<lambda>_. ?N)"
    by (rule hoare_pre [OF hoare_publish [OF j p(2) s0(2)]]) (use dest in auto)
  have sync: "hoare (crash j) free ?N (merged_sync e (parentOf (dr_path ?op))) (\<lambda>_. ?N)" for e
  proof (rule hoare_merged)
    fix s assume s: "?N s"
    have "free \<or> parentOf (dr_path ?op) = ''.'' \<or> dir_at s (parentOf (dr_path ?op))"
      using calm parent_stays [OF j(1) p(2), of s] s by (auto simp: calm_def at_op_def)
    with N s show "crash j s \<and> (free \<or> parentOf (dr_path ?op) = ''.'' \<or> dir_at s (parentOf (dr_path ?op)))" by blast
  qed (use parent in auto)
  have result: "hoare (crash j) free ?N (assertResult ?sv (dr_path ?op) (dr_result ?op)) (\<lambda>_. ?N)"
    unfolding assertResult_def
  proof (rule hoare_checked)
    fix s assume s: "?N s"
    have "view ?sv s (dr_path ?op) = dr_result ?op"
      using outside_view [OF _ jop_outside(1) [OF j(1) p(2)], of "Suc m" s] applied_view [OF j, of "Suc m" m] p(2) s
      by (simp add: at_op_def)
    then show "free \<or> sameFingerprint (view ?sv s (dr_path ?op)) (dr_result ?op)" by simp
  qed (use N durable in auto)
  have noted: "hoare (crash j) free ?N
      (and_then (stamp_and_persist ?sv (p\<lparr>pg_published := pg_published p @ [mo_operationId ?op], pg_directorySync := e\<rparr>))
        (\<lambda>q. give (Again q))) (next_turn j p s0)" for e
    by (rule hoare_post [OF publishing_turn [OF j calm p]])
       (use s0 p in \<open>auto simp: next_turn_def remaining_def aim_def pubdoc_def\<close>)
  have held: "hoare (crash j) free ?V (assertLeaseAuthority ?sv authority) (\<lambda>_. ?V)"
    by (rule hoare_lease) (use I lease in auto)
  let ?tail = "next_do (if po_kind (manifest_operation (jroot j) ?op) = Persisted_write
       then assertResult ?sv (the (po_stagedPath (manifest_operation (jroot j) ?op))) (dr_result ?op) else give ())
     (next_do (assertLeaseAuthority ?sv authority)
     (next_do (publishOperation ?op (jroot j))
     (and_then (merged_sync (pg_directorySync p) (parentOf (dr_path ?op))) (\<lambda>directorySync.
      next_do (assertResult ?sv (dr_path ?op) (dr_result ?op))
      (and_then (stamp_and_persist ?sv (p\<lparr>pg_published := pg_published p @ [mo_operationId ?op], pg_directorySync := directorySync\<rparr>))
        (\<lambda>q. give (Again q)))))))"
  have tail: "hoare (crash j) free ?V ?tail (next_turn j p s0)"
    by (rule hoare_next [OF payload hoare_next [OF held hoare_next [OF publish hoare_and_then [OF sync hoare_next [OF result noted]]]]])
  have target: "hoare (crash j) free (\<lambda>s. ?V s \<and> entry = view ?sv s (dr_path ?op))
      (if sameFingerprint entry (dr_result ?op)
       then and_then (stamp_and_persist ?sv (p\<lparr>pg_published := pg_published p @ [mo_operationId ?op]\<rparr>)) (\<lambda>q. give (Again q))
       else next_do (ensure (sameFingerprint entry (dr_expected ?op)) (corrupt (dr_path ?op))) ?tail) (next_turn j p s0)" for entry
  proof (cases "entry = dr_expected ?op")
    case True
    with ne have "\<not> sameFingerprint entry (dr_result ?op)" by simp
    then show ?thesis
      by (simp only: if_False) (rule hoare_next [OF hoare_ensure tail], use True in auto)
  next
    case False
    with dest show ?thesis by (intro hoare_vacuous) auto
  qed
  show ?thesis
    unfolding recover_publish_def Let_def manifest_operation_sel(1,2,3,4) publish_persisted [OF j(1) p(2)]
      transaction_progress.update_convs
    by (rule hoare_pre [OF hoare_observed [OF _ _ hoare_next [OF hoare_ensure hoare_observed [OF _ _ target]], where P = ?P]])
       (use I parents parent durable s0 in auto)
qed

section \<open>Turns that end the transaction\<close>

lemma termdoc_same: "termdoc j p \<Longrightarrow> termdoc j q \<Longrightarrow> pg_phase q = pg_phase p \<Longrightarrow> same_doc j p q"
  by (auto simp: termdoc_def same_doc_def)

lemma same_termdoc: "termdoc j p \<Longrightarrow> same_doc j p q \<Longrightarrow> termdoc j q"
  by (auto simp: termdoc_def same_doc_def)

text \<open>Between the turns of a finished transaction: its document in memory and on disk.\<close>

definition ended :: "job \<Rightarrow> transaction_phase \<Rightarrow> transaction_progress \<Rightarrow> storage \<Rightarrow> bool" where
  "ended j phase r s \<longleftrightarrow> termdoc j r \<and> pg_phase r = phase \<and> term_state j phase s \<and>
     (\<exists>q. termdoc j q \<and> pg_phase q = phase \<and> progress_is j q s)"

lemma ended_resumes: "ended j phase r s \<Longrightarrow> resumes j r s"
  using termdoc_fits [of j r s] termdoc_same [of j r] unfolding ended_def resumes_def
  by (auto simp: termdoc_def)

lemma resumes_ended: "resumes j p s \<Longrightarrow> termdoc j p \<Longrightarrow> ended j (pg_phase p) p s"
  using termdoc_fits [of j p s] same_termdoc [of j p] unfolding ended_def resumes_def
  by (auto simp: same_doc_def)

lemma hoare_sweep:
  assumes j: "job_ok j" and calm: "calm free j"
  shows "hoare (crash j) free (ended j phase p) (cleanup_and_sync (jb_services j) (jmanifest j) p)
    (\<lambda>r s. ended j phase r s \<and> clean j s)"
proof -
  have "hoare (crash j) free (\<lambda>s. \<exists>q. (termdoc j p \<and> pg_phase p = phase \<and> termdoc j q \<and> pg_phase q = phase) \<and>
      term_state j phase s \<and> progress_is j q s) (cleanup_and_sync (jb_services j) (jmanifest j) p)
      (\<lambda>r s. ended j phase r s \<and> clean j s)"
    unfolding cleanup_and_sync_def
  proof (rule hoare_exists, rule hoare_fact, elim conjE)
    fix q assume p: "termdoc j p" "pg_phase p = phase" and q: "termdoc j q" "pg_phase q = phase"
    have "hoare (crash j) free (\<lambda>s. term_state j phase s \<and> progress_is j q s \<and> clean j s)
        (persistTerminalDirectorySync (jb_services j) p d)
        (\<lambda>r s. termdoc j r \<and> pg_phase r = phase \<and> term_state j phase s \<and> clean j s \<and>
          (\<exists>q. termdoc j q \<and> pg_phase q = phase \<and> progress_is j q s))" for d
      by (rule hoare_terminal_sync [OF j p q]) (use calm clean_scratch in \<open>auto simp: calm_def\<close>)
    then have "hoare (crash j) free (\<lambda>s. term_state j phase s \<and> progress_is j q s \<and> clean j s)
        (persistTerminalDirectorySync (jb_services j) p d) (\<lambda>r s. ended j phase r s \<and> clean j s)" for d
      by (rule hoare_post) (auto simp: ended_def)
    then show "hoare (crash j) free (\<lambda>s. term_state j phase s \<and> progress_is j q s)
        (and_then (cleanupTransaction (jb_services j) (jmanifest j) (pg_directorySync p))
          (persistTerminalDirectorySync (jb_services j) p)) (\<lambda>r s. ended j phase r s \<and> clean j s)"
      by (rule hoare_and_then [OF hoare_cleanup [OF j q]])
  qed
  then show ?thesis by (rule hoare_pre) (auto simp: ended_def)
qed

lemma hoare_terminal_receipt:
  "hoare (crash j) free (\<lambda>s. ended j phase r s \<and> clean j s) (receiptFromProgress r)
     (\<lambda>receipt s. rc_phase receipt = phase \<and> rc_transactionId receipt = jb_id j \<and> finished j phase s)"
proof (rule hoare_receipt)
  fix s assume s: "ended j phase r s \<and> clean j s"
  then have done_: "finished j phase s" by (auto simp: ended_def finished_def)
  with s finished_crash show "crash j s \<and> (pg_phase r = Committed \<or> pg_phase r = Aborted)"
    by (auto simp: ended_def termdoc_def)
  from s done_ show "rc_phase t = phase \<and> rc_transactionId t = jb_id j \<and> finished j phase s"
    if "rc_phase t = pg_phase r" "rc_transactionId t = pg_transactionId r" for t
    using that by (simp add: ended_def termdoc_def documented_def)
qed

lemma hoare_residue:
  assumes j: "job_ok j" and P: "\<And>s. P s \<Longrightarrow> crash j s \<and> inside j s \<and> unstaged j s"
  shows "hoare (crash j) free P (hasCleanupEntries (jb_services j) (jroot j) False) (\<lambda>residue s. (\<not> residue \<longrightarrow> clean j s) \<and> P s)"
proof -
  have id: "id_test (jb_id j)" using j by (simp add: job_ok_def)
  note durable = own_durable [OF id]
  show ?thesis
    unfolding hasCleanupEntries_def
  proof (rule hoare_observed, goal_cases)
    case (3 staging)
    show ?case
    proof (cases "staging = Missing")
      case False
      then show ?thesis by (auto intro: hoare_give)
    next
      case True
      show ?thesis unfolding True simp_thms if_False
        by (rule hoare_observed)
           (use P durable in \<open>auto intro!: hoare_give simp: view_missing_iff vacant_def clean_def eq_commute [of Missing]\<close>)
    qed
  qed (use P durable in auto)
qed

lemma turn_complete:
  assumes j: "job_ok j" and calm: "calm free j" and r: "resumes j p s0" and td: "termdoc j p" and u: "unstaged j s0"
  shows "hoare (crash j) free (\<lambda>s. s = s0)
    (and_then (hasCleanupEntries (jb_services j) (jroot j) (pg_manifestDigest p = None)) (\<lambda>residue.
     and_then (if residue then cleanup_and_sync (jb_services j) (jmanifest j) p else give p) (\<lambda>q.
     and_then (receiptFromProgress q) (\<lambda>receipt. give (Finished receipt)))))
    (next_turn j p s0)"
proof -
  let ?E = "ended j (pg_phase p) p"
  have E: "?E s0" by (rule resumes_ended [OF r td])
  have crash: "crash j s" if "?E s" for s using resumes_crash [OF ended_resumes [OF that]] .
  have d: "(pg_manifestDigest p = None) = False" using td by (simp add: termdoc_def)
  have residue: "hoare (crash j) free (\<lambda>s. s = s0) (hasCleanupEntries (jb_services j) (jroot j) False)
      (\<lambda>residue s. (\<not> residue \<longrightarrow> clean j s) \<and> s = s0)"
    by (rule hoare_residue [OF j]) (use E crash u in \<open>auto simp: ended_def term_state_def\<close>)
  have swept: "hoare (crash j) free (\<lambda>s. (\<not> residue \<longrightarrow> clean j s) \<and> s = s0)
      (if residue then cleanup_and_sync (jb_services j) (jmanifest j) p else give p)
      (\<lambda>q s. ended j (pg_phase p) q s \<and> clean j s)" for residue
    by (cases residue) (use E in \<open>auto intro: hoare_give hoare_pre [OF hoare_sweep [OF j calm]]\<close>)
  have "aim p = pg_phase p" using td by (auto simp: termdoc_def aim_def)
  then have receipt: "hoare (crash j) free (\<lambda>s. ended j (pg_phase p) q s \<and> clean j s)
      (and_then (receiptFromProgress q) (\<lambda>receipt. give (Finished receipt))) (next_turn j p s0)" for q
    by (intro hoare_and_then [OF hoare_terminal_receipt] hoare_give) (simp add: next_turn_def)
  show ?thesis unfolding d
    by (rule hoare_and_then [OF residue hoare_and_then [OF swept receipt]])
qed

lemma turn_cleanup:
  assumes j: "job_ok j" and calm: "calm free j" and r: "resumes j p s0" and phase: "pg_phase p = Aborted"
    and u: "\<not> unstaged j s0"
  shows "hoare (crash j) free (\<lambda>s. s = s0)
    (and_then (cleanup_and_sync (jb_services j) (jmanifest j) p) (\<lambda>q. give (Again q))) (next_turn j p s0)"
proof -
  have "termdoc j p" using r phase by (auto simp: termdoc_def resumes_def fits_def)
  then have E: "ended j Aborted p s0" using resumes_ended [OF r] phase by simp
  show ?thesis
  proof (rule hoare_and_then [OF hoare_pre [OF hoare_sweep [OF j calm, where phase = Aborted and p = p]]])
    show "hoare (crash j) free (\<lambda>s. ended j Aborted q s \<and> clean j s) (give (Again q)) (next_turn j p s0)" for q
      by (rule hoare_give)
         (use u phase ended_resumes [of j Aborted q] in
           \<open>auto simp: next_turn_def remaining_def aim_def ended_def clean_def\<close>)
  qed (use E in simp)
qed

lemma turn_commit:
  assumes j: "job_ok j" "expected_ok j" and calm: "calm free j" and p: "pubdoc j (jlen j) p"
    and s0: "at_op j (jlen j) s0" "pubdoc j (jlen j) q" "progress_is j q s0"
  shows "hoare (crash j) free (\<lambda>s. s = s0)
    (and_then (stamp_and_persist (jb_services j) (p\<lparr>pg_phase := Committed, pg_published := jids j\<rparr>)) (\<lambda>q. give (Again q)))
    (next_turn j p s0)"
proof -
  let ?p = "p\<lparr>pg_phase := Committed, pg_published := jids j\<rparr>"
  have doc: "documented j p" "pg_phase p = Publishing" "pg_published p = jids j" using p by (simp_all add: pubdoc_def)
  have td: "termdoc j (?p\<lparr>pg_updatedAt := t\<rparr>)" if "valid_progress (?p\<lparr>pg_updatedAt := t\<rparr>)" for t
    using committed_document [OF p j(2), where d = "pg_directorySync p" and t = t] that by simp
  have "hoare (crash j) free (\<lambda>s. s = s0) (and_then (stamp_and_persist (jb_services j) ?p) (\<lambda>q. give (Again q)))
      (\<lambda>step s. \<exists>r. step = Again r \<and> resumes j r s \<and> pg_phase r = pg_phase ?p \<and> pg_published r = pg_published ?p \<and> True)"
  proof (rule hoare_again [OF j(1)])
    show "free \<or> clock_ok (jb_services j) \<and> (\<forall>t. timestamp_test t \<longrightarrow> valid_progress (?p\<lparr>pg_updatedAt := t\<rparr>))"
      using calm documented_valid [OF doc(1)] doc(2) distinct_jids [OF j(1)] by (auto simp: calm_def valid_progress_def)
    show "\<exists>q. progress_is j q s \<and> fits j q s" if "s = s0" for s
      using s0 pubdoc_fits [OF s0(2) j(2), of "jlen j" s0] that by auto
    show "fits j (?p\<lparr>pg_updatedAt := t\<rparr>) s" if "s = s0" "valid_progress (?p\<lparr>pg_updatedAt := t\<rparr>)" for s t
      using termdoc_fits [OF td [OF that(2)]] at_op_committed [OF s0(1)] that(1) by simp
    show "pg_transactionId ?p = jb_id j" using doc by (simp add: documented_def)
    show "pg_manifestDigest ?p \<noteq> None" using doc by (auto simp: documented_def valid_progress_def)
  qed simp
  then show ?thesis
    by (rule hoare_post) (use doc in \<open>auto simp: next_turn_def remaining_def aim_def\<close>)
qed

section \<open>The loop\<close>

lemma named_operation:
  assumes "job_ok j" "k < jlen j"
  shows "manifest_operation_named (jmanifest j) (mo_operationId (jop j k)) = Some (manifest_operation (jroot j) (jop j k))"
proof -
  have "\<not> po_operationId (mf_operations (jmanifest j) ! i) = mo_operationId (jop j k)" if "i < k" for i
    using that assms distinct_jids [OF assms(1)] nth_eq_iff_index_eq [of "jids j" i k]
    by (simp add: mop_at jids_def jop_def jlen_def)
  with assms(2) have "List.find (\<lambda>candidate. po_operationId candidate = mo_operationId (jop j k)) (mf_operations (jmanifest j)) =
      Some (mf_operations (jmanifest j) ! k)"
    by (auto simp: find_Some_iff mop_at intro!: exI [of _ k])
  then show ?thesis using assms(2) by (simp add: manifest_operation_named_def mop_at)
qed

lemma hoare_iteration:
  assumes j: "job_ok j" and calm: "calm free j" and r: "resumes j p s0"
    and lease: "\<And>k s. k \<le> jlen j \<Longrightarrow> at_op j k s \<Longrightarrow> expected_ok j \<Longrightarrow> free \<or> lease_holds (jb_services j) authority s"
  shows "hoare (crash j) free (\<lambda>s. s = s0) (recovery_iteration (jb_services j) (jmanifest j) authority p) (next_turn j p s0)"
proof -
  have fit: "fits j p s0" and d: "pg_manifestDigest p \<noteq> None" using r by (simp_all add: resumes_def)
  have root: "transactionRoot (mf_transactionId (jmanifest j)) = jroot j" by (simp add: jmanifest_def jroot_def)
  have ids: "map po_operationId (mf_operations (jmanifest j)) = jids j" by (rule jmanifest_ids)
  show ?thesis
    unfolding recovery_iteration_def Let_def root ids
  proof (rule hoare_and_then [OF hoare_observe_transaction
        [where I = "crash j" and ?s0.0 = s0, OF j resumes_crash [OF r] fits_staged_owned [OF fit d]]], rule hoare_fact)
    fix obs assume obs: "observed j obs s0"
    show "hoare (crash j) free (\<lambda>s. s = s0)
      (case decideRecovery (jmanifest j) p obs of
         Abort \<Rightarrow> next_do (ensure (assertPhaseTransition (pg_phase p) Aborted) Untyped_error)
           (and_then (stamp_and_persist (jb_services j) (p\<lparr>pg_phase := Aborted, pg_published := []\<rparr>)) (\<lambda>q. give (Again q)))
       | Record_published operationId \<Rightarrow>
           and_then (stamp_and_persist (jb_services j) (p\<lparr>pg_published := pg_published p @ [operationId]\<rparr>)) (\<lambda>q. give (Again q))
       | Publish operationId \<Rightarrow>
           (case manifest_operation_named (jmanifest j) operationId of
              None \<Rightarrow> throw (corrupt (manifest_path (jroot j)))
            | Some operation \<Rightarrow> recover_publish (jb_services j) authority p operation)
       | Commit \<Rightarrow> next_do (ensure (assertPhaseTransition (pg_phase p) Committed) Untyped_error)
           (and_then (stamp_and_persist (jb_services j) (p\<lparr>pg_phase := Committed, pg_published := jids j\<rparr>)) (\<lambda>q. give (Again q)))
       | Cleanup _ \<Rightarrow> and_then (cleanup_and_sync (jb_services j) (jmanifest j) p) (\<lambda>p. give (Again p))
       | Complete _ \<Rightarrow>
           and_then (hasCleanupEntries (jb_services j) (jroot j) (pg_manifestDigest p = None)) (\<lambda>residue.
           and_then (if residue then cleanup_and_sync (jb_services j) (jmanifest j) p else give p) (\<lambda>p.
           and_then (receiptFromProgress p) (\<lambda>receipt. give (Finished receipt))))
       | Recovery_blocked blocked \<Rightarrow>
           (case blocked of
              None \<Rightarrow> throw (corrupt (progress_path (jroot j)))
            | Some operationId \<Rightarrow>
                (case manifest_operation_named (jmanifest j) operationId of
                   None \<Rightarrow> throw (corrupt (manifest_path (jroot j)))
                 | Some operation \<Rightarrow> throw (corrupt (po_path operation))))) (next_turn j p s0)"
    proof (cases "pg_phase p")
      case Begun
      with begun_unbound [OF resumes_documented [OF r]] d show ?thesis by simp
    next
      case Prepared
      show ?thesis
        unfolding decides_prepared [OF j fit obs Prepared d] recovery_decision.case
        by (rule hoare_next [OF hoare_ensure turn_prepared [OF j calm r Prepared]])
           (auto simp: Prepared assertPhaseTransition_def legalTransitions_def)
    next
      case Publishing
      obtain m k q where s: "pubdoc j m p" "pubdoc j m q" "progress_is j q s0" "at_op j k s0" "m = length (pg_published p)"
          "m \<le> k" "k \<le> Suc m" "k \<le> jlen j" "expected_ok j"
        using publishing_state [OF j r Publishing] by blast
      have o: "outside j k s0" "staged_from j k s0" using s(4) by (simp_all add: at_op_def)
      note decided = decides_publishing [OF j fit obs Publishing d s(8) o s(6) [unfolded s(5)], folded s(5)]
      consider "k = Suc m" "m < jlen j" | "k = m" "m < jlen j" | "k = m" "m = jlen j" using s(6,7,8) by linarith
      then show ?thesis
      proof cases
        case 1
        then show ?thesis
          using turn_record [OF j s(9) calm s(1) 1(2), of s0 q] s decided by simp
      next
        case 2
        then show ?thesis
          using turn_publish [OF j s(9) calm s(1) 2(2), of s0 q authority] s decided named_operation [OF j 2(2)] lease by simp
      next
        case 3
        have "decideRecovery (jmanifest j) p obs = Commit" using decided 3 by simp
        moreover have "hoare (crash j) free (\<lambda>s. s = s0)
            (next_do (ensure (assertPhaseTransition (pg_phase p) Committed) Untyped_error)
              (and_then (stamp_and_persist (jb_services j) (p\<lparr>pg_phase := Committed, pg_published := jids j\<rparr>)) (\<lambda>q. give (Again q))))
            (next_turn j p s0)"
          by (rule hoare_next [OF hoare_ensure turn_commit [OF j s(9) calm s(1) [unfolded 3(2)], where q = q]])
             (use s 3 in \<open>auto simp: Publishing assertPhaseTransition_def legalTransitions_def\<close>)
        ultimately show ?thesis by simp
      qed
    next
      case Committed
      have "termdoc j p" "unstaged j s0" using fit d Committed by (simp_all add: termdoc_def fits_def)
      with turn_complete [OF j calm r] show ?thesis
        unfolding decides_committed [OF j fit obs Committed d] recovery_decision.case by simp
    next
      case Aborted
      have td: "termdoc j p" using fit d Aborted by (simp add: termdoc_def fits_def)
      show ?thesis
        unfolding decides_aborted [OF j fit obs Aborted d]
        using turn_complete [OF j calm r td] turn_cleanup [OF j calm r Aborted] by simp
    qed
  qed
qed

lemma hoare_loop:
  assumes j: "job_ok j" and calm: "calm free j"
    and lease: "\<And>k s. k \<le> jlen j \<Longrightarrow> at_op j k s \<Longrightarrow> expected_ok j \<Longrightarrow> free \<or> lease_holds (jb_services j) authority s"
  shows "hoare (crash j) free (\<lambda>s. resumes j p s \<and> (free \<or> remaining j p s \<le> fuel) \<and> aim p = goal)
    (recovery_loop (jb_services j) (jmanifest j) authority fuel p)
    (\<lambda>receipt s. rc_phase receipt = goal \<and> rc_transactionId receipt = jb_id j \<and> finished j goal s)"
proof (induction fuel arbitrary: p)
  case 0
  have "free \<and> crash j s" if "resumes j p s \<and> (free \<or> remaining j p s \<le> 0) \<and> aim p = goal" for s
    using that remaining_bounds [OF j, of p s] resumes_crash [of j p s] by auto
  then show ?case by (auto intro: hoare_throw)
next
  case (Suc fuel)
  let ?Q = "\<lambda>receipt s. rc_phase receipt = goal \<and> rc_transactionId receipt = jb_id j \<and> finished j goal s"
  have "hoare (crash j) free
      (\<lambda>s. \<exists>s0. (resumes j p s0 \<and> (free \<or> remaining j p s0 \<le> Suc fuel) \<and> aim p = goal) \<and> s = s0)
      (recovery_loop (jb_services j) (jmanifest j) authority (Suc fuel) p) ?Q"
  proof (rule hoare_exists, rule hoare_fact, elim conjE)
    fix s0 assume s0: "resumes j p s0" "free \<or> remaining j p s0 \<le> Suc fuel" "aim p = goal"
    show "hoare (crash j) free (\<lambda>s. s = s0) (recovery_loop (jb_services j) (jmanifest j) authority (Suc fuel) p) ?Q"
      unfolding recovery_loop.simps
    proof (rule hoare_and_then [OF hoare_iteration [OF j calm s0(1) lease]])
      fix step
      show "hoare (crash j) free (next_turn j p s0 step)
          (case step of Finished receipt \<Rightarrow> give receipt | Again p \<Rightarrow> recovery_loop (jb_services j) (jmanifest j) authority fuel p) ?Q"
      proof (cases step)
        case (Finished receipt)
        then show ?thesis using s0(3) by (auto intro: hoare_give simp: next_turn_def)
      next
        case (Again r)
        with Suc.IH [of r] s0(2,3) show ?thesis
          by simp (rule hoare_pre, assumption, auto simp: next_turn_def)
      qed
    qed
  qed
  then show ?case by (rule hoare_pre) auto
qed

end
