(* ===== verification/Transaction_Unbound.thy ===== *)
theory Transaction_Unbound
  imports Transaction_Resume
begin

text \<open>
  Recovery of a transaction that stopped before its progress document named a manifest: it is
  aborted, its payloads, scratch file and manifest are removed, and nothing else changes.
\<close>

section \<open>Transactions without a manifest\<close>

definition unbound :: "job \<Rightarrow> transaction_phase \<Rightarrow> transaction_progress \<Rightarrow> bool" where
  "unbound j phase p \<longleftrightarrow> documented j p \<and> pg_manifestDigest p = None \<and> pg_published p = [] \<and>
     pg_phase p = phase \<and> (phase = Begun \<or> phase = Aborted)"

definition untouched :: "job \<Rightarrow> storage \<Rightarrow> bool" where
  "untouched j s \<longleftrightarrow> inside j s \<and> outside j 0 s \<and> orphan_free j s"

lemma unbound_fits: "unbound j phase p \<Longrightarrow> fits j p s \<longleftrightarrow> untouched j s"
  by (auto simp: unbound_def fits_def untouched_def)

lemma fits_unbound:
  assumes "fits j p s" "pg_manifestDigest p = None"
  shows "unbound j (pg_phase p) p" "untouched j s"
  using assms by (auto simp: unbound_def fits_def untouched_def documented_def valid_progress_def split: transaction_phase.splits)

definition held :: "job \<Rightarrow> transaction_phase \<Rightarrow> storage \<Rightarrow> bool" where
  "held j phase s \<longleftrightarrow> untouched j s \<and> (\<exists>q. unbound j phase q \<and> progress_is j q s)"

lemma held_crash: "held j phase s \<Longrightarrow> crash j s"
  using unbound_fits crash_fits unfolding held_def by blast

lemma untouched_inside: "untouched j s \<Longrightarrow> inside j s"
  by (simp add: untouched_def)

lemma untouched_scratch: "untouched j s \<Longrightarrow> scratch_eq j s t \<Longrightarrow> untouched j t"
  unfolding untouched_def using scratch_eq_states(1,2,4) by blast

lemma untouched_delete:
  assumes s: "untouched j s" and p: "under (jroot j) p"
  shows "untouched j (delete_file p s)"
proof -
  have "outside j 0 (delete_file p s)" using s p by (auto simp: untouched_def outside_def)
  moreover have "inside j (delete_file p s)" using s by (auto simp: untouched_def inside_def)
  moreover have "orphan_free j (delete_file p s)" using s by (auto simp: untouched_def orphan_free_def)
  ultimately show ?thesis by (simp add: untouched_def)
qed

lemma untouched_remove_dir:
  assumes s: "untouched j s" "unstaged j s"
  shows "untouched j (remove_dir (staging_path (jroot j)) s)"
proof -
  let ?t = "remove_dir (staging_path (jroot j)) s"
  have "p \<noteq> staging_path (jroot j)" if "\<not> under (jroot j) p" for p using that own_under(5) by metis
  with s have "outside j 0 ?t" by (auto simp: untouched_def outside_def)
  moreover have "inside j ?t" using s by (auto simp: untouched_def inside_def)
  moreover have "orphan_free j ?t" using s by (auto simp: unstaged_def orphan_free_def)
  ultimately show ?thesis by (simp add: untouched_def)
qed

lemma held_delete:
  assumes "held j phase s" "under (jroot j) p" "p \<noteq> progress_path (jroot j)"
  shows "held j phase (delete_file p s)"
  using assms untouched_delete [of j s p] by (auto simp: held_def progress_is_def)

lemma held_remove_dir:
  "held j phase s \<Longrightarrow> unstaged j s \<Longrightarrow> held j phase (remove_dir (staging_path (jroot j)) s)"
  using untouched_remove_dir [of j s] by (auto simp: held_def)

lemma distinct_immediateEntries: "distinct (immediateEntries localeCompare s path)"
proof -
  have "distinct (js_sort localeCompare xs)" if "distinct xs" for xs
    using mset_eq_imp_distinct_iff [OF mset_js_sort, of localeCompare xs] that by blast
  then show ?thesis unfolding immediateEntries_def entryNames_def using distinct_js_set_list by blast
qed

section \<open>Listing the payloads\<close>

lemma digits_pad: "list_all is_digit (pad_start k (nat_text n))"
  using nat_text_digits [of n] by (auto simp: pad_start_def list_all_iff is_digit_def code_unit_def)

lemma pad_length: "n < 10000 \<Longrightarrow> length (pad_start 4 (nat_text n)) = 4"
proof -
  have "length (nat_text n) \<le> 4" if "n < 10000"
  proof -
    have "length (nat_text n) \<le> Suc k" if "n < 10 ^ Suc k" for k
      using that
    proof (induction k arbitrary: n)
      case 0
      then show ?case by (simp add: nat_text.simps [of n])
    next
      case (Suc k)
      show ?case
      proof (cases "n < 10")
        case True
        then show ?thesis by (simp add: nat_text.simps [of n])
      next
        case False
        have "n div 10 < 10 ^ Suc k" using Suc.prems by (simp add: less_mult_imp_div_less mult.commute)
        from Suc.IH [OF this] show ?thesis using False by (subst nat_text.simps) simp
      qed
    qed
    from this [of 3] that show ?thesis by simp
  qed
  then show "n < 10000 \<Longrightarrow> length (pad_start 4 (nat_text n)) = 4" by (simp add: pad_start_def)
qed

lemma payload_named: "i < 9999 \<Longrightarrow> payload_name (operationIdAt i @ ''.payload'')"
  using digits_pad [of 4 "i + 1"] pad_length [of "i + 1"]
  by (simp add: payload_name_def operationIdAt_def)

text \<open>The payload paths found: those that lie in the staging directory, each once.\<close>

definition listing :: "job \<Rightarrow> string list \<Rightarrow> storage \<Rightarrow> bool" where
  "listing j payloads s \<longleftrightarrow> distinct payloads \<and>
     (\<forall>p \<in> set payloads. (\<exists>i < jlen j. p = payload j i) \<and> file_at s p \<noteq> None) \<and>
     (\<forall>i < jlen j. file_at s (payload j i) \<noteq> None \<longrightarrow> payload j i \<in> set payloads)"

lemma listing_names:
  assumes s: "untouched j s" and d: "dir_at s (staging_path (jroot j))"
  shows "listing j (map (\<lambda>name. staging_path (jroot j) @ ''/'' @ name) (immediateEntries localeCompare s (staging_path (jroot j)))) s"
proof -
  let ?staging = "staging_path (jroot j)" and ?names = "immediateEntries localeCompare s (staging_path (jroot j))"
  let ?f = "\<lambda>name. ?staging @ ''/'' @ name"
  note names = staging_names [OF untouched_inside [OF s]]
  have "inj_on ?f (set ?names)" by (auto simp: inj_on_def)
  then have "distinct (map ?f ?names)" using distinct_immediateEntries by (simp add: distinct_map)
  moreover have "(\<exists>i < jlen j. p = payload j i) \<and> file_at s p \<noteq> None" if "p \<in> set (map ?f ?names)" for p
  proof -
    from that obtain name where "name \<in> set ?names" "p = ?f name" by auto
    with names [of name] show ?thesis by metis
  qed
  moreover have "payload j i \<in> set (map ?f ?names)" if "file_at s (payload j i) \<noteq> None" for i
  proof -
    have pay: "payload j i = ?f (operationIdAt i @ ''.payload'')" by (simp add: payload_def staging_path_def staged_name_def)
    have "CHR ''/'' \<notin> set (operationIdAt i @ ''.payload'')" using operationIdAt_plain by simp
    then have "first_segment (drop (length ?staging + 1) (payload j i)) = operationIdAt i @ ''.payload''"
      unfolding pay using first_segment_plain by simp
    moreover have "starts_with (?staging @ ''/'') (payload j i)" by (simp add: pay starts_with_exists)
    ultimately have "operationIdAt i @ ''.payload'' \<in> set ?names" using that unfolding set_immediateEntries set_entryNames by force
    then show ?thesis using pay by simp
  qed
  ultimately show ?thesis by (simp add: listing_def)
qed

lemma hoare_listing:
  assumes j: "job_ok j" and few: "free \<or> jlen j \<le> 9999" and I: "I s0" and s0: "untouched j s0"
    and entry: "entry = view (jb_services j) s0 (staging_path (jroot j))"
  shows "hoare I free (\<lambda>s. s = s0)
    (if entry = Directory then
       and_then (list_entries (sv_localeCompare (jb_services j)) (staging_path (jroot j)))
         (fold_proc (\<lambda>payloads name.
            let path = staging_path (jroot j) @ ''/'' @ name
            in next_do (ensure (payload_name name) (corrupt path))
               (and_then (observeFingerprint (jb_services j) path) (\<lambda>e.
                 next_do (ensure (is_file_print e) (corrupt path)) (give (payloads @ [path]))))) [])
     else next_do (ensure (entry = Missing) (corrupt (staging_path (jroot j)))) (give []))
    (\<lambda>payloads s. listing j payloads s0 \<and> s = s0)"
proof (cases "entry = Directory")
  case True
  let ?staging = "staging_path (jroot j)" and ?names = "immediateEntries (sv_localeCompare (jb_services j)) s0 (staging_path (jroot j))"
  let ?f = "\<lambda>name. staging_path (jroot j) @ ''/'' @ name"
  have id: "id_test (jb_id j)" using j by (simp add: job_ok_def)
  note durable = own_durable [OF id]
  have d: "dir_at s0 ?staging" using entry True by (simp add: view_is_dir eq_commute [of Directory])
  have list: "hoare I free (\<lambda>s. s = s0) (list_entries (sv_localeCompare (jb_services j)) ?staging) (\<lambda>names s. names = ?names \<and> s = s0)"
    by (rule hoare_list) (use I d durable in auto)
  have fold: "hoare I free (\<lambda>s. s = s0) (fold_proc (\<lambda>payloads name.
        let path = ?f name in next_do (ensure (payload_name name) (corrupt path))
          (and_then (observeFingerprint (jb_services j) path) (\<lambda>e.
            next_do (ensure (is_file_print e) (corrupt path)) (give (payloads @ [path]))))) [] ?names)
      (\<lambda>payloads s. payloads = map ?f ?names \<and> s = s0)"
  proof (rule hoare_pre [OF hoare_fold [where J = "\<lambda>xs payloads s. payloads = map ?f xs \<and> s = s0"]], rule hoare_fact)
    fix xs x ys t assume x: "?names = xs @ x # ys" and t: "t = map ?f xs"
    then have "x \<in> set ?names" by simp
    from staging_names [OF untouched_inside [OF s0] this] obtain i where i: "i < jlen j"
        "x = operationIdAt i @ ''.payload''" "?f x = payload j i" "file_at s0 (payload j i) \<noteq> None" by blast
    have named: "free \<or> payload_name x" using few i(1) payload_named [of i] unfolding i(2) by auto
    have "is_file_print (view (jb_services j) s0 (payload j i))" using i(4) by (simp add: view_is_file)
    with named show "hoare I free (\<lambda>s. s = s0)
        (let path = ?f x in next_do (ensure (payload_name x) (corrupt path))
          (and_then (observeFingerprint (jb_services j) path) (\<lambda>e.
            next_do (ensure (is_file_print e) (corrupt path)) (give (t @ [path])))))
        (\<lambda>payloads s. payloads = map ?f (xs @ [x]) \<and> s = s0)"
      unfolding Let_def i(3)
      by (intro hoare_next [where R = "\<lambda>s. s = s0"] hoare_ensure hoare_observed
            hoare_next [where R = "\<lambda>s. s = s0 \<and> True"] hoare_give) (use I durable i(3) t in auto)
  qed simp
  show ?thesis unfolding if_P [OF True]
    by (rule hoare_and_then [OF list], rule hoare_fact, simp only:, rule hoare_post [OF fold])
       (use listing_names [OF s0 d] in auto)
next
  case False
  have "\<not> dir_at s0 (staging_path (jroot j))" "entry = Missing"
    using False entry inside_own(6) [OF untouched_inside [OF s0]]
    by (auto simp: view_is_dir view_missing_iff vacant_def)
  moreover from this have "listing j [] s0" using s0 by (auto simp: listing_def untouched_def orphan_free_def)
  ultimately show ?thesis using False
    by (auto intro!: hoare_next [where R = "\<lambda>s. s = s0"] hoare_ensure hoare_give)
qed

section \<open>Aborting\<close>

definition bare :: "job \<Rightarrow> storage \<Rightarrow> bool" where
  "bare j s \<longleftrightarrow> clean j s \<and> file_at s (manifest_path (jroot j)) = None"

lemma bare_scratch: "bare j s \<Longrightarrow> scratch_eq j s t \<Longrightarrow> file_at t (next_path (jroot j)) = None \<Longrightarrow> bare j t"
  using clean_scratch [of j s t] by (auto simp: bare_def scratch_eq_def)

lemma listing_scratch: "listing j payloads s \<Longrightarrow> scratch_eq j s t \<Longrightarrow> listing j payloads t"
  unfolding listing_def scratch_eq_def by (metis payload_distinct(1,2))

lemma unbound_stamp:
  assumes "unbound j phase p" "valid_progress (p\<lparr>pg_phase := Aborted, pg_published := [], pg_directorySync := d, pg_updatedAt := t\<rparr>)"
  shows "unbound j Aborted (p\<lparr>pg_phase := Aborted, pg_published := [], pg_directorySync := d, pg_updatedAt := t\<rparr>)"
  using assms by (auto simp: unbound_def documented_def)

text \<open>Persisting the document of the aborted transaction, whatever the one on disk.\<close>

lemma hoare_abort_persist:
  assumes j: "job_ok j" and calm: "calm free j" and p: "unbound j phase p"
    and P: "\<And>s. P s \<Longrightarrow> \<exists>phase. held j phase s" and A: "\<And>s t. P s \<Longrightarrow> scratch_eq j s t \<Longrightarrow> A t"
  shows "hoare (crash j) free P
    (stamp_and_persist (jb_services j) (p\<lparr>pg_phase := Aborted, pg_published := [], pg_directorySync := d\<rparr>))
    (\<lambda>r s. unbound j Aborted r \<and> held j Aborted s \<and> A s \<and> file_at s (next_path (jroot j)) = None)"
proof -
  let ?p = "p\<lparr>pg_phase := Aborted, pg_published := [], pg_directorySync := d\<rparr>"
  have id: "id_test (jb_id j)" using j by (simp add: job_ok_def)
  have doc: "documented j p" using p by (simp add: unbound_def)
  have ub: "unbound j Aborted (?p\<lparr>pg_updatedAt := t\<rparr>)" if "valid_progress (?p\<lparr>pg_updatedAt := t\<rparr>)" for t
    using unbound_stamp [OF p, where d = d and t = t] that by simp
  have persist: "hoare (crash j) free P (stamp_and_persist (jb_services j) ?p)
      (\<lambda>r s. \<exists>t e. r = ?p\<lparr>pg_updatedAt := t, pg_directorySync := e\<rparr> \<and> A s \<and> progress_is j (?p\<lparr>pg_updatedAt := t\<rparr>) s \<and>
        fits j (?p\<lparr>pg_updatedAt := t\<rparr>) s \<and> file_at s (next_path (jroot j)) = None)"
  proof (rule hoare_stamp_persist [OF id])
    show "free \<or> clock_ok (jb_services j) \<and> (\<forall>t. timestamp_test t \<longrightarrow> valid_progress (?p\<lparr>pg_updatedAt := t\<rparr>))"
      using calm documented_valid [OF doc] p by (auto simp: calm_def valid_progress_def unbound_def)
    show "\<exists>q. progress_is j q s \<and> fits j q s" if "P s" for s
      using P [OF that] unbound_fits unfolding held_def by blast
    show "fits j (?p\<lparr>pg_updatedAt := t\<rparr>) s" if "P s" "valid_progress (?p\<lparr>pg_updatedAt := t\<rparr>)" for s t
      using unbound_fits [OF ub [OF that(2)]] P [OF that(1)] unfolding held_def by blast
    show "pg_transactionId ?p = jb_id j" for s :: storage using doc by (simp add: documented_def)
  qed (rule A)
  show ?thesis
  proof (rule hoare_post [OF persist], elim exE conjE)
    fix r s t e
    assume r: "r = ?p\<lparr>pg_updatedAt := t, pg_directorySync := e\<rparr>" and s: "A s" "progress_is j (?p\<lparr>pg_updatedAt := t\<rparr>) s"
      "fits j (?p\<lparr>pg_updatedAt := t\<rparr>) s" "file_at s (next_path (jroot j)) = None"
    have v: "valid_progress (?p\<lparr>pg_updatedAt := t\<rparr>)" using s(3) by (simp add: fits_def documented_def)
    note ub = ub [OF v]
    have "unbound j Aborted (?p\<lparr>pg_updatedAt := t\<rparr>\<lparr>pg_directorySync := e\<rparr>)"
      using ub unfolding unbound_def sync_irrelevant by simp
    moreover have "?p\<lparr>pg_updatedAt := t\<rparr>\<lparr>pg_directorySync := e\<rparr> = r" unfolding r by simp
    moreover have "held j Aborted s" using unbound_fits [OF ub] ub s(2,3) by (auto simp: held_def)
    ultimately show "unbound j Aborted r \<and> held j Aborted s \<and> A s \<and> file_at s (next_path (jroot j)) = None"
      using s by simp
  qed
qed

lemma hoare_abort_end:
  assumes j: "job_ok j" and calm: "calm free j" and r: "unbound j Aborted r"
  shows "hoare (crash j) free (\<lambda>s. held j Aborted s \<and> bare j s)
    (and_then (merged_sync e (jroot j)) (\<lambda>sync. and_then (persistTerminalDirectorySync (jb_services j) r sync) receiptFromProgress))
    (\<lambda>receipt s. rc_phase receipt = Aborted \<and> rc_transactionId receipt = jb_id j \<and> held j Aborted s \<and> bare j s)"
proof -
  let ?H = "\<lambda>s. held j Aborted s \<and> bare j s"
  have id: "id_test (jb_id j)" using j by (simp add: job_ok_def)
  note durable = own_durable [OF id]
  have root: "dir_at s (jroot j)" if "?H s" for s using that inside_own(1) [of j s] by (simp add: held_def untouched_def)
  have sync: "hoare (crash j) free ?H (merged_sync e (jroot j)) (\<lambda>_. ?H)"
    by (rule hoare_merged) (use held_crash root durable in auto)
  have eq: "r\<lparr>pg_directorySync := d\<rparr> = r\<lparr>pg_phase := Aborted, pg_published := [], pg_directorySync := d\<rparr>" for d
    using r by (simp add: unbound_def)
  have "hoare (crash j) free ?H (stamp_and_persist (jb_services j) (r\<lparr>pg_directorySync := d\<rparr>))
      (\<lambda>q s. unbound j Aborted q \<and> held j Aborted s \<and> (\<exists>s0. bare j s0 \<and> scratch_eq j s0 s) \<and> file_at s (next_path (jroot j)) = None)" for d
    unfolding eq by (rule hoare_abort_persist [OF j calm r]) auto
  then have persist: "hoare (crash j) free ?H (stamp_and_persist (jb_services j) (r\<lparr>pg_directorySync := d\<rparr>))
      (\<lambda>q s. unbound j Aborted q \<and> ?H s)" for d
    by (rule hoare_post) (use bare_scratch in blast)
  have finalize: "hoare (crash j) free ?H (persistTerminalDirectorySync (jb_services j) r d) (\<lambda>q s. unbound j Aborted q \<and> ?H s)" for d
    unfolding persistTerminalDirectorySync_def Let_def using persist r by (auto intro: hoare_give)
  have receipt: "hoare (crash j) free (\<lambda>s. unbound j Aborted q \<and> ?H s) (receiptFromProgress q)
      (\<lambda>receipt s. rc_phase receipt = Aborted \<and> rc_transactionId receipt = jb_id j \<and> held j Aborted s \<and> bare j s)" for q
    by (rule hoare_receipt) (auto simp: held_crash, auto simp: unbound_def held_def documented_def)
  show ?thesis by (rule hoare_and_then [OF sync hoare_and_then [OF finalize receipt]])
qed

lemma hoare_abort_sweep:
  assumes j: "job_ok j" and path: "path = next_path (jroot j) \<or> path = manifest_path (jroot j)"
    and P: "\<And>s. P s \<Longrightarrow> held j Aborted s" and Q: "\<And>s. P s \<Longrightarrow> P (delete_file path s)"
  shows "hoare (crash j) free (\<lambda>s. P s \<and> entry = view (jb_services j) s path)
    (if is_file_print entry then removeFile path else ensure (entry = Missing) (corrupt path))
    (\<lambda>_ s. P s \<and> file_at s path = None)"
proof -
  have id: "id_test (jb_id j)" using j by (simp add: job_ok_def)
  note durable = own_durable [OF id]
  have nd: "path \<noteq> ''.''" using path own_not_dot by metis
  have nodir: "\<not> dir_at s path" if "P s" for s
    using path P [OF that] inside_own(2,4) [of j s] by (auto simp: held_def untouched_def)
  have I: "crash j s" if "P s" for s using held_crash [OF P [OF that]] .
  show ?thesis
  proof (cases "is_file_print entry")
    case True
    show ?thesis unfolding if_P [OF True]
    proof (rule hoare_remove)
      show "free \<or> durable_path path" using path durable by auto
    qed (use True I Q nd in \<open>auto simp: view_is_file\<close>)
  next
    case False
    then show ?thesis
      by (auto intro!: hoare_ensure simp: view_is_file [OF nd] view_missing_iff [OF nd] vacant_def nodir eq_commute [of Missing])
  qed
qed

lemma hoare_abort_mark:
  assumes j: "job_ok j" and calm: "calm free j" and p: "unbound j (pg_phase p) p" and s0: "held j (pg_phase p) s0"
    and list: "listing j payloads s0"
  shows "hoare (crash j) free (\<lambda>s. s = s0)
    (if pg_phase p = Begun
     then next_do (ensure (assertPhaseTransition (pg_phase p) Aborted) Untyped_error)
       (stamp_and_persist (jb_services j) (p\<lparr>pg_phase := Aborted, pg_published := []\<rparr>))
     else give p)
    (\<lambda>r s. unbound j Aborted r \<and> held j Aborted s \<and> listing j payloads s \<and>
       dir_at s (staging_path (jroot j)) = dir_at s0 (staging_path (jroot j)))"
proof (cases "pg_phase p = Begun")
  case True
  have eq: "p\<lparr>pg_phase := Aborted, pg_published := []\<rparr> =
      p\<lparr>pg_phase := Aborted, pg_published := [], pg_directorySync := pg_directorySync p\<rparr>" by simp
  have persist: "hoare (crash j) free (\<lambda>s. s = s0)
      (stamp_and_persist (jb_services j) (p\<lparr>pg_phase := Aborted, pg_published := []\<rparr>))
      (\<lambda>r s. unbound j Aborted r \<and> held j Aborted s \<and> scratch_eq j s0 s \<and> file_at s (next_path (jroot j)) = None)"
    by (subst eq) (rule hoare_abort_persist [OF j calm p], use s0 in auto)
  show ?thesis unfolding if_P [OF True]
    by (rule hoare_next [OF hoare_ensure hoare_post [OF persist]])
       (use list listing_scratch in \<open>auto simp: True assertPhaseTransition_def legalTransitions_def scratch_eq_def\<close>)
next
  case False
  with p have "pg_phase p = Aborted" by (auto simp: unbound_def)
  with p s0 list show ?thesis by (auto intro: hoare_give)
qed

lemma hoare_abort_payloads:
  assumes j: "job_ok j" and A: "\<And>s i. A s \<Longrightarrow> A (delete_file (payload j i) s)"
  shows "hoare (crash j) free (\<lambda>s. held j Aborted s \<and> listing j payloads s \<and> A s) (each_proc removeFile payloads)
    (\<lambda>_ s. held j Aborted s \<and> unstaged j s \<and> A s)"
proof -
  have id: "id_test (jb_id j)" using j by (simp add: job_ok_def)
  note durable = own_durable [OF id]
  let ?J = "\<lambda>xs s. held j Aborted s \<and> (\<exists>ys. payloads = xs @ ys \<and> listing j ys s) \<and> A s"
  have loop: "hoare (crash j) free (?J []) (each_proc removeFile payloads) (\<lambda>_. ?J payloads)"
  proof (rule hoare_each)
    fix xs x ys assume x: "payloads = xs @ x # ys"
    have P: "held j Aborted s \<and> listing j (x # ys) s \<and> A s" if "?J xs s" for s using that x by auto
    show "hoare (crash j) free (?J xs) (removeFile x) (\<lambda>_. ?J (xs @ [x]))"
    proof (cases "\<exists>i < jlen j. x = payload j i")
      case False
      then have "\<not> listing j (x # ys) s" for s by (auto simp: listing_def)
      then show ?thesis using P by (intro hoare_vacuous) blast
    next
      case True
      then obtain i where i: "i < jlen j" "x = payload j i" by blast
      have "listing j ys (delete_file x s)" if "listing j (x # ys) s" for s
        using that i by (auto simp: listing_def)
      then have step: "held j Aborted (delete_file x s) \<and> ?J (xs @ [x]) (delete_file x s)" if "?J xs s" for s
      proof -
        have "payloads = (xs @ [x]) @ ys" using x by simp
        moreover have "listing j ys (delete_file x s)" using P [OF that] \<open>\<And>s. listing j (x # ys) s \<Longrightarrow> listing j ys (delete_file x s)\<close> by blast
        moreover have "held j Aborted (delete_file x s)" using P [OF that] held_delete [of j Aborted s x] i by simp
        moreover have "A (delete_file x s)" using P [OF that] A i(2) by simp
        ultimately show ?thesis by blast
      qed
      show ?thesis
      proof (rule hoare_remove)
        show "crash j s \<and> (free \<or> file_at s x \<noteq> None)" if "?J xs s" for s
          using P [OF that] held_crash by (auto simp: listing_def)
        show "crash j (delete_file x s) \<and> ?J (xs @ [x]) (delete_file x s)" if "?J xs s" for s
          using step [OF that] held_crash by blast
        show "free \<or> durable_path x" using durable i by simp
      qed
    qed
  qed
  have all: "unstaged j s" if "listing j [] s" for s using that by (auto simp: listing_def unstaged_def)
  show ?thesis
  proof (rule hoare_pre [OF hoare_post [OF loop]])
    show "held j Aborted s \<and> unstaged j s \<and> A s" if "?J payloads s" for s using that all by auto
    show "?J [] s" if "held j Aborted s \<and> listing j payloads s \<and> A s" for s using that by auto
  qed
qed

lemma hoare_without_manifest:
  assumes j: "job_ok j" and calm: "calm free j" and few: "free \<or> jlen j \<le> 9999"
    and fit: "fits j p s0" "progress_is j p s0" "pg_manifestDigest p = None"
  shows "hoare (crash j) free (\<lambda>s. s = s0) (recoverWithoutManifest (jb_services j) p)
    (\<lambda>receipt s. rc_phase receipt = Aborted \<and> rc_transactionId receipt = jb_id j \<and> held j Aborted s \<and> bare j s)"
proof -
  let ?sv = "jb_services j" and ?staging = "staging_path (jroot j)" and ?next = "next_path (jroot j)"
    and ?manifest = "manifest_path (jroot j)"
  let ?Q = "\<lambda>receipt s. rc_phase receipt = Aborted \<and> rc_transactionId receipt = jb_id j \<and> held j Aborted s \<and> bare j s"
  note ub = fits_unbound(1) [OF fit(1,3)] and un = fits_unbound(2) [OF fit(1,3)]
  have id: "id_test (jb_id j)" using j by (simp add: job_ok_def)
  note durable = own_durable [OF id]
  have root: "transactionRoot (pg_transactionId p) = jroot j" using ub by (simp add: unbound_def documented_def jroot_def)
  have s0: "held j (pg_phase p) s0" using ub un fit(2) by (auto simp: held_def)
  note I = held_crash [OF s0]
  have ins: "inside j s" if "held j phase s" for phase s using that by (simp add: held_def untouched_def)
  have finish: "hoare (crash j) free (\<lambda>s. held j Aborted s \<and> clean j s)
      (and_then (observeFingerprint ?sv ?manifest) (\<lambda>manifest.
        next_do (if is_file_print manifest then removeFile ?manifest else ensure (manifest = Missing) (corrupt ?manifest))
        (and_then (merged_sync (pg_directorySync r) (jroot j)) (\<lambda>sync.
          and_then (persistTerminalDirectorySync ?sv r sync) receiptFromProgress)))) ?Q" if r: "unbound j Aborted r" for r
  proof (rule hoare_observed)
    fix entry
    have sweep: "hoare (crash j) free (\<lambda>s. (held j Aborted s \<and> clean j s) \<and> entry = view ?sv s ?manifest)
        (if is_file_print entry then removeFile ?manifest else ensure (entry = Missing) (corrupt ?manifest))
        (\<lambda>_ s. (held j Aborted s \<and> clean j s) \<and> file_at s ?manifest = None)"
      by (rule hoare_abort_sweep [OF j]) (auto simp: held_delete clean_def unstaged_def)
    show "hoare (crash j) free (\<lambda>s. (held j Aborted s \<and> clean j s) \<and> entry = view ?sv s ?manifest)
        (next_do (if is_file_print entry then removeFile ?manifest else ensure (entry = Missing) (corrupt ?manifest))
        (and_then (merged_sync (pg_directorySync r) (jroot j)) (\<lambda>sync.
          and_then (persistTerminalDirectorySync ?sv r sync) receiptFromProgress))) ?Q"
      by (rule hoare_next [OF sweep hoare_pre [OF hoare_abort_end [OF j calm r]]]) (simp add: bare_def)
  qed (use held_crash durable in auto)
  let ?N = "\<lambda>s. held j Aborted s \<and> unstaged j s \<and> \<not> dir_at s ?staging"
  have scratch: "hoare (crash j) free ?N
      (and_then (observeFingerprint ?sv ?next) (\<lambda>next.
        next_do (if is_file_print next then removeFile ?next else give ())
        (and_then (observeFingerprint ?sv ?manifest) (\<lambda>manifest.
          next_do (if is_file_print manifest then removeFile ?manifest else ensure (manifest = Missing) (corrupt ?manifest))
          (and_then (merged_sync (pg_directorySync r) (jroot j)) (\<lambda>sync.
            and_then (persistTerminalDirectorySync ?sv r sync) receiptFromProgress)))))) ?Q" if r: "unbound j Aborted r" for r
  proof (rule hoare_observed)
    fix entry
    have "hoare (crash j) free (\<lambda>s. ?N s \<and> entry = view ?sv s ?next)
        (if is_file_print entry then removeFile ?next else give ()) (\<lambda>_ s. held j Aborted s \<and> clean j s)"
    proof (cases "is_file_print entry")
      case True
      show ?thesis unfolding if_P [OF True]
        by (rule hoare_remove)
           (use True held_crash held_crash [OF held_delete] held_delete durable in \<open>auto simp: view_is_file clean_def unstaged_def\<close>)
    next
      case False
      then show ?thesis by (auto intro!: hoare_give simp: view_is_file clean_def)
    qed
    then show "hoare (crash j) free (\<lambda>s. ?N s \<and> entry = view ?sv s ?next)
        (next_do (if is_file_print entry then removeFile ?next else give ())
        (and_then (observeFingerprint ?sv ?manifest) (\<lambda>manifest.
          next_do (if is_file_print manifest then removeFile ?manifest else ensure (manifest = Missing) (corrupt ?manifest))
          (and_then (merged_sync (pg_directorySync r) (jroot j)) (\<lambda>sync.
            and_then (persistTerminalDirectorySync ?sv r sync) receiptFromProgress))))) ?Q"
      by (rule hoare_next [OF _ finish [OF r]])
  qed (use held_crash durable in auto)
  have staged: "entry = Directory \<longleftrightarrow> dir_at s0 ?staging" if "entry = view ?sv s0 ?staging" for entry
    using that inside_own(6) [OF ins [OF s0]] by (simp add: view_is_dir)
  let ?tail = "\<lambda>entry payloads. and_then (if pg_phase p = Begun
       then next_do (ensure (assertPhaseTransition (pg_phase p) Aborted) Untyped_error)
         (stamp_and_persist ?sv (p\<lparr>pg_phase := Aborted, pg_published := []\<rparr>)) else give p) (\<lambda>progress.
       next_do (each_proc removeFile payloads)
       (next_do (if entry = Directory then removeEmptyDirectory ?staging else give ())
       (and_then (observeFingerprint ?sv ?next) (\<lambda>next'.
        next_do (if is_file_print next' then removeFile ?next else give ())
        (and_then (observeFingerprint ?sv ?manifest) (\<lambda>manifest.
         next_do (if is_file_print manifest then removeFile ?manifest else ensure (manifest = Missing) (corrupt ?manifest))
         (and_then (merged_sync (pg_directorySync progress) (jroot j)) (\<lambda>directorySync.
          and_then (persistTerminalDirectorySync ?sv progress directorySync) receiptFromProgress))))))))"
  have tail: "hoare (crash j) free (\<lambda>s. s = s0) (?tail entry payloads) ?Q"
    if list: "listing j payloads s0" and entry: "entry = view ?sv s0 ?staging" for entry payloads
  proof (rule hoare_and_then [OF hoare_abort_mark [OF j calm ub s0 list]], rule hoare_fact)
    fix r assume r: "unbound j Aborted r"
    let ?A = "\<lambda>s. dir_at s ?staging = dir_at s0 ?staging"
    have rm: "hoare (crash j) free (\<lambda>s. held j Aborted s \<and> unstaged j s \<and> ?A s)
        (if entry = Directory then removeEmptyDirectory ?staging else give ()) (\<lambda>_. ?N)"
    proof (cases "entry = Directory")
      case True
      show ?thesis unfolding if_P [OF True]
      proof (rule hoare_remove_dir)
        fix s assume s: "held j Aborted s \<and> unstaged j s \<and> ?A s"
        then show "crash j s \<and> (free \<or> dir_at s ?staging \<and> entryNames s ?staging = [])"
          using held_crash [of j Aborted s] staging_empty [OF ins, of Aborted s] staged [OF entry] True by auto
        from s have "held j Aborted (remove_dir ?staging s)" using held_remove_dir by blast
        with s show "crash j (remove_dir ?staging s) \<and> ?N (remove_dir ?staging s)"
          using held_crash by (simp add: unstaged_def)
      qed (use durable in simp)
    next
      case False
      with staged [OF entry] show ?thesis by (auto intro: hoare_give)
    qed
    have "hoare (crash j) free (\<lambda>s. held j Aborted s \<and> listing j payloads s \<and> ?A s) (each_proc removeFile payloads)
        (\<lambda>_ s. held j Aborted s \<and> unstaged j s \<and> ?A s)"
      by (rule hoare_abort_payloads [OF j]) simp
    then show "hoare (crash j) free (\<lambda>s. held j Aborted s \<and> listing j payloads s \<and> ?A s)
        (next_do (each_proc removeFile payloads)
         (next_do (if entry = Directory then removeEmptyDirectory ?staging else give ())
         (and_then (observeFingerprint ?sv ?next) (\<lambda>next'.
          next_do (if is_file_print next' then removeFile ?next else give ())
          (and_then (observeFingerprint ?sv ?manifest) (\<lambda>manifest.
           next_do (if is_file_print manifest then removeFile ?manifest else ensure (manifest = Missing) (corrupt ?manifest))
           (and_then (merged_sync (pg_directorySync r) (jroot j)) (\<lambda>directorySync.
            and_then (persistTerminalDirectorySync ?sv r directorySync) receiptFromProgress)))))))) ?Q"
      by (rule hoare_next [OF _ hoare_next [OF rm scratch [OF r]]])
  qed
  have tail_scan: "hoare (crash j) free (\<lambda>s. s = s0 \<and> e = view ?sv s ?next)
      (next_do (ensure (is_file_print e \<or> e = Missing) (corrupt ?next)) (?tail entry payloads)) ?Q"
    if "listing j payloads s0" "entry = view ?sv s0 ?staging" for e entry payloads
    by (rule hoare_next [where R = "\<lambda>s. s = s0", OF hoare_ensure tail [OF that]])
       (use inside_own(2) [OF ins [OF s0]] in \<open>auto simp: view_is_file view_missing_iff vacant_def\<close>)
  have scan: "hoare (crash j) free (\<lambda>s. s = s0) (and_then (observeFingerprint ?sv ?next) (\<lambda>e.
      next_do (ensure (is_file_print e \<or> e = Missing) (corrupt ?next)) (?tail entry payloads))) ?Q"
    if "listing j payloads s0" "entry = view ?sv s0 ?staging" for entry payloads
    by (rule hoare_observed [OF _ _ tail_scan [OF that]]) (use I durable in auto)
  show ?thesis
    unfolding recoverWithoutManifest_def Let_def root
  proof (rule hoare_next [where R = "\<lambda>s. s = s0", OF hoare_ensure hoare_observed], goal_cases)
    case (5 entry)
    show ?case
    proof (cases "entry = view ?sv s0 ?staging")
      case True
      show ?thesis
        by (rule hoare_pre [OF hoare_and_then [OF hoare_listing [OF j few, where I = "crash j", OF I un True, unfolded Let_def]]])
           ((rule hoare_fact, rule scan [OF _ True], assumption), simp)
    qed (auto intro: hoare_vacuous)
  qed (use I durable fit(3) in auto)
qed

end
