(* ===== verification/Transaction_Aftermath.thy ===== *)
theory Transaction_Aftermath
  imports Transaction_Unbound
begin

text \<open>
  What recovery promises: from every storage an interrupted execution or an interrupted
  recovery leaves behind, one undisturbed recovery settles the transaction, committed when
  it had been authorized to publish and aborted when it had not.
\<close>

section \<open>Recovery of a described transaction\<close>

lemma manifest_lease:
  assumes j: "job_ok j" "expected_ok j" and k: "k \<le> jlen j" "outside j k s"
  shows "lease_holds (jb_services j) (manifestAuthority (jmanifest j)) s"
  unfolding lease_holds_def
proof (intro allI impI ballI)
  fix artifacts a assume art: "manifestAuthority (jmanifest j) = Some artifacts" "a \<in> set artifacts"
  then obtain i where i: "i < jlen j" and a: "ga_path a = dr_path (jop j i)" "ga_expected a = dr_expected (jop j i)"
      "ga_published a = dr_result (jop j i)"
  proof -
    from art(1) obtain x y z zs where ops: "mf_operations (jmanifest j) = x # y # z # zs"
        "artifacts = map (\<lambda>operation. \<lparr> ga_path = po_path operation, ga_expected = po_expected operation,
           ga_published = po_result operation \<rparr>) [x, y]"
      by (auto simp: manifestAuthority_def split: list.splits if_splits)
    have len: "1 < jlen j" using ops(1) mop_length [of j] by simp
    have "x = manifest_operation (jroot j) (jop j 0)" "y = manifest_operation (jroot j) (jop j 1)"
      using mop_at [of 0 j] mop_at [of 1 j] ops(1) len by simp_all
    with art(2) ops(2) len that [of 0] that [of 1] show thesis by auto
  qed
  have "view (jb_services j) s (dr_path (jop j i)) \<in> {dr_expected (jop j i), dr_result (jop j i)}"
    using outside_view [OF k(2) jop_outside(1) [OF j(1) i]] applied_view [OF j k(1) i] by simp
  then show "(ga_path a = ''.'' \<or> durable_path (ga_path a)) \<and> view (jb_services j) s (ga_path a) \<in> {ga_expected a, ga_published a}"
    using destination_durable [OF jop_destination [OF j(1) i]] a by simp
qed

definition summary_of :: "job \<Rightarrow> transaction_progress \<Rightarrow> transaction_summary" where
  "summary_of j p =
     \<lparr> sm_transactionId = jb_id j, sm_manifestDigest = pg_manifestDigest p, sm_recoveryToken = pg_recoveryToken p,
       sm_phase = pg_phase p, sm_evidenceRef = progress_path (jroot j) \<rparr>"

text \<open>The transaction is over: all or nothing of it took effect and its residue is swept.\<close>

definition settled :: "job \<Rightarrow> transaction_phase \<Rightarrow> storage \<Rightarrow> bool" where
  "settled j phase s \<longleftrightarrow> crash j s \<and> outside j (if phase = Committed then jlen j else 0) s \<and> clean j s"

definition undelayed :: "bool \<Rightarrow> job \<Rightarrow> nat \<Rightarrow> bool" where
  "undelayed free j fuel \<longleftrightarrow> free \<or> (jlen j \<le> 9999 \<and> jlen j + 2 \<le> fuel)"

lemma hoare_drive_recovery:
  assumes j: "job_ok j" and calm: "calm free j" and fuel: "undelayed free j fuel"
    and p: "fits j p s0" "progress_is j p s0"
  shows "hoare (crash j) free (\<lambda>s. s = s0) (driveRecovery (jb_services j) fuel (summary_of j p))
    (\<lambda>receipt s. rc_phase receipt = aim p \<and> rc_transactionId receipt = jb_id j \<and> settled j (aim p) s)"
proof -
  let ?sv = "jb_services j" and ?manifest = "manifest_path (jroot j)"
  let ?Q = "\<lambda>receipt s. rc_phase receipt = aim p \<and> rc_transactionId receipt = jb_id j \<and> settled j (aim p) s"
  have id: "id_test (jb_id j)" using j by (simp add: job_ok_def)
  note durable = own_durable [OF id]
  have doc: "documented j p" using p by (simp add: fits_def)
  have I: "crash j s0" using p by (auto intro: crash_fits)
  have root: "transactionRoot (sm_transactionId (summary_of j p)) = jroot j" by (simp add: summary_of_def jroot_def)
  have read: "hoare (crash j) free (\<lambda>s. s = s0) (readProgress ?sv (progress_path (jroot j))) (\<lambda>r s. r = p \<and> s = s0)"
    by (rule hoare_read_progress [OF j]) (use I p doc in \<open>auto simp: documented_def\<close>)
  have same: "pg_transactionId p = sm_transactionId (summary_of j p) \<and> pg_recoveryToken p = sm_recoveryToken (summary_of j p) \<and>
      pg_manifestDigest p = sm_manifestDigest (summary_of j p)"
    using doc by (simp add: summary_of_def documented_def)
  have rest: "hoare (crash j) free (\<lambda>s. s = s0 \<and> entry = view ?sv s ?manifest)
      (if pg_manifestDigest p = None then recoverWithoutManifest ?sv p
       else next_do (ensure (is_file_print entry) (corrupt ?manifest))
         (and_then (readRequiredManifest ?sv (jroot j) p) (\<lambda>manifest.
          next_do (assertLeaseAuthority ?sv (if pg_phase p = Publishing \<or> pg_phase p = Committed
              then manifestAuthority manifest else None))
            (recovery_loop ?sv manifest (if pg_phase p = Publishing \<or> pg_phase p = Committed
              then manifestAuthority manifest else None) fuel p)))) ?Q" for entry
  proof (cases "pg_manifestDigest p = None")
    case True
    have few: "free \<or> jlen j \<le> 9999" using fuel by (auto simp: undelayed_def)
    have "aim p = Aborted" using fits_unbound(1) [OF p(1) True] by (auto simp: unbound_def aim_def)
    then have post: "settled j (aim p) s" if "held j Aborted s \<and> bare j s" for s
      using that held_crash by (auto simp: settled_def bare_def held_def untouched_def)
    show ?thesis unfolding if_P [OF True]
      by (rule hoare_pre [OF hoare_post [OF hoare_without_manifest [OF j calm few p True]]])
         (use post \<open>aim p = Aborted\<close> in auto)
  next
    case False
    let ?authority = "if pg_phase p = Publishing \<or> pg_phase p = Committed then manifestAuthority (jmanifest j) else None"
    have phase: "pg_phase p \<noteq> Begun" using begun_unbound [OF doc] False by blast
    have m: "manifest_in j s0" using p(1) False phase by (auto simp: fits_def split: transaction_phase.splits)
    have entry: "is_file_print (view ?sv s0 ?manifest)" using m by (simp add: manifest_in_def view_is_file)
    have valid: "free \<or> valid_manifest (jmanifest j)" using calm by (auto simp: calm_def)
    have read: "hoare (crash j) free (\<lambda>s. s = s0) (readRequiredManifest ?sv (jroot j) p) (\<lambda>r s. r = jmanifest j \<and> s = s0)"
      by (rule hoare_required_manifest [OF j]) (use I m valid doc False in auto)
    have r: "resumes j p s0" using p False doc by (auto simp: resumes_def same_doc_def)
    have held: "lease_holds ?sv ?authority s0"
    proof (cases "pg_phase p = Publishing \<or> pg_phase p = Committed")
      case True
      then have "\<exists>k \<le> jlen j. outside j k s0 \<and> expected_ok j"
        using p(1) by (elim disjE) (auto simp: fits_def)
      with True manifest_lease [OF j] show ?thesis by auto
    qed (simp add: lease_holds_def)
    have lease: "hoare (crash j) free (\<lambda>s. s = s0) (assertLeaseAuthority ?sv ?authority) (\<lambda>_ s. s = s0)"
      by (rule hoare_lease) (use I held in auto)
    have enough: "free \<or> remaining j p s0 \<le> fuel"
      using fuel remaining_bounds [OF j r] by (auto simp: undelayed_def)
    have loop: "hoare (crash j) free (\<lambda>s. s = s0) (recovery_loop ?sv (jmanifest j) ?authority fuel p)
        (\<lambda>receipt s. rc_phase receipt = aim p \<and> rc_transactionId receipt = jb_id j \<and> finished j (aim p) s)"
    proof (rule hoare_pre [OF hoare_loop [OF j calm]])
      show "free \<or> lease_holds ?sv ?authority s" if "k \<le> jlen j" "at_op j k s" "expected_ok j" for k s
        using manifest_lease [OF j that(3,1)] that(2) by (auto simp: at_op_def lease_holds_def)
    qed (use r enough in auto)
    have done_: "settled j (aim p) s" if "finished j (aim p) s" for s
      using that finished_crash [OF that] by (auto simp: settled_def finished_def term_state_def)
    show ?thesis unfolding if_not_P [OF False]
    proof (rule hoare_next [where R = "\<lambda>s. s = s0", OF hoare_ensure hoare_and_then [OF read]], goal_cases)
      case (3 manifest)
      show ?case
        by (rule hoare_fact, simp only:, rule hoare_next [OF lease hoare_post [OF loop]]) (use done_ in auto)
    qed (use entry in auto)
  qed
  show ?thesis
    unfolding driveRecovery_def Let_def root
  proof (rule hoare_and_then [OF read], rule hoare_fact, goal_cases)
    case (1 progress)
    then show ?case
      by (simp only:, intro hoare_next [where R = "\<lambda>s. s = s0"] hoare_ensure hoare_observed rest)
         (use same I durable in auto)
  qed
qed

section \<open>The aftermath of an execution\<close>

text \<open>The document a reader finds in the transaction's directory.\<close>

definition found_progress :: "job \<Rightarrow> storage \<Rightarrow> transaction_progress option" where
  "found_progress j s =
     Option.bind (file_at s (progress_path (jroot j))) (\<lambda>content. Option.bind (parseCanonicalJson content) json_progress)"

text \<open>
  The storages an execution leaves behind when it is cut off anywhere, and those the
  recoveries of it leave behind, cut off anywhere as well, each on a machine of its own.
\<close>

inductive aftermath ::
  "transaction_services \<Rightarrow> managed_operation list \<Rightarrow> execute_options \<Rightarrow> machine \<Rightarrow> storage \<Rightarrow> bool"
  for sv plan options m where
    executed: "driveExecution sv plan options m = (r, n) \<Longrightarrow> mc_history n = h @ mc_history m \<Longrightarrow>
      s \<in> insert (mc_storage n) (set h) \<Longrightarrow> aftermath sv plan options m s"
  | recovered: "aftermath sv plan options m s \<Longrightarrow> mc_storage a = s \<Longrightarrow> found_progress (job_of sv plan m) s = Some p \<Longrightarrow>
      driveRecovery sv fuel (summary_of (job_of sv plan m) p) a = (r, b) \<Longrightarrow> mc_history b = h @ mc_history a \<Longrightarrow>
      t \<in> insert (mc_storage b) (set h) \<Longrightarrow> aftermath sv plan options m t"

lemma crash_found:
  assumes "crash j s" "found_progress j s = Some p"
  shows "progress_is j p s \<and> fits j p s"
proof -
  from assms(2) have "file_at s (progress_path (jroot j)) \<noteq> None"
    by (auto simp: found_progress_def Option.bind_eq_Some_conv)
  moreover have "progress_path (jroot j) \<noteq> next_path (jroot j)" by simp
  ultimately have "\<not> unmarked j s" unfolding unmarked_def by (metis own_under(2))
  with assms(1) obtain q where q: "progress_is j q s" "fits j q s" by (auto simp: crash_def)
  have "found_progress j s = Some q" using progress_is_read [OF q(1)] by (simp add: found_progress_def)
  with assms(2) q show ?thesis by simp
qed

lemma recovery_run:
  assumes j: "job_ok j" and calm: "calm free j" and fuel: "undelayed free j fuel"
    and s: "crash j (mc_storage a)" "found_progress j (mc_storage a) = Some p"
    and run: "driveRecovery (jb_services j) fuel (summary_of j p) a = (r, b)"
  shows "(\<exists>h. mc_history b = h @ mc_history a \<and> (\<forall>s \<in> insert (mc_storage b) (set h). crash j s)) \<and>
    (case r of
       Inr x \<Rightarrow> rc_phase x = aim p \<and> rc_transactionId x = jb_id j \<and> settled j (aim p) (mc_storage b)
     | Inl e \<Rightarrow> free \<or> mc_rules a \<noteq> [])"
proof -
  note doc = crash_found [OF s]
  note h = hoareD [OF hoare_drive_recovery [OF j calm fuel conjunct2 [OF doc] conjunct1 [OF doc]] refl run]
  then show ?thesis by (auto simp: settled_def split: sum.splits)
qed

lemma aftermath_crash:
  assumes "freezeManagedPlan (sv_sha256 sv) plan = Inr plan" "ready_for sv m" "aftermath sv plan options m s"
  shows "crash (job_of sv plan m) s"
  using assms(3)
proof (induction rule: aftermath.induct)
  case (executed r n h s)
  let ?j = "job_of sv plan m"
  have shape: "plan_shape sv plan" using frozen_shape [OF assms(1)] by simp
  have "undisturbed True ?j authority guards" for authority guards by (simp add: undisturbed_def)
  from drive_execution [OF assms(2) shape this executed(1)] executed(2,3) finished_crash show ?case
    by (auto split: sum.splits)
next
  case (recovered s a p fuel r b h t)
  have j: "job_ok (job_of sv plan m)" using job_of_ok [OF assms(2)] frozen_shape [OF assms(1)] by blast
  have "calm True (job_of sv plan m)" "undelayed True (job_of sv plan m) fuel" by (simp_all add: calm_def undelayed_def)
  from recovery_run [OF j this, of a p r b] recovered show ?case by auto
qed

text \<open>
  C3: however often an execution and its recoveries are cut off, a recovery that returns has
  settled the transaction: the whole plan took effect when the document found allowed
  publication, nothing of it when it did not, and in between every storage shows a prefix.
\<close>
theorem recovery_all_or_nothing:
  assumes "freezeManagedPlan (sv_sha256 sv) plan = Inr plan" "ready_for sv m"
    and "aftermath sv plan options m (mc_storage a)" "found_progress (job_of sv plan m) (mc_storage a) = Some p"
    and "driveRecovery sv fuel (summary_of (job_of sv plan m) p) a = (r, b)"
  shows "(\<exists>h. mc_history b = h @ mc_history a \<and>
      (\<forall>s \<in> insert (mc_storage b) (set h). \<exists>k \<le> length plan. outside (job_of sv plan m) k s)) \<and>
    (\<forall>x. r = Inr x \<longrightarrow>
      rc_phase x = (if pg_phase p \<in> {Publishing, Committed} then Committed else Aborted) \<and>
      outside (job_of sv plan m) (if rc_phase x = Committed then length plan else 0) (mc_storage b) \<and>
      clean (job_of sv plan m) (mc_storage b))"
proof -
  let ?j = "job_of sv plan m"
  have j: "job_ok ?j" using job_of_ok [OF assms(2)] frozen_shape [OF assms(1)] by blast
  have free: "calm True ?j" "undelayed True ?j fuel" by (simp_all add: calm_def undelayed_def)
  note run = recovery_run [OF j free aftermath_crash [OF assms(1-3)] assms(4)]
  from run [of r b] assms(5) crash_prefix [of ?j] show ?thesis
    by (fastforce simp: settled_def aim_def jlen_def split: sum.splits)
qed

text \<open>
  C4: from every storage of the aftermath one recovery that no fault disturbs returns, within
  two turns more than the plan has operations, and settles the transaction.
\<close>
theorem recovery_settles:
  assumes "freezeManagedPlan (sv_sha256 sv) plan = Inr plan" "ready_for sv m"
    and "aftermath sv plan options m (mc_storage a)" "found_progress (job_of sv plan m) (mc_storage a) = Some p"
    and "mc_rules a = []" "calm False (job_of sv plan m)" "length plan \<le> 9999" "length plan + 2 \<le> fuel"
  shows "\<exists>x b. driveRecovery sv fuel (summary_of (job_of sv plan m) p) a = (Inr x, b) \<and>
    rc_phase x = (if pg_phase p \<in> {Publishing, Committed} then Committed else Aborted) \<and>
    outside (job_of sv plan m) (if rc_phase x = Committed then length plan else 0) (mc_storage b)"
proof -
  let ?j = "job_of sv plan m"
  obtain r b where run: "driveRecovery sv fuel (summary_of ?j p) a = (r, b)" by fastforce
  have j: "job_ok ?j" using job_of_ok [OF assms(2)] frozen_shape [OF assms(1)] by blast
  have "undelayed False ?j fuel" using assms(7,8) by (simp add: undelayed_def jlen_def)
  note res = recovery_run [OF j assms(6) this aftermath_crash [OF assms(1-3)] assms(4)]
  from res [of r b] run assms(5) obtain x where "r = Inr x" "rc_phase x = aim p" "settled ?j (aim p) (mc_storage b)"
    by (auto split: sum.splits)
  with run show ?thesis by (auto simp: settled_def aim_def jlen_def)
qed

section \<open>A concrete recovery\<close>

lemma sample_calm: "calm False (job_of sample_services sample_operations sample_machine)"
proof -
  have "list_all id_test (jids (job_of sample_services sample_operations sample_machine))" by code_simp
  with sample_smooth show ?thesis by (simp add: calm_def smooth_def)
qed

text \<open>The execution on the sample machine, and the document it ends with.\<close>

lemma sample_aftermath:
  obtains n :: machine and p where "aftermath sample_services sample_operations sample_options sample_machine (mc_storage n)"
    "found_progress (job_of sample_services sample_operations sample_machine) (mc_storage n) = Some p" "mc_rules n = []"
proof -
  let ?j = "job_of sample_services sample_operations sample_machine"
  obtain r n where run: "driveExecution sample_services sample_operations sample_options sample_machine = (r, n)" by fastforce
  have ids: "list_all id_test (jids ?j)" by code_simp
  have shape: "plan_shape sample_services sample_operations" using frozen_shape [OF sample_frozen] by simp
  have "undisturbed False ?j (map_option (bindingAuthority sample_services) (xo_leaseGuard sample_options))
      (xo_guardPreconditions sample_options)"
    using sample_smooth ids by (simp add: undisturbed_def sample_options_def)
  note ended = drive_execution [OF sample_ready shape this run]
  have none: "mc_rules sample_machine = []" by (simp add: sample_machine_def)
  from ended none obtain h where h: "mc_history n = h @ mc_history sample_machine" and fin: "finished ?j Committed (mc_storage n)"
    by (auto split: sum.splits)
  from fin obtain q where "progress_is ?j q (mc_storage n)" by (auto simp: finished_def)
  then have "found_progress ?j (mc_storage n) = Some q" by (simp add: found_progress_def progress_is_read)
  moreover have "aftermath sample_services sample_operations sample_options sample_machine (mc_storage n)"
    by (rule aftermath.executed [OF run h]) simp
  ultimately show thesis using that [of "sample_machine\<lparr>mc_storage := mc_storage n\<rparr>" q] none by simp
qed

lemma recovery_all_or_nothing_witness:
  "\<exists>a p r b h. driveRecovery sample_services 1 (summary_of (job_of sample_services sample_operations sample_machine) p) a = (r, b) \<and>
     mc_history b = h @ mc_history a \<and>
     (\<forall>s \<in> set h. \<exists>k \<le> 2. outside (job_of sample_services sample_operations sample_machine) k s)"
proof -
  obtain n :: machine and p where n: "aftermath sample_services sample_operations sample_options sample_machine (mc_storage n)"
    "found_progress (job_of sample_services sample_operations sample_machine) (mc_storage n) = Some p" "mc_rules n = []"
    by (rule sample_aftermath)
  obtain r b where run: "driveRecovery sample_services 1 (summary_of (job_of sample_services sample_operations sample_machine) p) n = (r, b)"
    by fastforce
  have len: "length sample_operations = 2" by (simp add: sample_operations_def)
  from conjunct1 [OF recovery_all_or_nothing [OF sample_frozen sample_ready n(1,2) run]]
  obtain h where h: "mc_history b = h @ mc_history n"
      "\<forall>s \<in> insert (mc_storage b) (set h). \<exists>k \<le> length sample_operations.
         outside (job_of sample_services sample_operations sample_machine) k s" by (elim exE conjE)
  from h(2) have "\<forall>s \<in> set h. \<exists>k \<le> 2. outside (job_of sample_services sample_operations sample_machine) k s"
    unfolding len by blast
  with run h(1) show ?thesis by (intro exI conjI) assumption+
qed

lemma recovery_settles_witness:
  "\<exists>a p x b. driveRecovery sample_services 4 (summary_of (job_of sample_services sample_operations sample_machine) p) a = (Inr x, b) \<and>
     rc_phase x = (if pg_phase p \<in> {Publishing, Committed} then Committed else Aborted)"
proof -
  obtain n :: machine and p where n: "aftermath sample_services sample_operations sample_options sample_machine (mc_storage n)"
    "found_progress (job_of sample_services sample_operations sample_machine) (mc_storage n) = Some p" "mc_rules n = []"
    by (rule sample_aftermath)
  have "length sample_operations \<le> 9999" "length sample_operations + 2 \<le> 4" by (simp_all add: sample_operations_def)
  from recovery_settles [OF sample_frozen sample_ready n sample_calm this]
  obtain x b where "driveRecovery sample_services 4 (summary_of (job_of sample_services sample_operations sample_machine) p) n = (Inr x, b)"
      "rc_phase x = (if pg_phase p \<in> {Publishing, Committed} then Committed else Aborted)" by (elim exE conjE)
  then show ?thesis by (intro exI conjI) assumption+
qed

end
