(* ===== verification/Js_Date.thy ===== *)
theory Js_Date
  imports Transaction_Documents
begin

text \<open>
  The part of the JavaScript \<open>Date\<close> that the contracts' timestamps use: instants are
  milliseconds since 1970 in UTC, \<open>toISOString\<close> writes them in the proleptic Gregorian
  calendar and the \<open>Date\<close> constructor reads such a text back. Only the years 0 to 9999,
  which have four digits, are valid timestamps of the contracts.
\<close>

section \<open>The calendar\<close>

definition MS_PER_DAY :: int where "MS_PER_DAY = 86400000"

definition leap_year :: "int \<Rightarrow> bool" where
  "leap_year y \<longleftrightarrow> y mod 4 = 0 \<and> (y mod 100 \<noteq> 0 \<or> y mod 400 = 0)"

text \<open>The days from the first day of year 0 to the first day of year \<open>y\<close>.\<close>

definition days_before_year :: "int \<Rightarrow> int" where
  "days_before_year y = 365 * y + (y + 3) div 4 - (y + 99) div 100 + (y + 399) div 400"

definition EPOCH_DAY :: int where "EPOCH_DAY = 719528"

definition days_before_month :: "bool \<Rightarrow> nat \<Rightarrow> int" where
  "days_before_month leap m =
     [0, 31, 59, 90, 120, 151, 181, 212, 243, 273, 304, 334, 365] ! m + (if leap \<and> m \<ge> 2 then 1 else 0)"

lemma ceiling_step:
  fixes y k :: int
  assumes "0 < k"
  shows "(y + k) div k = (y + k - 1) div k + (if y mod k = 0 then 1 else 0)"
proof -
  let ?q = "y div k" and ?r = "y mod k"
  have y: "y = k * ?q + ?r" and r: "0 \<le> ?r" "?r < k" using assms by simp_all
  have "(y + k) div k = ?q + 1" by (rule div_add_self2) (use assms in simp)
  moreover have "(y + k - 1) div k = ?q + (?r + k - 1) div k"
  proof -
    have "y + k - 1 = (?r + k - 1) + ?q * k" using mult_div_mod_eq [of k y] by (simp add: mult.commute)
    then have "(y + k - 1) div k = ((?r + k - 1) + ?q * k) div k" by (simp only:)
    also have "\<dots> = ?q + (?r + k - 1) div k" by (rule div_mult_self1) (use assms in simp)
    finally show ?thesis .
  qed
  moreover have "(?r + k - 1) div k = (if ?r = 0 then 0 else 1)"
  proof (cases "?r = 0")
    case False
    with r have "0 \<le> ?r - 1" "?r - 1 < k" by linarith+
    then have "(?r - 1) div k = 0" by (rule div_pos_pos_trivial)
    moreover have "(?r + k - 1) div k = 1 + (?r - 1) div k"
      using assms div_add_self2 [of k "?r - 1"] by (simp add: algebra_simps)
    ultimately show ?thesis using False by simp
  qed (use assms in simp)
  ultimately show ?thesis by simp
qed

lemma ceiling_next:
  fixes y k m :: int
  assumes "0 < k" "m = k - 1"
  shows "(y + 1 + m) div k = (y + m) div k + (if y mod k = 0 then 1 else 0)"
proof -
  have "y + 1 + m = y + k" "y + m = y + k - 1" using assms(2) by simp_all
  with ceiling_step [OF assms(1), of y] show ?thesis by (simp only:)
qed

lemma days_before_year_step: "days_before_year (y + 1) = days_before_year y + (if leap_year y then 366 else 365)"
proof -
  have *: "y mod 400 = 0 \<Longrightarrow> y mod 100 = 0" "y mod 100 = 0 \<Longrightarrow> y mod 4 = 0"
    using mod_mod_cancel [of 100 400 y] mod_mod_cancel [of 4 100 y] by simp_all
  define a b c where "a = (y + 3) div 4" and "b = (y + 99) div 100" and "c = (y + 399) div 400"
  have "(y + 1 + 3) div 4 = a + (if y mod 4 = 0 then 1 else 0)"
    "(y + 1 + 99) div 100 = b + (if y mod 100 = 0 then 1 else 0)"
    "(y + 1 + 399) div 400 = c + (if y mod 400 = 0 then 1 else 0)"
    unfolding a_def b_def c_def by (rule ceiling_next; simp)+
  then have "days_before_year (y + 1) = 365 * (y + 1) + (a + (if y mod 4 = 0 then 1 else 0)) -
      (b + (if y mod 100 = 0 then 1 else 0)) + (c + (if y mod 400 = 0 then 1 else 0))"
    by (simp only: days_before_year_def)
  moreover have "days_before_year y = 365 * y + a - b + c" by (simp only: days_before_year_def a_def b_def c_def)
  ultimately have "days_before_year (y + 1) = days_before_year y + 365 + (if y mod 4 = 0 then 1 else 0) -
      (if y mod 100 = 0 then 1 else 0) + (if y mod 400 = 0 then 1 else 0)"
    by (simp only: ring_distribs)
  with * show ?thesis unfolding leap_year_def by presburger
qed

function year_from :: "int \<Rightarrow> int \<Rightarrow> int" where
  "year_from y d = (if days_before_year (y + 1) \<le> d then year_from (y + 1) d else y)"
  by auto
termination
proof (relation "measure (\<lambda>(y, d). nat (d + 1 - days_before_year y))")
  fix y d :: int
  assume "days_before_year (y + 1) \<le> d"
  moreover have "days_before_year y < days_before_year (y + 1)"
    by (simp add: days_before_year_step)
  ultimately show "((y + 1, d), y, d) \<in> measure (\<lambda>(y, d). nat (d + 1 - days_before_year y))"
    by simp
qed simp

declare year_from.simps [simp del]

text \<open>The year of a day counted from the first day of year 0.\<close>

definition year_of_day :: "int \<Rightarrow> int" where
  "year_of_day d = year_from (d div 366) d"

definition month_of :: "bool \<Rightarrow> int \<Rightarrow> nat" where
  "month_of leap r = length (filter (\<lambda>m. days_before_month leap m \<le> r) [1..<12])"

lemma year_from_spec:
  "days_before_year y \<le> d \<Longrightarrow>
     days_before_year (year_from y d) \<le> d \<and> d < days_before_year (year_from y d + 1)"
proof (induction y d rule: year_from.induct)
  case (1 y d)
  then show ?case by (subst (1 2) year_from.simps) auto
qed

lemma days_before_year_le: "0 \<le> y \<Longrightarrow> days_before_year y \<le> 366 * y"
proof -
  assume "0 \<le> y"
  have "(y + 3) div 4 \<le> y" using \<open>0 \<le> y\<close> by presburger
  moreover have "(y + 399) div 400 \<le> (y + 99) div 100"
  proof -
    let ?c = "(y + 99) div 100"
    have "0 \<le> ?c" using \<open>0 \<le> y\<close> by (simp add: pos_imp_zdiv_nonneg_iff)
    moreover have "y \<le> 100 * ?c" by linarith
    ultimately show ?thesis by linarith
  qed
  ultimately show ?thesis using \<open>0 \<le> y\<close> by (simp add: days_before_year_def)
qed

lemma year_of_day_spec:
  assumes "0 \<le> d"
  shows "days_before_year (year_of_day d) \<le> d" "d < days_before_year (year_of_day d + 1)"
proof -
  have "days_before_year (d div 366) \<le> d"
    using days_before_year_le [of "d div 366"] assms by (simp add: pos_imp_zdiv_nonneg_iff)
  from year_from_spec [OF this] show "days_before_year (year_of_day d) \<le> d" "d < days_before_year (year_of_day d + 1)"
    by (simp_all add: year_of_day_def)
qed

lemma days_before_year_mono: "y \<le> z \<Longrightarrow> days_before_year y \<le> days_before_year z"
proof (induction "nat (z - y)" arbitrary: z)
  case (Suc n)
  then have "days_before_year y \<le> days_before_year (z - 1)" by simp
  then show ?case using days_before_year_step [of "z - 1"] by (simp split: if_splits)
qed simp

text \<open>The year whose first day and the first day of the next enclose a day is unique.\<close>

lemma year_of_day_unique:
  assumes "0 \<le> d" "days_before_year y \<le> d" "d < days_before_year (y + 1)"
  shows "year_of_day d = y"
proof (rule antisym)
  show "year_of_day d \<le> y"
    using days_before_year_mono [of "y + 1" "year_of_day d"] year_of_day_spec(1) [OF assms(1)] assms(3) by fastforce
  show "y \<le> year_of_day d"
    using days_before_year_mono [of "year_of_day d + 1" y] year_of_day_spec(2) [OF assms(1)] assms(2) by fastforce
qed

section \<open>Texts of instants\<close>

definition two_digit :: "int \<Rightarrow> string" where
  "two_digit n = pad_start 2 (int_text n)"

text \<open>
  \<open>toISOString\<close> of an instant, with \<^const>\<open>None\<close> for a year outside 0 to 9999, whose text
  has a sign and six digits and is no timestamp of the contracts.
\<close>

definition iso_text :: "int \<Rightarrow> string option" where
  "iso_text t =
     (let d = t div MS_PER_DAY + EPOCH_DAY; ms = t mod MS_PER_DAY; y = year_of_day d;
          leap = leap_year y; r = d - days_before_year y; m = month_of leap r
      in if d < 0 \<or> y > 9999 then None
         else Some (pad_start 4 (int_text y) @ ''-'' @ two_digit (int m + 1) @ ''-'' @
           two_digit (r - days_before_month leap m + 1) @ ''T'' @ two_digit (ms div 3600000) @ '':'' @
           two_digit (ms div 60000 mod 60) @ '':'' @ two_digit (ms div 1000 mod 60) @ ''.'' @
           pad_start 3 (int_text (ms mod 1000)) @ ''Z''))"

definition digits_int :: "string \<Rightarrow> int" where
  "digits_int s = int (digits_value 0 s)"

text \<open>The first three digits of a fraction, as milliseconds.\<close>

definition fraction_ms :: "string \<Rightarrow> int" where
  "fraction_ms s =
     (case s of
        c # r \<Rightarrow> if c = CHR ''.'' then digits_int (take 3 (takeWhile is_digit r @ ''000'')) else 0
      | [] \<Rightarrow> 0)"

text \<open>
  \<open>new Date(text).getTime()\<close> for a timestamp of the contracts: a day beyond the end of
  its month counts into the next one, as \<open>MakeDay\<close> has it.
\<close>

definition parse_time :: "string \<Rightarrow> int" where
  "parse_time s =
     (let y = digits_int (take 4 s); m = digits_value 0 (take 2 (drop 5 s));
          d = digits_int (take 2 (drop 8 s));
          day = days_before_year y + days_before_month (leap_year y) (m - 1) + d - 1 - EPOCH_DAY
      in day * MS_PER_DAY + digits_int (take 2 (drop 11 s)) * 3600000 + digits_int (take 2 (drop 14 s)) * 60000 +
         digits_int (take 2 (drop 17 s)) * 1000 + fraction_ms (drop 19 s))"

lemma sample_date: "iso_text 1767225600000 = Some ''2026-01-01T00:00:00.000Z''"
  by code_simp

lemma sample_date2: "iso_text 1709210096789 = Some ''2024-02-29T12:34:56.789Z''"
  by code_simp

section \<open>Reading a text back\<close>

lemma nat_text_short: "n < 10 ^ k \<Longrightarrow> 0 < k \<Longrightarrow> length (nat_text n) \<le> k"
proof (induction k arbitrary: n)
  case (Suc k)
  show ?case
  proof (cases "n < 10")
    case True
    then show ?thesis by (subst nat_text.simps) simp
  next
    case False
    then have "k \<noteq> 0" using Suc.prems by (cases k) auto
    moreover have "n div 10 < 10 ^ k" using Suc.prems(1) by (simp add: less_mult_imp_div_less mult.commute)
    ultimately show ?thesis using Suc.IH [of "n div 10"] False by (subst nat_text.simps) simp
  qed
qed simp

lemma padded:
  assumes "n < 10 ^ k" "0 < k"
  shows "length (pad_start k (nat_text n)) = k" "digits_value 0 (pad_start k (nat_text n)) = n"
    "list_all is_digit (pad_start k (nat_text n))"
  using nat_text_short [OF assms] nat_text_digits [of n]
  by (auto simp: pad_start_def digits_value_zeros digits_value_nat_text list_all_iff is_digit_def code_unit_def)

lemma padded_int:
  assumes "0 \<le> n" "n < 10 ^ k" "0 < k"
  shows "length (pad_start k (int_text n)) = k" "digits_int (pad_start k (int_text n)) = n"
    "list_all is_digit (pad_start k (int_text n))"
proof -
  have "nat n < 10 ^ k" using assms by (metis nat_less_iff of_nat_numeral of_nat_power)
  note p = padded [OF this assms(3)]
  have "int_text n = nat_text (nat n)" using assms(1) by (simp add: int_text_def)
  with p assms(1) show "length (pad_start k (int_text n)) = k" "digits_int (pad_start k (int_text n)) = n"
    "list_all is_digit (pad_start k (int_text n))" by (simp_all add: digits_int_def)
qed

lemma two_digit_facts:
  assumes "0 \<le> n" "n < 100"
  shows "length (two_digit n) = 2" "digits_int (two_digit n) = n" "list_all is_digit (two_digit n)"
  using padded_int [of n 2] assms by (simp_all add: two_digit_def)

lemma month_spec:
  assumes "0 \<le> r" "r < (if leap then 366 else 365)"
  shows "month_of leap r < 12 \<and> days_before_month leap (month_of leap r) \<le> r \<and>
    r < days_before_month leap (month_of leap r) + 31"
proof (cases leap)
  case True
  have "r < 31 \<or> 31 \<le> r \<and> r < 60 \<or> 60 \<le> r \<and> r < 91 \<or> 91 \<le> r \<and> r < 121 \<or>
      121 \<le> r \<and> r < 152 \<or> 152 \<le> r \<and> r < 182 \<or> 182 \<le> r \<and> r < 213 \<or> 213 \<le> r \<and> r < 244 \<or>
      244 \<le> r \<and> r < 274 \<or> 274 \<le> r \<and> r < 305 \<or> 305 \<le> r \<and> r < 335 \<or> 335 \<le> r" by linarith
  then show ?thesis using assms True
    by (elim disjE) (simp_all add: month_of_def days_before_month_def upt_rec)
next
  case False
  have "r < 31 \<or> 31 \<le> r \<and> r < 59 \<or> 59 \<le> r \<and> r < 90 \<or> 90 \<le> r \<and> r < 120 \<or>
      120 \<le> r \<and> r < 151 \<or> 151 \<le> r \<and> r < 181 \<or> 181 \<le> r \<and> r < 212 \<or> 212 \<le> r \<and> r < 243 \<or>
      243 \<le> r \<and> r < 273 \<or> 273 \<le> r \<and> r < 304 \<or> 304 \<le> r \<and> r < 334 \<or> 334 \<le> r" by linarith
  then show ?thesis using assms False
    by (elim disjE) (simp_all add: month_of_def days_before_month_def upt_rec)
qed

text \<open>The parts of a text of the right shape.\<close>

lemma parse_parts:
  assumes "length Y = 4" "length M = 2" "length D = 2" "length H = 2" "length N = 2" "length S = 2" "length F = 3"
    and "list_all is_digit F"
  shows "parse_time (Y @ ''-'' @ M @ ''-'' @ D @ ''T'' @ H @ '':'' @ N @ '':'' @ S @ ''.'' @ F @ ''Z'') =
    (days_before_year (digits_int Y) + days_before_month (leap_year (digits_int Y)) (digits_value 0 M - 1) + digits_int D - 1 -
       EPOCH_DAY) * MS_PER_DAY + digits_int H * 3600000 + digits_int N * 60000 + digits_int S * 1000 + digits_int F"
proof -
  have "\<not> is_digit (CHR ''Z'')" by (simp add: is_digit_def code_unit_def)
  then have tw: "takeWhile is_digit (F @ ''Z'') = F" using assms(8) by (auto simp: takeWhile_append list_all_iff)
  have "fraction_ms (''.'' @ F @ ''Z'') = digits_int F" using tw assms(7) by (simp add: fraction_ms_def)
  then show ?thesis using assms(1-7) by (simp add: parse_time_def Let_def)
qed

lemma two_digits_of:
  assumes "length M = 2" "list_all is_digit M" "int low \<le> digits_int M" "digits_int M \<le> int high"
  obtains c d where "M = [c, d]" "two_digits c d low high"
proof -
  from assms(1) obtain c d where M: "M = [c, d]" by (auto simp: numeral_2_eq_2 length_Suc_conv)
  with assms have "two_digits c d low high" by (auto simp: two_digits_def digits_int_def Let_def mult.commute)
  with M that show thesis by blast
qed

lemma timestamp_parts:
  assumes "length Y = 4" "list_all is_digit Y"
    and "length M = 2" "list_all is_digit M" "1 \<le> digits_int M" "digits_int M \<le> 12"
    and "length D = 2" "list_all is_digit D" "1 \<le> digits_int D" "digits_int D \<le> 31"
    and "length H = 2" "list_all is_digit H" "0 \<le> digits_int H" "digits_int H \<le> 23"
    and "length N = 2" "list_all is_digit N" "0 \<le> digits_int N" "digits_int N \<le> 59"
    and "length S = 2" "list_all is_digit S" "0 \<le> digits_int S" "digits_int S \<le> 59"
    and "length F = 3" "list_all is_digit F"
  shows "timestamp_test (Y @ ''-'' @ M @ ''-'' @ D @ ''T'' @ H @ '':'' @ N @ '':'' @ S @ ''.'' @ F @ ''Z'')"
proof -
  obtain a b c d where Y: "Y = [a, b, c, d]" using assms(1) by (auto simp: numeral_eq_Suc length_Suc_conv)
  obtain m1 m2 where M: "M = [m1, m2]" "two_digits m1 m2 1 12" by (rule two_digits_of [of M 1 12]) (use assms in auto)
  obtain d1 d2 where D: "D = [d1, d2]" "two_digits d1 d2 1 31" by (rule two_digits_of [of D 1 31]) (use assms in auto)
  obtain h1 h2 where H: "H = [h1, h2]" "two_digits h1 h2 0 23" by (rule two_digits_of [of H 0 23]) (use assms in auto)
  obtain n1 n2 where N: "N = [n1, n2]" "two_digits n1 n2 0 59" by (rule two_digits_of [of N 0 59]) (use assms in auto)
  obtain s1 s2 where S: "S = [s1, s2]" "two_digits s1 s2 0 59" by (rule two_digits_of [of S 0 59]) (use assms in auto)
  have "\<not> is_digit (CHR ''Z'')" by (simp add: is_digit_def code_unit_def)
  then have "takeWhile is_digit (F @ ''Z'') = F" "dropWhile is_digit (F @ ''Z'') = ''Z''"
    using assms(24) by (auto simp: takeWhile_append dropWhile_append list_all_iff)
  then have "fraction_test (''.'' @ F @ ''Z'')" using assms(23) by (simp add: fraction_test_def)
  with Y M D H N S assms(2) show ?thesis by (simp add: timestamp_test_def numeral_eq_Suc)
qed

lemma clock_parts:
  fixes t :: int
  defines "ms \<equiv> t mod MS_PER_DAY"
  shows "(t div MS_PER_DAY) * MS_PER_DAY + ms div 3600000 * 3600000 + ms div 60000 mod 60 * 60000 +
      ms div 1000 mod 60 * 1000 + ms mod 1000 = t"
    and "0 \<le> ms div 3600000" "ms div 3600000 \<le> 23"
proof -
  have "0 \<le> ms" "ms < 86400000" by (simp_all add: ms_def MS_PER_DAY_def)
  then show "0 \<le> ms div 3600000" "ms div 3600000 \<le> 23" by (simp_all add: pos_imp_zdiv_nonneg_iff)
  have "ms div 60000 = ms div 1000 div 60" "ms div 3600000 = ms div 60000 div 60"
    using zdiv_zmult2_eq [of 60 ms 1000] zdiv_zmult2_eq [of 60 ms 60000] by simp_all
  then have "ms div 3600000 * 3600000 + ms div 60000 mod 60 * 60000 + ms div 1000 mod 60 * 1000 + ms mod 1000 = ms"
    using div_mult_mod_eq [of ms 1000] div_mult_mod_eq [of "ms div 1000" 60] div_mult_mod_eq [of "ms div 60000" 60] by linarith
  moreover have "(t div MS_PER_DAY) * MS_PER_DAY + ms = t" by (simp add: ms_def)
  ultimately show "(t div MS_PER_DAY) * MS_PER_DAY + ms div 3600000 * 3600000 + ms div 60000 mod 60 * 60000 +
      ms div 1000 mod 60 * 1000 + ms mod 1000 = t" by linarith
qed

lemma year_of_day_nonneg: "0 \<le> d \<Longrightarrow> 0 \<le> year_of_day d"
proof (rule ccontr)
  assume "0 \<le> d" "\<not> 0 \<le> year_of_day d"
  then have "d < days_before_year 0"
    using year_of_day_spec(2) [of d] days_before_year_mono [of "year_of_day d + 1" 0] by linarith
  with \<open>0 \<le> d\<close> show False by (simp add: days_before_year_def)
qed

lemma iso_text_reads:
  assumes "iso_text t = Some s"
  shows "parse_time s = t \<and> timestamp_test s"
proof -
  define d y ms where "d = t div MS_PER_DAY + EPOCH_DAY" and "y = year_of_day d" and "ms = t mod MS_PER_DAY"
  define r m where "r = d - days_before_year y" and "m = month_of (leap_year y) r"
  from assms have ok: "0 \<le> d" "y \<le> 9999" and s: "s = pad_start 4 (int_text y) @ ''-'' @ two_digit (int m + 1) @ ''-'' @
      two_digit (r - days_before_month (leap_year y) m + 1) @ ''T'' @ two_digit (ms div 3600000) @ '':'' @
      two_digit (ms div 60000 mod 60) @ '':'' @ two_digit (ms div 1000 mod 60) @ ''.'' @
      pad_start 3 (int_text (ms mod 1000)) @ ''Z''"
    by (auto simp: iso_text_def Let_def d_def y_def ms_def r_def m_def split: if_splits)
  have y: "0 \<le> y" using year_of_day_nonneg [OF ok(1)] by (simp add: y_def)
  have "0 \<le> r" "r < (if leap_year y then 366 else 365)"
    using year_of_day_spec [OF ok(1)] days_before_year_step [of y] by (simp_all add: r_def y_def)
  from month_spec [OF this] have m: "m < 12" "days_before_month (leap_year y) m \<le> r" "r < days_before_month (leap_year y) m + 31"
    by (simp_all add: m_def)
  note c = clock_parts [of t, folded ms_def]
  have Y: "length (pad_start 4 (int_text y)) = 4" "digits_int (pad_start 4 (int_text y)) = y"
    "list_all is_digit (pad_start 4 (int_text y))" using padded_int [of y 4] y ok(2) by simp_all
  have F: "length (pad_start 3 (int_text (ms mod 1000))) = 3" "digits_int (pad_start 3 (int_text (ms mod 1000))) = ms mod 1000"
    "list_all is_digit (pad_start 3 (int_text (ms mod 1000)))" using padded_int [of "ms mod 1000" 3] by simp_all
  let ?D = "r - days_before_month (leap_year y) m + 1"
  have im: "0 \<le> int m" "int m < 12" using m(1) by simp_all
  have mods: "0 \<le> ms div 60000 mod 60" "ms div 60000 mod 60 < 60" "0 \<le> ms div 1000 mod 60" "ms div 1000 mod 60 < 60"
    by (rule pos_mod_sign pos_mod_bound; simp)+
  have b: "0 \<le> int m + 1" "int m + 1 < 100" "0 \<le> ?D" "?D < 100" "0 \<le> ms div 3600000" "ms div 3600000 < 100"
      "0 \<le> ms div 60000 mod 60" "ms div 60000 mod 60 < 100" "0 \<le> ms div 1000 mod 60" "ms div 1000 mod 60 < 100"
    and b': "ms div 60000 mod 60 \<le> 59" "ms div 1000 mod 60 \<le> 59"
    using m(2,3) im c(2,3) mods by linarith+
  note M = two_digit_facts [OF b(1,2)] and D = two_digit_facts [OF b(3,4)] and H = two_digit_facts [OF b(5,6)]
    and N = two_digit_facts [OF b(7,8)] and S = two_digit_facts [OF b(9,10)]
  have mv: "digits_value 0 (two_digit (int m + 1)) - 1 = m" using M(2) by (simp add: digits_int_def)
  have "parse_time s = (days_before_year y + days_before_month (leap_year y) m + ?D - 1 - EPOCH_DAY) * MS_PER_DAY +
      ms div 3600000 * 3600000 + ms div 60000 mod 60 * 60000 + ms div 1000 mod 60 * 1000 + ms mod 1000"
    unfolding s parse_parts [OF Y(1) M(1) D(1) H(1) N(1) S(1) F(1,3)] by (simp only: Y(2) D(2) H(2) N(2) S(2) F(2) mv)
  also have "days_before_year y + days_before_month (leap_year y) m + ?D - 1 - EPOCH_DAY = t div MS_PER_DAY"
    by (simp add: r_def d_def)
  finally have "parse_time s = t" using c(1) by simp
  moreover have "timestamp_test s"
    unfolding s
    by (rule timestamp_parts [OF Y(1,3) M(1,3) _ _ D(1,3) _ _ H(1,3) _ _ N(1,3) _ _ S(1,3) _ _ F(1,3)])
      (simp_all only: M(2) D(2) H(2) N(2) S(2), (use m(2,3) im b b' c(2,3) in linarith)+)
  ultimately show ?thesis ..
qed

end
