(* ===== verification/Lease_Scope.thy ===== *)
theory Lease_Scope
  imports Js_Date
begin

text \<open>
  Resources, owners and times of leases (\<open>domain/locks/model.ts\<close> and
  \<open>domain/locks/scope.ts\<close>): where a resource keeps its lock files, which owner names are
  accepted, and whether a lease is writable, within the clock skew or open to takeover.
  A \<open>Date\<close> is its time value, \<^const>\<open>None\<close> for an invalid date.
\<close>

unbundle bit_operations_syntax

section \<open>Constants and errors\<close>

definition DEFAULT_LEASE_TTL_MS :: int where "DEFAULT_LEASE_TTL_MS = 30000"

definition LEASE_SKEW_MS :: int where "LEASE_SKEW_MS = 5000"

definition MIN_LEASE_TTL_MS :: int where "MIN_LEASE_TTL_MS = 5000"

definition MAX_LEASE_TTL_MS :: int where "MAX_LEASE_TTL_MS = 300000"

datatype lease_time = Writable | Skew | Takeover_eligible

datatype lease_policy_error = Invalid_input | Invalid_transition

section \<open>Paths of a resource\<close>

definition base64url :: string where
  "base64url = ''ABCDEFGHIJKLMNOPQRSTUVWXYZabcdefghijklmnopqrstuvwxyz0123456789-_''"

definition base64_char :: "int \<Rightarrow> char" where
  "base64_char n = base64url ! nat n"

definition char_code :: "char \<Rightarrow> int" where
  "char_code c = int (code_unit c)"

text \<open>Three characters at a time; the last group may lack its second and third character.\<close>

fun encodeRunId :: "string \<Rightarrow> string" where
  "encodeRunId [] = []"
| "encodeRunId [a] =
     [base64_char (drop_bit 2 (char_code a)),
      base64_char (push_bit 4 (char_code a AND 3) OR drop_bit 4 0)]"
| "encodeRunId [a, b] =
     [base64_char (drop_bit 2 (char_code a)),
      base64_char (push_bit 4 (char_code a AND 3) OR drop_bit 4 (char_code b)),
      base64_char (push_bit 2 (char_code b AND 15) OR drop_bit 6 0)]"
| "encodeRunId (a # b # c # rest) =
     [base64_char (drop_bit 2 (char_code a)),
      base64_char (push_bit 4 (char_code a AND 3) OR drop_bit 4 (char_code b)),
      base64_char (push_bit 2 (char_code b AND 15) OR drop_bit 6 (char_code c)),
      base64_char (char_code c AND 63)] @ encodeRunId rest"

record lock_paths =
  lp_root :: string
  lp_lease :: string
  lp_events :: string
  lp_claim :: string
  lp_claimRecord :: string
  lp_admissionClaim :: string
  lp_admissionRecord :: string

definition lock_root :: "string \<Rightarrow> string option" where
  "lock_root input =
     (if input = ''project'' then Some ''.brain/locks/project''
      else if starts_with ''run:'' input \<and> id_test (drop 4 input)
      then Some (''.brain/locks/runs/'' @ encodeRunId (drop 4 input))
      else None)"

definition lockPaths :: "string \<Rightarrow> (lease_policy_error, lock_paths) result" where
  "lockPaths input =
     (case lock_root input of
        None \<Rightarrow> Inl Invalid_input
      | Some root \<Rightarrow> Inr \<lparr> lp_root = root, lp_lease = root @ ''/lease.json'', lp_events = root @ ''/events.jsonl'',
          lp_claim = root @ ''/claim'', lp_claimRecord = root @ ''/claim/claim.json'',
          lp_admissionClaim = ''.brain/locks/.admission/claim'',
          lp_admissionRecord = ''.brain/locks/.admission/claim/claim.json'' \<rparr>)"

section \<open>Owners and times\<close>

text \<open>\<open>^[A-Za-z0-9][A-Za-z0-9._-]{0,62}$\<close>\<close>

fun owner_part :: "string \<Rightarrow> bool" where
  "owner_part [] = False"
| "owner_part (c # cs) \<longleftrightarrow> is_alnum c \<and> length cs \<le> 62 \<and>
     list_all (\<lambda>d. is_alnum d \<or> d \<in> {CHR ''.'', CHR ''_'', CHR ''-''}) cs"

record lease_owner =
  ow_host :: string
  ow_sessionId :: string
  ow_value :: string

definition parseOwner :: "string \<Rightarrow> (lease_policy_error, lease_owner) result" where
  "parseOwner value =
     (case split_on (CHR '':'') value of
        [host, sessionId] \<Rightarrow>
          if \<not> owner_part host \<or> \<not> owner_part sessionId then Inl Invalid_input
          else Inr \<lparr> ow_host = host, ow_sessionId = sessionId, ow_value = value \<rparr>
      | _ \<Rightarrow> Inl Invalid_input)"

definition validateTtl :: "int \<Rightarrow> (lease_policy_error, int) result" where
  "validateTtl ttlMs =
     (if \<not> isSafeInteger ttlMs \<or> ttlMs < MIN_LEASE_TTL_MS \<or> ttlMs > MAX_LEASE_TTL_MS
      then Inl Invalid_input else Inr ttlMs)"

definition classifyLeaseTime :: "int option \<Rightarrow> int option \<Rightarrow> (lease_policy_error, lease_time) result" where
  "classifyLeaseTime now expiresAt =
     (case (now, expiresAt) of
        (Some current, Some expiry) \<Rightarrow>
          Inr (if current < expiry then Writable
               else if current < expiry + LEASE_SKEW_MS then Skew else Takeover_eligible)
      | _ \<Rightarrow> Inl Invalid_input)"

section \<open>Distinct resources have distinct files\<close>

lemma join_bits:
  fixes a b :: int
  assumes "0 \<le> b" "b < 2 ^ n"
  shows "push_bit n a OR b = a * 2 ^ n + b"
proof -
  have "concat_bit n b a = b OR push_bit n a" using assms by (simp add: concat_bit_def take_bit_int_eq_self)
  moreover have "concat_bit n b a = b + push_bit n a" using assms by (simp add: concat_bit_eq take_bit_int_eq_self)
  ultimately show ?thesis by (simp add: or.commute push_bit_eq_mult)
qed

lemma low_bits: "(a :: int) AND 3 = a mod 4" "a AND 15 = a mod 16" "a AND 63 = a mod 64"
  using take_bit_eq_mask [of 2 a] take_bit_eq_mask [of 4 a] take_bit_eq_mask [of 6 a]
  by (simp_all add: take_bit_eq_mod mask_eq_exp_minus_1)

lemma char_code_range [simp]: "0 \<le> char_code c" "char_code c < 256"
  using code_unit_less [of c] by (simp_all add: char_code_def)

lemma char_code_inject: "char_code c = char_code d \<longleftrightarrow> c = d"
  by (simp add: char_code_def code_unit_eq_iff)

lemma base64_distinct: "distinct base64url" "length base64url = 64"
  by code_simp+

lemma base64_inject:
  assumes "base64_char m = base64_char n" "0 \<le> m" "m < 64" "0 \<le> n" "n < 64"
  shows "m = n"
  using assms nth_eq_iff_index_eq [OF base64_distinct(1), of "nat m" "nat n"]
  by (simp add: base64_char_def base64_distinct(2) nat_less_iff)

lemma sixes:
  assumes "0 \<le> (a :: int)" "a < 256" "0 \<le> b" "b < 256"
  shows "drop_bit 2 a = a div 4" "push_bit 4 (a AND 3) OR drop_bit 4 b = a mod 4 * 16 + b div 16"
    "push_bit 2 (a AND 15) OR drop_bit 6 b = a mod 16 * 4 + b div 64"
proof -
  show "drop_bit 2 a = a div 4" by (simp add: drop_bit_eq_div)
  have "0 \<le> b div 16 \<and> b div 16 < 16" "0 \<le> b div 64 \<and> b div 64 < 4" using assms by auto
  then show "push_bit 4 (a AND 3) OR drop_bit 4 b = a mod 4 * 16 + b div 16"
    "push_bit 2 (a AND 15) OR drop_bit 6 b = a mod 16 * 4 + b div 64"
    using join_bits [of "b div 16" 4 "a mod 4"] join_bits [of "b div 64" 2 "a mod 16"]
    by (simp_all add: drop_bit_eq_div low_bits)
qed

lemma six_ranges:
  assumes "0 \<le> (a :: int)" "a < 256" "0 \<le> b" "b < 256"
  shows "0 \<le> a div 4" "a div 4 < 64" "0 \<le> a mod 4 * 16 + b div 16" "a mod 4 * 16 + b div 16 < 64"
    "0 \<le> a mod 16 * 4 + b div 64" "a mod 16 * 4 + b div 64 < 64"
  using assms by presburger+

lemma scaled_unique:
  fixes m n c d k :: int
  assumes "m * k + c = n * k + d" "0 \<le> c" "c < k" "0 \<le> d" "d < k"
  shows "m = n \<and> c = d"
proof -
  have "(m * k + c) div k = m + c div k" "(n * k + d) div k = n + d div k"
    using assms(2,3) by (simp_all add: add.commute)
  moreover have "c div k = 0" "d div k = 0" using assms(2-5) by (simp_all add: div_pos_pos_trivial)
  ultimately have "m = n" using assms(1) by simp
  with assms(1) show ?thesis by simp
qed

lemma four_ranges [simp]: "0 \<le> char_code c div 4" "char_code c div 4 < 64"
  using six_ranges(1,2) [OF char_code_range, of 0 c] by simp_all

lemma first_code:
  assumes "base64_char (drop_bit 2 (char_code a)) = base64_char (drop_bit 2 (char_code x))"
    and "base64_char (push_bit 4 (char_code a AND 3) OR drop_bit 4 b) = base64_char (push_bit 4 (char_code x AND 3) OR drop_bit 4 y)"
    and "0 \<le> b" "b < 256" "0 \<le> y" "y < 256"
  shows "a = x \<and> b div 16 = y div 16"
proof -
  let ?a = "char_code a" and ?x = "char_code x"
  have "?a div 4 = ?x div 4"
    by (rule base64_inject [OF assms(1) [unfolded sixes(1) [OF char_code_range assms(3,4)]]]) simp_all
  moreover have "?a mod 4 * 16 + b div 16 = ?x mod 4 * 16 + y div 16"
    by (rule base64_inject [OF assms(2) [unfolded sixes(2) [OF char_code_range assms(3,4)]
      sixes(2) [OF char_code_range assms(5,6)]]]) (rule six_ranges [OF char_code_range]; fact assms)+
  moreover have "b div 16 < 16" "y div 16 < 16" "0 \<le> b div 16" "0 \<le> y div 16" using assms by auto
  ultimately have "?a div 4 = ?x div 4 \<and> ?a mod 4 = ?x mod 4 \<and> b div 16 = y div 16" using scaled_unique by metis
  then show ?thesis by (metis char_code_inject div_mult_mod_eq)
qed

lemma second_code:
  assumes "base64_char (push_bit 2 (char_code b AND 15) OR drop_bit 6 c) = base64_char (push_bit 2 (char_code y AND 15) OR drop_bit 6 z)"
    and "char_code b div 16 = char_code y div 16" "0 \<le> c" "c < 256" "0 \<le> z" "z < 256"
  shows "b = y \<and> c div 64 = z div 64"
proof -
  let ?b = "char_code b" and ?y = "char_code y"
  have "?b mod 16 * 4 + c div 64 = ?y mod 16 * 4 + z div 64"
    by (rule base64_inject [OF assms(1) [unfolded sixes(3) [OF char_code_range assms(3,4)]
      sixes(3) [OF char_code_range assms(5,6)]]]) (rule six_ranges [OF char_code_range]; fact assms)+
  moreover have "c div 64 < 4" "z div 64 < 4" "0 \<le> c div 64" "0 \<le> z div 64" using assms by auto
  ultimately have "?b mod 16 = ?y mod 16 \<and> c div 64 = z div 64" using scaled_unique by metis
  with assms(2) show ?thesis by (metis char_code_inject div_mult_mod_eq)
qed

lemma third_code:
  assumes "base64_char (char_code c AND 63) = base64_char (char_code z AND 63)" "char_code c div 64 = char_code z div 64"
  shows "c = z"
proof -
  have "char_code c mod 64 = char_code z mod 64"
    using assms(1) base64_inject [of "char_code c mod 64" "char_code z mod 64"] by (simp add: low_bits)
  with assms(2) have "char_code c = char_code z" by (metis div_mult_mod_eq)
  then show ?thesis by (simp add: char_code_inject)
qed

lemma encodeRunId_length: "4 * length s \<le> 3 * length (encodeRunId s)"
  by (induction s rule: encodeRunId.induct) auto

lemma encodeRunId_inject: "encodeRunId s = encodeRunId t \<Longrightarrow> s = t"
proof (induction s arbitrary: t rule: encodeRunId.induct)
  case 1
  then show ?case by (cases t rule: encodeRunId.cases) auto
next
  case (2 a)
  then show ?case
  proof (cases t rule: encodeRunId.cases)
    case (2 x)
    with "2.prems" first_code [of a x 0 0] show ?thesis by simp
  qed auto
next
  case (3 a b)
  then show ?case
  proof (cases t rule: encodeRunId.cases)
    case (3 x y)
    with "3.prems" first_code [of a x "char_code b" "char_code y"] second_code [of b 0 y 0] show ?thesis by simp
  qed auto
next
  case (4 a b c r)
  then show ?case
  proof (cases t rule: encodeRunId.cases)
    case (4 x y z q)
    with "4.prems" first_code [of a x "char_code b" "char_code y"] second_code [of b "char_code c" y "char_code z"]
      third_code [of c z] "4.IH" [of q]
    show ?thesis by simp
  qed auto
qed

lemma lockPaths_Inr: "lockPaths input = Inr p \<longleftrightarrow> (\<exists>root. lock_root input = Some root \<and>
    p = \<lparr> lp_root = root, lp_lease = root @ ''/lease.json'', lp_events = root @ ''/events.jsonl'',
      lp_claim = root @ ''/claim'', lp_claimRecord = root @ ''/claim/claim.json'',
      lp_admissionClaim = ''.brain/locks/.admission/claim'', lp_admissionRecord = ''.brain/locks/.admission/claim/claim.json'' \<rparr>)"
  by (auto simp: lockPaths_def split: option.splits)

lemma lock_root_inject:
  assumes "lock_root r = Some d" "lock_root s = Some d"
  shows "r = s"
proof -
  have "''run:'' @ drop 4 t = t" if "starts_with ''run:'' t" for t
    using that by (auto simp: starts_with_iff)
  with assms show ?thesis by (auto simp: lock_root_def dest!: encodeRunId_inject split: if_splits) metis
qed

text \<open>Resources with a lock file in common are the same resource.\<close>

lemma lockPaths_inject:
  "lockPaths r = Inr p \<Longrightarrow> lockPaths s = Inr q \<Longrightarrow> lp_root p = lp_root q \<or> lp_lease p = lp_lease q \<or>
     lp_events p = lp_events q \<or> lp_claim p = lp_claim q \<Longrightarrow> r = s"
  by (auto simp: lockPaths_Inr lock_root_inject)

text \<open>
  An identifier of more than 96 characters is encoded into more than the 128 characters that
  the guard of a managed transaction (\<open>lockScope\<close> in \<open>composition/transactions.ts\<close>) admits.
\<close>

lemma encoded_too_long: "96 < length s \<Longrightarrow> 128 < length (encodeRunId s)"
  using encodeRunId_length [of s] by linarith

end
