(* ===== verification/Lease_Policy.thy ===== *)
theory Lease_Policy
  imports Lease_Scope Event_Chain
begin

text \<open>
  The lease policy (\<open>domain/locks/policy.ts\<close>): what an acquisition, a renewal, a release and
  a takeover decide for the current lease of a resource, and what every history of such
  decisions guarantees: fencing tokens order the epochs, and an epoch ends before the next
  one begins.
\<close>

section \<open>Leases\<close>

text \<open>\<open>LockLeaseV1\<close>; its two contract versions are constants.\<close>

record lease =
  le_resource :: string
  le_owner :: string
  le_leaseId :: string
  le_acquiredAt :: string
  le_expiresAt :: string
  le_fencingToken :: int
  le_stateRevision :: int

text \<open>\<open>ExpectedLeaseIdentity\<close>\<close>

record lease_identity =
  li_resource :: string
  li_owner :: string
  li_leaseId :: string
  li_fencingToken :: int
  li_stateRevision :: int

record policy_binding =
  lb_action :: lock_action
  lb_lease :: lease

datatype lease_decision =
    Decided_transition lock_action lease
  | Decided_conflict
  | Decided_takeover_required

type_synonym decision_result = "(lease_policy_error, lease_decision) result"

section \<open>Checks\<close>

definition validNow :: "int option \<Rightarrow> (lease_policy_error, string) result" where
  "validNow now =
     (case now of
        None \<Rightarrow> Inl Invalid_input
      | Some time \<Rightarrow>
          (case iso_text time of
             None \<Rightarrow> Inl Invalid_input
           | Some timestamp \<Rightarrow> if \<not> timestamp_test timestamp then Inl Invalid_input else Inr timestamp))"

definition validateLeaseId :: "string \<Rightarrow> (lease_policy_error, lock_paths) result" where
  "validateLeaseId leaseId = lockPaths (''run:'' @ leaseId)"

definition validRevision :: "int \<Rightarrow> (lease_policy_error, int) result" where
  "validRevision value = (if \<not> isSafeInteger value \<or> value < 0 then Inl Invalid_input else Inr value)"

definition exactIdentity :: "lease \<Rightarrow> lease_identity \<Rightarrow> bool" where
  "exactIdentity lease expected \<longleftrightarrow>
     le_resource lease = li_resource expected \<and> le_owner lease = li_owner expected \<and>
     le_leaseId lease = li_leaseId expected \<and> le_fencingToken lease = li_fencingToken expected \<and>
     le_stateRevision lease = li_stateRevision expected"

definition nextExpiry :: "int option \<Rightarrow> int \<Rightarrow> (lease_policy_error, string) result" where
  "nextExpiry now ttlMs = bind_result (validateTtl ttlMs) (\<lambda>ttl. validNow (map_option (\<lambda>time. time + ttl) now))"

definition nextFencingToken :: "int \<Rightarrow> (lease_policy_error, int) result" where
  "nextFencingToken token =
     (if \<not> isSafeInteger token \<or> token \<ge> MAX_SAFE_INTEGER then Inl Invalid_transition else Inr (token + 1))"

text \<open>The date of a lease's expiry; the lease is one of the contract's, so its timestamp is valid.\<close>

definition currentState :: "policy_binding \<Rightarrow> int option \<Rightarrow> (lease_policy_error, lease_time) result" where
  "currentState current now = classifyLeaseTime now (Some (parse_time (le_expiresAt (lb_lease current))))"

section \<open>Decisions\<close>

definition decideAcquire ::
  "int option \<Rightarrow> policy_binding option \<Rightarrow> int \<Rightarrow> string \<Rightarrow> string \<Rightarrow> string \<Rightarrow> int \<Rightarrow> decision_result" where
  "decideAcquire now current revision resource owner leaseId ttlMs =
     bind_result (validNow now) (\<lambda>acquiredAt.
     bind_result (validRevision revision) (\<lambda>stateRevision.
     bind_result (lockPaths resource) (\<lambda>_.
     bind_result (parseOwner owner) (\<lambda>_.
     bind_result (validateLeaseId leaseId) (\<lambda>_.
     bind_result (validateTtl ttlMs) (\<lambda>_.
       case current of
         Some binding \<Rightarrow>
           if lb_action binding = Release then
             if le_resource (lb_lease binding) \<noteq> resource then Inl Invalid_transition
             else bind_result (nextExpiry now ttlMs) (\<lambda>expiresAt.
               bind_result (nextFencingToken (le_fencingToken (lb_lease binding))) (\<lambda>fencingToken.
                 Inr (Decided_transition Acquire (lb_lease binding \<lparr> le_owner := owner, le_leaseId := leaseId,
                   le_acquiredAt := acquiredAt, le_expiresAt := expiresAt, le_fencingToken := fencingToken,
                   le_stateRevision := stateRevision \<rparr>))))
           else bind_result (currentState binding now) (\<lambda>state.
             Inr (if state = Takeover_eligible then Decided_takeover_required else Decided_conflict))
       | None \<Rightarrow> bind_result (nextExpiry now ttlMs) (\<lambda>expiresAt.
           Inr (Decided_transition Acquire \<lparr> le_resource = resource, le_owner = owner, le_leaseId = leaseId,
             le_acquiredAt = acquiredAt, le_expiresAt = expiresAt, le_fencingToken = 1,
             le_stateRevision = stateRevision \<rparr>))))))))"

text \<open>The guards the three decisions on a held lease share: its identity, its epoch, its time.\<close>

definition held_lease ::
  "policy_binding \<Rightarrow> lease_identity \<Rightarrow> int option \<Rightarrow> lease_time \<Rightarrow> decision_result \<Rightarrow> decision_result" where
  "held_lease current expected now wanted decision =
     (if \<not> exactIdentity (lb_lease current) expected then Inr Decided_conflict
      else if lb_action current \<noteq> Acquire \<and> lb_action current \<noteq> Renew \<and> lb_action current \<noteq> Takeover
      then Inr Decided_conflict
      else bind_result (currentState current now) (\<lambda>state.
        if state \<noteq> wanted then Inr Decided_conflict else decision))"

definition decideRenew :: "int option \<Rightarrow> policy_binding \<Rightarrow> int \<Rightarrow> lease_identity \<Rightarrow> int \<Rightarrow> decision_result" where
  "decideRenew now current revision expected ttlMs =
     bind_result (validNow now) (\<lambda>_.
     bind_result (validRevision revision) (\<lambda>stateRevision.
       held_lease current expected now Writable
         (bind_result (nextExpiry now ttlMs) (\<lambda>expiresAt.
           Inr (Decided_transition Renew (lb_lease current \<lparr> le_expiresAt := expiresAt,
             le_stateRevision := stateRevision \<rparr>))))))"

definition decideRelease :: "int option \<Rightarrow> policy_binding \<Rightarrow> int \<Rightarrow> lease_identity \<Rightarrow> decision_result" where
  "decideRelease now current revision expected =
     bind_result (validNow now) (\<lambda>releasedAt.
     bind_result (validRevision revision) (\<lambda>stateRevision.
       held_lease current expected now Writable
         (Inr (Decided_transition Release (lb_lease current \<lparr> le_expiresAt := releasedAt,
           le_stateRevision := stateRevision \<rparr>)))))"

definition decideTakeover ::
  "int option \<Rightarrow> policy_binding \<Rightarrow> int \<Rightarrow> lease_identity \<Rightarrow> string \<Rightarrow> string \<Rightarrow> int \<Rightarrow> decision_result" where
  "decideTakeover now current revision expected owner leaseId ttlMs =
     bind_result (validNow now) (\<lambda>acquiredAt.
     bind_result (validRevision revision) (\<lambda>stateRevision.
     bind_result (parseOwner owner) (\<lambda>_.
     bind_result (validateLeaseId leaseId) (\<lambda>_.
     bind_result (validateTtl ttlMs) (\<lambda>_.
       held_lease current expected now Takeover_eligible
         (bind_result (nextExpiry now ttlMs) (\<lambda>expiresAt.
          bind_result (nextFencingToken (le_fencingToken (lb_lease current))) (\<lambda>fencingToken.
           Inr (Decided_transition Takeover (lb_lease current \<lparr> le_owner := owner, le_leaseId := leaseId,
             le_acquiredAt := acquiredAt, le_expiresAt := expiresAt, le_fencingToken := fencingToken,
             le_stateRevision := stateRevision \<rparr>))))))))))"

section \<open>One decision\<close>

text \<open>A decision of the policy at time \<open>now\<close> that moves the lease of a resource on.\<close>

inductive lease_step :: "policy_binding option \<Rightarrow> int \<Rightarrow> lock_action \<Rightarrow> lease \<Rightarrow> bool" where
  acquire: "decideAcquire (Some now) current revision resource owner leaseId ttl = Inr (Decided_transition a l) \<Longrightarrow>
    lease_step current now a l"
| renew: "decideRenew (Some now) b revision expected ttl = Inr (Decided_transition a l) \<Longrightarrow> lease_step (Some b) now a l"
| release: "decideRelease (Some now) b revision expected = Inr (Decided_transition a l) \<Longrightarrow> lease_step (Some b) now a l"
| takeover: "decideTakeover (Some now) b revision expected owner leaseId ttl = Inr (Decided_transition a l) \<Longrightarrow>
    lease_step (Some b) now a l"

lemma validNow_Inr: "validNow now = Inr s \<longleftrightarrow> (\<exists>t. now = Some t \<and> iso_text t = Some s)"
  using iso_text_reads by (fastforce simp: validNow_def split: option.splits)

lemma validateTtl_Inr [simp]:
  "validateTtl ttl = Inr t \<longleftrightarrow> t = ttl \<and> MIN_LEASE_TTL_MS \<le> ttl \<and> ttl \<le> MAX_LEASE_TTL_MS"
  by (auto simp: validateTtl_def MIN_LEASE_TTL_MS_def MAX_LEASE_TTL_MS_def safe_integer_defs)

lemma nextExpiry_Inr: "nextExpiry now ttl = Inr s \<longleftrightarrow>
    MIN_LEASE_TTL_MS \<le> ttl \<and> ttl \<le> MAX_LEASE_TTL_MS \<and> (\<exists>t. now = Some t \<and> iso_text (t + ttl) = Some s)"
  by (auto simp: nextExpiry_def validNow_Inr)

lemma nextFencingToken_Inr [simp]:
  "nextFencingToken t = Inr n \<longleftrightarrow> n = t + 1 \<and> - MAX_SAFE_INTEGER \<le> t \<and> t < MAX_SAFE_INTEGER"
  by (auto simp: nextFencingToken_def isSafeInteger_def)

lemma validRevision_Inr [simp]: "validRevision v = Inr r \<longleftrightarrow> r = v \<and> 0 \<le> v \<and> v \<le> MAX_SAFE_INTEGER"
  by (auto simp: validRevision_def safe_integer_defs)

lemma currentState_Some [simp]: "currentState b (Some t) = Inr s \<longleftrightarrow>
    s = (if t < parse_time (le_expiresAt (lb_lease b)) then Writable
         else if t < parse_time (le_expiresAt (lb_lease b)) + LEASE_SKEW_MS then Skew else Takeover_eligible)"
  by (auto simp: currentState_def classifyLeaseTime_def)

lemma held_transition [simp]:
  "held_lease b expected now wanted d = Inr (Decided_transition a l) \<longleftrightarrow>
     exactIdentity (lb_lease b) expected \<and> lb_action b \<noteq> Release \<and> currentState b now = Inr wanted \<and>
     d = Inr (Decided_transition a l)"
  by (cases "lb_action b") (auto simp: held_lease_def split: if_splits)

text \<open>What any decision does: the two that open an epoch, and the two that stay in one.\<close>

definition prior_token :: "policy_binding option \<Rightarrow> int" where
  "prior_token current = (case current of None \<Rightarrow> 0 | Some b \<Rightarrow> le_fencingToken (lb_lease b))"

definition epoch_action :: "lock_action \<Rightarrow> bool" where
  "epoch_action a \<longleftrightarrow> a = Acquire \<or> a = Takeover"

definition opens_epoch :: "policy_binding option \<Rightarrow> int \<Rightarrow> lock_action \<Rightarrow> lease \<Rightarrow> bool" where
  "opens_epoch current now a l \<longleftrightarrow>
     epoch_action a \<and> iso_text now = Some (le_acquiredAt l) \<and> le_fencingToken l = prior_token current + 1 \<and>
     is_ok (parseOwner (le_owner l)) \<and> is_ok (validateLeaseId (le_leaseId l)) \<and>
     (\<exists>ttl \<ge> MIN_LEASE_TTL_MS. ttl \<le> MAX_LEASE_TTL_MS \<and> iso_text (now + ttl) = Some (le_expiresAt l)) \<and>
     (case current of None \<Rightarrow> a = Acquire \<and> is_ok (lockPaths (le_resource l))
      | Some b \<Rightarrow> le_resource l = le_resource (lb_lease b) \<and> le_fencingToken (lb_lease b) < MAX_SAFE_INTEGER \<and>
          (if a = Acquire then lb_action b = Release
           else lb_action b \<noteq> Release \<and> parse_time (le_expiresAt (lb_lease b)) + LEASE_SKEW_MS \<le> now)) \<and>
     0 \<le> le_stateRevision l \<and> le_stateRevision l \<le> MAX_SAFE_INTEGER"

definition stays_in_epoch :: "policy_binding \<Rightarrow> int \<Rightarrow> lock_action \<Rightarrow> lease \<Rightarrow> bool" where
  "stays_in_epoch b now a l \<longleftrightarrow>
     \<not> epoch_action a \<and> lb_action b \<noteq> Release \<and> now < parse_time (le_expiresAt (lb_lease b)) \<and>
     (\<exists>e r. l = lb_lease b \<lparr> le_expiresAt := e, le_stateRevision := r \<rparr> \<and> 0 \<le> r \<and> r \<le> MAX_SAFE_INTEGER \<and>
       (if a = Release then iso_text now = Some e
        else \<exists>ttl \<ge> MIN_LEASE_TTL_MS. ttl \<le> MAX_LEASE_TTL_MS \<and> iso_text (now + ttl) = Some e))"

lemmas epoch_defs = opens_epoch_def stays_in_epoch_def epoch_action_def prior_token_def

lemma lease_step_cases:
  assumes "lease_step current now a l"
  shows "opens_epoch current now a l \<or> (\<exists>b. current = Some b \<and> stays_in_epoch b now a l)"
  using assms
proof cases
  case acquire
  then show ?thesis
    by (cases current) (auto simp: decideAcquire_def validNow_Inr nextExpiry_Inr epoch_defs split: if_splits)
next
  case renew
  then show ?thesis
    by (auto simp: decideRenew_def validNow_Inr nextExpiry_Inr epoch_defs split: if_splits)
next
  case release
  then show ?thesis
    by (auto simp: decideRelease_def validNow_Inr epoch_defs split: if_splits)
next
  case takeover
  then show ?thesis
    by (auto simp: decideTakeover_def validNow_Inr nextExpiry_Inr epoch_defs LEASE_SKEW_MS_def split: if_splits)
qed

section \<open>Histories\<close>

text \<open>The decisions taken for one resource, the oldest first, with the clock readings they were taken at.\<close>

definition current_of :: "(int \<times> policy_binding) list \<Rightarrow> policy_binding option" where
  "current_of h = (if h = [] then None else Some (snd (last h)))"

inductive lease_history :: "(int \<times> policy_binding) list \<Rightarrow> bool" where
  start: "lease_history []"
| decide: "lease_history h \<Longrightarrow> lease_step (current_of h) now a l \<Longrightarrow>
    lease_history (h @ [(now, \<lparr> lb_action = a, lb_lease = l \<rparr>)])"

definition history_lease :: "(int \<times> policy_binding) list \<Rightarrow> nat \<Rightarrow> lease" where
  "history_lease h i = lb_lease (snd (h ! i))"

text \<open>The schema of \<open>schemas/state/lock.v1.schema.json\<close> and the two checks beyond it.\<close>

definition valid_lease :: "lease \<Rightarrow> bool" where
  "valid_lease l \<longleftrightarrow> id_test (le_resource l) \<and> id_test (le_owner l) \<and> id_test (le_leaseId l) \<and>
     timestamp_test (le_acquiredAt l) \<and> timestamp_test (le_expiresAt l) \<and>
     0 \<le> le_fencingToken l \<and> le_fencingToken l \<le> MAX_SAFE_INTEGER \<and>
     0 \<le> le_stateRevision l \<and> le_stateRevision l \<le> MAX_SAFE_INTEGER \<and>
     is_ok (lockPaths (le_resource l)) \<and> is_ok (parseOwner (le_owner l))"

lemma owner_is_id:
  assumes "is_ok (parseOwner s)"
  shows "id_test s"
proof -
  from assms obtain host session where p: "split_on (CHR '':'') s = [host, session]" "owner_part host" "owner_part session"
    by (auto simp: parseOwner_def is_ok_def split: list.splits if_splits)
  have s: "s = host @ CHR '':'' # session" using join_split_on [of "CHR '':''" s] p(1) by simp
  obtain c cs d ds where "host = c # cs" "session = d # ds" using p by (cases host; cases session) auto
  with p s show ?thesis by (auto simp: is_id_char_def list_all_iff)
qed

lemma lease_id_ok: "is_ok (validateLeaseId s) \<Longrightarrow> id_test s"
  by (auto simp: validateLeaseId_def lockPaths_def lock_root_def is_ok_def split: option.splits if_splits)

lemma resource_is_id:
  assumes "is_ok (lockPaths s)" "length s \<le> 128"
  shows "id_test s"
proof (cases "s = ''project''")
  case True
  then show ?thesis by (simp add: is_id_char_def is_alnum_def is_lower_def code_unit_def)
next
  case False
  with assms obtain r where r: "s = ''run:'' @ r" "id_test r"
    by (auto simp: lockPaths_def lock_root_def is_ok_def starts_with_iff split: option.splits if_splits)
  then show ?thesis using assms(2)
    by (cases r) (auto simp: is_id_char_def is_alnum_def is_lower_def code_unit_def list_all_iff)
qed

lemma step_keeps_valid:
  assumes step: "lease_step current now a l" and b: "case current of None \<Rightarrow> True | Some b \<Rightarrow> valid_lease (lb_lease b)"
    and short: "length (le_resource l) \<le> 128"
  shows "valid_lease l"
  using lease_step_cases [OF step]
proof (elim disjE exE conjE)
  fix c assume "current = Some c" "stays_in_epoch c now a l"
  with b show ?thesis by (auto simp: valid_lease_def iso_text_reads stays_in_epoch_def split: if_splits)
next
  assume "opens_epoch current now a l"
  with b short show ?thesis
    by (auto simp: valid_lease_def iso_text_reads owner_is_id lease_id_ok resource_is_id opens_epoch_def prior_token_def
        MAX_SAFE_INTEGER_def split: option.splits)
qed

lemma history_snoc:
  assumes "lease_history (h @ [(now, b)])"
  shows "lease_history h \<and> lease_step (current_of h) now (lb_action b) (lb_lease b)"
  using assms by (cases rule: lease_history.cases) auto

text \<open>The bounds and the resource every binding of a history has.\<close>

lemma step_same_resource: "lease_step (Some b) now a l \<Longrightarrow> le_resource l = le_resource (lb_lease b)"
  using lease_step_cases by (fastforce simp: epoch_defs)

lemma step_token:
  assumes "lease_step current now a l"
  shows "le_fencingToken l = prior_token current + (if epoch_action a then 1 else 0)"
  using lease_step_cases [OF assms] by (auto simp: epoch_defs)

lemma step_token_bound:
  assumes "lease_step current now a l" "prior_token current \<le> MAX_SAFE_INTEGER"
  shows "le_fencingToken l \<le> MAX_SAFE_INTEGER"
  using lease_step_cases [OF assms(1)] assms(2)
  by (auto simp: epoch_defs MAX_SAFE_INTEGER_def split: option.splits)

lemma step_first: "lease_step None now a l \<Longrightarrow> epoch_action a"
  using lease_step_cases by (fastforce simp: epoch_defs)

lemma step_same_epoch:
  assumes "lease_step (Some b) now a l" "\<not> epoch_action a"
  shows "le_owner l = le_owner (lb_lease b) \<and> le_leaseId l = le_leaseId (lb_lease b) \<and>
    le_acquiredAt l = le_acquiredAt (lb_lease b)"
  using lease_step_cases [OF assms(1)] assms(2) by (auto simp: opens_epoch_def stays_in_epoch_def)

lemma history_induct [consumes 1, case_names start decide]:
  assumes "lease_history h" "P []"
    and "\<And>h now b. lease_history h \<Longrightarrow> P h \<Longrightarrow> lease_step (current_of h) now (lb_action b) (lb_lease b) \<Longrightarrow> P (h @ [(now, b)])"
  shows "P h"
  using assms(1) by induction (use assms(2,3) in force)+

lemma history_nth:
  assumes "lease_history h" "i < length h"
  shows "lease_step (current_of (take i h)) (fst (h ! i)) (lb_action (snd (h ! i))) (history_lease h i)"
  using assms
proof (induction rule: history_induct)
  case (decide h now b)
  then show ?case
    by (cases "i < length h") (auto simp: history_lease_def nth_append less_Suc_eq)
qed simp

lemma current_take: "i < length h \<Longrightarrow> current_of (take i h) = (if i = 0 then None else Some (snd (h ! (i - 1))))"
  by (auto simp: current_of_def last_conv_nth)

lemma consecutive:
  assumes "lease_history h" "Suc i < length h"
  shows "lease_step (Some (snd (h ! i))) (fst (h ! Suc i)) (lb_action (snd (h ! Suc i))) (history_lease h (Suc i))"
  using history_nth [OF assms] assms(2) by (simp add: current_take)

lemma first_step:
  assumes "lease_history h" "0 < length h"
  shows "lease_step None (fst (h ! 0)) (lb_action (snd (h ! 0))) (history_lease h 0)"
  using history_nth [OF assms] by (simp add: current_of_def)

lemma epochs_ordered:
  assumes h: "lease_history h" and j: "j < length h"
  shows "i \<le> j \<Longrightarrow> le_fencingToken (history_lease h i) \<le> le_fencingToken (history_lease h j) \<and>
    le_resource (history_lease h i) = le_resource (history_lease h j) \<and>
    (le_fencingToken (history_lease h i) = le_fencingToken (history_lease h j) \<longrightarrow>
      le_owner (history_lease h i) = le_owner (history_lease h j) \<and>
      le_leaseId (history_lease h i) = le_leaseId (history_lease h j) \<and>
      le_acquiredAt (history_lease h i) = le_acquiredAt (history_lease h j))"
  using j
proof (induction j)
  case (Suc j)
  have s: "lease_step (Some (snd (h ! j))) (fst (h ! Suc j)) (lb_action (snd (h ! Suc j))) (history_lease h (Suc j))"
    by (rule consecutive [OF h Suc.prems(2)])
  show ?case
  proof (cases "i = Suc j")
    case False
    with Suc have IH: "le_fencingToken (history_lease h i) \<le> le_fencingToken (history_lease h j) \<and>
      le_resource (history_lease h i) = le_resource (history_lease h j) \<and>
      (le_fencingToken (history_lease h i) = le_fencingToken (history_lease h j) \<longrightarrow>
        le_owner (history_lease h i) = le_owner (history_lease h j) \<and>
        le_leaseId (history_lease h i) = le_leaseId (history_lease h j) \<and>
        le_acquiredAt (history_lease h i) = le_acquiredAt (history_lease h j))" by simp
    have "lb_lease (snd (h ! j)) = history_lease h j" by (simp add: history_lease_def)
    with IH step_token [OF s] step_same_resource [OF s] step_same_epoch [OF s] show ?thesis
      by (auto simp: prior_token_def split: if_splits)
  qed simp
qed simp

lemma token_range:
  assumes h: "lease_history h" and "j < length h"
  shows "1 \<le> le_fencingToken (history_lease h j) \<and> le_fencingToken (history_lease h j) \<le> MAX_SAFE_INTEGER"
  using assms(2)
proof (induction j)
  case 0
  then have s: "lease_step None (fst (h ! 0)) (lb_action (snd (h ! 0))) (history_lease h 0)" using first_step [OF h] by simp
  then show ?case using step_token [OF s] step_first [OF s] step_token_bound [OF s]
    by (simp add: prior_token_def MAX_SAFE_INTEGER_def)
next
  case (Suc j)
  have s: "lease_step (Some (snd (h ! j))) (fst (h ! Suc j)) (lb_action (snd (h ! Suc j))) (history_lease h (Suc j))"
    by (rule consecutive [OF h Suc.prems])
  have "prior_token (Some (snd (h ! j))) = le_fencingToken (history_lease h j)" by (simp add: prior_token_def history_lease_def)
  with Suc step_token [OF s] step_token_bound [OF s] show ?case by (auto split: if_splits)
qed

section \<open>Properties of leases\<close>

text \<open>
  C12: In every history of the decisions for one resource the fencing token never decreases,
  lies between 1 and the largest safe integer, and only bindings of one epoch share it: the
  same token means the same owner, the same lease and the same acquisition, so whoever held
  an earlier lease has a smaller token than the present holder.
\<close>

theorem fencing_tokens_order_epochs:
  assumes "lease_history h" "i \<le> j" "j < length h"
  shows "le_fencingToken (history_lease h i) \<le> le_fencingToken (history_lease h j) \<and>
    1 \<le> le_fencingToken (history_lease h i) \<and> le_fencingToken (history_lease h j) \<le> MAX_SAFE_INTEGER \<and>
    le_resource (history_lease h i) = le_resource (history_lease h j) \<and>
    (le_fencingToken (history_lease h i) = le_fencingToken (history_lease h j) \<longrightarrow>
      le_owner (history_lease h i) = le_owner (history_lease h j) \<and>
      le_leaseId (history_lease h i) = le_leaseId (history_lease h j) \<and>
      le_acquiredAt (history_lease h i) = le_acquiredAt (history_lease h j))"
  using epochs_ordered [OF assms(1,3,2)] token_range [OF assms(1), of i] token_range [OF assms(1), of j] assms(2,3) by simp

text \<open>
  C13: When one epoch of a history follows another, the earlier holder has released the
  lease, or every clock reading at which its lease still counted as writable lies more than
  the clock skew before the time the new lease was acquired at.
\<close>

theorem handover_waits_for_expiry:
  assumes "lease_history h" "Suc i < length h"
    and "le_fencingToken (history_lease h i) \<noteq> le_fencingToken (history_lease h (Suc i))"
    and "lb_action (snd (h ! i)) \<noteq> Release"
    and "classifyLeaseTime (Some reading) (Some (parse_time (le_expiresAt (history_lease h i)))) = Inr Writable"
  shows "reading + LEASE_SKEW_MS < parse_time (le_acquiredAt (history_lease h (Suc i)))"
proof -
  let ?b = "snd (h ! i)"
  have s: "lease_step (Some ?b) (fst (h ! Suc i)) (lb_action (snd (h ! Suc i))) (history_lease h (Suc i))"
    by (rule consecutive [OF assms(1,2)])
  have "le_fencingToken (lb_lease ?b) = le_fencingToken (history_lease h i)" by (simp add: history_lease_def)
  with s assms(3) have "opens_epoch (Some ?b) (fst (h ! Suc i)) (lb_action (snd (h ! Suc i))) (history_lease h (Suc i))"
    using lease_step_cases [OF s] by (auto simp: stays_in_epoch_def)
  moreover have "reading < parse_time (le_expiresAt (history_lease h i))"
    using assms(5) by (auto simp: classifyLeaseTime_def split: if_splits)
  ultimately show ?thesis using assms(4) iso_text_reads
    by (fastforce simp: opens_epoch_def history_lease_def split: if_splits)
qed

text \<open>
  C16: Every lease in a history of a resource with a name of at most 128 characters has the
  form the schema of leases demands, names a resource with lock paths, and an owner that
  parses.
\<close>

theorem leases_stay_well_formed:
  assumes "lease_history h" "i < length h" "length (le_resource (history_lease h i)) \<le> 128"
  shows "valid_lease (history_lease h i)"
  using assms(2,3)
proof (induction i)
  case 0
  then show ?case using step_keeps_valid [OF first_step [OF assms(1)]] by simp
next
  case (Suc i)
  have s: "lease_step (Some (snd (h ! i))) (fst (h ! Suc i)) (lb_action (snd (h ! Suc i))) (history_lease h (Suc i))"
    by (rule consecutive [OF assms(1) Suc.prems(1)])
  have "lb_lease (snd (h ! i)) = history_lease h i" by (simp add: history_lease_def)
  with step_keeps_valid [OF s] step_same_resource [OF s] Suc show ?case by simp
qed

text \<open>A lease taken for half a minute, left to expire, and taken over by another session.\<close>

definition sample_lease :: lease where
  "sample_lease = \<lparr> le_resource = ''run:r1'', le_owner = ''codex:s1'', le_leaseId = ''l1'',
     le_acquiredAt = ''2026-01-01T00:00:00.000Z'', le_expiresAt = ''2026-01-01T00:00:30.000Z'',
     le_fencingToken = 1, le_stateRevision = 0 \<rparr>"

definition sample_takeover :: lease where
  "sample_takeover = \<lparr> le_resource = ''run:r1'', le_owner = ''claude:s2'', le_leaseId = ''l2'',
     le_acquiredAt = ''2026-01-01T00:00:35.000Z'', le_expiresAt = ''2026-01-01T00:01:05.000Z'',
     le_fencingToken = 2, le_stateRevision = 3 \<rparr>"

definition sample_identity :: lease_identity where
  "sample_identity = \<lparr> li_resource = ''run:r1'', li_owner = ''codex:s1'', li_leaseId = ''l1'', li_fencingToken = 1,
     li_stateRevision = 0 \<rparr>"

definition sample_history :: "(int \<times> policy_binding) list" where
  "sample_history = [(1767225600000, \<lparr> lb_action = Acquire, lb_lease = sample_lease \<rparr>),
     (1767225635000, \<lparr> lb_action = Takeover, lb_lease = sample_takeover \<rparr>)]"

lemma sample_acquired: "decideAcquire (Some 1767225600000) None 0 ''run:r1'' ''codex:s1'' ''l1'' 30000 =
    Inr (Decided_transition Acquire sample_lease)"
  by code_simp

lemma sample_taken_over: "decideTakeover (Some 1767225635000) \<lparr> lb_action = Acquire, lb_lease = sample_lease \<rparr> 3
    sample_identity ''claude:s2'' ''l2'' 30000 = Inr (Decided_transition Takeover sample_takeover)"
  by code_simp

lemma sample_history_ok: "lease_history sample_history"
proof -
  have "lease_history ([] @ [(1767225600000, \<lparr> lb_action = Acquire, lb_lease = sample_lease \<rparr>)])"
    by (rule lease_history.decide [OF lease_history.start]) (simp add: current_of_def lease_step.acquire [OF sample_acquired])
  from lease_history.decide [OF this, of 1767225635000 Takeover sample_takeover] show ?thesis
    by (simp add: current_of_def sample_history_def lease_step.takeover [OF sample_taken_over])
qed

lemma sample_bindings [simp]:
  "length sample_history = 2" "history_lease sample_history 0 = sample_lease"
  "history_lease sample_history (Suc 0) = sample_takeover" "lb_action (snd (sample_history ! 0)) = Acquire"
  by (simp_all add: sample_history_def history_lease_def)

theorem fencing_tokens_order_epochs_witness:
  "le_fencingToken sample_lease \<le> le_fencingToken sample_takeover"
  using fencing_tokens_order_epochs [OF sample_history_ok, of 0 "Suc 0"] by simp

theorem handover_waits_for_expiry_witness:
  "1767225629999 + LEASE_SKEW_MS < parse_time (le_acquiredAt sample_takeover)"
proof -
  have t: "le_fencingToken sample_lease \<noteq> le_fencingToken sample_takeover" by (simp add: sample_lease_def sample_takeover_def)
  have w: "classifyLeaseTime (Some 1767225629999) (Some (parse_time (le_expiresAt sample_lease))) = Inr Writable" by code_simp
  show ?thesis using handover_waits_for_expiry [OF sample_history_ok, of 0 1767225629999] t w by simp
qed

theorem leases_stay_well_formed_witness: "valid_lease sample_takeover"
  using leases_stay_well_formed [OF sample_history_ok, of "Suc 0"] by (simp add: sample_takeover_def)

end
