(* ===== verification/Lease_Lifecycle.thy ===== *)
theory Lease_Lifecycle
  imports Lease_Policy
begin

text \<open>
  The recorded life of a lease (\<open>domain/locks/lifecycle.ts\<close>): the event log of a resource
  holds one event for every acquisition, renewal, release and takeover, whose operation names
  the fencing token and the digest of the lease file. Preparing a transition extends the log
  and gives the new lease text; verifying checks that both files belong together.
\<close>

section \<open>The lease document\<close>

definition lease_json :: "lease \<Rightarrow> json" where
  "lease_json l = JObj (contract_fields @
     [(''resource'', JStr (le_resource l)), (''owner'', JStr (le_owner l)), (''leaseId'', JStr (le_leaseId l)),
      (''acquiredAt'', JStr (le_acquiredAt l)), (''expiresAt'', JStr (le_expiresAt l)),
      (''fencingToken'', JNum (le_fencingToken l)), (''stateRevision'', JNum (le_stateRevision l))])"

definition lease_keys :: "string list" where
  "lease_keys = [''contractVersion'', ''stateContract'', ''resource'', ''owner'', ''leaseId'', ''acquiredAt'',
     ''expiresAt'', ''fencingToken'', ''stateRevision'']"

definition json_lease :: "json \<Rightarrow> lease option" where
  "json_lease j =
     (if \<not> has_keys lease_keys j \<or> \<not> contract_ok j then None
      else do {
        resource \<leftarrow> read_field json_string ''resource'' j;
        owner \<leftarrow> read_field json_string ''owner'' j;
        leaseId \<leftarrow> read_field json_string ''leaseId'' j;
        acquiredAt \<leftarrow> read_field json_string ''acquiredAt'' j;
        expiresAt \<leftarrow> read_field json_string ''expiresAt'' j;
        fencingToken \<leftarrow> read_field json_number ''fencingToken'' j;
        stateRevision \<leftarrow> read_field json_number ''stateRevision'' j;
        Some \<lparr> le_resource = resource, le_owner = owner, le_leaseId = leaseId, le_acquiredAt = acquiredAt,
          le_expiresAt = expiresAt, le_fencingToken = fencingToken, le_stateRevision = stateRevision \<rparr> })"

interpretation lease_codec: document_codec lease_json json_lease
  by unfold_locales
     (auto simp: lease_json_def json_lease_def lease_keys_def contract_fields_def reading simp del: normal.simps(2))

section \<open>Checks\<close>

datatype lease_integrity = Lease_integrity_failure

definition integrityFailure :: "(lease_integrity, 'a) result" where
  "integrityFailure = Inl Lease_integrity_failure"

text \<open>A value the validator calls valid is a lease of the contract's type.\<close>

definition validateLease :: "event_services \<Rightarrow> json \<Rightarrow> (lease_integrity, lease) result" where
  "validateLease sv value =
     (case es_validate sv ''state.lock'' (Some (JStr ''1.0.0'')) value of
        Some diagnostics \<Rightarrow> integrityFailure
      | None \<Rightarrow>
          (case json_lease value of
             None \<Rightarrow> integrityFailure
           | Some l \<Rightarrow> if is_ok (lockPaths (le_resource l)) \<and> is_ok (parseOwner (le_owner l)) then Inr l
               else integrityFailure))"

definition validateTokenTransition :: "lock_action \<Rightarrow> int \<Rightarrow> int \<Rightarrow> bool" where
  "validateTokenTransition action priorToken nextToken \<longleftrightarrow>
     (let expected = (if action = Acquire \<or> action = Takeover then priorToken + 1 else priorToken)
      in isSafeInteger priorToken \<and> isSafeInteger nextToken \<and> isSafeInteger expected \<and>
         0 \<le> priorToken \<and> 0 \<le> nextToken \<and> nextToken = expected)"

record lock_operation =
  lo_action :: lock_action
  lo_token :: int
  lo_digest :: string

definition parseLockOperation :: "string \<Rightarrow> (lease_integrity, lock_operation) result" where
  "parseLockOperation operation =
     (case lock_operation_match operation of
        None \<Rightarrow> integrityFailure
      | Some (action, tokenText, digest) \<Rightarrow>
          (let token = digits_int tokenText
           in if \<not> isSafeInteger token then integrityFailure
              else Inr \<lparr> lo_action = action, lo_token = token, lo_digest = digest \<rparr>))"

definition validateActionOrder :: "lock_action \<Rightarrow> lock_action option \<Rightarrow> bool" where
  "validateActionOrder action previous =
     (case previous of
        None \<Rightarrow> action = Acquire
      | Some p \<Rightarrow> if action = Acquire then p = Release else p = Acquire \<or> p = Renew \<or> p = Takeover)"

text \<open>One turn of the loop of \<open>validateLifecycleEvents\<close>: the previous action and token.\<close>

definition lifecycle_step ::
  "string \<Rightarrow> lock_action option \<times> int \<Rightarrow> event \<Rightarrow> (lease_integrity, lock_action option \<times> int) result" where
  "lifecycle_step leaseRef previous event =
     bind_result (parseLockOperation (ev_operation event)) (\<lambda>parsed.
       let fact = LOCK_EVENT_FACTS (lo_action parsed) in
       if \<not> validateActionOrder (lo_action parsed) (fst previous) then integrityFailure
       else if \<not> validateTokenTransition (lo_action parsed) (snd previous) (lo_token parsed) then integrityFailure
       else if ev_eventType event \<noteq> fp_eventType fact \<or> ev_policyVersion event \<noteq> ''locks-v1'' \<or>
          ev_reasonCode event \<noteq> fp_reasonCode fact \<or> ev_effect event \<noteq> fp_effect fact \<or>
          ev_artifactRefs event \<noteq> [leaseRef] \<or> ev_evidenceRefs event \<noteq> []
       then integrityFailure
       else Inr (Some (lo_action parsed), lo_token parsed))"

definition validateLifecycleEvents :: "event list \<Rightarrow> string \<Rightarrow> (lease_integrity, lock_action) result" where
  "validateLifecycleEvents events leaseRef =
     bind_result (replay_from (lifecycle_step leaseRef) (None, 0) events) (\<lambda>(finalAction, _).
       case finalAction of None \<Rightarrow> integrityFailure | Some a \<Rightarrow> Inr a)"

definition verifiedPrior :: "event_services \<Rightarrow> string \<Rightarrow> (lease_integrity, verified_stream) result" where
  "verifiedPrior sv text =
     (case verifyEventStream sv text of Inl _ \<Rightarrow> integrityFailure | Inr v \<Rightarrow> Inr v)"

section \<open>Preparing a transition\<close>

record lease_transition =
  tr_action :: lock_action
  tr_priorEvents :: string
  tr_lease :: lease
  tr_leaseRef :: string
  tr_eventId :: string
  tr_occurredAt :: string
  tr_observedIdentity :: event_identity

record prepared_lease =
  pl_event :: event
  pl_lease :: lease
  pl_leaseText :: string
  pl_eventsText :: string

record lock_binding = policy_binding +
  lb_event :: event
  lb_events :: "event list"

definition lock_operation_text :: "lock_action \<Rightarrow> int \<Rightarrow> string \<Rightarrow> string" where
  "lock_operation_text action token digest =
     ''lock.'' @ lock_action_text action @ ''.t'' @ int_text token @ ''.d'' @ digest"

definition transition_draft :: "lease_transition \<Rightarrow> lease \<Rightarrow> int \<Rightarrow> string \<Rightarrow> event_draft" where
  "transition_draft input lease revision digest =
     (let fact = LOCK_EVENT_FACTS (tr_action input) in
      \<lparr> ev_contractVersion = V1_2, ev_stateContract = V1_2, ev_eventId = tr_eventId input,
        ev_eventType = fp_eventType fact, ev_occurredAt = tr_occurredAt input,
        ev_operation = lock_operation_text (tr_action input) (le_fencingToken lease) digest,
        ev_policyVersion = ''locks-v1'', ev_priorRevision = revision, ev_resultingRevision = revision + 1,
        ev_reasonCode = fp_reasonCode fact, ev_effect = fp_effect fact, ev_artifactRefs = [tr_leaseRef input],
        ev_evidenceRefs = [], ev_observedIdentity = tr_observedIdentity input \<lparr> id_effort := None \<rparr>,
        ev_gateFailures = Some [], ev_resolvedAssignment = None, ev_runLimits = None, ev_acceptanceDecision = None,
        ev_repairResolution = None, ev_startedFromSpec = None \<rparr>)"

definition prior_checked :: "event list \<Rightarrow> string \<Rightarrow> (lease_integrity, lock_action option \<times> int) result" where
  "prior_checked events leaseRef =
     (if events = [] then Inr (None, 0)
      else bind_result (validateLifecycleEvents events leaseRef) (\<lambda>_.
        bind_result (parseLockOperation (ev_operation (last events))) (\<lambda>previous.
          Inr (Some (lo_action previous), lo_token previous))))"

definition prepareLeaseTransition ::
  "event_services \<Rightarrow> lease_transition \<Rightarrow> (lease_integrity, prepared_lease) result" where
  "prepareLeaseTransition sv input =
     bind_result (validateLease sv (lease_json (tr_lease input))) (\<lambda>lease.
       case lockPaths (le_resource lease) of
         Inl _ \<Rightarrow> integrityFailure
       | Inr paths \<Rightarrow>
           if tr_leaseRef input \<noteq> lp_lease paths then integrityFailure
           else bind_result (verifiedPrior sv (tr_priorEvents input)) (\<lambda>prior.
             bind_result (prior_checked (vs_events prior) (lp_lease paths)) (\<lambda>(previousAction, previousToken).
               if \<not> validateActionOrder (tr_action input) previousAction \<or>
                  \<not> validateTokenTransition (tr_action input) previousToken (le_fencingToken lease)
               then integrityFailure
               else let leaseText = canonicalizeJson (lease_json lease);
                        digest = es_sha256 sv leaseText;
                        draft = transition_draft input lease (cu_revision (vs_cursor prior)) digest
                    in case sealEvent sv draft (vs_cursor prior) of
                         Inl _ \<Rightarrow> integrityFailure
                       | Inr event \<Rightarrow> Inr \<lparr> pl_event = event, pl_lease = lease, pl_leaseText = leaseText,
                           pl_eventsText = vs_canonical prior @ canonicalizeJson (event_json event) @ [LF] \<rparr>)))"

definition verifyLeaseBinding ::
  "event_services \<Rightarrow> string \<Rightarrow> string \<Rightarrow> (lease_integrity, lock_binding) result" where
  "verifyLeaseBinding sv eventsText leaseText =
     bind_result (verifiedPrior sv eventsText) (\<lambda>stream.
       case json_parse leaseText of
         None \<Rightarrow> integrityFailure
       | Some parsedLease \<Rightarrow> bind_result (validateLease sv parsedLease) (\<lambda>lease.
           if canonicalizeJson (lease_json lease) \<noteq> leaseText then integrityFailure
           else case lockPaths (le_resource lease) of
             Inl _ \<Rightarrow> integrityFailure
           | Inr paths \<Rightarrow>
               bind_result (validateLifecycleEvents (vs_events stream) (lp_lease paths)) (\<lambda>finalAction.
               bind_result (parseLockOperation (ev_operation (last (vs_events stream)))) (\<lambda>operation.
                 if lo_digest operation \<noteq> es_sha256 sv leaseText \<or> lo_token operation \<noteq> le_fencingToken lease
                 then integrityFailure
                 else Inr \<lparr> lb_action = finalAction, lb_lease = lease, lb_event = last (vs_events stream),
                   lb_events = vs_events stream \<rparr>))))"

section \<open>Operations of lock events\<close>

lemma action_of_text: "lock_action_of_text (lock_action_text a) = Some a"
  by (cases a) (simp_all add: lock_action_of_text_def)

lemma action_text_free: "CHR ''.'' \<notin> set (lock_action_text a)"
  by (cases a) simp_all

lemma int_text_free: "0 \<le> n \<Longrightarrow> CHR ''.'' \<notin> set (int_text n)"
  using nat_text_digits [of "nat n"] by (auto simp: int_text_def is_digit_def code_unit_def)

lemma digits_int_text [simp]: "0 \<le> n \<Longrightarrow> digits_int (int_text n) = n"
  by (simp add: digits_int_def int_text_def digits_value_nat_text)

lemma split_operation:
  assumes "0 \<le> n"
  shows "split_on (CHR ''.'') (lock_operation_text a n d) =
    ''lock'' # lock_action_text a # (CHR ''t'' # int_text n) # split_on (CHR ''.'') (CHR ''d'' # d)"
proof -
  have "lock_operation_text a n d = ''lock'' @ CHR ''.'' # lock_action_text a @ CHR ''.'' #
      (CHR ''t'' # int_text n) @ CHR ''.'' # (CHR ''d'' # d)" by (simp add: lock_operation_text_def)
  moreover have "CHR ''.'' \<notin> set ''lock''" "CHR ''.'' \<notin> set (CHR ''t'' # int_text n)"
    using int_text_free [OF assms] by simp_all
  ultimately show ?thesis using action_text_free [of a] by (simp only: split_on_append_sep not_False_eq_True)
qed

lemma split_single: "split_on c s = [t] \<Longrightarrow> t = s"
  using join_split_on [of c s] by simp

lemma token_text: "0 \<le> n \<Longrightarrow> token_text_test (int_text n)"
  using nat_text_digits [of "nat n"] nat_text_head [of "nat n"]
  by (auto simp: token_text_test_def all_digits1_def int_text_def list_all_iff) (simp add: nat_text.simps digit_char_def)

lemma parse_operation_text:
  assumes "0 \<le> n"
  shows "lock_operation_match (lock_operation_text a n d) = (if sha256_test d then Some (a, int_text n, d) else None)"
proof (cases "CHR ''.'' \<in> set d")
  case True
  moreover have "\<not> is_hex_lower (CHR ''.'')" by (simp add: is_hex_lower_def is_digit_def code_unit_def)
  ultimately have "\<not> sha256_test d" by (auto simp: sha256_test_def list_all_iff)
  obtain x xs where x: "split_on (CHR ''.'') (CHR ''d'' # d) = x # xs"
    using split_on_nonempty [of "CHR ''.''" "CHR ''d'' # d"] by (meson neq_Nil_conv)
  have "xs \<noteq> []"
  proof
    assume "xs = []"
    with x have "CHR ''d'' # d \<in> set (split_on (CHR ''.'') (CHR ''d'' # d))" using split_single by fastforce
    from split_on_no_sep [OF this] True show False by simp
  qed
  then obtain y ys where "xs = y # ys" by (cases xs) auto
  with x \<open>\<not> sha256_test d\<close> show ?thesis by (simp add: lock_operation_match_def split_operation [OF assms])
next
  case False
  then have "split_on (CHR ''.'') (CHR ''d'' # d) = [CHR ''d'' # d]" by (intro split_on_free) simp
  then show ?thesis using token_text [OF assms]
    by (simp add: lock_operation_match_def split_operation [OF assms] action_of_text)
qed

lemma parseLockOperation_text:
  "0 \<le> n \<Longrightarrow> n \<le> MAX_SAFE_INTEGER \<Longrightarrow> sha256_test d \<Longrightarrow>
     parseLockOperation (lock_operation_text a n d) = Inr \<lparr> lo_action = a, lo_token = n, lo_digest = d \<rparr>"
  by (simp add: parseLockOperation_def parse_operation_text isSafeInteger_def MAX_SAFE_INTEGER_def)

section \<open>What verification accepts\<close>

lemma integrityFailure_simps [simp]:
  "integrityFailure = Inr x \<longleftrightarrow> False" "Inr x = integrityFailure \<longleftrightarrow> False"
  by (simp_all add: integrityFailure_def)

lemma verifiedPrior_Inr [simp]: "verifiedPrior sv t = Inr v \<longleftrightarrow> verifyEventStream sv t = Inr v"
  by (auto simp: verifiedPrior_def split: sum.splits)

lemma parseLockOperation_Inr:
  "parseLockOperation s = Inr p \<longleftrightarrow> isSafeInteger (lo_token p) \<and>
     (\<exists>t. lock_operation_match s = Some (lo_action p, t, lo_digest p) \<and> digits_int t = lo_token p)"
  by (cases p) (auto simp: parseLockOperation_def Let_def split: option.splits if_splits)

text \<open>An event of the life of the lease at a reference, with what its operation says.\<close>

definition lifecycle_event :: "string \<Rightarrow> event \<Rightarrow> lock_operation \<Rightarrow> bool" where
  "lifecycle_event leaseRef e p \<longleftrightarrow> parseLockOperation (ev_operation e) = Inr p \<and>
     ev_eventType e = fp_eventType (LOCK_EVENT_FACTS (lo_action p)) \<and> ev_policyVersion e = ''locks-v1'' \<and>
     ev_reasonCode e = fp_reasonCode (LOCK_EVENT_FACTS (lo_action p)) \<and>
     ev_effect e = fp_effect (LOCK_EVENT_FACTS (lo_action p)) \<and> ev_artifactRefs e = [leaseRef] \<and> ev_evidenceRefs e = []"

lemma lifecycle_step_Inr: "lifecycle_step leaseRef s e = Inr t \<longleftrightarrow>
    (\<exists>p. lifecycle_event leaseRef e p \<and> validateActionOrder (lo_action p) (fst s) \<and>
      validateTokenTransition (lo_action p) (snd s) (lo_token p) \<and> t = (Some (lo_action p), lo_token p))"
  by (auto simp: lifecycle_step_def lifecycle_event_def Let_def split: if_splits)

lemma lifecycle_last:
  assumes "replay_from (lifecycle_step leaseRef) (None, 0) es = Inr (a, n)" "es \<noteq> []"
  shows "\<exists>p. lifecycle_event leaseRef (last es) p \<and> a = Some (lo_action p) \<and> n = lo_token p"
  using assms by (cases es rule: rev_cases) (auto simp: replay_from_append lifecycle_step_Inr)

lemma validateLifecycleEvents_Inr: "validateLifecycleEvents es leaseRef = Inr a \<longleftrightarrow>
    es \<noteq> [] \<and> (\<exists>n. replay_from (lifecycle_step leaseRef) (None, 0) es = Inr (Some a, n))"
  by (cases "es = []") (auto simp: validateLifecycleEvents_def split: option.splits dest: lifecycle_last)

lemma prior_checked_Inr: "prior_checked es leaseRef = Inr s \<longleftrightarrow> replay_from (lifecycle_step leaseRef) (None, 0) es = Inr s"
proof (cases "es = []")
  case False
  show ?thesis
  proof
    assume "prior_checked es leaseRef = Inr s"
    with False obtain a n p where l: "replay_from (lifecycle_step leaseRef) (None, 0) es = Inr (Some a, n)"
      "parseLockOperation (ev_operation (last es)) = Inr p" "s = (Some (lo_action p), lo_token p)"
      by (auto simp: prior_checked_def validateLifecycleEvents_Inr)
    with lifecycle_last [OF l(1) False] show "replay_from (lifecycle_step leaseRef) (None, 0) es = Inr s"
      by (auto simp: lifecycle_event_def)
  next
    assume l: "replay_from (lifecycle_step leaseRef) (None, 0) es = Inr s"
    with lifecycle_last [of leaseRef es "fst s" "snd s"] False obtain p where "lifecycle_event leaseRef (last es) p"
      "s = (Some (lo_action p), lo_token p)" by (cases s) auto
    with l False show "prior_checked es leaseRef = Inr s"
      by (auto simp: prior_checked_def validateLifecycleEvents_Inr lifecycle_event_def)
  qed
qed (auto simp: prior_checked_def)

text \<open>A lease the validator and the two further checks accept.\<close>

definition accepted_lease :: "event_services \<Rightarrow> lease \<Rightarrow> bool" where
  "accepted_lease sv l \<longleftrightarrow>
     es_validate sv ''state.lock'' (Some (JStr ''1.0.0'')) (normal (lease_json l)) = None \<and>
     is_ok (lockPaths (le_resource l)) \<and> is_ok (parseOwner (le_owner l))"

lemma json_lease_direct: "json_lease (lease_json l) = Some l"
  by (simp add: lease_json_def json_lease_def lease_keys_def contract_fields_def has_keys_def contract_ok_def
      read_field_def json_field_def json_string_def json_number_def)

lemma validateLease_value:
  "validateLease sv (normal (lease_json l)) = (if accepted_lease sv l then Inr l else integrityFailure)"
  by (auto simp: validateLease_def accepted_lease_def lease_codec.decode_encode split: option.splits)

lemma validateLease_input:
  "order_free sv \<Longrightarrow> validateLease sv (lease_json l) = (if accepted_lease sv l then Inr l else integrityFailure)"
  by (auto simp: validateLease_def accepted_lease_def json_lease_direct order_free_def split: option.splits)

lemma lease_text_reads: "json_parse (canonicalizeJson (lease_json l)) = Some (normal (lease_json l))"
  by (rule json_parse_canonical [OF lease_codec.encode_wf])

definition lease_ref :: "lease \<Rightarrow> string" where
  "lease_ref l = the (lock_root (le_resource l)) @ ''/lease.json''"

lemma accepted_paths: "accepted_lease sv l \<Longrightarrow> \<exists>p. lockPaths (le_resource l) = Inr p \<and> lp_lease p = lease_ref l"
  by (auto simp: accepted_lease_def is_ok_iff lockPaths_Inr lease_ref_def)

lemma verifyLeaseBinding_Inr:
  "verifyLeaseBinding sv et lt = Inr b \<longleftrightarrow>
     lt = canonicalizeJson (lease_json (lb_lease b)) \<and> accepted_lease sv (lb_lease b) \<and>
     (\<exists>v p. verifyEventStream sv et = Inr v \<and> lb_events b = vs_events v \<and> lb_events b \<noteq> [] \<and>
       lb_event b = last (lb_events b) \<and>
       replay_from (lifecycle_step (lease_ref (lb_lease b))) (None, 0) (lb_events b) = Inr (Some (lb_action b), le_fencingToken (lb_lease b)) \<and>
       parseLockOperation (ev_operation (lb_event b)) = Inr p \<and> lo_digest p = es_sha256 sv lt)"
  (is "?L = ?R")
proof
  assume a: ?L
  obtain v where v: "verifyEventStream sv et = Inr v"
    using a by (auto simp: verifyLeaseBinding_def)
  obtain j where j: "json_parse lt = Some j" using a v by (cases "json_parse lt") (auto simp: verifyLeaseBinding_def verifiedPrior_def)
  obtain l where l: "validateLease sv j = Inr l" using a v j by (auto simp: verifyLeaseBinding_def verifiedPrior_def)
  have t: "canonicalizeJson (lease_json l) = lt" using a v j l by (auto simp: verifyLeaseBinding_def verifiedPrior_def split: if_splits)
  have n: "j = normal (lease_json l)" using j lease_text_reads [of l] t by simp
  have ok: "accepted_lease sv l" using l validateLease_value [of sv l] n by (auto split: if_splits)
  from accepted_paths [OF ok] obtain p where p: "lockPaths (le_resource l) = Inr p" "lp_lease p = lease_ref l" by blast
  obtain q where q: "validateLifecycleEvents (vs_events v) (lease_ref l) = Inr (lb_action b)"
      "parseLockOperation (ev_operation (last (vs_events v))) = Inr q" "lo_digest q = es_sha256 sv lt" "lo_token q = le_fencingToken l"
      "b = \<lparr> lb_action = lb_action b, lb_lease = l, lb_event = last (vs_events v), lb_events = vs_events v \<rparr>"
    using a by (auto simp: verifyLeaseBinding_def verifiedPrior_def v j l t p split: if_splits)
  from q(1) obtain m where m: "vs_events v \<noteq> []" "replay_from (lifecycle_step (lease_ref l)) (None, 0) (vs_events v) = Inr (Some (lb_action b), m)"
    by (auto simp: validateLifecycleEvents_Inr)
  from lifecycle_last [OF m(2,1)] q(2) have "m = lo_token q" by (auto simp: lifecycle_event_def)
  moreover have "lb_lease b = l" "lb_event b = last (vs_events v)" "lb_events b = vs_events v" by (subst q(5); simp)+
  ultimately show ?R using v ok t m q by auto
next
  assume ?R
  then obtain v p where r: "lt = canonicalizeJson (lease_json (lb_lease b))" "accepted_lease sv (lb_lease b)"
    "verifyEventStream sv et = Inr v" "lb_events b = vs_events v" "lb_events b \<noteq> []" "lb_event b = last (lb_events b)"
    "replay_from (lifecycle_step (lease_ref (lb_lease b))) (None, 0) (lb_events b) = Inr (Some (lb_action b), le_fencingToken (lb_lease b))"
    "parseLockOperation (ev_operation (lb_event b)) = Inr p" "lo_digest p = es_sha256 sv lt" by blast
  from accepted_paths [OF r(2)] obtain q where q: "lockPaths (le_resource (lb_lease b)) = Inr q" "lp_lease q = lease_ref (lb_lease b)" by blast
  have tk: "lo_token p = le_fencingToken (lb_lease b)" using lifecycle_last [OF r(7,5)] r(6,8) by (auto simp: lifecycle_event_def)
  have "validateLifecycleEvents (lb_events b) (lease_ref (lb_lease b)) = Inr (lb_action b)"
    using r(5,7) by (auto simp: validateLifecycleEvents_Inr)
  with r q tk show ?L
    by (cases b) (auto simp: verifyLeaseBinding_def verifiedPrior_def lease_text_reads validateLease_value)
qed

section \<open>Recording a decision\<close>

lemma transition_draft_fields [simp]:
  "ev_priorRevision (transition_draft i l n d) = n" "ev_resultingRevision (transition_draft i l n d) = n + 1"
  "ev_stateContract (transition_draft i l n d) = V1_2"
  "ev_operation (transition_draft i l n d) = lock_operation_text (tr_action i) (le_fencingToken l) d"
  "ev_eventType (transition_draft i l n d) = fp_eventType (LOCK_EVENT_FACTS (tr_action i))"
  "ev_policyVersion (transition_draft i l n d) = ''locks-v1''"
  "ev_reasonCode (transition_draft i l n d) = fp_reasonCode (LOCK_EVENT_FACTS (tr_action i))"
  "ev_effect (transition_draft i l n d) = fp_effect (LOCK_EVENT_FACTS (tr_action i))"
  "ev_artifactRefs (transition_draft i l n d) = [tr_leaseRef i]" "ev_evidenceRefs (transition_draft i l n d) = []"
  "ev_gateFailures (transition_draft i l n d) = Some []" "ev_resolvedAssignment (transition_draft i l n d) = None"
  "ev_runLimits (transition_draft i l n d) = None" "ev_acceptanceDecision (transition_draft i l n d) = None"
  "ev_repairResolution (transition_draft i l n d) = None" "ev_startedFromSpec (transition_draft i l n d) = None"
  by (simp_all add: transition_draft_def Let_def)

lemma operation_is_lock: "starts_with ''lock.'' (lock_operation_text a n d)"
  by (simp add: lock_operation_text_def)

lemma transition_draft_semantic:
  assumes "0 \<le> le_fencingToken l" "sha256_test d"
  shows "assertEventSemanticPolicy (transition_draft i l n d)"
  using assms operation_is_lock
  by (simp add: assertEventSemanticPolicy_def lock_branch_ok_def parse_operation_text matchesPolicy_def
      hasRunLimits_def hasAcceptanceDecision_def hasRepairResolution_def hasStartedFromSpec_def
      gate_failures_consistent_def LOCK_EVENT_FACTS_def)

lemma transition_draft_snapshot:
  assumes "0 \<le> le_fencingToken l" "sha256_test d" "0 \<le> n" "n < MAX_SAFE_INTEGER"
  shows "snapshotEventDraft (transition_draft i l n d) = Inr (transition_draft i l n d)"
  using assms transition_draft_semantic [OF assms(1,2)]
  by (simp add: snapshotEventDraft_def where_present_def isSafeInteger_def MAX_SAFE_INTEGER_def copyReferences_def
      copyGateFailures_def MAX_REFERENCE_COUNT_def)

text \<open>The event a transition seals on a verified log.\<close>

definition transition_event :: "event_services \<Rightarrow> lease_transition \<Rightarrow> verified_stream \<Rightarrow> event" where
  "transition_event sv input v =
     (let l = tr_lease input;
          draft = transition_draft input l (cu_revision (vs_cursor v)) (es_sha256 sv (canonicalizeJson (lease_json l)))
      in with_hashes draft (cu_hash (vs_cursor v)) (seal_hash (es_sha256 sv) (with_hashes draft (cu_hash (vs_cursor v)) [])))"

lemma verified_revision:
  assumes "verifyEventStream sv t = Inr v"
  shows "0 \<le> cu_revision (vs_cursor v) \<and> cu_revision (vs_cursor v) < MAX_SAFE_INTEGER \<and>
    (cu_revision (vs_cursor v) = 0 \<longleftrightarrow> cu_hash (vs_cursor v) = None)"
proof -
  from assms have c: "replay_from (check_link sv) first_cursor (vs_events v) = Inr (vs_cursor v)" and f: "log_fits (vs_events v)"
    by (simp_all add: verify_Inr)
  from linked_revision [OF c] linked_hash(1) [OF c] f show ?thesis
    by (auto simp: first_cursor_def log_fits_def EVENT_STREAM_COUNT_def MAX_SAFE_INTEGER_def)
qed

lemma transition_seals:
  assumes "verifyEventStream sv t = Inr v" "0 \<le> le_fencingToken (tr_lease i)"
    and "sha256_test (es_sha256 sv (canonicalizeJson (lease_json (tr_lease i))))"
    and "es_validate sv ''state.event'' (contract_value V1_2) (event_json (transition_event sv i v)) = None"
  shows "sealEvent sv (transition_draft i (tr_lease i) (cu_revision (vs_cursor v))
      (es_sha256 sv (canonicalizeJson (lease_json (tr_lease i))))) (vs_cursor v) = Inr (transition_event sv i v)"
  using verified_revision [OF assms(1)] transition_draft_snapshot [OF assms(2,3)] assms(4)
  by (auto simp: sealEvent_def transition_event_def Let_def)

lemma prepare_Inr:
  assumes "order_free sv"
  shows "prepareLeaseTransition sv i = Inr p \<longleftrightarrow>
    accepted_lease sv (tr_lease i) \<and> tr_leaseRef i = lease_ref (tr_lease i) \<and>
    (\<exists>v a n e. verifyEventStream sv (tr_priorEvents i) = Inr v \<and>
      replay_from (lifecycle_step (lease_ref (tr_lease i))) (None, 0) (vs_events v) = Inr (a, n) \<and>
      validateActionOrder (tr_action i) a \<and> validateTokenTransition (tr_action i) n (le_fencingToken (tr_lease i)) \<and>
      sealEvent sv (transition_draft i (tr_lease i) (cu_revision (vs_cursor v))
        (es_sha256 sv (canonicalizeJson (lease_json (tr_lease i))))) (vs_cursor v) = Inr e \<and>
      p = \<lparr> pl_event = e, pl_lease = tr_lease i, pl_leaseText = canonicalizeJson (lease_json (tr_lease i)),
        pl_eventsText = vs_canonical v @ canonicalizeJson (event_json e) @ [LF] \<rparr>)"
proof (cases "accepted_lease sv (tr_lease i)")
  case True
  from accepted_paths [OF True] obtain q where q: "lockPaths (le_resource (tr_lease i)) = Inr q" "lp_lease q = lease_ref (tr_lease i)"
    by blast
  have pick: "(case r of Inl _ \<Rightarrow> integrityFailure | Inr x \<Rightarrow> Inr (f x)) = Inr y \<longleftrightarrow> (\<exists>x. r = Inr x \<and> y = f x)"
    and guard: "(if c then integrityFailure else s) = Inr y \<longleftrightarrow> \<not> c \<and> s = Inr y"
    for r :: "(integrity_error, event) result" and f :: "event \<Rightarrow> prepared_lease" and s y c
    by (cases r) auto
  show ?thesis
    by (simp add: prepareLeaseTransition_def validateLease_input [OF assms] True q prior_checked_Inr Let_def pick guard)
qed (auto simp: prepareLeaseTransition_def validateLease_input [OF assms])

text \<open>A prepared transition, within the limits of the log, verifies to what was prepared.\<close>

lemma prepared_verifies:
  assumes free: "order_free sv" and p: "prepareLeaseTransition sv i = Inr p"
    and v: "verifyEventStream sv (tr_priorEvents i) = Inr v"
    and line: "utf8_length (canonicalizeJson (event_json (pl_event p))) \<le> EVENT_RECORD_BYTES"
    and room: "utf8_length (pl_eventsText p) \<le> EVENT_STREAM_BYTES" "length (vs_events v) < EVENT_STREAM_COUNT"
  shows "verifyLeaseBinding sv (pl_eventsText p) (pl_leaseText p) = Inr \<lparr> lb_action = tr_action i, lb_lease = tr_lease i,
    lb_event = pl_event p, lb_events = vs_events v @ [pl_event p] \<rparr>"
proof -
  let ?l = "tr_lease i"
  from p v obtain a n e where ok: "accepted_lease sv ?l" "tr_leaseRef i = lease_ref ?l"
    and r: "replay_from (lifecycle_step (lease_ref ?l)) (None, 0) (vs_events v) = Inr (a, n)"
    and t: "validateActionOrder (tr_action i) a" "validateTokenTransition (tr_action i) n (le_fencingToken ?l)"
    and e: "sealEvent sv (transition_draft i ?l (cu_revision (vs_cursor v)) (es_sha256 sv (canonicalizeJson (lease_json ?l)))) (vs_cursor v) = Inr e"
    and pe: "p = \<lparr> pl_event = e, pl_lease = ?l, pl_leaseText = canonicalizeJson (lease_json ?l),
        pl_eventsText = vs_canonical v @ canonicalizeJson (event_json e) @ [LF] \<rparr>"
    by (auto simp: prepare_Inr [OF free])
  let ?d = "transition_draft i ?l (cu_revision (vs_cursor v)) (es_sha256 sv (canonicalizeJson (lease_json ?l)))"
  have d: "event_draft.truncate e = ?d" using e by (rule sealEventE) (metis with_hashes_simps(1))
  have semantic: "assertEventSemanticPolicy ?d" using e by (rule sealEventE) (blast dest: snapshot_Inr)
  have canonical: "vs_canonical v = tr_priorEvents i" "tr_priorEvents i = log_text (vs_events v)" using v by (simp_all add: verify_Inr)
  have s: "verifyEventStream sv (pl_eventsText p) = Inr \<lparr> vs_events = vs_events v @ [e], vs_cursor = cursor_after e,
      vs_canonical = pl_eventsText p \<rparr>"
    using seal_extends [OF free v e] line room canonical by (simp add: pe line_text_def log_fits_def)
  have f: "ev_operation e = lock_operation_text (tr_action i) (le_fencingToken ?l) (es_sha256 sv (canonicalizeJson (lease_json ?l)))"
    "ev_eventType e = fp_eventType (LOCK_EVENT_FACTS (tr_action i))" "ev_policyVersion e = ''locks-v1''"
    "ev_reasonCode e = fp_reasonCode (LOCK_EVENT_FACTS (tr_action i))" "ev_effect e = fp_effect (LOCK_EVENT_FACTS (tr_action i))"
    "ev_artifactRefs e = [tr_leaseRef i]" "ev_evidenceRefs e = []"
    using arg_cong [OF d, of ev_operation] arg_cong [OF d, of ev_eventType] arg_cong [OF d, of ev_policyVersion]
      arg_cong [OF d, of ev_reasonCode] arg_cong [OF d, of ev_effect] arg_cong [OF d, of ev_artifactRefs]
      arg_cong [OF d, of ev_evidenceRefs] by (simp_all add: event_draft.truncate_def)
  have bound: "0 \<le> le_fencingToken ?l" "le_fencingToken ?l \<le> MAX_SAFE_INTEGER"
    using t(2) by (simp_all add: validateTokenTransition_def Let_def isSafeInteger_def)
  have hex: "sha256_test (es_sha256 sv (canonicalizeJson (lease_json ?l)))"
    using semantic operation_is_lock bound
    by (auto simp: assertEventSemanticPolicy_def lock_branch_ok_def parse_operation_text split: if_splits)
  note o = parseLockOperation_text [OF bound hex, of "tr_action i"]
  have "lifecycle_event (lease_ref ?l) e \<lparr> lo_action = tr_action i, lo_token = le_fencingToken ?l,
      lo_digest = es_sha256 sv (canonicalizeJson (lease_json ?l)) \<rparr>"
    using f o ok(2) by (simp add: lifecycle_event_def)
  with t have "lifecycle_step (lease_ref ?l) (a, n) e = Inr (Some (tr_action i), le_fencingToken ?l)"
    by (auto simp: lifecycle_step_Inr intro!: exI)
  with r have "replay_from (lifecycle_step (lease_ref ?l)) (None, 0) (vs_events v @ [e]) = Inr (Some (tr_action i), le_fencingToken ?l)"
    by (simp add: replay_from_append)
  with s f(1) o ok(1) show ?thesis by (simp add: verifyLeaseBinding_Inr pe)
qed

section \<open>The language of lock operations\<close>

text \<open>
  The abstract lock: free at first, held from an acquisition on, renewed and taken over only
  while it is held, and free again after a release.
\<close>

inductive lease_trace :: "lock_action list \<Rightarrow> bool \<Rightarrow> bool" where
  free: "lease_trace [] False"
| acquire: "lease_trace as False \<Longrightarrow> lease_trace (as @ [Acquire]) True"
| renew: "lease_trace as True \<Longrightarrow> lease_trace (as @ [Renew]) True"
| takeover: "lease_trace as True \<Longrightarrow> lease_trace (as @ [Takeover]) True"
| release: "lease_trace as True \<Longrightarrow> lease_trace (as @ [Release]) False"

definition epochs :: "lock_action list \<Rightarrow> int" where
  "epochs as = int (length (filter epoch_action as))"

definition event_action :: "event \<Rightarrow> lock_action" where
  "event_action e = (case lock_operation_match (ev_operation e) of None \<Rightarrow> Acquire | Some (a, _) \<Rightarrow> a)"

lemma lifecycle_event_action: "lifecycle_event r e p \<Longrightarrow> event_action e = lo_action p"
  by (auto simp: lifecycle_event_def parseLockOperation_Inr event_action_def)

lemma lifecycle_trace:
  assumes "replay_from (lifecycle_step r) (None, 0) es = Inr s"
  shows "lease_trace (map event_action es) (fst s \<noteq> None \<and> fst s \<noteq> Some Release) \<and>
    snd s = epochs (map event_action es) \<and> (fst s = None \<longleftrightarrow> es = []) \<and>
    (es \<noteq> [] \<longrightarrow> fst s = Some (event_action (last es)))"
  using assms
proof (induction es arbitrary: s rule: rev_induct)
  case Nil
  then show ?case by (auto simp: epochs_def lease_trace.free)
next
  case (snoc e es)
  then obtain b p where b: "replay_from (lifecycle_step r) (None, 0) es = Inr b" and p: "lifecycle_event r e p"
    "validateActionOrder (lo_action p) (fst b)" "validateTokenTransition (lo_action p) (snd b) (lo_token p)"
    "s = (Some (lo_action p), lo_token p)" by (auto simp: replay_from_append lifecycle_step_Inr)
  note IH = snoc.IH [OF b]
  have "lease_trace (map event_action es @ [lo_action p]) (lo_action p \<noteq> Release)"
    using IH p(2) lease_trace.acquire [OF lease_trace.free] by (cases "lo_action p"; cases "fst b")
      (auto simp: validateActionOrder_def split: if_splits intro: lease_trace.intros)
  moreover have "lo_token p = epochs (map event_action es @ [lo_action p])"
    using IH p(3) by (auto simp: validateTokenTransition_def Let_def epochs_def epoch_action_def)
  ultimately show ?case using p(4) lifecycle_event_action [OF p(1)] by simp
qed

lemma step_order:
  assumes "lease_step current now a l"
  shows "validateActionOrder a (map_option lb_action current)"
  using lease_step_cases [OF assms]
  by (cases a) (auto simp: epoch_defs validateActionOrder_def split: option.splits, (metis lock_action.exhaust)+)

text \<open>
  C14: Every decision of the policy on the lease that a resource's files verify to, or on a
  resource without files, can be recorded: when the validator accepts the new lease and the
  event, the transition is prepared, and within the limits of the log the new files verify
  to the decided action and lease, behind all earlier events.
\<close>

theorem decided_transition_recorded:
  assumes "order_free sv" "verifyEventStream sv (tr_priorEvents input) = Inr v"
    and "vs_events v = [] \<and> current = None \<or> verifyLeaseBinding sv (tr_priorEvents input) leaseText = Inr b \<and>
      current = Some \<lparr> lb_action = lb_action b, lb_lease = lb_lease b \<rparr>"
    and "lease_step current now (tr_action input) (tr_lease input)"
    and "Inr (tr_leaseRef input) = map_sum id lp_lease (lockPaths (le_resource (tr_lease input)))"
    and "es_validate sv ''state.lock'' (Some (JStr ''1.0.0'')) (lease_json (tr_lease input)) = None"
    and "es_validate sv ''state.event'' (Some (JStr ''1.2.0'')) (event_json (transition_event sv input v)) = None"
    and "sha256_test (es_sha256 sv (canonicalizeJson (lease_json (tr_lease input))))"
    and "utf8_length (canonicalizeJson (event_json (transition_event sv input v))) \<le> EVENT_RECORD_BYTES"
    and "utf8_length (tr_priorEvents input @ canonicalizeJson (event_json (transition_event sv input v)) @ [LF]) \<le> EVENT_STREAM_BYTES"
    and "length (vs_events v) < EVENT_STREAM_COUNT"
  shows "\<exists>p. prepareLeaseTransition sv input = Inr p \<and>
    verifyLeaseBinding sv (pl_eventsText p) (pl_leaseText p) = Inr \<lparr> lb_action = tr_action input, lb_lease = tr_lease input,
      lb_event = pl_event p, lb_events = vs_events v @ [pl_event p] \<rparr>"
proof -
  let ?l = "tr_lease input" and ?e = "transition_event sv input v"
  have prior: "\<exists>n. replay_from (lifecycle_step (lease_ref ?l)) (None, 0) (vs_events v) = Inr (map_option lb_action current, n) \<and>
      n = prior_token current \<and> 0 \<le> n \<and> n \<le> MAX_SAFE_INTEGER"
    using assms(3)
  proof (elim disjE conjE)
    assume "verifyLeaseBinding sv (tr_priorEvents input) leaseText = Inr b"
      and c: "current = Some \<lparr> lb_action = lb_action b, lb_lease = lb_lease b \<rparr>"
    then have b: "lb_events b = vs_events v" "lb_events b \<noteq> []"
      "replay_from (lifecycle_step (lease_ref (lb_lease b))) (None, 0) (lb_events b) = Inr (Some (lb_action b), le_fencingToken (lb_lease b))"
      using assms(2) by (auto simp: verifyLeaseBinding_Inr)
    have "le_resource ?l = le_resource (lb_lease b)" using step_same_resource assms(4) c by fastforce
    moreover have "0 \<le> le_fencingToken (lb_lease b)" "le_fencingToken (lb_lease b) \<le> MAX_SAFE_INTEGER"
      using lifecycle_last [OF b(3,2)] lifecycle_trace [OF b(3)]
      by (auto simp: lifecycle_event_def parseLockOperation_Inr isSafeInteger_def epochs_def)
    ultimately show ?thesis using b c by (simp add: lease_ref_def prior_token_def)
  qed (simp add: prior_token_def MAX_SAFE_INTEGER_def)
  then have bound: "0 \<le> prior_token current" "prior_token current \<le> MAX_SAFE_INTEGER" by auto
  have token: "validateTokenTransition (tr_action input) (prior_token current) (le_fencingToken ?l)"
    using step_token [OF assms(4)] step_token_bound [OF assms(4)] bound
    by (auto simp: validateTokenTransition_def Let_def epoch_action_def isSafeInteger_def MAX_SAFE_INTEGER_def split: if_splits)
  have ok: "accepted_lease sv ?l"
  proof -
    have "is_ok (lockPaths (le_resource ?l))" using assms(5) by (cases "lockPaths (le_resource ?l)") auto
    moreover have "is_ok (parseOwner (le_owner ?l))"
      using lease_step_cases [OF assms(4)] assms(3)
      by (auto simp: opens_epoch_def stays_in_epoch_def verifyLeaseBinding_Inr accepted_lease_def)
    ultimately show ?thesis using assms(1,6) by (simp add: accepted_lease_def order_free_def)
  qed
  have ref: "tr_leaseRef input = lease_ref ?l" using accepted_paths [OF ok] assms(5) by auto
  have "0 \<le> le_fencingToken ?l" using token by (simp add: validateTokenTransition_def Let_def)
  from transition_seals [OF assms(2) this assms(8)] assms(7)
  have "sealEvent sv (transition_draft input ?l (cu_revision (vs_cursor v))
      (es_sha256 sv (canonicalizeJson (lease_json ?l)))) (vs_cursor v) = Inr ?e"
    by (simp add: contract_value_def enum_text_def contract_texts_def)
  with ok ref prior token step_order [OF assms(4)] assms(2)
  have p: "prepareLeaseTransition sv input = Inr \<lparr> pl_event = ?e, pl_lease = ?l, pl_leaseText = canonicalizeJson (lease_json ?l),
      pl_eventsText = vs_canonical v @ canonicalizeJson (event_json ?e) @ [LF] \<rparr>"
    by (auto simp: prepare_Inr [OF assms(1)])
  have "vs_canonical v = tr_priorEvents input" using assms(2) by (simp add: verify_Inr)
  with prepared_verifies [OF assms(1) p assms(2)] p assms(9-11) show ?thesis by auto
qed

text \<open>
  C15: In the files of a lease that verify, the operations of the events form a trace of the
  abstract lock, which is held exactly when the last of them is not a release; the fencing
  token of the lease counts the epochs; and every event names the file of this lease.
\<close>

theorem verified_lease_trace:
  assumes "verifyLeaseBinding sv eventsText leaseText = Inr b"
  shows "lease_trace (map event_action (lb_events b)) (lb_action b \<noteq> Release) \<and>
    lb_action b = event_action (last (lb_events b)) \<and>
    le_fencingToken (lb_lease b) = epochs (map event_action (lb_events b)) \<and>
    (\<forall>e \<in> set (lb_events b). ev_artifactRefs e = [lease_ref (lb_lease b)]) \<and>
    leaseText = canonicalizeJson (lease_json (lb_lease b))"
proof -
  from assms have b: "lb_events b \<noteq> []" "leaseText = canonicalizeJson (lease_json (lb_lease b))"
    "replay_from (lifecycle_step (lease_ref (lb_lease b))) (None, 0) (lb_events b) = Inr (Some (lb_action b), le_fencingToken (lb_lease b))"
    by (auto simp: verifyLeaseBinding_Inr)
  have "replay_from (lifecycle_step r) s es = Inr t \<Longrightarrow> \<forall>e \<in> set es. ev_artifactRefs e = [r]" for r s es t
    by (induction es arbitrary: s) (auto simp: lifecycle_step_Inr lifecycle_event_def)
  with b lifecycle_trace [OF b(3)] show ?thesis by auto
qed

text \<open>The first acquisition of a run's lease, recorded.\<close>

definition sample_transition :: lease_transition where
  "sample_transition = \<lparr> tr_action = Acquire, tr_priorEvents = [], tr_lease = sample_lease,
     tr_leaseRef = ''.brain/locks/runs/cjE/lease.json'', tr_eventId = ''e1'',
     tr_occurredAt = ''2026-01-01T00:00:00.000Z'',
     tr_observedIdentity = \<lparr> id_host = ''codex'', id_model = None, id_effort = None \<rparr> \<rparr>"

definition empty_log :: verified_stream where
  "empty_log = \<lparr> vs_events = [], vs_cursor = first_cursor, vs_canonical = [] \<rparr>"

lemma sample_transition_bound: "text_bound (event_json (transition_event sample_event_services sample_transition empty_log)) < 16000"
proof -
  have c: "text_bound (event_json (with_hashes (transition_draft sample_transition sample_lease 0 (replicate 64 (CHR ''a'')))
      None (replicate 64 (CHR ''a'')))) < 16000"
    by code_simp
  then show ?thesis
    by (simp add: transition_event_def Let_def empty_log_def first_cursor_def sample_event_services_def seal_hash_def
        sample_transition_def del: text_bound.simps)
qed

lemma sample_transition_line:
  "utf8_length (canonicalizeJson (event_json (transition_event sample_event_services sample_transition empty_log))) < 16000"
  using canonical_bound [OF event_wf] sample_transition_bound by (meson le_less_trans)

lemma sample_services: "sha256_test (es_sha256 sample_event_services t)"
  "es_validate sample_event_services k v (JObj ps) = None"
  by (simp_all add: sample_event_services_def sample_validate_def sha256_test_def is_hex_lower_def is_digit_def code_unit_def list_all_iff)

lemma sample_ref: "lockPaths ''run:r1'' = Inr \<lparr> lp_root = ''.brain/locks/runs/cjE'', lp_lease = ''.brain/locks/runs/cjE/lease.json'',
    lp_events = ''.brain/locks/runs/cjE/events.jsonl'', lp_claim = ''.brain/locks/runs/cjE/claim'',
    lp_claimRecord = ''.brain/locks/runs/cjE/claim/claim.json'', lp_admissionClaim = ''.brain/locks/.admission/claim'',
    lp_admissionRecord = ''.brain/locks/.admission/claim/claim.json'' \<rparr>"
  by code_simp

lemma sample_conditions:
  "verifyEventStream sample_event_services (tr_priorEvents sample_transition) = Inr empty_log"
  "lease_step None 1767225600000 (tr_action sample_transition) (tr_lease sample_transition)"
  "Inr (tr_leaseRef sample_transition) = map_sum id lp_lease (lockPaths (le_resource (tr_lease sample_transition)))"
  "es_validate sample_event_services ''state.lock'' (Some (JStr ''1.0.0'')) (lease_json (tr_lease sample_transition)) = None"
  "es_validate sample_event_services ''state.event'' (Some (JStr ''1.2.0''))
     (event_json (transition_event sample_event_services sample_transition empty_log)) = None"
  using lease_step.acquire [OF sample_acquired] sample_ref
  by (simp_all add: sample_transition_def empty_log_def empty_stream lease_json_def event_json_def json_object_def
      sample_services(2) sample_lease_def)

theorem decided_transition_recorded_witness:
  "\<exists>p. prepareLeaseTransition sample_event_services sample_transition = Inr p \<and>
    verifyLeaseBinding sample_event_services (pl_eventsText p) (pl_leaseText p) = Inr \<lparr> lb_action = Acquire,
      lb_lease = sample_lease, lb_event = pl_event p, lb_events = [pl_event p] \<rparr>"
proof -
  have "tr_priorEvents sample_transition = []" "tr_action sample_transition = Acquire" "tr_lease sample_transition = sample_lease"
    by (simp_all add: sample_transition_def)
  then show ?thesis
    using decided_transition_recorded [OF sample_order_free sample_conditions(1) _ sample_conditions(2-5) sample_services(1)]
      sample_transition_line
    by (simp add: EVENT_RECORD_BYTES_def EVENT_STREAM_BYTES_def EVENT_STREAM_COUNT_def empty_log_def LF_def code_unit_def)
qed

theorem verified_lease_trace_witness:
  "\<exists>eventsText leaseText b. verifyLeaseBinding sample_event_services eventsText leaseText = Inr b \<and> le_fencingToken (lb_lease b) = 1 \<and>
    le_fencingToken (lb_lease b) = epochs (map event_action (lb_events b))"
proof -
  let ?e = "transition_event sample_event_services sample_transition empty_log"
  let ?p = "\<lparr> pl_event = ?e, pl_lease = sample_lease, pl_leaseText = canonicalizeJson (lease_json sample_lease),
    pl_eventsText = canonicalizeJson (event_json ?e) @ [LF] \<rparr>"
  have t: "tr_priorEvents sample_transition = []" "tr_action sample_transition = Acquire" "tr_lease sample_transition = sample_lease"
    by (simp_all add: sample_transition_def)
  have "es_validate sample_event_services ''state.event'' (contract_value V1_2) (event_json ?e) = None"
    using sample_conditions(5) by (simp add: contract_value_def enum_text_def contract_texts_def)
  from transition_seals [OF sample_conditions(1) _ sample_services(1) this]
  have s: "sealEvent sample_event_services (transition_draft sample_transition sample_lease 0
      (es_sha256 sample_event_services (canonicalizeJson (lease_json sample_lease)))) first_cursor = Inr ?e"
    by (simp add: t empty_log_def first_cursor_def) (simp add: sample_lease_def)
  have ok: "accepted_lease sample_event_services sample_lease"
    using sample_ref by (simp add: accepted_lease_def sample_lease_def lease_json_def sample_services(2)) (simp add: is_ok_def, code_simp)
  from accepted_paths [OF ok] sample_ref have "lease_ref sample_lease = ''.brain/locks/runs/cjE/lease.json''"
    by (auto simp: sample_lease_def)
  with ok s have p: "prepareLeaseTransition sample_event_services sample_transition = Inr ?p"
    using sample_conditions(1)
    by (auto simp: prepare_Inr [OF sample_order_free] t empty_log_def first_cursor_def validateActionOrder_def
        validateTokenTransition_def safe_integer_defs)
      (simp_all add: sample_transition_def sample_lease_def)
  from prepared_verifies [OF sample_order_free p sample_conditions(1)] sample_transition_line
  have "verifyLeaseBinding sample_event_services (pl_eventsText ?p) (pl_leaseText ?p) =
      Inr \<lparr> lb_action = Acquire, lb_lease = sample_lease, lb_event = ?e, lb_events = [?e] \<rparr>"
    by (simp add: t EVENT_RECORD_BYTES_def EVENT_STREAM_BYTES_def EVENT_STREAM_COUNT_def empty_log_def LF_def code_unit_def)
  from this verified_lease_trace [OF this] show ?thesis by (intro exI conjI) (auto simp: sample_lease_def)
qed

end
