(* ===== verification/Lease_Guard.thy ===== *)
theory Lease_Guard
  imports Transaction_Driver Lease_Lifecycle
begin

text \<open>
  Leases and managed transactions: which lock files the guard of a transaction admits
  (\<open>freezeLeaseGuard\<close> of \<open>composition/transactions.ts\<close>), seen from the paths that
  \<open>domain/locks/scope.ts\<close> gives a resource.
\<close>

lemma base64_chars: "\<forall>c \<in> set base64url. is_id_char c \<and> c \<noteq> CHR ''/''"
  by code_simp

lemma base64_char_in: "0 \<le> n \<Longrightarrow> n < 64 \<Longrightarrow> base64_char n \<in> set base64url"
  by (simp add: base64_char_def base64_distinct(2) nat_less_iff)

lemma six_chars:
  assumes "0 \<le> b" "b < 256"
  shows "base64_char (drop_bit 2 (char_code a)) \<in> set base64url"
    "base64_char (push_bit 4 (char_code a AND 3) OR drop_bit 4 b) \<in> set base64url"
    "base64_char (push_bit 2 (char_code a AND 15) OR drop_bit 6 b) \<in> set base64url"
    "base64_char (char_code a AND 63) \<in> set base64url"
proof -
  note r = six_ranges [OF char_code_range assms, of a]
  show "base64_char (drop_bit 2 (char_code a)) \<in> set base64url"
    unfolding sixes(1) [OF char_code_range assms] by (rule base64_char_in [OF r(1,2)])
  show "base64_char (push_bit 4 (char_code a AND 3) OR drop_bit 4 b) \<in> set base64url"
    unfolding sixes(2) [OF char_code_range assms] by (rule base64_char_in [OF r(3,4)])
  show "base64_char (push_bit 2 (char_code a AND 15) OR drop_bit 6 b) \<in> set base64url"
    unfolding sixes(3) [OF char_code_range assms] by (rule base64_char_in [OF r(5,6)])
  show "base64_char (char_code a AND 63) \<in> set base64url"
    unfolding low_bits by (rule base64_char_in) simp_all
qed

lemma encodeRunId_chars: "set (encodeRunId s) \<subseteq> set base64url"
proof (induction s rule: encodeRunId.induct)
  case (2 a)
  then show ?case using six_chars [of 0 a] by (simp only: encodeRunId.simps) simp
next
  case (3 a b)
  then show ?case using six_chars [of "char_code b" a] six_chars [of 0 b] by (simp only: encodeRunId.simps) simp
next
  case (4 a b c r)
  then show ?case
    using six_chars [of "char_code b" a] six_chars [of "char_code c" b] six_chars [of 0 c] by (simp only: encodeRunId.simps) simp
qed simp

lemma encodeRunId_slash: "CHR ''/'' \<notin> set (encodeRunId s)" "list_all is_id_char (encodeRunId s)"
  using encodeRunId_chars [of s] base64_chars by (auto simp: list_all_iff)

lemma encodeRunId_exact: "3 * length (encodeRunId s) \<le> 4 * length s + 2"
  by (induction s rule: encodeRunId.induct) auto

lemma encoded_fits: "length (encodeRunId s) \<le> 128 \<longleftrightarrow> length s \<le> 96"
proof
  assume "length (encodeRunId s) \<le> 128"
  then show "length s \<le> 96" using encodeRunId_length [of s] by linarith
next
  assume "length s \<le> 96"
  then show "length (encodeRunId s) \<le> 128" using encodeRunId_exact [of s] by linarith
qed

lemma lock_file_segments:
  assumes "CHR ''/'' \<notin> set e" "CHR ''/'' \<notin> set f"
  shows "segments_of (''.brain/locks/runs/'' @ e @ ''/'' @ f) = [''.brain'', ''locks'', ''runs'', e, f]"
proof -
  have "''.brain/locks/runs/'' @ e @ ''/'' @ f = ''.brain'' @ CHR ''/'' # ''locks'' @ CHR ''/'' # ''runs'' @ CHR ''/'' # e @ CHR ''/'' # f"
    by simp
  then show ?thesis unfolding segments_of_def
    using assms by (simp only: split_on_append_sep split_on_free) (simp add: split_on_append_sep split_on_free)
qed

text \<open>
  The guard of a transaction admits the lock files of a run exactly when its identifier has
  at most 96 characters, although \<open>lockPaths\<close> gives paths to every run of up to 128.
\<close>

lemma guard_admits_short_runs:
  assumes "lockPaths (''run:'' @ run) = Inr p"
  shows "reservedGuardPath (lp_lease p) ''lease.json'' \<longleftrightarrow> length run \<le> 96"
    "reservedGuardPath (lp_events p) ''events.jsonl'' \<longleftrightarrow> length run \<le> 96"
proof -
  from assms have r: "id_test run" and p: "lp_lease p = ''.brain/locks/runs/'' @ encodeRunId run @ ''/'' @ ''lease.json''"
    "lp_events p = ''.brain/locks/runs/'' @ encodeRunId run @ ''/'' @ ''events.jsonl''"
    by (auto simp: lockPaths_Inr lock_root_def split: if_splits)
  have n: "1 \<le> length (encodeRunId run)"
    using r encodeRunId_length [of run] by (cases run) auto
  have "lockScope (''.brain/locks/runs/'' @ encodeRunId run @ ''/'' @ f) \<longleftrightarrow> length run \<le> 96" if "CHR ''/'' \<notin> set f" for f
    unfolding lockScope_def lock_file_segments [OF encodeRunId_slash(1) that]
    using n encoded_fits [of run] encodeRunId_slash(2) [of run] by simp
  moreover have "ends_with (''/'' @ f) (''.brain/locks/runs/'' @ encodeRunId run @ ''/'' @ f)" for f
    by (simp add: ends_with_def starts_with_iff)
  ultimately show "reservedGuardPath (lp_lease p) ''lease.json'' \<longleftrightarrow> length run \<le> 96"
    "reservedGuardPath (lp_events p) ''events.jsonl'' \<longleftrightarrow> length run \<le> 96"
    unfolding reservedGuardPath_def p by simp_all
qed

text \<open>So no transaction accepts the guard of a lease on a run with a longer identifier.\<close>

lemma long_run_guard_refused:
  assumes "lockPaths (''run:'' @ run) = Inr p" "96 < length run"
    and "lb_expected binding = [(lp_events p, events_print), (lp_lease p, lease_print)]"
    and "xo_leaseGuard options = Some binding"
  shows "executeManagedMutation sv plan options m = (Inl (Transaction_failure Internal_failure []), m)"
  using assms guard_admits_short_runs [OF assms(1)]
  by (simp add: executeManagedMutation_def frozen_def freezeExecuteOptions_def freezeLeaseGuard_def throw_def)

end
