(* ===== verification/Gap_Records.thy ===== *)
theory Gap_Records
  imports Gates Transaction_Documents Js_Order
begin

text \<open>
  Gaps, the questions a run's documents cannot answer (\<open>domain/gaps\<close>): which proposed gaps
  are recorded, the owner's verdicts and waivers, and the facts about open gaps that the
  gate \<open>gaps-closed\<close> reads. The last sections follow the records of a run through any
  sequence of these decisions.
\<close>

section \<open>Records\<close>

datatype gap_category = Ambiguous_rule | Document_contradiction | Owner_decision | Unconfirmed_dependency

datatype gap_weight = High_weight | Medium_weight | Low_weight

datatype gap_phase = Gap_prd | Gap_spec

datatype approval_boundary = Pre_approval | Post_approval

datatype gap_verdict = Verdict_accepted | Verdict_adjusted | Verdict_rejected

definition MAX_PROPOSED_GAPS :: nat where "MAX_PROPOSED_GAPS = 64"

definition MAX_DOCUMENT_REFS :: nat where "MAX_DOCUMENT_REFS = 16"

definition MAX_TEXT_LENGTH :: nat where "MAX_TEXT_LENGTH = 2048"

definition MAX_REFERENCE_LENGTH :: nat where "MAX_REFERENCE_LENGTH = 1024"

datatype gap_refusal =
    Conflicting_gap | Conflicting_verdict | Document_ref_limit | Duplicate_proposal_id | Gap_limit
  | Invalid_gap_request | Post_approval_gap | Unknown_gap

record proposed_gap =
  pp_gapId :: string
  pp_category :: gap_category
  pp_weight :: gap_weight
  pp_description :: string
  pp_recommendation :: string
  pp_reasoning :: string
  pp_documentRefs :: "string list"

record gap_resolution =
  gs_decision :: gap_verdict
  gs_documentChanged :: bool
  gs_decidedBy :: string
  gs_decidedAt :: string
  gs_observation :: string

record gap_waiver =
  gw_acknowledgedBy :: string
  gw_acknowledgedAt :: string
  gw_observation :: string

record gap_record =
  gp_gapId :: string
  gp_runId :: string
  gp_phase :: gap_phase
  gp_category :: gap_category
  gp_weight :: gap_weight
  gp_description :: string
  gp_recommendation :: string
  gp_reasoning :: string
  gp_documentRefs :: "string list"
  gp_prdDigest :: string
  gp_specDigest :: string
  gp_policyMode :: gate_mode
  gp_recordedAt :: string
  gp_resolution :: "gap_resolution option"
  gp_waiver :: "gap_waiver option"

definition isOpenGap :: "gap_record \<Rightarrow> bool" where
  "isOpenGap gap \<longleftrightarrow> gp_resolution gap = None \<and> gp_waiver gap = None"

section \<open>Recording proposals\<close>

definition printableText :: "string \<Rightarrow> nat \<Rightarrow> bool" where
  "printableText value maximum \<longleftrightarrow>
     length value > 0 \<and> length value \<le> maximum \<and>
     \<not> list_ex (\<lambda>c. code_unit c < 32 \<or> code_unit c = 127) value"

definition validGap :: "gap_record \<Rightarrow> bool" where
  "validGap gap \<longleftrightarrow> id_test (gp_gapId gap) \<and>
     printableText (gp_description gap) MAX_TEXT_LENGTH \<and>
     printableText (gp_recommendation gap) MAX_TEXT_LENGTH \<and>
     printableText (gp_reasoning gap) MAX_TEXT_LENGTH \<and>
     list_all (\<lambda>ref. printableText ref MAX_REFERENCE_LENGTH) (gp_documentRefs gap) \<and>
     distinct (gp_documentRefs gap)"

definition sameFinding :: "gap_record \<Rightarrow> gap_record \<Rightarrow> bool" where
  "sameFinding left right \<longleftrightarrow>
     gp_runId left = gp_runId right \<and> gp_phase left = gp_phase right \<and> gp_category left = gp_category right \<and>
     gp_weight left = gp_weight right \<and> gp_description left = gp_description right \<and>
     gp_recommendation left = gp_recommendation right \<and> gp_reasoning left = gp_reasoning right \<and>
     gp_documentRefs left = gp_documentRefs right \<and> gp_prdDigest left = gp_prdDigest right \<and>
     gp_specDigest left = gp_specDigest right"

record gap_record_request =
  gq_proposal :: "proposed_gap list"
  gq_runId :: string
  gq_phase :: gap_phase
  gq_boundary :: approval_boundary
  gq_prdDigest :: string
  gq_specDigest :: string
  gq_policyMode :: gate_mode
  gq_recordedAt :: string
  gq_existing :: "gap_record list"

datatype gap_record_decision =
    Gaps_recorded "gap_record list"
  | Gaps_unchanged
  | Gaps_refused gap_refusal

definition gap_candidate :: "gap_record_request \<Rightarrow> proposed_gap \<Rightarrow> gap_record" where
  "gap_candidate request gap = \<lparr> gp_gapId = pp_gapId gap, gp_runId = gq_runId request, gp_phase = gq_phase request,
     gp_category = pp_category gap, gp_weight = pp_weight gap, gp_description = pp_description gap,
     gp_recommendation = pp_recommendation gap, gp_reasoning = pp_reasoning gap, gp_documentRefs = pp_documentRefs gap,
     gp_prdDigest = gq_prdDigest request, gp_specDigest = gq_specDigest request, gp_policyMode = gq_policyMode request,
     gp_recordedAt = gq_recordedAt request, gp_resolution = None, gp_waiver = None \<rparr>"

text \<open>The loop over the proposed gaps: those not on record yet, or the first refusal.\<close>

fun collect_gaps :: "gap_record_request \<Rightarrow> gap_record list \<Rightarrow> proposed_gap list \<Rightarrow> (gap_refusal, gap_record list) result" where
  "collect_gaps request recorded [] = Inr recorded"
| "collect_gaps request recorded (gap # gaps) =
     (let candidate = gap_candidate request gap in
      if \<not> validGap candidate then Inl Invalid_gap_request
      else (case List.find (\<lambda>g. gp_gapId g = gp_gapId candidate) (gq_existing request) of
         None \<Rightarrow> collect_gaps request (recorded @ [candidate]) gaps
       | Some existing \<Rightarrow> if \<not> sameFinding existing candidate then Inl Conflicting_gap
           else collect_gaps request recorded gaps))"

definition decideGapRecord :: "(string \<Rightarrow> string \<Rightarrow> int) \<Rightarrow> gap_record_request \<Rightarrow> gap_record_decision" where
  "decideGapRecord localeCompare request =
     (if \<not> id_test (gq_runId request) \<or> \<not> sha256_test (gq_prdDigest request) \<or> \<not> sha256_test (gq_specDigest request) \<or>
         \<not> timestamp_test (gq_recordedAt request)
      then Gaps_refused Invalid_gap_request
      else if gq_boundary request = Post_approval then Gaps_refused Post_approval_gap
      else if length (gq_proposal request) > MAX_PROPOSED_GAPS then Gaps_refused Gap_limit
      else if \<not> distinct (map pp_gapId (gq_proposal request)) then Gaps_refused Duplicate_proposal_id
      else if list_ex (\<lambda>gap. length (pp_documentRefs gap) > MAX_DOCUMENT_REFS) (gq_proposal request)
      then Gaps_refused Document_ref_limit
      else (case collect_gaps request [] (gq_proposal request) of
         Inl reason \<Rightarrow> Gaps_refused reason
       | Inr recorded \<Rightarrow> if recorded = [] then Gaps_unchanged
           else Gaps_recorded (js_sort (\<lambda>left right. localeCompare (gp_gapId left) (gp_gapId right)) recorded)))"

section \<open>Verdicts and waivers\<close>

record gap_verdict_request =
  gv_gapId :: string
  gv_decision :: gap_verdict
  gv_documentChanged :: bool
  gv_decidedBy :: string
  gv_decidedAt :: string
  gv_observation :: string
  gv_gaps :: "gap_record list"

record gap_waiver_request =
  gx_gapId :: string
  gx_acknowledgedBy :: string
  gx_acknowledgedAt :: string
  gx_observation :: string
  gx_gaps :: "gap_record list"

datatype gap_update_decision =
    Gap_updated gap_record
  | Gap_unchanged gap_record
  | Gap_update_refused gap_refusal

definition sameResolution :: "gap_resolution \<Rightarrow> gap_resolution \<Rightarrow> bool" where
  "sameResolution left right \<longleftrightarrow> gs_decision left = gs_decision right \<and>
     gs_documentChanged left = gs_documentChanged right \<and> gs_decidedBy left = gs_decidedBy right \<and>
     gs_observation left = gs_observation right"

definition sameWaiver :: "gap_waiver \<Rightarrow> gap_waiver \<Rightarrow> bool" where
  "sameWaiver left right \<longleftrightarrow> gw_acknowledgedBy left = gw_acknowledgedBy right \<and> gw_observation left = gw_observation right"

definition gap_named :: "string \<Rightarrow> gap_record list \<Rightarrow> gap_record option" where
  "gap_named gapId gaps = List.find (\<lambda>gap. gp_gapId gap = gapId) gaps"

definition decideGapVerdict :: "gap_verdict_request \<Rightarrow> gap_update_decision" where
  "decideGapVerdict request =
     (case gap_named (gv_gapId request) (gv_gaps request) of
        None \<Rightarrow> Gap_update_refused Unknown_gap
      | Some gap \<Rightarrow>
          if \<not> id_test (gv_decidedBy request) \<or> \<not> timestamp_test (gv_decidedAt request) \<or>
             \<not> printableText (gv_observation request) MAX_TEXT_LENGTH
          then Gap_update_refused Invalid_gap_request
          else let resolution = \<lparr> gs_decision = gv_decision request, gs_documentChanged = gv_documentChanged request,
                 gs_decidedBy = gv_decidedBy request, gs_decidedAt = gv_decidedAt request,
                 gs_observation = gv_observation request \<rparr>
               in case gp_resolution gap of
                    Some current \<Rightarrow>
                      if sameResolution current resolution then Gap_unchanged gap
                      else Gap_update_refused Conflicting_verdict
                  | None \<Rightarrow> Gap_updated (gap\<lparr>gp_resolution := Some resolution\<rparr>))"

definition decideGapWaiver :: "gap_waiver_request \<Rightarrow> gap_update_decision" where
  "decideGapWaiver request =
     (case gap_named (gx_gapId request) (gx_gaps request) of
        None \<Rightarrow> Gap_update_refused Unknown_gap
      | Some gap \<Rightarrow>
          if \<not> id_test (gx_acknowledgedBy request) \<or> \<not> timestamp_test (gx_acknowledgedAt request) \<or>
             \<not> printableText (gx_observation request) MAX_TEXT_LENGTH
          then Gap_update_refused Invalid_gap_request
          else if gp_resolution gap \<noteq> None then Gap_update_refused Conflicting_verdict
          else let waiver = \<lparr> gw_acknowledgedBy = gx_acknowledgedBy request,
                 gw_acknowledgedAt = gx_acknowledgedAt request, gw_observation = gx_observation request \<rparr>
               in case gp_waiver gap of
                    Some current \<Rightarrow>
                      if sameWaiver current waiver then Gap_unchanged gap
                      else Gap_update_refused Conflicting_verdict
                  | None \<Rightarrow> Gap_updated (gap\<lparr>gp_waiver := Some waiver\<rparr>))"

section \<open>The facts the gates read\<close>

record gate_facts =
  ft_runId :: string
  ft_openGaps :: int
  ft_openGapIds :: "string list"
  ft_tripped :: bool
  ft_exhausted :: bool
  ft_partitionRequired :: bool
  ft_partitionApproved :: bool
  ft_derivedAt :: string

record gate_facts_request =
  fr_runId :: string
  fr_gaps :: "gap_record list"
  fr_boundary :: approval_boundary
  fr_tripped :: bool
  fr_exhausted :: bool
  fr_partitionRequired :: bool
  fr_partitionApproved :: bool
  fr_derivedAt :: string

definition deriveGateFacts :: "(string \<Rightarrow> string \<Rightarrow> int) \<Rightarrow> gate_facts_request \<Rightarrow> gate_facts" where
  "deriveGateFacts localeCompare request =
     (let openGapIds = (if fr_boundary request = Post_approval then []
        else js_sort localeCompare (map gp_gapId (filter (\<lambda>gap. gp_runId gap = fr_runId request \<and> isOpenGap gap) (fr_gaps request))))
      in \<lparr> ft_runId = fr_runId request, ft_openGaps = int (length openGapIds), ft_openGapIds = openGapIds,
           ft_tripped = fr_tripped request, ft_exhausted = fr_exhausted request,
           ft_partitionRequired = fr_partitionRequired request, ft_partitionApproved = fr_partitionApproved request,
           ft_derivedAt = fr_derivedAt request \<rparr>)"

definition budgetExhausted :: "int option \<Rightarrow> int \<Rightarrow> bool" where
  "budgetExhausted allocated used =
     (case allocated of
        None \<Rightarrow> False
      | Some a \<Rightarrow> isSafeInteger a \<and> isSafeInteger used \<and> used \<ge> 0 \<and> used \<ge> a)"

section \<open>The records of a run\<close>

text \<open>How the gap commands (\<open>domain/cli/gaps.ts\<close>) carry a decision over to the records.\<close>

definition answered :: "gap_record \<Rightarrow> gap_record list \<Rightarrow> gap_record list" where
  "answered update gaps = map (\<lambda>gap. if gp_gapId gap = gp_gapId update then update else gap) gaps"

inductive gap_step :: "gap_record list \<Rightarrow> gap_record list \<Rightarrow> bool" where
  recorded: "decideGapRecord localeCompare request = Gaps_recorded new \<Longrightarrow> gap_step (gq_existing request) (gq_existing request @ new)"
| verdict: "decideGapVerdict request = Gap_updated gap \<Longrightarrow> gap_step (gv_gaps request) (answered gap (gv_gaps request))"
| waived: "decideGapWaiver request = Gap_updated gap \<Longrightarrow> gap_step (gx_gaps request) (answered gap (gx_gaps request))"

text \<open>What stays of a record: everything but the answers, and every answer once given.\<close>

definition question :: "gap_record \<Rightarrow> gap_record" where
  "question gap = gap\<lparr>gp_resolution := None, gp_waiver := None\<rparr>"

definition keeps_gap :: "gap_record \<Rightarrow> gap_record \<Rightarrow> bool" where
  "keeps_gap g h \<longleftrightarrow> question g = question h \<and>
     (gp_resolution g \<noteq> None \<longrightarrow> gp_resolution h = gp_resolution g) \<and> (gp_waiver g \<noteq> None \<longrightarrow> gp_waiver h = gp_waiver g)"

lemma keeps_refl [simp]: "keeps_gap g g"
  by (simp add: keeps_gap_def)

lemma keeps_trans: "keeps_gap f g \<Longrightarrow> keeps_gap g h \<Longrightarrow> keeps_gap f h"
  by (auto simp: keeps_gap_def)

lemma question_id [simp]: "gp_gapId (question g) = gp_gapId g"
  by (simp add: question_def)

lemma keeps_id: "keeps_gap g h \<Longrightarrow> gp_gapId h = gp_gapId g"
  using question_id [of g] question_id [of h] by (simp add: keeps_gap_def)

lemma gap_named_in: "gap_named i gs = Some g \<Longrightarrow> g \<in> set gs \<and> gp_gapId g = i"
  by (auto simp: gap_named_def find_Some_iff)

lemma collect_gaps_new:
  assumes "collect_gaps request recorded ps = Inr news"
  shows "\<exists>qs. news = recorded @ map (gap_candidate request) qs \<and> set qs \<subseteq> set ps \<and>
    (distinct (map pp_gapId ps) \<longrightarrow> distinct (map pp_gapId qs)) \<and>
    (\<forall>q \<in> set qs. pp_gapId q \<notin> gp_gapId ` set (gq_existing request))"
  using assms
proof (induction request recorded ps rule: collect_gaps.induct)
  case (1 request recorded)
  then show ?case by (intro exI [of _ "[]"]) auto
next
  case (2 request recorded p ps)
  let ?c = "gap_candidate request p"
  have v: "validGap ?c" using 2(3) by (auto simp: Let_def split: if_splits)
  show ?case
  proof (cases "List.find (\<lambda>g. gp_gapId g = gp_gapId ?c) (gq_existing request)")
    case None
    with 2(3) v have "collect_gaps request (recorded @ [?c]) ps = Inr news" by (simp add: Let_def)
    from "2.IH"(1) [OF refl _ None this] v obtain qs where q: "news = (recorded @ [?c]) @ map (gap_candidate request) qs"
      "set qs \<subseteq> set ps" "distinct (map pp_gapId ps) \<longrightarrow> distinct (map pp_gapId qs)"
      "\<forall>q \<in> set qs. pp_gapId q \<notin> gp_gapId ` set (gq_existing request)" by auto
    moreover have "pp_gapId p \<notin> gp_gapId ` set (gq_existing request)"
      using None by (auto simp: find_None_iff gap_candidate_def)
    ultimately show ?thesis by (intro exI [of _ "p # qs"]) auto
  next
    case (Some g)
    with 2(3) v have c: "sameFinding g ?c" "collect_gaps request recorded ps = Inr news" by (auto simp: Let_def split: if_splits)
    from "2.IH"(2) [OF refl _ Some _ c(2)] v c(1) show ?thesis by fastforce
  qed
qed

lemma recorded_new:
  assumes "decideGapRecord localeCompare request = Gaps_recorded new"
  shows "distinct (map gp_gapId new) \<and> gp_gapId ` set new \<inter> gp_gapId ` set (gq_existing request) = {} \<and>
    (\<forall>g \<in> set new. isOpenGap g \<and> gp_runId g = gq_runId request)"
proof -
  let ?cmp = "\<lambda>left right. localeCompare (gp_gapId left) (gp_gapId right)"
  have "\<exists>found. collect_gaps request [] (gq_proposal request) = Inr found \<and> new = js_sort ?cmp found \<and>
      distinct (map pp_gapId (gq_proposal request))"
    using assms by (cases "collect_gaps request [] (gq_proposal request)") (simp_all add: decideGapRecord_def split: if_splits)
  then obtain found where f: "collect_gaps request [] (gq_proposal request) = Inr found"
    and n: "new = js_sort ?cmp found" and d: "distinct (map pp_gapId (gq_proposal request))" by blast
  from collect_gaps_new [OF f] d obtain qs where q: "found = map (gap_candidate request) qs" "distinct (map pp_gapId qs)"
    "\<forall>q \<in> set qs. pp_gapId q \<notin> gp_gapId ` set (gq_existing request)" by auto
  have "gp_gapId \<circ> gap_candidate request = pp_gapId" by (simp add: fun_eq_iff gap_candidate_def)
  then have ids: "map gp_gapId found = map pp_gapId qs" using q(1) by simp
  have "mset (map gp_gapId new) = mset (map gp_gapId found)" by (simp add: n mset_js_sort)
  then have "distinct (map gp_gapId new)" using ids q(2) mset_eq_imp_distinct_iff by metis
  moreover have s: "set new = gap_candidate request ` set qs" by (simp add: n set_js_sort q(1))
  have c: "gp_gapId (gap_candidate request p) = pp_gapId p" "isOpenGap (gap_candidate request p)"
    "gp_runId (gap_candidate request p) = gq_runId request" for p
    by (simp_all add: gap_candidate_def isOpenGap_def)
  have "gp_gapId ` set new \<inter> gp_gapId ` set (gq_existing request) = {}" unfolding s using q(3) c(1) by fastforce
  moreover have "\<forall>g \<in> set new. isOpenGap g \<and> gp_runId g = gq_runId request" unfolding s using c(2,3) by blast
  ultimately show ?thesis by blast
qed

lemma answers_keep:
  "gp_resolution g = None \<Longrightarrow> keeps_gap g (g\<lparr>gp_resolution := r\<rparr>)" "gp_waiver g = None \<Longrightarrow> keeps_gap g (g\<lparr>gp_waiver := w\<rparr>)"
  by (simp_all add: keeps_gap_def question_def)

lemma verdict_keeps:
  assumes "decideGapVerdict v = Gap_updated g"
  shows "\<exists>old. gap_named (gv_gapId v) (gv_gaps v) = Some old \<and> keeps_gap old g"
proof (cases "gap_named (gv_gapId v) (gv_gaps v)")
  case (Some old)
  with assms show ?thesis
    by (cases "gp_resolution old") (auto simp: decideGapVerdict_def Let_def answers_keep(1) split: if_splits)
qed (use assms in \<open>simp add: decideGapVerdict_def\<close>)

lemma waiver_keeps:
  assumes "decideGapWaiver x = Gap_updated g"
  shows "\<exists>old. gap_named (gx_gapId x) (gx_gaps x) = Some old \<and> keeps_gap old g"
proof (cases "gap_named (gx_gapId x) (gx_gaps x)")
  case (Some old)
  with assms show ?thesis
    by (cases "gp_waiver old") (auto simp: decideGapWaiver_def Let_def answers_keep(2) split: if_splits)
qed (use assms in \<open>simp add: decideGapWaiver_def\<close>)

definition gap_ids_unique :: "gap_record list \<Rightarrow> bool" where
  "gap_ids_unique gaps \<longleftrightarrow> distinct (map gp_gapId gaps)"

definition keeps_gaps :: "gap_record list \<Rightarrow> gap_record list \<Rightarrow> bool" where
  "keeps_gaps gaps later \<longleftrightarrow> (\<forall>g \<in> set gaps. \<exists>h \<in> set later. keeps_gap g h)"

lemma keeps_gaps_append: "keeps_gaps gaps (gaps @ new)"
  unfolding keeps_gaps_def using keeps_refl by (metis UnCI set_append)

lemma keeps_gaps_refl: "keeps_gaps gaps gaps"
  using keeps_gaps_append [of gaps "[]"] by simp

lemma keeps_gaps_trans: "keeps_gaps a b \<Longrightarrow> keeps_gaps b c \<Longrightarrow> keeps_gaps a c"
  unfolding keeps_gaps_def using keeps_trans by blast

lemma answered_keeps:
  assumes "gap_ids_unique gaps" "gap_named i gaps = Some old" "keeps_gap old g"
  shows "gap_ids_unique (answered g gaps) \<and> keeps_gaps gaps (answered g gaps)"
proof -
  note o = gap_named_in [OF assms(2)] and k = keeps_id [OF assms(3)]
  have "map gp_gapId (answered g gaps) = map gp_gapId gaps" by (simp add: answered_def)
  moreover have "\<exists>h \<in> set (answered g gaps). keeps_gap f h" if f: "f \<in> set gaps" for f
  proof (cases "gp_gapId f = gp_gapId g")
    case True
    then have "f = old" using f o k assms(1) by (auto simp: gap_ids_unique_def distinct_map dest: inj_onD)
    moreover have "g \<in> set (answered g gaps)" using f True by (auto simp: answered_def intro!: image_eqI [of _ _ f])
    ultimately show ?thesis using assms(3) by blast
  next
    case False
    then have "f \<in> set (answered g gaps)" using f by (auto simp: answered_def intro!: image_eqI [of _ _ f])
    then show ?thesis using keeps_refl by blast
  qed
  ultimately show ?thesis using assms(1) by (simp add: gap_ids_unique_def keeps_gaps_def)
qed

lemma gap_step_keeps:
  assumes "gap_step gaps later" "gap_ids_unique gaps"
  shows "gap_ids_unique later \<and> keeps_gaps gaps later"
  using assms
proof cases
  case (recorded localeCompare request new)
  have "gap_ids_unique later"
    using recorded_new [OF recorded(3)] assms(2) unfolding recorded gap_ids_unique_def by (simp add: Int_commute)
  then show ?thesis using keeps_gaps_append recorded by simp
next
  case (verdict request gap)
  then show ?thesis using verdict_keeps [OF verdict(3)] answered_keeps assms(2) by blast
next
  case (waived request gap)
  then show ?thesis using waiver_keeps [OF waived(3)] answered_keeps assms(2) by blast
qed

section \<open>Properties of gaps\<close>

text \<open>
  C23: Through any sequence of recorded proposals, verdicts and waivers no gap is lost, none
  is rewritten and none is recorded twice: every record is still there with the same
  question, and a verdict or a waiver once given stays as it was given.
\<close>

theorem gap_records_only_grow:
  assumes "gap_step\<^sup>*\<^sup>* gaps later" "distinct (map gp_gapId gaps)"
  shows "distinct (map gp_gapId later) \<and>
    (\<forall>g \<in> set gaps. \<exists>h \<in> set later. question h = question g \<and>
      (gp_resolution g \<noteq> None \<longrightarrow> gp_resolution h = gp_resolution g) \<and> (gp_waiver g \<noteq> None \<longrightarrow> gp_waiver h = gp_waiver g))"
proof -
  have "gap_ids_unique later \<and> keeps_gaps gaps later"
    using assms
  proof (induction rule: rtranclp_induct)
    case base
    then show ?case using keeps_gaps_refl by (simp add: gap_ids_unique_def)
  next
    case (step mid later)
    then show ?case using gap_step_keeps keeps_gaps_trans by blast
  qed
  then show ?thesis unfolding gap_ids_unique_def keeps_gaps_def keeps_gap_def by metis
qed

text \<open>
  The gate \<open>gaps-closed\<close> of a context that takes its count of open gaps from the derived
  facts holds exactly when the specification is approved or every gap of the run has been
  answered by a verdict or a waiver.
\<close>

theorem gaps_gate_exact:
  assumes "gc_openGaps context = ft_openGaps (deriveGateFacts localeCompare request)"
  shows "gate_satisfied context Gaps_closed \<longleftrightarrow> fr_boundary request = Post_approval \<or>
    (\<forall>g \<in> set (fr_gaps request). gp_runId g = fr_runId request \<longrightarrow> gp_resolution g \<noteq> None \<or> gp_waiver g \<noteq> None)"
proof -
  have "filter P gaps = [] \<longleftrightarrow> (\<forall>g \<in> set gaps. \<not> P g)" for P and gaps :: "gap_record list" by (simp add: filter_empty_conv)
  with assms show ?thesis by (simp add: deriveGateFacts_def Let_def isOpenGap_def length_js_sort)
qed

text \<open>One gap, answered by a verdict.\<close>

definition sample_gap :: gap_record where
  "sample_gap = \<lparr> gp_gapId = ''g1'', gp_runId = ''r1'', gp_phase = Gap_spec, gp_category = Owner_decision,
     gp_weight = High_weight, gp_description = ''d'', gp_recommendation = ''r'', gp_reasoning = ''w'',
     gp_documentRefs = [''spec.md''], gp_prdDigest = replicate 64 (CHR ''a''), gp_specDigest = replicate 64 (CHR ''b''),
     gp_policyMode = Enforce, gp_recordedAt = ''2026-01-01T00:00:00Z'', gp_resolution = None, gp_waiver = None \<rparr>"

definition sample_verdict_request :: gap_verdict_request where
  "sample_verdict_request = \<lparr> gv_gapId = ''g1'', gv_decision = Verdict_adjusted, gv_documentChanged = True,
     gv_decidedBy = ''owner'', gv_decidedAt = ''2026-01-02T00:00:00Z'', gv_observation = ''ok'', gv_gaps = [sample_gap] \<rparr>"

definition sample_answered_gap :: gap_record where
  "sample_answered_gap = sample_gap\<lparr>gp_resolution := Some \<lparr> gs_decision = Verdict_adjusted, gs_documentChanged = True,
     gs_decidedBy = ''owner'', gs_decidedAt = ''2026-01-02T00:00:00Z'', gs_observation = ''ok'' \<rparr>\<rparr>"

lemma sample_gap_step: "gap_step [sample_gap] [sample_answered_gap]"
proof -
  have "decideGapVerdict sample_verdict_request = Gap_updated sample_answered_gap" by code_simp
  from gap_step.verdict [OF this] show ?thesis
    by (simp add: sample_verdict_request_def answered_def sample_gap_def sample_answered_gap_def)
qed

theorem gap_records_only_grow_witness: "question sample_answered_gap = question sample_gap"
  using gap_records_only_grow [OF r_into_rtranclp [of gap_step, OF sample_gap_step]] by simp

theorem gaps_gate_exact_witness:
  "\<exists>ctx. gc_openGaps ctx = 0 \<and> gate_satisfied ctx Gaps_closed"
proof -
  let ?r = "\<lparr> fr_runId = ''r1'', fr_gaps = [sample_answered_gap], fr_boundary = Pre_approval, fr_tripped = False,
    fr_exhausted = False, fr_partitionRequired = False, fr_partitionApproved = False, fr_derivedAt = [] \<rparr>"
  obtain ctx :: gate_context where c: "gc_openGaps ctx = ft_openGaps (deriveGateFacts text_compare ?r)"
    by (rule that [of "undefined\<lparr>gc_openGaps := ft_openGaps (deriveGateFacts text_compare ?r)\<rparr>"]) simp
  have "ft_openGaps (deriveGateFacts text_compare ?r) = 0"
    by (simp add: deriveGateFacts_def isOpenGap_def sample_answered_gap_def)
  moreover have "gate_satisfied ctx Gaps_closed"
    unfolding gaps_gate_exact [OF c] by (simp add: sample_answered_gap_def)
  ultimately show ?thesis using c by auto
qed

end
