(* ===== verification/Markdown_Lines.thy ===== *)
theory Markdown_Lines
  imports Managed_Paths
begin

text \<open>
  The lines of the documents people write: \<open>content.split(/\r?\n/)\<close> as the parsers of the scope
  document and of the task document use it, and the characters their expressions name.
\<close>

section \<open>Lines\<close>

text \<open>\<open>content.split(/\r?\n/)\<close>: a carriage return before the line feed belongs to the separator.\<close>

definition drop_return :: "string \<Rightarrow> string" where
  "drop_return line = (if line \<noteq> [] \<and> code_unit (List.last line) = 13 then butlast line else line)"

definition line_feed :: char where
  "line_feed = CHR 0x0A"

definition split_lines :: "string \<Rightarrow> string list" where
  "split_lines content =
     (let parts = split_on line_feed content in map drop_return (butlast parts) @ [List.last parts])"

text \<open>The dot of a regular expression matches every character but line terminators.\<close>

definition dot_char :: "char \<Rightarrow> bool" where
  "dot_char c \<longleftrightarrow> code_unit c \<noteq> 10 \<and> code_unit c \<noteq> 13"

definition backtick :: char where
  "backtick = CHR 0x60"

text \<open>A rendered document ends with a line feed, so its last line is empty.\<close>

lemma split_rendered:
  assumes "lines \<noteq> []" "\<forall>l \<in> set lines. line_feed \<notin> set l" "\<forall>l \<in> set lines. drop_return l = l"
  shows "split_lines (join_with line_feed lines @ [line_feed]) = lines @ ['''']"
proof -
  have "split_on line_feed (join_with line_feed lines @ [line_feed]) = split_on line_feed (join_with line_feed lines) @ split_on line_feed []"
    using split_on_append [of line_feed "join_with line_feed lines" "[]"] by simp
  then show ?thesis
    using split_join [OF assms(1,2)] assms(3) by (simp add: split_lines_def map_idI)
qed

end
