(* ===== verification/Write_Guard.thy ===== *)
theory Write_Guard
  imports Markdown_Lines
begin

text \<open>
  The write guard (\<open>domain/write-guard\<close>): the glob dialect of a feature's scope
  (\<open>glob-policy.ts\<close>), the decision on one write target (\<open>decision.ts\<close>) and the scope
  sections of a reviewed document (\<open>scope-document.ts\<close>). A glob is compiled to the items of
  its regular expression instead of to its text; matching tries the items in order.
\<close>

section \<open>Globs\<close>

text \<open>
  \<open>(?:.*/)?\<close>, \<open>.*\<close>, \<open>[^/]*\<close>, \<open>[^/]\<close>, a class with its ranges (negated classes exclude the
  slash as well), and a literal character.
\<close>

datatype glob_item =
    Any_directories
  | Any_text
  | Any_name
  | Any_character
  | Char_class bool "(char \<times> char) list"
  | Literal char

definition plain_relative_segments :: "string \<Rightarrow> bool" where
  "plain_relative_segments pattern \<longleftrightarrow> list_all (\<lambda>s. s \<noteq> ''.'' \<and> s \<noteq> ''..'') (segments_of pattern)"

definition isSafeProjectRelativePattern :: "string \<Rightarrow> bool" where
  "isSafeProjectRelativePattern pattern \<longleftrightarrow>
     length pattern > 0 \<and> length pattern \<le> 1024 \<and> \<not> starts_with ''/'' pattern \<and>
     \<not> (driveLetterPattern pattern \<and> starts_with ''/'' (drop 2 pattern)) \<and>
     CHR 0x5C \<notin> set pattern \<and> CHR 0x60 \<notin> set pattern \<and>
     '''' \<notin> set (tl (segments_of pattern)) \<and>
     plain_relative_segments pattern \<and> \<not> hasControlCharacter pattern"

definition safeCharacterRange :: "char \<Rightarrow> char \<Rightarrow> bool" where
  "safeCharacterRange low high \<longleftrightarrow> code_unit low \<le> code_unit high \<and>
     \<not> (code_unit low \<le> code_unit (CHR ''/'') \<and> code_unit (CHR ''/'') \<le> code_unit high)"

fun class_ranges :: "string \<Rightarrow> (char \<times> char) list option" where
  "class_ranges [] = Some []"
| "class_ranges [a] = Some [(a, a)]"
| "class_ranges [a, b] = Some [(a, a), (b, b)]"
| "class_ranges (a # b # c # rest) =
     (if b = CHR ''-'' then
        if \<not> safeCharacterRange a c then None else map_option ((#) (a, c)) (class_ranges rest)
      else map_option ((#) (a, a)) (class_ranges (b # c # rest)))"

definition compileCharacterClass :: "string \<Rightarrow> glob_item option" where
  "compileCharacterClass content =
     (let negated = starts_with ''!'' content; body = (if negated then tl content else content) in
      if body = [] \<or> CHR ''/'' \<in> set body \<or> CHR ''['' \<in> set body \<or> CHR 0x5C \<in> set body then None
      else map_option (Char_class negated) (class_ranges body))"

text \<open>
  The loop over the pattern: the flag tells whether the position is the first of a segment.
\<close>

function (sequential) compile_items :: "bool \<Rightarrow> string \<Rightarrow> glob_item list option" where
  "compile_items first [] = Some []"
| "compile_items first (c # rest) =
     (if c = CHR ''*'' then
        if first \<and> starts_with ''*'' rest \<and> (tl rest = [] \<or> starts_with ''/'' (tl rest)) then
          if starts_with ''/'' (tl rest)
          then map_option ((#) Any_directories) (compile_items True (drop 2 rest))
          else map_option ((#) Any_text) (compile_items False (drop 1 rest))
        else map_option ((#) Any_name) (compile_items False rest)
      else if c = CHR ''?'' then map_option ((#) Any_character) (compile_items False rest)
      else if c = CHR ''['' then
        if CHR '']'' \<notin> set rest then None
        else (case compileCharacterClass (takeWhile (\<lambda>d. d \<noteq> CHR '']'') rest) of
           None \<Rightarrow> None
         | Some item \<Rightarrow> map_option ((#) item) (compile_items False (drop 1 (dropWhile (\<lambda>d. d \<noteq> CHR '']'') rest))))
      else map_option ((#) (Literal c)) (compile_items (c = CHR ''/'') rest))"
  by pat_completeness auto
termination
proof (relation "measure (\<lambda>(first, s). length s)")
  fix rest :: string
  show "((False, drop 1 (dropWhile (\<lambda>d. d \<noteq> CHR '']'') rest)), first, c # rest) \<in> measure (\<lambda>(first, s). length s)" for first c
    using length_dropWhile_le [of "\<lambda>d. d \<noteq> CHR '']''" rest] by simp
qed auto

definition compileGlob :: "string \<Rightarrow> glob_item list option" where
  "compileGlob pattern = (if \<not> isSafeProjectRelativePattern pattern then None else compile_items True pattern)"

definition in_class :: "bool \<Rightarrow> (char \<times> char) list \<Rightarrow> char \<Rightarrow> bool" where
  "in_class negated ranges c \<longleftrightarrow>
     (let found = list_ex (\<lambda>(a, b). code_unit a \<le> code_unit c \<and> code_unit c \<le> code_unit b) ranges
      in if negated then c \<noteq> CHR ''/'' \<and> \<not> found else found)"

text \<open>The texts that may follow \<open>.*/\<close>.\<close>

fun after_slashes :: "string \<Rightarrow> string list" where
  "after_slashes [] = []"
| "after_slashes (d # ds) = (if d = CHR ''/'' then [ds] else []) @ (if dot_char d then after_slashes ds else [])"

function (sequential) items_match :: "glob_item list \<Rightarrow> string \<Rightarrow> bool" where
  "items_match [] t \<longleftrightarrow> t = []"
| "items_match (Literal c # items) t \<longleftrightarrow> (case t of [] \<Rightarrow> False | d # ds \<Rightarrow> d = c \<and> items_match items ds)"
| "items_match (Any_character # items) t \<longleftrightarrow> (case t of [] \<Rightarrow> False | d # ds \<Rightarrow> d \<noteq> CHR ''/'' \<and> items_match items ds)"
| "items_match (Char_class negated ranges # items) t \<longleftrightarrow>
     (case t of [] \<Rightarrow> False | d # ds \<Rightarrow> in_class negated ranges d \<and> items_match items ds)"
| "items_match (Any_name # items) t \<longleftrightarrow> items_match items t \<or>
     (case t of [] \<Rightarrow> False | d # ds \<Rightarrow> d \<noteq> CHR ''/'' \<and> items_match (Any_name # items) ds)"
| "items_match (Any_text # items) t \<longleftrightarrow> items_match items t \<or>
     (case t of [] \<Rightarrow> False | d # ds \<Rightarrow> dot_char d \<and> items_match (Any_text # items) ds)"
| "items_match (Any_directories # items) t \<longleftrightarrow> items_match items t \<or> list_ex (items_match items) (after_slashes t)"
  by pat_completeness auto
termination by (relation "measures [\<lambda>(items, t). length items, \<lambda>(items, t). length t]") auto

definition globMatches :: "string \<Rightarrow> string \<Rightarrow> bool" where
  "globMatches pattern target = (case compileGlob pattern of None \<Rightarrow> False | Some items \<Rightarrow> items_match items target)"

fun match_ordered :: "bool \<Rightarrow> string list \<Rightarrow> string \<Rightarrow> bool" where
  "match_ordered matched [] target = matched"
| "match_ordered matched (pattern # patterns) target =
     (let negated = starts_with ''!'' pattern; expression = (if negated then tl pattern else pattern) in
      match_ordered (if globMatches expression target then \<not> negated else matched) patterns target)"

definition matchesOrderedGlobs :: "string list \<Rightarrow> string \<Rightarrow> bool" where
  "matchesOrderedGlobs patterns target = match_ordered False patterns target"

definition isPathGlob :: "string \<Rightarrow> bool" where
  "isPathGlob pattern \<longleftrightarrow>
     (let expression = (if starts_with ''!'' pattern then tl pattern else pattern) in
      length expression > 0 \<and> \<not> starts_with ''!'' expression \<and> compileGlob expression \<noteq> None)"

section \<open>What a glob means\<close>

text \<open>
  The reference reading of a compiled glob: the target is cut into consecutive parts, one per
  item, and each part belongs to its item.
\<close>

fun item_accepts :: "glob_item \<Rightarrow> string \<Rightarrow> bool" where
  "item_accepts (Literal c) s \<longleftrightarrow> s = [c]"
| "item_accepts Any_character s \<longleftrightarrow> (\<exists>d. s = [d] \<and> d \<noteq> CHR ''/'')"
| "item_accepts (Char_class negated ranges) s \<longleftrightarrow> (\<exists>d. s = [d] \<and> in_class negated ranges d)"
| "item_accepts Any_name s \<longleftrightarrow> CHR ''/'' \<notin> set s"
| "item_accepts Any_text s \<longleftrightarrow> list_all dot_char s"
| "item_accepts Any_directories s \<longleftrightarrow> s = [] \<or> (\<exists>u. s = u @ ''/'' \<and> list_all dot_char u)"

definition glob_language :: "glob_item list \<Rightarrow> string \<Rightarrow> bool" where
  "glob_language items t \<longleftrightarrow> (\<exists>parts. list_all2 item_accepts items parts \<and> t = concat parts)"

lemma language_Nil [simp]: "glob_language [] t \<longleftrightarrow> t = []"
  by (auto simp: glob_language_def)

lemma language_Cons:
  "glob_language (item # items) t \<longleftrightarrow> (\<exists>s r. t = s @ r \<and> item_accepts item s \<and> glob_language items r)"
proof
  assume "glob_language (item # items) t"
  then show "\<exists>s r. t = s @ r \<and> item_accepts item s \<and> glob_language items r"
    unfolding glob_language_def list_all2_Cons1 by force
next
  assume "\<exists>s r. t = s @ r \<and> item_accepts item s \<and> glob_language items r"
  then obtain s parts where "t = s @ concat parts" "item_accepts item s" "list_all2 item_accepts items parts"
    unfolding glob_language_def by blast
  then show "glob_language (item # items) t"
    unfolding glob_language_def by (intro exI [of _ "s # parts"]) simp
qed

text \<open>One character of the target at a time, for an item that accepts single characters or runs.\<close>

lemma cut_cases:
  "(\<exists>s r. t = s @ r \<and> A s r) \<longleftrightarrow> A [] t \<or> (\<exists>d s r. t = d # s @ r \<and> A (d # s) r)"
  (is "?cut \<longleftrightarrow> ?cases")
proof
  assume ?cut
  then obtain s r where sr: "t = s @ r" "A s r" by blast
  then show ?cases by (cases s) auto
next
  assume ?cases
  then show ?cut by (metis append_Cons append_Nil)
qed

lemma one_character:
  "(\<exists>s r. t = s @ r \<and> (\<exists>d. s = [d] \<and> P d) \<and> Q r) \<longleftrightarrow> (case t of [] \<Rightarrow> False | d # ds \<Rightarrow> P d \<and> Q ds)"
  by (subst cut_cases) (cases t, auto)

lemma run_of_characters:
  "(\<exists>s r. t = s @ r \<and> list_all P s \<and> Q r) \<longleftrightarrow>
     Q t \<or> (case t of [] \<Rightarrow> False | d # ds \<Rightarrow> P d \<and> (\<exists>s r. ds = s @ r \<and> list_all P s \<and> Q r))"
  by (subst cut_cases) (cases t, auto)

lemma after_slashes_iff: "r \<in> set (after_slashes t) \<longleftrightarrow> (\<exists>u. t = u @ CHR ''/'' # r \<and> list_all dot_char u)"
proof (induction t)
  case (Cons d ds)
  show ?case
    by (auto simp: Cons append_eq_Cons_conv Cons_eq_append_conv)
qed simp

lemma items_match_language: "items_match items t \<longleftrightarrow> glob_language items t"
proof (induction items t rule: items_match.induct)
  case (5 items t)
  have name: "item_accepts Any_name = list_all (\<lambda>d. d \<noteq> CHR ''/'')"
    by (rule ext) (auto simp: list_all_iff)
  show ?case unfolding language_Cons name
    by (subst run_of_characters) (use 5 in \<open>auto simp: language_Cons name split: list.splits\<close>)
next
  case (6 items t)
  show ?case unfolding language_Cons item_accepts.simps
    by (subst run_of_characters) (use 6 in \<open>auto simp: language_Cons split: list.splits\<close>)
next
  case (7 items t)
  have "items_match (Any_directories # items) t \<longleftrightarrow>
      glob_language items t \<or> (\<exists>u r. t = u @ CHR ''/'' # r \<and> list_all dot_char u \<and> glob_language items r)"
    using 7 by (auto simp: list_ex_iff after_slashes_iff)
  also have "\<dots> \<longleftrightarrow> glob_language (Any_directories # items) t"
    unfolding language_Cons item_accepts.simps
  proof
    assume "glob_language items t \<or> (\<exists>u r. t = u @ CHR ''/'' # r \<and> list_all dot_char u \<and> glob_language items r)"
    then show "\<exists>s r. t = s @ r \<and> (s = [] \<or> (\<exists>u. s = u @ ''/'' \<and> list_all dot_char u)) \<and> glob_language items r"
    proof
      assume "\<exists>u r. t = u @ CHR ''/'' # r \<and> list_all dot_char u \<and> glob_language items r"
      then obtain u r where "t = (u @ ''/'') @ r" "list_all dot_char u" "glob_language items r" by auto
      then show ?thesis by blast
    qed auto
  qed auto
  finally show ?case .
qed (auto simp: language_Cons one_character split: list.splits)

section \<open>A glob without a globstar keeps its depth\<close>

definition slashes :: "string \<Rightarrow> nat" where
  "slashes s = length (filter (\<lambda>c. c = CHR ''/'') s)"

fun item_slashes :: "glob_item \<Rightarrow> nat" where
  "item_slashes (Literal c) = (if c = CHR ''/'' then 1 else 0)"
| "item_slashes _ = 0"

definition flat_item :: "glob_item \<Rightarrow> bool" where
  "flat_item item \<longleftrightarrow> item \<noteq> Any_directories \<and> item \<noteq> Any_text \<and>
     (\<forall>negated ranges. item = Char_class negated ranges \<longrightarrow> \<not> in_class negated ranges (CHR ''/''))"

lemma slashes_simps [simp]:
  "slashes [] = 0" "slashes (c # s) = (if c = CHR ''/'' then Suc (slashes s) else slashes s)"
  "slashes (s @ r) = slashes s + slashes r"
  by (simp_all add: slashes_def)

lemma slashes_free: "CHR ''/'' \<notin> set s \<Longrightarrow> slashes s = 0"
  by (induction s) auto

lemma length_segments: "length (segments_of s) = Suc (slashes s)"
  unfolding segments_of_def by (induction s) (auto split: list.splits)

lemma code_unit_slash: "code_unit c = 47 \<longleftrightarrow> c = CHR ''/''"
proof
  assume "code_unit c = 47"
  then have "of_char c = (of_char (CHR ''/'') :: nat)" by (simp add: code_unit_def)
  then show "c = CHR ''/''" by (simp only: of_char_eq_iff)
qed (simp add: code_unit_def)

lemma class_ranges_avoid_slash:
  "class_ranges body = Some ranges \<Longrightarrow> CHR ''/'' \<notin> set body \<Longrightarrow> \<not> in_class False ranges (CHR ''/'')"
proof (induction body arbitrary: ranges rule: class_ranges.induct)
  case (4 a b c rest)
  then show ?case
    by (auto simp: in_class_def safeCharacterRange_def code_unit_slash code_unit_slash [THEN iffD2] dest: le_antisym split: if_splits)
qed (auto simp: in_class_def code_unit_slash [THEN iffD2] dest: le_antisym simp: code_unit_slash)

lemma in_class_slash: "\<not> in_class False ranges (CHR ''/'') \<Longrightarrow> \<not> in_class negated ranges (CHR ''/'')"
  by (cases negated) (auto simp: in_class_def)

lemma compiled_class_flat:
  assumes "compileCharacterClass content = Some item"
  shows "flat_item item" "item_slashes item = 0" "CHR ''/'' \<notin> set content"
proof -
  define body where "body = (if starts_with ''!'' content then tl content else content)"
  have free: "CHR ''/'' \<notin> set body" and "\<exists>ranges. class_ranges body = Some ranges \<and> item = Char_class (starts_with ''!'' content) ranges"
    using assms by (auto simp: compileCharacterClass_def body_def [symmetric] Let_def split: if_splits)
  then obtain ranges where ranges: "class_ranges body = Some ranges" "item = Char_class (starts_with ''!'' content) ranges"
    by blast
  show "flat_item item"
    using in_class_slash [OF class_ranges_avoid_slash [OF ranges(1) free]] by (simp add: flat_item_def ranges(2))
  show "item_slashes item = 0" by (simp add: ranges(2))
  show "CHR ''/'' \<notin> set content"
    using free by (cases "starts_with ''!'' content") (auto simp: body_def starts_with_iff)
qed

text \<open>No segment the compiler still has to start is a globstar.\<close>

definition no_globstar :: "bool \<Rightarrow> string \<Rightarrow> bool" where
  "no_globstar start s \<longleftrightarrow> ''**'' \<notin> set (if start then segments_of s else tl (segments_of s))"

lemma segments_Cons:
  "segments_of (c # s) = (if c = CHR ''/'' then [] # segments_of s else (c # hd (segments_of s)) # tl (segments_of s))"
  unfolding segments_of_def by (auto split: list.splits)

lemma tl_segments_prefix: "CHR ''/'' \<notin> set u \<Longrightarrow> tl (segments_of (u @ r)) = tl (segments_of r)"
  by (induction u) (auto simp: segments_Cons)

lemma no_globstar_slash: "no_globstar start (CHR ''/'' # s) \<Longrightarrow> no_globstar True s"
  by (cases start) (auto simp: no_globstar_def segments_Cons)

lemma no_globstar_prefix: "no_globstar start (u @ s) \<Longrightarrow> CHR ''/'' \<notin> set u \<Longrightarrow> no_globstar False s"
  using tl_segments_prefix [of u s] by (cases start) (auto simp: no_globstar_def, metis list.sel(2) list.set_sel(2))

lemma no_globstar_complete:
  assumes "no_globstar True (CHR ''*'' # rest)" "starts_with ''*'' rest" "tl rest = [] \<or> starts_with ''/'' (tl rest)"
  shows False
proof -
  from assms(2) obtain r where r: "rest = CHR ''*'' # r" by (auto simp: starts_with_iff)
  with assms(3) have "r = [] \<or> (\<exists>r'. r = CHR ''/'' # r')" by (auto simp: starts_with_iff)
  then have "''**'' \<in> set (segments_of (CHR ''*'' # rest))"
    by (auto simp: r segments_Cons) (simp add: segments_of_def)
  with assms(1) show False by (simp add: no_globstar_def)
qed

lemma class_split:
  assumes "CHR '']'' \<in> set rest"
  shows "rest = takeWhile (\<lambda>d. d \<noteq> CHR '']'') rest @ CHR '']'' # drop 1 (dropWhile (\<lambda>d. d \<noteq> CHR '']'') rest)"
proof -
  have "dropWhile (\<lambda>d. d \<noteq> CHR '']'') rest \<noteq> []" using assms by simp
  then obtain d r where dr: "dropWhile (\<lambda>d. d \<noteq> CHR '']'') rest = d # r" by (cases "dropWhile (\<lambda>d. d \<noteq> CHR '']'') rest") auto
  then have "d = CHR '']''" using hd_dropWhile [of "\<lambda>d. d \<noteq> CHR '']''" rest] by force
  then show ?thesis using takeWhile_dropWhile_id [of "\<lambda>d. d \<noteq> CHR '']''" rest] dr by simp
qed

lemma compiled_items_flat:
  "compile_items start s = Some items \<Longrightarrow> no_globstar start s \<Longrightarrow>
     list_all flat_item items \<and> sum_list (map item_slashes items) = slashes s"
proof (induction start s arbitrary: items rule: compile_items.induct)
  case (2 start c rest)
  consider (star) "c = CHR ''*''" | (one) "c = CHR ''?''" | (cls) "c = CHR ''[''"
    | (lit) "c \<noteq> CHR ''*''" "c \<noteq> CHR ''?''" "c \<noteq> CHR ''[''" by blast
  then show ?case
  proof cases
    case star
    have "\<not> (start \<and> starts_with ''*'' rest \<and> (tl rest = [] \<or> starts_with ''/'' (tl rest)))"
      using no_globstar_complete [of rest] 2(8) star by auto
    moreover have "no_globstar False rest" using no_globstar_prefix [of start "''*''" rest] 2(8) star by simp
    ultimately show ?thesis using 2(3) 2(7) star by (auto simp: flat_item_def)
  next
    case one
    have "no_globstar False rest" using no_globstar_prefix [of start "''?''" rest] 2(8) one by simp
    then show ?thesis using 2(4) 2(7) one by (auto simp: flat_item_def)
  next
    case cls
    define content where "content = takeWhile (\<lambda>d. d \<noteq> CHR '']'') rest"
    define after where "after = drop 1 (dropWhile (\<lambda>d. d \<noteq> CHR '']'') rest)"
    from 2(7) cls have closed: "CHR '']'' \<in> set rest" by (auto split: if_splits)
    with 2(7) cls obtain item items' where item: "compileCharacterClass content = Some item"
      "compile_items False after = Some items'" "items = item # items'"
      by (auto simp: content_def after_def split: option.splits)
    note flat = compiled_class_flat [OF item(1)]
    have whole: "c # rest = (CHR ''['' # content @ [CHR '']'']) @ after"
      using class_split [OF closed] cls by (simp add: content_def after_def)
    have "no_globstar False after"
      using no_globstar_prefix [of start "CHR ''['' # content @ [CHR '']'']" after] 2(8) flat(3) unfolding whole by simp
    then have "list_all flat_item items' \<and> sum_list (map item_slashes items') = slashes after"
      using 2(5) cls closed item(1,2) by (simp add: content_def after_def)
    moreover have "slashes (c # rest) = slashes after" unfolding whole using slashes_free [OF flat(3)] by simp
    ultimately show ?thesis using flat(1,2) item(3) by simp
  next
    case lit
    have "no_globstar (c = CHR ''/'') rest"
      using no_globstar_slash [of start rest] no_globstar_prefix [of start "[c]" rest] 2(8)
      by (cases "c = CHR ''/''") auto
    then show ?thesis using 2(6) 2(7) lit by (auto simp: flat_item_def)
  qed
qed simp

lemma flat_item_slashes: "flat_item item \<Longrightarrow> item_accepts item s \<Longrightarrow> slashes s = item_slashes item"
  by (cases item) (auto simp: flat_item_def slashes_free)

lemma flat_language_slashes:
  "list_all flat_item items \<Longrightarrow> glob_language items t \<Longrightarrow> slashes t = sum_list (map item_slashes items)"
  by (induction items arbitrary: t) (auto simp: language_Cons flat_item_slashes)

lemma glob_keeps_depth:
  assumes "globMatches pattern target" "''**'' \<notin> set (segments_of pattern)"
  shows "length (segments_of target) = length (segments_of pattern)"
proof -
  from assms(1) obtain items where items: "compile_items True pattern = Some items" "items_match items target"
    by (auto simp: globMatches_def compileGlob_def split: option.splits if_splits)
  with assms(2) show ?thesis
    using compiled_items_flat [OF items(1)] flat_language_slashes [of items target]
    by (simp add: no_globstar_def items_match_language length_segments)
qed

lemma glob_keeps_depth_witness:
  "length (segments_of ''src/app.ts'') = length (segments_of ''src/*.ts'')"
  by (rule glob_keeps_depth) code_simp+

section \<open>Ordered patterns\<close>

definition pattern_negated :: "string \<Rightarrow> bool" where
  "pattern_negated pattern \<longleftrightarrow> starts_with ''!'' pattern"

definition pattern_matches :: "string \<Rightarrow> string \<Rightarrow> bool" where
  "pattern_matches pattern target \<longleftrightarrow> globMatches (if pattern_negated pattern then tl pattern else pattern) target"

lemma match_ordered_append:
  "match_ordered matched (ps @ qs) target = match_ordered (match_ordered matched ps target) qs target"
  by (induction ps arbitrary: matched) (auto simp: Let_def)

text \<open>The last pattern that matches decides.\<close>

definition selected_by :: "string list \<Rightarrow> string \<Rightarrow> bool" where
  "selected_by patterns target =
     (case List.find (\<lambda>p. pattern_matches p target) (rev patterns) of
        None \<Rightarrow> False
      | Some pattern \<Rightarrow> \<not> pattern_negated pattern)"

lemma matchesOrderedGlobs_iff: "matchesOrderedGlobs patterns target \<longleftrightarrow> selected_by patterns target"
  unfolding matchesOrderedGlobs_def selected_by_def
  by (induction patterns rule: rev_induct)
     (simp_all add: match_ordered_append pattern_matches_def pattern_negated_def Let_def)

section \<open>The decision on one target\<close>

datatype write_guard_reason =
    Guard_write_block
  | Guard_scope_deny
  | Guard_outside_allow
  | Guard_scope_corrupt
  | Guard_path path_reason

datatype write_target_decision = Write_allowed string | Write_refused write_guard_reason string

text \<open>The globs of a \<open>FeatureScopeV1\<close>; its two version constants carry no information.\<close>

record feature_scope =
  fs_allow :: "string list"
  fs_deny :: "string list"

definition sameList :: "string list \<Rightarrow> string list \<Rightarrow> bool" where
  "sameList left right \<longleftrightarrow> length left = length right \<and> list_all (\<lambda>i. left ! i = right ! i) [0..<length left]"

definition scopesAgree :: "feature_scope \<Rightarrow> feature_scope \<Rightarrow> bool" where
  "scopesAgree recorded reviewed \<longleftrightarrow>
     sameList (fs_allow recorded) (fs_allow reviewed) \<and> sameList (fs_deny recorded) (fs_deny reviewed)"

definition isRealEnvironmentFile :: "string \<Rightarrow> bool" where
  "isRealEnvironmentFile basename =
     (if basename = ''.env'' then True
      else if \<not> starts_with ''.env.'' basename then False
      else \<not> list_ex (\<lambda>part. part = ''example'' \<or> part = ''sample'' \<or> part = ''template'')
              (split_on (CHR ''.'') (drop 5 basename)))"

definition immutableWriteBlock :: "string \<Rightarrow> bool" where
  "immutableWriteBlock target =
     (let segments = segments_of target; basename = List.last segments in
      ''migrations'' \<in> set segments \<or> basename = ''AGENTS.md'' \<or> basename = ''CLAUDE.md'' \<or>
      isRealEnvironmentFile basename)"

definition isBrainTarget :: "string \<Rightarrow> bool" where
  "isBrainTarget target = starts_with ''.brain/'' target"

text \<open>
  \<open>writeBlocks\<close> are those of the guardrails, empty where the guardrails or their field are
  absent.
\<close>

definition decideWriteTarget ::
  "string \<Rightarrow> feature_scope option \<Rightarrow> feature_scope option \<Rightarrow> string list \<Rightarrow> write_target_decision" where
  "decideWriteTarget given scope reviewerScope writeBlocks =
     (case canonicalizeProjectPath given None of
        Refused_path reason resolved \<Rightarrow> Write_refused (Guard_path reason) resolved
      | Canonical target \<Rightarrow>
          if immutableWriteBlock target \<or> matchesOrderedGlobs writeBlocks target
          then Write_refused Guard_write_block target
          else if scope \<noteq> None \<and> reviewerScope \<noteq> None \<and> \<not> scopesAgree (the scope) (the reviewerScope)
          then Write_refused Guard_scope_corrupt target
          else (case scope of
              None \<Rightarrow> Write_allowed target
            | Some s \<Rightarrow>
                if matchesOrderedGlobs (fs_deny s) target then Write_refused Guard_scope_deny target
                else if \<not> isBrainTarget target \<and> length (fs_allow s) > 0 \<and>
                  \<not> matchesOrderedGlobs (fs_allow s) target
                then Write_refused Guard_outside_allow target
                else Write_allowed target))"

section \<open>A write request\<close>

text \<open>\<open>evaluateWriteRequest\<close> of \<open>application/write-guard/policy.ts\<close>.\<close>

record canonical_target =
  ct_ordinal :: nat
  ct_lexicalPath :: string
  ct_canonicalPath :: string

datatype policy_problem =
    Active_feature_corrupt
  | Guardrails_corrupt
  | Guardrails_missing
  | Scope_corrupt_state

datatype policy_state =
    Valid_policy "string list" "feature_scope option" "feature_scope option"
  | Invalid_policy "string list" policy_problem string

datatype policy_refusal = Refusal_of_target write_guard_reason | Refusal_of_policy policy_problem

datatype policy_evaluation = Request_allowed | Request_refused policy_refusal string

definition targetIdentities :: "canonical_target \<Rightarrow> string list" where
  "targetIdentities target =
     (if ct_lexicalPath target = ct_canonicalPath target then [ct_lexicalPath target]
      else [ct_lexicalPath target, ct_canonicalPath target])"

text \<open>The loop over the identities of one target: the reason of the first refusal.\<close>

fun first_refusal :: "(string \<Rightarrow> write_target_decision) \<Rightarrow> string list \<Rightarrow> write_guard_reason option" where
  "first_refusal decide [] = None"
| "first_refusal decide (identity # identities) =
     (case decide identity of
        Write_refused reason _ \<Rightarrow> Some reason
      | Write_allowed _ \<Rightarrow> first_refusal decide identities)"

fun evaluateWriteRequest :: "canonical_target list \<Rightarrow> policy_state \<Rightarrow> policy_evaluation" where
  "evaluateWriteRequest [] state = Request_allowed"
| "evaluateWriteRequest (target # targets) (Invalid_policy writeBlocks reason evidenceRef) =
     (case first_refusal (\<lambda>identity. decideWriteTarget identity None None writeBlocks) (targetIdentities target) of
        Some refusal \<Rightarrow> Request_refused (Refusal_of_target refusal) (ct_lexicalPath target)
      | None \<Rightarrow>
          if \<not> list_all isBrainTarget (targetIdentities target)
          then Request_refused (Refusal_of_policy reason) evidenceRef
          else evaluateWriteRequest targets (Invalid_policy writeBlocks reason evidenceRef))"
| "evaluateWriteRequest (target # targets) (Valid_policy writeBlocks scope reviewerScope) =
     (case first_refusal (\<lambda>identity. decideWriteTarget identity scope reviewerScope writeBlocks)
             (targetIdentities target) of
        Some refusal \<Rightarrow> Request_refused (Refusal_of_target refusal) (ct_lexicalPath target)
      | None \<Rightarrow> evaluateWriteRequest targets (Valid_policy writeBlocks scope reviewerScope))"

section \<open>What the guard promises\<close>

text \<open>
  The policy as a predicate: a target is protected by name or by a block, and a scope admits
  what it does not deny and, outside \<open>.brain/\<close>, only what a non-empty allow list selects.
\<close>

definition scope_admits :: "feature_scope \<Rightarrow> string \<Rightarrow> bool" where
  "scope_admits s target \<longleftrightarrow> \<not> selected_by (fs_deny s) target \<and>
     (isBrainTarget target \<or> fs_allow s = [] \<or> selected_by (fs_allow s) target)"

definition write_permitted ::
  "feature_scope option \<Rightarrow> feature_scope option \<Rightarrow> string list \<Rightarrow> string \<Rightarrow> bool" where
  "write_permitted scope reviewerScope writeBlocks target \<longleftrightarrow>
     inside_project target \<and> \<not> immutableWriteBlock target \<and> \<not> selected_by writeBlocks target \<and>
     (\<forall>s r. scope = Some s \<longrightarrow> reviewerScope = Some r \<longrightarrow> s = r) \<and>
     (\<forall>s. scope = Some s \<longrightarrow> scope_admits s target)"

lemma sameList_iff: "sameList left right \<longleftrightarrow> left = right"
  unfolding sameList_def list_all_iff list_eq_iff_nth_eq [of left right] by auto

lemma scopesAgree_iff: "scopesAgree s r \<longleftrightarrow> s = r"
  by (cases s; cases r) (simp add: scopesAgree_def sameList_iff)

lemma decideWriteTarget_allowed_iff:
  "decideWriteTarget given scope reviewerScope writeBlocks = Write_allowed target \<longleftrightarrow>
     canonicalizeProjectPath given None = Canonical target \<and> write_permitted scope reviewerScope writeBlocks target"
proof (cases "canonicalizeProjectPath given None")
  case (Canonical p)
  note inside = canonical_inside [OF Canonical]
  show ?thesis
  proof (cases scope)
    case None
    then show ?thesis using inside
      by (auto simp: decideWriteTarget_def write_permitted_def matchesOrderedGlobs_iff Canonical)
  next
    case (Some s)
    have agree: "\<not> (reviewerScope \<noteq> None \<and> \<not> scopesAgree s (the reviewerScope)) \<longleftrightarrow> (\<forall>r. reviewerScope = Some r \<longrightarrow> s = r)"
      by (cases reviewerScope) (simp_all add: scopesAgree_iff)
    have "decideWriteTarget given scope reviewerScope writeBlocks = Write_allowed target \<longleftrightarrow>
        p = target \<and> \<not> immutableWriteBlock p \<and> \<not> selected_by writeBlocks p \<and>
        \<not> (reviewerScope \<noteq> None \<and> \<not> scopesAgree s (the reviewerScope)) \<and> scope_admits s p"
      by (simp add: decideWriteTarget_def Canonical Some matchesOrderedGlobs_iff scope_admits_def) blast
    moreover have "write_permitted scope reviewerScope writeBlocks p \<longleftrightarrow>
        \<not> immutableWriteBlock p \<and> \<not> selected_by writeBlocks p \<and>
        (\<forall>r. reviewerScope = Some r \<longrightarrow> s = r) \<and> scope_admits s p"
      using inside by (simp add: write_permitted_def Some)
    ultimately show ?thesis unfolding agree Canonical canonical_path.inject by metis
  qed
qed (simp add: decideWriteTarget_def)

lemma first_refusal_None_iff:
  "first_refusal decide identities = None \<longleftrightarrow> (\<forall>i \<in> set identities. \<exists>t. decide i = Write_allowed t)"
  by (induction identities) (auto split: write_target_decision.splits)

lemma set_targetIdentities [simp]: "set (targetIdentities t) = {ct_lexicalPath t, ct_canonicalPath t}"
  by (auto simp: targetIdentities_def)

definition target_permitted :: "(string \<Rightarrow> bool) \<Rightarrow> canonical_target \<Rightarrow> bool" where
  "target_permitted permitted t \<longleftrightarrow>
     (\<forall>path \<in> {ct_lexicalPath t, ct_canonicalPath t}.
        \<exists>target. canonicalizeProjectPath path None = Canonical target \<and> permitted target)"

text \<open>C17: A write request under a valid policy is allowed exactly when, for each of its targets, the
  lexical path and the path behind its links both canonicalize to a path inside the project that
  no immutable rule and no guardrail block protects, while the recorded scope equals the reviewed
  one, does not deny the path and admits it (the last matching pattern of each ordered list
  deciding); every other request is refused, with the first offending target named.\<close>

theorem write_request_exact:
  "(evaluateWriteRequest targets (Valid_policy writeBlocks scope reviewerScope) = Request_allowed \<longleftrightarrow>
     list_all (target_permitted (write_permitted scope reviewerScope writeBlocks)) targets) \<and>
   (\<forall>reason at. evaluateWriteRequest targets (Valid_policy writeBlocks scope reviewerScope) = Request_refused reason at \<longrightarrow>
     (\<exists>before t rest. targets = before @ t # rest \<and> at = ct_lexicalPath t \<and>
        list_all (target_permitted (write_permitted scope reviewerScope writeBlocks)) before \<and>
        \<not> target_permitted (write_permitted scope reviewerScope writeBlocks) t))"
proof (induction targets)
  case (Cons t targets)
  let ?permitted = "target_permitted (write_permitted scope reviewerScope writeBlocks)"
  let ?decide = "\<lambda>identity. decideWriteTarget identity scope reviewerScope writeBlocks"
  have refusal: "first_refusal ?decide (targetIdentities t) = None \<longleftrightarrow> ?permitted t"
    by (auto simp: first_refusal_None_iff target_permitted_def decideWriteTarget_allowed_iff)
  show ?case
  proof (cases "?permitted t")
    case True
    with refusal have "evaluateWriteRequest (t # targets) (Valid_policy writeBlocks scope reviewerScope) =
        evaluateWriteRequest targets (Valid_policy writeBlocks scope reviewerScope)" by simp
    with Cons True show ?thesis by (simp, metis append_Cons list.pred_inject(2))
  next
    case False
    with refusal obtain r where "first_refusal ?decide (targetIdentities t) = Some r" by auto
    with False show ?thesis by (auto intro: exI [of _ "[]"])
  qed
qed simp

lemma write_request_exact_witness:
  "evaluateWriteRequest [\<lparr>ct_ordinal = 1, ct_lexicalPath = ''src/a.ts'', ct_canonicalPath = ''src/a.ts''\<rparr>]
     (Valid_policy [] (Some \<lparr>fs_allow = [''src/**''], fs_deny = [''**/*.lock'']\<rparr>) None) = Request_allowed \<and>
   (evaluateWriteRequest [\<lparr>ct_ordinal = 1, ct_lexicalPath = ''docs/a.md'', ct_canonicalPath = ''src/a.ts''\<rparr>]
     (Valid_policy [] (Some \<lparr>fs_allow = [''src/**''], fs_deny = []\<rparr>) None) =
       Request_refused (Refusal_of_target Guard_outside_allow) ''docs/a.md'') \<and>
   \<not> target_permitted (write_permitted (Some \<lparr>fs_allow = [''src/**''], fs_deny = []\<rparr>) None [])
      \<lparr>ct_ordinal = 1, ct_lexicalPath = ''docs/a.md'', ct_canonicalPath = ''src/a.ts''\<rparr>"
proof -
  have first: "evaluateWriteRequest [\<lparr>ct_ordinal = 1, ct_lexicalPath = ''src/a.ts'', ct_canonicalPath = ''src/a.ts''\<rparr>]
     (Valid_policy [] (Some \<lparr>fs_allow = [''src/**''], fs_deny = [''**/*.lock'']\<rparr>) None) = Request_allowed"
    by code_simp
  have second: "evaluateWriteRequest [\<lparr>ct_ordinal = 1, ct_lexicalPath = ''docs/a.md'', ct_canonicalPath = ''src/a.ts''\<rparr>]
     (Valid_policy [] (Some \<lparr>fs_allow = [''src/**''], fs_deny = []\<rparr>) None) =
       Request_refused (Refusal_of_target Guard_outside_allow) ''docs/a.md''"
    by code_simp
  from second write_request_exact [of "[\<lparr>ct_ordinal = 1, ct_lexicalPath = ''docs/a.md'', ct_canonicalPath = ''src/a.ts''\<rparr>]" "[]"
      "Some \<lparr>fs_allow = [''src/**''], fs_deny = []\<rparr>" None]
  have "\<not> target_permitted (write_permitted (Some \<lparr>fs_allow = [''src/**''], fs_deny = []\<rparr>) None [])
      \<lparr>ct_ordinal = 1, ct_lexicalPath = ''docs/a.md'', ct_canonicalPath = ''src/a.ts''\<rparr>" by simp
  with first second show ?thesis by simp
qed
end
