(* ===== verification/Scope_Document.thy ===== *)
theory Scope_Document
  imports Write_Guard
begin

text \<open>
  The scope sections of a reviewed document (\<open>domain/write-guard/scope-document.ts\<close>): the
  parser that collects the two lists of globs out of Markdown and the renderer that writes the
  grammar the parser reads.
\<close>

section \<open>Comments\<close>

definition trimStart :: "string \<Rightarrow> string" where
  "trimStart line = dropWhile is_js_space line"

fun includes_text :: "string \<Rightarrow> string \<Rightarrow> bool" where
  "includes_text part [] = (part = [])"
| "includes_text part (c # cs) = (starts_with part (c # cs) \<or> includes_text part cs)"

section \<open>Fences\<close>

record fence =
  fence_kind :: char
  fence_length :: nat

text \<open>At most three spaces, then the rest of the line: \<open>^(?: {0,3})\<close> before a character that is no space.\<close>

definition after_indent :: "string \<Rightarrow> string option" where
  "after_indent line =
     (if length (takeWhile (\<lambda>c. c = CHR '' '') line) \<le> 3 then Some (dropWhile (\<lambda>c. c = CHR '' '') line) else None)"

definition fence_run :: "string \<Rightarrow> (char \<times> nat \<times> string) option" where
  "fence_run s =
     (case s of
        [] \<Rightarrow> None
      | c # _ \<Rightarrow>
          if c = backtick \<or> c = CHR ''~''
          then Some (c, length (takeWhile (\<lambda>d. d = c) s), dropWhile (\<lambda>d. d = c) s)
          else None)"

definition openingFence :: "string \<Rightarrow> fence option" where
  "openingFence line =
     (case after_indent line of
        None \<Rightarrow> None
      | Some s \<Rightarrow>
          (case fence_run s of
             None \<Rightarrow> None
           | Some (c, n, _) \<Rightarrow> if n \<ge> 3 then Some \<lparr>fence_kind = c, fence_length = n\<rparr> else None))"

definition isClosingFence :: "string \<Rightarrow> fence \<Rightarrow> bool" where
  "isClosingFence line f =
     (case after_indent line of
        None \<Rightarrow> False
      | Some s \<Rightarrow>
          (case fence_run s of
             None \<Rightarrow> False
           | Some (c, n, rest) \<Rightarrow>
               list_all (\<lambda>d. d = CHR '' '' \<or> code_unit d = 9) rest \<and> c = fence_kind f \<and> n \<ge> fence_length f))"

section \<open>Headings\<close>

text \<open>
  \<open>/^(#{1,6})\s+(.+?)\s*#*\s*$/\<close>: the white space after the hashes is taken as long as a title
  of at least one character is left, and the title is the shortest one the rest of the
  expression can follow.
\<close>

definition heading_end :: "string \<Rightarrow> bool" where
  "heading_end s \<longleftrightarrow>
     dropWhile is_js_space (dropWhile (\<lambda>c. c = CHR ''#'') (dropWhile is_js_space s)) = []"

definition shortest_title :: "string \<Rightarrow> string option" where
  "shortest_title s =
     map_option (\<lambda>n. take n s)
       (List.find (\<lambda>n. list_all dot_char (take n s) \<and> heading_end (drop n s)) [1..<Suc (length s)])"

fun title_after :: "nat \<Rightarrow> string \<Rightarrow> string option" where
  "title_after 0 s = None"
| "title_after (Suc k) s =
     (case shortest_title (drop (Suc k) s) of Some title \<Rightarrow> Some title | None \<Rightarrow> title_after k s)"

definition heading_of :: "string \<Rightarrow> (nat \<times> string) option" where
  "heading_of line =
     (let depth = length (takeWhile (\<lambda>c. c = CHR ''#'') line);
          rest = dropWhile (\<lambda>c. c = CHR ''#'') line
      in if 1 \<le> depth \<and> depth \<le> 6
         then map_option (Pair depth) (title_after (length (takeWhile is_js_space rest)) rest)
         else None)"

section \<open>Declarations\<close>

text \<open>\<open>/^- `([^`]+)`\s*$/\<close>.\<close>

definition declaration_of :: "string \<Rightarrow> string option" where
  "declaration_of line =
     (if starts_with (''- '' @ [backtick]) line then
        (let body = drop 3 line;
             pattern = takeWhile (\<lambda>c. c \<noteq> backtick) body;
             rest = dropWhile (\<lambda>c. c \<noteq> backtick) body
         in if pattern \<noteq> [] \<and> rest \<noteq> [] \<and> list_all is_js_space (tl rest) then Some pattern else None)
      else None)"

section \<open>The parser\<close>

datatype summary_scope_parse = Valid_scope feature_scope | Malformed_scope nat

datatype scope_section = Allow_section | Deny_section

record scope_parser =
  sp_allow :: "string list"
  sp_deny :: "string list"
  sp_section :: "scope_section option"
  sp_sectionDepth :: "nat option"
  sp_seenAllow :: bool
  sp_seenDeny :: bool
  sp_comment :: bool
  sp_fence :: "fence option"

definition initial_parser :: scope_parser where
  "initial_parser =
     \<lparr>sp_allow = [], sp_deny = [], sp_section = None, sp_sectionDepth = None, sp_seenAllow = False,
      sp_seenDeny = False, sp_comment = False, sp_fence = None\<rparr>"

definition allowHeading :: string where
  "allowHeading = ''File allowlist''"

definition denyHeading :: string where
  "denyHeading = ''File denylist''"

text \<open>A heading closes the section it is not deeper than, and at depth two may open one; \<open>None\<close> is
  the second heading of a section.\<close>

definition read_heading :: "nat \<Rightarrow> string \<Rightarrow> scope_parser \<Rightarrow> scope_parser option" where
  "read_heading depth title p =
     (let closed = (case sp_sectionDepth p of
            None \<Rightarrow> p
          | Some d \<Rightarrow> if depth \<le> d then p\<lparr>sp_section := None, sp_sectionDepth := None\<rparr> else p)
      in if depth \<noteq> 2 then Some closed
         else if title = allowHeading then
           if sp_seenAllow p then None
           else Some (closed\<lparr>sp_seenAllow := True, sp_section := Some Allow_section, sp_sectionDepth := Some depth\<rparr>)
         else if title = denyHeading then
           if sp_seenDeny p then None
           else Some (closed\<lparr>sp_seenDeny := True, sp_section := Some Deny_section, sp_sectionDepth := Some depth\<rparr>)
         else Some closed)"

definition read_declaration :: "string \<Rightarrow> scope_parser \<Rightarrow> scope_parser option" where
  "read_declaration line p =
     (case sp_section p of
        None \<Rightarrow> Some p
      | Some kind \<Rightarrow>
          if js_trim line = [] then Some p
          else (case declaration_of line of
              None \<Rightarrow> None
            | Some pattern \<Rightarrow>
                if \<not> isPathGlob pattern then None
                else (case kind of
                    Allow_section \<Rightarrow> Some (p\<lparr>sp_allow := sp_allow p @ [pattern]\<rparr>)
                  | Deny_section \<Rightarrow> Some (p\<lparr>sp_deny := sp_deny p @ [pattern]\<rparr>))))"

text \<open>The body of the loop; \<open>None\<close> is the return of a malformed line.\<close>

definition read_line :: "string \<Rightarrow> scope_parser \<Rightarrow> scope_parser option" where
  "read_line line p =
     (case sp_fence p of
        Some f \<Rightarrow> Some (if isClosingFence line f then p\<lparr>sp_fence := None\<rparr> else p)
      | None \<Rightarrow>
          (case openingFence line of
             Some f \<Rightarrow> Some (p\<lparr>sp_fence := Some f\<rparr>)
           | None \<Rightarrow>
               if sp_comment p \<or> starts_with ''<!--'' (trimStart line)
               then Some (p\<lparr>sp_comment := \<not> includes_text ''-->'' line\<rparr>)
               else (case heading_of line of
                   Some (depth, title) \<Rightarrow> read_heading depth title p
                 | None \<Rightarrow> read_declaration line p)))"

fun read_lines :: "nat \<Rightarrow> string list \<Rightarrow> scope_parser \<Rightarrow> nat + scope_parser" where
  "read_lines index [] p = Inr p"
| "read_lines index (line # lines) p =
     (case read_line line p of
        None \<Rightarrow> Inl (index + 1)
      | Some p' \<Rightarrow> read_lines (index + 1) lines p')"

definition parseSummaryScope :: "string \<Rightarrow> summary_scope_parse" where
  "parseSummaryScope content =
     (case read_lines 0 (split_lines content) initial_parser of
        Inl line \<Rightarrow> Malformed_scope line
      | Inr p \<Rightarrow>
          if \<not> sp_seenAllow p \<or> \<not> sp_seenDeny p \<or> sp_comment p \<or> sp_fence p \<noteq> None then Malformed_scope 0
          else Valid_scope \<lparr>fs_allow = sp_allow p, fs_deny = sp_deny p\<rparr>)"

section \<open>The renderer\<close>

definition render_pattern :: "string \<Rightarrow> string" where
  "render_pattern pattern = ''- '' @ [backtick] @ pattern @ [backtick]"

definition renderSummaryScope :: "feature_scope \<Rightarrow> string option" where
  "renderSummaryScope scope =
     (if \<not> list_all isPathGlob (fs_allow scope @ fs_deny scope) then None
      else Some (join_with line_feed
        ([''## File allowlist'', ''''] @ map render_pattern (fs_allow scope) @
         ['''', ''## File denylist'', ''''] @ map render_pattern (fs_deny scope)) @ [line_feed]))"

section \<open>What the renderer writes is read back\<close>

lemma safe_pattern_text:
  assumes "isPathGlob pattern"
  shows "pattern \<noteq> []" "backtick \<notin> set pattern" "\<not> hasControlCharacter pattern"
proof -
  define expression where "expression = (if starts_with ''!'' pattern then tl pattern else pattern)"
  have safe: "isSafeProjectRelativePattern expression" and some: "expression \<noteq> []"
    using assms by (auto simp: isPathGlob_def expression_def [symmetric] Let_def compileGlob_def split: if_splits)
  have pattern: "pattern = expression \<or> pattern = CHR ''!'' # expression"
    by (auto simp: expression_def starts_with_iff)
  show "pattern \<noteq> []" using pattern some by auto
  show "backtick \<notin> set pattern"
    using pattern safe by (auto simp: isSafeProjectRelativePattern_def backtick_def)
  show "\<not> hasControlCharacter pattern"
    using pattern safe by (auto simp: isSafeProjectRelativePattern_def hasControlCharacter_def is_control_def code_unit_def)
qed

lemma pattern_one_line:
  assumes "isPathGlob pattern"
  shows "line_feed \<notin> set (render_pattern pattern)"
  using safe_pattern_text [OF assms]
  by (auto simp: render_pattern_def line_feed_def backtick_def hasControlCharacter_def list_ex_iff is_control_def code_unit_def)

lemma read_render_pattern:
  assumes "isPathGlob pattern" "sp_fence p = None" "\<not> sp_comment p"
  shows "read_line (render_pattern pattern) p = read_declaration (render_pattern pattern) p"
    "js_trim (render_pattern pattern) \<noteq> []"
    "declaration_of (render_pattern pattern) = Some pattern"
proof -
  show "read_line (render_pattern pattern) p = read_declaration (render_pattern pattern) p"
    using assms(2,3)
    by (simp add: read_line_def render_pattern_def openingFence_def after_indent_def fence_run_def trimStart_def
        heading_of_def is_js_space_def code_unit_def backtick_def)
  show "js_trim (render_pattern pattern) \<noteq> []"
    by (simp add: js_trim_def render_pattern_def is_js_space_def code_unit_def backtick_def)
  have "pattern \<noteq> []" using safe_pattern_text(1) [OF assms(1)] .
  moreover have "takeWhile (\<lambda>c. c \<noteq> backtick) (pattern @ [backtick]) = pattern"
    "dropWhile (\<lambda>c. c \<noteq> backtick) (pattern @ [backtick]) = [backtick]"
    using safe_pattern_text(2) [OF assms(1)] by (induction pattern) auto
  ultimately show "declaration_of (render_pattern pattern) = Some pattern"
    by (simp add: declaration_of_def render_pattern_def)
qed

lemma read_rendered_allow:
  "list_all isPathGlob patterns \<Longrightarrow> sp_fence p = None \<Longrightarrow> \<not> sp_comment p \<Longrightarrow> sp_section p = Some Allow_section \<Longrightarrow>
     read_lines index (map render_pattern patterns @ lines) p =
       read_lines (index + length patterns) lines (p\<lparr>sp_allow := sp_allow p @ patterns\<rparr>)"
proof (induction patterns arbitrary: index p)
  case (Cons pattern patterns)
  then show ?case using read_render_pattern [of pattern p] by (simp add: read_declaration_def)
qed simp

lemma read_rendered_deny:
  "list_all isPathGlob patterns \<Longrightarrow> sp_fence p = None \<Longrightarrow> \<not> sp_comment p \<Longrightarrow> sp_section p = Some Deny_section \<Longrightarrow>
     read_lines index (map render_pattern patterns @ lines) p =
       read_lines (index + length patterns) lines (p\<lparr>sp_deny := sp_deny p @ patterns\<rparr>)"
proof (induction patterns arbitrary: index p)
  case (Cons pattern patterns)
  then show ?case using read_render_pattern [of pattern p] by (simp add: read_declaration_def)
qed simp

lemma read_blank: "sp_fence p = None \<Longrightarrow> \<not> sp_comment p \<Longrightarrow> read_line '''' p = Some p"
  by (simp add: read_line_def openingFence_def after_indent_def fence_run_def trimStart_def heading_of_def
      read_declaration_def js_trim_def split: option.splits)

lemma rendered_headings:
  "openingFence ''## File allowlist'' = None" "heading_of ''## File allowlist'' = Some (2, allowHeading)"
  "openingFence ''## File denylist'' = None" "heading_of ''## File denylist'' = Some (2, denyHeading)"
  "\<not> starts_with ''<!--'' (trimStart ''## File allowlist'')" "\<not> starts_with ''<!--'' (trimStart ''## File denylist'')"
  by code_simp+

text \<open>C24: Rendering a scope and parsing the document gives the scope back: whenever every pattern
  of both lists is a path glob the renderer returns a document, and the parser accepts it with
  exactly these patterns in their order; a scope with any other pattern is not rendered.\<close>

theorem scope_document_roundtrip:
  "case renderSummaryScope scope of
     None \<Rightarrow> \<not> list_all isPathGlob (fs_allow scope @ fs_deny scope)
   | Some document \<Rightarrow> list_all isPathGlob (fs_allow scope @ fs_deny scope) \<and>
       parseSummaryScope document = Valid_scope scope"
proof (cases "list_all isPathGlob (fs_allow scope @ fs_deny scope)")
  case True
  then have globs: "list_all isPathGlob (fs_allow scope)" "list_all isPathGlob (fs_deny scope)" by simp_all
  define lines where "lines = [''## File allowlist'', ''''] @ map render_pattern (fs_allow scope) @
         ['''', ''## File denylist'', ''''] @ map render_pattern (fs_deny scope)"
  have rendered: "renderSummaryScope scope = Some (join_with line_feed lines @ [line_feed])"
    using True unfolding renderSummaryScope_def lines_def by simp
  have one_line: "\<forall>l \<in> set lines. line_feed \<notin> set l"
    using globs pattern_one_line by (auto simp: lines_def list_all_iff line_feed_def)
  have returns: "\<forall>l \<in> set lines. drop_return l = l"
    by (auto simp: lines_def drop_return_def render_pattern_def code_unit_def backtick_def)
  have split: "split_lines (join_with line_feed lines @ [line_feed]) = lines @ ['''']"
    by (rule split_rendered) (use one_line returns in \<open>simp_all add: lines_def\<close>)
  have "parseSummaryScope (join_with line_feed lines @ [line_feed]) = Valid_scope scope"
    unfolding parseSummaryScope_def split
    by (simp add: lines_def read_line_def [of "''## File allowlist''"] read_line_def [of "''## File denylist''"]
        rendered_headings read_heading_def initial_parser_def read_blank read_rendered_allow read_rendered_deny
        globs allowHeading_def denyHeading_def)
  with rendered True show ?thesis by simp
qed (simp add: renderSummaryScope_def)

section \<open>What the parser accepts\<close>

definition parser_globs :: "scope_parser \<Rightarrow> bool" where
  "parser_globs p \<longleftrightarrow> list_all isPathGlob (sp_allow p) \<and> list_all isPathGlob (sp_deny p)"

lemma read_line_globs: "read_line line p = Some p' \<Longrightarrow> parser_globs p \<Longrightarrow> parser_globs p'"
  unfolding parser_globs_def read_line_def read_heading_def read_declaration_def
  by (auto simp: Let_def split: option.splits if_splits prod.splits scope_section.splits)

lemma read_lines_globs: "read_lines index lines p = Inr p' \<Longrightarrow> parser_globs p \<Longrightarrow> parser_globs p'"
  by (induction index lines p rule: read_lines.induct) (auto split: option.splits dest: read_line_globs)

lemma parsed_scope_globs:
  assumes "parseSummaryScope document = Valid_scope scope"
  shows "list_all isPathGlob (fs_allow scope @ fs_deny scope)"
proof -
  have "parser_globs initial_parser" by (simp add: parser_globs_def initial_parser_def)
  then show ?thesis using assms read_lines_globs
    by (fastforce simp: parseSummaryScope_def parser_globs_def split: sum.splits if_splits)
qed
end
