(* ===== verification/Artifact_Lineage.thy ===== *)
theory Artifact_Lineage
  imports Gates Js_Order
begin

text \<open>
  Lineage and completion (\<open>domain/acceptance/index.ts\<close>): the artifacts of a run name the
  digests of the artifacts they were derived from, \<open>validateLineageDag\<close> orders them by a
  depth-first search that refuses duplicates, unknown parents and cycles, and \<open>decideDone\<close>
  decides whether a run may be declared done. \<open>localeCompare\<close> is a parameter.
\<close>

section \<open>Artifacts\<close>

datatype identity_source = Source_host_reported | Source_user_declared | Source_unknown

record lineage_identity =
  ln_host :: string
  ln_model :: "string option"
  ln_provenance :: identity_source

record artifact_lineage =
  al_artifactId :: string
  al_artifactRef :: string
  al_artifactDigest :: string
  al_parentDigests :: "string list"
  al_runId :: string
  al_phase :: string
  al_policyMode :: gate_mode
  al_policyVersion :: string
  al_producerCommand :: string
  al_commit :: "string option"
  al_evidenceRefs :: "string list"
  al_observedIdentity :: lineage_identity

datatype lineage_validation =
    Lineage_valid "string list"
  | Lineage_cycle string
  | Lineage_duplicate string
  | Lineage_invalid_digest string
  | Lineage_missing_parent string

section \<open>Validation\<close>

text \<open>The first loop: the identifiers and the digests seen so far.\<close>

fun index_lineage ::
  "string list \<Rightarrow> string list \<Rightarrow> artifact_lineage list \<Rightarrow> lineage_validation option" where
  "index_lineage ids digests [] = None"
| "index_lineage ids digests (node # nodes) =
     (if al_artifactId node \<in> set ids \<or> al_artifactDigest node \<in> set digests
      then Some (Lineage_duplicate (al_artifactId node))
      else if \<not> sha256_test (al_artifactDigest node) then Some (Lineage_invalid_digest (al_artifactId node))
      else index_lineage (al_artifactId node # ids) (al_artifactDigest node # digests) nodes)"

definition byDigest :: "artifact_lineage list \<Rightarrow> string \<Rightarrow> artifact_lineage option" where
  "byDigest nodes digest = List.find (\<lambda>node. al_artifactDigest node = digest) nodes"

text \<open>What a search has finished: the visited identifiers and the order.\<close>

record lineage_search =
  sr_visited :: "string list"
  sr_ordered :: "string list"

lemma byDigest_in: "byDigest nodes d = Some n \<Longrightarrow> n \<in> set nodes \<and> al_artifactDigest n = d"
  by (auto simp: byDigest_def find_Some_iff)

text \<open>A visit goes down only to nodes of the list that are not on the stack yet.\<close>

definition unstacked :: "artifact_lineage list \<Rightarrow> string list \<Rightarrow> string set \<Rightarrow> nat" where
  "unstacked nodes visiting extra = card ((al_artifactId ` set nodes \<union> extra) - set visiting)"

abbreviation visit_order where
  "visit_order \<equiv> inv_image (less_than <*lex*> less_than) (\<lambda>c. case c of
     Inl (nodes, roots :: string list, visiting, node, s :: lineage_search) \<Rightarrow>
       (unstacked nodes visiting {al_artifactId node}, 0 :: nat)
   | Inr (nodes, roots :: string list, visiting, child :: string, parents :: string list, s :: lineage_search) \<Rightarrow>
       (unstacked nodes visiting {}, Suc (length parents)))"

text \<open>
  \<open>visit\<close> and its loop over the parents. The nodes on the stack, \<open>visiting\<close>, are passed
  down: a successful visit removes exactly the identifier it added, and after a refusal
  nothing is visited any more.
\<close>

function (sequential)
  visit :: "artifact_lineage list \<Rightarrow> string list \<Rightarrow> string list \<Rightarrow> artifact_lineage \<Rightarrow> lineage_search \<Rightarrow>
    (lineage_validation, lineage_search) result"
  and visit_parents :: "artifact_lineage list \<Rightarrow> string list \<Rightarrow> string list \<Rightarrow> string \<Rightarrow> string list \<Rightarrow> lineage_search \<Rightarrow>
    (lineage_validation, lineage_search) result"
where
  "visit nodes rootDigests visiting node s =
     (if al_artifactId node \<in> set (sr_visited s) then Inr s
      else if al_artifactId node \<in> set visiting then Inl (Lineage_cycle (al_artifactId node))
      else (case visit_parents nodes rootDigests (al_artifactId node # visiting) (al_artifactId node) (al_parentDigests node) s of
         Inl invalid \<Rightarrow> Inl invalid
       | Inr t \<Rightarrow> Inr (t\<lparr>sr_visited := sr_visited t @ [al_artifactId node], sr_ordered := sr_ordered t @ [al_artifactId node]\<rparr>)))"
| "visit_parents nodes rootDigests visiting child [] s = Inr s"
| "visit_parents nodes rootDigests visiting child (parent # parents) s =
     (if parent \<in> set rootDigests then visit_parents nodes rootDigests visiting child parents s
      else (case byDigest nodes parent of
         None \<Rightarrow> Inl (Lineage_missing_parent child)
       | Some parentNode \<Rightarrow>
           (case visit nodes rootDigests visiting parentNode s of
              Inl invalid \<Rightarrow> Inl invalid
            | Inr t \<Rightarrow> visit_parents nodes rootDigests visiting child parents t)))"
  by pat_completeness auto

termination
proof (relation visit_order)
  fix nodes :: "artifact_lineage list" and visiting and node :: artifact_lineage
  assume "al_artifactId node \<notin> set visiting"
  then have "al_artifactId ` set nodes - set (al_artifactId node # visiting) \<subset>
      (al_artifactId ` set nodes \<union> {al_artifactId node}) - set visiting" by auto
  then have "unstacked nodes (al_artifactId node # visiting) {} < unstacked nodes visiting {al_artifactId node}"
    unfolding unstacked_def by (intro psubset_card_mono) auto
  then show "(Inr (nodes, rootDigests, al_artifactId node # visiting, al_artifactId node, al_parentDigests node, s),
      Inl (nodes, rootDigests, visiting, node, s)) \<in> visit_order" for rootDigests s
    by simp
next
  fix nodes :: "artifact_lineage list" and visiting parent and parentNode :: artifact_lineage
  assume "byDigest nodes parent = Some parentNode"
  then have "al_artifactId ` set nodes \<union> {al_artifactId parentNode} = al_artifactId ` set nodes" by (auto dest: byDigest_in)
  then have "unstacked nodes visiting {al_artifactId parentNode} = unstacked nodes visiting {}"
    by (simp add: unstacked_def)
  then show "(Inl (nodes, rootDigests, visiting, parentNode, s), Inr (nodes, rootDigests, visiting, child, parent # parents, s))
      \<in> visit_order" for rootDigests s child parents
    by simp
qed (auto simp: unstacked_def)

fun visit_all :: "artifact_lineage list \<Rightarrow> string list \<Rightarrow> artifact_lineage list \<Rightarrow> lineage_search \<Rightarrow>
    (lineage_validation, lineage_search) result" where
  "visit_all nodes rootDigests [] s = Inr s"
| "visit_all nodes rootDigests (node # rest) s =
     bind_result (visit nodes rootDigests [] node s) (visit_all nodes rootDigests rest)"

definition validateLineageDag ::
  "(string \<Rightarrow> string \<Rightarrow> int) \<Rightarrow> artifact_lineage list \<Rightarrow> string list \<Rightarrow> lineage_validation" where
  "validateLineageDag localeCompare nodes rootDigests =
     (case index_lineage [] [] nodes of
        Some refusal \<Rightarrow> refusal
      | None \<Rightarrow>
          (case visit_all nodes rootDigests
              (js_sort (\<lambda>left right. localeCompare (al_artifactId left) (al_artifactId right)) nodes)
              \<lparr> sr_visited = [], sr_ordered = [] \<rparr> of
             Inl refusal \<Rightarrow> refusal
           | Inr s \<Rightarrow> Lineage_valid (sr_ordered s)))"

section \<open>Declaring a run done\<close>

datatype evidence_type = Type_artifact | Type_event | Type_approval | Type_test | Type_observation

datatype evidence_class = Class_public | Class_internal | Class_restricted

datatype evidence_redaction = Redaction_none | Redaction_metadata_only | Redaction_redacted

record evidence_item =
  vi_evidenceId :: string
  vi_kind :: evidence_type
  vi_ref :: string
  vi_sha256 :: string
  vi_classification :: evidence_class
  vi_redaction :: evidence_redaction
  vi_recordedAt :: string

record done_candidate =
  dc_runId :: string
  dc_allStepsComplete :: bool
  dc_gates :: gate_decision
  dc_approval :: "approval option"
  dc_evidence :: "evidence_item list"
  dc_invalidEvidenceIds :: "string list"
  dc_lineage :: "artifact_lineage list"

datatype done_refusal = Done_aceitacao_final | Done_aceite_incompleto | Done_gate_divergente

datatype done_decision =
    Done_accepted "string list" "gate_advisory list option"
  | Done_refused done_refusal "string list"

definition approves_done :: "string \<Rightarrow> approval option \<Rightarrow> bool" where
  "approves_done runId a =
     (case a of None \<Rightarrow> False
      | Some a \<Rightarrow> ap_decision a = Approved \<and> ap_runId a = runId \<and> ap_gate a = ''final-acceptance'')"

definition decideDone :: "(string \<Rightarrow> string \<Rightarrow> int) \<Rightarrow> done_candidate \<Rightarrow> done_decision" where
  "decideDone localeCompare candidate =
     (let evidenceRefs = js_sort localeCompare (map vi_ref (dc_evidence candidate)) in
      if \<not> dc_allStepsComplete candidate \<or> dc_invalidEvidenceIds candidate \<noteq> [] \<or>
         gd_criteria (dc_gates candidate) = [] \<or>
         list_ex (\<lambda>c. cg_state c \<noteq> Crit_passed \<or> \<not> cg_checked c \<or> \<not> cg_evidenceValid c) (gd_criteria (dc_gates candidate))
      then Done_refused Done_aceite_incompleto evidenceRefs
      else if gd_outcome (dc_gates candidate) = Block_outcome
      then Done_refused Done_gate_divergente (evidenceRefs @ concat (map gf_evidenceRefs (gd_failures (dc_gates candidate))))
      else if \<not> approves_done (dc_runId candidate) (dc_approval candidate)
      then Done_refused Done_aceitacao_final evidenceRefs
      else if dc_lineage candidate = [] \<or>
         list_ex (\<lambda>l. al_runId l \<noteq> dc_runId candidate \<or> \<not> sha256_test (al_artifactDigest l) \<or>
           al_policyVersion l = [] \<or> al_producerCommand l = []) (dc_lineage candidate)
      then Done_refused Done_aceite_incompleto evidenceRefs
      else Done_accepted evidenceRefs
        (case gd_advisories (dc_gates candidate) of
           Some (a # as) \<Rightarrow> Some (a # as) | _ \<Rightarrow> None))"

section \<open>What the search finds\<close>

text \<open>From the identifier of a parent to that of its child; root digests need no node.\<close>

definition parent_edges :: "artifact_lineage list \<Rightarrow> string list \<Rightarrow> (string \<times> string) set" where
  "parent_edges nodes rootDigests = {(al_artifactId p, al_artifactId c) |p c. p \<in> set nodes \<and> c \<in> set nodes \<and>
     al_artifactDigest p \<in> set (al_parentDigests c) \<and> al_artifactDigest p \<notin> set rootDigests}"

definition well_indexed :: "artifact_lineage list \<Rightarrow> bool" where
  "well_indexed nodes \<longleftrightarrow> distinct (map al_artifactId nodes) \<and> distinct (map al_artifactDigest nodes) \<and>
     (\<forall>n \<in> set nodes. sha256_test (al_artifactDigest n))"

definition lacks_parent :: "artifact_lineage list \<Rightarrow> string list \<Rightarrow> artifact_lineage \<Rightarrow> bool" where
  "lacks_parent nodes rootDigests c \<longleftrightarrow>
     (\<exists>d \<in> set (al_parentDigests c). d \<notin> set rootDigests \<and> (\<forall>p \<in> set nodes. al_artifactDigest p \<noteq> d))"

text \<open>Every identifier stands behind those of its parents.\<close>

definition topological :: "artifact_lineage list \<Rightarrow> string list \<Rightarrow> string list \<Rightarrow> bool" where
  "topological nodes rootDigests order \<longleftrightarrow>
     (\<forall>i < length order. \<forall>p. (p, order ! i) \<in> parent_edges nodes rootDigests \<longrightarrow> p \<in> set (take i order))"

lemma well_indexed_id: "well_indexed nodes \<Longrightarrow> m \<in> set nodes \<Longrightarrow> n \<in> set nodes \<Longrightarrow> al_artifactId m = al_artifactId n \<Longrightarrow> m = n"
  by (auto simp: well_indexed_def distinct_map dest: inj_onD)

lemma well_indexed_digest:
  "well_indexed nodes \<Longrightarrow> m \<in> set nodes \<Longrightarrow> n \<in> set nodes \<Longrightarrow> al_artifactDigest m = al_artifactDigest n \<Longrightarrow> m = n"
  by (auto simp: well_indexed_def distinct_map dest: inj_onD)

lemma byDigest_None: "byDigest nodes d = None \<longleftrightarrow> (\<forall>p \<in> set nodes. al_artifactDigest p \<noteq> d)"
  by (auto simp: byDigest_def find_None_iff)

lemma topological_snoc:
  "topological nodes roots (os @ [x]) \<longleftrightarrow> topological nodes roots os \<and>
     (\<forall>p. (p, x) \<in> parent_edges nodes roots \<longrightarrow> p \<in> set os)"
  by (auto simp: topological_def nth_append less_Suc_eq)

definition search_inv :: "artifact_lineage list \<Rightarrow> string list \<Rightarrow> lineage_search \<Rightarrow> bool" where
  "search_inv nodes roots s \<longleftrightarrow> sr_visited s = sr_ordered s \<and> distinct (sr_ordered s) \<and>
     set (sr_ordered s) \<subseteq> al_artifactId ` set nodes \<and> topological nodes roots (sr_ordered s) \<and>
     (\<forall>c \<in> set nodes. al_artifactId c \<in> set (sr_ordered s) \<longrightarrow> \<not> lacks_parent nodes roots c)"

text \<open>A search only adds identifiers that are not on its stack.\<close>

definition extends :: "string list \<Rightarrow> lineage_search \<Rightarrow> lineage_search \<Rightarrow> bool" where
  "extends visiting s t \<longleftrightarrow> (\<exists>new. sr_ordered t = sr_ordered s @ new \<and> set new \<inter> set visiting = {})"

lemma extends_refl [simp]: "extends visiting s s"
  by (simp add: extends_def)

lemma extends_trans: "extends visiting s t \<Longrightarrow> extends visiting t u \<Longrightarrow> extends visiting s u"
  by (fastforce simp: extends_def)

lemma extends_set: "extends visiting s t \<Longrightarrow> set (sr_ordered s) \<subseteq> set (sr_ordered t)"
  by (auto simp: extends_def)

lemma parents_are_edges:
  assumes "well_indexed nodes" "c \<in> set nodes"
  shows "(p, al_artifactId c) \<in> parent_edges nodes roots \<longleftrightarrow>
    (\<exists>n \<in> set nodes. p = al_artifactId n \<and> al_artifactDigest n \<in> set (al_parentDigests c) \<and> al_artifactDigest n \<notin> set roots)"
  using well_indexed_id [OF assms(1) _ assms(2)] assms(2) by (fastforce simp: parent_edges_def)

lemma visit_sound:
  assumes "well_indexed nodes"
  shows "visit nodes roots visiting node s = Inr t \<Longrightarrow> search_inv nodes roots s \<Longrightarrow> node \<in> set nodes \<Longrightarrow>
      set (sr_ordered s) \<inter> set visiting = {} \<Longrightarrow>
      search_inv nodes roots t \<and> extends visiting s t \<and> al_artifactId node \<in> set (sr_ordered t)"
    and "visit_parents nodes roots visiting child parents s = Inr t \<Longrightarrow> search_inv nodes roots s \<Longrightarrow>
      set (sr_ordered s) \<inter> set visiting = {} \<Longrightarrow>
      search_inv nodes roots t \<and> extends visiting s t \<and>
      (\<forall>d \<in> set parents. d \<notin> set roots \<longrightarrow>
        (\<exists>n \<in> set nodes. al_artifactDigest n = d \<and> al_artifactId n \<in> set (sr_ordered t)))"
  using assms
proof (induction nodes roots visiting node s and nodes roots visiting child parents s arbitrary: t and t
    rule: visit_visit_parents.induct)
  case (1 nodes roots visiting node s)
  show ?case
  proof (cases "al_artifactId node \<in> set (sr_visited s)")
    case True
    with 1 show ?thesis by (auto simp: search_inv_def)
  next
    case False
    with "1.prems"(1) obtain u where n: "al_artifactId node \<notin> set visiting"
      and u: "visit_parents nodes roots (al_artifactId node # visiting) (al_artifactId node) (al_parentDigests node) s = Inr u"
      and t: "t = u\<lparr>sr_visited := sr_visited u @ [al_artifactId node], sr_ordered := sr_ordered u @ [al_artifactId node]\<rparr>"
      by (auto split: if_splits sum.splits)
    have "set (sr_ordered s) \<inter> set (al_artifactId node # visiting) = {}"
      using False "1.prems"(2,4) by (auto simp: search_inv_def)
    from "1.IH" [OF False n u "1.prems"(2) this "1.prems"(5)]
    have i: "search_inv nodes roots u" and e: "extends (al_artifactId node # visiting) s u"
      and p: "\<forall>d \<in> set (al_parentDigests node). d \<notin> set roots \<longrightarrow>
        (\<exists>n \<in> set nodes. al_artifactDigest n = d \<and> al_artifactId n \<in> set (sr_ordered u))" by blast+
    have "al_artifactId node \<notin> set (sr_ordered u)"
      using e False "1.prems"(2) by (auto simp: extends_def search_inv_def)
    moreover have "\<forall>q. (q, al_artifactId node) \<in> parent_edges nodes roots \<longrightarrow> q \<in> set (sr_ordered u)"
      using p parents_are_edges [OF "1.prems"(5,3)] well_indexed_digest [OF "1.prems"(5)] by metis
    moreover have "\<not> lacks_parent nodes roots c" if "c \<in> set nodes" "al_artifactId c = al_artifactId node" for c
      using p well_indexed_id [OF "1.prems"(5) that(1) "1.prems"(3) that(2)] by (auto simp: lacks_parent_def)
    ultimately have "search_inv nodes roots t"
      using i "1.prems"(3) by (auto simp: search_inv_def t topological_snoc)
    moreover have "extends visiting s t" using e n by (auto simp: extends_def t)
    ultimately show ?thesis by (simp add: t)
  qed
next
  case (2 nodes roots visiting child s)
  then show ?case by simp
next
  case (3 nodes roots visiting child parent parents s)
  show ?case
  proof (cases "parent \<in> set roots")
    case True
    with 3 show ?thesis by auto
  next
    case False
    with "3.prems"(1) obtain n u where n: "byDigest nodes parent = Some n" and u: "visit nodes roots visiting n s = Inr u"
      and t: "visit_parents nodes roots visiting child parents u = Inr t" by (auto split: option.splits sum.splits)
    have nin: "n \<in> set nodes" "al_artifactDigest n = parent" using byDigest_in [OF n] by simp_all
    from "3.IH"(2) [OF False n u "3.prems"(2) nin(1) "3.prems"(3,4)]
    have i: "search_inv nodes roots u" "extends visiting s u" "al_artifactId n \<in> set (sr_ordered u)" by blast+
    have "set (sr_ordered u) \<inter> set visiting = {}" using i(2) "3.prems"(3) by (auto simp: extends_def)
    from "3.IH"(3) [OF False n u t i(1) this "3.prems"(4)]
    have "search_inv nodes roots t" "extends visiting u t" "\<forall>d \<in> set parents. d \<notin> set roots \<longrightarrow>
      (\<exists>n \<in> set nodes. al_artifactDigest n = d \<and> al_artifactId n \<in> set (sr_ordered t))" by blast+
    then show ?thesis using extends_trans [OF i(2)] extends_set [of visiting u t] i(3) nin by auto
  qed
qed

text \<open>A refusal has a reason: a cycle through the named node, or a parent nobody knows.\<close>

definition justified_refusal :: "artifact_lineage list \<Rightarrow> string list \<Rightarrow> lineage_validation \<Rightarrow> bool" where
  "justified_refusal nodes roots f \<longleftrightarrow>
     (case f of
        Lineage_cycle i \<Rightarrow> (i, i) \<in> (parent_edges nodes roots)\<^sup>+
      | Lineage_missing_parent i \<Rightarrow> \<exists>c \<in> set nodes. al_artifactId c = i \<and> lacks_parent nodes roots c
      | _ \<Rightarrow> False)"

lemma visit_refuses:
  "visit nodes roots visiting node s = Inl f \<Longrightarrow> node \<in> set nodes \<Longrightarrow>
     (\<forall>v \<in> set visiting. (al_artifactId node, v) \<in> (parent_edges nodes roots)\<^sup>+) \<Longrightarrow> justified_refusal nodes roots f"
  "visit_parents nodes roots visiting child parents s = Inl f \<Longrightarrow> c \<in> set nodes \<Longrightarrow> child = al_artifactId c \<Longrightarrow>
     set parents \<subseteq> set (al_parentDigests c) \<Longrightarrow>
     (\<forall>v \<in> set visiting. v = child \<or> (child, v) \<in> (parent_edges nodes roots)\<^sup>+) \<Longrightarrow> justified_refusal nodes roots f"
proof (induction nodes roots visiting node s and nodes roots visiting child parents s arbitrary: f and f c
    rule: visit_visit_parents.induct)
  case (1 nodes roots visiting node s)
  show ?case
  proof (cases "al_artifactId node \<in> set visiting")
    case True
    with 1 show ?thesis by (auto simp: justified_refusal_def split: if_splits)
  next
    case False
    with "1.prems"(1) have n: "al_artifactId node \<notin> set (sr_visited s)"
      and u: "visit_parents nodes roots (al_artifactId node # visiting) (al_artifactId node) (al_parentDigests node) s = Inl f"
      by (auto split: if_splits sum.splits)
    show ?thesis
      by (rule "1.IH" [OF n False u "1.prems"(2) refl order_refl]) (use "1.prems"(3) in auto)
  qed
next
  case (2 nodes roots visiting child s)
  then show ?case by simp
next
  case (3 nodes roots visiting child parent parents s)
  show ?case
  proof (cases "parent \<in> set roots")
    case True
    with 3 show ?thesis by auto
  next
    case False
    show ?thesis
    proof (cases "byDigest nodes parent")
      case None
      with False 3 have "f = Lineage_missing_parent child" "lacks_parent nodes roots c"
        by (auto simp: lacks_parent_def byDigest_None)
      with "3.prems"(2,3) show ?thesis by (auto simp: justified_refusal_def)
    next
      case (Some n)
      have nin: "n \<in> set nodes" "al_artifactDigest n = parent" using byDigest_in [OF Some] by simp_all
      have e: "(al_artifactId n, child) \<in> parent_edges nodes roots"
        using nin "3.prems"(2-4) False by (auto simp: parent_edges_def)
      show ?thesis
      proof (cases "visit nodes roots visiting n s")
        case (Inl g)
        have "\<forall>v \<in> set visiting. (al_artifactId n, v) \<in> (parent_edges nodes roots)\<^sup>+"
          using "3.prems"(5) e trancl_into_trancl2 by fastforce
        from "3.IH"(2) [OF False Some Inl nin(1) this] show ?thesis using "3.prems"(1) False Some Inl by simp
      next
        case (Inr u)
        with "3.prems"(1) False Some have "visit_parents nodes roots visiting child parents u = Inl f" by simp
        then show ?thesis using "3.prems"(2-5) by (intro "3.IH"(3) [OF False Some Inr]) auto
      qed
    qed
  qed
qed

lemma visit_all_sound:
  assumes "well_indexed nodes"
  shows "visit_all nodes roots ns s = Inr t \<Longrightarrow> search_inv nodes roots s \<Longrightarrow> set ns \<subseteq> set nodes \<Longrightarrow>
    search_inv nodes roots t \<and> set (sr_ordered s) \<union> al_artifactId ` set ns \<subseteq> set (sr_ordered t)"
proof (induction ns arbitrary: s)
  case (Cons n ns)
  then obtain u where u: "visit nodes roots [] n s = Inr u" "visit_all nodes roots ns u = Inr t" by auto
  have v: "search_inv nodes roots u" "extends [] s u" "al_artifactId n \<in> set (sr_ordered u)"
    using visit_sound(1) [OF assms u(1) Cons.prems(2)] Cons.prems(3) by auto
  have "search_inv nodes roots t \<and> set (sr_ordered u) \<union> al_artifactId ` set ns \<subseteq> set (sr_ordered t)"
    by (rule Cons.IH [OF u(2) v(1)]) (use Cons.prems(3) in auto)
  with v extends_set [OF v(2)] show ?case by auto
qed simp

lemma visit_all_refuses: "visit_all nodes roots ns s = Inl f \<Longrightarrow> set ns \<subseteq> set nodes \<Longrightarrow> justified_refusal nodes roots f"
proof (induction ns arbitrary: s)
  case (Cons n ns)
  then show ?case using visit_refuses(1) [of nodes roots "[]" n s f] by (cases "visit nodes roots [] n s") auto
qed simp

lemma index_lineage_None:
  "index_lineage ids digests nodes = None \<longleftrightarrow> well_indexed nodes \<and>
     al_artifactId ` set nodes \<inter> set ids = {} \<and> al_artifactDigest ` set nodes \<inter> set digests = {}"
  by (induction ids digests nodes rule: index_lineage.induct) (auto simp: well_indexed_def)

lemma index_lineage_Some:
  "index_lineage ids digests nodes = Some f \<Longrightarrow>
     (\<exists>n \<in> set nodes. f = Lineage_duplicate (al_artifactId n) \<or>
       f = Lineage_invalid_digest (al_artifactId n) \<and> \<not> sha256_test (al_artifactDigest n))"
  by (induction ids digests nodes rule: index_lineage.induct) (auto split: if_splits)

lemma index_lineage_duplicate:
  "index_lineage ids digests nodes = Some (Lineage_duplicate i) \<Longrightarrow> distinct (map al_artifactId nodes) \<Longrightarrow>
     distinct (map al_artifactDigest nodes) \<Longrightarrow>
     al_artifactId ` set nodes \<inter> set ids \<noteq> {} \<or> al_artifactDigest ` set nodes \<inter> set digests \<noteq> {}"
  by (induction ids digests nodes rule: index_lineage.induct) (auto split: if_splits)

text \<open>An order in which every node stands behind its parents leaves no cycle.\<close>

lemma topological_acyclic:
  assumes "topological nodes roots order" "set order = al_artifactId ` set nodes"
  shows "acyclic (parent_edges nodes roots)"
proof -
  define rank where "rank x = (LEAST i. i < length order \<and> order ! i = x)" for x
  have step: "rank p < rank c" if e: "(p, c) \<in> parent_edges nodes roots" for p c
  proof -
    have "c \<in> set order" using e assms(2) by (auto simp: parent_edges_def)
    then have "\<exists>i. i < length order \<and> order ! i = c" by (simp add: in_set_conv_nth)
    from LeastI_ex [OF this] have r: "rank c < length order" "order ! rank c = c" by (simp_all add: rank_def)
    with assms(1) e have "p \<in> set (take (rank c) order)" by (auto simp: topological_def)
    then obtain j where j: "j < rank c" "order ! j = p" by (auto simp: in_set_conv_nth)
    have "rank p \<le> j" unfolding rank_def by (rule Least_le) (use j r in simp)
    with j show ?thesis by simp
  qed
  have "(p, c) \<in> (parent_edges nodes roots)\<^sup>+ \<Longrightarrow> rank p < rank c" for p c
    by (induction rule: trancl_induct) (auto dest: step intro: less_trans)
  then show ?thesis by (auto simp: acyclic_def)
qed

definition lineage_dag :: "artifact_lineage list \<Rightarrow> string list \<Rightarrow> bool" where
  "lineage_dag nodes roots \<longleftrightarrow> well_indexed nodes \<and> (\<forall>c \<in> set nodes. \<not> lacks_parent nodes roots c) \<and>
     acyclic (parent_edges nodes roots)"

lemma search_result:
  assumes "well_indexed nodes" and ns: "mset ns = mset nodes"
  shows "case visit_all nodes roots ns \<lparr> sr_visited = [], sr_ordered = [] \<rparr> of
      Inl f \<Rightarrow> justified_refusal nodes roots f
    | Inr s \<Rightarrow> mset (sr_ordered s) = mset (map al_artifactId nodes) \<and> topological nodes roots (sr_ordered s) \<and>
        lineage_dag nodes roots"
proof (cases "visit_all nodes roots ns \<lparr> sr_visited = [], sr_ordered = [] \<rparr>")
  case (Inl f)
  then show ?thesis using visit_all_refuses [OF Inl] ns mset_eq_setD by fastforce
next
  case (Inr s)
  have e: "set ns = set nodes" using ns by (rule mset_eq_setD)
  have "search_inv nodes roots \<lparr> sr_visited = [], sr_ordered = [] \<rparr>" by (simp add: search_inv_def topological_def)
  from visit_all_sound [OF assms(1) Inr this] e
  have i: "search_inv nodes roots s" and c: "al_artifactId ` set nodes \<subseteq> set (sr_ordered s)" by auto
  then have o: "set (sr_ordered s) = al_artifactId ` set nodes" by (auto simp: search_inv_def)
  have "mset (sr_ordered s) = mset (map al_artifactId nodes)"
    using i o assms(1) by (intro set_eq_iff_mset_eq_distinct [THEN iffD1]) (auto simp: search_inv_def well_indexed_def)
  moreover have "lineage_dag nodes roots"
    using i o assms(1) topological_acyclic [OF _ o] by (auto simp: lineage_dag_def search_inv_def)
  ultimately show ?thesis using i Inr by (simp add: search_inv_def)
qed

lemma validation_result:
  "case validateLineageDag localeCompare nodes roots of
     Lineage_valid order \<Rightarrow> lineage_dag nodes roots \<and> mset order = mset (map al_artifactId nodes) \<and>
       topological nodes roots order
   | Lineage_cycle i \<Rightarrow> (i, i) \<in> (parent_edges nodes roots)\<^sup>+
   | Lineage_missing_parent i \<Rightarrow> \<exists>c \<in> set nodes. al_artifactId c = i \<and> lacks_parent nodes roots c
   | Lineage_duplicate i \<Rightarrow> \<not> (distinct (map al_artifactId nodes) \<and> distinct (map al_artifactDigest nodes))
   | Lineage_invalid_digest i \<Rightarrow> \<exists>n \<in> set nodes. al_artifactId n = i \<and> \<not> sha256_test (al_artifactDigest n)"
proof (cases "index_lineage [] [] nodes")
  case (Some f)
  then show ?thesis
    using index_lineage_Some [OF Some] index_lineage_duplicate [of "[]" "[]" nodes]
    by (auto simp: validateLineageDag_def split: lineage_validation.splits)
next
  case None
  then have w: "well_indexed nodes" by (simp add: index_lineage_None)
  from search_result [OF w mset_js_sort, of roots "\<lambda>left right. localeCompare (al_artifactId left) (al_artifactId right)"]
  show ?thesis
    using None by (auto simp: validateLineageDag_def justified_refusal_def split: sum.splits lineage_validation.splits)
qed

section \<open>Properties of the lineage\<close>

text \<open>
  C21: Validation accepts exactly the lineages whose identifiers and digests are unique and
  well formed, whose parents are all known and which have no cycle, and then gives every
  artifact once, behind all its parents; a refusal names a repeated artifact, a malformed
  digest, a node with an unknown parent or a node on a cycle.
\<close>

theorem lineage_validation_exact:
  "((\<exists>order. validateLineageDag localeCompare nodes roots = Lineage_valid order) \<longleftrightarrow> lineage_dag nodes roots) \<and>
   (case validateLineageDag localeCompare nodes roots of
     Lineage_valid order \<Rightarrow> mset order = mset (map al_artifactId nodes) \<and> topological nodes roots order
   | Lineage_cycle i \<Rightarrow> (i, i) \<in> (parent_edges nodes roots)\<^sup>+
   | Lineage_missing_parent i \<Rightarrow> \<exists>c \<in> set nodes. al_artifactId c = i \<and> lacks_parent nodes roots c
   | Lineage_duplicate i \<Rightarrow> \<not> (distinct (map al_artifactId nodes) \<and> distinct (map al_artifactDigest nodes))
   | Lineage_invalid_digest i \<Rightarrow> \<exists>n \<in> set nodes. al_artifactId n = i \<and> \<not> sha256_test (al_artifactDigest n))"
  using validation_result [where localeCompare = localeCompare and nodes = nodes and roots = roots]
  by (auto simp: lineage_dag_def well_indexed_def acyclic_def split: lineage_validation.splits)

text \<open>
  C22: A run with the gates of an evaluated context is declared done exactly when all steps
  are complete, no evidence is invalid, there are criteria and each passed, is checked and
  has valid evidence, every enforced gate is satisfied in the context, the final acceptance
  of this run was approved, and there is a lineage of well-formed artifacts of this run.
\<close>

theorem done_needs_everything:
  assumes "dc_gates candidate = evaluateGates context"
  shows "(\<exists>refs advisories. decideDone localeCompare candidate = Done_accepted refs advisories) \<longleftrightarrow>
    dc_allStepsComplete candidate \<and> dc_invalidEvidenceIds candidate = [] \<and>
    context_criteria context \<noteq> [] \<and>
    (\<forall>c \<in> set (context_criteria context). cg_state c = Crit_passed \<and> cg_checked c \<and> cg_evidenceValid c) \<and>
    (\<forall>g. gc_gateModes context g = Enforce \<longrightarrow> gate_satisfied context g) \<and>
    (\<exists>a. dc_approval candidate = Some a \<and> ap_decision a = Approved \<and> ap_runId a = dc_runId candidate \<and>
      ap_gate a = ''final-acceptance'') \<and>
    dc_lineage candidate \<noteq> [] \<and>
    (\<forall>l \<in> set (dc_lineage candidate). al_runId l = dc_runId candidate \<and> sha256_test (al_artifactDigest l) \<and>
      al_policyVersion l \<noteq> [] \<and> al_producerCommand l \<noteq> [])"
proof -
  have o: "gd_outcome (evaluateGates context) = Block_outcome \<longleftrightarrow> \<not> (\<forall>g. gc_gateModes context g = Enforce \<longrightarrow> gate_satisfied context g)"
    using gate_block_iff by blast
  have "gd_criteria (evaluateGates context) = context_criteria context" by (simp add: evaluateGates_def Let_def)
  with assms o show ?thesis
    by (auto simp: decideDone_def Let_def list_ex_iff approves_done_def split: option.splits)
qed

text \<open>A finished run: one criterion, one piece of evidence, two artifacts derived one from the other.\<close>

definition sample_approval :: "string \<Rightarrow> approval" where
  "sample_approval gate = \<lparr> ap_approvalId = ''a1'', ap_runId = ''r1'', ap_gate = gate, ap_decision = Approved,
     ap_prdDigest = replicate 64 (CHR ''a''), ap_specDigest = replicate 64 (CHR ''b''), ap_policyVersion = ''workflow-v2'',
     ap_approver = ''owner'', ap_observation = ''ok'', ap_challenge = replicate 64 (CHR ''c''),
     ap_decidedAt = ''2026-01-01T00:00:00.000Z'', ap_expiresAt = ''2026-01-02T00:00:00.000Z'' \<rparr>"

definition sample_done_context :: gate_context where
  "sample_done_context = \<lparr> gc_gateModes = (\<lambda>_. Enforce), gc_phase = Acceptance, gc_contextReadable = True,
     gc_stopLoss_tripped = False, gc_stopLoss_exhausted = False, gc_stopLoss_repeatedRejections = None,
     gc_prdDigest = Some (replicate 64 (CHR ''a'')), gc_prdDocument = Prd_complete,
     gc_specDigest = Some (replicate 64 (CHR ''b'')), gc_approvals = [sample_approval ''spec''], gc_openGaps = 0,
     gc_partitionRequired = False, gc_partitionApproved = False, gc_finalAcceptance = True,
     gc_acceptanceCriteria = Some [\<lparr> cg_criterionId = ''AC-1.1.1'', cg_state = Crit_passed, cg_checked = True, cg_evidenceValid = True \<rparr>],
     gc_languagePolicy = None, gc_languageObservations = None, gc_languageMismatch = None \<rparr>"

definition sample_node :: "string \<Rightarrow> char \<Rightarrow> string list \<Rightarrow> artifact_lineage" where
  "sample_node i c parents = \<lparr> al_artifactId = i, al_artifactRef = i, al_artifactDigest = replicate 64 c,
     al_parentDigests = parents, al_runId = ''r1'', al_phase = ''code'', al_policyMode = Enforce,
     al_policyVersion = ''workflow-v2'', al_producerCommand = ''agent.record'', al_commit = None, al_evidenceRefs = [],
     al_observedIdentity = \<lparr> ln_host = ''codex'', ln_model = None, ln_provenance = Source_unknown \<rparr> \<rparr>"

definition sample_nodes :: "artifact_lineage list" where
  "sample_nodes = [sample_node ''b'' (CHR ''b'') [replicate 64 (CHR ''a'')], sample_node ''a'' (CHR ''a'') [replicate 64 (CHR ''f'')]]"

definition sample_candidate :: done_candidate where
  "sample_candidate = \<lparr> dc_runId = ''r1'', dc_allStepsComplete = True, dc_gates = evaluateGates sample_done_context,
     dc_approval = Some (sample_approval ''final-acceptance''), dc_evidence = [], dc_invalidEvidenceIds = [],
     dc_lineage = sample_nodes \<rparr>"

lemma sample_hex: "sha256_test (replicate 64 (CHR ''a''))" "sha256_test (replicate 64 (CHR ''b''))"
  by (simp_all add: sha256_test_def list_all_iff is_hex_lower_def code_unit_def)

theorem lineage_validation_exact_witness:
  "validateLineageDag text_compare sample_nodes [replicate 64 (CHR ''f'')] = Lineage_valid [''a'', ''b''] \<and>
    lineage_dag sample_nodes [replicate 64 (CHR ''f'')]"
proof -
  have v: "validateLineageDag text_compare sample_nodes [replicate 64 (CHR ''f'')] = Lineage_valid [''a'', ''b'']" by code_simp
  then show ?thesis using lineage_validation_exact [of text_compare sample_nodes "[replicate 64 (CHR ''f'')]"] by auto
qed

theorem done_needs_everything_witness:
  "\<exists>refs advisories. decideDone text_compare sample_candidate = Done_accepted refs advisories"
proof -
  have g: "gate_satisfied sample_done_context g" for g
    by (cases g) (simp_all add: sample_done_context_def sample_approval_def context_criteria_def)
  have "dc_gates sample_candidate = evaluateGates sample_done_context" by (simp add: sample_candidate_def)
  from done_needs_everything [OF this, of text_compare] g sample_hex show ?thesis
    by (simp add: sample_candidate_def sample_nodes_def sample_node_def context_criteria_def)
      (simp add: sample_done_context_def sample_approval_def)
qed

end
