(* ===== verification/Criteria_Policy.thy ===== *)
theory Criteria_Policy
  imports Artifact_Lineage Repair_Loop
begin

text \<open>
  Acceptance criteria (\<open>domain/acceptance-criteria/policy.ts\<close>): how the criteria of the task
  document may differ from the frozen snapshot, how a reported verdict is bound to declared
  criteria and evidence, and how a baseline from before the snapshots is recognised.
\<close>

section \<open>Changes against the snapshot\<close>

datatype criterion_kind = Main_criterion | Edge_criterion

record frozen_criterion =
  zc_criterionId :: string
  zc_workUnit :: string
  zc_task :: string
  zc_kind :: criterion_kind
  zc_ordinal :: int
  zc_declarationDigest :: string

record current_criterion = frozen_criterion +
  zc_checked :: bool

datatype criteria_refusal = Ac_declaration_changed | Ac_append_forbidden | Ac_checkbox_forbidden

datatype criteria_change =
    Criteria_unchanged
  | Criteria_append "string list"
  | Criteria_refused criteria_refusal string

definition sameDeclaration :: "'a frozen_criterion_scheme \<Rightarrow> 'b frozen_criterion_scheme \<Rightarrow> bool" where
  "sameDeclaration left right \<longleftrightarrow>
     zc_criterionId left = zc_criterionId right \<and> zc_workUnit left = zc_workUnit right \<and>
     zc_task left = zc_task right \<and> zc_kind left = zc_kind right \<and> zc_ordinal left = zc_ordinal right \<and>
     zc_declarationDigest left = zc_declarationDigest right"

text \<open>The loop over the shared positions, then the first criterion that was removed.\<close>

fun changed_declaration :: "frozen_criterion list \<Rightarrow> current_criterion list \<Rightarrow> string option" where
  "changed_declaration [] current = None"
| "changed_declaration (f # fs) [] = Some (zc_criterionId f)"
| "changed_declaration (f # fs) (c # cs) =
     (if \<not> sameDeclaration f c then Some (zc_criterionId f) else changed_declaration fs cs)"

text \<open>\<open>latestOutcomes\<close> is the list of entries of the map; a later entry replaces an earlier one.\<close>

definition map_get :: "('k \<times> 'v) list \<Rightarrow> 'k \<Rightarrow> 'v option" where
  "map_get entries key = map_of (rev entries) key"

definition expected_checkbox :: "(string \<times> criterion_outcome) list \<Rightarrow> string \<Rightarrow> bool" where
  "expected_checkbox outcomes criterionId \<longleftrightarrow> map_get outcomes criterionId = Some Outcome_passed"

definition compareCriteriaSnapshot ::
  "run_phase \<Rightarrow> frozen_criterion list \<Rightarrow> current_criterion list \<Rightarrow> (string \<times> criterion_outcome) list \<Rightarrow>
    criteria_change" where
  "compareCriteriaSnapshot phase base current latestOutcomes =
     (case changed_declaration base current of
        Some criterionId \<Rightarrow> Criteria_refused Ac_declaration_changed criterionId
      | None \<Rightarrow>
          (case List.find (\<lambda>c. zc_checked c \<noteq> expected_checkbox latestOutcomes (zc_criterionId c)) current of
             Some c \<Rightarrow> Criteria_refused Ac_checkbox_forbidden (zc_criterionId c)
           | None \<Rightarrow>
               (case drop (length base) current of
                  [] \<Rightarrow> Criteria_unchanged
                | firstAppended # appended \<Rightarrow>
                    if phase \<noteq> Acceptance
                    then Criteria_refused Ac_append_forbidden (zc_criterionId firstAppended)
                    else Criteria_append (map zc_criterionId (firstAppended # appended)))))"

section \<open>Binding a verdict\<close>

record reported_criterion =
  rp_criterionId :: string
  rp_outcome :: criterion_outcome
  rp_evidenceRef :: string

record bound_verdict =
  bv_criterionId :: string
  bv_outcome :: criterion_outcome
  bv_evidenceId :: string
  bv_evidenceRef :: string
  bv_evidenceDigest :: string

datatype verdict_refusal = Ac_verdict_mismatch | Ac_evidence_missing | Ac_evidence_invalid

datatype verdict_decision =
    Verdict_refused verdict_refusal string
  | Verdict_bound "bound_verdict list" "(string \<times> criterion_outcome) list"

fun check_reports :: "string list \<Rightarrow> string list \<Rightarrow> reported_criterion list \<Rightarrow> string option" where
  "check_reports declared seen [] = None"
| "check_reports declared seen (r # rs) =
     (if rp_criterionId r \<notin> set declared \<or> rp_criterionId r \<in> set seen then Some (rp_criterionId r)
      else check_reports declared (rp_criterionId r # seen) rs)"

definition report_of :: "reported_criterion list \<Rightarrow> string \<Rightarrow> reported_criterion option" where
  "report_of reports criterionId = List.find (\<lambda>r. rp_criterionId r = criterionId) reports"

text \<open>A later evidence record with the same reference replaces an earlier one in the map.\<close>

definition evidence_by_ref :: "evidence_item list \<Rightarrow> string \<Rightarrow> evidence_item option" where
  "evidence_by_ref records ref = map_get (map (\<lambda>item. (vi_ref item, item)) records) ref"

fun bind_verdicts ::
  "reported_criterion list \<Rightarrow> evidence_item list \<Rightarrow> string list \<Rightarrow> string list \<Rightarrow>
    (verdict_refusal \<times> string, bound_verdict list) result" where
  "bind_verdicts reports records invalid [] = Inr []"
| "bind_verdicts reports records invalid (criterionId # rest) =
     (case report_of reports criterionId of
        None \<Rightarrow> Inl (Ac_verdict_mismatch, criterionId)
      | Some report \<Rightarrow>
          (case evidence_by_ref records (rp_evidenceRef report) of
             None \<Rightarrow> Inl (Ac_evidence_missing, criterionId)
           | Some item \<Rightarrow>
               if vi_evidenceId item \<in> set invalid then Inl (Ac_evidence_invalid, criterionId)
               else (case bind_verdicts reports records invalid rest of
                   Inl refusal \<Rightarrow> Inl refusal
                 | Inr bound \<Rightarrow> Inr
                     (\<lparr> bv_criterionId = criterionId, bv_outcome = rp_outcome report,
                        bv_evidenceId = vi_evidenceId item, bv_evidenceRef = vi_ref item,
                        bv_evidenceDigest = vi_sha256 item \<rparr> # bound))))"

text \<open>\<open>globalVerdict\<close> is \<open>True\<close> for an accepted verdict.\<close>

definition decideAcceptanceVerdict ::
  "string list \<Rightarrow> bool \<Rightarrow> reported_criterion list \<Rightarrow> evidence_item list \<Rightarrow> string list \<Rightarrow> verdict_decision" where
  "decideAcceptanceVerdict declarations globalVerdict criteria records invalidEvidenceIds =
     (case check_reports declarations [] criteria of
        Some criterionId \<Rightarrow> Verdict_refused Ac_verdict_mismatch criterionId
      | None \<Rightarrow>
          (case bind_verdicts criteria records invalidEvidenceIds declarations of
             Inl (reason, criterionId) \<Rightarrow> Verdict_refused reason criterionId
           | Inr bound \<Rightarrow>
               if globalVerdict \<noteq> list_all (\<lambda>b. bv_outcome b = Outcome_passed) bound
               then Verdict_refused Ac_verdict_mismatch
                 (case List.find (\<lambda>b. bv_outcome b \<noteq> Outcome_passed) bound of
                    Some b \<Rightarrow> bv_criterionId b
                  | None \<Rightarrow> (case bound of b # _ \<Rightarrow> bv_criterionId b | [] \<Rightarrow> ''AC-0.0.0''))
               else Verdict_bound bound (map (\<lambda>b. (bv_criterionId b, bv_outcome b)) bound)))"

section \<open>Baselines from before the snapshots\<close>

text \<open>What a plan-phase event and its lineage file must say; a field of the file may be anything or absent.\<close>

record legacy_event =
  le_eventType :: string
  le_reasonCode :: string
  le_operation :: string
  le_artifactRefs :: "string list"

record legacy_lineage =
  ll_artifactRef :: "string option"
  ll_artifactDigest :: "string option"
  ll_phase :: "string option"
  ll_producerCommand :: "string option"

definition isLegacyPlanBaseline :: "string \<Rightarrow> string \<Rightarrow> legacy_event \<Rightarrow> legacy_lineage \<Rightarrow> bool" where
  "isLegacyPlanBaseline documentRef documentDigest source lineage \<longleftrightarrow>
     le_eventType source = ''transition'' \<and> le_reasonCode source = ''run.transition.accepted'' \<and>
     documentRef \<in> set (le_artifactRefs source) \<and> ll_artifactRef lineage = Some documentRef \<and>
     ll_artifactDigest lineage = Some documentDigest \<and> ll_phase lineage = Some ''plan'' \<and>
     ll_producerCommand lineage = Some (le_operation source)"

fun findIndex :: "('a \<Rightarrow> bool) \<Rightarrow> 'a list \<Rightarrow> int" where
  "findIndex P [] = - 1"
| "findIndex P (x # xs) = (if P x then 0 else (let n = findIndex P xs in if n < 0 then - 1 else n + 1))"

definition findLegacyPlanBaselineIndex ::
  "string \<Rightarrow> string \<Rightarrow> (legacy_event \<times> legacy_lineage) list \<Rightarrow> int" where
  "findLegacyPlanBaselineIndex documentRef documentDigest candidates =
     findIndex (\<lambda>(source, lineage). isLegacyPlanBaseline documentRef documentDigest source lineage) candidates"

section \<open>What the policy admits\<close>

definition criteria_admissible ::
  "run_phase \<Rightarrow> frozen_criterion list \<Rightarrow> current_criterion list \<Rightarrow> (string \<times> criterion_outcome) list \<Rightarrow> bool" where
  "criteria_admissible phase base current outcomes \<longleftrightarrow>
     length base \<le> length current \<and> list_all2 sameDeclaration base (take (length base) current) \<and>
     list_all (\<lambda>c. zc_checked c \<longleftrightarrow> map_get outcomes (zc_criterionId c) = Some Outcome_passed) current \<and>
     (length current = length base \<or> phase = Acceptance)"

lemma changed_declaration_None:
  "changed_declaration base current = None \<longleftrightarrow>
     length base \<le> length current \<and> list_all2 sameDeclaration base (take (length base) current)"
  by (induction base current rule: changed_declaration.induct) auto

lemma wrong_checkbox_None:
  "List.find (\<lambda>c. zc_checked c \<noteq> expected_checkbox outcomes (zc_criterionId c)) current = None \<longleftrightarrow>
     list_all (\<lambda>c. zc_checked c \<longleftrightarrow> map_get outcomes (zc_criterionId c) = Some Outcome_passed) current"
  by (auto simp: find_None_iff expected_checkbox_def list_all_iff)

lemma compare_iff:
  "(compareCriteriaSnapshot phase base current outcomes = Criteria_unchanged \<longleftrightarrow>
      criteria_admissible phase base current outcomes \<and> length current = length base) \<and>
   (compareCriteriaSnapshot phase base current outcomes = Criteria_append added \<longleftrightarrow>
      criteria_admissible phase base current outcomes \<and> length current > length base \<and>
      added = map zc_criterionId (drop (length base) current))"
proof (cases "changed_declaration base current = None \<and>
    List.find (\<lambda>c. zc_checked c \<noteq> expected_checkbox outcomes (zc_criterionId c)) current = None")
  case True
  then have kept: "length base \<le> length current" "list_all2 sameDeclaration base (take (length base) current)"
    and boxes: "list_all (\<lambda>c. zc_checked c \<longleftrightarrow> map_get outcomes (zc_criterionId c) = Some Outcome_passed) current"
    unfolding changed_declaration_None wrong_checkbox_None by blast+
  show ?thesis
  proof (cases "drop (length base) current")
    case Nil
    with kept(1) have "length current = length base" by simp
    with Nil True kept boxes show ?thesis by (simp add: compareCriteriaSnapshot_def criteria_admissible_def)
  next
    case (Cons c cs)
    then have "length current \<noteq> length base" by auto
    with Cons True kept boxes show ?thesis
      by (auto simp add: compareCriteriaSnapshot_def criteria_admissible_def)
  qed
next
  case False
  then have "\<not> criteria_admissible phase base current outcomes"
    unfolding changed_declaration_None wrong_checkbox_None criteria_admissible_def by blast
  moreover have "\<exists>reason i. compareCriteriaSnapshot phase base current outcomes = Criteria_refused reason i"
    using False by (cases "changed_declaration base current") (auto simp: compareCriteriaSnapshot_def)
  ultimately show ?thesis by auto
qed

lemma admissible_unchanged:
  "criteria_admissible phase base current outcomes \<Longrightarrow> length current = length base \<Longrightarrow>
     compareCriteriaSnapshot phase base current outcomes = Criteria_unchanged"
  using compare_iff by blast

text \<open>The criteria of the task document pass against the frozen snapshot exactly when every
  frozen declaration is still there, unchanged and in its place, every checkbox is set precisely
  for the criteria whose latest outcome is passed, and criteria were added, behind the frozen
  ones, only in the acceptance phase; then exactly the added ones are reported. Everything else
  is refused.\<close>

theorem criteria_changes_exact:
  "(compareCriteriaSnapshot phase base current outcomes = Criteria_unchanged \<longleftrightarrow>
      criteria_admissible phase base current outcomes \<and> length current = length base) \<and>
   (compareCriteriaSnapshot phase base current outcomes = Criteria_append added \<longleftrightarrow>
      criteria_admissible phase base current outcomes \<and> length current > length base \<and>
      added = map zc_criterionId (drop (length base) current))"
  by (rule compare_iff)

text \<open>What binds a criterion to its report and its evidence.\<close>

definition binds ::
  "reported_criterion list \<Rightarrow> evidence_item list \<Rightarrow> string list \<Rightarrow> string \<Rightarrow> bound_verdict \<Rightarrow> bool" where
  "binds reports records invalid criterionId b \<longleftrightarrow>
     (\<exists>r item. (rp_criterionId r = criterionId \<and> r \<in> set reports) \<and>
        evidence_by_ref records (rp_evidenceRef r) = Some item \<and> vi_evidenceId item \<notin> set invalid \<and>
        b = \<lparr> bv_criterionId = criterionId, bv_outcome = rp_outcome r, bv_evidenceId = vi_evidenceId item,
              bv_evidenceRef = vi_ref item, bv_evidenceDigest = vi_sha256 item \<rparr>)"

lemma check_reports_None:
  "check_reports declared seen reports = None \<longleftrightarrow>
     set (map rp_criterionId reports) \<subseteq> set declared \<and> distinct (map rp_criterionId reports) \<and>
     set (map rp_criterionId reports) \<inter> set seen = {}"
  by (induction declared seen reports rule: check_reports.induct) auto

lemma report_of_iff:
  assumes "distinct (map rp_criterionId reports)"
  shows "report_of reports i = Some r \<longleftrightarrow> r \<in> set reports \<and> rp_criterionId r = i"
proof
  assume "r \<in> set reports \<and> rp_criterionId r = i"
  then show "report_of reports i = Some r"
    using assms unfolding report_of_def by (induction reports) (auto simp: rev_image_eqI)
qed (auto simp: report_of_def find_Some_iff)

lemma bind_verdicts_iff:
  assumes "distinct (map rp_criterionId reports)"
  shows "bind_verdicts reports records invalid declared = Inr bound \<longleftrightarrow>
    list_all2 (binds reports records invalid) declared bound"
proof (induction declared arbitrary: bound)
  case (Cons i declared)
  show ?case
  proof (cases "report_of reports i")
    case None
    then have "\<not> binds reports records invalid i b" for b
      using report_of_iff [OF assms, of i] by (auto simp: binds_def)
    with None show ?thesis by (auto simp: list_all2_Cons1)
  next
    case (Some r)
    then have r: "rp_criterionId r' = i \<and> r' \<in> set reports \<longleftrightarrow> r' = r" for r'
      using report_of_iff [OF assms, of i r'] Some by auto
    have b: "binds reports records invalid i b \<longleftrightarrow>
        (\<exists>item. evidence_by_ref records (rp_evidenceRef r) = Some item \<and> vi_evidenceId item \<notin> set invalid \<and>
          b = \<lparr> bv_criterionId = i, bv_outcome = rp_outcome r, bv_evidenceId = vi_evidenceId item,
              bv_evidenceRef = vi_ref item, bv_evidenceDigest = vi_sha256 item \<rparr>)" for b
      by (simp add: binds_def r)
    show ?thesis unfolding list_all2_Cons1 b Cons [symmetric]
      by (auto simp: Some split: option.split sum.split)
  qed
qed auto

lemma verdict_bound_iff:
  "decideAcceptanceVerdict declared globalVerdict reports records invalid = Verdict_bound bound outcomes \<longleftrightarrow>
     distinct (map rp_criterionId reports) \<and> set (map rp_criterionId reports) = set declared \<and>
     list_all2 (binds reports records invalid) declared bound \<and>
     globalVerdict = list_all (\<lambda>b. bv_outcome b = Outcome_passed) bound \<and>
     outcomes = map (\<lambda>b. (bv_criterionId b, bv_outcome b)) bound"
proof (cases "check_reports declared [] reports")
  case None
  then have reports: "set (map rp_criterionId reports) \<subseteq> set declared" "distinct (map rp_criterionId reports)"
    unfolding check_reports_None by auto
  have complete: "set declared \<subseteq> set (map rp_criterionId reports)"
    if bound: "list_all2 (binds reports records invalid) declared b" for b
  proof
    fix d assume "d \<in> set declared"
    then obtain v where "binds reports records invalid d v"
      using bound by (auto simp: list_all2_conv_all_nth in_set_conv_nth)
    then show "d \<in> set (map rp_criterionId reports)" by (auto simp: binds_def)
  qed
  show ?thesis
  proof (cases "bind_verdicts reports records invalid declared")
    case (Inl refusal)
    then have "\<not> list_all2 (binds reports records invalid) declared bound"
      using bind_verdicts_iff [OF reports(2)] by (metis Inl_Inr_False)
    with None Inl show ?thesis by (auto simp: decideAcceptanceVerdict_def split: prod.splits)
  next
    case (Inr found)
    then have found: "list_all2 (binds reports records invalid) declared b \<longleftrightarrow> b = found" for b
      using bind_verdicts_iff [OF reports(2), of records invalid declared b] by auto
    have "set (map rp_criterionId reports) = set declared" using complete [of found] reports(1) found by blast
    moreover have "decideAcceptanceVerdict declared globalVerdict reports records invalid = Verdict_bound bound outcomes \<longleftrightarrow>
        globalVerdict = list_all (\<lambda>b. bv_outcome b = Outcome_passed) found \<and> bound = found \<and>
        outcomes = map (\<lambda>b. (bv_criterionId b, bv_outcome b)) found"
      using None Inr by (simp add: decideAcceptanceVerdict_def) blast
    ultimately show ?thesis unfolding found using reports(2) by blast
  qed
next
  case (Some i)
  then have "check_reports declared [] reports \<noteq> None" by simp
  then have "\<not> (distinct (map rp_criterionId reports) \<and> set (map rp_criterionId reports) = set declared)"
    unfolding check_reports_None by auto
  with Some show ?thesis by (auto simp: decideAcceptanceVerdict_def)
qed

text \<open>C20: A reported acceptance verdict is accepted exactly when the reports name every declared
  criterion, no other and none twice, each of them points to an evidence record that is not
  invalid, and the global verdict is accepted precisely when all criteria passed; the verdicts
  are then bound to the declared criteria in their order.\<close>

theorem accepted_verdict_exact:
  "decideAcceptanceVerdict declared globalVerdict reports records invalid = Verdict_bound bound outcomes \<longleftrightarrow>
     distinct (map rp_criterionId reports) \<and> set (map rp_criterionId reports) = set declared \<and>
     list_all2 (binds reports records invalid) declared bound \<and>
     globalVerdict = list_all (\<lambda>b. bv_outcome b = Outcome_passed) bound \<and>
     outcomes = map (\<lambda>b. (bv_criterionId b, bv_outcome b)) bound"
  by (rule verdict_bound_iff)

end
