(* ===== verification/Criteria_Document.thy ===== *)
theory Criteria_Document
  imports Criteria_Policy Markdown_Lines
begin

text \<open>
  The task document (\<open>domain/acceptance-criteria/parser.ts\<close>): the parser that finds the
  acceptance criteria with their checkboxes and the renderer that sets the checkboxes after a
  verdict, with what a verdict, its rendering and the next comparison against the snapshot
  amount to together.
\<close>

section \<open>Expressions\<close>

text \<open>\<open>/^\s*(`{3,}|~{3,})/\<close>: the kind of the fence marker.\<close>

definition fence_marker :: "string \<Rightarrow> char option" where
  "fence_marker line =
     (case dropWhile is_js_space line of
        [] \<Rightarrow> None
      | c # rest \<Rightarrow>
          if (c = backtick \<or> c = CHR ''~'') \<and> length (takeWhile (\<lambda>d. d = c) (c # rest)) \<ge> 3 then Some c else None)"

definition leading_digits :: "string \<Rightarrow> string \<times> string" where
  "leading_digits s = (takeWhile is_digit s, dropWhile is_digit s)"

text \<open>\<open>:\s+\S.*$\<close>.\<close>

definition colon_title :: "string \<Rightarrow> bool" where
  "colon_title s \<longleftrightarrow> starts_with '':'' s \<and>
     (let title = dropWhile is_js_space (tl s)
      in takeWhile is_js_space (tl s) \<noteq> [] \<and> title \<noteq> [] \<and> list_all dot_char (tl title))"

definition workUnitHeading :: "string \<Rightarrow> string option" where
  "workUnitHeading line =
     (if starts_with ''### Work unit '' line then
        (let (n, rest) = leading_digits (drop 14 line) in if n \<noteq> [] \<and> colon_title rest then Some n else None)
      else None)"

definition taskHeading :: "string \<Rightarrow> (string \<times> string) option" where
  "taskHeading line =
     (if starts_with ''#### Task '' line then
        (let (n, rest) = leading_digits (drop 10 line); (m, rest') = leading_digits (tl rest)
         in if n \<noteq> [] \<and> starts_with ''.'' rest \<and> m \<noteq> [] \<and> colon_title rest' then Some (n, m) else None)
      else None)"

text \<open>The hashes of \<open>/^#{1,n}\s/\<close>: the white space has to follow the last of them.\<close>

definition heading_hashes :: "string \<Rightarrow> nat option" where
  "heading_hashes line =
     (case dropWhile (\<lambda>c. c = CHR ''#'') line of
        [] \<Rightarrow> None
      | c # _ \<Rightarrow> if is_js_space c then Some (length (takeWhile (\<lambda>c. c = CHR ''#'') line)) else None)"

definition is_heading :: "nat \<Rightarrow> string \<Rightarrow> bool" where
  "is_heading n line \<longleftrightarrow> (case heading_hashes line of None \<Rightarrow> False | Some k \<Rightarrow> 1 \<le> k \<and> k \<le> n)"

text \<open>\<open>^- \[( |x)\] \<close>: the checkbox and the rest of the line.\<close>

definition checkbox_of :: "string \<Rightarrow> (char \<times> string) option" where
  "checkbox_of line =
     (if starts_with ''- ['' line \<and> starts_with ''] '' (drop 4 line) \<and> (line ! 3 = CHR '' '' \<or> line ! 3 = CHR ''x'')
      then Some (line ! 3, drop 6 line) else None)"

text \<open>\<open>(\S+): (\S.*)$\<close>: the identifier runs to the colon before the first white space.\<close>

definition declared_text :: "string \<Rightarrow> (string \<times> string) option" where
  "declared_text s =
     (let run = takeWhile (\<lambda>c. \<not> is_js_space c) s; rest = dropWhile (\<lambda>c. \<not> is_js_space c) s
      in if length run \<ge> 2 \<and> List.last run = CHR '':'' \<and> starts_with '' '' rest \<and> tl rest \<noteq> [] \<and>
            \<not> is_js_space (hd (tl rest)) \<and> list_all dot_char (tl (tl rest))
         then Some (butlast run, tl rest) else None)"

definition checkboxDeclaration :: "string \<Rightarrow> (char \<times> string \<times> string) option" where
  "checkboxDeclaration line =
     (case checkbox_of line of
        None \<Rightarrow> None
      | Some (box, rest) \<Rightarrow> map_option (Pair box) (declared_text rest))"

text \<open>\<open>/^AC-(\d+)\.(\d+)\.(E?)(\d+)$/\<close>.\<close>

definition criterionParts :: "string \<Rightarrow> (string \<times> string \<times> bool \<times> string) option" where
  "criterionParts s =
     (if starts_with ''AC-'' s then
        (case split_on (CHR ''.'') (drop 3 s) of
           [a, b, c] \<Rightarrow>
             (let edge = starts_with ''E'' c; n = (if edge then tl c else c)
              in if all_digits1 a \<and> all_digits1 b \<and> all_digits1 n then Some (a, b, edge, n) else None)
         | _ \<Rightarrow> None)
      else None)"

section \<open>The parser\<close>

definition MAX_CRITERIA :: nat where
  "MAX_CRITERIA = 126"

record criterion_declaration =
  cd_criterionId :: string
  cd_workUnit :: string
  cd_task :: string
  cd_criterionKind :: criterion_kind
  cd_checked :: bool
  cd_ordinal :: int
  cd_line :: int
  cd_text :: string
  cd_normalizedDeclaration :: string

datatype task_document =
    Task_missing
  | Task_malformed int
  | Task_duplicate string
  | Task_valid "criterion_declaration list"

record task_parser =
  tp_declarations :: "criterion_declaration list"
  tp_fence :: "char option"
  tp_workUnit :: "string option"
  tp_task :: "string option"
  tp_section :: "criterion_kind option"

text \<open>The set \<open>identifiers\<close> of the source is the set of the identifiers of the declarations.\<close>

definition read_criterion :: "int \<Rightarrow> string \<Rightarrow> task_parser \<Rightarrow> (task_document, task_parser) result" where
  "read_criterion lineNumber line p =
     (case tp_section p of
        None \<Rightarrow>
          (case checkbox_of line of
             Some (_, rest) \<Rightarrow> if starts_with ''AC-'' rest then Inl (Task_malformed lineNumber) else Inr p
           | None \<Rightarrow> Inr p)
      | Some kind \<Rightarrow>
          if \<not> starts_with ''- ['' line then Inr p
          else (case (checkboxDeclaration line, tp_workUnit p, tp_task p) of
              (Some (box, criterionId, declared), Some workUnit, Some task) \<Rightarrow>
                if \<not> isAcceptanceCriterionId criterionId then Inl (Task_malformed lineNumber)
                else (case criterionParts criterionId of
                    None \<Rightarrow> Inl (Task_malformed lineNumber)
                  | Some (a, b, edge, _) \<Rightarrow>
                      if a \<noteq> workUnit \<or> b \<noteq> task \<or> (kind = Edge_criterion) \<noteq> edge
                      then Inl (Task_malformed lineNumber)
                      else if criterionId \<in> set (map cd_criterionId (tp_declarations p))
                      then Inl (Task_duplicate criterionId)
                      else if length (tp_declarations p) = MAX_CRITERIA then Inl (Task_malformed lineNumber)
                      else Inr (p\<lparr>tp_declarations := tp_declarations p @
                        [\<lparr> cd_criterionId = criterionId, cd_workUnit = workUnit, cd_task = task,
                           cd_criterionKind = kind, cd_checked = (box = CHR ''x''),
                           cd_ordinal = int (length (tp_declarations p)), cd_line = lineNumber, cd_text = declared,
                           cd_normalizedDeclaration = ''- [ ] '' @ criterionId @ '': '' @ declared \<rparr>]\<rparr>))
            | _ \<Rightarrow> Inl (Task_malformed lineNumber)))"

definition read_task_line :: "int \<Rightarrow> string \<Rightarrow> task_parser \<Rightarrow> (task_document, task_parser) result" where
  "read_task_line lineNumber line p =
     (case fence_marker line of
        Some kind \<Rightarrow> Inr (case tp_fence p of
            None \<Rightarrow> p\<lparr>tp_fence := Some kind\<rparr>
          | Some f \<Rightarrow> if f = kind then p\<lparr>tp_fence := None\<rparr> else p)
      | None \<Rightarrow>
          if tp_fence p \<noteq> None then Inr p
          else (case workUnitHeading line of
              Some n \<Rightarrow> Inr (p\<lparr>tp_workUnit := Some n, tp_task := None, tp_section := None\<rparr>)
            | None \<Rightarrow>
                (case taskHeading line of
                   Some (n, m) \<Rightarrow>
                     if tp_workUnit p \<noteq> Some n then Inl (Task_malformed lineNumber)
                     else Inr (p\<lparr>tp_task := Some m, tp_section := None\<rparr>)
                 | None \<Rightarrow>
                     if line = ''##### Acceptance criteria'' then Inr (p\<lparr>tp_section := Some Main_criterion\<rparr>)
                     else if line = ''##### Edge cases'' then Inr (p\<lparr>tp_section := Some Edge_criterion\<rparr>)
                     else if is_heading 5 line then
                       Inr (p\<lparr>tp_section := None,
                          tp_task := (if is_heading 3 line then None else tp_task p),
                          tp_workUnit := (if is_heading 2 line then None else tp_workUnit p)\<rparr>)
                     else read_criterion lineNumber line p)))"

fun read_task_lines :: "int \<Rightarrow> string list \<Rightarrow> task_parser \<Rightarrow> (task_document, task_parser) result" where
  "read_task_lines index [] p = Inr p"
| "read_task_lines index (line # lines) p =
     bind_result (read_task_line (index + 1) line p) (read_task_lines (index + 1) lines)"

definition empty_task_parser :: task_parser where
  "empty_task_parser =
     \<lparr>tp_declarations = [], tp_fence = None, tp_workUnit = None, tp_task = None, tp_section = None\<rparr>"

definition inspectTaskDocument :: "string option \<Rightarrow> task_document" where
  "inspectTaskDocument document =
     (case document of
        None \<Rightarrow> Task_missing
      | Some content \<Rightarrow>
          (case read_task_lines 0 (split_lines content) empty_task_parser of
             Inl observed \<Rightarrow> observed
           | Inr p \<Rightarrow> if tp_declarations p = [] then Task_malformed 0 else Task_valid (tp_declarations p)))"

section \<open>The renderer\<close>

text \<open>
  \<open>/^(- \[)( |x)(\] (AC-\d+\.\d+\.E?\d+): [^\r\n]+)(\r?)$/gmu\<close> matches a whole line between two
  line terminators: the identifier and the replaced line.
\<close>

definition rendered_criterion :: "string \<Rightarrow> string option" where
  "rendered_criterion line =
     (case checkbox_of line of
        None \<Rightarrow> None
      | Some (_, rest) \<Rightarrow>
          (let criterionId = takeWhile (\<lambda>c. c \<noteq> CHR '':'') rest; tail = dropWhile (\<lambda>c. c \<noteq> CHR '':'') rest
           in if criterionParts criterionId \<noteq> None \<and> starts_with '': '' tail \<and> length tail > 2
              then Some criterionId else None))"

definition rewrite_line :: "(string \<times> criterion_outcome) list \<Rightarrow> string \<Rightarrow> string" where
  "rewrite_line outcomes line =
     (case rendered_criterion line of
        None \<Rightarrow> line
      | Some criterionId \<Rightarrow>
          (case map_get outcomes criterionId of
             None \<Rightarrow> line
           | Some outcome \<Rightarrow>
               ''- ['' @ (if outcome = Outcome_passed then ''x'' else '' '') @ drop 4 line))"

definition carriage_return :: char where
  "carriage_return = CHR 0x0D"

definition rewrite_part :: "(string \<times> criterion_outcome) list \<Rightarrow> string \<Rightarrow> string" where
  "rewrite_part outcomes part =
     join_with carriage_return (map (rewrite_line outcomes) (split_on carriage_return part))"

datatype render_error = Task_document_not_valid | Outcome_of_unknown_criterion

definition renderCriterionCheckboxes ::
  "string \<Rightarrow> (string \<times> criterion_outcome) list \<Rightarrow> (render_error, string) result" where
  "renderCriterionCheckboxes content outcomes =
     (case inspectTaskDocument (Some content) of
        Task_valid declarations \<Rightarrow>
          if list_ex (\<lambda>(criterionId, _). criterionId \<notin> set (map cd_criterionId declarations)) outcomes
          then Inl Outcome_of_unknown_criterion
          else Inr (join_with line_feed (map (rewrite_part outcomes) (split_on line_feed content)))
      | _ \<Rightarrow> Inl Task_document_not_valid)"

section \<open>One line, rewritten\<close>

definition with_outcome :: "(string \<times> criterion_outcome) list \<Rightarrow> criterion_declaration \<Rightarrow> criterion_declaration" where
  "with_outcome outcomes d =
     (case map_get outcomes (cd_criterionId d) of
        None \<Rightarrow> d
      | Some outcome \<Rightarrow> d\<lparr>cd_checked := (outcome = Outcome_passed)\<rparr>)"

definition parser_with :: "(string \<times> criterion_outcome) list \<Rightarrow> task_parser \<Rightarrow> task_parser" where
  "parser_with outcomes p = p\<lparr>tp_declarations := map (with_outcome outcomes) (tp_declarations p)\<rparr>"

text \<open>A line that declares a criterion, by its checkbox and the rest.\<close>

definition box_line :: "char \<Rightarrow> string \<Rightarrow> string" where
  "box_line box rest = ''- ['' @ box # '']'' @ '' '' @ rest"

definition is_box :: "char \<Rightarrow> bool" where
  "is_box c \<longleftrightarrow> c = CHR '' '' \<or> c = CHR ''x''"

lemma checkbox_of_iff: "checkbox_of line = Some (box, rest) \<longleftrightarrow> is_box box \<and> line = box_line box rest"
proof
  assume "checkbox_of line = Some (box, rest)"
  then have parts: "starts_with ''- ['' line" "starts_with ''] '' (drop 4 line)" "box = line ! 3" "rest = drop 6 line" "is_box box"
    by (auto simp: checkbox_of_def is_box_def split: if_splits)
  from parts(1) obtain r where r: "line = ''- ['' @ r" by (auto simp: starts_with_iff)
  with parts(2) obtain c r' where "r = c # r'" by (cases r) auto
  with parts r show "is_box box \<and> line = box_line box rest" by (auto simp: starts_with_iff box_line_def)
qed (auto simp: checkbox_of_def box_line_def is_box_def)

lemma box_line_plain:
  "fence_marker (box_line box rest) = None" "workUnitHeading (box_line box rest) = None"
  "taskHeading (box_line box rest) = None" "\<not> is_heading n (box_line box rest)"
  "box_line box rest \<noteq> ''##### Acceptance criteria''" "box_line box rest \<noteq> ''##### Edge cases''"
  "starts_with ''- ['' (box_line box rest)" "drop 4 (box_line box rest) = ''] '' @ rest"
  by (simp_all add: box_line_def fence_marker_def is_js_space_def code_unit_def backtick_def workUnitHeading_def
      taskHeading_def is_heading_def heading_hashes_def)

lemma criterionParts_plain:
  assumes "criterionParts s \<noteq> None"
  shows "CHR '':'' \<notin> set s"
proof -
  from assms obtain r where r: "s = ''AC-'' @ r" by (auto simp: criterionParts_def starts_with_iff split: if_splits)
  with assms obtain a b c where abc: "split_on (CHR ''.'') r = [a, b, c]"
    by (auto simp: criterionParts_def split: list.splits)
  with r assms have digits: "all_digits1 a" "all_digits1 b" "all_digits1 (if starts_with ''E'' c then tl c else c)"
    by (auto simp: criterionParts_def Let_def split: if_splits)
  have free: "CHR '':'' \<notin> set t" if "all_digits1 t" for t
    using that by (auto simp: all_digits1_def list_all_iff is_digit_def code_unit_def)
  have "CHR '':'' \<notin> set c" using free [OF digits(3)] by (cases "starts_with ''E'' c") (auto simp: starts_with_iff)
  moreover have "r = join_with (CHR ''.'') [a, b, c]" using join_split_on [of "CHR ''.''" r] abc by simp
  ultimately show ?thesis using free [OF digits(1)] free [OF digits(2)] r by simp
qed

lemma identifier_parts: "isAcceptanceCriterionId s \<Longrightarrow> criterionParts s \<noteq> None"
  by (auto simp: isAcceptanceCriterionId_def criterionParts_def Let_def split: list.splits)

lemma colon_split:
  assumes "CHR '':'' \<notin> set i"
  shows "takeWhile (\<lambda>c. c \<noteq> CHR '':'') (i @ CHR '':'' # t) = i" "dropWhile (\<lambda>c. c \<noteq> CHR '':'') (i @ CHR '':'' # t) = CHR '':'' # t"
  using assms by (induction i) auto

lemma rendered_iff:
  "rendered_criterion line = Some i \<longleftrightarrow>
     criterionParts i \<noteq> None \<and> (\<exists>box tail. is_box box \<and> tail \<noteq> [] \<and> line = box_line box (i @ '': '' @ tail))"
proof
  assume "rendered_criterion line = Some i"
  then obtain box rest where line: "checkbox_of line = Some (box, rest)"
    and i: "i = takeWhile (\<lambda>c. c \<noteq> CHR '':'') rest" "criterionParts i \<noteq> None"
    and t: "starts_with '': '' (dropWhile (\<lambda>c. c \<noteq> CHR '':'') rest)" "length (dropWhile (\<lambda>c. c \<noteq> CHR '':'') rest) > 2"
    by (auto simp: rendered_criterion_def Let_def split: option.splits if_splits)
  from t obtain tail where "dropWhile (\<lambda>c. c \<noteq> CHR '':'') rest = '': '' @ tail" "tail \<noteq> []" by (auto simp: starts_with_iff)
  with i line show "criterionParts i \<noteq> None \<and> (\<exists>box tail. is_box box \<and> tail \<noteq> [] \<and> line = box_line box (i @ '': '' @ tail))"
    unfolding checkbox_of_iff by (metis takeWhile_dropWhile_id)
next
  assume "criterionParts i \<noteq> None \<and> (\<exists>box tail. is_box box \<and> tail \<noteq> [] \<and> line = box_line box (i @ '': '' @ tail))"
  then obtain box tail where parts: "criterionParts i \<noteq> None" "is_box box" "tail \<noteq> []" "line = box_line box (i @ '': '' @ tail)"
    by blast
  then have "checkbox_of line = Some (box, i @ '': '' @ tail)" by (simp add: checkbox_of_iff)
  then show "rendered_criterion line = Some i"
    using parts(1,3) colon_split [OF criterionParts_plain [OF parts(1)]] by (cases tail) (auto simp: rendered_criterion_def)
qed

lemma declaration_rendered:
  assumes "checkboxDeclaration line = Some (box, i, declared)" "criterionParts i \<noteq> None"
  shows "rendered_criterion line = Some i"
proof -
  from assms(1) obtain rest where rest: "checkbox_of line = Some (box, rest)" "declared_text rest = Some (i, declared)"
    by (auto simp: checkboxDeclaration_def split: option.splits)
  define run where "run = takeWhile (\<lambda>c. \<not> is_js_space c) rest"
  define after where "after = dropWhile (\<lambda>c. \<not> is_js_space c) rest"
  from rest(2) have facts: "length run \<ge> 2" "List.last run = CHR '':''" "starts_with '' '' after" "tl after \<noteq> []" "i = butlast run"
    by (auto simp: declared_text_def run_def [symmetric] after_def [symmetric] Let_def split: if_splits)
  then have "run \<noteq> []" by auto
  from append_butlast_last_id [OF this] facts(2,5) have "run = i @ '':''" by simp
  moreover obtain tail where tail: "after = '' '' @ tail" using facts(3) unfolding starts_with_iff by blast
  moreover have "rest = run @ after" unfolding run_def after_def by (rule takeWhile_dropWhile_id [symmetric])
  ultimately have "rest = i @ '': '' @ tail" by simp
  moreover have "tail \<noteq> []" using facts(4) tail by simp
  ultimately have "rest = i @ '': '' @ tail" "tail \<noteq> []" by blast+
  with rest(1) assms(2) show ?thesis unfolding rendered_iff checkbox_of_iff by blast
qed

lemma rewrite_line_cases:
  obtains (kept) "rewrite_line outcomes line = line" "\<forall>i. rendered_criterion line = Some i \<longrightarrow> map_get outcomes i = None"
  | (set) i outcome box tail where "criterionParts i \<noteq> None" "map_get outcomes i = Some outcome" "is_box box" "tail \<noteq> []"
      "line = box_line box (i @ '': '' @ tail)"
      "rewrite_line outcomes line = box_line (if outcome = Outcome_passed then CHR ''x'' else CHR '' '') (i @ '': '' @ tail)"
proof (cases "rendered_criterion line")
  case None
  then show thesis using kept by (simp add: rewrite_line_def)
next
  case (Some i)
  then obtain box tail where parts: "criterionParts i \<noteq> None" "is_box box" "tail \<noteq> []" "line = box_line box (i @ '': '' @ tail)"
    unfolding rendered_iff by blast
  show thesis
  proof (cases "map_get outcomes i")
    case None
    with Some show thesis using kept by (simp add: rewrite_line_def)
  next
    case (Some outcome)
    with \<open>rendered_criterion line = Some i\<close> have "rewrite_line outcomes line =
        ''- ['' @ (if outcome = Outcome_passed then ''x'' else '' '') @ drop 4 line" by (simp add: rewrite_line_def)
    then have "rewrite_line outcomes line =
        box_line (if outcome = Outcome_passed then CHR ''x'' else CHR '' '') (i @ '': '' @ tail)"
      by (simp add: parts(4) box_line_def)
    with parts Some show thesis using set by blast
  qed
qed

lemma parser_with_simps [simp]:
  "tp_declarations (parser_with os p) = map (with_outcome os) (tp_declarations p)"
  "tp_fence (parser_with os p) = tp_fence p" "tp_workUnit (parser_with os p) = tp_workUnit p"
  "tp_task (parser_with os p) = tp_task p" "tp_section (parser_with os p) = tp_section p"
  by (simp_all add: parser_with_def)

lemma parser_with_updates:
  "parser_with os (p\<lparr>tp_fence := f\<rparr>) = (parser_with os p)\<lparr>tp_fence := f\<rparr>"
  "parser_with os (p\<lparr>tp_workUnit := w\<rparr>) = (parser_with os p)\<lparr>tp_workUnit := w\<rparr>"
  "parser_with os (p\<lparr>tp_task := t\<rparr>) = (parser_with os p)\<lparr>tp_task := t\<rparr>"
  "parser_with os (p\<lparr>tp_section := c\<rparr>) = (parser_with os p)\<lparr>tp_section := c\<rparr>"
  by (simp_all add: parser_with_def)

lemma with_outcome_id [simp]:
  "cd_criterionId (with_outcome os d) = cd_criterionId d" "cd_normalizedDeclaration (with_outcome os d) = cd_normalizedDeclaration d"
  "cd_workUnit (with_outcome os d) = cd_workUnit d" "cd_task (with_outcome os d) = cd_task d"
  "cd_criterionKind (with_outcome os d) = cd_criterionKind d" "cd_ordinal (with_outcome os d) = cd_ordinal d"
  by (simp_all add: with_outcome_def split: option.splits)

text \<open>What a declaration adds to the parser, and its counterpart after the rewriting.\<close>

definition declare_criterion :: "int \<Rightarrow> criterion_kind \<Rightarrow> string \<Rightarrow> string \<Rightarrow> bool \<Rightarrow> string \<Rightarrow> string \<Rightarrow> task_parser \<Rightarrow>
    (task_document, task_parser) result" where
  "declare_criterion lineNumber kind workUnit task checked criterionId declared p =
     (if \<not> isAcceptanceCriterionId criterionId then Inl (Task_malformed lineNumber)
      else (case criterionParts criterionId of
          None \<Rightarrow> Inl (Task_malformed lineNumber)
        | Some (a, b, edge, _) \<Rightarrow>
            if a \<noteq> workUnit \<or> b \<noteq> task \<or> (kind = Edge_criterion) \<noteq> edge
            then Inl (Task_malformed lineNumber)
            else if criterionId \<in> set (map cd_criterionId (tp_declarations p))
            then Inl (Task_duplicate criterionId)
            else if length (tp_declarations p) = MAX_CRITERIA then Inl (Task_malformed lineNumber)
            else Inr (p\<lparr>tp_declarations := tp_declarations p @
              [\<lparr> cd_criterionId = criterionId, cd_workUnit = workUnit, cd_task = task,
                 cd_criterionKind = kind, cd_checked = checked,
                 cd_ordinal = int (length (tp_declarations p)), cd_line = lineNumber, cd_text = declared,
                 cd_normalizedDeclaration = ''- [ ] '' @ criterionId @ '': '' @ declared \<rparr>]\<rparr>)))"

lemma read_criterion_declares:
  "read_criterion lineNumber line p =
     (case tp_section p of
        None \<Rightarrow>
          (case checkbox_of line of
             Some (_, rest) \<Rightarrow> if starts_with ''AC-'' rest then Inl (Task_malformed lineNumber) else Inr p
           | None \<Rightarrow> Inr p)
      | Some kind \<Rightarrow>
          if \<not> starts_with ''- ['' line then Inr p
          else (case (checkboxDeclaration line, tp_workUnit p, tp_task p) of
              (Some (box, criterionId, declared), Some workUnit, Some task) \<Rightarrow>
                declare_criterion lineNumber kind workUnit task (box = CHR ''x'') criterionId declared p
            | _ \<Rightarrow> Inl (Task_malformed lineNumber)))"
  unfolding read_criterion_def declare_criterion_def by simp

lemma declare_with_outcome:
  assumes "criterionParts i \<noteq> None \<Longrightarrow> checked' = (case map_get outcomes i of None \<Rightarrow> checked | Some r \<Rightarrow> r = Outcome_passed)"
  shows "declare_criterion n kind w t checked' i declared (parser_with outcomes p) =
    map_sum id (parser_with outcomes) (declare_criterion n kind w t checked i declared p)"
proof (cases "criterionParts i")
  case (Some abc)
  obtain a b edge m where abc: "abc = (a, b, edge, m)" by (cases abc)
  have ids: "map (cd_criterionId \<circ> with_outcome outcomes) ds = map cd_criterionId ds" for ds by simp
  have pushed: "checked' = (case map_get outcomes i of None \<Rightarrow> checked | Some r \<Rightarrow> r = Outcome_passed)"
    using assms Some by simp
  show ?thesis
    by (cases "map_get outcomes i") (simp_all add: declare_criterion_def Some abc parser_with_def with_outcome_def pushed ids
        image_image)
qed (simp add: declare_criterion_def)

lemma read_criterion_rewritten:
  "read_criterion n (rewrite_line outcomes line) (parser_with outcomes p) =
     map_sum id (parser_with outcomes) (read_criterion n line p)"
proof (cases rule: rewrite_line_cases [of outcomes line])
  case kept
  show ?thesis
  proof (cases "checkboxDeclaration line")
    case None
    then show ?thesis unfolding kept(1) read_criterion_declares
      by (simp split: option.split prod.split)
  next
    case (Some found)
    obtain box i declared where found: "found = (box, i, declared)" by (cases found)
    have "map_get outcomes i = None" if "criterionParts i \<noteq> None"
      using declaration_rendered [of line box i declared] that Some kept(2) found by simp
    then have "declare_criterion n kind w t (box = CHR ''x'') i declared (parser_with outcomes p) =
        map_sum id (parser_with outcomes) (declare_criterion n kind w t (box = CHR ''x'') i declared p)" for kind w t
      by (intro declare_with_outcome) simp
    then show ?thesis unfolding kept(1) read_criterion_declares Some found
      by (simp split: option.split prod.split)
  qed
next
  case (set i outcome box tail)
  define rest where "rest = i @ '': '' @ tail"
  define box' where "box' = (if outcome = Outcome_passed then CHR ''x'' else CHR '' '')"
  have lines: "line = box_line box rest" "rewrite_line outcomes line = box_line box' rest"
    using set(5,6) by (simp_all add: rest_def box'_def)
  have box': "is_box box'" "box' = CHR ''x'' \<longleftrightarrow> outcome = Outcome_passed" by (simp_all add: box'_def is_box_def)
  have boxed: "checkbox_of (box_line b rest) = Some (b, rest)" if "is_box b" for b
    using that checkbox_of_iff by blast
  have declares: "checkboxDeclaration (box_line b rest) = map_option (Pair b) (declared_text rest)" if "is_box b" for b
    by (simp add: checkboxDeclaration_def boxed [OF that])
  show ?thesis
  proof (cases "declared_text rest")
    case None
    then show ?thesis unfolding lines(2) unfolding lines(1) read_criterion_declares
      by (simp add: box_line_plain boxed [OF box'(1)] boxed [OF set(3)] declares [OF box'(1)] declares [OF set(3)] split: option.split)
  next
    case (Some found)
    obtain j declared where found: "found = (j, declared)" by (cases found)
    have "j = i" if "criterionParts j \<noteq> None"
    proof -
      have "rendered_criterion line = Some j"
        using declaration_rendered [of line box j declared] that Some found by (simp add: lines(1) declares [OF set(3)])
      moreover have "rendered_criterion line = Some i" unfolding rendered_iff using set by blast
      ultimately show ?thesis by simp
    qed
    then have "declare_criterion n kind w t (box' = CHR ''x'') j declared (parser_with outcomes p) =
        map_sum id (parser_with outcomes) (declare_criterion n kind w t (box = CHR ''x'') j declared p)" for kind w t
      by (intro declare_with_outcome) (auto simp: set(2) box'(2))
    then show ?thesis unfolding lines(2) unfolding lines(1) read_criterion_declares
      by (simp add: box_line_plain boxed [OF box'(1)] boxed [OF set(3)] declares [OF box'(1)] declares [OF set(3)] Some found
          split: option.split)
  qed
qed

lemma read_task_line_rewritten:
  "read_task_line n (rewrite_line outcomes line) (parser_with outcomes p) =
     map_sum id (parser_with outcomes) (read_task_line n line p)"
proof (cases rule: rewrite_line_cases [of outcomes line])
  case kept
  define main where "main = (line = ''##### Acceptance criteria'')"
  define edge where "edge = (line = ''##### Edge cases'')"
  note criterion = read_criterion_rewritten [of n outcomes line p, unfolded kept(1)]
  show ?thesis
    unfolding read_task_line_def kept(1) main_def [symmetric] edge_def [symmetric]
    by (cases "fence_marker line"; cases "tp_fence p"; cases "workUnitHeading line"; cases "taskHeading line")
       (simp_all add: criterion parser_with_updates split: prod.split)
next
  case (set i outcome box tail)
  show ?thesis
    unfolding read_task_line_def using read_criterion_rewritten [of n outcomes line p] unfolding set(6) unfolding set(5)
    by (simp add: box_line_plain)
qed

lemma read_task_lines_rewritten:
  "read_task_lines n (map (rewrite_line outcomes) lines) (parser_with outcomes p) =
     map_sum id (parser_with outcomes) (read_task_lines n lines p)"
proof (induction lines arbitrary: n p)
  case (Cons line lines)
  show ?case
    by (cases "read_task_line (n + 1) line p") (simp_all add: read_task_line_rewritten Cons)
qed simp

section \<open>The document, rewritten\<close>

definition returns_paired :: "string \<Rightarrow> bool" where
  "returns_paired content \<longleftrightarrow> list_all (\<lambda>line. carriage_return \<notin> set line) (split_lines content)"

lemma set_rewrite_line: "set (rewrite_line outcomes line) \<subseteq> set line \<union> {CHR ''x'', CHR '' ''}"
  by (cases rule: rewrite_line_cases [of outcomes line]) (auto simp: box_line_def)

lemma rewrite_line_terminators:
  assumes "c \<noteq> CHR ''x''" "c \<noteq> CHR '' ''" "c \<notin> set line"
  shows "c \<notin> set (rewrite_line outcomes line)"
  using set_rewrite_line [of outcomes line] assms by blast

lemma rewrite_line_Nil [simp]: "rewrite_line outcomes '''' = ''''"
  by (simp add: rewrite_line_def rendered_criterion_def checkbox_of_def)

lemma rewrite_part_line: "carriage_return \<notin> set line \<Longrightarrow> rewrite_part outcomes line = rewrite_line outcomes line"
  by (simp add: rewrite_part_def split_on_free)

lemma rewrite_part_return:
  "carriage_return \<notin> set line \<Longrightarrow>
     rewrite_part outcomes (line @ [carriage_return]) = rewrite_line outcomes line @ [carriage_return]"
  by (simp add: rewrite_part_def split_on_append_sep)

lemma drop_return_cases:
  "drop_return part = part \<and> (part = [] \<or> List.last part \<noteq> carriage_return) \<or> part = drop_return part @ [carriage_return]"
proof -
  have "code_unit c = 13 \<longleftrightarrow> c = carriage_return" for c
  proof -
    have "code_unit carriage_return = 13" by (simp add: carriage_return_def code_unit_def)
    then show ?thesis unfolding code_unit_def by (metis of_char_eq_iff)
  qed
  then have drop: "drop_return part = (if part \<noteq> [] \<and> List.last part = carriage_return then butlast part else part)"
    by (simp add: drop_return_def)
  show ?thesis
  proof (cases "part \<noteq> [] \<and> List.last part = carriage_return")
    case True
    then have "part = butlast part @ [carriage_return]" using append_butlast_last_id [of part] by metis
    with True drop show ?thesis by simp
  qed (use drop in auto)
qed

lemma drop_return_append: "drop_return (line @ [carriage_return]) = line"
  by (simp add: drop_return_def carriage_return_def code_unit_def)

lemma drop_return_free: "carriage_return \<notin> set line \<Longrightarrow> drop_return line = line"
  using drop_return_cases [of line] by (metis in_set_conv_decomp)

lemma rewrite_part_drop:
  assumes "carriage_return \<notin> set (drop_return part)"
  shows "drop_return (rewrite_part outcomes part) = rewrite_line outcomes (drop_return part)"
proof -
  have free: "carriage_return \<notin> set (rewrite_line outcomes (drop_return part))"
    by (rule rewrite_line_terminators) (use assms in \<open>simp_all add: carriage_return_def\<close>)
  from drop_return_cases [of part] show ?thesis
  proof (elim disjE conjE)
    assume part: "part = drop_return part @ [carriage_return]"
    have "rewrite_part outcomes part = rewrite_line outcomes (drop_return part) @ [carriage_return]"
      using rewrite_part_return [OF assms] part by metis
    then show ?thesis by (simp add: drop_return_append)
  qed (use free assms drop_return_free in \<open>simp_all add: rewrite_part_line\<close>)
qed

lemma line_feed_not_introduced:
  assumes "line_feed \<notin> set part"
  shows "line_feed \<notin> set (rewrite_part outcomes part)"
proof -
  have "set (join_with carriage_return ss) \<subseteq> insert carriage_return (\<Union> (set ` set ss))" for ss
    by (induction carriage_return ss rule: join_with.induct) auto
  moreover have "line_feed \<notin> set (rewrite_line outcomes l)" if l: "l \<in> set (split_on carriage_return part)" for l
  proof (rule rewrite_line_terminators)
    have "set (split_on c s) \<subseteq> {l. set l \<subseteq> set s}" for c s
      by (induction s) (auto split: list.splits)
    with l assms show "line_feed \<notin> set l" by blast
  qed (simp_all add: line_feed_def)
  ultimately show ?thesis
    unfolding rewrite_part_def by (fastforce simp: line_feed_def carriage_return_def)
qed

lemma split_rewritten:
  assumes "returns_paired content"
  shows "split_lines (join_with line_feed (map (rewrite_part outcomes) (split_on line_feed content))) =
    map (rewrite_line outcomes) (split_lines content)"
proof -
  define parts where "parts = split_on line_feed content"
  have parts: "parts \<noteq> []" "\<forall>part \<in> set parts. line_feed \<notin> set part"
    using split_on_no_sep by (auto simp: parts_def)
  have split: "split_on line_feed (join_with line_feed (map (rewrite_part outcomes) parts)) = map (rewrite_part outcomes) parts"
    by (rule split_join) (use parts line_feed_not_introduced in auto)
  have free: "\<forall>part \<in> set (butlast parts). carriage_return \<notin> set (drop_return part)" "carriage_return \<notin> set (List.last parts)"
    using assms by (auto simp: returns_paired_def split_lines_def parts_def [symmetric] Let_def list_all_iff)
  show ?thesis
    unfolding split_lines_def parts_def [symmetric] split Let_def
    using free parts(1) by (simp add: map_butlast [symmetric] rewrite_part_drop last_map rewrite_part_line)
qed

lemma read_task_lines_failure: "read_task_lines n lines p = Inl observed \<Longrightarrow> observed \<noteq> Task_valid declarations"
proof (induction n lines p rule: read_task_lines.induct)
  case (2 n line lines p)
  have declared: "declare_criterion m kind w t checked i declared p \<noteq> Inl (Task_valid declarations)" for m kind w t checked i declared
    by (simp add: declare_criterion_def split: option.split)
  have "read_criterion (n + 1) line p \<noteq> Inl (Task_valid declarations)"
    unfolding read_criterion_declares
    by (cases "tp_section p"; cases "checkbox_of line"; cases "checkboxDeclaration line"; cases "tp_workUnit p"; cases "tp_task p")
       (simp_all add: declared split: prod.split)
  then have "read_task_line (n + 1) line p \<noteq> Inl (Task_valid declarations)"
    unfolding read_task_line_def
    by (cases "fence_marker line"; cases "tp_fence p"; cases "workUnitHeading line"; cases "taskHeading line")
       (simp_all split: prod.split)
  with 2 show ?case by (cases "read_task_line (n + 1) line p") auto
qed simp

lemma inspected_valid:
  "inspectTaskDocument (Some content) = Task_valid declarations \<longleftrightarrow> declarations \<noteq> [] \<and>
     (\<exists>p. read_task_lines 0 (split_lines content) empty_task_parser = Inr p \<and> tp_declarations p = declarations)"
  using read_task_lines_failure by (auto simp: inspectTaskDocument_def split: sum.splits)

lemma checkboxes_rendered:
  assumes "inspectTaskDocument (Some content) = Task_valid declarations" "returns_paired content"
    and "\<forall>(criterionId, _) \<in> set outcomes. criterionId \<in> set (map cd_criterionId declarations)"
  shows "\<exists>document. renderCriterionCheckboxes content outcomes = Inr document \<and>
    inspectTaskDocument (Some document) = Task_valid (map (with_outcome outcomes) declarations)"
proof -
  define document where "document = join_with line_feed (map (rewrite_part outcomes) (split_on line_feed content))"
  have "\<not> list_ex (\<lambda>(criterionId, _). criterionId \<notin> set (map cd_criterionId declarations)) outcomes"
    using assms(3) by (auto simp: list_ex_iff)
  then have rendered: "renderCriterionCheckboxes content outcomes = Inr document"
    by (simp add: renderCriterionCheckboxes_def assms(1) document_def)
  from assms(1) obtain p where p: "read_task_lines 0 (split_lines content) empty_task_parser = Inr p"
    "declarations = tp_declarations p" "tp_declarations p \<noteq> []"
    unfolding inspected_valid by blast
  have start: "parser_with outcomes empty_task_parser = empty_task_parser"
    by (simp add: parser_with_def empty_task_parser_def)
  have "read_task_lines 0 (split_lines document) empty_task_parser = Inr (parser_with outcomes p)"
    using read_task_lines_rewritten [of 0 outcomes "split_lines content" empty_task_parser] p(1)
    by (simp add: document_def split_rewritten [OF assms(2)] start)
  then have "inspectTaskDocument (Some document) = Task_valid (map (with_outcome outcomes) declarations)"
    using p(2,3) unfolding inspected_valid by simp
  with rendered show ?thesis by blast
qed

text \<open>Setting the checkboxes of a valid task document changes nothing else the parser sees: for
  outcomes of its criteria the renderer returns a document, and parsing that document gives the
  same declarations in the same order, each with its checkbox set exactly as its outcome says
  and unchanged where there is no outcome. (Carriage returns stand before line feeds only.)\<close>

theorem checkboxes_read_back:
  assumes "inspectTaskDocument (Some content) = Task_valid declarations" "returns_paired content"
    and "\<forall>(criterionId, _) \<in> set outcomes. criterionId \<in> set (map cd_criterionId declarations)"
  shows "\<exists>document. renderCriterionCheckboxes content outcomes = Inr document \<and>
    inspectTaskDocument (Some document) = Task_valid (map
      (\<lambda>d. case map_get outcomes (cd_criterionId d) of
         None \<Rightarrow> d
       | Some outcome \<Rightarrow> d\<lparr>cd_checked := (outcome = Outcome_passed)\<rparr>) declarations)"
  using checkboxes_rendered [OF assms] unfolding with_outcome_def by blast

section \<open>A recorded verdict\<close>

text \<open>
  What the composition makes of the declarations (\<open>composition/workflow.ts\<close>): the criteria to
  compare, with the digest of the normalized declaration, and the tuple a snapshot freezes.
\<close>

definition currentDeclarations :: "(string \<Rightarrow> string) \<Rightarrow> criterion_declaration list \<Rightarrow> current_criterion list" where
  "currentDeclarations sha256 declarations =
     map (\<lambda>d. \<lparr> zc_criterionId = cd_criterionId d, zc_workUnit = cd_workUnit d, zc_task = cd_task d,
        zc_kind = cd_criterionKind d, zc_ordinal = cd_ordinal d,
        zc_declarationDigest = sha256 (cd_normalizedDeclaration d), zc_checked = cd_checked d \<rparr>) declarations"

definition frozenDeclarationTuple :: "current_criterion list \<Rightarrow> frozen_criterion list option" where
  "frozenDeclarationTuple declarations =
     (case map frozen_criterion.truncate declarations of [] \<Rightarrow> None | f # fs \<Rightarrow> Some (f # fs))"

lemma map_get_append: "map_get (earlier @ outcomes) k = (case map_get outcomes k of None \<Rightarrow> map_get earlier k | Some v \<Rightarrow> Some v)"
  by (auto simp: map_get_def map_add_def split: option.split)

lemma map_get_None_iff: "map_get entries k = None \<longleftrightarrow> k \<notin> fst ` set entries"
  by (simp add: map_get_def map_of_eq_None_iff)

lemma frozen_tuple_iff: "frozenDeclarationTuple current = Some base \<longleftrightarrow> current \<noteq> [] \<and> base = map frozen_criterion.truncate current"
  by (auto simp: frozenDeclarationTuple_def split: list.split)

lemma list_all2_reads: "list_all2 P xs ys \<Longrightarrow> (\<And>x y. P x y \<Longrightarrow> f y = x) \<Longrightarrow> map f ys = xs"
  by (induction rule: list_all2_induct) auto

text \<open>C18: After an accepted verdict the task document written with its checkboxes is in order: it parses
  to the same criteria, and compared in any phase against the snapshot frozen from the document
  the verdict was given on, with the recorded outcomes behind all earlier ones, nothing has
  changed and no checkbox is out of place.\<close>

theorem recorded_verdict_in_order:
  assumes "inspectTaskDocument (Some content) = Task_valid declarations" "returns_paired content"
    and "decideAcceptanceVerdict (map cd_criterionId declarations) globalVerdict reports records invalid =
      Verdict_bound bound outcomes"
    and "frozenDeclarationTuple (currentDeclarations sha256 declarations) = Some base"
  shows "\<exists>document declarations'. renderCriterionCheckboxes content outcomes = Inr document \<and>
    inspectTaskDocument (Some document) = Task_valid declarations' \<and>
    map cd_criterionId declarations' = map cd_criterionId declarations \<and>
    compareCriteriaSnapshot phase base (currentDeclarations sha256 declarations') (earlier @ outcomes) = Criteria_unchanged"
proof -
  from assms(3) have bound: "list_all2 (binds reports records invalid) (map cd_criterionId declarations) bound"
    and outcomes: "outcomes = map (\<lambda>b. (bv_criterionId b, bv_outcome b)) bound"
    unfolding verdict_bound_iff by blast+
  have ids: "map bv_criterionId bound = map cd_criterionId declarations"
    using bound by (rule list_all2_reads) (auto simp: binds_def)
  then have known: "\<forall>(criterionId, _) \<in> set outcomes. criterionId \<in> set (map cd_criterionId declarations)"
    by (auto simp: outcomes simp flip: ids)
  define updated where "updated = map (with_outcome outcomes) declarations"
  obtain document where document: "renderCriterionCheckboxes content outcomes = Inr document"
    "inspectTaskDocument (Some document) = Task_valid updated"
    using checkboxes_rendered [OF assms(1,2) known] unfolding updated_def by blast
  have base: "base = map frozen_criterion.truncate (currentDeclarations sha256 declarations)"
    using assms(4) unfolding frozen_tuple_iff by blast
  have same: "list_all2 sameDeclaration base (currentDeclarations sha256 updated)"
    by (simp add: base updated_def currentDeclarations_def list_all2_conv_all_nth sameDeclaration_def frozen_criterion.truncate_def)
  have outcome: "zc_checked c \<longleftrightarrow> map_get (earlier @ outcomes) (zc_criterionId c) = Some Outcome_passed"
    if "c \<in> set (currentDeclarations sha256 updated)" for c
  proof -
    from that obtain d where d: "d \<in> set declarations" "zc_criterionId c = cd_criterionId d"
      "zc_checked c = cd_checked (with_outcome outcomes d)"
      by (auto simp: currentDeclarations_def updated_def)
    have "cd_criterionId d \<in> fst ` set outcomes"
      using d(1) ids by (metis (no_types, lifting) image_eqI list.set_map map_map outcomes comp_def fst_conv map_eq_conv)
    then obtain outcome where "map_get outcomes (cd_criterionId d) = Some outcome"
      using map_get_None_iff [of outcomes "cd_criterionId d"] by auto
    with d show ?thesis by (simp add: map_get_append with_outcome_def)
  qed
  have "criteria_admissible phase base (currentDeclarations sha256 updated) (earlier @ outcomes)"
    using same outcome by (auto simp: criteria_admissible_def list_all2_lengthD list_all_iff)
  then have "compareCriteriaSnapshot phase base (currentDeclarations sha256 updated) (earlier @ outcomes) = Criteria_unchanged"
    using admissible_unchanged same by (simp add: list_all2_lengthD)
  with document show ?thesis by (intro exI [of _ document] exI [of _ updated]) (simp add: updated_def)
qed

text \<open>A task document with two criteria, one of which passed, and with an example in a fence.\<close>

definition sample_task_lines :: "string \<Rightarrow> string \<Rightarrow> string list" where
  "sample_task_lines box example =
     [''### Work unit 1: first'', ''#### Task 1.1: do'', ''##### Acceptance criteria'',
      box_line (hd box) ''AC-1.1.1: works'', ''##### Edge cases'', ''- [ ] AC-1.1.E1: fails'',
      [backtick, backtick, backtick], box_line (hd example) ''AC-1.1.1: works'', [backtick, backtick, backtick]]"

definition sample_task :: "string \<Rightarrow> string \<Rightarrow> string" where
  "sample_task box example = join_with line_feed (sample_task_lines box example)"

definition sample_declarations :: "criterion_declaration list" where
  "sample_declarations =
     [\<lparr> cd_criterionId = ''AC-1.1.1'', cd_workUnit = ''1'', cd_task = ''1'', cd_criterionKind = Main_criterion,
        cd_checked = False, cd_ordinal = 0, cd_line = 4, cd_text = ''works'',
        cd_normalizedDeclaration = ''- [ ] AC-1.1.1: works'' \<rparr>,
      \<lparr> cd_criterionId = ''AC-1.1.E1'', cd_workUnit = ''1'', cd_task = ''1'', cd_criterionKind = Edge_criterion,
        cd_checked = False, cd_ordinal = 1, cd_line = 6, cd_text = ''fails'',
        cd_normalizedDeclaration = ''- [ ] AC-1.1.E1: fails'' \<rparr>]"

definition sample_reports :: "reported_criterion list" where
  "sample_reports =
     [\<lparr> rp_criterionId = ''AC-1.1.1'', rp_outcome = Outcome_passed, rp_evidenceRef = ''e1'' \<rparr>,
      \<lparr> rp_criterionId = ''AC-1.1.E1'', rp_outcome = Outcome_failed, rp_evidenceRef = ''e1'' \<rparr>]"

definition sample_records :: "evidence_item list" where
  "sample_records =
     [\<lparr> vi_evidenceId = ''i1'', vi_kind = Type_test, vi_ref = ''e1'', vi_sha256 = ''d'', vi_classification = Class_public,
        vi_redaction = Redaction_none, vi_recordedAt = ''t'' \<rparr>]"

lemma sample_task_facts:
  "inspectTaskDocument (Some (sample_task '' '' '' '')) = Task_valid sample_declarations"
  "returns_paired (sample_task '' '' '' '')"
  by code_simp+

lemma checkboxes_read_back_witness:
  "\<exists>document. renderCriterionCheckboxes (sample_task '' '' '' '') [(''AC-1.1.1'', Outcome_passed)] = Inr document \<and>
    inspectTaskDocument (Some document) = Task_valid
      [hd sample_declarations\<lparr>cd_checked := True\<rparr>, sample_declarations ! 1]"
  using checkboxes_read_back [OF sample_task_facts, of "[(''AC-1.1.1'', Outcome_passed)]"]
  by (simp add: sample_declarations_def map_get_def)

lemma sample_verdict:
  "\<exists>bound. decideAcceptanceVerdict (map cd_criterionId sample_declarations) False sample_reports sample_records [] =
     Verdict_bound bound [(''AC-1.1.1'', Outcome_passed), (''AC-1.1.E1'', Outcome_failed)]"
  by (simp add: decideAcceptanceVerdict_def sample_declarations_def sample_reports_def sample_records_def report_of_def
      evidence_by_ref_def map_get_def)

lemma recorded_verdict_in_order_witness:
  "\<exists>document declarations'. renderCriterionCheckboxes (sample_task '' '' '' '')
      [(''AC-1.1.1'', Outcome_passed), (''AC-1.1.E1'', Outcome_failed)] = Inr document \<and>
    inspectTaskDocument (Some document) = Task_valid declarations' \<and>
    map cd_criterionId declarations' = map cd_criterionId sample_declarations \<and>
    compareCriteriaSnapshot Code (map frozen_criterion.truncate (currentDeclarations id sample_declarations))
      (currentDeclarations id declarations')
      ([(''AC-1.1.E1'', Outcome_passed)] @ [(''AC-1.1.1'', Outcome_passed), (''AC-1.1.E1'', Outcome_failed)]) =
        Criteria_unchanged"
proof -
  obtain bound where bound: "decideAcceptanceVerdict (map cd_criterionId sample_declarations) False sample_reports sample_records [] =
     Verdict_bound bound [(''AC-1.1.1'', Outcome_passed), (''AC-1.1.E1'', Outcome_failed)]"
    using sample_verdict by blast
  have tuple: "frozenDeclarationTuple (currentDeclarations id sample_declarations) =
      Some (map frozen_criterion.truncate (currentDeclarations id sample_declarations))"
    unfolding frozen_tuple_iff by (simp add: currentDeclarations_def sample_declarations_def)
  show ?thesis by (rule recorded_verdict_in_order [OF sample_task_facts bound tuple])
qed

text \<open>
  The renderer's expression does not know about fences, while the parser skips them: an example
  inside a fence that names a declared criterion is rewritten along with its declaration.
\<close>

lemma fenced_example_rewritten:
  "renderCriterionCheckboxes (sample_task '' '' '' '') [(''AC-1.1.1'', Outcome_passed)] = Inr (sample_task ''x'' ''x'') \<and>
   inspectTaskDocument (Some (sample_task '' '' ''x'')) = inspectTaskDocument (Some (sample_task '' '' '' ''))"
  by code_simp

end
