(* ===== verification/Memory_Ledger.thy ===== *)
theory Memory_Ledger
  imports Canonical_Json Js_Order Gates Transaction_Plan
begin

text \<open>
  The curated memory (\<open>domain/memory/index.ts\<close>): a ledger of confirmed lessons and of
  tombstones, the Markdown projection people read, and the changes a reviewer may make to it, in
  the first version of the contract and in the current one. The SHA-256 digest is a parameter.
\<close>

section \<open>The ledger\<close>

definition CURATED_MEMORY_RENDERED_MAX_BYTES :: int where
  "CURATED_MEMORY_RENDERED_MAX_BYTES = 48 * 1024"

definition CURATED_MEMORY_CONFIRMED_MAX :: nat where
  "CURATED_MEMORY_CONFIRMED_MAX = 24"

definition CURATED_MEMORY_ARCHIVE_MAX :: nat where
  "CURATED_MEMORY_ARCHIVE_MAX = 48"

record lesson =
  ms_lessonId :: string
  ms_title :: string
  ms_why :: "string list"
  ms_apply :: "string list"
  ms_candidateIds :: "string list"
  ms_reviewer :: string
  ms_confirmedAt :: string

record tombstone =
  mt_lessonId :: string
  mt_title :: string
  mt_candidateIds :: "string list"
  mt_reviewer :: string
  mt_archivedAt :: string
  mt_reason :: string
  mt_replacementLessonId :: "string option"

record ('l, 't) memory_ledger =
  ml_revision :: int
  ml_projectionDigest :: string
  ml_updatedAt :: string
  ml_confirmed :: "'l list"
  ml_archive :: "'t list"

text \<open>\<open>compareText\<close> compares the UTF-8 bytes; a character beyond ASCII has two of them.\<close>

definition utf8_bytes :: "string \<Rightarrow> nat list" where
  "utf8_bytes s = concat (map (\<lambda>c. if code_unit c < 128 then [code_unit c]
     else [192 + code_unit c div 64, 128 + code_unit c mod 64]) s)"

fun compare_bytes :: "nat list \<Rightarrow> nat list \<Rightarrow> int" where
  "compare_bytes [] bs = - int (length bs)"
| "compare_bytes as [] = int (length as)"
| "compare_bytes (a # as) (b # bs) = (if a \<noteq> b then int a - int b else compare_bytes as bs)"

definition compareText :: "string \<Rightarrow> string \<Rightarrow> int" where
  "compareText left right = compare_bytes (utf8_bytes left) (utf8_bytes right)"

definition sortedUnique :: "string list \<Rightarrow> string list" where
  "sortedUnique values = js_sort compareText (js_set_list values)"

definition byLessonId :: "'l lesson_scheme \<Rightarrow> 'l lesson_scheme \<Rightarrow> int" where
  "byLessonId left right = compareText (ms_lessonId left) (ms_lessonId right)"

definition byArchivedId :: "'t tombstone_scheme \<Rightarrow> 't tombstone_scheme \<Rightarrow> int" where
  "byArchivedId left right = compareText (mt_lessonId left) (mt_lessonId right)"

definition nonempty :: "string list \<Rightarrow> bool" where
  "nonempty values \<longleftrightarrow> length values \<noteq> 0 \<and> list_all (\<lambda>value. length (js_trim value) \<noteq> 0) values"

section \<open>The projection\<close>

definition comma_joined :: "string list \<Rightarrow> string" where
  "comma_joined values = (case values of [] \<Rightarrow> '''' | v # vs \<Rightarrow> v @ concat (map (\<lambda>w. '', '' @ w) vs))"

definition renderLesson :: "'l lesson_scheme \<Rightarrow> string list" where
  "renderLesson lesson =
     [''### '' @ ms_title lesson, '''', ''- Lesson: '' @ ms_lessonId lesson] @
     map (\<lambda>why. ''- Why: '' @ why) (ms_why lesson) @
     map (\<lambda>remedy. ''- Apply: '' @ remedy) (ms_apply lesson) @
     [''- Candidates: '' @ comma_joined (js_sort text_compare (ms_candidateIds lesson)),
      ''- Reviewed by: '' @ ms_reviewer lesson @ '' at '' @ ms_confirmedAt lesson]"

definition renderTombstone :: "'t tombstone_scheme \<Rightarrow> string list" where
  "renderTombstone tombstone =
     [''### '' @ mt_title tombstone, '''', ''- Lesson: '' @ mt_lessonId tombstone,
      ''- Candidates: '' @ comma_joined (js_sort text_compare (mt_candidateIds tombstone)),
      ''- Archived by: '' @ mt_reviewer tombstone @ '' at '' @ mt_archivedAt tombstone,
      ''- Reason: '' @ mt_reason tombstone,
      ''- Replaced by: '' @ (case mt_replacementLessonId tombstone of None \<Rightarrow> ''none'' | Some i \<Rightarrow> i)]"

text \<open>The entries of a section, an empty line between two of them.\<close>

fun rendered_entries :: "('a \<Rightarrow> string list) \<Rightarrow> 'a list \<Rightarrow> string list" where
  "rendered_entries render [] = []"
| "rendered_entries render [entry] = render entry"
| "rendered_entries render (entry # later # entries) = render entry @ [''''] @ rendered_entries render (later # entries)"

definition renderCuratedMemory :: "('l lesson_scheme, 't tombstone_scheme) memory_ledger \<Rightarrow> string" where
  "renderCuratedMemory ledger =
     (let confirmed = js_sort byLessonId (ml_confirmed ledger); archive = js_sort byArchivedId (ml_archive ledger) in
      join_with (CHR 0x0A)
        ([''# Gotchas'', '''', ''## Confirmed lessons'', ''''] @
         (if length confirmed = 0 then [''No confirmed lessons.''] else rendered_entries renderLesson confirmed) @
         ['''', ''## Archived lessons'', ''''] @
         (if length archive = 0 then [''No archived lessons.''] else rendered_entries renderTombstone archive)) @
      [CHR 0x0A])"

definition projectCuratedMemory ::
  "(string \<Rightarrow> string) \<Rightarrow> ('l lesson_scheme, 't tombstone_scheme) memory_ledger \<Rightarrow> string \<times> string" where
  "projectCuratedMemory sha256 ledger = (let content = renderCuratedMemory ledger in (content, sha256 content))"

text \<open>\<open>True\<close> is a valid projection, \<open>False\<close> a drifted one.\<close>

definition validateCuratedMemoryProjection ::
  "(string \<Rightarrow> string) \<Rightarrow> ('l lesson_scheme, 't tombstone_scheme) memory_ledger \<Rightarrow> string \<Rightarrow> bool" where
  "validateCuratedMemoryProjection sha256 ledger projection \<longleftrightarrow>
     (case projectCuratedMemory sha256 ledger of
        (content, digest) \<Rightarrow> projection = content \<and> ml_projectionDigest ledger = digest)"

section \<open>Semantic checks\<close>

definition lesson_identity :: "(string \<Rightarrow> string) \<Rightarrow> string \<Rightarrow> string list \<Rightarrow> string list \<Rightarrow> string list \<Rightarrow> string" where
  "lesson_identity sha256 title why remedy candidateIds =
     sha256 (canonicalizeJson (JObj
       [(''title'', JStr title), (''why'', JArr (map JStr why)), (''apply'', JArr (map JStr remedy)),
        (''candidateIds'', JArr (map JStr candidateIds))]))"

fun active_lessons :: "(string \<Rightarrow> string) \<Rightarrow> string list \<Rightarrow> 'l lesson_scheme list \<Rightarrow> string list option" where
  "active_lessons sha256 active [] = Some active"
| "active_lessons sha256 active (lesson # lessons) =
     (let expected = lesson_identity sha256 (ms_title lesson) (sortedUnique (ms_why lesson))
            (sortedUnique (ms_apply lesson)) (sortedUnique (ms_candidateIds lesson))
      in if ms_lessonId lesson \<noteq> expected \<or> ms_lessonId lesson \<in> set active then None
         else active_lessons sha256 (ms_lessonId lesson # active) lessons)"

fun archived_lessons :: "string list \<Rightarrow> string list \<Rightarrow> 't tombstone_scheme list \<Rightarrow> string list option" where
  "archived_lessons active archived [] = Some archived"
| "archived_lessons active archived (t # ts) =
     (if mt_lessonId t \<in> set active \<or> mt_lessonId t \<in> set archived then None
      else archived_lessons active (mt_lessonId t # archived) ts)"

definition validatesCuratedMemorySemantics ::
  "(string \<Rightarrow> string) \<Rightarrow> ('l lesson_scheme, 't tombstone_scheme) memory_ledger \<Rightarrow> bool" where
  "validatesCuratedMemorySemantics sha256 ledger \<longleftrightarrow>
     (case active_lessons sha256 [] (ml_confirmed ledger) of
        None \<Rightarrow> False
      | Some active \<Rightarrow>
          (case archived_lessons active [] (ml_archive ledger) of
             None \<Rightarrow> False
           | Some archived \<Rightarrow>
               list_all (\<lambda>t. case mt_replacementLessonId t of None \<Rightarrow> True | Some i \<Rightarrow> i \<in> set (active @ archived))
                 (ml_archive ledger)))"

section \<open>Changes of the first contract\<close>

datatype memory_change =
    Promote_lesson "string list" string string "string list" "string list"
  | Merge_lessons "string list" string string
  | Archive_lesson string string string

datatype memory_stop = Lesson_incomplete | Candidate_missing | Curation_required | Provenance_mismatch

text \<open>\<open>Memory_thrown\<close> is the exception of \<open>reduce\<close> on an empty list.\<close>

datatype ('l, 't) memory_reduction =
    Memory_ready "('l, 't) memory_ledger" "string list"
  | Memory_stopped memory_stop
  | Memory_thrown

definition lessonFor ::
  "string \<Rightarrow> string list \<Rightarrow> string list \<Rightarrow> string list \<Rightarrow> string \<Rightarrow> string \<Rightarrow> (string \<Rightarrow> string) \<Rightarrow> lesson" where
  "lessonFor title why remedy candidateIds reviewer confirmedAt sha256 =
     \<lparr> ms_lessonId = lesson_identity sha256 title why remedy candidateIds, ms_title = title, ms_why = why,
       ms_apply = remedy, ms_candidateIds = candidateIds, ms_reviewer = reviewer, ms_confirmedAt = confirmedAt \<rparr>"

definition tombstoneFor ::
  "'l lesson_scheme \<Rightarrow> string \<Rightarrow> string \<Rightarrow> string \<Rightarrow> string option \<Rightarrow> tombstone" where
  "tombstoneFor lesson reviewer archivedAt reason replacementLessonId =
     \<lparr> mt_lessonId = ms_lessonId lesson, mt_title = ms_title lesson, mt_candidateIds = ms_candidateIds lesson,
       mt_reviewer = reviewer, mt_archivedAt = archivedAt, mt_reason = reason,
       mt_replacementLessonId = replacementLessonId \<rparr>"

text \<open>\<open>xs.slice(-n)\<close>.\<close>

definition last_entries :: "nat \<Rightarrow> 'a list \<Rightarrow> 'a list" where
  "last_entries n xs = drop (length xs - n) xs"

definition complete_change ::
  "(lesson, tombstone) memory_ledger \<Rightarrow> lesson list \<Rightarrow> tombstone list \<Rightarrow> string list \<Rightarrow> string \<Rightarrow> (string \<Rightarrow> string) \<Rightarrow>
    (lesson, tombstone) memory_reduction" where
  "complete_change prior confirmed archive consumedCandidateIds updatedAt sha256 =
     (if length confirmed > CURATED_MEMORY_CONFIRMED_MAX then Memory_stopped Curation_required
      else
        let provisional = prior\<lparr>ml_revision := ml_revision prior + 1, ml_updatedAt := updatedAt,
              ml_confirmed := js_sort byLessonId confirmed, ml_archive := archive\<rparr>;
            (content, digest) = projectCuratedMemory sha256 provisional
        in if \<not> validatesCuratedMemorySemantics sha256 (provisional\<lparr>ml_projectionDigest := digest\<rparr>) \<or>
              utf8_length content > CURATED_MEMORY_RENDERED_MAX_BYTES
           then Memory_stopped Curation_required
           else Memory_ready (provisional\<lparr>ml_projectionDigest := digest\<rparr>) consumedCandidateIds)"

definition promote ::
  "(lesson, tombstone) memory_ledger \<Rightarrow> string list \<Rightarrow> string \<Rightarrow> string \<Rightarrow> string list \<Rightarrow> string list \<Rightarrow> string \<Rightarrow>
    (string \<Rightarrow> string) \<Rightarrow> (lesson, tombstone) memory_reduction" where
  "promote ledger candidates title reviewer why remedy now sha256 =
     (if length (js_trim title) = 0 \<or> length (js_trim reviewer) = 0 \<or> \<not> nonempty why \<or> \<not> nonempty remedy \<or>
         \<not> nonempty candidates
      then Memory_stopped Lesson_incomplete
      else let candidateIds = sortedUnique candidates;
               lesson = lessonFor title (sortedUnique why) (sortedUnique remedy) candidateIds reviewer now sha256
           in complete_change ledger (ml_confirmed ledger @ [lesson]) (ml_archive ledger) candidateIds now sha256)"

definition merge ::
  "(lesson, tombstone) memory_ledger \<Rightarrow> string list \<Rightarrow> string \<Rightarrow> string \<Rightarrow> string \<Rightarrow> (string \<Rightarrow> string) \<Rightarrow>
    (lesson, tombstone) memory_reduction" where
  "merge ledger lessonIds title reviewer now sha256 =
     (if length (js_trim title) = 0 \<or> length (js_trim reviewer) = 0 then Memory_stopped Lesson_incomplete
      else
        let wanted = js_set_list lessonIds;
            source = filter (\<lambda>l. ms_lessonId l \<in> set wanted) (ml_confirmed ledger)
        in if length wanted < 2 \<or> length source \<noteq> length wanted then Memory_stopped Candidate_missing
           else
             let why = sortedUnique (concat (map ms_why source));
                 remedy = sortedUnique (concat (map ms_apply source));
                 candidateIds = sortedUnique (concat (map ms_candidateIds source))
             in if length why > 8 \<or> length remedy > 8 \<or> length candidateIds > 256 then Memory_stopped Curation_required
                else
                  let replacement = lessonFor title why remedy candidateIds reviewer now sha256;
                      tombstones = map (\<lambda>l. tombstoneFor l reviewer now ''Merged into replacement lesson.''
                        (Some (ms_lessonId replacement))) (js_sort byLessonId source)
                  in complete_change ledger
                       (filter (\<lambda>l. ms_lessonId l \<notin> set wanted) (ml_confirmed ledger) @ [replacement])
                       (last_entries CURATED_MEMORY_ARCHIVE_MAX (ml_archive ledger @ tombstones)) [] now sha256)"

definition archive_lesson ::
  "(lesson, tombstone) memory_ledger \<Rightarrow> string \<Rightarrow> string \<Rightarrow> string \<Rightarrow> string \<Rightarrow> (string \<Rightarrow> string) \<Rightarrow>
    (lesson, tombstone) memory_reduction" where
  "archive_lesson ledger lessonId reviewer reason now sha256 =
     (if length (js_trim reviewer) = 0 \<or> length (js_trim reason) = 0 then Memory_stopped Lesson_incomplete
      else (case List.find (\<lambda>l. ms_lessonId l = lessonId) (ml_confirmed ledger) of
          None \<Rightarrow> Memory_stopped Candidate_missing
        | Some lesson \<Rightarrow> complete_change ledger
            (filter (\<lambda>l. ms_lessonId l \<noteq> ms_lessonId lesson) (ml_confirmed ledger))
            (last_entries CURATED_MEMORY_ARCHIVE_MAX
              (ml_archive ledger @ [tombstoneFor lesson reviewer now reason None]))
            [] now sha256))"

definition reduceMemoryChange ::
  "(lesson, tombstone) memory_ledger \<Rightarrow> memory_change \<Rightarrow> string \<Rightarrow> (string \<Rightarrow> string) \<Rightarrow>
    (lesson, tombstone) memory_reduction" where
  "reduceMemoryChange ledger proposal now sha256 =
     (case proposal of
        Promote_lesson candidateIds title reviewer why remedy \<Rightarrow>
          promote ledger candidateIds title reviewer why remedy now sha256
      | Merge_lessons lessonIds title reviewer \<Rightarrow> merge ledger lessonIds title reviewer now sha256
      | Archive_lesson lessonId reviewer reason \<Rightarrow> archive_lesson ledger lessonId reviewer reason now sha256)"

section \<open>Changes of the current contract\<close>

datatype failure_kind = Nonzero_exit | Tool_error | Timeout_failure | Denied_failure | Unknown_failure

datatype tool_family = Family_file | Family_shell | Family_mcp | Family_search | Family_other

datatype memory_dependency = No_dependency | Path_dependency string

record observation_facts =
  of_observationCount :: int
  of_firstObservedAt :: string
  of_lastObservedAt :: string

record current_lesson = lesson +
  cl_technology :: string
  cl_failureKind :: failure_kind
  cl_dependency :: memory_dependency
  cl_facts :: observation_facts

record obsolescence_components =
  oc_age :: int
  oc_rarity :: int
  oc_dependencyAbsent :: int

text \<open>What a current tombstone adds; \<open>None\<close> is a tombstone of the first contract.\<close>

record curated_facts =
  cf_technology :: string
  cf_failureKind :: failure_kind
  cf_dependency :: memory_dependency
  cf_facts :: observation_facts
  cf_curationEvidence :: "(string \<times> int \<times> obsolescence_components) option"

record current_tombstone = tombstone +
  ct_curated :: "curated_facts option"

text \<open>A failure candidate; only the current version counts its observations and dates the last one.\<close>

record failure_candidate =
  fc_candidateId :: string
  fc_toolFamily :: tool_family
  fc_failureClass :: failure_kind
  fc_exitCode :: "int option"
  fc_diagnostic :: string
  fc_firstObservedAt :: string
  fc_current :: "(int \<times> string) option"

datatype current_change =
    Promote_current string "string list" string "string list" "string list" string failure_kind memory_dependency
  | Reinforce_current string string "string list"
  | Merge_current string "string list" string
  | Archive_current string string string

definition completeCurrent ::
  "(current_lesson, current_tombstone) memory_ledger \<Rightarrow> current_lesson list \<Rightarrow> current_tombstone list \<Rightarrow>
    string list \<Rightarrow> string \<Rightarrow> (string \<Rightarrow> string) \<Rightarrow> (current_lesson, current_tombstone) memory_reduction" where
  "completeCurrent prior confirmed archive consumedCandidateIds now sha256 =
     (if length confirmed > CURATED_MEMORY_CONFIRMED_MAX then Memory_stopped Curation_required
      else
        let provisional = prior\<lparr>ml_revision := ml_revision prior + 1, ml_updatedAt := now,
              ml_confirmed := js_sort byLessonId confirmed,
              ml_archive := last_entries CURATED_MEMORY_ARCHIVE_MAX archive\<rparr>
        in Memory_ready (provisional\<lparr>ml_projectionDigest := snd (projectCuratedMemory sha256 provisional)\<rparr>)
             (sortedUnique consumedCandidateIds))"

definition lessonsByIds :: "current_lesson list \<Rightarrow> string list \<Rightarrow> current_lesson list option" where
  "lessonsByIds confirmed ids =
     (let wanted = js_set_list ids; source = filter (\<lambda>l. ms_lessonId l \<in> set wanted) confirmed
      in if length wanted = length ids \<and> length source = length wanted then Some source else None)"

definition selectCandidates :: "failure_candidate list \<Rightarrow> string list \<Rightarrow> failure_candidate list option" where
  "selectCandidates candidates ids =
     (let wanted = js_set_list ids; selected = filter (\<lambda>c. fc_candidateId c \<in> set wanted) candidates
      in if length wanted = length ids \<and> length selected = length wanted then Some selected else None)"

definition minText :: "string \<Rightarrow> string \<Rightarrow> string" where
  "minText left right = (if text_compare left right < 0 then left else right)"

definition maxText :: "string \<Rightarrow> string \<Rightarrow> string" where
  "maxText left right = (if text_compare left right > 0 then left else right)"

text \<open>\<open>values.reduce(f)\<close> without an initial value throws on an empty list.\<close>

definition js_reduce :: "('a \<Rightarrow> 'a \<Rightarrow> 'a) \<Rightarrow> 'a list \<Rightarrow> 'a option" where
  "js_reduce f values = (case values of [] \<Rightarrow> None | v # vs \<Rightarrow> Some (foldl f v vs))"

definition observationFacts :: "failure_candidate list \<Rightarrow> observation_facts option" where
  "observationFacts candidates =
     (case (js_reduce minText (map fc_firstObservedAt candidates),
        js_reduce maxText (map (\<lambda>c. case fc_current c of Some (_, t) \<Rightarrow> t | None \<Rightarrow> fc_firstObservedAt c) candidates)) of
        (Some earliest, Some latest) \<Rightarrow> Some
          \<lparr> of_observationCount = sum_list (map (\<lambda>c. case fc_current c of Some (n, _) \<Rightarrow> n | None \<Rightarrow> 1) candidates),
            of_firstObservedAt = earliest, of_lastObservedAt = latest \<rparr>
      | _ \<Rightarrow> None)"

definition currentTombstone ::
  "current_lesson \<Rightarrow> string \<Rightarrow> string \<Rightarrow> string \<Rightarrow> string option \<Rightarrow>
    (string \<times> int \<times> obsolescence_components) option \<Rightarrow> current_tombstone" where
  "currentTombstone l reviewer archivedAt reason replacementLessonId evidenceProposal =
     \<lparr> mt_lessonId = ms_lessonId l, mt_title = ms_title l, mt_candidateIds = ms_candidateIds l,
       mt_reviewer = reviewer, mt_archivedAt = archivedAt, mt_reason = reason,
       mt_replacementLessonId = replacementLessonId,
       ct_curated = Some \<lparr> cf_technology = cl_technology l, cf_failureKind = cl_failureKind l,
         cf_dependency = cl_dependency l, cf_facts = cl_facts l, cf_curationEvidence = evidenceProposal \<rparr> \<rparr>"

text \<open>The lesson with the most observations, of the smallest identifier among equals.\<close>

definition by_observations :: "current_lesson \<Rightarrow> current_lesson \<Rightarrow> int" where
  "by_observations left right =
     (if of_observationCount (cl_facts right) \<noteq> of_observationCount (cl_facts left)
      then of_observationCount (cl_facts right) - of_observationCount (cl_facts left)
      else byLessonId left right)"

definition mergeCurrent ::
  "(current_lesson, current_tombstone) memory_ledger \<Rightarrow> current_lesson list \<Rightarrow> string \<Rightarrow> string \<Rightarrow>
    (string \<Rightarrow> string) \<Rightarrow> string option \<Rightarrow> (current_lesson, current_tombstone) memory_reduction" where
  "mergeCurrent ledger source reviewer now sha256 explicitTitle =
     (case js_sort by_observations source of
        [] \<Rightarrow> Memory_stopped Candidate_missing
      | canonical # _ \<Rightarrow>
          let why = sortedUnique (concat (map ms_why source));
              remedy = sortedUnique (concat (map ms_apply source));
              candidateIds = sortedUnique (concat (map ms_candidateIds source))
          in if length why > 8 \<or> length remedy > 8 \<or> length candidateIds > 256 then Memory_stopped Curation_required
             else
               let title = (case explicitTitle of Some t \<Rightarrow> t | None \<Rightarrow> ms_title canonical);
                   facts = \<lparr> of_observationCount = sum_list (map (\<lambda>l. of_observationCount (cl_facts l)) source),
                     of_firstObservedAt = the (js_reduce minText (map (\<lambda>l. of_firstObservedAt (cl_facts l)) source)),
                     of_lastObservedAt = the (js_reduce maxText (map (\<lambda>l. of_lastObservedAt (cl_facts l)) source)) \<rparr>;
                   replacement = lesson.extend (lessonFor title why remedy candidateIds reviewer now sha256)
                     \<lparr> cl_technology = cl_technology canonical, cl_failureKind = cl_failureKind canonical,
                       cl_dependency = cl_dependency canonical, cl_facts = facts \<rparr>;
                   sourceIds = map ms_lessonId source;
                   tombstones = map (\<lambda>l. currentTombstone l reviewer now ''Merged into replacement lesson.''
                     (Some (ms_lessonId replacement)) None) source
               in completeCurrent ledger
                    (filter (\<lambda>l. ms_lessonId l \<notin> set sourceIds) (ml_confirmed ledger) @ [replacement])
                    (ml_archive ledger @ tombstones) [] now sha256)"

definition reviewer_of :: "current_change \<Rightarrow> string" where
  "reviewer_of proposal =
     (case proposal of
        Promote_current reviewer _ _ _ _ _ _ _ \<Rightarrow> reviewer
      | Reinforce_current reviewer _ _ \<Rightarrow> reviewer
      | Merge_current reviewer _ _ \<Rightarrow> reviewer
      | Archive_current reviewer _ _ \<Rightarrow> reviewer)"

definition promote_current ::
  "(current_lesson, current_tombstone) memory_ledger \<Rightarrow> failure_candidate list \<Rightarrow> string \<Rightarrow> string list \<Rightarrow> string \<Rightarrow>
    string list \<Rightarrow> string list \<Rightarrow> string \<Rightarrow> failure_kind \<Rightarrow> memory_dependency \<Rightarrow> string \<Rightarrow> (string \<Rightarrow> string) \<Rightarrow>
    (current_lesson, current_tombstone) memory_reduction" where
  "promote_current ledger candidates reviewer candidateIds title why remedy technology failureKind dependency now sha256 =
     (case selectCandidates candidates candidateIds of
        None \<Rightarrow> Memory_stopped Candidate_missing
      | Some selected \<Rightarrow>
          if \<not> nonempty why \<or> \<not> nonempty remedy then Memory_stopped Lesson_incomplete
          else (case observationFacts selected of
              None \<Rightarrow> Memory_thrown
            | Some facts \<Rightarrow> completeCurrent ledger
                (ml_confirmed ledger @
                  [lesson.extend (lessonFor title (sortedUnique why) (sortedUnique remedy) (sortedUnique candidateIds)
                      reviewer now sha256)
                    \<lparr> cl_technology = technology, cl_failureKind = failureKind, cl_dependency = dependency, cl_facts = facts \<rparr>])
                (ml_archive ledger) candidateIds now sha256))"

definition reinforce_current ::
  "(current_lesson, current_tombstone) memory_ledger \<Rightarrow> failure_candidate list \<Rightarrow> string \<Rightarrow> string \<Rightarrow> string list \<Rightarrow>
    string \<Rightarrow> (string \<Rightarrow> string) \<Rightarrow> (current_lesson, current_tombstone) memory_reduction" where
  "reinforce_current ledger candidates reviewer lessonId candidateIds now sha256 =
     (case (List.find (\<lambda>l. ms_lessonId l = lessonId) (ml_confirmed ledger), selectCandidates candidates candidateIds) of
        (Some l, Some selected) \<Rightarrow>
          if list_ex (\<lambda>i. i \<notin> set (ms_candidateIds l)) candidateIds then Memory_stopped Provenance_mismatch
          else (case observationFacts selected of
              None \<Rightarrow> Memory_thrown
            | Some facts \<Rightarrow>
                let reinforced = l\<lparr>ms_reviewer := reviewer, cl_facts :=
                      \<lparr> of_observationCount = of_observationCount (cl_facts l) + of_observationCount facts,
                        of_firstObservedAt = minText (of_firstObservedAt (cl_facts l)) (of_firstObservedAt facts),
                        of_lastObservedAt = maxText (of_lastObservedAt (cl_facts l)) (of_lastObservedAt facts) \<rparr>\<rparr>
                in completeCurrent ledger
                     (map (\<lambda>v. if ms_lessonId v = ms_lessonId l then reinforced else v) (ml_confirmed ledger))
                     (ml_archive ledger) candidateIds now sha256)
      | _ \<Rightarrow> Memory_stopped Candidate_missing)"

definition reduceMemoryChangeV1_4 ::
  "(current_lesson, current_tombstone) memory_ledger \<Rightarrow> failure_candidate list \<Rightarrow> current_change \<Rightarrow> string \<Rightarrow>
    (string \<Rightarrow> string) \<Rightarrow> (current_lesson, current_tombstone) memory_reduction" where
  "reduceMemoryChangeV1_4 ledger candidates proposal now sha256 =
     (if length (js_trim (reviewer_of proposal)) = 0 then Memory_stopped Lesson_incomplete
      else (case proposal of
          Promote_current reviewer candidateIds title why remedy technology failureKind dependency \<Rightarrow>
            promote_current ledger candidates reviewer candidateIds title why remedy technology failureKind dependency now sha256
        | Reinforce_current reviewer lessonId candidateIds \<Rightarrow>
            reinforce_current ledger candidates reviewer lessonId candidateIds now sha256
        | Merge_current reviewer lessonIds title \<Rightarrow>
            (case lessonsByIds (ml_confirmed ledger) lessonIds of
               None \<Rightarrow> Memory_stopped Candidate_missing
             | Some source \<Rightarrow> mergeCurrent ledger source reviewer now sha256 (Some title))
        | Archive_current reviewer lessonId reason \<Rightarrow>
            (case List.find (\<lambda>l. ms_lessonId l = lessonId) (ml_confirmed ledger) of
               None \<Rightarrow> Memory_stopped Candidate_missing
             | Some l \<Rightarrow> completeCurrent ledger
                 (filter (\<lambda>v. ms_lessonId v \<noteq> ms_lessonId l) (ml_confirmed ledger))
                 (ml_archive ledger @ [currentTombstone l reviewer now reason None None]) [] now sha256)))"

section \<open>Approved curations\<close>

datatype proposal_kind = Propose_merge | Propose_archive | Propose_delete

text \<open>Of a proposal, what applying it reads: a merge has two lessons, the other kinds one and their components.\<close>

record curation_proposal =
  cp_proposalId :: string
  cp_type :: proposal_kind
  cp_score :: int
  cp_lessonIds :: "string list"
  cp_components :: obsolescence_components

record curation_plan =
  cu_policyVersion :: string
  cu_proposals :: "curation_proposal list"
  cu_planDigest :: string

record curation_approval =
  ca_planDigest :: string
  ca_reviewer :: string
  ca_decisions :: "(string \<times> bool) list"

datatype curation_stop =
    Approval_stale | Approval_incomplete | Approval_duplicate | Approval_unknown | Approval_overlap
  | Curation_candidate_missing | Curation_over_limit

datatype curation_reduction =
    Curation_ready "(current_lesson, current_tombstone) memory_ledger" "string list"
  | Curation_stopped curation_stop

fun check_decisions :: "string list \<Rightarrow> string list \<Rightarrow> (string \<times> bool) list \<Rightarrow> curation_stop option" where
  "check_decisions proposalIds decided [] = None"
| "check_decisions proposalIds decided ((proposalId, _) # decisions) =
     (if proposalId \<in> set decided then Some Approval_duplicate
      else if proposalId \<notin> set proposalIds then Some Approval_unknown
      else check_decisions proposalIds (proposalId # decided) decisions)"

fun overlapping :: "string list \<Rightarrow> string list \<Rightarrow> bool" where
  "overlapping occupied [] = False"
| "overlapping occupied (lessonId # lessonIds) =
     (lessonId \<in> set occupied \<or> overlapping (lessonId # occupied) lessonIds)"

definition stop_of :: "memory_stop \<Rightarrow> curation_stop" where
  "stop_of stop = (if stop = Curation_required then Curation_over_limit else Curation_candidate_missing)"

text \<open>The loop over the approved proposals, with the lessons and the archive so far.\<close>

fun apply_proposals ::
  "(current_lesson, current_tombstone) memory_ledger \<Rightarrow> string \<Rightarrow> string \<Rightarrow> string \<Rightarrow> (string \<Rightarrow> string) \<Rightarrow>
    current_lesson list \<Rightarrow> current_tombstone list \<Rightarrow> curation_proposal list \<Rightarrow>
    (curation_stop, current_lesson list \<times> current_tombstone list) result" where
  "apply_proposals ledger policyVersion reviewer now sha256 confirmed archive [] = Inr (confirmed, archive)"
| "apply_proposals ledger policyVersion reviewer now sha256 confirmed archive (p # ps) =
     (case lessonsByIds confirmed (cp_lessonIds p) of
        None \<Rightarrow> Inl Curation_candidate_missing
      | Some source \<Rightarrow>
          if cp_type p = Propose_merge then
            (case mergeCurrent (ledger\<lparr>ml_confirmed := confirmed, ml_archive := archive\<rparr>) source reviewer now sha256 None of
               Memory_ready reduced _ \<Rightarrow>
                 apply_proposals ledger policyVersion reviewer now sha256 (ml_confirmed reduced) (ml_archive reduced) ps
             | Memory_stopped stop \<Rightarrow> Inl (stop_of stop)
             | Memory_thrown \<Rightarrow> Inl Curation_candidate_missing)
          else (case source of
              [] \<Rightarrow> Inl Curation_candidate_missing
            | l # _ \<Rightarrow>
                apply_proposals ledger policyVersion reviewer now sha256
                  (filter (\<lambda>v. ms_lessonId v \<noteq> ms_lessonId l) confirmed)
                  (if cp_type p = Propose_archive
                   then archive @ [currentTombstone l reviewer now (''Obsolete under '' @ policyVersion @ ''.'') None
                     (Some (cp_proposalId p, cp_score p, cp_components p))]
                   else archive)
                  ps))"

definition applyMemoryCuration ::
  "(current_lesson, current_tombstone) memory_ledger \<Rightarrow> curation_plan \<Rightarrow> curation_approval \<Rightarrow> string \<Rightarrow>
    (string \<Rightarrow> string) \<Rightarrow> curation_reduction" where
  "applyMemoryCuration ledger plan approval now sha256 =
     (if ca_planDigest approval \<noteq> cu_planDigest plan then Curation_stopped Approval_stale
      else (case check_decisions (map cp_proposalId (cu_proposals plan)) [] (ca_decisions approval) of
          Some stop \<Rightarrow> Curation_stopped stop
        | None \<Rightarrow>
            if length (ca_decisions approval) \<noteq> length (cu_proposals plan) then Curation_stopped Approval_incomplete
            else
              let approved = filter (\<lambda>p. map_of (ca_decisions approval) (cp_proposalId p) = Some True) (cu_proposals plan)
              in if overlapping [] (concat (map cp_lessonIds approved)) then Curation_stopped Approval_overlap
                 else (case apply_proposals ledger (cu_policyVersion plan) (ca_reviewer approval) now sha256
                      (ml_confirmed ledger) (ml_archive ledger) approved of
                    Inl stop \<Rightarrow> Curation_stopped stop
                  | Inr (confirmed, archive) \<Rightarrow>
                      (case completeCurrent ledger confirmed archive [] now sha256 of
                         Memory_ready completed _ \<Rightarrow> Curation_ready completed (map cp_proposalId approved)
                       | Memory_stopped stop \<Rightarrow> Curation_stopped (stop_of stop)
                       | Memory_thrown \<Rightarrow> Curation_stopped Curation_candidate_missing))))"

section \<open>Sound ledgers\<close>

text \<open>
  What reading a ledger back checks, and the limits of the contract: the semantic checks, the
  projection, and the numbers of lessons and tombstones.
\<close>

definition sound_ledger :: "(string \<Rightarrow> string) \<Rightarrow> ('l lesson_scheme, 't tombstone_scheme) memory_ledger \<Rightarrow> bool" where
  "sound_ledger sha256 ledger \<longleftrightarrow>
     validatesCuratedMemorySemantics sha256 ledger \<and>
     validateCuratedMemoryProjection sha256 ledger (renderCuratedMemory ledger) \<and>
     length (ml_confirmed ledger) \<le> CURATED_MEMORY_CONFIRMED_MAX \<and>
     length (ml_archive ledger) \<le> CURATED_MEMORY_ARCHIVE_MAX"

lemma render_digest [simp]: "renderCuratedMemory (l\<lparr>ml_projectionDigest := d\<rparr>) = renderCuratedMemory l"
  by (simp add: renderCuratedMemory_def)

lemma complete_change_ready:
  assumes "complete_change prior confirmed archive consumed now sha256 = Memory_ready ledger taken"
    and "length archive \<le> CURATED_MEMORY_ARCHIVE_MAX"
  shows "sound_ledger sha256 ledger" "mset (ml_confirmed ledger) = mset confirmed" "ml_archive ledger = archive"
    "utf8_length (renderCuratedMemory ledger) \<le> CURATED_MEMORY_RENDERED_MAX_BYTES"
    "ml_revision ledger = ml_revision prior + 1"
proof -
  define provisional where "provisional = prior\<lparr>ml_revision := ml_revision prior + 1, ml_updatedAt := now,
    ml_confirmed := js_sort byLessonId confirmed, ml_archive := archive\<rparr>"
  have ledger: "ledger = provisional\<lparr>ml_projectionDigest := sha256 (renderCuratedMemory provisional)\<rparr>"
    and small: "length confirmed \<le> CURATED_MEMORY_CONFIRMED_MAX"
    and valid: "validatesCuratedMemorySemantics sha256 ledger"
    and bytes: "utf8_length (renderCuratedMemory provisional) \<le> CURATED_MEMORY_RENDERED_MAX_BYTES"
    using assms(1) by (auto simp: complete_change_def provisional_def [symmetric] projectCuratedMemory_def Let_def split: if_splits)
  show "mset (ml_confirmed ledger) = mset confirmed" "ml_archive ledger = archive" "ml_revision ledger = ml_revision prior + 1"
    by (simp_all add: ledger provisional_def mset_js_sort)
  show "utf8_length (renderCuratedMemory ledger) \<le> CURATED_MEMORY_RENDERED_MAX_BYTES"
    using bytes by (simp add: ledger)
  show "sound_ledger sha256 ledger"
    using small valid assms(2)
    by (simp add: sound_ledger_def validateCuratedMemoryProjection_def projectCuratedMemory_def ledger provisional_def
        length_js_sort Let_def)
qed

lemma length_last_entries [simp]: "length (last_entries n xs) \<le> n"
  by (simp add: last_entries_def)

lemma last_entries_keep: "length ys \<le> n \<Longrightarrow> set ys \<subseteq> set (last_entries n (xs @ ys))"
  by (auto simp: last_entries_def)

lemma memory_change_completes:
  assumes "reduceMemoryChange ledger proposal now sha256 = Memory_ready ledger' consumed"
    and "length (ml_archive ledger) \<le> CURATED_MEMORY_ARCHIVE_MAX"
  shows "\<exists>confirmed archive taken. complete_change ledger confirmed archive taken now sha256 = Memory_ready ledger' consumed \<and>
    length archive \<le> CURATED_MEMORY_ARCHIVE_MAX \<and>
    (length (ml_confirmed ledger) \<le> CURATED_MEMORY_CONFIRMED_MAX \<longrightarrow>
      (\<forall>l \<in> set (ml_confirmed ledger). l \<in> set confirmed \<or> ms_lessonId l \<in> mt_lessonId ` set archive))"
proof (cases proposal)
  case (Promote_lesson candidateIds title reviewer why remedy)
  with assms(1) obtain l taken where completed:
    "complete_change ledger (ml_confirmed ledger @ [l]) (ml_archive ledger) taken now sha256 = Memory_ready ledger' consumed"
    by (auto simp: reduceMemoryChange_def promote_def Let_def split: if_splits)
  show ?thesis
    by (intro exI [of _ "ml_confirmed ledger @ [l]"] exI [of _ "ml_archive ledger"] exI [of _ taken])
       (use completed assms(2) in simp)
next
  case (Merge_lessons lessonIds title reviewer)
  define wanted where "wanted = js_set_list lessonIds"
  define source where "source = filter (\<lambda>l. ms_lessonId l \<in> set wanted) (ml_confirmed ledger)"
  from assms(1) Merge_lessons obtain replacement i where completed:
    "complete_change ledger (filter (\<lambda>l. ms_lessonId l \<notin> set wanted) (ml_confirmed ledger) @ [replacement])
       (last_entries CURATED_MEMORY_ARCHIVE_MAX (ml_archive ledger @
         map (\<lambda>l. tombstoneFor l reviewer now ''Merged into replacement lesson.'' (Some i)) (js_sort byLessonId source))) [] now sha256 =
     Memory_ready ledger' consumed"
    by (auto simp: reduceMemoryChange_def merge_def wanted_def [symmetric] source_def [symmetric] Let_def split: if_splits)
  define tombs where "tombs = map (\<lambda>l. tombstoneFor l reviewer now ''Merged into replacement lesson.'' (Some i)) (js_sort byLessonId source)"
  have kept: "set tombs \<subseteq> set (last_entries CURATED_MEMORY_ARCHIVE_MAX (ml_archive ledger @ tombs))"
    if "length (ml_confirmed ledger) \<le> CURATED_MEMORY_CONFIRMED_MAX"
  proof (rule last_entries_keep)
    have "length source \<le> length (ml_confirmed ledger)" by (simp add: source_def)
    with that show "length tombs \<le> CURATED_MEMORY_ARCHIVE_MAX"
      by (simp add: tombs_def length_js_sort CURATED_MEMORY_CONFIRMED_MAX_def CURATED_MEMORY_ARCHIVE_MAX_def)
  qed
  have tomb: "ms_lessonId l \<in> mt_lessonId ` set tombs" if "l \<in> set source" for l
    using that by (force simp: tombs_def set_js_sort tombstoneFor_def)
  have "l \<in> set (filter (\<lambda>l. ms_lessonId l \<notin> set wanted) (ml_confirmed ledger) @ [replacement]) \<or>
      ms_lessonId l \<in> mt_lessonId ` set (last_entries CURATED_MEMORY_ARCHIVE_MAX (ml_archive ledger @ tombs))"
    if "l \<in> set (ml_confirmed ledger)" "length (ml_confirmed ledger) \<le> CURATED_MEMORY_CONFIRMED_MAX" for l
    using that(1) kept [OF that(2)] tomb [of l] by (auto simp: source_def)
  with completed show ?thesis unfolding tombs_def [symmetric] by (metis length_last_entries)
next
  case (Archive_lesson lessonId reviewer reason)
  then obtain l where l: "l \<in> set (ml_confirmed ledger)" and completed: "complete_change ledger
      (filter (\<lambda>v. ms_lessonId v \<noteq> ms_lessonId l) (ml_confirmed ledger))
      (last_entries CURATED_MEMORY_ARCHIVE_MAX (ml_archive ledger @ [tombstoneFor l reviewer now reason None])) [] now sha256 =
      Memory_ready ledger' consumed"
    using assms(1) by (auto simp: reduceMemoryChange_def archive_lesson_def find_Some_iff in_set_conv_nth split: if_splits option.splits)
  define tombs where "tombs = [tombstoneFor l reviewer now reason None]"
  have "set tombs \<subseteq> set (last_entries CURATED_MEMORY_ARCHIVE_MAX (ml_archive ledger @ tombs))"
    by (rule last_entries_keep) (simp add: tombs_def CURATED_MEMORY_ARCHIVE_MAX_def)
  then have "v \<in> set (filter (\<lambda>v. ms_lessonId v \<noteq> ms_lessonId l) (ml_confirmed ledger)) \<or>
      ms_lessonId v \<in> mt_lessonId ` set (last_entries CURATED_MEMORY_ARCHIVE_MAX (ml_archive ledger @ tombs))"
    if "v \<in> set (ml_confirmed ledger)" for v
    using that by (auto simp: tombs_def tombstoneFor_def intro!: rev_image_eqI)
  with completed show ?thesis unfolding tombs_def [symmetric] by (metis length_last_entries)
qed

section \<open>Histories of changes\<close>

inductive memory_step ::
  "(string \<Rightarrow> string) \<Rightarrow> (lesson, tombstone) memory_ledger \<Rightarrow> (lesson, tombstone) memory_ledger \<Rightarrow> bool"
  for sha256 where
  changed: "reduceMemoryChange ledger proposal now sha256 = Memory_ready ledger' consumed \<Longrightarrow>
    memory_step sha256 ledger ledger'"

lemma memory_step_sound:
  assumes "memory_step sha256 ledger ledger'" "length (ml_archive ledger) \<le> CURATED_MEMORY_ARCHIVE_MAX"
  shows "sound_ledger sha256 ledger' \<and> ml_revision ledger' = ml_revision ledger + 1 \<and>
    utf8_length (renderCuratedMemory ledger') \<le> CURATED_MEMORY_RENDERED_MAX_BYTES \<and>
    (length (ml_confirmed ledger) \<le> CURATED_MEMORY_CONFIRMED_MAX \<longrightarrow>
      (\<forall>l \<in> set (ml_confirmed ledger). l \<in> set (ml_confirmed ledger') \<or> ms_lessonId l \<in> mt_lessonId ` set (ml_archive ledger')))"
  using assms(1)
proof cases
  case (changed proposal now consumed)
  from memory_change_completes [OF this assms(2)] obtain confirmed archive taken where
    completed: "complete_change ledger confirmed archive taken now sha256 = Memory_ready ledger' consumed"
    and small: "length archive \<le> CURATED_MEMORY_ARCHIVE_MAX"
    and kept: "length (ml_confirmed ledger) \<le> CURATED_MEMORY_CONFIRMED_MAX \<longrightarrow>
      (\<forall>l \<in> set (ml_confirmed ledger). l \<in> set confirmed \<or> ms_lessonId l \<in> mt_lessonId ` set archive)"
    by blast
  note ready = complete_change_ready [OF completed small]
  have "set (ml_confirmed ledger') = set confirmed" by (rule mset_eq_setD [OF ready(2)])
  with ready kept show ?thesis by simp
qed

text \<open>C19: Whatever changes a reviewer makes to the curated memory, every ledger they lead to passes the
  semantic checks and the check of its projection that reading it back performs, keeps at most
  24 lessons and 48 tombstones, and its projection at most 48 KiB; and no single change loses a
  lesson: it stays confirmed as it is or leaves a tombstone.\<close>

theorem curated_memory_stays_sound:
  assumes "(memory_step sha256)\<^sup>*\<^sup>* start ledger" "sound_ledger sha256 start" "memory_step sha256 ledger ledger'"
  shows "validatesCuratedMemorySemantics sha256 ledger' \<and>
    validateCuratedMemoryProjection sha256 ledger' (renderCuratedMemory ledger') \<and>
    length (ml_confirmed ledger') \<le> 24 \<and> length (ml_archive ledger') \<le> 48 \<and>
    utf8_length (renderCuratedMemory ledger') \<le> 48 * 1024 \<and>
    (\<forall>l \<in> set (ml_confirmed ledger).
      l \<in> set (ml_confirmed ledger') \<or> ms_lessonId l \<in> mt_lessonId ` set (ml_archive ledger'))"
proof -
  from assms(1,2) have "sound_ledger sha256 ledger"
  proof (induction rule: rtranclp_induct)
    case (step mid later)
    then show ?case using memory_step_sound by (meson sound_ledger_def)
  qed
  then have "sound_ledger sha256 ledger" "length (ml_archive ledger) \<le> CURATED_MEMORY_ARCHIVE_MAX"
    "length (ml_confirmed ledger) \<le> CURATED_MEMORY_CONFIRMED_MAX" by (simp_all add: sound_ledger_def)
  with memory_step_sound [OF assms(3)] show ?thesis
    by (simp add: sound_ledger_def CURATED_MEMORY_CONFIRMED_MAX_def CURATED_MEMORY_ARCHIVE_MAX_def
        CURATED_MEMORY_RENDERED_MAX_BYTES_def)
qed

text \<open>The empty ledger, then one lesson.\<close>

definition empty_ledger :: "(string \<Rightarrow> string) \<Rightarrow> ('l lesson_scheme, 't tombstone_scheme) memory_ledger" where
  "empty_ledger sha256 =
     (let l = \<lparr> ml_revision = 0, ml_projectionDigest = '''', ml_updatedAt = ''t0'', ml_confirmed = [], ml_archive = [] \<rparr>
      in l\<lparr>ml_projectionDigest := sha256 (renderCuratedMemory l)\<rparr>)"

lemma empty_ledger_sound: "sound_ledger sha256 (empty_ledger sha256)"
  by (simp add: sound_ledger_def empty_ledger_def Let_def validatesCuratedMemorySemantics_def
      validateCuratedMemoryProjection_def projectCuratedMemory_def renderCuratedMemory_def)

definition sample_ledger :: "(lesson, tombstone) memory_ledger" where
  "sample_ledger =
     (case reduceMemoryChange (empty_ledger id) (Promote_lesson [''c1''] ''title'' ''me'' [''why''] [''do'']) ''t1'' id of
        Memory_ready l _ \<Rightarrow> l | _ \<Rightarrow> empty_ledger id)"

lemma sample_ledger_step: "memory_step id (empty_ledger id) sample_ledger"
proof -
  have "reduceMemoryChange (empty_ledger id) (Promote_lesson [''c1''] ''title'' ''me'' [''why''] [''do'']) ''t1'' id =
      Memory_ready sample_ledger [''c1'']"
    by code_simp
  then show ?thesis by (rule memory_step.changed)
qed

lemma curated_memory_stays_sound_witness:
  "validatesCuratedMemorySemantics id sample_ledger \<and> length (ml_confirmed sample_ledger) \<le> 24"
  using curated_memory_stays_sound [OF rtranclp.rtrancl_refl empty_ledger_sound sample_ledger_step] by blast

section \<open>Histories under the current contract\<close>

lemma completeCurrent_ready:
  assumes "completeCurrent prior confirmed archive consumed now sha256 = Memory_ready ledger taken"
  shows "mset (ml_confirmed ledger) = mset confirmed" "ml_archive ledger = last_entries CURATED_MEMORY_ARCHIVE_MAX archive"
    "validateCuratedMemoryProjection sha256 ledger (renderCuratedMemory ledger)"
    "length confirmed \<le> CURATED_MEMORY_CONFIRMED_MAX"
  using assms
  by (auto simp: completeCurrent_def Let_def validateCuratedMemoryProjection_def projectCuratedMemory_def mset_js_sort
      split: if_splits)

definition observations :: "current_lesson list \<Rightarrow> int" where
  "observations lessons = sum_list (map (\<lambda>l. of_observationCount (cl_facts l)) lessons)"

lemma observations_mset: "mset xs = mset ys \<Longrightarrow> observations xs = observations ys"
  unfolding observations_def by (metis mset_map sum_mset_sum_list)

lemma observations_split: "observations (filter P ls) + observations (filter (\<lambda>l. \<not> P l) ls) = observations ls"
  by (induction ls) (auto simp: observations_def)

lemma merge_cases:
  assumes "(case xs of [] \<Rightarrow> Memory_stopped stop | y # ys \<Rightarrow> if P then Memory_stopped other else f y) = Memory_ready l c"
  obtains y ys where "f y = Memory_ready l c" "xs = y # ys"
  using assms by (auto split: list.splits if_splits)

text \<open>A merge by identifiers keeps every observation and every lesson, as replaced or with a tombstone.\<close>

lemma merge_current_keeps:
  assumes "lessonsByIds (ml_confirmed ledger) ids = Some source"
    and "mergeCurrent ledger source reviewer now sha256 title = Memory_ready ledger' consumed"
    and "length (ml_confirmed ledger) \<le> CURATED_MEMORY_CONFIRMED_MAX"
  shows "observations (ml_confirmed ledger') = observations (ml_confirmed ledger) \<and>
    (\<forall>l \<in> set (ml_confirmed ledger). l \<in> set (ml_confirmed ledger') \<or> ms_lessonId l \<in> mt_lessonId ` set (ml_archive ledger'))"
proof -
  have source: "source = filter (\<lambda>l. ms_lessonId l \<in> set ids) (ml_confirmed ledger)"
    using assms(1) by (auto simp: lessonsByIds_def Let_def split: if_splits)
  have ids: "set (map ms_lessonId source) = set ids \<inter> ms_lessonId ` set (ml_confirmed ledger)"
    unfolding source by auto
  from assms(2) have "\<exists>replacement i. completeCurrent ledger
      (filter (\<lambda>l. ms_lessonId l \<notin> set (map ms_lessonId source)) (ml_confirmed ledger) @ [replacement])
      (ml_archive ledger @ map (\<lambda>l. currentTombstone l reviewer now ''Merged into replacement lesson.'' i None) source)
      [] now sha256 = Memory_ready ledger' consumed \<and> of_observationCount (cl_facts replacement) = observations source"
    unfolding mergeCurrent_def Let_def observations_def
    by (elim merge_cases) (rule exI, rule exI, rule conjI, assumption, simp add: lesson.defs)
  then obtain replacement i where
    completed: "completeCurrent ledger (filter (\<lambda>l. ms_lessonId l \<notin> set (map ms_lessonId source)) (ml_confirmed ledger) @ [replacement])
      (ml_archive ledger @ map (\<lambda>l. currentTombstone l reviewer now ''Merged into replacement lesson.'' i None) source)
      [] now sha256 = Memory_ready ledger' consumed"
    and count: "of_observationCount (cl_facts replacement) = observations source"
    by blast
  define tombs where "tombs = map (\<lambda>l. currentTombstone l reviewer now ''Merged into replacement lesson.'' i None) source"
  note completed = completed [folded tombs_def]
  note ready = completeCurrent_ready [OF completed]
  have same: "filter (\<lambda>l. ms_lessonId l \<notin> set (map ms_lessonId source)) (ml_confirmed ledger) =
      filter (\<lambda>l. \<not> ms_lessonId l \<in> set ids) (ml_confirmed ledger)"
    unfolding ids by (intro filter_cong) auto
  have "observations (ml_confirmed ledger') =
      observations (filter (\<lambda>l. \<not> ms_lessonId l \<in> set ids) (ml_confirmed ledger) @ [replacement])"
    using observations_mset [OF ready(1)] unfolding same .
  also have "\<dots> = observations (filter (\<lambda>l. \<not> ms_lessonId l \<in> set ids) (ml_confirmed ledger)) + observations source"
    by (simp add: observations_def count [unfolded observations_def])
  also have "\<dots> = observations (ml_confirmed ledger)"
    using observations_split [of "\<lambda>l. ms_lessonId l \<in> set ids" "ml_confirmed ledger"] by (simp add: source)
  finally have total: "observations (ml_confirmed ledger') = observations (ml_confirmed ledger)" .
  have "length source \<le> length (ml_confirmed ledger)" unfolding source by (rule length_filter_le)
  with assms(3) have "length tombs \<le> CURATED_MEMORY_ARCHIVE_MAX"
    by (simp add: tombs_def CURATED_MEMORY_CONFIRMED_MAX_def CURATED_MEMORY_ARCHIVE_MAX_def)
  from last_entries_keep [OF this] have tombstones: "set tombs \<subseteq> set (ml_archive ledger')" by (simp add: ready(2))
  have "l \<in> set (ml_confirmed ledger') \<or> ms_lessonId l \<in> mt_lessonId ` set (ml_archive ledger')"
    if l: "l \<in> set (ml_confirmed ledger)" for l
  proof (cases "ms_lessonId l \<in> set ids")
    case True
    then have "ms_lessonId l \<in> mt_lessonId ` set tombs" using l by (force simp: tombs_def source currentTombstone_def)
    with tombstones show ?thesis by blast
  next
    case False
    then have "l \<in> set (ml_confirmed ledger')"
      using l mset_eq_setD [OF ready(1)] unfolding same by simp
    then show ?thesis ..
  qed
  with total show ?thesis by blast
qed

text \<open>
  Under the current contract the completed ledger is not checked any more: when one of the merged
  lessons already says what the merged one says, the replacement gets that lesson's identifier,
  and the ledger has it both confirmed and archived, which the semantic checks refuse. The first
  contract refuses the same merge.
\<close>

definition length_digest :: "string \<Rightarrow> string" where
  "length_digest s = nat_text (length s)"

definition twin_lesson :: "string \<Rightarrow> lesson" where
  "twin_lesson title = lessonFor title [''why''] [''do''] [''c1''] ''me'' ''t1'' length_digest"

definition current_twin :: "string \<Rightarrow> current_lesson" where
  "current_twin title = lesson.extend (twin_lesson title)
     \<lparr> cl_technology = ''ts'', cl_failureKind = Tool_error, cl_dependency = No_dependency,
       cl_facts = \<lparr> of_observationCount = 1, of_firstObservedAt = ''t0'', of_lastObservedAt = ''t0'' \<rparr> \<rparr>"

definition twin_ledger :: "(current_lesson, current_tombstone) memory_ledger" where
  "twin_ledger = (empty_ledger length_digest)\<lparr>ml_confirmed := [current_twin ''a'', current_twin ''bb'']\<rparr>"

definition twin_ids :: "string list" where
  "twin_ids = [ms_lessonId (twin_lesson ''a''), ms_lessonId (twin_lesson ''bb'')]"

lemma sorted_singletons [simp]:
  "sortedUnique [] = []" "sortedUnique [v] = [v]" "sortedUnique [v, v] = [v]"
  by (simp_all add: sortedUnique_def js_set_list_def js_sort_def)

lemma twin_identity:
  "lesson_identity length_digest ''a'' [''why''] [''do''] [''c1''] = ''64''"
  "lesson_identity length_digest ''bb'' [''why''] [''do''] [''c1''] = ''65''"
  by code_simp+

lemma twin_facts [simp]:
  "ms_lessonId (current_twin ''a'') = ''64''" "ms_lessonId (current_twin ''bb'') = ''65''"
  "ms_lessonId (twin_lesson ''a'') = ''64''" "ms_lessonId (twin_lesson ''bb'') = ''65''"
  "ms_title (current_twin t) = t" "ms_title (twin_lesson t) = t"
  "ms_why (current_twin t) = [''why'']" "ms_why (twin_lesson t) = [''why'']"
  "ms_apply (current_twin t) = [''do'']" "ms_apply (twin_lesson t) = [''do'']"
  "ms_candidateIds (current_twin t) = [''c1'']" "ms_candidateIds (twin_lesson t) = [''c1'']"
  by (simp_all add: current_twin_def twin_lesson_def lessonFor_def lesson.defs twin_identity)

lemma twin_source [simp]: "js_set_list [''64'', ''65''] = [''64'', ''65'']"
  by (simp add: js_set_list_def)

text \<open>The semantic checks refuse a lesson that is both confirmed and archived.\<close>

lemma active_lessons_all: "active_lessons sha256 seen ls = Some active \<Longrightarrow> set seen \<union> ms_lessonId ` set ls \<subseteq> set active"
  by (induction sha256 seen ls rule: active_lessons.induct) (auto simp: Let_def split: if_splits)

lemma archived_lessons_apart: "archived_lessons active seen ts = Some archived \<Longrightarrow> mt_lessonId ` set ts \<inter> set active = {}"
  by (induction active seen ts rule: archived_lessons.induct) (auto split: if_splits)

lemma shared_identity_unsound:
  assumes "l \<in> set (ml_confirmed ledger)" "t \<in> set (ml_archive ledger)" "mt_lessonId t = ms_lessonId l"
  shows "\<not> validatesCuratedMemorySemantics sha256 ledger"
proof
  assume "validatesCuratedMemorySemantics sha256 ledger"
  then obtain a b where "active_lessons sha256 [] (ml_confirmed ledger) = Some a"
    "archived_lessons a [] (ml_archive ledger) = Some b"
    by (auto simp: validatesCuratedMemorySemantics_def split: option.splits)
  with active_lessons_all [of sha256 "[]" "ml_confirmed ledger" a] archived_lessons_apart [of a "[]" "ml_archive ledger" b] assms
  show False by (metis (no_types, lifting) IntI Un_upper2 empty_iff image_eqI subsetD subset_trans)
qed

lemma completed_semantics:
  assumes "completeCurrent prior confirmed archive consumed now sha256 = Memory_ready ledger taken"
    and "l \<in> set confirmed" "t \<in> set archive" "mt_lessonId t = ms_lessonId l" "length archive \<le> CURATED_MEMORY_ARCHIVE_MAX"
  shows "\<not> validatesCuratedMemorySemantics sha256 ledger"
proof (rule shared_identity_unsound)
  note ready = completeCurrent_ready [OF assms(1)]
  show "l \<in> set (ml_confirmed ledger)" using assms(2) mset_eq_setD [OF ready(1)] by simp
  show "t \<in> set (ml_archive ledger)" using assms(3,5) by (simp add: ready(2) last_entries_def)
qed (rule assms(4))

lemma complete_change_refuses:
  assumes "l \<in> set confirmed" "t \<in> set archive" "mt_lessonId t = ms_lessonId l"
  shows "complete_change prior confirmed archive consumed now sha256 = Memory_stopped Curation_required"
proof -
  have "\<not> validatesCuratedMemorySemantics sha256 (p\<lparr>ml_confirmed := js_sort byLessonId confirmed, ml_archive := archive,
      ml_projectionDigest := d\<rparr>)" for p d
    by (rule shared_identity_unsound [of l _ t]) (use assms in \<open>simp_all add: set_js_sort\<close>)
  then show ?thesis by (simp add: complete_change_def projectCuratedMemory_def Let_def)
qed

text \<open>The identity of the lesson a merge writes.\<close>

definition merged_identity :: "(string \<Rightarrow> string) \<Rightarrow> string \<Rightarrow> current_lesson list \<Rightarrow> string" where
  "merged_identity sha256 title source =
     lesson_identity sha256 title (sortedUnique (concat (map ms_why source)))
       (sortedUnique (concat (map ms_apply source))) (sortedUnique (concat (map ms_candidateIds source)))"

lemma subsuming_merge_unsound:
  assumes "mergeCurrent ledger source reviewer now sha256 (Some title) = Memory_ready ledger' consumed"
    and "l \<in> set source" "merged_identity sha256 title source = ms_lessonId l"
    and "length (ml_archive ledger) + length source \<le> CURATED_MEMORY_ARCHIVE_MAX"
  shows "\<not> validatesCuratedMemorySemantics sha256 ledger'"
proof -
  from assms(1) have "\<exists>replacement i. completeCurrent ledger
      (filter (\<lambda>l. ms_lessonId l \<notin> set (map ms_lessonId source)) (ml_confirmed ledger) @ [replacement])
      (ml_archive ledger @ map (\<lambda>l. currentTombstone l reviewer now ''Merged into replacement lesson.'' i None) source)
      [] now sha256 = Memory_ready ledger' consumed \<and> ms_lessonId replacement = merged_identity sha256 title source"
    unfolding mergeCurrent_def Let_def
    by (elim merge_cases) (rule exI, rule exI, rule conjI, assumption, simp add: lesson.defs lessonFor_def merged_identity_def)
  then obtain replacement i where
    completed: "completeCurrent ledger
      (filter (\<lambda>l. ms_lessonId l \<notin> set (map ms_lessonId source)) (ml_confirmed ledger) @ [replacement])
      (ml_archive ledger @ map (\<lambda>l. currentTombstone l reviewer now ''Merged into replacement lesson.'' i None) source)
      [] now sha256 = Memory_ready ledger' consumed"
    and identity: "ms_lessonId replacement = ms_lessonId l"
    using assms(3) by auto
  show ?thesis
    by (rule completed_semantics [OF completed, of replacement
          "currentTombstone l reviewer now ''Merged into replacement lesson.'' i None"])
       (use assms(2,4) identity in \<open>auto simp: currentTombstone_def\<close>)
qed

lemma current_merge_unsound:
  "validatesCuratedMemorySemantics length_digest twin_ledger \<and>
   (case reduceMemoryChangeV1_4 twin_ledger [] (Merge_current ''me'' twin_ids ''a'') ''t2'' length_digest of
      Memory_ready ledger _ \<Rightarrow> \<not> validatesCuratedMemorySemantics length_digest ledger
    | _ \<Rightarrow> False) \<and>
   reduceMemoryChange ((empty_ledger length_digest)\<lparr>ml_confirmed := [twin_lesson ''a'', twin_lesson ''bb'']\<rparr>)
     (Merge_lessons twin_ids ''a'' ''me'') ''t2'' length_digest = Memory_stopped Curation_required"
proof (intro conjI)
  show "validatesCuratedMemorySemantics length_digest twin_ledger"
    by (simp add: validatesCuratedMemorySemantics_def twin_ledger_def empty_ledger_def Let_def twin_identity)
  have source: "lessonsByIds (ml_confirmed twin_ledger) twin_ids = Some [current_twin ''a'', current_twin ''bb'']"
    by (simp add: lessonsByIds_def twin_ledger_def twin_ids_def)
  have trimmed: "js_trim ''me'' \<noteq> []" "js_trim ''a'' \<noteq> []" by code_simp+
  have merge_step: "reduceMemoryChangeV1_4 twin_ledger [] (Merge_current ''me'' twin_ids ''a'') ''t2'' length_digest =
      mergeCurrent twin_ledger [current_twin ''a'', current_twin ''bb''] ''me'' ''t2'' length_digest (Some ''a'')"
    by (simp add: reduceMemoryChangeV1_4_def reviewer_of_def source trimmed)
  obtain c cs where "js_sort by_observations [current_twin ''a'', current_twin ''bb''] = c # cs"
    by (cases "js_sort by_observations [current_twin ''a'', current_twin ''bb'']") (use js_sort_Nil in blast)+
  then obtain ledger taken where ready:
    "mergeCurrent twin_ledger [current_twin ''a'', current_twin ''bb''] ''me'' ''t2'' length_digest (Some ''a'') = Memory_ready ledger taken"
    by (simp add: mergeCurrent_def Let_def completeCurrent_def twin_ledger_def CURATED_MEMORY_CONFIRMED_MAX_def)
  have "\<not> validatesCuratedMemorySemantics length_digest ledger"
    by (rule subsuming_merge_unsound [OF ready, of "current_twin ''a''"])
       (simp_all add: merged_identity_def twin_identity twin_ledger_def empty_ledger_def Let_def CURATED_MEMORY_ARCHIVE_MAX_def)
  with ready show "case reduceMemoryChangeV1_4 twin_ledger [] (Merge_current ''me'' twin_ids ''a'') ''t2'' length_digest of
      Memory_ready ledger _ \<Rightarrow> \<not> validatesCuratedMemorySemantics length_digest ledger
    | _ \<Rightarrow> False" unfolding merge_step by simp
  show "reduceMemoryChange ((empty_ledger length_digest)\<lparr>ml_confirmed := [twin_lesson ''a'', twin_lesson ''bb'']\<rparr>)
     (Merge_lessons twin_ids ''a'' ''me'') ''t2'' length_digest = Memory_stopped Curation_required"
    by (simp add: reduceMemoryChange_def merge_def twin_ids_def trimmed Let_def,
        rule complete_change_refuses [of "lessonFor ''a'' [''why''] [''do''] [''c1''] ''me'' ''t2'' length_digest" _
          "tombstoneFor (twin_lesson ''a'') ''me'' ''t2'' ''Merged into replacement lesson.''
            (Some (ms_lessonId (lessonFor ''a'' [''why''] [''do''] [''c1''] ''me'' ''t2'' length_digest)))"])
       (simp_all add: last_entries_def empty_ledger_def Let_def CURATED_MEMORY_ARCHIVE_MAX_def length_js_sort set_js_sort
         tombstoneFor_def lessonFor_def twin_identity)
qed

lemma reinforce_current_ready:
  assumes "reinforce_current ledger candidates reviewer lessonId candidateIds now sha256 = Memory_ready ledger' consumed"
  obtains l r :: current_lesson and taken where "ms_lessonId r = ms_lessonId l" "completeCurrent ledger
      (map (\<lambda>v. if ms_lessonId v = ms_lessonId l then r else v) (ml_confirmed ledger)) (ml_archive ledger) taken now sha256 =
      Memory_ready ledger' consumed"
proof -
  from assms obtain l and facts :: observation_facts where "completeCurrent ledger
      (map (\<lambda>v. if ms_lessonId v = ms_lessonId l
         then l\<lparr>ms_reviewer := reviewer, cl_facts :=
           \<lparr> of_observationCount = of_observationCount (cl_facts l) + of_observationCount facts,
             of_firstObservedAt = minText (of_firstObservedAt (cl_facts l)) (of_firstObservedAt facts),
             of_lastObservedAt = maxText (of_lastObservedAt (cl_facts l)) (of_lastObservedAt facts) \<rparr>\<rparr>
         else v) (ml_confirmed ledger)) (ml_archive ledger) candidateIds now sha256 = Memory_ready ledger' consumed"
    unfolding reinforce_current_def Let_def by (auto split: option.splits if_splits)
  from that [OF _ this] show ?thesis by simp
qed

text \<open>
  A change of the current contract keeps the projection and the limits, and the identity of
  every lesson stays on record, confirmed or archived.
\<close>

lemma current_change_keeps:
  assumes "reduceMemoryChangeV1_4 ledger candidates proposal now sha256 = Memory_ready ledger' consumed"
    and "length (ml_confirmed ledger) \<le> CURATED_MEMORY_CONFIRMED_MAX"
  shows "validateCuratedMemoryProjection sha256 ledger' (renderCuratedMemory ledger') \<and>
    length (ml_confirmed ledger') \<le> CURATED_MEMORY_CONFIRMED_MAX \<and> length (ml_archive ledger') \<le> CURATED_MEMORY_ARCHIVE_MAX \<and>
    (\<forall>l \<in> set (ml_confirmed ledger).
      ms_lessonId l \<in> ms_lessonId ` set (ml_confirmed ledger') \<union> mt_lessonId ` set (ml_archive ledger'))"
proof -
  have limits: ?thesis if completed: "completeCurrent ledger confirmed archive taken now sha256 = Memory_ready ledger' consumed"
    and kept: "\<forall>l \<in> set (ml_confirmed ledger). ms_lessonId l \<in> ms_lessonId ` set confirmed \<or>
      ms_lessonId l \<in> mt_lessonId ` set (last_entries CURATED_MEMORY_ARCHIVE_MAX archive)" for confirmed archive taken
  proof -
    note ready = completeCurrent_ready [OF completed]
    have "set (ml_confirmed ledger') = set confirmed" "length (ml_confirmed ledger') = length confirmed"
      using mset_eq_setD [OF ready(1)] mset_eq_length [OF ready(1)] by simp_all
    with ready kept show ?thesis by simp
  qed
  from assms(1) show ?thesis
  proof (cases proposal)
    case (Promote_current reviewer candidateIds title why remedy technology failureKind dependency)
    with assms(1) obtain l taken where "completeCurrent ledger (ml_confirmed ledger @ [l]) (ml_archive ledger) taken now sha256 =
        Memory_ready ledger' consumed"
      by (auto simp: reduceMemoryChangeV1_4_def promote_current_def split: option.splits if_splits)
    then show ?thesis by (rule limits) auto
  next
    case (Reinforce_current reviewer lessonId candidateIds)
    with assms(1) have "reinforce_current ledger candidates reviewer lessonId candidateIds now sha256 = Memory_ready ledger' consumed"
      by (simp add: reduceMemoryChangeV1_4_def split: if_splits)
    then obtain l r :: current_lesson and taken where "ms_lessonId r = ms_lessonId l" "completeCurrent ledger
        (map (\<lambda>v. if ms_lessonId v = ms_lessonId l then r else v) (ml_confirmed ledger)) (ml_archive ledger) taken now sha256 =
        Memory_ready ledger' consumed"
      by (rule reinforce_current_ready)
    note parts = this
    show ?thesis
    proof (rule limits [OF parts(2)], intro ballI disjI1)
      fix v assume "v \<in> set (ml_confirmed ledger)"
      with parts(1) show "ms_lessonId v \<in> ms_lessonId ` set (map (\<lambda>v. if ms_lessonId v = ms_lessonId l then r else v) (ml_confirmed ledger))"
        by (intro image_eqI [of _ _ "if ms_lessonId v = ms_lessonId l then r else v"]) simp_all
    qed
  next
    case (Merge_current reviewer lessonIds title)
    with assms(1) obtain source where source: "lessonsByIds (ml_confirmed ledger) lessonIds = Some source"
      "mergeCurrent ledger source reviewer now sha256 (Some title) = Memory_ready ledger' consumed"
      by (auto simp: reduceMemoryChangeV1_4_def split: option.splits if_splits)
    from merge_current_keeps [OF source assms(2)]
    have kept: "\<forall>l \<in> set (ml_confirmed ledger). l \<in> set (ml_confirmed ledger') \<or> ms_lessonId l \<in> mt_lessonId ` set (ml_archive ledger')"
      by blast
    obtain confirmed archive where completed: "completeCurrent ledger confirmed archive [] now sha256 = Memory_ready ledger' consumed"
      using source(2) by (auto simp: mergeCurrent_def Let_def split: list.splits if_splits)
    note ready = completeCurrent_ready [OF completed]
    with kept mset_eq_length [OF ready(1)] show ?thesis by auto
  next
    case (Archive_current reviewer lessonId reason)
    with assms(1) obtain l where completed: "completeCurrent ledger
        (filter (\<lambda>v. ms_lessonId v \<noteq> ms_lessonId l) (ml_confirmed ledger))
        (ml_archive ledger @ [currentTombstone l reviewer now reason None None]) [] now sha256 = Memory_ready ledger' consumed"
      by (auto simp: reduceMemoryChangeV1_4_def split: option.splits if_splits)
    have "currentTombstone l reviewer now reason None None \<in>
        set (last_entries CURATED_MEMORY_ARCHIVE_MAX (ml_archive ledger @ [currentTombstone l reviewer now reason None None]))"
      using last_entries_keep [of "[currentTombstone l reviewer now reason None None]" CURATED_MEMORY_ARCHIVE_MAX "ml_archive ledger"]
      by (simp add: CURATED_MEMORY_ARCHIVE_MAX_def)
    then have tomb: "ms_lessonId l \<in> mt_lessonId `
        set (last_entries CURATED_MEMORY_ARCHIVE_MAX (ml_archive ledger @ [currentTombstone l reviewer now reason None None]))"
      by (rule rev_image_eqI) (simp add: currentTombstone_def)
    show ?thesis by (rule limits [OF completed]) (use tomb in auto)
  qed
qed

end
