(* ===== verification/Spec2Isabelle.thy ===== *)
theory Spec2Isabelle
  imports Event_Runs Transaction_Aftermath Lease_Guard Gap_Records Scope_Document Criteria_Document Memory_Ledger
begin

text \<open>
  Kratos harness: the runtime that runs an agent's feature work through phases, under gates and
  approvals. The development models the core of \<open>src/packages/runtime/src\<close>: what the
  domain layer decides, what the composition layer records, and how recorded state is changed on
  disk. File names below are relative to that directory.

  \<^bold>\<open>How the parts interact.\<close> A command on a run reads the run's event log and snapshot, replays the
  log to the run's state, decides on that state and on what was observed (artifacts, approvals,
  evidence, gates), and drafts at most one event. The draft is sealed on the log's hash chain and
  prepared as an append: two managed writes, the log with one more line and the snapshot behind
  it. A managed transaction stages them, publishes them one after the other and commits, under the
  guard of a lease and of the contents it expects to find; an interrupted transaction is finished
  or undone by recovery. Leases are themselves decided by a policy and recorded on a log of their
  own. Beside this core stand the checks a delivery must pass: acceptance criteria and their
  verdicts, the lineage of artifacts, gaps, the guard in front of the agent's own writes, and
  the curated memory.

  \<^bold>\<open>The event core.\<close>
  \<^item> Gates: \<open>domain/gates\<close>, the closed table of gates, \<open>evaluateGates\<close>, the order and the
    aggregation of failures.
  \<^item> Event_Model: \<open>domain/events/model.ts\<close>, \<open>semantics.ts\<close>, \<open>redaction.ts\<close>; drafts, sealed
    events, the semantic policy, \<open>snapshotEventDraft\<close>.
  \<^item> Workflow_Reducer, Workflow_Runs: \<open>domain/workflow/model.ts\<close> and \<open>reducer.ts\<close>; the
    record \<open>workflow\<close> is the replayed state, \<open>reduceWorkflow\<close> and \<open>reduceWorkflowV1\<close> fold
    events into it, the invariant of a run and the edges of its phase machine follow.
  \<^item> Workflow_Decision: \<open>domain/workflow/decision.ts\<close>; start, continue, resolution of a
    repair stop and recorded facts, every guard in the order of the code.
  \<^item> Repair_Loop: \<open>domain/repair-loop\<close> and the acceptance draft of \<open>composition/workflow.ts\<close>.
  \<^item> Workflow_Delivery, Workflow_Properties: deciding and replaying together. The locales
    \<open>run_drafter\<close> and \<open>run_decider\<close> are what a decision function promises to the code that
    commits its event, interpreted for each of the four functions and for the acceptance
    command (of which the guards that read the reply itself come before and are left out); \<open>event_reducer\<close> of the prelude is the contract of a reducer.
  \<^item> Event_Codec, Event_Chain, Event_Replay: the JSON form of events, \<open>seal.ts\<close>, \<open>parse.ts\<close>,
    \<open>verify.ts\<close> and \<open>reduce.ts\<close> of \<open>domain/events\<close>; Event_Store: \<open>composition/events.ts\<close>;
    Event_Runs: a store is the history of the drafts appended to it.

  \<^bold>\<open>Managed transactions.\<close>
  \<^item> Managed_Paths: \<open>domain/paths/canonicalize.ts\<close> and the managed surface.
  \<^item> Transaction_Plan: effects, their normalization to operations (\<open>domain/transactions\<close>);
    Transaction_Recovery: manifest semantics and the recovery decision; Transaction_Documents:
    the JSON form of both documents, through the locale \<open>document_codec\<close>.
  \<^item> Durable_Storage: files, directories and durable primitives as
    \<open>infra/fake/transactions.ts\<close> has them, every boundary able to fail before or after its
    effect; a step returns the state even when it fails, so that nothing is rolled back silently.
  \<^item> Transaction_Driver: \<open>composition/transactions.ts\<close>, executor and recovery.
  \<^item> Transaction_Hoare, Transaction_States, Transaction_Steps, Transaction_Execution,
    Transaction_Results, Transaction_Recover, Transaction_Resume, Transaction_Unbound,
    Transaction_Aftermath: triples that follow every storage a boundary leaves behind, the crash
    states of a plan, and the refinement of both drivers to the effects of a prefix of the plan.

  \<^bold>\<open>Leases.\<close> Js_Date (the calendar behind the ISO timestamps), Lease_Scope (\<open>domain/locks/model.ts\<close>,
  \<open>scope.ts\<close>), Lease_Policy (\<open>policy.ts\<close>, histories of decisions as a step relation),
  Lease_Lifecycle (\<open>lifecycle.ts\<close>, the recorded lease against an abstract lock), Lease_Guard
  (which lock files a transaction's guard admits).

  \<^bold>\<open>Acceptance, guard, memory.\<close> Artifact_Lineage (\<open>domain/acceptance\<close>: \<open>validateLineageDag\<close>,
  \<open>decideDone\<close>), Criteria_Policy and Criteria_Document (\<open>domain/acceptance-criteria\<close>),
  Gap_Records (\<open>domain/gaps\<close>), Write_Guard and Scope_Document (\<open>domain/write-guard\<close>),
  Markdown_Lines (the line splitting those parsers share), Memory_Ledger
  (\<open>domain/memory/index.ts\<close>).

  \<^bold>\<open>Shared.\<close> Kratos_Prelude: JavaScript strings, sorting, sets, results and the locale
  \<open>js_comparator\<close>; Js_Order: sorting permutes; Canonical_Json:
  \<open>domain/schema/canonical-json.ts\<close> with the part of \<open>JSON.parse\<close> that reads canonical text.

  \<^bold>\<open>What the lemmas show.\<close> Per component: an invariant and that every operation keeps it (runs,
  leases, crash states, the ledger of memory), the outcome of an operation on every branch
  (gates, criteria, verdicts, lineage, write requests), round trips (canonical JSON, every
  document codec, sealed events, the scope document, rewritten checkboxes), bounds (log sizes,
  fencing tokens, phases repeated by the repair loop). Across components: every drafted event
  replays and, but for two exceptions shown exact, meets the store's policy, a request repeated
  settles, a store built by appends is the history of its drafts, an
  execution cut off anywhere shows a prefix of its plan, recoveries cut off any number of times
  settle it all or nothing, one undisturbed recovery does settle it, a lease decision can be
  recorded, and epochs of a lease neither overlap nor share tokens.

  \<^bold>\<open>Bounds and fuel.\<close> The loop \<open>for (;;)\<close> of recovery is bounded by fuel in the
  model, and running out of it is an error of its own; it settles within two turns more than the
  plan has operations, for the plans of at most 9999 operations whose identifiers keep their four
  digits. The JSON reader takes the length of its text as
  fuel, and the round trip of canonical JSON shows that enough. The other recursions terminate: the
  search in a lineage by the nodes not yet visited, the glob compiler and matcher by the lengths
  of pattern and path. Limits are those of the code: an event line of 64 KiB, a log of 64 MiB and
  100000 events, years from 0 to 9999, 126 criteria per document, globs of 1024 characters,
  24 lessons and 48 tombstones, integers of the documents within the safe range.

  \<^bold>\<open>Parameters.\<close> Not under the sources: SHA-256, the JSON Schema validator Ajv and
  \<open>localeCompare\<close>. They are arguments of the definitions; hypotheses on them are named in the
  theorems (the digest does not collide on the texts hashed, the validator admits the document
  at hand). A string is a list of its UTF-16 code units restricted to the Latin-1 range; where
  the code measures UTF-8 bytes, so does the model. Numbers of JSON documents are integers, printed
  without the exponent JavaScript uses from 1e21 on; the contracts' numbers are safe integers.

  \<^bold>\<open>Not modelled.\<close> The command line and the rendering of results, the wiring of ports,
  the Node adapters (system calls), the claim directories of \<open>composition/locks.ts\<close>, schema
  validation itself, initialization, migration, Git observation, measurements, hosts and
  adapters, hooks, diagnostics, prompts and their evaluation: input and output, text production
  or one-off conversions around the core. Of the memory, the scoring of proposals
  (Unicode tokenization) and the upgrade of older ledgers are left out.

  \<^bold>\<open>Behaviour worth knowing,\<close> each shown by a lemma: a double stop-loss cannot be recorded
  (\<open>double_stop_loss_unrecordable\<close>), a restart from a specification is not recognised as a
  repetition (\<open>restart_recorded_twice\<close>), a rejected verdict without failed criteria is recorded
  as passed, a legacy log that begins with a
  resumption replays to an active run without a phase, a transaction under the lease of a run with a
  very long name is refused (\<open>long_run_guard_refused\<close>), a checkbox inside a code fence is
  rewritten (\<open>fenced_example_rewritten\<close>), and under the current contract a merge can leave a
  lesson confirmed and archived at once (\<open>current_merge_unsound\<close>).
\<close>

end
